(* ===== verification/Prelude.thy ===== *)
theory Prelude
  imports Complex_Main "HOL-Library.AList" "HOL-Library.List_Lexorder" "HOL-Library.Char_ord"
begin

text \<open>
  What the components share: Python values (floats with their non-finite cases, JSON
  values, dictionaries that keep insertion order), exceptions as values of one error
  type, the two SQL idioms of the repositories (first matching row, conditional update
  with a row count) and the list lemmas that carry the component proofs.

  Numbers.  A Python \<open>float\<close> is \<open>Fin x\<close> with an exact rational \<open>x\<close>, or one of the
  three non-finite values; rounding of finite results is not modelled, overflow to an
  infinity is (\<open>fadd\<close>).  Where the code never meets a non-finite value a time is a
  plain \<open>rat\<close>.  Python's integers are \<open>int\<close> or, for counters that only grow,
  \<open>nat\<close>.  Timestamps written as ISO-8601 text in UTC are \<open>rat\<close> as well: such strings
  compare as the instants do.
\<close>

named_theorems sql_simps "equations of row selection and row update"
named_theorems py_simps "equations of the Python value layer"

section \<open>Python floats\<close>

datatype pyfloat = Fin rat | PosInf | NegInf | NaN

definition isfinite :: "pyfloat \<Rightarrow> bool" where
  "isfinite x = (case x of Fin _ \<Rightarrow> True | _ \<Rightarrow> False)"

text \<open>Sums of two finite doubles at or above this bound round to an infinity.\<close>

definition float_overflow :: rat where
  "float_overflow = 2 ^ 1024 - 2 ^ 970"

definition fin_or_inf :: "rat \<Rightarrow> pyfloat" where
  "fin_or_inf x = (if float_overflow \<le> x then PosInf
     else if x \<le> - float_overflow then NegInf else Fin x)"

fun fadd :: "pyfloat \<Rightarrow> pyfloat \<Rightarrow> pyfloat" where
  "fadd (Fin x) (Fin y) = fin_or_inf (x + y)"
| "fadd NaN _ = NaN"
| "fadd _ NaN = NaN"
| "fadd PosInf NegInf = NaN"
| "fadd NegInf PosInf = NaN"
| "fadd PosInf _ = PosInf"
| "fadd NegInf _ = NegInf"
| "fadd _ PosInf = PosInf"
| "fadd _ NegInf = NegInf"

lemma fin_or_inf_Fin [simp]: "fin_or_inf x = Fin y \<longleftrightarrow> y = x \<and> \<bar>x\<bar> < float_overflow"
  by (auto simp: fin_or_inf_def float_overflow_def)

lemma case_fin_or_inf [simp]:
  "(case fin_or_inf x of Fin e \<Rightarrow> f e | PosInf \<Rightarrow> g | NegInf \<Rightarrow> g | NaN \<Rightarrow> g) =
     (if \<bar>x\<bar> < float_overflow then f x else g)"
  by (auto simp: fin_or_inf_def float_overflow_def)

lemma isfinite_iff [py_simps]: "isfinite x \<longleftrightarrow> (\<exists>q. x = Fin q)"
  by (auto simp: isfinite_def split: pyfloat.splits)

section \<open>JSON values and dictionaries\<close>

text \<open>
  A dictionary is an association list in insertion order.  \<open>AList.update\<close> is item
  assignment (it keeps the place of an existing key and appends a new one),
  \<open>AList.delete\<close> is \<open>pop(key, None)\<close>, and \<open>dict_merge a b\<close> is \<open>{**a, **b}\<close>.
  Storing a value as JSON text and loading it back is the identity on these values.
\<close>

datatype json = JNull | JBool bool | JNum rat | JStr string
  | JArr "json list" | JObj "(string \<times> json) list"

type_synonym jdict = "(string \<times> json) list"

definition dict_merge :: "jdict \<Rightarrow> jdict \<Rightarrow> jdict" where
  "dict_merge a b = fold (\<lambda>(k, v). AList.update k v) b a"

definition dict_has :: "jdict \<Rightarrow> string \<Rightarrow> json \<Rightarrow> bool" where
  "dict_has d k v = (map_of d k = Some v)"

lemma map_of_update [py_simps]: "map_of (AList.update k v d) = (map_of d)(k \<mapsto> v)"
  by (rule update_conv')

lemma map_of_delete [py_simps]: "map_of (AList.delete k d) = (map_of d)(k := None)"
  by (rule delete_conv')

lemma map_of_dict_merge [py_simps]:
  assumes "distinct (map fst b)"
  shows "map_of (dict_merge a b) = map_of a ++ map_of b"
  using assms
proof (induction b arbitrary: a)
  case Nil
  then show ?case by (simp add: dict_merge_def)
next
  case (Cons p b)
  obtain k v where p: "p = (k, v)" by (cases p)
  from Cons have "map_of (dict_merge (AList.update k v a) b) = map_of (AList.update k v a) ++ map_of b"
    by simp
  moreover from Cons.prems have "map_of b k = None"
    by (auto simp: p map_of_eq_None_iff)
  ultimately show ?case
    by (auto simp: dict_merge_def p map_of_update map_add_def fun_eq_iff split: option.splits)
qed

text \<open>\<open>raw or default\<close> on an optional string: the empty string is false too.\<close>

definition or_str :: "string option \<Rightarrow> string \<Rightarrow> string" where
  "or_str a d = (case a of None \<Rightarrow> d | Some s \<Rightarrow> if s = [] then d else s)"

definition truthy_str :: "string option \<Rightarrow> bool" where
  "truthy_str a = (case a of None \<Rightarrow> False | Some s \<Rightarrow> s \<noteq> [])"

text \<open>
  A string is the list of its UTF-8 bytes, which compares as its code points do.  Where
  Python counts characters (\<open>len\<close>, slices), the continuation bytes do not count.
\<close>

definition utf8_cont :: "char \<Rightarrow> bool" where
  "utf8_cont c = (digit7 c \<and> \<not> digit6 c)"

fun utf8_length :: "string \<Rightarrow> nat" where
  "utf8_length [] = 0"
| "utf8_length (c # cs) = (if utf8_cont c then utf8_length cs else Suc (utf8_length cs))"

fun utf8_take :: "nat \<Rightarrow> string \<Rightarrow> string" where
  "utf8_take n [] = []"
| "utf8_take n (c # cs) = (if utf8_cont c then c # utf8_take n cs
     else if n = 0 then [] else c # utf8_take (n - 1) cs)"

lemma utf8_length_take: "utf8_length (utf8_take n s) = min n (utf8_length s)"
  by (induction n s rule: utf8_take.induct) auto

section \<open>Exceptions\<close>

text \<open>
  One type for every exception the modelled code raises; the argument carries what the
  caller can observe of it.
\<close>

datatype py_error =
    ValueError string
  | RuntimeError string
  | LeaseOwnershipError
  | InvalidWorkflowTransition string string
  | WorkflowConflictError
  | IntegrityError
  | ValidationError string

text \<open>\<open>bindE\<close> runs a step that may raise and continues with its value.\<close>

definition bindE :: "'e + 'a \<Rightarrow> ('a \<Rightarrow> 'e + 'b) \<Rightarrow> 'e + 'b" where
  "bindE x f = (case x of Inl e \<Rightarrow> Inl e | Inr a \<Rightarrow> f a)"

definition guardE :: "bool \<Rightarrow> 'e \<Rightarrow> 'e + unit" where
  "guardE b e = (if b then Inr () else Inl e)"

lemma bindE_simps [simp]: "bindE (Inl e) f = Inl e" "bindE (Inr a) f = f a"
  by (simp_all add: bindE_def)

lemma bindE_Inr_iff: "bindE x f = Inr y \<longleftrightarrow> (\<exists>a. x = Inr a \<and> f a = Inr y)"
  by (cases x) simp_all

lemma bindE_Inl_iff: "bindE x f = Inl e \<longleftrightarrow> x = Inl e \<or> (\<exists>a. x = Inr a \<and> f a = Inl e)"
  by (cases x) simp_all

lemma bindE_cong [fundef_cong]:
  "x = y \<Longrightarrow> (\<And>a. y = Inr a \<Longrightarrow> f a = g a) \<Longrightarrow> bindE x f = bindE y g"
  by (cases y) simp_all

text \<open>A result known by evaluation, as an equation.\<close>

lemma Inr_projr: "\<not> isl x \<and> fst (projr x) = a \<Longrightarrow> x = Inr (a, snd (projr x))"
  by (cases x) auto

lemma guardE_Inr_iff [simp]: "guardE b e = Inr u \<longleftrightarrow> b"
  by (simp add: guardE_def)

lemma guardE_Inl_iff [simp]: "guardE b e = Inl e' \<longleftrightarrow> \<not> b \<and> e' = e"
  by (auto simp: guardE_def)

text \<open>
  A transaction: an exception rolls the database back, a normal return commits.
\<close>

definition transact :: "('s \<Rightarrow> 'e + 'a \<times> 's) \<Rightarrow> 's \<Rightarrow> ('e + 'a) \<times> 's" where
  "transact f s = (case f s of Inl e \<Rightarrow> (Inl e, s) | Inr (a, s') \<Rightarrow> (Inr a, s'))"

lemma transact_simps [simp]:
  "f s = Inl e \<Longrightarrow> transact f s = (Inl e, s)"
  "f s = Inr (a, s') \<Longrightarrow> transact f s = (Inr a, s')"
  by (simp_all add: transact_def)

lemma transact_InlD: "transact f s = (Inl e, s') \<Longrightarrow> s' = s"
  by (auto simp: transact_def split: sum.splits prod.splits)

lemma transact_InrD: "transact f s = (Inr a, s') \<Longrightarrow> f s = Inr (a, s')"
  by (auto simp: transact_def split: sum.splits prod.splits)

section \<open>SQL idioms\<close>

text \<open>
  A table is the list of its rows in insertion order.  \<open>update_where p f\<close> is
  \<open>UPDATE ... SET f WHERE p\<close>, \<open>rowcount p\<close> the number of rows it changed,
  \<open>order_first key p\<close> is \<open>SELECT ... WHERE p ORDER BY key ASC LIMIT 1\<close>.
\<close>

definition update_where :: "('r \<Rightarrow> bool) \<Rightarrow> ('r \<Rightarrow> 'r) \<Rightarrow> 'r list \<Rightarrow> 'r list" where
  "update_where p f rows = map (\<lambda>r. if p r then f r else r) rows"

definition rowcount :: "('r \<Rightarrow> bool) \<Rightarrow> 'r list \<Rightarrow> nat" where
  "rowcount p rows = length (filter p rows)"

definition order_first :: "('r \<Rightarrow> 'k::linorder) \<Rightarrow> ('r \<Rightarrow> bool) \<Rightarrow> 'r list \<Rightarrow> 'r option" where
  "order_first key p rows =
     (case sort_key key (filter p rows) of [] \<Rightarrow> None | r # _ \<Rightarrow> Some r)"

lemma order_first_SomeD: "order_first key p rows = Some r \<Longrightarrow> r \<in> set rows \<and> p r"
proof -
  assume "order_first key p rows = Some r"
  then obtain rs where "sort_key key (filter p rows) = r # rs"
    by (auto simp: order_first_def split: list.splits)
  then have "r \<in> set (sort_key key (filter p rows))" by simp
  then show ?thesis by simp
qed

lemma order_first_None_iff: "order_first key p rows = None \<longleftrightarrow> (\<forall>r \<in> set rows. \<not> p r)"
proof -
  have "order_first key p rows = None \<longleftrightarrow> sort_key key (filter p rows) = []"
    by (auto simp: order_first_def split: list.splits)
  also have "\<dots> \<longleftrightarrow> set (sort_key key (filter p rows)) = {}"
    by (simp only: set_empty)
  also have "\<dots> \<longleftrightarrow> (\<forall>r \<in> set rows. \<not> p r)"
    by auto
  finally show ?thesis .
qed

lemma length_update_where [simp]: "length (update_where p f rows) = length rows"
  by (simp add: update_where_def)

lemma update_where_Nil [simp]: "update_where p f [] = []"
  by (simp add: update_where_def)

lemma set_update_where:
  "set (update_where p f rows) = {r. (\<exists>q \<in> set rows. r = (if p q then f q else q))}"
  by (auto simp: update_where_def)

lemma map_update_where_id:
  assumes "\<And>r. p r \<Longrightarrow> k (f r) = k r"
  shows "map k (update_where p f rows) = map k rows"
  using assms by (auto simp: update_where_def)

lemma filter_key_unique:
  assumes "distinct (map k rows)" "r \<in> set rows"
  shows "filter (\<lambda>q. k q = k r \<and> P q) rows = (if P r then [r] else [])"
  using assms
proof (induction rows)
  case Nil
  then show ?case by simp
next
  case (Cons a rows)
  show ?case
  proof (cases "a = r")
    case True
    with Cons.prems(1) have "k q \<noteq> k r" if "q \<in> set rows" for q
      using that by (auto simp: image_iff dest: sym)
    then have "filter (\<lambda>q. k q = k r \<and> P q) rows = []"
      by (simp add: filter_empty_conv)
    with True show ?thesis by simp
  next
    case False
    with Cons.prems have "r \<in> set rows" and "k a \<noteq> k r" by auto
    with Cons show ?thesis by simp
  qed
qed

lemma distinct_map_eqD:
  "distinct (map k rows) \<Longrightarrow> r \<in> set rows \<Longrightarrow> q \<in> set rows \<Longrightarrow> k r = k q \<Longrightarrow> r = q"
  by (simp add: distinct_map inj_on_def)

lemma find_SomeD: "List.find p rows = Some r \<Longrightarrow> r \<in> set rows \<and> p r"
  by (auto simp: find_Some_iff)

lemma find_update_where_hit:
  assumes "distinct (map k rows)" "List.find (\<lambda>q. k q = key) rows = Some r"
    "p r" "\<And>q. p q \<Longrightarrow> k (f q) = k q"
  shows "List.find (\<lambda>q. k q = key) (update_where p f rows) = Some (f r)"
  using assms(1,2)
proof (induction rows)
  case Nil
  then show ?case by simp
next
  case (Cons a rows)
  show ?case
  proof (cases "k a = key")
    case True
    with Cons.prems have "a = r" by simp
    with True assms(3,4) show ?thesis by (simp add: update_where_def)
  next
    case False
    with Cons.prems have "List.find (\<lambda>q. k q = key) rows = Some r" by simp
    with Cons have "List.find (\<lambda>q. k q = key) (update_where p f rows) = Some (f r)"
      by simp
    with False assms(4) show ?thesis
      by (simp add: update_where_def)
  qed
qed

text \<open>
  \<open>ORDER BY f ASC, g ASC\<close> as two stable sorts: the result is ordered lexicographically.
\<close>

definition lex_le :: "('r \<Rightarrow> 'k::linorder) \<Rightarrow> ('r \<Rightarrow> 'l::linorder) \<Rightarrow> 'r \<Rightarrow> 'r \<Rightarrow> bool" where
  "lex_le f g a b \<longleftrightarrow> f a < f b \<or> f a = f b \<and> g a \<le> g b"

lemma lex_le_trans: "lex_le f g a b \<Longrightarrow> lex_le f g b c \<Longrightarrow> lex_le f g a c"
  unfolding lex_le_def by (metis dual_order.strict_trans order_trans)

lemma lex_le_linear: "lex_le f g a b \<or> lex_le f g b a"
  unfolding lex_le_def by (metis antisym_conv3 linear)

lemma insort_key_lex:
  assumes "sorted_wrt (lex_le f g) ys" "\<forall>y \<in> set ys. g x \<le> g y"
  shows "sorted_wrt (lex_le f g) (insort_key f x ys)"
  using assms
proof (induction ys)
  case (Cons y ys)
  show ?case
  proof (cases "f x \<le> f y")
    case True
    with Cons.prems(2) have "lex_le f g x y" by (auto simp: lex_le_def)
    with Cons.prems(1) True show ?thesis by (auto intro: lex_le_trans)
  next
    case False
    then have "lex_le f g y x" by (simp add: lex_le_def not_le)
    with Cons False show ?thesis by (auto simp: set_insort_key)
  qed
qed simp

lemma sort_key_lex: "sorted_wrt (lex_le f g) (sort_key f (sort_key g xs))"
proof -
  have "sorted (map g ys) \<Longrightarrow> sorted_wrt (lex_le f g) (sort_key f ys)" for ys
    by (induction ys) (auto intro: insort_key_lex)
  then show ?thesis by simp
qed

lemmas sql_defs = update_where_def rowcount_def order_first_def

section \<open>Largest element with a default\<close>

definition max0 :: "nat list \<Rightarrow> nat" where
  "max0 xs = foldr max xs 0"

lemma max0_Max: "max0 xs = Max (insert 0 (set xs))"
proof (induction xs)
  case Nil
  then show ?case by (simp add: max0_def)
next
  case (Cons x xs)
  have "max0 (x # xs) = max x (max0 xs)" by (simp add: max0_def)
  also have "\<dots> = Max (insert x (insert 0 (set xs)))" by (simp add: Cons)
  finally show ?case by (simp add: insert_commute)
qed

lemma max0_upto: "max0 [1..<Suc n] = n"
  unfolding max0_Max by (rule Max_eqI) auto

section \<open>Numbers as text\<close>

text \<open>Decimal digits, as an f-string writes an integer.\<close>

fun show_nat :: "nat \<Rightarrow> string" where
  "show_nat n = (if n < 10 then [char_of (48 + n)] else show_nat (n div 10) @ [char_of (48 + n mod 10)])"

declare show_nat.simps [simp del]

definition show_int :: "int \<Rightarrow> string" where
  "show_int i = (if i < 0 then ''-'' @ show_nat (nat (- i)) else show_nat (nat i))"

text \<open>\<open>int(x)\<close> of a finite float truncates towards zero.\<close>

definition py_int :: "rat \<Rightarrow> int" where
  "py_int x = (if x < 0 then - \<lfloor>- x\<rfloor> else \<lfloor>x\<rfloor>)"

end
