(* ===== verification/Systems.thy ===== *)
theory Systems
  imports Prelude
begin

text \<open>
  Interfaces of state machines, stated as locales so that each component proves only its
  one-step laws and obtains the facts about whole runs by interpretation:
  an invariant kept by every step, a set of final states that no step leaves, and a store
  of fenced leases whose tokens, once lost, stay lost.
\<close>

locale invariant_system =
  fixes init :: "'s \<Rightarrow> bool"
    and step :: "'s \<Rightarrow> 's \<Rightarrow> bool"
    and inv :: "'s \<Rightarrow> bool"
  assumes inv_init: "init s \<Longrightarrow> inv s"
    and inv_step: "inv s \<Longrightarrow> step s t \<Longrightarrow> inv t"
begin

lemma inv_star: "step\<^sup>*\<^sup>* s t \<Longrightarrow> inv s \<Longrightarrow> inv t"
  by (induction rule: rtranclp_induct) (auto intro: inv_step)

lemma reachable_inv: "init s \<Longrightarrow> step\<^sup>*\<^sup>* s t \<Longrightarrow> inv t"
  by (blast intro: inv_star inv_init)

text \<open>A relation that every step establishes, reflexive and transitive, holds along runs.\<close>

lemma star_relation:
  assumes "step\<^sup>*\<^sup>* s t" "inv s"
    and "\<And>x. R x x" "\<And>x y z. R x y \<Longrightarrow> R y z \<Longrightarrow> R x z"
    and "\<And>x y. inv x \<Longrightarrow> step x y \<Longrightarrow> R x y"
  shows "R s t"
  using assms(1)
proof (induction rule: rtranclp_induct)
  case base
  show ?case by (rule assms(3))
next
  case (step y z)
  from step.hyps(1) have "inv y" using assms(2) by (rule inv_star)
  with step.hyps(2) have "R y z" by (rule assms(5)[rotated])
  with step.IH show ?case by (rule assms(4))
qed

end

text \<open>
  A machine with final states: \<open>final\<close> names, per key, the states that are kept for good.
\<close>

locale absorbing_system = invariant_system +
  fixes view :: "'s \<Rightarrow> 'k \<Rightarrow> 'v option"
    and final :: "'v \<Rightarrow> bool"
  assumes final_step: "inv s \<Longrightarrow> step s t \<Longrightarrow> view s k = Some v \<Longrightarrow> final v \<Longrightarrow> view t k = Some v"
begin

lemma final_star:
  assumes "step\<^sup>*\<^sup>* s t" "inv s" "view s k = Some v" "final v"
  shows "view t k = Some v"
  using assms(1)
proof (induction rule: rtranclp_induct)
  case base
  show ?case by (rule assms(3))
next
  case (step y z)
  from step.hyps(1) have "inv y" using assms(2) by (rule inv_star)
  from this step.hyps(2) step.IH assms(4) show ?case by (rule final_step)
qed

end

locale fenced_store = invariant_system +
  fixes issued :: "'s \<Rightarrow> 't set"
    and owned :: "'s \<Rightarrow> 't \<Rightarrow> bool"
    and res :: "'t \<Rightarrow> 'k"
    and fence :: "'t \<Rightarrow> int"
    and holder :: "'t \<Rightarrow> 'h"
  assumes issued_step: "inv s \<Longrightarrow> step s t \<Longrightarrow> issued s \<subseteq> issued t"
    and fence_holder: "inv s \<Longrightarrow> a \<in> issued s \<Longrightarrow> b \<in> issued s \<Longrightarrow> res a = res b \<Longrightarrow>
      fence a = fence b \<Longrightarrow> holder a = holder b"
    and owned_fence: "inv s \<Longrightarrow> a \<in> issued s \<Longrightarrow> b \<in> issued s \<Longrightarrow> res a = res b \<Longrightarrow>
      owned s a \<Longrightarrow> owned s b \<Longrightarrow> fence a = fence b"
    and lost_step: "inv s \<Longrightarrow> step s t \<Longrightarrow> a \<in> issued s \<Longrightarrow> \<not> owned s a \<Longrightarrow> \<not> owned t a"
begin

lemma exclusive:
  "inv s \<Longrightarrow> a \<in> issued s \<Longrightarrow> b \<in> issued s \<Longrightarrow> res a = res b \<Longrightarrow>
     owned s a \<Longrightarrow> owned s b \<Longrightarrow> fence a = fence b \<and> holder a = holder b"
  by (blast intro: owned_fence fence_holder)

lemma issued_star: "step\<^sup>*\<^sup>* s t \<Longrightarrow> inv s \<Longrightarrow> issued s \<subseteq> issued t"
  by (rule star_relation[where R = "\<lambda>x y. issued x \<subseteq> issued y"]) (auto dest: issued_step)

lemma never_revived:
  assumes "step\<^sup>*\<^sup>* s t" "inv s" "a \<in> issued s" "\<not> owned s a"
  shows "\<not> owned t a"
  using assms(1)
proof (induction rule: rtranclp_induct)
  case base
  show ?case by (rule assms(4))
next
  case (step y z)
  have "inv y" "a \<in> issued y"
    using step.hyps(1) assms(2,3) by (auto dest: inv_star issued_star)
  with step.hyps(2) step.IH show ?case by (blast dest: lost_step)
qed

end

text \<open>
  Sliding windows.  \<open>log\<close> is the list of admitted events, newest first; a step admits at most one, and one
  that \<open>P\<close> concerns only while fewer than \<open>limit\<close> such events are younger than \<open>span\<close>.  Then no interval of
  that length holds more than \<open>limit\<close> of them.
\<close>

locale rate_limited =
  fixes init :: "'s \<Rightarrow> bool"
    and step :: "'s \<Rightarrow> 's \<Rightarrow> bool"
    and log :: "'s \<Rightarrow> 'e list"
    and time :: "'e \<Rightarrow> rat"
    and P :: "'e \<Rightarrow> bool"
    and span :: rat
    and limit :: nat
  assumes init_log: "init s \<Longrightarrow> log s = []"
    and step_log: "init s0 \<Longrightarrow> step\<^sup>*\<^sup>* s0 s \<Longrightarrow> step s t \<Longrightarrow> log t = log s \<or>
      (\<exists>e. log t = e # log s \<and> (P e \<longrightarrow> length (filter (\<lambda>x. P x \<and> time e - span < time x) (log s)) < limit))"
begin

lemma length_filter_le: "(\<And>x. x \<in> set xs \<Longrightarrow> A x \<Longrightarrow> B x) \<Longrightarrow> length (filter A xs) \<le> length (filter B xs)"
  by (induction xs) (auto simp: le_SucI)

lemma window_bound:
  assumes "init s0" "step\<^sup>*\<^sup>* s0 s"
  shows "length (filter (\<lambda>x. P x \<and> a < time x \<and> time x \<le> a + span) (log s)) \<le> limit"
  using assms(2)
proof (induction rule: rtranclp_induct)
  case base
  show ?case using init_log[OF assms(1)] by simp
next
  case (step y z)
  from step_log[OF assms(1) step.hyps] show ?case
  proof (elim disjE exE conjE)
    fix e assume e: "log z = e # log y" "P e \<longrightarrow> length (filter (\<lambda>x. P x \<and> time e - span < time x) (log y)) < limit"
    show ?case
    proof (cases "P e \<and> a < time e \<and> time e \<le> a + span")
      case True
      have "length (filter (\<lambda>x. P x \<and> a < time x \<and> time x \<le> a + span) (log y)) \<le>
          length (filter (\<lambda>x. P x \<and> time e - span < time x) (log y))"
        using True by (intro length_filter_le) auto
      with e True show ?thesis by simp
    next
      case False
      with e(1) step.IH show ?thesis by auto
    qed
  qed (use step.IH in simp)
qed

end

end
