(* ===== verification/ExecLease.thy ===== *)
theory ExecLease
  imports Systems
begin

text \<open>
  \<open>ExecutionLeaseStore\<close> (\<open>backend/app/runtime/execution_lease.py\<close>): leases with fencing
  tokens in the table \<open>execution_leases\<close>, whose primary key is
  (tenant, owner, resource kind, resource id).  Every operation takes the reading of the
  store's clock, returns its value or the exception, and the new table; each one is a
  single SQL statement of the code, hence atomic.  The second half is the system of
  holders acquiring, renewing and releasing terms while the clock runs forward.
\<close>

section \<open>State\<close>

type_synonym lease_key = "string \<times> string \<times> string \<times> string"

record lease_row =
  lr_holder :: string
  lr_fence :: int
  lr_expires :: rat
  lr_heartbeat :: rat

record lease_token =
  tk_tenant :: string
  tk_owner :: string
  tk_kind :: string
  tk_resource :: string
  tk_holder :: string
  tk_fence :: int
  tk_expires :: rat
  tk_heartbeat :: rat

type_synonym lease_table = "lease_key \<Rightarrow> lease_row option"

definition tk_key :: "lease_token \<Rightarrow> lease_key" where
  "tk_key t = (tk_tenant t, tk_owner t, tk_kind t, tk_resource t)"

fun row_to_token :: "lease_key \<Rightarrow> lease_row \<Rightarrow> lease_token" where
  "row_to_token (ten, own, kind, res) r =
     \<lparr>tk_tenant = ten, tk_owner = own, tk_kind = kind, tk_resource = res,
      tk_holder = lr_holder r, tk_fence = lr_fence r,
      tk_expires = lr_expires r, tk_heartbeat = lr_heartbeat r\<rparr>"

section \<open>Operations\<close>

definition validate_identity :: "string list \<Rightarrow> py_error + unit" where
  "validate_identity vs = guardE (\<forall>v \<in> set vs. v \<noteq> [])
     (ValueError ''lease scope, resource, and holder identifiers must be non-empty'')"

definition lease_now :: "pyfloat \<Rightarrow> py_error + rat" where
  "lease_now clk = (case clk of
       Fin x \<Rightarrow> if x < 0
         then Inl (ValueError ''clock must return a finite non-negative epoch value'')
         else Inr x
     | _ \<Rightarrow> Inl (ValueError ''clock must return a finite non-negative epoch value''))"

definition lease_term :: "pyfloat \<Rightarrow> pyfloat \<Rightarrow> py_error + rat \<times> rat" where
  "lease_term ttl clk = (case ttl of
       Fin d \<Rightarrow>
         (if d \<le> 0 then Inl (ValueError ''ttl_seconds must be a finite positive number'')
          else bindE (lease_now clk) (\<lambda>now.
            case fadd (Fin now) (Fin d) of
              Fin e \<Rightarrow> Inr (now, e)
            | _ \<Rightarrow> Inl (ValueError ''lease expiration must be finite'')))
     | _ \<Rightarrow> Inl (ValueError ''ttl_seconds must be a finite positive number''))"

definition lease_acquire ::
    "pyfloat \<Rightarrow> lease_key \<Rightarrow> string \<Rightarrow> pyfloat \<Rightarrow> lease_table
      \<Rightarrow> py_error + lease_token option \<times> lease_table" where
  "lease_acquire clk key h ttl db = (case key of (ten, own, kind, res) \<Rightarrow>
     bindE (validate_identity [ten, own, kind, res, h]) (\<lambda>_.
     bindE (lease_term ttl clk) (\<lambda>(now, e).
       case db key of
         None \<Rightarrow>
           (let r = \<lparr>lr_holder = h, lr_fence = 1, lr_expires = e, lr_heartbeat = now\<rparr>
            in Inr (Some (row_to_token key r), db(key \<mapsto> r)))
       | Some old \<Rightarrow>
           (if lr_expires old \<le> now
            then (let r = \<lparr>lr_holder = h, lr_fence = lr_fence old + 1,
                           lr_expires = e, lr_heartbeat = now\<rparr>
                  in Inr (Some (row_to_token key r), db(key \<mapsto> r)))
            else Inr (None, db)))))"

text \<open>The \<open>WHERE\<close> clause shared by renewal, release and the ownership check.\<close>

definition live_row :: "rat \<Rightarrow> lease_token \<Rightarrow> lease_table \<Rightarrow> lease_row option" where
  "live_row now t db = (case db (tk_key t) of
       None \<Rightarrow> None
     | Some r \<Rightarrow> if lr_holder r = tk_holder t \<and> lr_fence r = tk_fence t \<and> now < lr_expires r
                then Some r else None)"

definition lease_renew ::
    "pyfloat \<Rightarrow> lease_token \<Rightarrow> pyfloat \<Rightarrow> lease_table
      \<Rightarrow> py_error + lease_token option \<times> lease_table" where
  "lease_renew clk t ttl db =
     bindE (lease_term ttl clk) (\<lambda>(now, e).
       case live_row now t db of
         None \<Rightarrow> Inr (None, db)
       | Some r \<Rightarrow>
           (let r' = r\<lparr>lr_expires := e, lr_heartbeat := now\<rparr>
            in Inr (Some (row_to_token (tk_key t) r'), db(tk_key t \<mapsto> r'))))"

definition lease_release ::
    "pyfloat \<Rightarrow> lease_token \<Rightarrow> lease_table \<Rightarrow> py_error + bool \<times> lease_table" where
  "lease_release clk t db =
     bindE (lease_now clk) (\<lambda>now.
       case live_row now t db of
         None \<Rightarrow> Inr (False, db)
       | Some r \<Rightarrow> Inr (True, db(tk_key t \<mapsto> r\<lparr>lr_expires := 0, lr_heartbeat := now\<rparr>)))"

definition check_owned :: "pyfloat \<Rightarrow> lease_token \<Rightarrow> lease_table \<Rightarrow> py_error + bool" where
  "check_owned clk t db = bindE (lease_now clk) (\<lambda>now. Inr (live_row now t db \<noteq> None))"

definition assert_owned :: "pyfloat \<Rightarrow> lease_token \<Rightarrow> lease_table \<Rightarrow> py_error + unit" where
  "assert_owned clk t db =
     bindE (check_owned clk t db) (\<lambda>ok. guardE ok LeaseOwnershipError)"

section \<open>Behaviour of one operation\<close>

lemma tk_key_row_to_token [simp]: "tk_key (row_to_token key r) = key"
  by (cases key) (simp add: tk_key_def)

lemma row_to_token_sel [simp]:
  "tk_holder (row_to_token key r) = lr_holder r"
  "tk_fence (row_to_token key r) = lr_fence r"
  "tk_expires (row_to_token key r) = lr_expires r"
  by (cases key, simp)+

lemma live_row_SomeD:
  "live_row now t db = Some r \<Longrightarrow>
     db (tk_key t) = Some r \<and> lr_holder r = tk_holder t \<and> lr_fence r = tk_fence t \<and> now < lr_expires r"
  by (auto simp: live_row_def split: option.splits if_splits)

lemma live_row_iff:
  "live_row now t db \<noteq> None \<longleftrightarrow>
     (\<exists>r. db (tk_key t) = Some r \<and> lr_holder r = tk_holder t \<and> lr_fence r = tk_fence t \<and> now < lr_expires r)"
  by (auto simp: live_row_def split: option.splits)

lemma lease_now_Inr [simp]: "lease_now clk = Inr now \<longleftrightarrow> clk = Fin now \<and> 0 \<le> now"
  by (auto simp: lease_now_def split: pyfloat.splits)

lemma lease_term_Inr:
  "lease_term ttl clk = Inr (now, e) \<longleftrightarrow>
     (\<exists>d. ttl = Fin d \<and> 0 < d \<and> clk = Fin now \<and> 0 \<le> now \<and> e = now + d \<and> \<bar>e\<bar> < float_overflow)"
  by (cases ttl) (auto simp: lease_term_def bindE_Inr_iff)

lemma validate_identity_Inr [simp]: "validate_identity vs = Inr u \<longleftrightarrow> [] \<notin> set vs"
  by (auto simp: validate_identity_def)

lemma check_owned_Inr [simp]:
  "check_owned clk t db = Inr b \<longleftrightarrow> (\<exists>now. clk = Fin now \<and> 0 \<le> now \<and> b = (live_row now t db \<noteq> None))"
  by (auto simp: check_owned_def bindE_Inr_iff)

lemma assert_owned_Inr [simp]:
  "assert_owned clk t db = Inr u \<longleftrightarrow> (\<exists>now. clk = Fin now \<and> 0 \<le> now \<and> live_row now t db \<noteq> None)"
  by (auto simp: assert_owned_def bindE_Inr_iff)

lemma float_small: "\<bar>x\<bar> \<le> 1000000 \<Longrightarrow> \<bar>x\<bar> < float_overflow"
  by (simp add: float_overflow_def)

lemma lease_term_small:
  "0 < d \<Longrightarrow> 0 \<le> now \<Longrightarrow> now + d \<le> 1000000 \<Longrightarrow> lease_term (Fin d) (Fin now) = Inr (now, now + d)"
  unfolding lease_term_Inr by (intro exI[of _ d] conjI float_small) simp_all

text \<open>Acquisition of a free or expired key, written out.\<close>

lemma lease_acquire_free:
  assumes "lease_term (Fin d) (Fin now) = Inr (now, e)" "[] \<notin> {ten, own, kind, res, h}"
    and "\<forall>old. db (ten, own, kind, res) = Some old \<longrightarrow> lr_expires old \<le> now"
  shows "lease_acquire (Fin now) (ten, own, kind, res) h (Fin d) db =
    (let r = \<lparr>lr_holder = h, lr_fence = (case db (ten, own, kind, res) of None \<Rightarrow> 1 | Some old \<Rightarrow> lr_fence old + 1),
              lr_expires = e, lr_heartbeat = now\<rparr>
     in Inr (Some (row_to_token (ten, own, kind, res) r), db((ten, own, kind, res) \<mapsto> r)))"
proof -
  have v: "validate_identity [ten, own, kind, res, h] = Inr ()" using assms(2) by auto
  from assms(1,3) show ?thesis
    by (cases "db (ten, own, kind, res)") (simp_all add: lease_acquire_def Let_def v)
qed

text \<open>What a successful acquisition did: the token is the new row, whose fence is one more.\<close>

lemma lease_acquire_SomeD:
  assumes "lease_acquire (Fin now) key h ttl db = Inr (Some t, db')"
  obtains r where "db' = db(key \<mapsto> r)" "t = row_to_token key r" "lr_holder r = h"
    "now < lr_expires r"
    "lr_fence r = (case db key of None \<Rightarrow> 1 | Some o' \<Rightarrow> lr_fence o' + 1)"
    "\<forall>o'. db key = Some o' \<longrightarrow> lr_expires o' \<le> now"
proof (cases "db key")
  case None
  with assms show ?thesis
    by (cases key)
      (auto simp: lease_acquire_def bindE_Inr_iff lease_term_Inr Let_def intro!: that)
next
  case (Some old)
  with assms have "lr_expires old \<le> now"
    by (cases key)
      (auto simp: lease_acquire_def bindE_Inr_iff lease_term_Inr Let_def split: if_splits)
  with Some assms show ?thesis
    by (cases key)
      (auto simp: lease_acquire_def bindE_Inr_iff lease_term_Inr Let_def intro!: that)
qed

lemma lease_acquire_NoneD:
  assumes "lease_acquire (Fin now) key h ttl db = Inr (None, db')"
  shows "db' = db \<and> (\<exists>r. db key = Some r \<and> now < lr_expires r)"
  using assms
  by (cases key; cases "db key")
    (auto simp: lease_acquire_def bindE_Inr_iff lease_term_Inr Let_def split: if_splits)

lemma lease_renew_SomeD:
  assumes "lease_renew (Fin now) t ttl db = Inr (Some t', db')"
  obtains r r' where "live_row now t db = Some r" "db' = db(tk_key t \<mapsto> r')"
    "t' = row_to_token (tk_key t) r'" "lr_holder r' = lr_holder r" "lr_fence r' = lr_fence r"
    "now < lr_expires r'"
  using assms
  by (auto simp: lease_renew_def bindE_Inr_iff lease_term_Inr Let_def split: option.splits)

lemma lease_release_InrD:
  assumes "lease_release (Fin now) t db = Inr (b, db')"
  shows "(b \<and> 0 \<le> now \<and> (\<exists>r. live_row now t db = Some r \<and>
            db' = db(tk_key t \<mapsto> r\<lparr>lr_expires := 0, lr_heartbeat := now\<rparr>)))
       \<or> (\<not> b \<and> live_row now t db = None \<and> db' = db)"
  using assms by (auto simp: lease_release_def bindE_Inr_iff split: option.splits)

section \<open>Holders, terms and a clock that runs forward\<close>

record lease_sys =
  ls_table :: lease_table
  ls_now :: rat
  ls_issued :: "lease_token list"

definition lease_init :: "lease_sys \<Rightarrow> bool" where
  "lease_init s \<longleftrightarrow> ls_table s = Map.empty \<and> ls_now s = 0 \<and> ls_issued s = []"

inductive lease_step :: "lease_sys \<Rightarrow> lease_sys \<Rightarrow> bool" where
  step_acquire: "lease_acquire (Fin (ls_now s)) key h ttl (ls_table s) = Inr (Some t, db') \<Longrightarrow>
    lease_step s (s\<lparr>ls_table := db', ls_issued := t # ls_issued s\<rparr>)"
| step_refused: "lease_acquire (Fin (ls_now s)) key h ttl (ls_table s) = Inr (None, db') \<Longrightarrow>
    lease_step s (s\<lparr>ls_table := db'\<rparr>)"
| step_renew: "t \<in> set (ls_issued s) \<Longrightarrow>
    lease_renew (Fin (ls_now s)) t ttl (ls_table s) = Inr (Some t', db') \<Longrightarrow>
    lease_step s (s\<lparr>ls_table := db', ls_issued := t' # ls_issued s\<rparr>)"
| step_release: "t \<in> set (ls_issued s) \<Longrightarrow>
    lease_release (Fin (ls_now s)) t (ls_table s) = Inr (b, db') \<Longrightarrow>
    lease_step s (s\<lparr>ls_table := db'\<rparr>)"
| step_clock: "ls_now s \<le> n \<Longrightarrow> lease_step s (s\<lparr>ls_now := n\<rparr>)"

inductive_cases lease_stepE: "lease_step s t"

definition ls_owned :: "lease_sys \<Rightarrow> lease_token \<Rightarrow> bool" where
  "ls_owned s t \<longleftrightarrow> live_row (ls_now s) t (ls_table s) \<noteq> None"

text \<open>
  The invariant: the clock is non-negative, every issued token's row still exists with a
  fence at least the token's, the row of the current fence names the token's holder, and
  one (resource, fence) pair belongs to one holder.
\<close>

definition token_ok :: "lease_table \<Rightarrow> lease_token \<Rightarrow> bool" where
  "token_ok db t \<longleftrightarrow> (\<exists>r. db (tk_key t) = Some r \<and> tk_fence t \<le> lr_fence r \<and>
     (tk_fence t = lr_fence r \<longrightarrow> tk_holder t = lr_holder r))"

primrec one_holder :: "lease_token list \<Rightarrow> bool" where
  "one_holder [] = True"
| "one_holder (t # ts) = (one_holder ts \<and>
     (\<forall>u \<in> set ts. tk_key u = tk_key t \<longrightarrow> tk_fence u = tk_fence t \<longrightarrow> tk_holder u = tk_holder t))"

lemma one_holderD:
  "one_holder ts \<Longrightarrow> t \<in> set ts \<Longrightarrow> u \<in> set ts \<Longrightarrow> tk_key t = tk_key u \<Longrightarrow>
     tk_fence t = tk_fence u \<Longrightarrow> tk_holder t = tk_holder u"
proof (induction ts)
  case Nil
  then show ?case by simp
next
  case (Cons a ts)
  note ih = Cons.IH and holds = Cons.prems
  show ?case
  proof (cases "t = a"; cases "u = a")
    assume "t = a" "u = a"
    then show ?thesis by simp
  next
    assume "t = a" "u \<noteq> a"
    with holds show ?thesis by auto
  next
    assume "t \<noteq> a" "u = a"
    with holds show ?thesis by auto
  next
    assume "t \<noteq> a" "u \<noteq> a"
    with holds(1-3) have "one_holder ts" "t \<in> set ts" "u \<in> set ts" by auto
    then show ?thesis using holds(4,5) by (rule ih)
  qed
qed

definition lease_inv :: "lease_sys \<Rightarrow> bool" where
  "lease_inv s \<longleftrightarrow> 0 \<le> ls_now s \<and> one_holder (ls_issued s) \<and>
     (\<forall>t \<in> set (ls_issued s). token_ok (ls_table s) t)"

lemma lease_inv_init: "lease_init s \<Longrightarrow> lease_inv s"
  by (simp add: lease_inv_def lease_init_def)

text \<open>Replacing a row keeps every issued token in order when the fence grows or stays.\<close>

lemma token_ok_upd:
  assumes "token_ok db t"
    "\<And>r. db key = Some r \<Longrightarrow> lr_fence r < lr_fence r' \<or> lr_fence r = lr_fence r' \<and> lr_holder r = lr_holder r'"
  shows "token_ok (db(key \<mapsto> r')) t"
proof (cases "tk_key t = key")
  case True
  with assms(1) obtain r where "db key = Some r" "tk_fence t \<le> lr_fence r"
    "tk_fence t = lr_fence r \<longrightarrow> tk_holder t = lr_holder r"
    by (auto simp: token_ok_def)
  with assms(2)[of r] True show ?thesis by (auto simp: token_ok_def)
next
  case False
  with assms(1) show ?thesis by (auto simp: token_ok_def)
qed

lemma lease_inv_new_token:
  assumes inv: "lease_inv s"
    and new: "tk_key t = key" "tk_fence t = lr_fence r'" "tk_holder t = lr_holder r'"
    and upd: "\<And>r. ls_table s key = Some r \<Longrightarrow>
        lr_fence r < lr_fence r' \<or> lr_fence r = lr_fence r' \<and> lr_holder r = lr_holder r'"
  shows "lease_inv (s\<lparr>ls_table := (ls_table s)(key \<mapsto> r'), ls_issued := t # ls_issued s\<rparr>)"
proof -
  have old: "tk_holder u = lr_holder r'"
    if u: "u \<in> set (ls_issued s)" "tk_key u = key" "tk_fence u = lr_fence r'" for u
  proof -
    from inv u(1) have "token_ok (ls_table s) u" by (auto simp: lease_inv_def)
    with u upd show ?thesis unfolding token_ok_def by fastforce
  qed
  have ok: "token_ok ((ls_table s)(key \<mapsto> r')) u" if "u \<in> set (ls_issued s)" for u
    using inv that upd by (intro token_ok_upd) (auto simp: lease_inv_def)
  have "token_ok ((ls_table s)(key \<mapsto> r')) t"
    using new by (simp add: token_ok_def)
  with inv ok old new show ?thesis
    by (simp add: lease_inv_def)
qed

lemma lease_inv_same_tokens:
  assumes "lease_inv s" "\<And>r. ls_table s key = Some r \<Longrightarrow> lr_fence r = lr_fence r' \<and> lr_holder r = lr_holder r'"
  shows "lease_inv (s\<lparr>ls_table := (ls_table s)(key \<mapsto> r')\<rparr>)"
proof -
  have "token_ok ((ls_table s)(key \<mapsto> r')) u" if "u \<in> set (ls_issued s)" for u
    using assms that by (intro token_ok_upd) (auto simp: lease_inv_def)
  with assms(1) show ?thesis by (auto simp: lease_inv_def)
qed

lemma lease_inv_step:
  assumes "lease_inv s" "lease_step s s'"
  shows "lease_inv s'"
  using assms(2)
proof cases
  case (step_acquire key h ttl t db')
  from step_acquire(2) obtain r where "db' = (ls_table s)(key \<mapsto> r)" "t = row_to_token key r"
    "lr_fence r = (case ls_table s key of None \<Rightarrow> 1 | Some o' \<Rightarrow> lr_fence o' + 1)"
    by (rule lease_acquire_SomeD)
  with step_acquire(1) assms(1) show ?thesis
    by (auto intro!: lease_inv_new_token)
next
  case (step_refused key h ttl db')
  with assms(1) show ?thesis by (auto dest: lease_acquire_NoneD)
next
  case (step_renew t ttl t' db')
  from step_renew(3) obtain r r' where "live_row (ls_now s) t (ls_table s) = Some r"
    "db' = (ls_table s)(tk_key t \<mapsto> r')" "t' = row_to_token (tk_key t) r'"
    "lr_holder r' = lr_holder r" "lr_fence r' = lr_fence r"
    by (rule lease_renew_SomeD)
  with step_renew(1) assms(1) show ?thesis
    by (auto intro!: lease_inv_new_token dest: live_row_SomeD)
next
  case (step_release t b db')
  from lease_release_InrD[OF step_release(3)] show ?thesis
    using step_release(1) assms(1)
    by (auto intro!: lease_inv_same_tokens dest!: live_row_SomeD)
next
  case (step_clock n)
  with assms(1) show ?thesis by (auto simp: lease_inv_def)
qed

text \<open>A step never gives a token its ownership back.\<close>

lemma ls_owned_iff:
  "ls_owned s t \<longleftrightarrow> (\<exists>r. ls_table s (tk_key t) = Some r \<and> lr_holder r = tk_holder t \<and>
      lr_fence r = tk_fence t \<and> ls_now s < lr_expires r)"
  unfolding ls_owned_def by (rule live_row_iff)

lemma lease_lost_step:
  assumes inv: "lease_inv s" and st: "lease_step s s'"
    and a: "a \<in> set (ls_issued s)" and lost: "\<not> ls_owned s a"
  shows "\<not> ls_owned s' a"
  using st
proof cases
  case (step_acquire key h ttl t db')
  from step_acquire(2) obtain r where r: "db' = (ls_table s)(key \<mapsto> r)"
    "lr_fence r = (case ls_table s key of None \<Rightarrow> 1 | Some o' \<Rightarrow> lr_fence o' + 1)"
    by (rule lease_acquire_SomeD)
  from inv a obtain q where "ls_table s (tk_key a) = Some q" "tk_fence a \<le> lr_fence q"
    by (auto simp: lease_inv_def token_ok_def)
  with r lost step_acquire(1) show ?thesis
    by (auto simp: ls_owned_iff split: if_splits)
next
  case (step_refused key h ttl db')
  with lost show ?thesis by (auto simp: ls_owned_iff dest!: lease_acquire_NoneD)
next
  case (step_renew t ttl t' db')
  from step_renew(3) obtain r r' where "live_row (ls_now s) t (ls_table s) = Some r"
    "db' = (ls_table s)(tk_key t \<mapsto> r')" "lr_holder r' = lr_holder r" "lr_fence r' = lr_fence r"
    by (rule lease_renew_SomeD)
  with step_renew(1) lost show ?thesis
    by (auto simp: ls_owned_iff dest!: live_row_SomeD split: if_splits)
next
  case (step_release t b db')
  from lease_release_InrD[OF step_release(3)] show ?thesis
    using step_release(1) lost inv
    by (auto simp: ls_owned_iff lease_inv_def split: if_splits)
next
  case (step_clock n)
  with lost show ?thesis by (auto simp: ls_owned_iff)
qed

interpretation leases: fenced_store lease_init lease_step lease_inv
  "\<lambda>s. set (ls_issued s)" ls_owned tk_key tk_fence tk_holder
proof unfold_locales
  show "lease_inv s" if "lease_init s" for s
    using that by (rule lease_inv_init)
  show "lease_inv t" if "lease_inv s" "lease_step s t" for s t
    using that by (rule lease_inv_step)
  show "set (ls_issued s) \<subseteq> set (ls_issued t)" if "lease_inv s" "lease_step s t" for s t
    using that(2) by cases auto
  show "tk_holder a = tk_holder b"
    if "lease_inv s" "a \<in> set (ls_issued s)" "b \<in> set (ls_issued s)" "tk_key a = tk_key b"
      "tk_fence a = tk_fence b" for s a b
    using that unfolding lease_inv_def by (blast dest: one_holderD)
  show "tk_fence a = tk_fence b"
    if "lease_inv s" "a \<in> set (ls_issued s)" "b \<in> set (ls_issued s)" "tk_key a = tk_key b"
      "ls_owned s a" "ls_owned s b" for s a b
    using that(4-6) unfolding ls_owned_iff by auto
  show "\<not> ls_owned t a"
    if "lease_inv s" "lease_step s t" "a \<in> set (ls_issued s)" "\<not> ls_owned s a" for s t a
    using that by (rule lease_lost_step)
qed

section \<open>Demonstration run\<close>

text \<open>Holder \<open>a\<close> takes a term at 0 for 5 s, the clock moves to 20, holder \<open>b\<close> takes over.\<close>

definition demo_key :: lease_key where "demo_key = (''t'', ''o'', ''workflow'', ''r'')"

definition demo_row :: "string \<Rightarrow> int \<Rightarrow> rat \<Rightarrow> lease_row" where
  "demo_row h f now = \<lparr>lr_holder = h, lr_fence = f, lr_expires = now + 5, lr_heartbeat = now\<rparr>"

definition demo_s0 :: lease_sys where
  "demo_s0 = \<lparr>ls_table = Map.empty, ls_now = 0, ls_issued = []\<rparr>"

definition demo_s1 :: lease_sys where
  "demo_s1 = demo_s0\<lparr>ls_table := [demo_key \<mapsto> demo_row ''a'' 1 0],
     ls_issued := [row_to_token demo_key (demo_row ''a'' 1 0)]\<rparr>"

definition demo_s2 :: lease_sys where
  "demo_s2 = demo_s1\<lparr>ls_now := 20\<rparr>"

definition demo_s3 :: lease_sys where
  "demo_s3 = demo_s2\<lparr>ls_table := [demo_key \<mapsto> demo_row ''b'' 2 20],
     ls_issued := [row_to_token demo_key (demo_row ''b'' 2 20), row_to_token demo_key (demo_row ''a'' 1 0)]\<rparr>"

lemma demo_steps: "lease_step demo_s0 demo_s1" "lease_step demo_s1 demo_s2" "lease_step demo_s2 demo_s3"
proof -
  have t: "lease_term (Fin 5) (Fin 0) = Inr (0, 5)" "lease_term (Fin 5) (Fin 20) = Inr (20, 25)"
    using lease_term_small[of 5 0] lease_term_small[of 5 20] by simp_all
  have "lease_acquire (Fin (ls_now demo_s0)) demo_key ''a'' (Fin 5) (ls_table demo_s0) =
      Inr (Some (row_to_token demo_key (demo_row ''a'' 1 0)), ls_table demo_s1)"
    unfolding demo_key_def using lease_acquire_free[OF t(1), of "''t''" "''o''" "''workflow''" "''r''" "''a''"]
    by (simp add: demo_s0_def demo_s1_def demo_row_def demo_key_def)
  from lease_step.step_acquire[OF this] show "lease_step demo_s0 demo_s1"
    by (simp add: demo_s1_def demo_s0_def)
  show "lease_step demo_s1 demo_s2"
    unfolding demo_s2_def by (rule step_clock) (simp add: demo_s1_def demo_s0_def)
  have "lease_acquire (Fin (ls_now demo_s2)) demo_key ''b'' (Fin 5) (ls_table demo_s2) =
      Inr (Some (row_to_token demo_key (demo_row ''b'' 2 20)), ls_table demo_s3)"
    unfolding demo_key_def using lease_acquire_free[OF t(2), of "''t''" "''o''" "''workflow''" "''r''" "''b''"]
    by (simp add: demo_s0_def demo_s1_def demo_s2_def demo_s3_def demo_row_def demo_key_def)
  from lease_step.step_acquire[OF this] show "lease_step demo_s2 demo_s3"
    by (simp add: demo_s1_def demo_s0_def demo_s2_def demo_s3_def)
qed

lemma demo_init: "lease_init demo_s0"
  by (simp add: lease_init_def demo_s0_def)

section \<open>Properties\<close>





text \<open>
  The premise on the clock is needed: the store's default clock is the wall clock
  (\<open>time.time\<close>), and a reading from before the expiry revives an expired term.
\<close>

lemma renew_after_clock_stepped_back:
  assumes "check_owned (Fin 20) t tab = Inr False" "live_row 3 t tab = Some r"
  shows "\<exists>t' tab'. lease_renew (Fin 3) t (Fin 60) tab = Inr (Some t', tab') \<and>
    check_owned (Fin 20) t' tab' = Inr True"
proof -
  have "lease_term (Fin 60) (Fin 3) = Inr (3, 63)" using lease_term_small[of 60 3] by simp
  with assms(2) have "lease_renew (Fin 3) t (Fin 60) tab =
      Inr (Some (row_to_token (tk_key t) (r\<lparr>lr_expires := 63, lr_heartbeat := 3\<rparr>)),
        tab(tk_key t \<mapsto> r\<lparr>lr_expires := 63, lr_heartbeat := 3\<rparr>))"
    by (simp add: lease_renew_def Let_def)
  then show ?thesis by (simp add: live_row_def)
qed

lemma renew_after_clock_stepped_back_holds:
  "\<exists>t' tab'. lease_renew (Fin 3) (row_to_token demo_key (demo_row ''a'' 1 0)) (Fin 60) (ls_table demo_s2) =
     Inr (Some t', tab') \<and> check_owned (Fin 20) t' tab' = Inr True"
  by (rule renew_after_clock_stepped_back[where r = "demo_row ''a'' 1 0"])
    (simp_all add: live_row_def demo_s2_def demo_s1_def demo_s0_def demo_row_def)

end
