(* ===== verification/WorkflowDb.thy ===== *)
theory WorkflowDb
  imports ExecLease
begin

text \<open>
  The data of the workflow kernel: run states and their legal transitions
  (\<open>_LEGAL_TRANSITIONS\<close>, \<open>TERMINAL_WORKFLOW_STATES\<close>), the record types of
  \<open>workflows/service.py\<close> and \<open>schemas/workflow.py\<close>, the tables \<open>workflow_runs\<close>,
  \<open>workflow_events\<close>, \<open>workflow_outbox\<close> and \<open>execution_leases\<close>, the primitives every
  operation is made of (row selection, compare-and-set update, event append), and the
  invariant of the tables with one preservation lemma per kind of write.
\<close>

section \<open>Run states\<close>

datatype wstate = Pending | Running | CancelRequested | Succeeded | Failed | Timeout
  | Cancelled | CancelFailed

definition state_name :: "wstate \<Rightarrow> string" where
  "state_name s = (case s of
       Pending \<Rightarrow> ''pending'' | Running \<Rightarrow> ''running'' | CancelRequested \<Rightarrow> ''cancel_requested''
     | Succeeded \<Rightarrow> ''succeeded'' | Failed \<Rightarrow> ''failed'' | Timeout \<Rightarrow> ''timeout''
     | Cancelled \<Rightarrow> ''cancelled'' | CancelFailed \<Rightarrow> ''cancel_failed'')"

fun legal_transitions :: "wstate \<Rightarrow> wstate list" where
  "legal_transitions Pending = [Running, CancelRequested, Cancelled, Failed, Timeout]"
| "legal_transitions Running = [CancelRequested, Succeeded, Failed, Timeout]"
| "legal_transitions CancelRequested = [Cancelled, CancelFailed, Succeeded, Failed, Timeout]"
| "legal_transitions Succeeded = []"
| "legal_transitions Failed = []"
| "legal_transitions Timeout = []"
| "legal_transitions Cancelled = []"
| "legal_transitions CancelFailed = []"

definition terminal_states :: "wstate list" where
  "terminal_states = [Succeeded, Failed, Timeout, Cancelled, CancelFailed]"

definition is_terminal :: "wstate \<Rightarrow> bool" where
  "is_terminal s = (s \<in> set terminal_states)"

text \<open>The list \<open>('pending', 'running', 'cancel_requested')\<close> of the SQL queries.\<close>

definition is_active :: "wstate \<Rightarrow> bool" where
  "is_active s = (s \<in> {Pending, Running, CancelRequested})"

definition legal :: "wstate \<Rightarrow> wstate \<Rightarrow> bool" where
  "legal a b = (b \<in> set (legal_transitions a))"

lemma is_active_iff: "is_active s \<longleftrightarrow> \<not> is_terminal s"
  by (cases s) (simp_all add: is_active_def is_terminal_def terminal_states_def)

lemma legal_from_active: "legal a b \<Longrightarrow> is_active a"
  by (cases a) (simp_all add: legal_def is_active_def)

lemma legal_irrefl: "\<not> legal a a"
  by (cases a) (simp_all add: legal_def)

lemma is_terminal_simps [simp]:
  "is_terminal Pending = False" "is_terminal Running = False" "is_terminal CancelRequested = False"
  "is_terminal Succeeded" "is_terminal Failed" "is_terminal Timeout"
  "is_terminal Cancelled" "is_terminal CancelFailed"
  by (simp_all add: is_terminal_def terminal_states_def)

section \<open>Records\<close>

text \<open>
  The literals of the source that are written in Chinese, as their UTF-8 bytes:
  task started;
  task completed;
  task failed;
  task timed out;
  task cancelled;
  cancellation failed;
  cancellation requested;
  the Agent Runner returned a cancelled terminal state;
  retry task created;
  task restored from local history.
\<close>

definition msg_started :: string where
  "msg_started = [CHR 0xE4, CHR 0xBB, CHR 0xBB, CHR 0xE5, CHR 0x8A, CHR 0xA1, CHR 0xE5,
     CHR 0xBC, CHR 0x80, CHR 0xE5, CHR 0xA7, CHR 0x8B, CHR 0xE6, CHR 0x89, CHR 0xA7,
     CHR 0xE8, CHR 0xA1, CHR 0x8C]"
definition msg_done :: string where
  "msg_done = [CHR 0xE4, CHR 0xBB, CHR 0xBB, CHR 0xE5, CHR 0x8A, CHR 0xA1, CHR 0xE5,
     CHR 0xAE, CHR 0x8C, CHR 0xE6, CHR 0x88, CHR 0x90]"
definition msg_failed :: string where
  "msg_failed = [CHR 0xE4, CHR 0xBB, CHR 0xBB, CHR 0xE5, CHR 0x8A, CHR 0xA1, CHR 0xE5,
     CHR 0xA4, CHR 0xB1, CHR 0xE8, CHR 0xB4, CHR 0xA5]"
definition msg_timeout :: string where
  "msg_timeout = [CHR 0xE4, CHR 0xBB, CHR 0xBB, CHR 0xE5, CHR 0x8A, CHR 0xA1, CHR 0xE8,
     CHR 0xB6, CHR 0x85, CHR 0xE6, CHR 0x97, CHR 0xB6]"
definition msg_cancelled :: string where
  "msg_cancelled = [CHR 0xE4, CHR 0xBB, CHR 0xBB, CHR 0xE5, CHR 0x8A, CHR 0xA1, CHR 0xE5,
     CHR 0xB7, CHR 0xB2, CHR 0xE5, CHR 0x8F, CHR 0x96, CHR 0xE6, CHR 0xB6, CHR 0x88]"
definition msg_cancel_failed :: string where
  "msg_cancel_failed = [CHR 0xE5, CHR 0x8F, CHR 0x96, CHR 0xE6, CHR 0xB6, CHR 0x88,
     CHR 0xE5, CHR 0xA4, CHR 0xB1, CHR 0xE8, CHR 0xB4, CHR 0xA5]"
definition msg_cancel_requested :: string where
  "msg_cancel_requested = [CHR 0xE5, CHR 0xB7, CHR 0xB2, CHR 0xE8, CHR 0xAF, CHR 0xB7,
     CHR 0xE6, CHR 0xB1, CHR 0x82, CHR 0xE5, CHR 0x8F, CHR 0x96, CHR 0xE6, CHR 0xB6,
     CHR 0x88]"
definition msg_agent_cancelled :: string where
  "msg_agent_cancelled = ''Agent Runner '' @ [CHR 0xE5, CHR 0xB7, CHR 0xB2, CHR 0xE8,
     CHR 0xBF, CHR 0x94, CHR 0xE5, CHR 0x9B, CHR 0x9E, CHR 0xE5, CHR 0x8F, CHR 0x96,
     CHR 0xE6, CHR 0xB6, CHR 0x88, CHR 0xE7, CHR 0xBB, CHR 0x88, CHR 0xE6, CHR 0x80,
     CHR 0x81]"
definition msg_retry_created :: string where
  "msg_retry_created = [CHR 0xE5, CHR 0xB7, CHR 0xB2, CHR 0xE5, CHR 0x88, CHR 0x9B,
     CHR 0xE5, CHR 0xBB, CHR 0xBA, CHR 0xE9, CHR 0x87, CHR 0x8D, CHR 0xE8, CHR 0xAF,
     CHR 0x95, CHR 0xE4, CHR 0xBB, CHR 0xBB, CHR 0xE5, CHR 0x8A, CHR 0xA1]"
definition msg_restored :: string where
  "msg_restored = [CHR 0xE4, CHR 0xBB, CHR 0xBB, CHR 0xE5, CHR 0x8A, CHR 0xA1, CHR 0xE5,
     CHR 0xB7, CHR 0xB2, CHR 0xE4, CHR 0xBB, CHR 0x8E, CHR 0xE6, CHR 0x9C, CHR 0xAC,
     CHR 0xE5, CHR 0x9C, CHR 0xB0, CHR 0xE5, CHR 0x8E, CHR 0x86, CHR 0xE5, CHR 0x8F,
     CHR 0xB2, CHR 0xE6, CHR 0x81, CHR 0xA2, CHR 0xE5, CHR 0xA4, CHR 0x8D]"

record wf_run =
  wr_run_id :: string
  wr_kind :: string
  wr_source :: string
  wr_state :: wstate
  wr_title :: "string option"
  wr_intent_text :: string
  wr_meeting_id :: "string option"
  wr_todo_id :: "string option"
  wr_agent_task_id :: "string option"
  wr_input :: jdict
  wr_output :: jdict
  wr_error :: "string option"
  wr_timeout_s :: "rat option"
  wr_revision :: nat
  wr_idempotency_key :: "string option"
  wr_active_key :: "string option"
  wr_attempt :: nat
  wr_parent_run_id :: "string option"
  wr_deadline_at :: "rat option"
  wr_cancel_requested_at :: "rat option"
  wr_created_at :: rat
  wr_started_at :: "rat option"
  wr_finished_at :: "rat option"
  wr_updated_at :: rat

datatype visibility = VisUser | VisDebug | VisHidden

record wf_event =
  we_run_id :: string
  we_seq :: nat
  we_type :: string
  we_state :: wstate
  we_visibility :: visibility
  we_message :: "string option"
  we_payload :: jdict
  we_created_at :: rat

record echo_event =
  ee_type :: string
  ee_meeting_id :: "string option"
  ee_payload :: jdict
  ee_ts :: rat

text \<open>Rows add the scope columns; an event row keeps the durable payload.\<close>

record run_row =
  rr_tenant :: string
  rr_device :: string
  rr_owner :: string
  rr_run :: wf_run

record event_row =
  er_tenant :: string
  er_device :: string
  er_owner :: string
  er_event :: wf_event

datatype outbox_body = EventBody wf_event | SnapshotBody wf_run | DomainBody jdict

record outbox_row =
  ob_id :: nat
  ob_tenant :: string
  ob_device :: string
  ob_owner :: string
  ob_aggregate_type :: string
  ob_aggregate_id :: string
  ob_event_type :: string
  ob_meeting_id :: "string option"
  ob_body :: outbox_body
  ob_created_at :: rat

text \<open>
  The database.  \<open>db_meetings\<close> holds the keys of the table the foreign key of a run's
  meeting refers to; \<open>db_domain\<close> stands for the tables that callers' domain writers
  change in the same transaction.
\<close>

record 'd wf_db =
  db_runs :: "run_row list"
  db_events :: "event_row list"
  db_outbox :: "outbox_row list"
  db_outbox_seq :: nat
  db_leases :: lease_table
  db_meetings :: "(string \<times> string \<times> string) list"
  db_domain :: 'd

text \<open>
  What an operation reads from its surroundings: the principal, one reading of the UTC
  clock and of the lease clock, the lease bound to the task, and a fresh identifier.
\<close>

record wf_env =
  en_tenant :: string
  en_device :: string
  en_owner :: string
  en_now :: rat
  en_clock :: pyfloat
  en_lease :: "lease_token option"
  en_uuid :: string

type_synonym pk = "string \<times> string \<times> string"
type_synonym 'd domain_writer = "'d \<Rightarrow> py_error + bool option \<times> 'd"

section \<open>Primitives\<close>

definition run_key :: "run_row \<Rightarrow> pk" where
  "run_key r = (rr_tenant r, rr_owner r, wr_run_id (rr_run r))"

definition event_key :: "event_row \<Rightarrow> pk" where
  "event_key r = (er_tenant r, er_owner r, we_run_id (er_event r))"

definition env_key :: "wf_env \<Rightarrow> string \<Rightarrow> pk" where
  "env_key e rid = (en_tenant e, en_owner e, rid)"

definition in_scope :: "wf_env \<Rightarrow> run_row \<Rightarrow> bool" where
  "in_scope e r = (rr_tenant r = en_tenant e \<and> rr_owner r = en_owner e)"

definition select_run :: "wf_env \<Rightarrow> string \<Rightarrow> 'd wf_db \<Rightarrow> wf_run option" where
  "select_run e rid db =
     map_option rr_run (List.find (\<lambda>r. run_key r = env_key e rid) (db_runs db))"

definition workflow_lease :: "wf_env \<Rightarrow> lease_token option \<Rightarrow> py_error + lease_token option" where
  "workflow_lease e lease =
     (let active = (case lease of Some t \<Rightarrow> Some t | None \<Rightarrow> en_lease e) in
      case active of
        None \<Rightarrow> Inr None
      | Some t \<Rightarrow> if tk_kind t \<noteq> ''workflow'' then Inl LeaseOwnershipError else Inr (Some t))"

definition assert_workflow_lease ::
    "wf_env \<Rightarrow> string \<Rightarrow> lease_token option \<Rightarrow> 'd wf_db \<Rightarrow> py_error + unit" where
  "assert_workflow_lease e rid lease db =
     bindE (workflow_lease e lease) (\<lambda>active.
       case active of
         None \<Rightarrow> Inr ()
       | Some t \<Rightarrow>
           if tk_tenant t \<noteq> en_tenant e \<or> tk_owner t \<noteq> en_owner e \<or> tk_resource t \<noteq> rid
           then Inl LeaseOwnershipError
           else assert_owned (en_clock e) t (db_leases db))"

text \<open>\<open>UPDATE ... WHERE key AND revision = ? AND q\<close>, which must change exactly one row.\<close>

definition cas_update ::
    "pk \<Rightarrow> nat \<Rightarrow> (wf_run \<Rightarrow> bool) \<Rightarrow> (wf_run \<Rightarrow> wf_run) \<Rightarrow> 'd wf_db \<Rightarrow> py_error + 'd wf_db" where
  "cas_update k rv q f db =
     (let p = (\<lambda>r. run_key r = k \<and> (wr_revision (rr_run r) = rv \<and> q (rr_run r))) in
      if rowcount p (db_runs db) = 1
      then Inr (db\<lparr>db_runs := update_where p (\<lambda>r. r\<lparr>rr_run := f (rr_run r)\<rparr>) (db_runs db)\<rparr>)
      else Inl WorkflowConflictError)"

definition outbox_insert ::
    "wf_env \<Rightarrow> string \<Rightarrow> string \<Rightarrow> string \<Rightarrow> string option \<Rightarrow> outbox_body \<Rightarrow> rat \<Rightarrow> 'd wf_db \<Rightarrow> 'd wf_db" where
  "outbox_insert e agg_type agg_id topic meeting body ts db =
     db\<lparr>db_outbox := db_outbox db @
          [\<lparr>ob_id = Suc (db_outbox_seq db), ob_tenant = en_tenant e, ob_device = en_device e,
            ob_owner = en_owner e, ob_aggregate_type = agg_type, ob_aggregate_id = agg_id,
            ob_event_type = topic, ob_meeting_id = meeting, ob_body = body, ob_created_at = ts\<rparr>],
        db_outbox_seq := Suc (db_outbox_seq db)\<rparr>"

definition next_seq :: "pk \<Rightarrow> 'd wf_db \<Rightarrow> nat" where
  "next_seq k db =
     max0 (map (\<lambda>r. we_seq (er_event r)) (filter (\<lambda>r. event_key r = k) (db_events db))) + 1"

definition append_event ::
    "wf_env \<Rightarrow> wf_run \<Rightarrow> string \<Rightarrow> string option \<Rightarrow> jdict \<Rightarrow> visibility \<Rightarrow> 'd wf_db
      \<Rightarrow> wf_event \<times> 'd wf_db" where
  "append_event e run etype msg payload vis db =
     (let event = \<lparr>we_run_id = wr_run_id run, we_seq = next_seq (env_key e (wr_run_id run)) db,
                   we_type = etype, we_state = wr_state run, we_visibility = vis,
                   we_message = msg, we_payload = AList.delete ''agent_delivery_key'' payload,
                   we_created_at = en_now e\<rparr>;
          db1 = db\<lparr>db_events := db_events db @
                  [\<lparr>er_tenant = en_tenant e, er_device = en_device e, er_owner = en_owner e,
                    er_event = event\<lparr>we_payload := payload\<rparr>\<rparr>]\<rparr>;
          db2 = outbox_insert e ''workflow'' (wr_run_id run) ''workflow.event''
                  (wr_meeting_id run) (EventBody event) (en_now e) db1;
          db3 = outbox_insert e ''workflow'' (wr_run_id run) ''workflow.snapshot''
                  (wr_meeting_id run) (SnapshotBody run) (en_now e) db2
      in (event, db3))"

definition append_domain_outbox ::
    "wf_env \<Rightarrow> string \<Rightarrow> echo_event \<Rightarrow> 'd wf_db \<Rightarrow> 'd wf_db" where
  "append_domain_outbox e agg ev db =
     outbox_insert e ''domain'' agg (ee_type ev) (ee_meeting_id ev)
       (DomainBody (ee_payload ev)) (ee_ts ev) db"

definition append_domain_events ::
    "wf_env \<Rightarrow> string \<Rightarrow> echo_event list \<Rightarrow> 'd wf_db \<Rightarrow> 'd wf_db" where
  "append_domain_events e agg evs db = fold (append_domain_outbox e agg) evs db"

definition row_to_event :: "event_row \<Rightarrow> wf_event" where
  "row_to_event r =
     (er_event r)\<lparr>we_payload := AList.delete ''agent_delivery_key'' (we_payload (er_event r))\<rparr>"

definition run_domain_writer ::
    "'d domain_writer option \<Rightarrow> 'd wf_db \<Rightarrow> py_error + bool \<times> 'd wf_db" where
  "run_domain_writer w db = (case w of
       None \<Rightarrow> Inr (True, db)
     | Some f \<Rightarrow> bindE (f (db_domain db)) (\<lambda>(r, d). Inr (r \<noteq> Some False, db\<lparr>db_domain := d\<rparr>)))"

section \<open>Views of the tables\<close>

definition lookup_run :: "'d wf_db \<Rightarrow> pk \<Rightarrow> wf_run option" where
  "lookup_run db k = map_option rr_run (List.find (\<lambda>r. run_key r = k) (db_runs db))"

definition events_of :: "pk \<Rightarrow> 'd wf_db \<Rightarrow> wf_event list" where
  "events_of k db = map er_event (filter (\<lambda>r. event_key r = k) (db_events db))"

lemma select_run_lookup: "select_run e rid db = lookup_run db (env_key e rid)"
  by (simp add: select_run_def lookup_run_def)

lemma lookup_run_SomeD:
  assumes "lookup_run db k = Some r"
  obtains row where "row \<in> set (db_runs db)" "run_key row = k" "rr_run row = r"
  using assms by (auto simp: lookup_run_def dest!: find_SomeD)

lemma lookup_run_cong: "db_runs db' = db_runs db \<Longrightarrow> lookup_run db' k = lookup_run db k"
  by (simp add: lookup_run_def)

lemma wr_run_id_key: "run_key row = (t, o', rid) \<Longrightarrow> wr_run_id (rr_run row) = rid"
  by (simp add: run_key_def)

lemma lookup_run_id: "lookup_run db (env_key e rid) = Some r \<Longrightarrow> wr_run_id r = rid"
  by (elim lookup_run_SomeD) (auto simp: env_key_def dest: wr_run_id_key)

lemma next_seq_events: "next_seq k db = Suc (max0 (map we_seq (events_of k db)))"
  by (simp add: next_seq_def events_of_def comp_def)

lemma next_seq_eq: "map we_seq (events_of k db) = [1..<Suc n] \<Longrightarrow> next_seq k db = Suc n"
  unfolding next_seq_events by (simp only: max0_upto)

lemma outbox_insert_frame [simp]:
  "db_runs (outbox_insert e a i t m b ts db) = db_runs db"
  "db_events (outbox_insert e a i t m b ts db) = db_events db"
  "db_leases (outbox_insert e a i t m b ts db) = db_leases db"
  "db_meetings (outbox_insert e a i t m b ts db) = db_meetings db"
  "db_domain (outbox_insert e a i t m b ts db) = db_domain db"
  by (simp_all add: outbox_insert_def)

lemma append_domain_events_frame [simp]:
  "db_runs (append_domain_events e a evs db) = db_runs db"
  "db_events (append_domain_events e a evs db) = db_events db"
  "db_leases (append_domain_events e a evs db) = db_leases db"
  "db_domain (append_domain_events e a evs db) = db_domain db"
  by (induction evs arbitrary: db) (simp_all add: append_domain_events_def append_domain_outbox_def)

lemma append_event_frame [simp]:
  "db_runs (snd (append_event e run ty msg pl vis db)) = db_runs db"
  "db_leases (snd (append_event e run ty msg pl vis db)) = db_leases db"
  "db_domain (snd (append_event e run ty msg pl vis db)) = db_domain db"
  by (simp_all add: append_event_def Let_def)

lemma run_domain_writer_frame:
  "run_domain_writer w db = Inr (b, db') \<Longrightarrow>
     db_runs db' = db_runs db \<and> db_events db' = db_events db \<and> db_outbox db' = db_outbox db \<and>
     db_leases db' = db_leases db \<and> db_meetings db' = db_meetings db"
  by (auto simp: run_domain_writer_def bindE_Inr_iff split: option.splits)

section \<open>The invariant\<close>

text \<open>
  What a run row promises: it is finished exactly in a terminal state, a running one has
  been started, a cancellation request carries its time, only terminal runs carry an
  error, and attempts count from one.
\<close>

definition run_ok :: "wf_run \<Rightarrow> bool" where
  "run_ok r \<longleftrightarrow> (wr_finished_at r \<noteq> None \<longleftrightarrow> is_terminal (wr_state r)) \<and>
     (wr_state r = Running \<longrightarrow> wr_started_at r \<noteq> None) \<and>
     (wr_state r = CancelRequested \<longrightarrow> wr_cancel_requested_at r \<noteq> None) \<and>
     (wr_error r \<noteq> None \<longrightarrow> is_terminal (wr_state r)) \<and> 1 \<le> wr_attempt r"

text \<open>The unique indexes: one run per idempotency key, one active run per active key.\<close>

definition idem_key :: "run_row \<Rightarrow> (string \<times> string \<times> string) option" where
  "idem_key r = map_option (\<lambda>k. (rr_tenant r, rr_owner r, k)) (wr_idempotency_key (rr_run r))"

definition live_key :: "run_row \<Rightarrow> (string \<times> string \<times> string) option" where
  "live_key r = (if is_active (wr_state (rr_run r))
     then map_option (\<lambda>k. (rr_tenant r, rr_owner r, k)) (wr_active_key (rr_run r)) else None)"

definition unique_on :: "('r \<Rightarrow> 'k option) \<Rightarrow> 'r list \<Rightarrow> bool" where
  "unique_on f rows = distinct (List.map_filter f rows)"

text \<open>The event log of a run: contiguous from one, ending in the run's state.\<close>

definition log_ok :: "wf_event list \<Rightarrow> wstate \<Rightarrow> bool" where
  "log_ok es s \<longleftrightarrow> es \<noteq> [] \<and> map we_seq es = [1..<Suc (length es)] \<and> we_state (last es) = s"

definition wf_inv :: "'d wf_db \<Rightarrow> bool" where
  "wf_inv db \<longleftrightarrow>
     distinct (map run_key (db_runs db)) \<and>
     unique_on idem_key (db_runs db) \<and> unique_on live_key (db_runs db) \<and>
     (\<forall>r \<in> set (db_runs db). run_ok (rr_run r) \<and>
        log_ok (events_of (run_key r) db) (wr_state (rr_run r))) \<and>
     (\<forall>ev \<in> set (db_events db). event_key ev \<in> run_key ` set (db_runs db))"

lemma unique_on_snoc:
  "unique_on f (rows @ [r]) \<longleftrightarrow>
     unique_on f rows \<and> (f r = None \<or> (\<forall>q \<in> set rows. f q \<noteq> f r))"
proof -
  have "set (List.map_filter f rows) = {k. \<exists>q \<in> set rows. f q = Some k}"
    by (induction rows) (auto simp: List.map_filter_def split: option.splits)
  then show ?thesis
    by (cases "f r") (auto simp: unique_on_def List.map_filter_def)
qed

text \<open>Rewriting rows so that each key stays or disappears keeps the keys unique.\<close>

lemma unique_on_map:
  assumes "unique_on f rows" "\<And>r. r \<in> set rows \<Longrightarrow> f (g r) = f r \<or> f (g r) = None"
  shows "unique_on f (map g rows)"
  using assms
proof (induction rows)
  case Nil
  then show ?case by (simp add: unique_on_def)
next
  case (Cons r rows)
  have keys: "set (List.map_filter f xs) = {k. \<exists>q \<in> set xs. f q = Some k}" for xs
    by (induction xs) (auto simp: List.map_filter_def split: option.splits)
  from Cons.prems have "unique_on f rows" by (auto simp: unique_on_def split: option.splits)
  with Cons have ih: "unique_on f (map g rows)" by simp
  show ?case
  proof (cases "f (g r)")
    case None
    with ih show ?thesis by (simp add: unique_on_def)
  next
    case (Some k)
    with Cons.prems(2)[of r] have fr: "f r = Some k" by auto
    with Cons.prems(1) have "k \<notin> set (List.map_filter f rows)" by (simp add: unique_on_def)
    then have new: "f q \<noteq> Some k" if "q \<in> set rows" for q
      using that by (auto simp: keys)
    have "f (g q) \<noteq> Some k" if "q \<in> set rows" for q
      using new[OF that] Cons.prems(2)[of q] that by auto
    then have "k \<notin> set (List.map_filter f (map g rows))"
      unfolding keys by auto
    with Some ih show ?thesis by (simp add: unique_on_def)
  qed
qed

lemma wf_invD:
  assumes "wf_inv db" "lookup_run db k = Some r"
  shows "run_ok r" "log_ok (events_of k db) (wr_state r)"
  using assms by (auto simp: wf_inv_def elim!: lookup_run_SomeD)

lemma wf_inv_keys: "wf_inv db \<Longrightarrow> distinct (map run_key (db_runs db))"
  by (simp add: wf_inv_def)

lemma lookup_run_unique:
  assumes "distinct (map run_key (db_runs db))" "row \<in> set (db_runs db)"
  shows "lookup_run db (run_key row) = Some (rr_run row)"
proof -
  have "List.find (\<lambda>r. run_key r = run_key row) (db_runs db) = Some row"
    using assms
  proof (induction "db_runs db" arbitrary: db)
    case Nil
    then show ?case by simp
  next
    case (Cons a rows)
    from Cons.hyps(1)[of "db\<lparr>db_runs := rows\<rparr>"] Cons.prems Cons.hyps(2)[symmetric]
    show ?case by auto
  qed
  then show ?thesis by (simp add: lookup_run_def)
qed

lemma lookup_run_None_iff: "lookup_run db k = None \<longleftrightarrow> k \<notin> run_key ` set (db_runs db)"
  by (auto simp: lookup_run_def find_None_iff)

section \<open>Writes\<close>

text \<open>
  The two facts about a compare-and-set of the row just read: under the table's key it
  always succeeds, and it changes exactly that row.
\<close>

lemma cas_update_succeeds:
  assumes "distinct (map run_key (db_runs db))" "lookup_run db k = Some r"
    "wr_revision r = rv" "q r"
  shows "\<exists>db'. cas_update k rv q f db = Inr db'"
proof -
  from assms(2) obtain row where row: "row \<in> set (db_runs db)" "run_key row = k" "rr_run row = r"
    by (rule lookup_run_SomeD)
  have "filter (\<lambda>x. run_key x = run_key row \<and> (wr_revision (rr_run x) = rv \<and> q (rr_run x))) (db_runs db) = [row]"
    using filter_key_unique[OF assms(1) row(1)] assms(3,4) row(3) by simp
  with row show ?thesis by (simp add: cas_update_def rowcount_def Let_def)
qed

lemma cas_update_InrD:
  assumes "cas_update k rv q f db = Inr db'"
  shows "db' = db\<lparr>db_runs := update_where
     (\<lambda>r. run_key r = k \<and> (wr_revision (rr_run r) = rv \<and> q (rr_run r)))
     (\<lambda>r. r\<lparr>rr_run := f (rr_run r)\<rparr>) (db_runs db)\<rparr>"
  using assms by (simp add: cas_update_def Let_def split: if_splits)

lemma cas_update_lookup:
  assumes "cas_update k rv q f db = Inr db'" "lookup_run db k = Some r"
    "wr_revision r = rv" "q r" "\<And>x. wr_run_id (f x) = wr_run_id x"
    "distinct (map run_key (db_runs db))"
  shows "lookup_run db' k' = (if k' = k then Some (f r) else lookup_run db k')"
proof -
  let ?p = "\<lambda>r. run_key r = k \<and> (wr_revision (rr_run r) = rv \<and> q (rr_run r))"
  let ?f = "\<lambda>r. r\<lparr>rr_run := f (rr_run r)\<rparr>"
  have key: "run_key (?f x) = run_key x" for x using assms(5) by (simp add: run_key_def)
  have db': "db_runs db' = update_where ?p ?f (db_runs db)"
    using cas_update_InrD[OF assms(1)] by simp
  show ?thesis
  proof (cases "k' = k")
    case True
    from assms(2) obtain row where row: "List.find (\<lambda>r. run_key r = k) (db_runs db) = Some row" "rr_run row = r"
      by (auto simp: lookup_run_def)
    moreover have "run_key row = k" using find_SomeD[OF row(1)] by simp
    ultimately have "List.find (\<lambda>r. run_key r = k) (update_where ?p ?f (db_runs db)) = Some (?f row)"
      by (intro find_update_where_hit[OF assms(6)]) (auto simp: assms(3,4) key)
    with True row show ?thesis by (simp add: lookup_run_def db')
  next
    case False
    have "map_option rr_run (List.find (\<lambda>r. run_key r = k') (update_where ?p ?f rows)) =
          map_option rr_run (List.find (\<lambda>r. run_key r = k') rows)" for rows
      by (induction rows) (use False key in \<open>auto simp: update_where_def\<close>)
    with False show ?thesis by (simp add: lookup_run_def db')
  qed
qed

lemma events_of_append_event:
  assumes "wr_run_id run = rid"
  shows "events_of k (snd (append_event e run ty msg pl vis db)) =
     events_of k db @ (if k = env_key e rid
       then [(fst (append_event e run ty msg pl vis db))\<lparr>we_payload := pl\<rparr>] else [])"
  using assms
  by (auto simp: append_event_def Let_def events_of_def event_key_def env_key_def)

lemma append_event_fst [simp]:
  "we_state (fst (append_event e run ty msg pl vis db)) = wr_state run"
  "we_run_id (fst (append_event e run ty msg pl vis db)) = wr_run_id run"
  "we_type (fst (append_event e run ty msg pl vis db)) = ty"
  "we_seq (fst (append_event e run ty msg pl vis db)) = next_seq (env_key e (wr_run_id run)) db"
  by (simp_all add: append_event_def Let_def)

lemma event_rows_append_event:
  "\<exists>row. db_events (snd (append_event e run ty msg pl vis db)) = db_events db @ [row]
     \<and> event_key row = env_key e (wr_run_id run)"
  by (auto simp: append_event_def Let_def event_key_def env_key_def)

lemma log_ok_snoc:
  assumes "es \<noteq> [] \<Longrightarrow> map we_seq es = [1..<Suc (length es)]" "we_seq ev = Suc (length es)"
  shows "log_ok (es @ [ev]) (we_state ev)"
  using assms by (cases "es = []") (auto simp: log_ok_def)

text \<open>
  An event appended for a run whose row carries the event's state keeps the invariant:
  the premise \<open>pre\<close> is the invariant but for the last state of that run's log.
\<close>

lemma wf_inv_event:
  assumes keys: "distinct (map run_key (db_runs db))"
    and uniq: "unique_on idem_key (db_runs db)" "unique_on live_key (db_runs db)"
    and rows: "\<And>r. r \<in> set (db_runs db) \<Longrightarrow> run_ok (rr_run r)"
    and logs: "\<And>r. r \<in> set (db_runs db) \<Longrightarrow> run_key r \<noteq> k \<Longrightarrow>
      log_ok (events_of (run_key r) db) (wr_state (rr_run r))"
    and log: "map we_seq (events_of k db) = [1..<Suc (length (events_of k db))]"
    and fk: "\<And>ev. ev \<in> set (db_events db) \<Longrightarrow> event_key ev \<in> run_key ` set (db_runs db)"
    and run: "lookup_run db k = Some run" "k = env_key e (wr_run_id run)"
  shows "wf_inv (snd (append_event e run ty msg pl vis db))"
proof -
  let ?db = "snd (append_event e run ty msg pl vis db)"
  have runs: "db_runs ?db = db_runs db" by simp
  have "run_ok (rr_run r) \<and> log_ok (events_of (run_key r) ?db) (wr_state (rr_run r))"
    if r: "r \<in> set (db_runs db)" for r
  proof (cases "run_key r = k")
    case True
    with lookup_run_unique[OF keys r] run(1) have "rr_run r = run" by simp
    moreover have "log_ok (events_of k db @ [(fst (append_event e run ty msg pl vis db))\<lparr>we_payload := pl\<rparr>]) (wr_state run)"
      using log_ok_snoc[of "events_of k db" "(fst (append_event e run ty msg pl vis db))\<lparr>we_payload := pl\<rparr>"]
        log next_seq_eq[OF log] run(2) by simp
    ultimately show ?thesis
      using True run(2) rows[OF r] by (simp add: events_of_append_event[OF refl])
  next
    case False
    with r rows logs run(2) show ?thesis by (simp add: events_of_append_event[OF refl])
  qed
  moreover have "event_key ev \<in> run_key ` set (db_runs db)" if "ev \<in> set (db_events ?db)" for ev
  proof -
    have "k \<in> run_key ` set (db_runs db)"
      using run(1) by (metis lookup_run_None_iff option.distinct(1))
    with that fk run(2) event_rows_append_event[of e run ty msg pl vis db] show ?thesis by auto
  qed
  ultimately show ?thesis
    using keys uniq by (simp add: wf_inv_def runs)
qed

text \<open>Recording an event for an existing run.\<close>

lemma wf_inv_record:
  assumes "wf_inv db" "lookup_run db (env_key e rid) = Some run"
  shows "wf_inv (snd (append_event e run ty msg pl vis db))"
proof -
  have rid: "wr_run_id run = rid" using assms(2) by (rule lookup_run_id)
  show ?thesis
    by (rule wf_inv_event[where k = "env_key e rid"])
      (use assms rid wf_invD[OF assms] in \<open>auto simp: wf_inv_def log_ok_def\<close>)
qed

text \<open>
  A compare-and-set of one row followed by its event: the rewrite keeps the row's keys,
  never re-activates a run, and keeps \<open>run_ok\<close>.
\<close>

lemma wf_inv_update:
  assumes inv: "wf_inv db" and run: "lookup_run db k = Some r" "k = env_key e rid"
    and cas: "cas_update k (wr_revision r) q f db = Inr db1" "q r"
    and f_keys: "\<And>x. wr_run_id (f x) = wr_run_id x"
      "\<And>x. wr_idempotency_key (f x) = wr_idempotency_key x"
      "\<And>x. wr_active_key (f x) = wr_active_key x"
    and f_act: "is_active (wr_state (f r)) \<Longrightarrow> is_active (wr_state r)"
    and f_ok: "run_ok (f r)"
  shows "wf_inv (snd (append_event e (f r) ty msg pl vis db1))"
proof -
  let ?p = "\<lambda>r'. run_key r' = k \<and> (wr_revision (rr_run r') = wr_revision r \<and> q (rr_run r'))"
  let ?g = "\<lambda>x. if ?p x then x\<lparr>rr_run := f (rr_run x)\<rparr> else x"
  have keys: "distinct (map run_key (db_runs db))" using inv by (rule wf_inv_keys)
  have db1: "db1 = db\<lparr>db_runs := map ?g (db_runs db)\<rparr>"
    using cas_update_InrD[OF cas(1)] by (simp add: update_where_def)
  have runs1: "db_runs db1 = map ?g (db_runs db)" by (simp add: db1)
  have gkey: "run_key (?g x) = run_key x" for x using f_keys(1) by (simp add: run_key_def)
  have only: "rr_run x = r" if "x \<in> set (db_runs db)" "run_key x = k" for x
    using lookup_run_unique[OF keys that(1)] that(2) run(1) by simp
  have gother: "?g x = x" if "run_key x \<noteq> k" for x using that by simp
  have keys1: "distinct (map run_key (db_runs db1))"
    using keys by (simp add: db1 comp_def gkey)
  have look: "lookup_run db1 k = Some (f r)"
    using cas_update_lookup[OF cas(1) run(1) refl cas(2) f_keys(1) keys] by simp
  have ev: "events_of k' db1 = events_of k' db" for k' by (simp add: db1 events_of_def)
  show ?thesis
  proof (rule wf_inv_event[where k = k])
    show "distinct (map run_key (db_runs db1))" by (rule keys1)
    show "unique_on idem_key (db_runs db1)"
      using inv f_keys(2) unfolding db1 wf_inv_def by (simp, intro unique_on_map) (auto simp: idem_key_def)
    show "unique_on live_key (db_runs db1)"
    proof -
      have "live_key (?g x) = live_key x \<or> live_key (?g x) = None" if "x \<in> set (db_runs db)" for x
        using only[OF that] f_act f_keys(3) by (auto simp: live_key_def)
      then show ?thesis using inv unfolding db1 wf_inv_def by (simp, intro unique_on_map) auto
    qed
    show "run_ok (rr_run x)" if "x \<in> set (db_runs db1)" for x
      using that inv f_ok only by (auto simp: db1 wf_inv_def)
    show "log_ok (events_of (run_key x) db1) (wr_state (rr_run x))"
      if "x \<in> set (db_runs db1)" "run_key x \<noteq> k" for x
    proof -
      from that(1) obtain y where y: "x = ?g y" "y \<in> set (db_runs db)"
        unfolding runs1 set_map by (rule imageE)
      have "run_key x = run_key y" unfolding y(1) by (rule gkey)
      with that(2) have "run_key y \<noteq> k" by simp
      then have "?g y = y" by (rule gother)
      with y(1) have "x = y" by (rule trans)
      with y(2) inv show ?thesis by (simp add: ev wf_inv_def)
    qed
    show "map we_seq (events_of k db1) = [1..<Suc (length (events_of k db1))]"
      using wf_invD(2)[OF inv run(1)] by (simp add: ev log_ok_def)
    show "event_key ev' \<in> run_key ` set (db_runs db1)" if "ev' \<in> set (db_events db1)" for ev'
    proof -
      have "run_key ` set (db_runs db1) = run_key ` set (db_runs db)"
        unfolding runs1 set_map image_image gkey ..
      with that inv show ?thesis by (simp add: db1 wf_inv_def)
    qed
    show "lookup_run db1 k = Some (f r)" by (rule look)
    show "k = env_key e (wr_run_id (f r))"
      using run lookup_run_id[of db e rid r] f_keys(1) by simp
  qed
qed

text \<open>A new run with its first event.\<close>

lemma wf_inv_insert:
  assumes inv: "wf_inv db" and fresh: "run_key row \<notin> run_key ` set (db_runs db)"
    and idem: "idem_key row = None \<or> (\<forall>q \<in> set (db_runs db). idem_key q \<noteq> idem_key row)"
    and live: "live_key row = None \<or> (\<forall>q \<in> set (db_runs db). live_key q \<noteq> live_key row)"
    and ok: "run_ok (rr_run row)" and key: "run_key row = env_key e (wr_run_id (rr_run row))"
  shows "wf_inv (snd (append_event e (rr_run row) ty msg pl vis (db\<lparr>db_runs := db_runs db @ [row]\<rparr>)))"
proof (rule wf_inv_event[where k = "run_key row"])
  let ?db = "db\<lparr>db_runs := db_runs db @ [row]\<rparr>"
  have ev: "events_of k ?db = events_of k db" for k by (simp add: events_of_def)
  have none: "events_of (run_key row) db = []"
  proof -
    have "\<forall>ev \<in> set (db_events db). event_key ev \<in> run_key ` set (db_runs db)"
      using inv by (simp add: wf_inv_def)
    with fresh have "\<forall>ev \<in> set (db_events db). event_key ev \<noteq> run_key row" by metis
    then show ?thesis by (simp add: events_of_def filter_empty_conv)
  qed
  show keys: "distinct (map run_key (db_runs ?db))"
    using inv fresh by (simp add: wf_inv_def)
  show "unique_on idem_key (db_runs ?db)" "unique_on live_key (db_runs ?db)"
    using inv idem live by (simp_all add: wf_inv_def unique_on_snoc)
  show "run_ok (rr_run x)" if "x \<in> set (db_runs ?db)" for x
    using that inv ok by (auto simp: wf_inv_def)
  show "log_ok (events_of (run_key x) ?db) (wr_state (rr_run x))"
    if "x \<in> set (db_runs ?db)" "run_key x \<noteq> run_key row" for x
    using that inv by (auto simp: wf_inv_def ev)
  show "map we_seq (events_of (run_key row) ?db) = [1..<Suc (length (events_of (run_key row) ?db))]"
    by (simp add: ev none)
  show "event_key x \<in> run_key ` set (db_runs ?db)" if "x \<in> set (db_events ?db)" for x
    using that inv by (auto simp: wf_inv_def)
  show "lookup_run ?db (run_key row) = Some (rr_run row)"
    using lookup_run_unique[OF keys, of row] by simp
  show "run_key row = env_key e (wr_run_id (rr_run row))" by (rule key)
qed

lemma wf_inv_frame:
  assumes "wf_inv db" "db_runs db' = db_runs db" "db_events db' = db_events db"
  shows "wf_inv db'"
  using assms by (simp add: wf_inv_def events_of_def)

end
