(* ===== verification/WorkflowService.thy ===== *)
theory WorkflowService
  imports WorkflowDb
begin

text \<open>
  The operations of \<open>WorkflowService\<close> (\<open>backend/app/workflows/service.py\<close>) that read
  or write runs and events.  An operation is a function of its surroundings \<open>wf_env\<close>,
  its arguments and the database; it returns an exception, in which case nothing is
  committed, or its value and the database after the commit.  All of them run under
  \<open>BEGIN IMMEDIATE\<close> (or a caller's transaction), so a history of the database is a
  sequence of such steps.  Flushing the outbox after the commit only moves committed
  outbox rows to the event bus and cannot raise, so it does not appear here.
\<close>

section \<open>Creation\<close>

record run_create =
  rc_kind :: string
  rc_source :: string
  rc_title :: "string option"
  rc_intent_text :: string
  rc_meeting_id :: "string option"
  rc_todo_id :: "string option"
  rc_agent_task_id :: "string option"
  rc_input :: jdict
  rc_timeout_s :: "rat option"
  rc_idempotency_key :: "string option"
  rc_active_key :: "string option"

text \<open>The length constraints of the pydantic model.\<close>

definition key_len_ok :: "string option \<Rightarrow> bool" where
  "key_len_ok k = (case k of None \<Rightarrow> True | Some s \<Rightarrow> 1 \<le> utf8_length s \<and> utf8_length s \<le> 200)"

definition run_create_ok :: "run_create \<Rightarrow> bool" where
  "run_create_ok b = (key_len_ok (rc_idempotency_key b) \<and> key_len_ok (rc_active_key b))"

definition find_by_idempotency :: "wf_env \<Rightarrow> string \<Rightarrow> 'd wf_db \<Rightarrow> wf_run option" where
  "find_by_idempotency e key db = map_option rr_run
     (order_first (\<lambda>r. wr_created_at (rr_run r))
       (\<lambda>r. in_scope e r \<and> wr_idempotency_key (rr_run r) = Some key) (db_runs db))"

definition find_active_by_active_key :: "wf_env \<Rightarrow> string \<Rightarrow> 'd wf_db \<Rightarrow> wf_run option" where
  "find_active_by_active_key e key db = map_option rr_run
     (order_first (\<lambda>r. wr_created_at (rr_run r))
       (\<lambda>r. in_scope e r \<and> wr_active_key (rr_run r) = Some key \<and> is_active (wr_state (rr_run r)))
       (db_runs db))"

text \<open>The optimistic lookup that precedes the insert.\<close>

definition find_existing :: "wf_env \<Rightarrow> run_create \<Rightarrow> 'd wf_db \<Rightarrow> wf_run option" where
  "find_existing e b db =
     (case (if truthy_str (rc_idempotency_key b)
            then find_by_idempotency e (the (rc_idempotency_key b)) db else None) of
        Some r \<Rightarrow> Some r
      | None \<Rightarrow> if truthy_str (rc_active_key b)
          then find_active_by_active_key e (the (rc_active_key b)) db else None)"

definition new_run_id :: "wf_env \<Rightarrow> string" where
  "new_run_id e = ''run_'' @ en_uuid e"

definition new_run ::
    "wf_env \<Rightarrow> run_create \<Rightarrow> string option \<Rightarrow> string option \<Rightarrow> nat \<Rightarrow> wf_run" where
  "new_run e b rid parent attempt =
     \<lparr>wr_run_id = or_str rid (new_run_id e), wr_kind = rc_kind b, wr_source = rc_source b,
      wr_state = Pending, wr_title = rc_title b, wr_intent_text = rc_intent_text b,
      wr_meeting_id = rc_meeting_id b, wr_todo_id = rc_todo_id b,
      wr_agent_task_id = rc_agent_task_id b, wr_input = rc_input b, wr_output = [],
      wr_error = None, wr_timeout_s = rc_timeout_s b, wr_revision = 0,
      wr_idempotency_key = rc_idempotency_key b, wr_active_key = rc_active_key b,
      wr_attempt = attempt, wr_parent_run_id = parent,
      wr_deadline_at = map_option (\<lambda>t. en_now e + t) (rc_timeout_s b),
      wr_cancel_requested_at = None, wr_created_at = en_now e, wr_started_at = None,
      wr_finished_at = None, wr_updated_at = en_now e\<rparr>"

text \<open>The constraints SQLite checks on the insert: primary key, unique indexes, foreign keys.\<close>

definition insert_allowed :: "run_row \<Rightarrow> 'd wf_db \<Rightarrow> bool" where
  "insert_allowed row db \<longleftrightarrow>
     (\<forall>q \<in> set (db_runs db). run_key q \<noteq> run_key row) \<and>
     (idem_key row = None \<or> (\<forall>q \<in> set (db_runs db). idem_key q \<noteq> idem_key row)) \<and>
     (live_key row = None \<or> (\<forall>q \<in> set (db_runs db). live_key q \<noteq> live_key row)) \<and>
     (case wr_meeting_id (rr_run row) of None \<Rightarrow> True
        | Some m \<Rightarrow> (rr_tenant row, rr_owner row, m) \<in> set (db_meetings db)) \<and>
     (case wr_parent_run_id (rr_run row) of None \<Rightarrow> True
        | Some p \<Rightarrow> p = wr_run_id (rr_run row) \<or>
            (rr_tenant row, rr_owner row, p) \<in> run_key ` set (db_runs db))"

definition insert_run ::
    "wf_env \<Rightarrow> run_create \<Rightarrow> string option \<Rightarrow> string option \<Rightarrow> nat \<Rightarrow> 'd wf_db
      \<Rightarrow> py_error + wf_run \<times> 'd wf_db" where
  "insert_run e b rid parent attempt db =
     (let run = new_run e b rid parent attempt;
          row = \<lparr>rr_tenant = en_tenant e, rr_device = en_device e, rr_owner = en_owner e, rr_run = run\<rparr>
      in if insert_allowed row db
         then Inr (run, snd (append_event e run ''workflow.created''
                (Some (or_str (wr_title run) (utf8_take 120 (wr_intent_text run))))
                [(''kind'', JStr (wr_kind run)), (''source'', JStr (wr_source run))]
                VisDebug (db\<lparr>db_runs := db_runs db @ [row]\<rparr>)))
         else Inl IntegrityError)"

definition create_run_in_transaction ::
    "wf_env \<Rightarrow> run_create \<Rightarrow> string option \<Rightarrow> string option \<Rightarrow> nat \<Rightarrow> 'd wf_db
      \<Rightarrow> py_error + (wf_run \<times> bool) \<times> 'd wf_db" where
  "create_run_in_transaction e b rid parent attempt db =
     (case find_existing e b db of
        Some r \<Rightarrow> Inr ((r, False), db)
      | None \<Rightarrow> bindE (insert_run e b rid parent attempt db) (\<lambda>(r, db'). Inr ((r, True), db')))"

text \<open>
  \<open>create_run\<close> runs the lookup outside any lock: \<open>seen\<close> is the database it read,
  \<open>db\<close> the one its insert meets.  A concurrent winner shows up as an integrity error,
  and the winner is returned instead.
\<close>

definition create_run ::
    "wf_env \<Rightarrow> run_create \<Rightarrow> string option \<Rightarrow> string option \<Rightarrow> nat \<Rightarrow> 'd wf_db \<Rightarrow> 'd wf_db
      \<Rightarrow> (py_error + wf_run) \<times> 'd wf_db" where
  "create_run e b rid parent attempt seen db =
     (case find_existing e b seen of
        Some r \<Rightarrow> (Inr (case lookup_run db (env_key e (wr_run_id r)) of Some r' \<Rightarrow> r' | None \<Rightarrow> r), db)
      | None \<Rightarrow>
          (case insert_run e b rid parent attempt db of
             Inr (r, db') \<Rightarrow> (Inr r, db')
           | Inl IntegrityError \<Rightarrow>
               (case find_existing e b db of Some r \<Rightarrow> (Inr r, db) | None \<Rightarrow> (Inl IntegrityError, db))
           | Inl x \<Rightarrow> (Inl x, db)))"

definition create_run_atomic ::
    "wf_env \<Rightarrow> run_create \<Rightarrow> 'd domain_writer \<Rightarrow> string option \<Rightarrow> string option \<Rightarrow> nat \<Rightarrow> 'd wf_db
      \<Rightarrow> py_error + wf_run \<times> 'd wf_db" where
  "create_run_atomic e b w rid parent attempt db =
     bindE (create_run_in_transaction e b rid parent attempt db) (\<lambda>((r, created), db1).
       if created
       then bindE (run_domain_writer (Some w) db1) (\<lambda>(_, db2). Inr (r, db2))
       else Inr (r, db1))"

section \<open>Queries\<close>

definition get_run :: "wf_env \<Rightarrow> string \<Rightarrow> 'd wf_db \<Rightarrow> wf_run option" where
  "get_run e rid db = select_run e rid db"

definition get_active_by_idempotency :: "wf_env \<Rightarrow> string \<Rightarrow> 'd wf_db \<Rightarrow> wf_run option" where
  "get_active_by_idempotency e key db = map_option rr_run
     (order_first (\<lambda>r. - wr_created_at (rr_run r))
       (\<lambda>r. in_scope e r \<and> wr_idempotency_key (rr_run r) = Some key \<and> is_active (wr_state (rr_run r)))
       (db_runs db))"

definition list_runs ::
    "wf_env \<Rightarrow> string option \<Rightarrow> string option \<Rightarrow> string option \<Rightarrow> string option \<Rightarrow> int \<Rightarrow> 'd wf_db
      \<Rightarrow> wf_run list" where
  "list_runs e meeting todo agent st limit db =
     (let sel = (\<lambda>r. in_scope e r \<and>
            (truthy_str meeting \<longrightarrow> wr_meeting_id (rr_run r) = meeting) \<and>
            (truthy_str todo \<longrightarrow> wr_todo_id (rr_run r) = todo) \<and>
            (truthy_str agent \<longrightarrow> wr_agent_task_id (rr_run r) = agent) \<and>
            (truthy_str st \<longrightarrow> Some (state_name (wr_state (rr_run r))) = st));
          rows = sort_key (\<lambda>r. - wr_created_at (rr_run r)) (filter sel (db_runs db))
      in map rr_run (if limit < 0 then rows else take (nat limit) rows))"

text \<open>\<open>ORDER BY created_at ASC, run_id ASC\<close>: sort by the second key, then stably by the first.\<close>

definition list_unfinished_runs :: "wf_env \<Rightarrow> 'd wf_db \<Rightarrow> wf_run list" where
  "list_unfinished_runs e db = map rr_run
     (sort_key (\<lambda>r. wr_created_at (rr_run r))
       (sort_key (\<lambda>r. wr_run_id (rr_run r))
         (filter (\<lambda>r. in_scope e r \<and> is_active (wr_state (rr_run r))) (db_runs db))))"

definition list_events :: "wf_env \<Rightarrow> string \<Rightarrow> nat \<Rightarrow> 'd wf_db \<Rightarrow> wf_event list" where
  "list_events e rid after_seq db = map row_to_event
     (sort_key (\<lambda>r. we_seq (er_event r))
       (filter (\<lambda>r. event_key r = env_key e rid \<and> after_seq < we_seq (er_event r)) (db_events db)))"

definition claim_run_for_execution ::
    "wf_env \<Rightarrow> pyfloat \<Rightarrow> string \<Rightarrow> string \<Rightarrow> 'd wf_db
      \<Rightarrow> py_error + (wf_run \<times> lease_token) option \<times> 'd wf_db" where
  "claim_run_for_execution e ttl rid holder db =
     bindE (lease_acquire (en_clock e) (en_tenant e, en_owner e, ''workflow'', rid) holder ttl (db_leases db))
       (\<lambda>(lease, tab). let db1 = db\<lparr>db_leases := tab\<rparr> in
         case lease of
           None \<Rightarrow> Inr (None, db1)
         | Some t \<Rightarrow>
             (case select_run e rid db1 of
                Some r \<Rightarrow>
                  if is_active (wr_state r) then Inr (Some (r, t), db1)
                  else bindE (lease_release (en_clock e) t tab) (\<lambda>(_, tab'). Inr (None, db\<lparr>db_leases := tab'\<rparr>))
              | None \<Rightarrow> bindE (lease_release (en_clock e) t tab) (\<lambda>(_, tab'). Inr (None, db\<lparr>db_leases := tab'\<rparr>))))"

section \<open>State changes\<close>

record 'd state_change =
  sc_event_type :: string
  sc_message :: "string option"
  sc_payload :: jdict
  sc_output :: "jdict option"
  sc_error :: "string option"
  sc_started :: bool
  sc_finished :: bool
  sc_domain_writer :: "'d domain_writer option"
  sc_domain_events :: "echo_event list"
  sc_lease :: "lease_token option"

definition state_update :: "rat \<Rightarrow> wstate \<Rightarrow> jdict option \<Rightarrow> string option \<Rightarrow> bool \<Rightarrow> bool \<Rightarrow> wf_run \<Rightarrow> wf_run" where
  "state_update now st out err started finished r =
     r\<lparr>wr_state := st, wr_output := (case out of None \<Rightarrow> wr_output r | Some d \<Rightarrow> d), wr_error := err,
       wr_started_at := (if started \<and> wr_started_at r = None then Some now else wr_started_at r),
       wr_finished_at := (if finished then Some now else wr_finished_at r),
       wr_updated_at := now, wr_revision := wr_revision r + 1,
       wr_cancel_requested_at := (if st = CancelRequested then Some now else wr_cancel_requested_at r)\<rparr>"

definition set_state ::
    "wf_env \<Rightarrow> string \<Rightarrow> wstate \<Rightarrow> 'd state_change \<Rightarrow> 'd wf_db \<Rightarrow> py_error + wf_run option \<times> 'd wf_db" where
  "set_state e rid st c db =
     bindE (assert_workflow_lease e rid (sc_lease c) db) (\<lambda>_.
       case select_run e rid db of
         None \<Rightarrow> Inr (None, db)
       | Some cur \<Rightarrow>
           if st = wr_state cur then Inr (Some cur, db)
           else if \<not> legal (wr_state cur) st
           then Inl (InvalidWorkflowTransition (state_name (wr_state cur)) (state_name st))
           else
             bindE (run_domain_writer (sc_domain_writer c) db) (\<lambda>(applied, db1).
             bindE (cas_update (env_key e rid) (wr_revision cur) (\<lambda>_. True)
               (state_update (en_now e) st (sc_output c) (sc_error c) (sc_started c) (sc_finished c)) db1) (\<lambda>db2.
             case select_run e rid db2 of
               None \<Rightarrow> Inl WorkflowConflictError
             | Some updated \<Rightarrow>
                 (let db3 = snd (append_event e updated (sc_event_type c) (sc_message c) (sc_payload c) VisUser db2)
                  in Inr (Some updated,
                          if applied then append_domain_events e rid (sc_domain_events c) db3 else db3)))))"

definition start_run :: "wf_env \<Rightarrow> string \<Rightarrow> 'd wf_db \<Rightarrow> py_error + wf_run option \<times> 'd wf_db" where
  "start_run e rid = set_state e rid Running
     \<lparr>sc_event_type = ''workflow.started'', sc_message = Some msg_started, sc_payload = [],
      sc_output = None, sc_error = None, sc_started = True, sc_finished = False,
      sc_domain_writer = None, sc_domain_events = [], sc_lease = None\<rparr>"

definition complete_run ::
    "wf_env \<Rightarrow> string \<Rightarrow> jdict option \<Rightarrow> string option \<Rightarrow> 'd wf_db \<Rightarrow> py_error + wf_run option \<times> 'd wf_db" where
  "complete_run e rid out msg = set_state e rid Succeeded
     \<lparr>sc_event_type = ''workflow.succeeded'', sc_message = Some (or_str msg msg_done), sc_payload = [],
      sc_output = Some (case out of None \<Rightarrow> [] | Some d \<Rightarrow> d), sc_error = None,
      sc_started = False, sc_finished = True,
      sc_domain_writer = None, sc_domain_events = [], sc_lease = None\<rparr>"

definition complete_run_atomic ::
    "wf_env \<Rightarrow> string \<Rightarrow> jdict \<Rightarrow> 'd domain_writer \<Rightarrow> echo_event list \<Rightarrow> string \<Rightarrow> 'd wf_db
      \<Rightarrow> py_error + wf_run option \<times> 'd wf_db" where
  "complete_run_atomic e rid out w evs msg = set_state e rid Succeeded
     \<lparr>sc_event_type = ''workflow.succeeded'', sc_message = Some msg, sc_payload = [],
      sc_output = Some out, sc_error = None, sc_started = False, sc_finished = True,
      sc_domain_writer = Some w, sc_domain_events = evs, sc_lease = None\<rparr>"

definition or_dict :: "jdict option \<Rightarrow> jdict \<Rightarrow> jdict" where
  "or_dict d def = (case d of None \<Rightarrow> def | Some x \<Rightarrow> if x = [] then def else x)"

definition fail_run ::
    "wf_env \<Rightarrow> string \<Rightarrow> string \<Rightarrow> jdict option \<Rightarrow> 'd domain_writer option \<Rightarrow> 'd wf_db
      \<Rightarrow> py_error + wf_run option \<times> 'd wf_db" where
  "fail_run e rid err payload w = set_state e rid Failed
     \<lparr>sc_event_type = ''workflow.failed'', sc_message = Some err,
      sc_payload = or_dict payload [(''error'', JStr err)],
      sc_output = None, sc_error = Some err, sc_started = False, sc_finished = True,
      sc_domain_writer = w, sc_domain_events = [], sc_lease = None\<rparr>"

definition fail_run_atomic ::
    "wf_env \<Rightarrow> string \<Rightarrow> string \<Rightarrow> echo_event list \<Rightarrow> 'd domain_writer option \<Rightarrow> jdict option \<Rightarrow> 'd wf_db
      \<Rightarrow> py_error + wf_run option \<times> 'd wf_db" where
  "fail_run_atomic e rid err evs w payload = set_state e rid Failed
     \<lparr>sc_event_type = ''workflow.failed'', sc_message = Some err,
      sc_payload = or_dict payload [(''error'', JStr err)],
      sc_output = None, sc_error = Some err, sc_started = False, sc_finished = True,
      sc_domain_writer = w, sc_domain_events = evs, sc_lease = None\<rparr>"

definition timeout_run ::
    "wf_env \<Rightarrow> string \<Rightarrow> string \<Rightarrow> 'd domain_writer option \<Rightarrow> 'd wf_db
      \<Rightarrow> py_error + wf_run option \<times> 'd wf_db" where
  "timeout_run e rid err w = set_state e rid Timeout
     \<lparr>sc_event_type = ''workflow.timeout'', sc_message = Some err,
      sc_payload = [(''error'', JStr err)], sc_output = None, sc_error = Some err,
      sc_started = False, sc_finished = True,
      sc_domain_writer = w, sc_domain_events = [], sc_lease = None\<rparr>"

definition reason_payload :: "string option \<Rightarrow> jdict" where
  "reason_payload reason = (if truthy_str reason then [(''reason'', JStr (the reason))] else [])"

definition request_cancel ::
    "wf_env \<Rightarrow> string \<Rightarrow> string option \<Rightarrow> 'd wf_db \<Rightarrow> py_error + wf_run option \<times> 'd wf_db" where
  "request_cancel e rid reason = set_state e rid CancelRequested
     \<lparr>sc_event_type = ''workflow.cancel_requested'',
      sc_message = Some (or_str reason msg_cancel_requested), sc_payload = reason_payload reason,
      sc_output = None, sc_error = None, sc_started = False, sc_finished = False,
      sc_domain_writer = None, sc_domain_events = [], sc_lease = None\<rparr>"

definition mark_cancelled ::
    "wf_env \<Rightarrow> string \<Rightarrow> string \<Rightarrow> 'd domain_writer option \<Rightarrow> 'd wf_db
      \<Rightarrow> py_error + wf_run option \<times> 'd wf_db" where
  "mark_cancelled e rid msg w = set_state e rid Cancelled
     \<lparr>sc_event_type = ''workflow.cancelled'', sc_message = Some msg, sc_payload = [],
      sc_output = None, sc_error = None, sc_started = False, sc_finished = True,
      sc_domain_writer = w, sc_domain_events = [], sc_lease = None\<rparr>"

definition mark_cancel_failed ::
    "wf_env \<Rightarrow> string \<Rightarrow> string \<Rightarrow> 'd wf_db \<Rightarrow> py_error + wf_run option \<times> 'd wf_db" where
  "mark_cancel_failed e rid err = set_state e rid CancelFailed
     \<lparr>sc_event_type = ''workflow.cancel_failed'', sc_message = Some err,
      sc_payload = [(''error'', JStr err)], sc_output = None, sc_error = Some err,
      sc_started = False, sc_finished = True,
      sc_domain_writer = None, sc_domain_events = [], sc_lease = None\<rparr>"

section \<open>Progress, inline completion, late output\<close>

text \<open>The common tail of the operations that only merge output.\<close>

definition touch_output :: "rat \<Rightarrow> jdict \<Rightarrow> wf_run \<Rightarrow> wf_run" where
  "touch_output now out r = r\<lparr>wr_output := out, wr_updated_at := now, wr_revision := wr_revision r + 1\<rparr>"

definition commit_run_progress_atomic ::
    "wf_env \<Rightarrow> string \<Rightarrow> jdict \<Rightarrow> 'd domain_writer \<Rightarrow> echo_event list \<Rightarrow> string \<Rightarrow> string
      \<Rightarrow> lease_token option \<Rightarrow> 'd wf_db \<Rightarrow> py_error + wf_run option \<times> 'd wf_db" where
  "commit_run_progress_atomic e rid out w evs etype msg lease db =
     bindE (assert_workflow_lease e rid lease db) (\<lambda>_.
       case select_run e rid db of
         None \<Rightarrow> Inr (None, db)
       | Some cur \<Rightarrow>
           if is_terminal (wr_state cur) then Inr (Some cur, db)
           else
             bindE (run_domain_writer (Some w) db) (\<lambda>(applied, db1).
             bindE (cas_update (env_key e rid) (wr_revision cur) (\<lambda>r. is_active (wr_state r))
               (touch_output (en_now e) (dict_merge (wr_output cur) out)) db1) (\<lambda>db2.
             case select_run e rid db2 of
               None \<Rightarrow> Inl WorkflowConflictError
             | Some updated \<Rightarrow>
                 (let db3 = snd (append_event e updated etype (Some msg) [(''output'', JObj out)] VisDebug db2)
                  in Inr (Some updated, if applied then append_domain_events e rid evs db3 else db3)))))"

definition inline_done :: "rat \<Rightarrow> jdict \<Rightarrow> wf_run \<Rightarrow> wf_run" where
  "inline_done now out r =
     r\<lparr>wr_state := Succeeded, wr_output := out, wr_error := None, wr_started_at := Some now,
       wr_finished_at := Some now, wr_updated_at := now, wr_revision := wr_revision r + 1\<rparr>"

definition complete_new_run_atomic ::
    "wf_env \<Rightarrow> run_create \<Rightarrow> jdict \<Rightarrow> 'd domain_writer \<Rightarrow> echo_event list \<Rightarrow> string \<Rightarrow> 'd wf_db
      \<Rightarrow> py_error + wf_run \<times> 'd wf_db" where
  "complete_new_run_atomic e b out w evs msg db =
     bindE (create_run_in_transaction e b None None 1 db) (\<lambda>((rec, created), db1).
       if \<not> created then Inl WorkflowConflictError
       else
         bindE (run_domain_writer (Some w) db1) (\<lambda>(_, db2).
         bindE (cas_update (env_key e (wr_run_id rec)) (wr_revision rec) (\<lambda>r. wr_state r = Pending)
           (inline_done (en_now e) out) db2) (\<lambda>db3.
         case select_run e (wr_run_id rec) db3 of
           None \<Rightarrow> Inl WorkflowConflictError
         | Some updated \<Rightarrow>
             Inr (updated, append_domain_events e (wr_run_id rec) evs
               (snd (append_event e updated ''workflow.succeeded'' (Some msg) [] VisUser db3))))))"

definition merge_output ::
    "wf_env \<Rightarrow> string \<Rightarrow> jdict \<Rightarrow> string \<Rightarrow> string option \<Rightarrow> lease_token option
      \<Rightarrow> (jdict \<Rightarrow> jdict \<Rightarrow> jdict) option \<Rightarrow> 'd wf_db \<Rightarrow> py_error + wf_run option \<times> 'd wf_db" where
  "merge_output e rid patch etype msg lease strategy db =
     bindE (assert_workflow_lease e rid lease db) (\<lambda>_.
       case select_run e rid db of
         None \<Rightarrow> Inr (None, db)
       | Some cur \<Rightarrow>
           (let out = (case strategy of Some f \<Rightarrow> f (wr_output cur) patch
                                      | None \<Rightarrow> dict_merge (wr_output cur) patch) in
            bindE (cas_update (env_key e rid) (wr_revision cur) (\<lambda>_. True)
              (touch_output (en_now e) out) db) (\<lambda>db1.
            case select_run e rid db1 of
              None \<Rightarrow> Inl WorkflowConflictError
            | Some updated \<Rightarrow>
                Inr (Some updated, snd (append_event e updated etype msg
                   [(''output'', JObj patch)] VisDebug db1)))))"

section \<open>Events and agent deliveries\<close>

definition record_event ::
    "wf_env \<Rightarrow> string \<Rightarrow> string \<Rightarrow> string option \<Rightarrow> jdict option \<Rightarrow> visibility \<Rightarrow> lease_token option
      \<Rightarrow> 'd wf_db \<Rightarrow> py_error + wf_event option \<times> 'd wf_db" where
  "record_event e rid etype msg payload vis lease db =
     bindE (assert_workflow_lease e rid lease db) (\<lambda>_.
       case select_run e rid db of
         None \<Rightarrow> Inr (None, db)
       | Some run \<Rightarrow>
           (let (ev, db1) = append_event e run etype msg (case payload of None \<Rightarrow> [] | Some p \<Rightarrow> p) vis db
            in Inr (Some ev, db1)))"

definition delivered :: "pk \<Rightarrow> string \<Rightarrow> 'd wf_db \<Rightarrow> bool" where
  "delivered k key db \<longleftrightarrow>
     (\<exists>ev \<in> set (events_of k db). dict_has (we_payload ev) ''agent_delivery_key'' (JStr key))"

definition delivery_checks :: "bool \<Rightarrow> string \<Rightarrow> py_error + unit" where
  "delivery_checks in_tx key =
     bindE (guardE in_tx (RuntimeError ''Agent delivery requires an active transaction'')) (\<lambda>_.
       guardE (key \<noteq> [] \<and> utf8_length key \<le> 200) (ValueError ''Agent delivery key must be 1..200 characters''))"

definition record_agent_delivery_once_in_transaction ::
    "wf_env \<Rightarrow> bool \<Rightarrow> string \<Rightarrow> string \<Rightarrow> string \<Rightarrow> string option \<Rightarrow> jdict \<Rightarrow> visibility
      \<Rightarrow> 'd wf_db \<Rightarrow> py_error + bool \<times> 'd wf_db" where
  "record_agent_delivery_once_in_transaction e in_tx rid key etype msg payload vis db =
     bindE (delivery_checks in_tx key) (\<lambda>_.
       case select_run e rid db of
         None \<Rightarrow> Inr (False, db)
       | Some run \<Rightarrow>
           if delivered (env_key e rid) key db then Inr (False, db)
           else Inr (True, snd (append_event e run etype msg
                  (AList.update ''agent_delivery_key'' (JStr key) payload) vis db)))"

definition merge_agent_output_once_in_transaction ::
    "wf_env \<Rightarrow> bool \<Rightarrow> string \<Rightarrow> string \<Rightarrow> jdict \<Rightarrow> string \<Rightarrow> string
      \<Rightarrow> 'd wf_db \<Rightarrow> py_error + bool \<times> 'd wf_db" where
  "merge_agent_output_once_in_transaction e in_tx rid key patch etype msg db =
     bindE (delivery_checks in_tx key) (\<lambda>_.
       if delivered (env_key e rid) key db then Inr (False, db)
       else case select_run e rid db of
         None \<Rightarrow> Inr (False, db)
       | Some run \<Rightarrow>
           (let f = touch_output (en_now e) (dict_merge (wr_output run) patch) in
            bindE (cas_update (env_key e rid) (wr_revision run) (\<lambda>_. True) f db) (\<lambda>db1.
              Inr (True, snd (append_event e (f run) etype (Some msg)
                [(''output'', JObj patch), (''agent_delivery_key'', JStr key)] VisDebug db1)))))"

definition project_active_run ::
    "wf_env \<Rightarrow> string \<Rightarrow> (wf_run \<Rightarrow> 'd domain_writer) \<Rightarrow> lease_token option \<Rightarrow> 'd wf_db
      \<Rightarrow> py_error + wf_run option \<times> 'd wf_db" where
  "project_active_run e rid w lease db =
     bindE (assert_workflow_lease e rid lease db) (\<lambda>_.
       case select_run e rid db of
         None \<Rightarrow> Inr (None, db)
       | Some run \<Rightarrow>
           if is_terminal (wr_state run) then Inr (Some run, db)
           else bindE (run_domain_writer (Some (w run)) db) (\<lambda>(_, db1). Inr (Some run, db1)))"

section \<open>Cancellation and agent arbitration on a caller's transaction\<close>

definition cancel_update :: "rat \<Rightarrow> wf_run \<Rightarrow> wf_run" where
  "cancel_update now r =
     r\<lparr>wr_state := CancelRequested, wr_updated_at := now, wr_revision := wr_revision r + 1,
       wr_cancel_requested_at := (case wr_cancel_requested_at r of None \<Rightarrow> Some now | Some t \<Rightarrow> Some t)\<rparr>"

definition request_cancel_in_transaction ::
    "wf_env \<Rightarrow> string \<Rightarrow> string option \<Rightarrow> 'd wf_db \<Rightarrow> py_error + wf_run option \<times> 'd wf_db" where
  "request_cancel_in_transaction e rid reason db =
     bindE (assert_workflow_lease e rid None db) (\<lambda>_.
       case select_run e rid db of
         None \<Rightarrow> Inr (None, db)
       | Some cur \<Rightarrow>
           if wr_state cur = CancelRequested then Inr (Some cur, db)
           else if \<not> legal (wr_state cur) CancelRequested
           then Inl (InvalidWorkflowTransition (state_name (wr_state cur)) ''cancel_requested'')
           else
             (let f = cancel_update (en_now e) in
              bindE (cas_update (env_key e rid) (wr_revision cur) (\<lambda>_. True) f db) (\<lambda>db1.
                Inr (Some (f cur), snd (append_event e (f cur) ''workflow.cancel_requested''
                   (Some (or_str reason msg_cancel_requested)) (reason_payload reason) VisUser db1)))))"

definition transition_agent_run_in_transaction ::
    "wf_env \<Rightarrow> wf_run \<Rightarrow> wstate \<Rightarrow> string \<Rightarrow> string \<Rightarrow> jdict \<Rightarrow> jdict option \<Rightarrow> string option
      \<Rightarrow> bool \<Rightarrow> bool \<Rightarrow> 'd wf_db \<Rightarrow> py_error + wf_run \<times> 'd wf_db" where
  "transition_agent_run_in_transaction e cur st etype msg payload out err started finished db =
     (if \<not> legal (wr_state cur) st
      then Inl (InvalidWorkflowTransition (state_name (wr_state cur)) (state_name st))
      else
        bindE (cas_update (env_key e (wr_run_id cur)) (wr_revision cur) (\<lambda>_. True)
          (state_update (en_now e) st (Some (case out of None \<Rightarrow> wr_output cur | Some d \<Rightarrow> d))
             err started finished) db) (\<lambda>db1.
        case select_run e (wr_run_id cur) db1 of
          None \<Rightarrow> Inl WorkflowConflictError
        | Some updated \<Rightarrow>
            Inr (updated, snd (append_event e updated etype (Some msg) payload VisUser db1))))"

definition agent_event_type :: "wstate \<Rightarrow> string" where
  "agent_event_type st = ''workflow.'' @ state_name st"

definition agent_default_message :: "wstate \<Rightarrow> string" where
  "agent_default_message st = (case st of Succeeded \<Rightarrow> msg_done | Failed \<Rightarrow> msg_failed
     | Timeout \<Rightarrow> msg_timeout | Cancelled \<Rightarrow> msg_cancelled | _ \<Rightarrow> msg_cancel_failed)"

definition settle_agent_terminal_in_transaction ::
    "wf_env \<Rightarrow> string \<Rightarrow> wstate \<Rightarrow> string option \<Rightarrow> jdict option \<Rightarrow> jdict option \<Rightarrow> 'd wf_db
      \<Rightarrow> py_error + wf_run option \<times> 'd wf_db" where
  "settle_agent_terminal_in_transaction e rid st msg out payload db =
     (if \<not> is_terminal st
      then Inl (ValueError ''Agent terminal arbitration requires a terminal state'')
      else
        bindE (assert_workflow_lease e rid None db) (\<lambda>_.
        case select_run e rid db of
          None \<Rightarrow> Inr (None, db)
        | Some cur \<Rightarrow>
            if is_terminal (wr_state cur) then Inr (Some cur, db)
            else
              bindE (if st = Succeeded \<and> wr_state cur = Pending
                     then transition_agent_run_in_transaction e cur Running ''workflow.started''
                            msg_started [] None None True False db
                     else Inr (cur, db)) (\<lambda>(cur1, db1).
              bindE (if st \<in> {Cancelled, CancelFailed} \<and> wr_state cur1 \<noteq> CancelRequested
                     then request_cancel_in_transaction e rid (Some msg_agent_cancelled) db1
                     else Inr (Some cur1, db1)) (\<lambda>(requested, db2).
              case requested of
                None \<Rightarrow> Inr (None, db2)
              | Some cur2 \<Rightarrow>
                  bindE (transition_agent_run_in_transaction e cur2 st (agent_event_type st)
                    (or_str msg (agent_default_message st)) (or_dict payload []) out
                    (if st \<in> {Failed, Timeout, CancelFailed}
                     then Some (or_str msg (agent_default_message st)) else None) False True db2)
                  (\<lambda>(r, db3). Inr (Some r, db3))))))"

section \<open>Retry\<close>

definition retry_key :: "string \<Rightarrow> nat \<Rightarrow> string" where
  "retry_key rid attempt = ''workflow.retry:'' @ rid @ '':'' @ show_nat attempt"

definition retry_body :: "wf_run \<Rightarrow> string option \<Rightarrow> run_create" where
  "retry_body old reason =
     (let i1 = AList.update ''retry_of'' (JStr (wr_run_id old)) (wr_input old);
          i2 = (if truthy_str reason then AList.update ''retry_reason'' (JStr (the reason)) i1 else i1)
      in \<lparr>rc_kind = wr_kind old, rc_source = wr_source old, rc_title = wr_title old,
          rc_intent_text = wr_intent_text old, rc_meeting_id = wr_meeting_id old,
          rc_todo_id = wr_todo_id old, rc_agent_task_id = wr_agent_task_id old,
          rc_input = i2, rc_timeout_s = wr_timeout_s old,
          rc_idempotency_key = Some (retry_key (wr_run_id old) (wr_attempt old + 1)),
          rc_active_key = wr_active_key old\<rparr>)"

definition retry_run ::
    "wf_env \<Rightarrow> string \<Rightarrow> string option \<Rightarrow> (wf_run \<Rightarrow> 'd domain_writer) option \<Rightarrow> 'd wf_db
      \<Rightarrow> py_error + wf_run option \<times> 'd wf_db" where
  "retry_run e rid reason w db =
     (case select_run e rid db of
        None \<Rightarrow> Inr (None, db)
      | Some old \<Rightarrow>
          if \<not> is_terminal (wr_state old)
          then Inl (InvalidWorkflowTransition (state_name (wr_state old)) ''retry'')
          else if wr_state old = Succeeded
          then Inl (InvalidWorkflowTransition ''succeeded'' ''retry'')
          else let body = retry_body old reason; attempt = wr_attempt old + 1 in
            bindE (guardE (run_create_ok body) (ValidationError ''WorkflowRunCreate'')) (\<lambda>_.
            bindE (create_run_in_transaction e body None (Some (wr_run_id old)) attempt db)
              (\<lambda>((new, created), db1).
            if \<not> created \<and> wr_parent_run_id new \<noteq> Some (wr_run_id old) then Inl WorkflowConflictError
            else if created
            then bindE (run_domain_writer (map_option (\<lambda>f. f new) w) db1) (\<lambda>(_, db2).
                   Inr (Some new, snd (append_event e old ''workflow.retry_created'' (Some msg_retry_created)
                     [(''retry_run_id'', JStr (wr_run_id new)),
                      (''reason'', case reason of None \<Rightarrow> JNull | Some r \<Rightarrow> JStr r)] VisDebug db2)))
            else Inr (Some new, db1))))"

section \<open>Recovery after a restart\<close>

text \<open>Each event is its own transaction: an exception keeps the ones already committed.\<close>

fun restore_runs :: "wf_env \<Rightarrow> wf_run list \<Rightarrow> nat \<Rightarrow> 'd wf_db \<Rightarrow> (py_error + nat) \<times> 'd wf_db" where
  "restore_runs e [] n db = (Inr n, db)"
| "restore_runs e (r # rs) n db =
     (case record_event e (wr_run_id r) ''workflow.restored'' (Some msg_restored)
        (Some [(''state'', JStr (state_name (wr_state r)))]) VisDebug None db of
        Inl x \<Rightarrow> (Inl x, db)
      | Inr (_, db1) \<Rightarrow> restore_runs e rs (n + 1) db1)"

definition restore_unfinished :: "wf_env \<Rightarrow> 'd wf_db \<Rightarrow> (py_error + nat) \<times> 'd wf_db" where
  "restore_unfinished e db = restore_runs e (list_unfinished_runs e db) 0 db"

end
