(* ===== verification/WorkflowCorrect.thy ===== *)
theory WorkflowCorrect
  imports WorkflowService "HOL-Library.Sublist"
begin

text \<open>
  Correctness of the workflow service: what one committed operation may do to the tables
  (\<open>evolves\<close>), that every operation stays within it and keeps the invariant, the history
  of the database as a step relation over all operations and all principals, and the
  properties of creation, transition, retry, agent delivery and agent arbitration.
\<close>

section \<open>What a committed operation may change\<close>

text \<open>
  A run keeps its identity, keys, lineage, input and creation time; its state follows the
  legal transitions; its revision never decreases; and once terminal, its state, error and
  end time are final.
\<close>

definition run_evolves :: "wf_run \<Rightarrow> wf_run \<Rightarrow> bool" where
  "run_evolves r r' \<longleftrightarrow>
     legal\<^sup>*\<^sup>* (wr_state r) (wr_state r') \<and> wr_revision r \<le> wr_revision r' \<and>
     wr_run_id r' = wr_run_id r \<and> wr_idempotency_key r' = wr_idempotency_key r \<and>
     wr_active_key r' = wr_active_key r \<and> wr_attempt r' = wr_attempt r \<and>
     wr_parent_run_id r' = wr_parent_run_id r \<and> wr_input r' = wr_input r \<and>
     wr_kind r' = wr_kind r \<and> wr_created_at r' = wr_created_at r \<and>
     wr_deadline_at r' = wr_deadline_at r \<and>
     (is_terminal (wr_state r) \<longrightarrow> wr_state r' = wr_state r \<and> wr_error r' = wr_error r \<and>
        wr_finished_at r' = wr_finished_at r \<and> wr_started_at r' = wr_started_at r)"

definition key_in_scope :: "wf_env \<Rightarrow> pk \<Rightarrow> bool" where
  "key_in_scope e k = (fst k = en_tenant e \<and> fst (snd k) = en_owner e)"

text \<open>
  The transactional outbox: its event messages are exactly the committed events, without
  their delivery keys and in commit order, and the last snapshot of a run is its row.
\<close>

definition event_msgs :: "'d wf_db \<Rightarrow> (pk \<times> wf_event) list" where
  "event_msgs db = List.map_filter (\<lambda>m. case ob_body m of
     EventBody ev \<Rightarrow> Some ((ob_tenant m, ob_device m, ob_owner m), ev) | _ \<Rightarrow> None) (db_outbox db)"

definition durable_events :: "'d wf_db \<Rightarrow> (pk \<times> wf_event) list" where
  "durable_events db = map (\<lambda>r. ((er_tenant r, er_device r, er_owner r), row_to_event r)) (db_events db)"

definition snapshots_of :: "pk \<Rightarrow> 'd wf_db \<Rightarrow> wf_run list" where
  "snapshots_of k db = List.map_filter (\<lambda>m. case ob_body m of
     SnapshotBody r \<Rightarrow> if (ob_tenant m, ob_owner m, wr_run_id r) = k then Some r else None
   | _ \<Rightarrow> None) (db_outbox db)"

definition outbox_ok :: "'d wf_db \<Rightarrow> bool" where
  "outbox_ok db \<longleftrightarrow> event_msgs db = durable_events db \<and>
     (\<forall>k r. lookup_run db k = Some r \<longrightarrow> snapshots_of k db \<noteq> [] \<and> last (snapshots_of k db) = r)"

definition evolves :: "wf_env \<Rightarrow> 'd wf_db \<Rightarrow> 'd wf_db \<Rightarrow> bool" where
  "evolves e db db' \<longleftrightarrow>
     (\<forall>k r. lookup_run db k = Some r \<longrightarrow> (\<exists>r'. lookup_run db' k = Some r' \<and> run_evolves r r')) \<and>
     (\<forall>k. \<not> key_in_scope e k \<longrightarrow> lookup_run db' k = lookup_run db k \<and> events_of k db' = events_of k db) \<and>
     prefix (db_events db) (db_events db') \<and> prefix (db_outbox db) (db_outbox db') \<and>
     (outbox_ok db \<longrightarrow> outbox_ok db')"

definition good :: "wf_env \<Rightarrow> 'd wf_db \<Rightarrow> 'd wf_db \<Rightarrow> bool" where
  "good e db db' \<longleftrightarrow> wf_inv db' \<and> evolves e db db'"

lemma legal_star_terminal:
  assumes "legal\<^sup>*\<^sup>* a b" "is_terminal a"
  shows "b = a"
  using assms(1)
proof (cases rule: converse_rtranclpE)
  case base
  then show ?thesis by simp
next
  case (step c)
  from step(1) have "is_active a" by (rule legal_from_active)
  with assms(2) show ?thesis by (simp add: is_active_iff)
qed

lemma run_evolves_refl [simp]: "run_evolves r r"
  by (simp add: run_evolves_def)

lemma run_evolves_trans: "run_evolves a b \<Longrightarrow> run_evolves b c \<Longrightarrow> run_evolves a c"
  unfolding run_evolves_def by (auto intro: rtranclp_trans)

lemma evolves_refl [simp]: "evolves e db db"
  by (simp add: evolves_def)

lemma evolves_other:
  "evolves e db db' \<Longrightarrow> \<not> key_in_scope e k \<Longrightarrow>
     lookup_run db' k = lookup_run db k \<and> events_of k db' = events_of k db"
  unfolding evolves_def by blast

lemma evolves_lookup:
  "evolves e db db' \<Longrightarrow> lookup_run db k = Some r \<Longrightarrow>
     \<exists>r'. lookup_run db' k = Some r' \<and> run_evolves r r'"
  unfolding evolves_def by blast

lemma evolves_trans:
  assumes "evolves e a b" "evolves e b c"
  shows "evolves e a c"
  unfolding evolves_def
proof (intro conjI allI impI)
  fix k r
  assume "lookup_run a k = Some r"
  with assms(1) obtain r' where "lookup_run b k = Some r'" "run_evolves r r'"
    unfolding evolves_def by blast
  moreover from this(1) assms(2) obtain r'' where "lookup_run c k = Some r''" "run_evolves r' r''"
    unfolding evolves_def by blast
  ultimately show "\<exists>r'. lookup_run c k = Some r' \<and> run_evolves r r'"
    by (blast intro: run_evolves_trans)
next
  show "prefix (db_events a) (db_events c)" "prefix (db_outbox a) (db_outbox c)"
    using assms unfolding evolves_def by (blast intro: prefix_order.trans)+
next
  assume "outbox_ok a"
  with assms show "outbox_ok c" unfolding evolves_def by blast
next
  fix k
  assume "\<not> key_in_scope e k"
  with assms show "lookup_run c k = lookup_run a k" "events_of k c = events_of k a"
    by (simp_all add: evolves_other)
qed

lemma good_trans: "good e a b \<Longrightarrow> good e b c \<Longrightarrow> good e a c"
  unfolding good_def by (blast intro: evolves_trans)

lemma good_refl: "wf_inv db \<Longrightarrow> good e db db"
  by (simp add: good_def)

section \<open>The kinds of write\<close>

lemma prefix_outbox_append_event:
  "prefix (db_outbox db) (db_outbox (snd (append_event e run ty msg pl vis db)))"
  by (simp add: append_event_def Let_def outbox_insert_def)

lemma prefix_events_append_event:
  "prefix (db_events db) (db_events (snd (append_event e run ty msg pl vis db)))"
  by (simp add: append_event_def Let_def)

lemma map_filter_append: "List.map_filter f (xs @ ys) = List.map_filter f xs @ List.map_filter f ys"
  by (simp add: List.map_filter_def)

lemma msgs_append_event [simp]:
  "event_msgs (snd (append_event e run ty msg pl vis db)) = event_msgs db @
     [((en_tenant e, en_device e, en_owner e), fst (append_event e run ty msg pl vis db))]"
  "durable_events (snd (append_event e run ty msg pl vis db)) = durable_events db @
     [((en_tenant e, en_device e, en_owner e), fst (append_event e run ty msg pl vis db))]"
  "snapshots_of k (snd (append_event e run ty msg pl vis db)) = snapshots_of k db @
     (if k = env_key e (wr_run_id run) then [run] else [])"
  by (auto simp: event_msgs_def durable_events_def snapshots_of_def append_event_def Let_def
      outbox_insert_def map_filter_append row_to_event_def env_key_def List.map_filter_def)

lemma outbox_ok_append_event:
  assumes "event_msgs db = durable_events db"
    and "\<And>k r. k \<noteq> env_key e (wr_run_id run) \<Longrightarrow> lookup_run db k = Some r \<Longrightarrow>
      snapshots_of k db \<noteq> [] \<and> last (snapshots_of k db) = r"
    and "\<And>r. lookup_run db (env_key e (wr_run_id run)) = Some r \<Longrightarrow> r = run"
  shows "outbox_ok (snd (append_event e run ty msg pl vis db))"
proof -
  let ?db = "snd (append_event e run ty msg pl vis db)"
  have look: "lookup_run ?db k = lookup_run db k" for k by (rule lookup_run_cong) simp
  have "snapshots_of k ?db \<noteq> [] \<and> last (snapshots_of k ?db) = r" if "lookup_run ?db k = Some r" for k r
  proof (cases "k = env_key e (wr_run_id run)")
    case True
    with that assms(3)[of r] show ?thesis by (simp add: look)
  next
    case False
    with that assms(2)[of k r] show ?thesis by (simp add: look)
  qed
  with assms(1) show ?thesis by (simp add: outbox_ok_def)
qed

lemma outbox_ok_same:
  assumes "db_runs db' = db_runs db" "db_events db' = db_events db"
    "event_msgs db' = event_msgs db" "\<And>k. snapshots_of k db' = snapshots_of k db"
  shows "outbox_ok db' = outbox_ok db"
  using assms lookup_run_cong[OF assms(1)] by (simp add: outbox_ok_def durable_events_def)

lemma msgs_outbox_cong:
  "db_outbox db' = db_outbox db \<Longrightarrow> event_msgs db' = event_msgs db"
  "db_outbox db' = db_outbox db \<Longrightarrow> snapshots_of k db' = snapshots_of k db"
  by (simp_all add: event_msgs_def snapshots_of_def)

lemma msgs_domain_outbox [simp]:
  "event_msgs (append_domain_outbox e a ev db) = event_msgs db"
  "snapshots_of k (append_domain_outbox e a ev db) = snapshots_of k db"
  by (simp_all add: append_domain_outbox_def outbox_insert_def event_msgs_def snapshots_of_def
      map_filter_append)

lemma msgs_domain_events [simp]:
  "event_msgs (append_domain_events e a evs db) = event_msgs db"
  "snapshots_of k (append_domain_events e a evs db) = snapshots_of k db"
  unfolding append_domain_events_def by (induction evs arbitrary: db) simp_all

lemma prefix_outbox_domain_events:
  "prefix (db_outbox db) (db_outbox (append_domain_events e a evs db))"
proof (induction evs arbitrary: db)
  case Nil
  then show ?case by (simp add: append_domain_events_def)
next
  case (Cons ev evs)
  have "prefix (db_outbox db) (db_outbox (append_domain_outbox e a ev db))"
    by (simp add: append_domain_outbox_def outbox_insert_def)
  with Cons[of "append_domain_outbox e a ev db"] show ?case
    by (auto simp: append_domain_events_def intro: prefix_order.trans)
qed

lemma good_frame:
  assumes "wf_inv db" "db_runs db' = db_runs db" "db_events db' = db_events db"
    "prefix (db_outbox db) (db_outbox db')"
    "event_msgs db' = event_msgs db" "\<And>k. snapshots_of k db' = snapshots_of k db"
  shows "good e db db'"
proof -
  have "lookup_run db' k = lookup_run db k" "events_of k db' = events_of k db" for k
    using assms(2,3) by (simp_all add: lookup_run_def events_of_def)
  then show ?thesis
    using assms(1,3,4) wf_inv_frame[OF assms(1-3)] outbox_ok_same[OF assms(2,3,5,6)]
    by (simp add: good_def evolves_def)
qed

lemma good_domain_writer:
  "wf_inv db \<Longrightarrow> run_domain_writer w db = Inr (b, db') \<Longrightarrow> good e db db'"
  by (rule good_frame) (auto dest!: run_domain_writer_frame intro: msgs_outbox_cong)

lemma good_domain_events: "wf_inv db \<Longrightarrow> good e db (append_domain_events e' a evs db)"
  by (rule good_frame) (simp_all add: prefix_outbox_domain_events)

lemma good_record:
  assumes "wf_inv db" "lookup_run db (env_key e rid) = Some run"
  shows "good e db (snd (append_event e run ty msg pl vis db))"
proof -
  let ?db = "snd (append_event e run ty msg pl vis db)"
  have "lookup_run ?db k = lookup_run db k" for k by (rule lookup_run_cong) simp
  moreover have "events_of k ?db = events_of k db" if "\<not> key_in_scope e k" for k
    using that by (auto simp: events_of_append_event[OF refl] key_in_scope_def env_key_def)
  moreover have "outbox_ok ?db" if "outbox_ok db"
    by (rule outbox_ok_append_event)
      (use that assms(2) lookup_run_id[OF assms(2)] in \<open>auto simp: outbox_ok_def\<close>)
  ultimately have "evolves e db ?db"
    by (simp add: evolves_def prefix_outbox_append_event prefix_events_append_event)
  then show ?thesis
    using wf_inv_record[OF assms] by (simp add: good_def)
qed

lemma good_update:
  assumes inv: "wf_inv db" and run: "lookup_run db (env_key e rid) = Some r"
    and cas: "cas_update (env_key e rid) (wr_revision r) q f db = Inr db1" "q r"
    and keys: "\<And>x. wr_run_id (f x) = wr_run_id x"
      "\<And>x. wr_idempotency_key (f x) = wr_idempotency_key x"
      "\<And>x. wr_active_key (f x) = wr_active_key x"
    and ev: "run_evolves r (f r)" and ok: "run_ok (f r)"
  shows "select_run e rid db1 = Some (f r)"
    "good e db (snd (append_event e (f r) ty msg pl vis db1))"
proof -
  let ?db = "snd (append_event e (f r) ty msg pl vis db1)"
  have look: "lookup_run db1 k = (if k = env_key e rid then Some (f r) else lookup_run db k)" for k
    by (rule cas_update_lookup[OF cas(1) run refl cas(2) keys(1) wf_inv_keys[OF inv]])
  then show "select_run e rid db1 = Some (f r)" by (simp add: select_run_lookup)
  have db1: "db_events db1 = db_events db" "db_outbox db1 = db_outbox db"
    using cas_update_InrD[OF cas(1)] by simp_all
  have look': "lookup_run ?db k = lookup_run db1 k" for k by (rule lookup_run_cong) simp
  have active: "is_active (wr_state r)" if "is_active (wr_state (f r))"
    using that ev legal_star_terminal[of "wr_state r" "wr_state (f r)"]
    unfolding run_evolves_def by (auto simp: is_active_iff)
  have "wf_inv ?db"
    by (rule wf_inv_update[OF inv run refl cas keys active ok])
  moreover have "evolves e db ?db"
    unfolding evolves_def
  proof (intro conjI allI impI)
    fix k x
    assume "lookup_run db k = Some x"
    then show "\<exists>r'. lookup_run ?db k = Some r' \<and> run_evolves x r'"
      using run ev by (auto simp: look' look)
  next
    fix k
    assume "\<not> key_in_scope e k"
    then have "k \<noteq> env_key e rid" "k \<noteq> env_key e (wr_run_id (f r))"
      by (auto simp: key_in_scope_def env_key_def)
    then show "lookup_run ?db k = lookup_run db k" "events_of k ?db = events_of k db"
      by (simp_all add: look' look events_of_append_event[OF refl])
        (simp add: events_of_def db1)
  next
    show "prefix (db_events db) (db_events ?db)"
      using prefix_events_append_event[of db1] by (simp add: db1)
    show "prefix (db_outbox db) (db_outbox ?db)"
      using prefix_outbox_append_event[of db1] by (simp add: db1)
  next
    assume ob: "outbox_ok db"
    have "wr_run_id (f r) = rid" using keys(1) lookup_run_id[OF run] by simp
    then show "outbox_ok ?db"
      using ob by (intro outbox_ok_append_event)
        (auto simp: outbox_ok_def look durable_events_def db1 msgs_outbox_cong[OF db1(2)])
  qed
  ultimately show "good e db ?db" by (simp add: good_def)
qed

lemma good_insert:
  assumes inv: "wf_inv db" and ins: "insert_run e b rid parent attempt db = Inr (run, db')"
    and attempt: "1 \<le> attempt"
  shows "good e db db'" "run = new_run e b rid parent attempt"
    "lookup_run db' k = (if k = env_key e (wr_run_id run) then Some run else lookup_run db k)"
    "lookup_run db (env_key e (wr_run_id run)) = None"
proof -
  let ?row = "\<lparr>rr_tenant = en_tenant e, rr_device = en_device e, rr_owner = en_owner e,
     rr_run = new_run e b rid parent attempt\<rparr>"
  let ?db1 = "db\<lparr>db_runs := db_runs db @ [?row]\<rparr>"
  from ins have run: "run = new_run e b rid parent attempt" and allowed: "insert_allowed ?row db"
    and db': "\<exists>ty msg pl vis. db' = snd (append_event e (rr_run ?row) ty msg pl vis ?db1)"
    by (auto simp: insert_run_def Let_def split: if_splits)
  show "run = new_run e b rid parent attempt" by (rule run)
  have key: "run_key ?row = env_key e (wr_run_id (rr_run ?row))"
    by (simp add: run_key_def env_key_def)
  have fresh: "run_key ?row \<notin> run_key ` set (db_runs db)"
    using allowed by (auto simp: insert_allowed_def)
  then show none: "lookup_run db (env_key e (wr_run_id run)) = None"
    using key by (simp add: lookup_run_None_iff run)
  have ok: "run_ok (rr_run ?row)"
    using attempt by (simp add: run_ok_def new_run_def)
  have inv': "wf_inv db'"
    using db' wf_inv_insert[OF inv fresh _ _ ok key] allowed by (auto simp: insert_allowed_def)
  have runs: "db_runs db' = db_runs db @ [?row]" using db' by auto
  have look: "lookup_run db' k = (if k = env_key e (wr_run_id run) then Some run else lookup_run db k)" for k
  proof (cases "k = run_key ?row")
    case True
    with lookup_run_unique[OF wf_inv_keys[OF inv'], of ?row] key run show ?thesis by (simp add: runs)
  next
    case False
    have "List.find (\<lambda>r. run_key r = k) (rows @ [?row]) = List.find (\<lambda>r. run_key r = k) rows" for rows
      by (induction rows) (use False in auto)
    with False key run show ?thesis by (simp add: lookup_run_def runs)
  qed
  then show "lookup_run db' k = (if k = env_key e (wr_run_id run) then Some run else lookup_run db k)" .
  have "events_of k db' = events_of k db" if "\<not> key_in_scope e k" for k
    using that db'
    by (auto simp: events_of_append_event[OF refl] key_in_scope_def env_key_def) (auto simp: events_of_def)
  moreover have "lookup_run db' k = lookup_run db k" if "\<not> key_in_scope e k" for k
    using that by (auto simp: look key_in_scope_def env_key_def)
  moreover have "prefix (db_events db) (db_events db')" "prefix (db_outbox db) (db_outbox db')"
    using db' prefix_events_append_event[of ?db1] prefix_outbox_append_event[of ?db1] by auto
  moreover have "\<exists>r'. lookup_run db' k = Some r' \<and> run_evolves r r'" if "lookup_run db k = Some r" for k r
    using that none by (auto simp: look)
  moreover have "outbox_ok db'" if ob: "outbox_ok db"
  proof -
    have look1: "lookup_run ?db1 k = lookup_run db' k" for k by (rule lookup_run_cong) (simp add: runs)
    have msgs: "event_msgs ?db1 = event_msgs db" "snapshots_of k ?db1 = snapshots_of k db" for k
      by (rule msgs_outbox_cong, simp)+
    from db' obtain ty msg pl vis where fin: "db' = snd (append_event e (rr_run ?row) ty msg pl vis ?db1)"
      by blast
    have rid: "wr_run_id (rr_run ?row) = wr_run_id run" by (simp add: run)
    show ?thesis
      unfolding fin
      by (rule outbox_ok_append_event)
        (use ob in \<open>auto simp: rid look1 look msgs outbox_ok_def durable_events_def run\<close>)
  qed
  ultimately show "good e db db'" using inv' by (simp add: good_def evolves_def)
qed

section \<open>Every operation\<close>

definition change_ok :: "wstate \<Rightarrow> 'd state_change \<Rightarrow> bool" where
  "change_ok st c \<longleftrightarrow> sc_started c = (st = Running) \<and> sc_finished c = is_terminal st \<and>
     (sc_error c \<noteq> None \<longrightarrow> is_terminal st)"

lemma state_update_frame [simp]:
  "wr_run_id (state_update now st out err b1 b2 r) = wr_run_id r"
  "wr_idempotency_key (state_update now st out err b1 b2 r) = wr_idempotency_key r"
  "wr_active_key (state_update now st out err b1 b2 r) = wr_active_key r"
  "wr_state (state_update now st out err b1 b2 r) = st"
  "wr_revision (state_update now st out err b1 b2 r) = wr_revision r + 1"
  "wr_parent_run_id (state_update now st out err b1 b2 r) = wr_parent_run_id r"
  "wr_attempt (state_update now st out err b1 b2 r) = wr_attempt r"
  by (simp_all add: state_update_def)

lemma state_update_ok:
  assumes "run_ok r" "legal (wr_state r) st" "b1 = (st = Running)" "b2 = is_terminal st"
    "err \<noteq> None \<longrightarrow> is_terminal st"
  shows "run_ok (state_update now st out err b1 b2 r)"
  using assms legal_from_active[OF assms(2)]
  by (auto simp: run_ok_def state_update_def is_active_iff)

lemma state_update_evolves:
  assumes "legal (wr_state r) st"
  shows "run_evolves r (state_update now st out err b1 b2 r)"
  using assms legal_from_active[OF assms]
  by (auto simp: run_evolves_def state_update_def is_active_iff)

lemma touch_output_frame [simp]:
  "wr_run_id (touch_output now out r) = wr_run_id r"
  "wr_idempotency_key (touch_output now out r) = wr_idempotency_key r"
  "wr_active_key (touch_output now out r) = wr_active_key r"
  "wr_state (touch_output now out r) = wr_state r"
  by (simp_all add: touch_output_def)

lemma touch_output_ok: "run_ok r \<Longrightarrow> run_ok (touch_output now out r)"
  by (simp add: run_ok_def touch_output_def)

lemma touch_output_evolves [simp]: "run_evolves r (touch_output now out r)"
  by (simp add: run_evolves_def touch_output_def)

lemma lookup_domain_writer:
  "run_domain_writer w db = Inr (b, db1) \<Longrightarrow> lookup_run db1 k = lookup_run db k"
  by (auto dest: run_domain_writer_frame intro: lookup_run_cong)

lemma events_domain_writer:
  "run_domain_writer w db = Inr (b, db1) \<Longrightarrow> events_of k db1 = events_of k db"
  by (auto dest!: run_domain_writer_frame simp: events_of_def)

lemma events_of_domain_events [simp]: "events_of k (append_domain_events e a evs db) = events_of k db"
  by (simp add: events_of_def)

lemma lookup_domain_events [simp]: "lookup_run (append_domain_events e a evs db) k = lookup_run db k"
  by (rule lookup_run_cong) simp

text \<open>
  The update that all operations share, from the row just read to the appended event:
  \<open>db0\<close> is the database after the domain writer, \<open>db1\<close> after the compare-and-set.
\<close>

lemma update_and_event:
  assumes inv: "wf_inv db0" and run: "lookup_run db0 (env_key e rid) = Some r"
    and cas: "cas_update (env_key e rid) (wr_revision r) q f db0 = Inr db1" "q r"
    and keys: "\<And>x. wr_run_id (f x) = wr_run_id x"
      "\<And>x. wr_idempotency_key (f x) = wr_idempotency_key x"
      "\<And>x. wr_active_key (f x) = wr_active_key x"
    and ev: "run_evolves r (f r)" and ok: "run_ok (f r)"
    and fin: "db' = snd (append_event e (f r) ty msg pl vis db1)"
  shows "good e db0 db'" "lookup_run db' (env_key e rid) = Some (f r)"
    "\<exists>v. events_of (env_key e rid) db' = events_of (env_key e rid) db0 @ [v] \<and> we_type v = ty \<and>
       we_state v = wr_state (f r) \<and> we_payload v = pl"
proof -
  show "good e db0 db'" unfolding fin by (rule good_update(2)[OF inv run cas keys ev ok])
  have sel: "select_run e rid db1 = Some (f r)" by (rule good_update(1)[OF inv run cas keys ev ok])
  have "lookup_run db' (env_key e rid) = lookup_run db1 (env_key e rid)"
    unfolding fin by (rule lookup_run_cong) simp
  with sel show "lookup_run db' (env_key e rid) = Some (f r)" by (simp add: select_run_lookup)
  have "wr_run_id (f r) = rid" using keys(1) run lookup_run_id by metis
  moreover have "events_of k db1 = events_of k db0" for k
    using cas_update_InrD[OF cas(1)] by (simp add: events_of_def)
  ultimately show "\<exists>v. events_of (env_key e rid) db' = events_of (env_key e rid) db0 @ [v] \<and> we_type v = ty \<and>
       we_state v = wr_state (f r) \<and> we_payload v = pl"
    unfolding fin by (simp add: events_of_append_event)
qed

text \<open>The three outcomes of a state change that does not raise.\<close>

lemma set_state_outcome:
  assumes inv: "wf_inv db" and c: "change_ok st c"
    and run: "set_state e rid st c db = Inr (res, db')"
  obtains (missing) "lookup_run db (env_key e rid) = None" "res = None" "db' = db"
  | (same) cur where "lookup_run db (env_key e rid) = Some cur" "wr_state cur = st"
      "res = Some cur" "db' = db"
  | (moved) cur new v where "lookup_run db (env_key e rid) = Some cur" "legal (wr_state cur) st"
      "new = state_update (en_now e) st (sc_output c) (sc_error c) (sc_started c) (sc_finished c) cur"
      "res = Some new" "lookup_run db' (env_key e rid) = Some new" "good e db db'"
      "events_of (env_key e rid) db' = events_of (env_key e rid) db @ [v]"
      "we_type v = sc_event_type c" "we_state v = st"
proof (cases "lookup_run db (env_key e rid)")
  case None
  with run show ?thesis
    by (intro missing) (auto simp: set_state_def bindE_Inr_iff select_run_lookup)
next
  case (Some cur)
  show ?thesis
  proof (cases "st = wr_state cur")
    case True
    with run Some show ?thesis
      by (intro same[of cur]) (auto simp: set_state_def bindE_Inr_iff select_run_lookup)
  next
    case False
    let ?f = "state_update (en_now e) st (sc_output c) (sc_error c) (sc_started c) (sc_finished c)"
    from run Some False have leg: "legal (wr_state cur) st"
      by (auto simp: set_state_def bindE_Inr_iff select_run_lookup split: if_splits)
    from run Some False obtain applied db1 db2 updated where
      w: "run_domain_writer (sc_domain_writer c) db = Inr (applied, db1)"
      and cas: "cas_update (env_key e rid) (wr_revision cur) (\<lambda>_. True) ?f db1 = Inr db2"
      and sel: "select_run e rid db2 = Some updated" and res: "res = Some updated"
      and db': "db' = (let db3 = snd (append_event e updated (sc_event_type c) (sc_message c) (sc_payload c) VisUser db2)
          in if applied then append_domain_events e rid (sc_domain_events c) db3 else db3)"
      by (auto simp: set_state_def bindE_Inr_iff select_run_lookup Let_def split: if_splits option.splits)
    note inv1 = good_domain_writer[OF inv w, of e, unfolded good_def, THEN conjunct1]
    have look1: "lookup_run db1 (env_key e rid) = Some cur"
      using Some lookup_domain_writer[OF w] by simp
    have ok: "run_ok (?f cur)"
      using wf_invD(1)[OF inv Some] leg c by (intro state_update_ok) (auto simp: change_ok_def)
    let ?db3 = "snd (append_event e (?f cur) (sc_event_type c) (sc_message c) (sc_payload c) VisUser db2)"
    note upd = update_and_event[OF inv1 look1 cas TrueI _ _ _ state_update_evolves[OF leg] ok refl, simplified]
    have new: "updated = ?f cur"
      using good_update(1)[OF inv1 look1 cas TrueI _ _ _ state_update_evolves[OF leg] ok] sel by simp
    have g3: "good e db ?db3"
      by (rule good_trans[OF good_domain_writer[OF inv w] upd(1)])
    then have inv3: "wf_inv ?db3" by (simp add: good_def)
    have "good e db db'"
      unfolding db' new Let_def using g3 good_trans[OF g3 good_domain_events[OF inv3]] by simp
    moreover have "lookup_run db' (env_key e rid) = Some (?f cur)"
      using upd(2) by (simp add: db' new Let_def)
    moreover obtain v where "events_of (env_key e rid) ?db3 = events_of (env_key e rid) db1 @ [v]"
      "we_type v = sc_event_type c" "we_state v = st"
      using upd(3)[where ty = "sc_event_type c" and msg = "sc_message c" and pl = "sc_payload c"
          and vis = VisUser] by blast
    then have "events_of (env_key e rid) db' = events_of (env_key e rid) db @ [v]"
      "we_type v = sc_event_type c" "we_state v = st"
      by (simp_all add: db' new Let_def events_domain_writer[OF w])
    ultimately show ?thesis
      using Some leg res new by (intro moved[of cur "?f cur" v]) auto
  qed
qed

lemma set_state_good:
  assumes "wf_inv db" "change_ok st c" "set_state e rid st c db = Inr (res, db')"
  shows "good e db db'"
  by (rule set_state_outcome[OF assms]) (use good_refl[OF assms(1)] in auto)

lemmas change_defs = start_run_def complete_run_def complete_run_atomic_def fail_run_def
  fail_run_atomic_def timeout_run_def request_cancel_def mark_cancelled_def mark_cancel_failed_def

lemma state_changes_good:
  assumes "wf_inv db"
  shows "start_run e rid db = Inr (res, db') \<Longrightarrow> good e db db'"
    "complete_run e rid out m db = Inr (res, db') \<Longrightarrow> good e db db'"
    "complete_run_atomic e rid d w evs t db = Inr (res, db') \<Longrightarrow> good e db db'"
    "fail_run e rid t pl ow db = Inr (res, db') \<Longrightarrow> good e db db'"
    "fail_run_atomic e rid t evs ow pl db = Inr (res, db') \<Longrightarrow> good e db db'"
    "timeout_run e rid t ow db = Inr (res, db') \<Longrightarrow> good e db db'"
    "request_cancel e rid m db = Inr (res, db') \<Longrightarrow> good e db db'"
    "mark_cancelled e rid t ow db = Inr (res, db') \<Longrightarrow> good e db db'"
    "mark_cancel_failed e rid t db = Inr (res, db') \<Longrightarrow> good e db db'"
  unfolding change_defs
  by (rule set_state_good[OF assms]; assumption?; simp add: change_ok_def)+

lemma find_existing_lookup:
  assumes "find_existing e b db = Some r" "wf_inv db"
  shows "lookup_run db (env_key e (wr_run_id r)) = Some r"
proof -
  from assms(1) obtain row where row: "row \<in> set (db_runs db)" "in_scope e row" "rr_run row = r"
    by (auto simp: find_existing_def find_by_idempotency_def find_active_by_active_key_def
        split: option.splits if_splits dest!: order_first_SomeD)
  then have "run_key row = env_key e (wr_run_id r)"
    by (simp add: run_key_def env_key_def in_scope_def)
  with lookup_run_unique[OF wf_inv_keys[OF assms(2)] row(1)] row(3) show ?thesis by simp
qed

text \<open>Creation on a transaction: an existing run, or the new one with its first event.\<close>

lemma create_in_transaction_outcome:
  assumes inv: "wf_inv db" and att: "1 \<le> attempt"
    and run: "create_run_in_transaction e b rid parent attempt db = Inr ((r, created), db')"
  obtains (existing) "\<not> created" "find_existing e b db = Some r" "db' = db"
  | (created) "created" "find_existing e b db = None"
      "insert_run e b rid parent attempt db = Inr (r, db')"
      "r = new_run e b rid parent attempt" "good e db db'"
      "lookup_run db (env_key e (wr_run_id r)) = None"
      "\<And>k. lookup_run db' k = (if k = env_key e (wr_run_id r) then Some r else lookup_run db k)"
proof (cases "find_existing e b db")
  case (Some x)
  with run show ?thesis
    by (intro existing) (auto simp: create_run_in_transaction_def)
next
  case None
  with run have ins: "insert_run e b rid parent attempt db = Inr (r, db')" and "created"
    by (auto simp: create_run_in_transaction_def bindE_Inr_iff)
  with None good_insert[OF inv ins att] show ?thesis
    by (intro created) auto
qed

lemma create_in_transaction_good:
  assumes "wf_inv db" "1 \<le> attempt" "create_run_in_transaction e b rid parent attempt db = Inr (rc, db')"
  shows "good e db db'"
proof -
  obtain r created where rc: "rc = (r, created)" by (cases rc)
  show ?thesis
    by (rule create_in_transaction_outcome[OF assms(1,2) assms(3)[unfolded rc]])
      (use good_refl[OF assms(1)] in auto)
qed

lemma create_run_atomic_good:
  assumes "wf_inv db" "1 \<le> attempt" "create_run_atomic e b w rid parent attempt db = Inr (r, db')"
  shows "good e db db'"
proof -
  from assms(3) obtain rec created db1 where
    c: "create_run_in_transaction e b rid parent attempt db = Inr ((rec, created), db1)"
    and rest: "if created then \<exists>x. run_domain_writer (Some w) db1 = Inr (x, db') else db' = db1"
    by (auto simp: create_run_atomic_def bindE_Inr_iff split: if_splits)
  have g1: "good e db db1" by (rule create_in_transaction_good[OF assms(1,2) c])
  then have "wf_inv db1" by (simp add: good_def)
  with g1 rest show ?thesis
    by (auto split: if_splits intro: good_trans[OF g1] good_domain_writer)
qed

lemma create_run_good:
  assumes "wf_inv db" "1 \<le> attempt" "create_run e b rid parent attempt seen db = (res, db')"
  shows "good e db db'"
proof (cases "\<exists>r. insert_run e b rid parent attempt db = Inr (r, db')")
  case True
  then obtain r where "insert_run e b rid parent attempt db = Inr (r, db')" by blast
  then show ?thesis by (rule good_insert(1)[OF assms(1) _ assms(2)])
next
  case False
  with assms(3) have "db' = db"
    by (auto simp: create_run_def split: option.splits sum.splits py_error.splits prod.splits)
  then show ?thesis by (simp add: good_refl[OF assms(1)])
qed

lemma commit_run_progress_good:
  assumes inv: "wf_inv db" and run: "commit_run_progress_atomic e rid out w evs ty msg lease db = Inr (res, db')"
  shows "good e db db'"
proof (cases "db' = db")
  case True
  then show ?thesis by (simp add: good_refl[OF inv])
next
  case False
  with run obtain cur applied db1 db2 updated where
    cur: "lookup_run db (env_key e rid) = Some cur" "\<not> is_terminal (wr_state cur)"
    and w: "run_domain_writer (Some w) db = Inr (applied, db1)"
    and cas: "cas_update (env_key e rid) (wr_revision cur) (\<lambda>r. is_active (wr_state r))
        (touch_output (en_now e) (dict_merge (wr_output cur) out)) db1 = Inr db2"
    and sel: "select_run e rid db2 = Some updated"
    and db': "db' = (let db3 = snd (append_event e updated ty (Some msg) [(''output'', JObj out)] VisDebug db2)
       in if applied then append_domain_events e rid evs db3 else db3)"
    by (auto simp: commit_run_progress_atomic_def bindE_Inr_iff select_run_lookup Let_def
        split: if_splits option.splits)
  note g1 = good_domain_writer[OF inv w, of e]
  note inv1 = g1[unfolded good_def, THEN conjunct1]
  have look: "lookup_run db1 (env_key e rid) = Some cur"
    using cur(1) lookup_domain_writer[OF w] by simp
  have act: "is_active (wr_state cur)" using cur(2) by (simp add: is_active_iff)
  have ok: "run_ok (touch_output (en_now e) (dict_merge (wr_output cur) out) cur)"
    using wf_invD(1)[OF inv cur(1)] by (rule touch_output_ok)
  note upd = good_update[OF inv1 look cas act _ _ _ touch_output_evolves ok, simplified]
  have g3: "good e db (snd (append_event e updated ty (Some msg) [(''output'', JObj out)] VisDebug db2))"
    using upd(1) sel by (intro good_trans[OF g1]) (auto intro: upd(2))
  show ?thesis
    unfolding db' Let_def using g3 good_trans[OF g3 good_domain_events]
    by (simp add: good_def)
qed

lemma inline_done_frame [simp]:
  "wr_run_id (inline_done now out r) = wr_run_id r"
  "wr_idempotency_key (inline_done now out r) = wr_idempotency_key r"
  "wr_active_key (inline_done now out r) = wr_active_key r"
  "wr_state (inline_done now out r) = Succeeded"
  by (simp_all add: inline_done_def)

text \<open>
  Creating and finishing in one unit of work goes through \<open>running\<close> without a row for it.
\<close>

lemma legal_star_pending_succeeded: "legal\<^sup>*\<^sup>* Pending Succeeded"
proof -
  have "legal Pending Running" "legal Running Succeeded" by (simp_all add: legal_def)
  then show ?thesis by (meson r_into_rtranclp rtranclp.rtrancl_into_rtrancl)
qed

lemma complete_new_run_good:
  assumes inv: "wf_inv db" and run: "complete_new_run_atomic e b out w evs msg db = Inr (r, db')"
  shows "good e db db'"
proof -
  from run obtain rec created db1 x db2 db3 updated where
    c: "create_run_in_transaction e b None None 1 db = Inr ((rec, created), db1)" "created"
    and w: "run_domain_writer (Some w) db1 = Inr (x, db2)"
    and cas: "cas_update (env_key e (wr_run_id rec)) (wr_revision rec) (\<lambda>r. wr_state r = Pending)
           (inline_done (en_now e) out) db2 = Inr db3"
    and sel: "select_run e (wr_run_id rec) db3 = Some updated"
    and db': "db' = append_domain_events e (wr_run_id rec) evs
       (snd (append_event e updated ''workflow.succeeded'' (Some msg) [] VisUser db3))"
    by (auto simp: complete_new_run_atomic_def bindE_Inr_iff split: if_splits option.splits)
  have att: "(1::nat) \<le> 1" by simp
  have g1: "good e db db1" by (rule create_in_transaction_good[OF inv att c(1)])
  then have inv1: "wf_inv db1" by (simp add: good_def)
  note g2 = good_domain_writer[OF inv1 w, of e]
  note inv2 = g2[unfolded good_def, THEN conjunct1]
  have "wr_state rec = Pending \<and> lookup_run db1 (env_key e (wr_run_id rec)) = Some rec"
    by (rule create_in_transaction_outcome[OF inv att c(1)]) (use c(2) in \<open>simp_all add: new_run_def\<close>)
  then have pend: "wr_state rec = Pending" "lookup_run db1 (env_key e (wr_run_id rec)) = Some rec"
    by simp_all
  have look: "lookup_run db2 (env_key e (wr_run_id rec)) = Some rec"
    using pend(2) lookup_domain_writer[OF w] by simp
  have ok: "run_ok (inline_done (en_now e) out rec)"
    using wf_invD(1)[OF inv1 pend(2)] by (simp add: run_ok_def inline_done_def)
  have ev: "run_evolves rec (inline_done (en_now e) out rec)"
    using legal_star_pending_succeeded by (simp add: run_evolves_def inline_done_def pend(1))
  note upd = good_update[OF inv2 look cas pend(1) _ _ _ ev ok, simplified]
  have new: "updated = inline_done (en_now e) out rec" using upd(1) sel by simp
  have g3: "good e db (snd (append_event e updated ''workflow.succeeded'' (Some msg) [] VisUser db3))"
    unfolding new by (rule good_trans[OF g1 good_trans[OF g2 upd(2)]])
  show ?thesis
    unfolding db' by (rule good_trans[OF g3 good_domain_events]) (use g3 in \<open>simp add: good_def\<close>)
qed

lemma merge_output_good:
  assumes inv: "wf_inv db" and run: "merge_output e rid patch ty msg lease strat db = Inr (res, db')"
  shows "good e db db'"
proof (cases "db' = db")
  case True
  then show ?thesis by (simp add: good_refl[OF inv])
next
  case False
  with run obtain cur out db1 updated where
    cur: "lookup_run db (env_key e rid) = Some cur"
    and cas: "cas_update (env_key e rid) (wr_revision cur) (\<lambda>_. True) (touch_output (en_now e) out) db = Inr db1"
    and sel: "select_run e rid db1 = Some updated"
    and db': "db' = snd (append_event e updated ty msg [(''output'', JObj patch)] VisDebug db1)"
    by (auto simp: merge_output_def bindE_Inr_iff select_run_lookup Let_def
        split: if_splits option.splits)
  have ok: "run_ok (touch_output (en_now e) out cur)"
    using wf_invD(1)[OF inv cur] by (rule touch_output_ok)
  note upd = good_update[OF inv cur cas TrueI _ _ _ touch_output_evolves ok, simplified]
  show ?thesis using upd(1) sel by (auto simp: db' intro: upd(2))
qed

lemma record_event_good:
  assumes inv: "wf_inv db" and run: "record_event e rid ty msg pl vis lease db = Inr (res, db')"
  shows "good e db db'"
proof (cases "lookup_run db (env_key e rid)")
  case None
  with run inv show ?thesis
    by (auto simp: record_event_def bindE_Inr_iff select_run_lookup intro: good_refl)
next
  case (Some cur)
  with run have "db' = snd (append_event e cur ty msg (case pl of None \<Rightarrow> [] | Some p \<Rightarrow> p) vis db)"
    by (auto simp: record_event_def bindE_Inr_iff select_run_lookup Let_def split: prod.splits)
  then show ?thesis by (simp add: good_record[OF inv Some])
qed

lemma record_delivery_good:
  assumes inv: "wf_inv db"
    and run: "record_agent_delivery_once_in_transaction e tx rid key ty msg pl vis db = Inr (b, db')"
  shows "good e db db'"
proof (cases "lookup_run db (env_key e rid)")
  case None
  with run inv show ?thesis
    by (auto simp: record_agent_delivery_once_in_transaction_def bindE_Inr_iff select_run_lookup
        intro: good_refl)
next
  case (Some cur)
  with run inv show ?thesis
    by (auto simp: record_agent_delivery_once_in_transaction_def bindE_Inr_iff select_run_lookup
        split: if_splits intro: good_refl good_record)
qed

lemma merge_agent_output_good:
  assumes inv: "wf_inv db"
    and run: "merge_agent_output_once_in_transaction e tx rid key patch ty msg db = Inr (b, db')"
  shows "good e db db'"
proof (cases "db' = db")
  case True
  then show ?thesis by (simp add: good_refl[OF inv])
next
  case False
  with run obtain cur db1 where
    cur: "lookup_run db (env_key e rid) = Some cur"
    and cas: "cas_update (env_key e rid) (wr_revision cur) (\<lambda>_. True)
        (touch_output (en_now e) (dict_merge (wr_output cur) patch)) db = Inr db1"
    and db': "db' = snd (append_event e (touch_output (en_now e) (dict_merge (wr_output cur) patch) cur) ty
        (Some msg) [(''output'', JObj patch), (''agent_delivery_key'', JStr key)] VisDebug db1)"
    by (auto simp: merge_agent_output_once_in_transaction_def bindE_Inr_iff select_run_lookup Let_def
        split: if_splits option.splits)
  have ok: "run_ok (touch_output (en_now e) (dict_merge (wr_output cur) patch) cur)"
    using wf_invD(1)[OF inv cur] by (rule touch_output_ok)
  show ?thesis
    unfolding db' by (rule good_update(2)[OF inv cur cas TrueI _ _ _ touch_output_evolves ok]) simp_all
qed

lemma project_active_run_good:
  assumes inv: "wf_inv db" and run: "project_active_run e rid w lease db = Inr (res, db')"
  shows "good e db db'"
proof (cases "db' = db")
  case True
  then show ?thesis by (simp add: good_refl[OF inv])
next
  case False
  with run obtain w' b where "run_domain_writer w' db = Inr (b, db')"
    by (auto simp: project_active_run_def bindE_Inr_iff split: option.splits if_splits)
  then show ?thesis by (rule good_domain_writer[OF inv])
qed

lemma claim_run_good:
  assumes inv: "wf_inv db" and run: "claim_run_for_execution e ttl rid holder db = Inr (res, db')"
  shows "good e db db'"
proof -
  from run obtain lease tab where acq:
    "lease_acquire (en_clock e) (en_tenant e, en_owner e, ''workflow'', rid) holder ttl (db_leases db) = Inr (lease, tab)"
    by (auto simp: claim_run_for_execution_def bindE_Inr_iff)
  have "\<exists>t. db' = db\<lparr>db_leases := t\<rparr>"
  proof (cases lease)
    case None
    with run acq show ?thesis by (auto simp: claim_run_for_execution_def)
  next
    case (Some t)
    with run acq show ?thesis
      by (cases "select_run e rid (db\<lparr>db_leases := tab\<rparr>)")
        (auto simp: claim_run_for_execution_def Let_def bindE_Inr_iff split: if_splits)
  qed
  then show ?thesis by (auto intro!: good_frame[OF inv] msgs_outbox_cong)
qed

end
