(* ===== verification/WorkflowArbitration.thy ===== *)
theory WorkflowArbitration
  imports WorkflowCorrect
begin

text \<open>
  Cancellation, the arbitration of agent runs, retries and the start-up restore of
  \<^verbatim>\<open>workflows/service.py\<close>: each succeeds where the service promises it and keeps
  \<^const>\<open>good\<close>.
\<close>

section \<open>Cancellation, agent arbitration, retry, restore\<close>

lemma cancel_update_frame [simp]:
  "wr_run_id (cancel_update now r) = wr_run_id r"
  "wr_idempotency_key (cancel_update now r) = wr_idempotency_key r"
  "wr_active_key (cancel_update now r) = wr_active_key r"
  "wr_state (cancel_update now r) = CancelRequested"
  by (simp_all add: cancel_update_def)

lemma cancel_update_ok: "run_ok r \<Longrightarrow> is_active (wr_state r) \<Longrightarrow> run_ok (cancel_update now r)"
  by (auto simp: run_ok_def cancel_update_def is_active_iff split: option.splits)

lemma cancel_update_evolves: "legal (wr_state r) CancelRequested \<Longrightarrow> run_evolves r (cancel_update now r)"
  using legal_from_active[of "wr_state r" CancelRequested]
  by (auto simp: run_evolves_def cancel_update_def is_active_iff)

lemma assert_lease_cong:
  "db_leases db' = db_leases db \<Longrightarrow> assert_workflow_lease e rid l db' = assert_workflow_lease e rid l db"
  by (cases "workflow_lease e l") (auto simp: assert_workflow_lease_def split: option.splits)

lemma cas_update_leases: "cas_update k rv q f db = Inr db' \<Longrightarrow> db_leases db' = db_leases db"
  by (auto dest: cas_update_InrD)

lemma active_cases:
  "is_active s \<Longrightarrow> s = Pending \<or> s = Running \<or> s = CancelRequested"
  by (simp add: is_active_def)

text \<open>Requesting cancellation of an active run never fails on a caller's transaction.\<close>

lemma cancel_in_transaction_active:
  assumes inv: "wf_inv db" and cur: "lookup_run db (env_key e rid) = Some cur" "is_active (wr_state cur)"
    and lease: "assert_workflow_lease e rid None db = Inr ()"
  shows "\<exists>new db'. request_cancel_in_transaction e rid reason db = Inr (Some new, db') \<and>
     good e db db' \<and> lookup_run db' (env_key e rid) = Some new \<and> wr_state new = CancelRequested \<and>
     db_leases db' = db_leases db"
proof (cases "wr_state cur = CancelRequested")
  case True
  with cur lease good_refl[OF inv] show ?thesis
    by (simp add: request_cancel_in_transaction_def select_run_lookup)
next
  case False
  with active_cases[OF cur(2)] have leg: "legal (wr_state cur) CancelRequested"
    by (auto simp: legal_def)
  obtain db1 where cas: "cas_update (env_key e rid) (wr_revision cur) (\<lambda>_. True) (cancel_update (en_now e)) db = Inr db1"
    using cas_update_succeeds[OF wf_inv_keys[OF inv] cur(1) refl, of "\<lambda>_. True"] by auto
  have ok: "run_ok (cancel_update (en_now e) cur)"
    using wf_invD(1)[OF inv cur(1)] cur(2) by (rule cancel_update_ok)
  note upd = update_and_event[OF inv cur(1) cas TrueI _ _ _ cancel_update_evolves[OF leg] ok refl, simplified]
  show ?thesis
    using False cur lease leg cas upd(1,2)
    by (simp add: request_cancel_in_transaction_def select_run_lookup Let_def cas_update_leases[OF cas])
qed

lemma cancel_in_transaction_good:
  assumes inv: "wf_inv db" and run: "request_cancel_in_transaction e rid reason db = Inr (res, db')"
  shows "good e db db'"
proof (cases "db' = db")
  case True
  then show ?thesis by (simp add: good_refl[OF inv])
next
  case False
  with run obtain cur where cur: "lookup_run db (env_key e rid) = Some cur"
    and leg: "legal (wr_state cur) CancelRequested"
    and lease: "assert_workflow_lease e rid None db = Inr ()"
    by (auto simp: request_cancel_in_transaction_def bindE_Inr_iff select_run_lookup
        split: if_splits option.splits)
  from cancel_in_transaction_active[OF inv cur legal_from_active[OF leg] lease, of reason] run show ?thesis
    by auto
qed

lemma transition_agent_legal:
  assumes inv: "wf_inv db" and cur: "lookup_run db (env_key e (wr_run_id cur)) = Some cur"
    and leg: "legal (wr_state cur) st" and b: "b1 = (st = Running)" "b2 = is_terminal st"
      "err \<noteq> None \<longrightarrow> is_terminal st"
  shows "\<exists>new db'. transition_agent_run_in_transaction e cur st ty msg pl out err b1 b2 db = Inr (new, db') \<and>
     good e db db' \<and> lookup_run db' (env_key e (wr_run_id cur)) = Some new \<and> wr_state new = st \<and>
     wr_error new = err \<and> wr_run_id new = wr_run_id cur \<and> db_leases db' = db_leases db"
proof -
  let ?f = "state_update (en_now e) st (Some (case out of None \<Rightarrow> wr_output cur | Some d \<Rightarrow> d)) err b1 b2"
  obtain db1 where cas: "cas_update (env_key e (wr_run_id cur)) (wr_revision cur) (\<lambda>_. True) ?f db = Inr db1"
    using cas_update_succeeds[OF wf_inv_keys[OF inv] cur refl, of "\<lambda>_. True"] by auto
  have ok: "run_ok (?f cur)"
    using wf_invD(1)[OF inv cur] leg b by (rule state_update_ok)
  note upd = update_and_event[OF inv cur cas TrueI _ _ _ state_update_evolves[OF leg] ok refl, simplified]
  note sel = good_update(1)[OF inv cur cas TrueI _ _ _ state_update_evolves[OF leg] ok, simplified]
  have "transition_agent_run_in_transaction e cur st ty msg pl out err b1 b2 db =
      Inr (?f cur, snd (append_event e (?f cur) ty (Some msg) pl VisUser db1))"
    using leg cas sel by (simp add: transition_agent_run_in_transaction_def)
  with upd(1,2) show ?thesis
    by (auto simp: cas_update_leases[OF cas]) (simp add: state_update_def)
qed

text \<open>
  Arbitration of an active run: every terminal state the agent may report is reached,
  whatever the run's state was.
\<close>

lemma settle_active:
  assumes inv: "wf_inv db" and cur: "lookup_run db (env_key e rid) = Some cur" "is_active (wr_state cur)"
    and lease: "assert_workflow_lease e rid None db = Inr ()" and st: "is_terminal st"
  shows "\<exists>new db'. settle_agent_terminal_in_transaction e rid st msg out pl db = Inr (Some new, db') \<and>
     good e db db' \<and> lookup_run db' (env_key e rid) = Some new \<and> wr_state new = st"
proof -
  have rid: "wr_run_id cur = rid" using cur(1) by (rule lookup_run_id)
  let ?start = "if st = Succeeded \<and> wr_state cur = Pending
      then transition_agent_run_in_transaction e cur Running ''workflow.started'' msg_started [] None None True False db
      else Inr (cur, db)"
  obtain c1 db1 where s1: "?start = Inr (c1, db1)" "good e db db1" "db_leases db1 = db_leases db"
    "lookup_run db1 (env_key e rid) = Some c1" "is_active (wr_state c1)"
    "st = Succeeded \<longrightarrow> wr_state c1 \<noteq> Pending" "wr_run_id c1 = rid"
  proof (cases "st = Succeeded \<and> wr_state cur = Pending")
    case True
    then have leg: "legal (wr_state cur) Running" by (simp add: legal_def)
    have "lookup_run db (env_key e (wr_run_id cur)) = Some cur" using cur(1) rid by simp
    from transition_agent_legal[OF inv this leg, of True False None "''workflow.started''" msg_started "[]" None] rid True that
    show ?thesis by (auto simp: is_active_def)
  next
    case False
    show ?thesis
      by (rule that[of cur db]) (use False cur rid in \<open>auto intro: good_refl[OF inv]\<close>)
  qed
  from s1(2) have inv1: "wf_inv db1" by (simp add: good_def)
  let ?cancel = "if st \<in> {Cancelled, CancelFailed} \<and> wr_state c1 \<noteq> CancelRequested
      then request_cancel_in_transaction e rid (Some msg_agent_cancelled) db1 else Inr (Some c1, db1)"
  obtain c2 db2 where s2: "?cancel = Inr (Some c2, db2)" "good e db1 db2"
    "lookup_run db2 (env_key e rid) = Some c2" "legal (wr_state c2) st" "wr_run_id c2 = rid"
  proof (cases "st \<in> {Cancelled, CancelFailed} \<and> wr_state c1 \<noteq> CancelRequested")
    case True
    have "assert_workflow_lease e rid None db1 = Inr ()"
      using lease assert_lease_cong[OF s1(3)] by simp
    from cancel_in_transaction_active[OF inv1 s1(4,5) this, of "Some msg_agent_cancelled"]
    obtain new db' where "request_cancel_in_transaction e rid (Some msg_agent_cancelled) db1 = Inr (Some new, db')"
      "good e db1 db'" "lookup_run db' (env_key e rid) = Some new" "wr_state new = CancelRequested"
      by blast
    then show ?thesis
      by (intro that[of new db']) (use True lookup_run_id[of db' e rid new] in \<open>auto simp: legal_def\<close>)
  next
    case False
    with st s1(6) active_cases[OF s1(5)] have "legal (wr_state c1) st"
      by (cases st) (auto simp: legal_def)
    then show ?thesis
      by (intro that[of c1 db1]) (use False s1(4,7) in \<open>auto intro: good_refl[OF inv1]\<close>)
  qed
  from s2(2) have inv2: "wf_inv db2" by (simp add: good_def)
  have look2: "lookup_run db2 (env_key e (wr_run_id c2)) = Some c2" using s2(3,5) by simp
  obtain new db' where s3: "transition_agent_run_in_transaction e c2 st (agent_event_type st)
      (or_str msg (agent_default_message st)) (or_dict pl []) out
      (if st \<in> {Failed, Timeout, CancelFailed} then Some (or_str msg (agent_default_message st)) else None)
      False True db2 = Inr (new, db')"
    "good e db2 db'" "lookup_run db' (env_key e rid) = Some new" "wr_state new = st"
    using transition_agent_legal[OF inv2 look2 s2(4), of False True
        "if st \<in> {Failed, Timeout, CancelFailed} then Some (or_str msg (agent_default_message st)) else None"
        "agent_event_type st" "or_str msg (agent_default_message st)" "or_dict pl []" out]
      st s2(5) by (cases "st = Running") auto
  have "settle_agent_terminal_in_transaction e rid st msg out pl db = Inr (Some new, db')"
    unfolding settle_agent_terminal_in_transaction_def
    using st lease cur s1(1) s2(1) s3(1) by (simp add: select_run_lookup is_active_iff)
  moreover have "good e db db'"
    by (rule good_trans[OF s1(2) good_trans[OF s2(2) s3(2)]])
  ultimately show ?thesis using s3(3,4) by blast
qed

lemma settle_good:
  assumes inv: "wf_inv db"
    and run: "settle_agent_terminal_in_transaction e rid st msg out pl db = Inr (res, db')"
  shows "good e db db'"
proof (cases "\<exists>cur. lookup_run db (env_key e rid) = Some cur \<and> is_active (wr_state cur)")
  case True
  then obtain cur where cur: "lookup_run db (env_key e rid) = Some cur" "is_active (wr_state cur)" by blast
  from run have "is_terminal st" "assert_workflow_lease e rid None db = Inr ()"
    by (auto simp: settle_agent_terminal_in_transaction_def bindE_Inr_iff split: if_splits)
  from settle_active[OF inv cur this(2,1), of msg out pl] run show ?thesis by auto
next
  case False
  then have "db' = db"
    using run by (cases "lookup_run db (env_key e rid)")
      (auto simp: settle_agent_terminal_in_transaction_def bindE_Inr_iff select_run_lookup
        is_active_iff split: if_splits)
  then show ?thesis by (simp add: good_refl[OF inv])
qed

section \<open>Retry and restore\<close>

lemma retry_key_eq: "rc_idempotency_key (retry_body old reason) = Some (retry_key (wr_run_id old) (wr_attempt old + 1))"
  by (simp add: retry_body_def Let_def)

lemma create_keeps_row:
  assumes "wf_inv db" "1 \<le> attempt" "lookup_run db k = Some old"
    "create_run_in_transaction e b rid parent attempt db = Inr ((r, created), db')"
  shows "lookup_run db' k = Some old"
  by (rule create_in_transaction_outcome[OF assms(1,2,4)]) (use assms(3) in auto)

text \<open>A retry that returns: of a missing run, of one already retried, or the first one.\<close>

lemma retry_outcome:
  assumes inv: "wf_inv db" and run: "retry_run e rid reason w db = Inr (res, db')"
  obtains (missing) "lookup_run db (env_key e rid) = None" "res = None" "db' = db"
  | (existing) old child where "lookup_run db (env_key e rid) = Some old" "res = Some child" "db' = db"
      "find_existing e (retry_body old reason) db = Some child"
      "wr_parent_run_id child = Some rid" "is_terminal (wr_state old)" "wr_state old \<noteq> Succeeded"
  | (created) old child db1 db2 where "lookup_run db (env_key e rid) = Some old" "res = Some child"
      "is_terminal (wr_state old)" "wr_state old \<noteq> Succeeded"
      "insert_run e (retry_body old reason) None (Some rid) (wr_attempt old + 1) db = Inr (child, db1)"
      "child = new_run e (retry_body old reason) None (Some rid) (wr_attempt old + 1)"
      "\<exists>b. run_domain_writer (map_option (\<lambda>f. f child) w) db1 = Inr (b, db2)"
      "db' = snd (append_event e old ''workflow.retry_created'' (Some msg_retry_created)
         [(''retry_run_id'', JStr (wr_run_id child)),
          (''reason'', case reason of None \<Rightarrow> JNull | Some r \<Rightarrow> JStr r)] VisDebug db2)"
      "good e db db1" "lookup_run db1 (env_key e rid) = Some old"
      "lookup_run db1 (env_key e (wr_run_id child)) = Some child"
proof (cases "lookup_run db (env_key e rid)")
  case None
  with run show ?thesis by (intro missing) (auto simp: retry_run_def select_run_lookup)
next
  case (Some old)
  have rid: "wr_run_id old = rid" using Some by (rule lookup_run_id)
  let ?b = "retry_body old reason"
  from run Some rid obtain child cr db1 where
    t: "is_terminal (wr_state old)" "wr_state old \<noteq> Succeeded"
    and c: "create_run_in_transaction e ?b None (Some rid) (wr_attempt old + 1) db = Inr ((child, cr), db1)"
    and rest: "if cr then \<exists>b db2. run_domain_writer (map_option (\<lambda>f. f child) w) db1 = Inr (b, db2) \<and>
         res = Some child \<and> db' = snd (append_event e old ''workflow.retry_created'' (Some msg_retry_created)
         [(''retry_run_id'', JStr (wr_run_id child)),
          (''reason'', case reason of None \<Rightarrow> JNull | Some r \<Rightarrow> JStr r)] VisDebug db2)
       else wr_parent_run_id child = Some rid \<and> res = Some child \<and> db' = db1"
    by (auto simp: retry_run_def select_run_lookup bindE_Inr_iff Let_def split: if_splits)
  have att: "1 \<le> wr_attempt old + 1" by simp
  show ?thesis
  proof (cases cr)
    case False
    show ?thesis
      by (rule create_in_transaction_outcome[OF inv att c], rule existing[of old child])
        (use Some rest t False in auto)
  next
    case True
    with rest obtain b db2 where w: "run_domain_writer (map_option (\<lambda>f. f child) w) db1 = Inr (b, db2)"
      and res: "res = Some child" and db': "db' = snd (append_event e old ''workflow.retry_created'' (Some msg_retry_created)
         [(''retry_run_id'', JStr (wr_run_id child)),
          (''reason'', case reason of None \<Rightarrow> JNull | Some r \<Rightarrow> JStr r)] VisDebug db2)"
      by auto
    have old1: "lookup_run db1 (env_key e rid) = Some old" by (rule create_keeps_row[OF inv att Some c])
    show ?thesis
      by (rule create_in_transaction_outcome[OF inv att c], use True in simp,
          rule created[OF Some res t _ _ _ db' _ old1]) (use w in auto)
  qed
qed

lemma retry_good:
  assumes inv: "wf_inv db" and run: "retry_run e rid reason w db = Inr (res, db')"
  shows "good e db db'"
  using assms
proof (cases rule: retry_outcome)
  case (created old child db1 db2)
  then obtain b where w: "run_domain_writer (map_option (\<lambda>f. f child) w) db1 = Inr (b, db2)" by blast
  from created(9) have inv1: "wf_inv db1" by (simp add: good_def)
  note g2 = good_domain_writer[OF inv1 w, of e]
  then have inv2: "wf_inv db2" by (simp add: good_def)
  have "lookup_run db2 (env_key e rid) = Some old" using created(10) lookup_domain_writer[OF w] by simp
  from good_trans[OF created(9) good_trans[OF g2 good_record[OF inv2 this]]] show ?thesis
    unfolding created(8) .
qed (use good_refl[OF inv] in simp_all)

lemma restore_runs_good:
  assumes "wf_inv db" "restore_runs e rs n db = (res, db')"
  shows "good e db db'"
  using assms
proof (induction rs arbitrary: n db)
  case Nil
  then show ?case by (simp add: good_refl)
next
  case (Cons r rs)
  show ?case
  proof (cases "record_event e (wr_run_id r) ''workflow.restored'' (Some msg_restored)
        (Some [(''state'', JStr (state_name (wr_state r)))]) VisDebug None db")
    case (Inl x)
    with Cons.prems show ?thesis by (simp add: good_refl)
  next
    case (Inr p)
    obtain x db1 where p: "p = (x, db1)" by (cases p)
    have g1: "good e db db1" by (rule record_event_good[OF Cons.prems(1) Inr[unfolded p]])
    then have "wf_inv db1" by (simp add: good_def)
    from Cons.IH[OF this] Cons.prems(2) Inr p have "good e db1 db'" by simp
    with g1 show ?thesis by (rule good_trans)
  qed
qed

lemma restore_unfinished_good:
  "wf_inv db \<Longrightarrow> restore_unfinished e db = (res, db') \<Longrightarrow> good e db db'"
  unfolding restore_unfinished_def by (rule restore_runs_good)

section \<open>Histories of the database\<close>

text \<open>
  Every committed operation, on behalf of any principal at any time.  An operation that
  raises commits nothing and is no step.
\<close>

inductive wf_op :: "wf_env \<Rightarrow> 'd wf_db \<Rightarrow> 'd wf_db \<Rightarrow> bool" where
  op_create: "1 \<le> attempt \<Longrightarrow> create_run e b rid parent attempt seen db = (r, db') \<Longrightarrow> wf_op e db db'"
| op_create_tx: "1 \<le> attempt \<Longrightarrow> create_run_in_transaction e b rid parent attempt db = Inr (rc, db') \<Longrightarrow> wf_op e db db'"
| op_create_atomic: "1 \<le> attempt \<Longrightarrow> create_run_atomic e b dw rid parent attempt db = Inr (run, db') \<Longrightarrow> wf_op e db db'"
| op_claim: "claim_run_for_execution e ttl rid' holder db = Inr (cl, db') \<Longrightarrow> wf_op e db db'"
| op_start: "start_run e rid' db = Inr (res, db') \<Longrightarrow> wf_op e db db'"
| op_complete: "complete_run e rid' od msg db = Inr (res, db') \<Longrightarrow> wf_op e db db'"
| op_complete_atomic: "complete_run_atomic e rid' out dw evs txt db = Inr (res, db') \<Longrightarrow> wf_op e db db'"
| op_fail: "fail_run e rid' txt od wo db = Inr (res, db') \<Longrightarrow> wf_op e db db'"
| op_fail_atomic: "fail_run_atomic e rid' txt evs wo od db = Inr (res, db') \<Longrightarrow> wf_op e db db'"
| op_timeout: "timeout_run e rid' txt wo db = Inr (res, db') \<Longrightarrow> wf_op e db db'"
| op_cancel: "request_cancel e rid' msg db = Inr (res, db') \<Longrightarrow> wf_op e db db'"
| op_cancelled: "mark_cancelled e rid' txt wo db = Inr (res, db') \<Longrightarrow> wf_op e db db'"
| op_cancel_failed: "mark_cancel_failed e rid' txt db = Inr (res, db') \<Longrightarrow> wf_op e db db'"
| op_progress: "commit_run_progress_atomic e rid' out dw evs ty txt lease db = Inr (res, db') \<Longrightarrow> wf_op e db db'"
| op_inline: "complete_new_run_atomic e b out dw evs txt db = Inr (run, db') \<Longrightarrow> wf_op e db db'"
| op_merge: "merge_output e rid' out ty msg lease strat db = Inr (res, db') \<Longrightarrow> wf_op e db db'"
| op_record: "record_event e rid' ty msg od vis lease db = Inr (ev, db') \<Longrightarrow> wf_op e db db'"
| op_delivery: "record_agent_delivery_once_in_transaction e tx rid' key ty msg out vis db = Inr (dl, db') \<Longrightarrow> wf_op e db db'"
| op_merge_agent: "merge_agent_output_once_in_transaction e tx rid' key out ty txt db = Inr (dl, db') \<Longrightarrow> wf_op e db db'"
| op_project: "project_active_run e rid' pw lease db = Inr (res, db') \<Longrightarrow> wf_op e db db'"
| op_cancel_tx: "request_cancel_in_transaction e rid' msg db = Inr (res, db') \<Longrightarrow> wf_op e db db'"
| op_settle: "settle_agent_terminal_in_transaction e rid' st msg od od' db = Inr (res, db') \<Longrightarrow> wf_op e db db'"
| op_retry: "retry_run e rid' msg pwo db = Inr (res, db') \<Longrightarrow> wf_op e db db'"
| op_restore: "restore_unfinished e db = (cnt, db') \<Longrightarrow> wf_op e db db'"

definition wf_step :: "'d wf_db \<Rightarrow> 'd wf_db \<Rightarrow> bool" where
  "wf_step db db' \<longleftrightarrow> (\<exists>e. wf_op e db db')"

lemmas good_ops = create_run_good create_in_transaction_good create_run_atomic_good claim_run_good
  state_changes_good commit_run_progress_good complete_new_run_good merge_output_good
  record_event_good record_delivery_good merge_agent_output_good project_active_run_good
  cancel_in_transaction_good settle_good retry_good restore_unfinished_good

lemma wf_op_good:
  assumes "wf_op e db db'" "wf_inv db"
  shows "good e db db'"
  using assms by (cases rule: wf_op.cases) (blast intro: good_ops)+

lemma wf_step_good: "wf_step db db' \<Longrightarrow> wf_inv db \<Longrightarrow> \<exists>e. good e db db'"
  unfolding wf_step_def by (blast dest: wf_op_good)

definition empty_db :: "'d wf_db \<Rightarrow> bool" where
  "empty_db db = (db_runs db = [] \<and> db_events db = [] \<and> db_outbox db = [])"

definition db_inv :: "'d wf_db \<Rightarrow> bool" where
  "db_inv db = (wf_inv db \<and> outbox_ok db)"

text \<open>What is final of a terminal run.\<close>

type_synonym final_view = "wstate \<times> string option \<times> rat option \<times> rat option"

definition final_view :: "wf_run \<Rightarrow> final_view" where
  "final_view r = (wr_state r, wr_error r, wr_finished_at r, wr_started_at r)"

definition run_view :: "'d wf_db \<Rightarrow> pk \<Rightarrow> final_view option" where
  "run_view db k = map_option final_view (lookup_run db k)"

definition final_state :: "final_view \<Rightarrow> bool" where
  "final_state v = is_terminal (fst v)"

lemma db_inv_empty: "empty_db db \<Longrightarrow> db_inv db"
  by (simp add: empty_db_def db_inv_def wf_inv_def unique_on_def outbox_ok_def event_msgs_def
      durable_events_def lookup_run_def)

lemma db_inv_step: "db_inv db \<Longrightarrow> wf_step db db' \<Longrightarrow> db_inv db'"
  unfolding db_inv_def by (auto dest!: wf_step_good simp: good_def evolves_def)

lemma run_view_final:
  assumes "good e db db'" "run_view db k = Some v" "final_state v"
  shows "run_view db' k = Some v"
proof -
  from assms(2) obtain r where r: "lookup_run db k = Some r" "v = final_view r"
    by (auto simp: run_view_def)
  from assms(1) have "evolves e db db'" by (simp add: good_def)
  from evolves_lookup[OF this r(1)] obtain r' where "lookup_run db' k = Some r'" "run_evolves r r'"
    by blast
  with assms(3) r show ?thesis
    by (simp add: run_view_def final_view_def final_state_def run_evolves_def)
qed

interpretation runs: absorbing_system empty_db wf_step db_inv run_view final_state
proof
  show "db_inv s" if "empty_db s" for s :: "'d wf_db" using that by (rule db_inv_empty)
  show "db_inv t" if "db_inv s" "wf_step s t" for s t :: "'d wf_db" using that by (rule db_inv_step)
  show "run_view t k = Some v" if "db_inv s" "wf_step s t" "run_view s k = Some v" "final_state v"
    for s t :: "'d wf_db" and k v
    using wf_step_good[OF that(2)] run_view_final that(1,3,4) unfolding db_inv_def by blast
qed

definition reachable :: "'d wf_db \<Rightarrow> bool" where
  "reachable db \<longleftrightarrow> (\<exists>db0. empty_db db0 \<and> wf_step\<^sup>*\<^sup>* db0 db)"

lemma reachable_db_inv: "reachable db \<Longrightarrow> db_inv db"
  unfolding reachable_def by (blast intro: runs.reachable_inv)

lemma reachable_wf: "reachable db \<Longrightarrow> wf_inv db"
  by (simp add: reachable_db_inv[unfolded db_inv_def])

lemma reachable_star: "reachable db \<Longrightarrow> wf_step\<^sup>*\<^sup>* db db' \<Longrightarrow> reachable db'"
  unfolding reachable_def by (blast intro: rtranclp_trans)

lemma op_star: "wf_op e db db' \<Longrightarrow> wf_step\<^sup>*\<^sup>* db db'"
  by (rule r_into_rtranclp) (auto simp: wf_step_def)

lemma reachable_op: "reachable db \<Longrightarrow> wf_op e db db' \<Longrightarrow> reachable db'"
  by (blast intro: reachable_star op_star)

text \<open>Whatever happens later, a run keeps its identity and only evolves.\<close>

definition run_later :: "'d wf_db \<Rightarrow> 'd wf_db \<Rightarrow> bool" where
  "run_later db db' \<longleftrightarrow> (\<forall>k r. lookup_run db k = Some r \<longrightarrow>
      (\<exists>r'. lookup_run db' k = Some r' \<and> run_evolves r r')) \<and> prefix (db_events db) (db_events db')"

lemma run_later_trans: "run_later a b \<Longrightarrow> run_later b c \<Longrightarrow> run_later a c"
  unfolding run_later_def by (blast intro: run_evolves_trans prefix_order.trans)

lemma run_later_star: "reachable db \<Longrightarrow> wf_step\<^sup>*\<^sup>* db db' \<Longrightarrow> run_later db db'"
proof (rule runs.star_relation[where R = run_later])
  show "run_later x x" for x :: "'d wf_db" by (auto simp: run_later_def)
  show "run_later x z" if "run_later x y" "run_later y z" for x y z :: "'d wf_db"
    using that by (rule run_later_trans)
  show "run_later x y" if "db_inv x" "wf_step x y" for x y :: "'d wf_db"
    using wf_step_good[OF that(2)] that(1) unfolding db_inv_def good_def run_later_def evolves_def by blast
qed (auto dest: reachable_db_inv)

lemma run_later_lookup:
  "run_later db db' \<Longrightarrow> lookup_run db k = Some r \<Longrightarrow> \<exists>r'. lookup_run db' k = Some r' \<and> run_evolves r r'"
  unfolding run_later_def by blast

lemma delivered_later: "run_later db db' \<Longrightarrow> delivered k key db \<Longrightarrow> delivered k key db'"
  unfolding run_later_def delivered_def events_of_def by (auto elim!: prefixE)

end
