(* ===== verification/WorkflowProps.thy ===== *)
theory WorkflowProps
  imports WorkflowArbitration "HOL-Library.Multiset"
begin

text \<open>
  The properties of the workflow kernel over every reachable database: finality of the
  first terminal state, the event log, the unique keys, the transactional outbox, scope
  isolation, idempotent creation under a race, retry lineage, exactly-once agent
  deliveries, agent arbitration, fencing by leases, claims and the start-up restore.
\<close>

section \<open>Unique keys and lookups\<close>

lemma singleton_eq: "x \<in> A \<Longrightarrow> (\<And>y. y \<in> A \<Longrightarrow> x = y) \<Longrightarrow> A = {x}"
  by blast

lemma unique_onD:
  assumes "unique_on f rows" "p \<in> set rows" "q \<in> set rows" "f p = Some k" "f q = Some k"
  shows "p = q"
  using assms
proof (induction rows)
  case (Cons r rows)
  have keys: "k \<in> set (List.map_filter f xs) \<longleftrightarrow> (\<exists>q \<in> set xs. f q = Some k)" for xs
    by (induction xs) (auto simp: List.map_filter_def split: option.splits)
  from Cons.prems(1) have tl: "unique_on f rows" and hd: "\<And>k. f r = Some k \<Longrightarrow> k \<notin> set (List.map_filter f rows)"
    by (auto simp: unique_on_def split: option.splits)
  show ?case
  proof (cases "p = r \<or> q = r")
    case True
    with Cons.prems(4,5) have "f r = Some k" by auto
    from hd[OF this] have "\<forall>x \<in> set rows. f x \<noteq> Some k" by (auto simp: keys)
    with Cons.prems(2-5) True show ?thesis by auto
  next
    case False
    with Cons.prems tl show ?thesis by (intro Cons.IH) auto
  qed
qed simp

lemma lookup_row:
  assumes "lookup_run db (env_key e rid) = Some r"
  obtains row where "row \<in> set (db_runs db)" "in_scope e row" "rr_run row = r"
    "run_key row = env_key e rid"
  using assms by (elim lookup_run_SomeD) (auto simp: run_key_def env_key_def in_scope_def)

lemma row_lookup:
  assumes "wf_inv db" "row \<in> set (db_runs db)" "in_scope e row"
  shows "lookup_run db (env_key e (wr_run_id (rr_run row))) = Some (rr_run row)"
  using lookup_run_unique[OF wf_inv_keys[OF assms(1)] assms(2)] assms(3)
  by (simp add: run_key_def env_key_def in_scope_def)

text \<open>The run of an idempotency key is found, whatever else the table holds.\<close>

lemma find_by_idempotency_unique:
  assumes inv: "wf_inv db" and r: "lookup_run db (env_key e rid) = Some r"
    and key: "wr_idempotency_key r = Some key"
  shows "find_by_idempotency e key db = Some r"
proof -
  from r obtain row where row: "row \<in> set (db_runs db)" "in_scope e row" "rr_run row = r"
    by (rule lookup_row)
  let ?p = "\<lambda>x. in_scope e x \<and> wr_idempotency_key (rr_run x) = Some key"
  obtain x where x: "order_first (\<lambda>x. wr_created_at (rr_run x)) ?p (db_runs db) = Some x"
    using row key order_first_None_iff[of "\<lambda>x. wr_created_at (rr_run x)" ?p "db_runs db"]
    by (cases "order_first (\<lambda>x. wr_created_at (rr_run x)) ?p (db_runs db)") auto
  from order_first_SomeD[OF x] have px: "x \<in> set (db_runs db)" "?p x" by auto
  have "idem_key x = Some (en_tenant e, en_owner e, key)" "idem_key row = Some (en_tenant e, en_owner e, key)"
    using px(2) row key by (simp_all add: idem_key_def in_scope_def)
  with inv px(1) row(1) have "x = row" unfolding wf_inv_def by (blast dest: unique_onD)
  with x row(3) show ?thesis by (simp add: find_by_idempotency_def)
qed

lemma find_existing_idempotent:
  assumes "wf_inv db" "lookup_run db (env_key e rid) = Some r"
    "wr_idempotency_key r = Some key" "rc_idempotency_key b = Some key" "key \<noteq> []"
  shows "find_existing e b db = Some r"
  using find_by_idempotency_unique[OF assms(1-3)] assms(4,5)
  by (simp add: find_existing_def truthy_str_def)

lemma find_existing_key:
  assumes "find_existing e b db = Some r" "\<not> truthy_str (rc_active_key b)"
  shows "wr_idempotency_key r = rc_idempotency_key b"
  using assms
  by (auto simp: find_existing_def find_by_idempotency_def truthy_str_def
      split: option.splits if_splits dest!: order_first_SomeD)

lemma insert_run_blocked:
  assumes "lookup_run db (env_key e rid) = Some r" "wr_idempotency_key r = rc_idempotency_key b"
    "rc_idempotency_key b \<noteq> None"
  shows "insert_run e b rid' parent attempt db = Inl IntegrityError"
proof -
  from assms(1) obtain row where "row \<in> set (db_runs db)" "in_scope e row" "rr_run row = r"
    by (rule lookup_row)
  with assms(2,3) show ?thesis
    by (auto simp: insert_run_def Let_def insert_allowed_def idem_key_def in_scope_def new_run_def)
qed

section \<open>Demonstration state\<close>

definition demo_env :: wf_env where
  "demo_env = \<lparr>en_tenant = ''t'', en_device = ''d'', en_owner = ''o'', en_now = 10,
     en_clock = Fin 10, en_lease = None, en_uuid = ''1''\<rparr>"

definition demo_body :: run_create where
  "demo_body = \<lparr>rc_kind = ''minutes'', rc_source = ''api'', rc_title = None,
     rc_intent_text = ''x'', rc_meeting_id = None, rc_todo_id = None, rc_agent_task_id = None,
     rc_input = [], rc_timeout_s = None, rc_idempotency_key = Some ''k'', rc_active_key = None\<rparr>"

definition demo_empty :: "unit wf_db" where
  "demo_empty = \<lparr>db_runs = [], db_events = [], db_outbox = [], db_outbox_seq = 0,
     db_leases = Map.empty, db_meetings = [], db_domain = ()\<rparr>"

text \<open>One created run, and the same run failed.\<close>

definition demo_created :: "unit wf_db" where
  "demo_created = snd (create_run demo_env demo_body None None 1 demo_empty demo_empty)"

definition demo_run :: wf_run where
  "demo_run = new_run demo_env demo_body None None 1"

definition demo_failed_run :: wf_run where
  "demo_failed_run = state_update 10 Failed None (Some ''boom'') False True demo_run"

definition demo_failed :: "unit wf_db" where
  "demo_failed = snd (projr (fail_run demo_env ''run_1'' ''boom'' None None demo_created))"

lemma demo_lookup:
  "lookup_run demo_created (env_key demo_env ''run_1'') = Some demo_run"
  "lookup_run demo_failed (env_key demo_env ''run_1'') = Some demo_failed_run"
  by code_simp+

lemma demo_fail: "fail_run demo_env ''run_1'' ''boom'' None None demo_created = Inr (Some demo_failed_run, demo_failed)"
  unfolding demo_failed_def by (rule Inr_projr) code_simp

text \<open>A retry of the failed run.\<close>

definition demo_retried :: "unit wf_db" where
  "demo_retried = snd (projr (retry_run (demo_env\<lparr>en_uuid := ''2''\<rparr>) ''run_1'' None None demo_failed))"

definition demo_child :: wf_run where
  "demo_child = new_run (demo_env\<lparr>en_uuid := ''2''\<rparr>) (retry_body demo_failed_run None) None (Some ''run_1'') 2"

lemma demo_retry:
  "retry_run (demo_env\<lparr>en_uuid := ''2''\<rparr>) ''run_1'' None None demo_failed = Inr (Some demo_child, demo_retried)"
  unfolding demo_retried_def by (rule Inr_projr) code_simp

lemma demo_reachable: "reachable demo_empty" "reachable demo_created" "reachable demo_failed"
proof -
  show "reachable demo_empty"
    unfolding reachable_def by (rule exI[of _ demo_empty]) (simp add: empty_db_def demo_empty_def)
  then show "reachable demo_created"
    by (rule reachable_op) (rule op_create[where e = demo_env and attempt = 1 and b = demo_body
        and rid = None and parent = None and seen = demo_empty and
        r = "fst (create_run demo_env demo_body None None 1 demo_empty demo_empty)"],
        simp_all add: demo_created_def)
  then show "reachable demo_failed"
    by (rule reachable_op) (rule op_fail[OF demo_fail])
qed

section \<open>Properties\<close>

text \<open>
  C3.  The first terminal state wins: once a run has reached a terminal state, no later
  operation of any principal, in any order, changes its state, its error, its start or its
  end time.
\<close>

theorem first_terminal_state_wins:
  assumes "reachable db" "wf_step\<^sup>*\<^sup>* db db'" "lookup_run db k = Some r" "is_terminal (wr_state r)"
  shows "\<exists>r'. lookup_run db' k = Some r' \<and> wr_state r' = wr_state r \<and> wr_error r' = wr_error r \<and>
    wr_finished_at r' = wr_finished_at r \<and> wr_started_at r' = wr_started_at r"
proof -
  have "run_view db k = Some (final_view r)" using assms(3) by (simp add: run_view_def)
  with assms have "run_view db' k = Some (final_view r)"
    by (intro runs.final_star[OF assms(2)]) (auto simp: reachable_db_inv final_state_def final_view_def)
  then show ?thesis by (auto simp: run_view_def final_view_def)
qed

theorem first_terminal_state_wins_witness:
  "\<exists>r'. lookup_run demo_failed (env_key demo_env ''run_1'') = Some r' \<and> wr_state r' = wr_state demo_failed_run \<and>
    wr_error r' = wr_error demo_failed_run \<and> wr_finished_at r' = wr_finished_at demo_failed_run \<and>
    wr_started_at r' = wr_started_at demo_failed_run"
  by (rule first_terminal_state_wins[OF demo_reachable(3) rtranclp.rtrancl_refl demo_lookup(2)])
    (simp add: demo_failed_run_def)

text \<open>
  C4.  The event log tells the truth: in every reachable database the events of a run are
  numbered 1, 2, 3, ... without a gap, the last one carries the run's present state, and
  the run has an end time exactly when that state is terminal.
\<close>

theorem event_log_complete:
  assumes "reachable db" "lookup_run db k = Some r"
  shows "map we_seq (events_of k db) = [1..<Suc (length (events_of k db))] \<and> events_of k db \<noteq> [] \<and>
    we_state (last (events_of k db)) = wr_state r \<and>
    (wr_finished_at r \<noteq> None \<longleftrightarrow> is_terminal (wr_state r))"
  using wf_invD[OF reachable_wf[OF assms(1)] assms(2)] by (simp add: run_ok_def log_ok_def)

theorem event_log_complete_witness:
  "map we_seq (events_of (env_key demo_env ''run_1'') demo_failed) = [1, 2] \<and>
    we_state (last (events_of (env_key demo_env ''run_1'') demo_failed)) = Failed"
proof -
  have "length (events_of (env_key demo_env ''run_1'') demo_failed) = 2" by code_simp
  with event_log_complete[OF demo_reachable(3) demo_lookup(2)] show ?thesis
    by (simp add: upt_rec demo_failed_run_def)
qed

text \<open>
  The unique indexes hold of every reachable database: within one tenant and owner
  two rows with the same idempotency key, or two active rows with the same active key,
  are the same row.
\<close>

theorem run_keys_unique:
  assumes "reachable db" "p \<in> set (db_runs db)" "q \<in> set (db_runs db)" "in_scope e p" "in_scope e q"
    and "wr_idempotency_key (rr_run p) = Some k \<and> wr_idempotency_key (rr_run q) = Some k \<or>
      wr_active_key (rr_run p) = Some k \<and> wr_active_key (rr_run q) = Some k \<and>
      is_active (wr_state (rr_run p)) \<and> is_active (wr_state (rr_run q))"
  shows "p = q"
proof -
  have u: "unique_on idem_key (db_runs db)" "unique_on live_key (db_runs db)"
    using reachable_wf[OF assms(1)] by (simp_all add: wf_inv_def)
  from assms(6) show ?thesis
  proof
    assume "wr_idempotency_key (rr_run p) = Some k \<and> wr_idempotency_key (rr_run q) = Some k"
    with assms(4,5) show ?thesis
      by (intro unique_onD[OF u(1) assms(2,3)]) (auto simp: idem_key_def in_scope_def)
  next
    assume "wr_active_key (rr_run p) = Some k \<and> wr_active_key (rr_run q) = Some k \<and>
      is_active (wr_state (rr_run p)) \<and> is_active (wr_state (rr_run q))"
    with assms(4,5) show ?thesis
      by (intro unique_onD[OF u(2) assms(2,3)]) (auto simp: live_key_def in_scope_def)
  qed
qed

theorem run_keys_unique_witness:
  "set (db_runs demo_failed) = {hd (db_runs demo_failed)}"
proof -
  let ?p = "hd (db_runs demo_failed)"
  have facts: "db_runs demo_failed \<noteq> [] \<and> (\<forall>q \<in> set (db_runs demo_failed).
      in_scope demo_env q \<and> wr_idempotency_key (rr_run q) = Some ''k'')"
    by code_simp
  have "?p \<in> set (db_runs demo_failed)" using facts by (intro hd_in_set) blast
  moreover have "?p = q" if "q \<in> set (db_runs demo_failed)" for q
    by (rule run_keys_unique[OF demo_reachable(3), of _ _ demo_env "''k''"])
      (use facts that calculation in \<open>blast+\<close>)
  ultimately show ?thesis by (rule singleton_eq)
qed



text \<open>
  C7.  Scope isolation: whatever one principal's operation does, the runs and the event
  logs of every other tenant or owner are untouched.
\<close>

theorem other_scopes_untouched:
  assumes "reachable db" "wf_op e db db'" "(en_tenant e, en_owner e) \<noteq> (ten, own)"
  shows "lookup_run db' (ten, own, rid) = lookup_run db (ten, own, rid) \<and>
    events_of (ten, own, rid) db' = events_of (ten, own, rid) db"
proof -
  have "evolves e db db'" using wf_op_good[OF assms(2) reachable_wf[OF assms(1)]] by (simp add: good_def)
  then show ?thesis by (rule evolves_other) (use assms(3) in \<open>auto simp: key_in_scope_def\<close>)
qed

theorem other_scopes_untouched_witness:
  "events_of (''t'', ''p'', ''run_1'') demo_failed = events_of (''t'', ''p'', ''run_1'') demo_created \<and>
   wf_op demo_env demo_created demo_failed"
  using other_scopes_untouched[OF demo_reachable(2) op_fail[OF demo_fail], of "''t''" "''p''" "''run_1''"]
    op_fail[OF demo_fail]
  by (simp add: demo_env_def)

text \<open>
  The transition table decides: on a reachable database, under a valid (or no) lease,
  a state change either returns the run unchanged (same state), raises
  \<open>InvalidWorkflowTransition\<close> (not in the table), or moves the run, appends exactly
  one event of the requested type and returns the updated run; the compare-and-set never
  reports a conflict.
\<close>

theorem set_state_decided:
  assumes "reachable db" "assert_workflow_lease e rid (sc_lease c) db = Inr ()"
    and "lookup_run db (env_key e rid) = Some cur" "change_ok st c" "sc_domain_writer c = None"
  shows "if st = wr_state cur then set_state e rid st c db = Inr (Some cur, db)
    else if st \<notin> set (legal_transitions (wr_state cur))
    then set_state e rid st c db = Inl (InvalidWorkflowTransition (state_name (wr_state cur)) (state_name st))
    else \<exists>new db' ev. set_state e rid st c db = Inr (Some new, db') \<and>
      lookup_run db' (env_key e rid) = Some new \<and> wr_state new = st \<and>
      wr_revision new = wr_revision cur + 1 \<and>
      events_of (env_key e rid) db' = events_of (env_key e rid) db @ [ev] \<and>
      we_type ev = sc_event_type c \<and> we_state ev = st"
proof -
  have inv: "wf_inv db" using assms(1) by (rule reachable_wf)
  let ?f = "state_update (en_now e) st (sc_output c) (sc_error c) (sc_started c) (sc_finished c)"
  obtain db1 where cas: "cas_update (env_key e rid) (wr_revision cur) (\<lambda>_. True) ?f db = Inr db1"
    using cas_update_succeeds[OF wf_inv_keys[OF inv] assms(3) refl, of "\<lambda>_. True"] by auto
  have "\<exists>new db' ev. set_state e rid st c db = Inr (Some new, db') \<and>
      lookup_run db' (env_key e rid) = Some new \<and> wr_state new = st \<and>
      wr_revision new = wr_revision cur + 1 \<and>
      events_of (env_key e rid) db' = events_of (env_key e rid) db @ [ev] \<and>
      we_type ev = sc_event_type c \<and> we_state ev = st"
    if leg: "legal (wr_state cur) st"
  proof -
    have ok: "run_ok (?f cur)"
      using wf_invD(1)[OF inv assms(3)] leg assms(4) by (intro state_update_ok) (auto simp: change_ok_def)
    have "lookup_run db1 (env_key e rid) = Some (?f cur)"
      using good_update(1)[OF inv assms(3) cas TrueI _ _ _ state_update_evolves[OF leg] ok]
      by (simp add: select_run_lookup)
    moreover have "st \<noteq> wr_state cur" using leg legal_irrefl by auto
    ultimately obtain res db' where run: "set_state e rid st c db = Inr (res, db')"
      using assms(2,3,5) leg cas by (simp add: set_state_def select_run_lookup run_domain_writer_def Let_def)
    from inv assms(4) run show ?thesis
      by (cases rule: set_state_outcome) (use run \<open>st \<noteq> wr_state cur\<close> assms(3) in auto)
  qed
  moreover have "set_state e rid st c db = Inr (Some cur, db)" if "st = wr_state cur"
    using that assms(2,3) by (simp add: set_state_def select_run_lookup)
  moreover have "set_state e rid st c db = Inl (InvalidWorkflowTransition (state_name (wr_state cur)) (state_name st))"
    if "st \<noteq> wr_state cur" "\<not> legal (wr_state cur) st"
    using that assms(2,3) by (simp add: set_state_def select_run_lookup)
  ultimately show ?thesis unfolding legal_def by presburger
qed

theorem set_state_decided_witness:
  "start_run demo_env ''run_1'' demo_failed = Inl (InvalidWorkflowTransition ''failed'' ''running'') \<and>
   (\<exists>new db'. start_run demo_env ''run_1'' demo_created = Inr (Some new, db') \<and> wr_state new = Running)"
proof -
  have lease: "assert_workflow_lease demo_env ''run_1'' None db = Inr ()" for db :: "unit wf_db"
    by (simp add: assert_workflow_lease_def workflow_lease_def demo_env_def)
  note start = set_state_decided[where rid = "''run_1''" and e = demo_env and st = Running and
      c = "\<lparr>sc_event_type = ''workflow.started'', sc_message = Some msg_started, sc_payload = [],
      sc_output = None, sc_error = None, sc_started = True, sc_finished = False,
      sc_domain_writer = None, sc_domain_events = [], sc_lease = None\<rparr>"]
  show ?thesis
    using start[OF demo_reachable(3) _ demo_lookup(2)] start[OF demo_reachable(2) _ demo_lookup(1)]
    by (auto simp: lease start_run_def change_ok_def demo_failed_run_def demo_run_def new_run_def state_name_def)
qed

text \<open>
  Idempotent creation survives the race: \<open>create_run\<close> looks for a run of the key
  in a database read before its insert; if by the time of the insert some run of the scope
  has the key, the call returns that run and writes nothing, whatever happened in between.
\<close>

theorem create_run_idempotent:
  assumes "reachable seen" "wf_step\<^sup>*\<^sup>* seen db"
    and "rc_idempotency_key b = Some key" "key \<noteq> []" "\<not> truthy_str (rc_active_key b)"
    and "lookup_run db (env_key e rid) = Some winner" "wr_idempotency_key winner = Some key"
  shows "create_run e b rid' parent attempt seen db = (Inr winner, db)"
proof (cases "find_existing e b seen")
  case None
  have "wf_inv db" using reachable_star[OF assms(1,2)] by (rule reachable_wf)
  then have "find_existing e b db = Some winner"
    by (rule find_existing_idempotent[OF _ assms(6,7,3,4)])
  moreover have "insert_run e b rid' parent attempt db = Inl IntegrityError"
    using assms(3,7) by (intro insert_run_blocked[OF assms(6)]) simp_all
  ultimately show ?thesis using None by (simp add: create_run_def)
next
  case (Some r)
  have inv: "wf_inv db" using reachable_star[OF assms(1,2)] by (rule reachable_wf)
  have "lookup_run seen (env_key e (wr_run_id r)) = Some r"
    by (rule find_existing_lookup[OF Some reachable_wf[OF assms(1)]])
  from run_later_lookup[OF run_later_star[OF assms(1,2)] this]
  obtain r' where r': "lookup_run db (env_key e (wr_run_id r)) = Some r'" "run_evolves r r'" by blast
  have "wr_idempotency_key r' = Some key"
    using r'(2) find_existing_key[OF Some assms(5)] assms(3) by (simp add: run_evolves_def)
  from find_by_idempotency_unique[OF inv r'(1) this] find_by_idempotency_unique[OF inv assms(6,7)]
  have "r' = winner" by simp
  with Some r'(1) show ?thesis by (simp add: create_run_def)
qed

theorem create_run_idempotent_witness:
  "fst (create_run demo_env demo_body None None 1 demo_empty demo_created) = Inr demo_run"
proof -
  have "wf_step\<^sup>*\<^sup>* demo_empty demo_created"
    by (rule op_star) (rule op_create[where e = demo_env and attempt = 1 and b = demo_body
        and rid = None and parent = None and seen = demo_empty and
        r = "fst (create_run demo_env demo_body None None 1 demo_empty demo_empty)"],
        simp_all add: demo_created_def)
  from create_run_idempotent[OF demo_reachable(1) this _ _ _ demo_lookup(1)]
  show ?thesis by (simp add: demo_body_def demo_run_def new_run_def truthy_str_def)
qed

lemma retry_returned:
  assumes "retry_run e rid reason w db = Inr (Some child, db')" "lookup_run db (env_key e rid) = Some old"
  shows "is_terminal (wr_state old)" "wr_state old \<noteq> Succeeded" "run_create_ok (retry_body old reason)"
  using assms by (auto simp: retry_run_def select_run_lookup bindE_Inr_iff Let_def split: if_splits)

lemma retry_body_ok:
  "wr_run_id old' = wr_run_id old \<Longrightarrow> wr_attempt old' = wr_attempt old \<Longrightarrow>
   wr_active_key old' = wr_active_key old \<Longrightarrow> run_create_ok (retry_body old' reason') = run_create_ok (retry_body old reason)"
  by (simp add: run_create_ok_def retry_body_def Let_def)

text \<open>
  Retrying twice yields one child: once a retry of a run has created a child, every
  later retry of that run by the same tenant and owner, with any reason and any domain
  writer and after any further operations, succeeds, returns that child and writes nothing.
\<close>

theorem retry_is_idempotent:
  assumes "reachable db" "retry_run e rid reason w db = Inr (Some child, db1)"
    and "lookup_run db (env_key e (wr_run_id child)) = None" "wf_step\<^sup>*\<^sup>* db1 db2"
    and "en_tenant e' = en_tenant e" "en_owner e' = en_owner e"
  shows "\<exists>c. retry_run e' rid reason' w' db2 = Inr (Some c, db2) \<and> wr_run_id c = wr_run_id child \<and>
    lookup_run db2 (env_key e (wr_run_id child)) = Some c \<and> wr_parent_run_id c = Some rid"
proof -
  have env: "env_key e' x = env_key e x" for x using assms(5,6) by (simp add: env_key_def)
  have inv: "wf_inv db" using assms(1) by (rule reachable_wf)
  obtain old where old: "lookup_run db (env_key e rid) = Some old" "lookup_run db1 (env_key e rid) = Some old"
    and child: "lookup_run db1 (env_key e (wr_run_id child)) = Some child"
      "wr_idempotency_key child = Some (retry_key rid (wr_attempt old + 1))" "wr_parent_run_id child = Some rid"
    using inv assms(2)
  proof (cases rule: retry_outcome)
    case (existing old c)
    with find_existing_lookup[OF existing(4) inv] assms(3) show ?thesis by simp
  next
    case (created old c d1 d2)
    then obtain b where w: "run_domain_writer (map_option (\<lambda>f. f c) w) d1 = Inr (b, d2)" by blast
    have rid: "wr_run_id old = rid" using created(1) by (rule lookup_run_id)
    have look: "lookup_run db1 k = lookup_run d1 k" for k
      unfolding created(8) lookup_domain_writer[OF w, symmetric] by (rule lookup_run_cong) simp
    show ?thesis
      by (rule that[of old]) (use created(1,2,6,10,11) look rid in \<open>simp_all add: new_run_def retry_key_eq\<close>)
  qed simp_all
  have r1: "reachable db1" using reachable_op[OF assms(1) op_retry[OF assms(2)]] .
  note later = run_later_star[OF r1 assms(4)]
  have inv2: "wf_inv db2" using reachable_star[OF r1 assms(4)] by (rule reachable_wf)
  obtain old2 where old2: "lookup_run db2 (env_key e rid) = Some old2" "run_evolves old old2"
    using run_later_lookup[OF later old(2)] by blast
  obtain c where c: "lookup_run db2 (env_key e (wr_run_id child)) = Some c" "run_evolves child c"
    using run_later_lookup[OF later child(1)] by blast
  have rid: "wr_run_id old = rid" using old(1) by (rule lookup_run_id)
  note first = retry_returned[OF assms(2) old(1)]
  have same: "wr_run_id old2 = rid" "wr_attempt old2 = wr_attempt old" "wr_active_key old2 = wr_active_key old"
    "wr_state old2 = wr_state old"
    using old2(2) first(1) rid by (simp_all add: run_evolves_def)
  have ok: "run_create_ok (retry_body old2 reason')"
    using retry_body_ok[of old2 old reason' reason] same rid first(3) by simp
  have "find_existing e' (retry_body old2 reason') db2 = Some c"
  proof (rule find_existing_idempotent[OF inv2])
    show "lookup_run db2 (env_key e' (wr_run_id child)) = Some c" using c(1) by (simp add: env)
    show "wr_idempotency_key c = Some (retry_key rid (wr_attempt old + 1))"
      using c(2) child(2) by (simp add: run_evolves_def)
    show "rc_idempotency_key (retry_body old2 reason') = Some (retry_key rid (wr_attempt old + 1))"
      using same by (simp add: retry_key_eq)
  qed (simp add: retry_key_def)
  then have "retry_run e' rid reason' w' db2 = Inr (Some c, db2)"
    using old2(1) first(1,2) same ok c(2) child(3)
    by (simp add: retry_run_def select_run_lookup env create_run_in_transaction_def run_evolves_def Let_def guardE_def)
  with c child show ?thesis by (auto simp: run_evolves_def)
qed

theorem retry_is_idempotent_witness:
  "\<exists>c. retry_run (demo_env\<lparr>en_uuid := ''3''\<rparr>) ''run_1'' (Some ''again'') None demo_retried = Inr (Some c, demo_retried) \<and>
    wr_run_id c = ''run_2'' \<and> wr_parent_run_id c = Some ''run_1''"
proof -
  have id: "wr_run_id demo_child = ''run_2''" by code_simp
  have "lookup_run demo_failed (env_key (demo_env\<lparr>en_uuid := ''2''\<rparr>) ''run_2'') = None" by code_simp
  with retry_is_idempotent[OF demo_reachable(3) demo_retry, of demo_retried "demo_env\<lparr>en_uuid := ''3''\<rparr>"
      "Some ''again''" None] show ?thesis
    by (auto simp: id)
qed

text \<open>
  What a first retry creates: a pending run of the same kind and input plus
  \<open>retry_of\<close>, whose parent is the retried run and whose attempt is one more; the
  retried run keeps its row, and its log records the retry.
\<close>

theorem retry_creates_next_attempt:
  assumes "reachable db" "retry_run e rid reason w db = Inr (Some child, db')"
    and "lookup_run db (env_key e rid) = Some old" "lookup_run db (env_key e (wr_run_id child)) = None"
  shows "wr_state child = Pending \<and> wr_parent_run_id child = Some rid \<and> wr_attempt child = wr_attempt old + 1 \<and>
    wr_kind child = wr_kind old \<and> map_of (wr_input child) ''retry_of'' = Some (JStr rid) \<and>
    (\<forall>f. f \<noteq> ''retry_of'' \<and> f \<noteq> ''retry_reason'' \<longrightarrow> map_of (wr_input child) f = map_of (wr_input old) f) \<and>
    lookup_run db' (env_key e rid) = Some old \<and> lookup_run db' (env_key e (wr_run_id child)) = Some child \<and>
    (\<exists>ev. events_of (env_key e rid) db' = events_of (env_key e rid) db @ [ev] \<and>
       we_type ev = ''workflow.retry_created'')"
  using reachable_wf[OF assms(1)] assms(2)
proof (cases rule: retry_outcome)
  case (existing o' c)
  with find_existing_lookup[OF existing(4) reachable_wf[OF assms(1)]] assms(4) show ?thesis by simp
next
  case (created o' c d1 d2)
  then obtain b where w: "run_domain_writer (map_option (\<lambda>f. f c) w) d1 = Inr (b, d2)" by blast
  have o': "o' = old" "wr_run_id old = rid" "c = child"
    using created(1,2) assms(3) lookup_run_id[OF assms(3)] by simp_all
  have look: "lookup_run db' k = lookup_run d1 k" for k
    unfolding created(8) lookup_domain_writer[OF w, symmetric] by (rule lookup_run_cong) simp
  have ne: "rid \<noteq> wr_run_id child" using assms(3,4) by auto
  have "events_of (env_key e rid) d1 = events_of (env_key e rid) db"
    using created(5,6) ne o'
    by (auto simp: insert_run_def Let_def events_of_append_event[OF refl] env_key_def split: if_splits)
      (simp add: events_of_def)
  then have "\<exists>ev. events_of (env_key e rid) db' = events_of (env_key e rid) db @ [ev] \<and>
       we_type ev = ''workflow.retry_created''"
    unfolding created(8) by (simp add: events_of_append_event[OF refl] o' events_domain_writer[OF w])
  moreover have "map_of (wr_input child) ''retry_of'' = Some (JStr rid) \<and>
      (\<forall>f. f \<noteq> ''retry_of'' \<and> f \<noteq> ''retry_reason'' \<longrightarrow> map_of (wr_input child) f = map_of (wr_input old) f)"
    using created(6) o' by (simp add: new_run_def retry_body_def Let_def map_of_update)
  ultimately show ?thesis
    using created(6,10,11) o' look by (simp add: new_run_def) (simp add: retry_body_def Let_def)
qed (use assms(3) in simp_all)

theorem retry_creates_next_attempt_witness:
  "wr_attempt demo_child = 2 \<and> map_of (wr_input demo_child) ''retry_of'' = Some (JStr ''run_1'')"
proof -
  have id: "wr_run_id demo_child = ''run_2''" by code_simp
  have l: "lookup_run demo_failed (env_key (demo_env\<lparr>en_uuid := ''2''\<rparr>) ''run_2'') = None"
    "lookup_run demo_failed (env_key (demo_env\<lparr>en_uuid := ''2''\<rparr>) ''run_1'') = Some demo_failed_run"
    by code_simp+
  have "wr_attempt demo_failed_run = 1" by code_simp
  with retry_creates_next_attempt[OF demo_reachable(3) demo_retry l(2)] show ?thesis
    by (simp add: id l(1))
qed

section \<open>Agent deliveries and arbitration\<close>

lemma delivered_append:
  assumes "dict_has pl ''agent_delivery_key'' (JStr key)" "wr_run_id run = rid"
  shows "delivered (env_key e rid) key (snd (append_event e run ty msg pl vis db))"
  using assms by (simp add: delivered_def events_of_append_event[OF assms(2)])

lemma record_delivery_delivered:
  assumes "record_agent_delivery_once_in_transaction e tx rid key ty msg pl vis db = Inr (True, db1)"
  shows "delivered (env_key e rid) key db1" "key \<noteq> []" "utf8_length key \<le> 200"
    "\<exists>r. lookup_run db (env_key e rid) = Some r"
  using assms
  by (auto simp: record_agent_delivery_once_in_transaction_def delivery_checks_def bindE_Inr_iff
      select_run_lookup dict_has_def map_of_update split: option.splits if_splits
      intro!: delivered_append dest: lookup_run_id)

lemma merge_agent_delivered:
  assumes "merge_agent_output_once_in_transaction e tx rid key patch ty txt db = Inr (True, db1)"
  shows "delivered (env_key e rid) key db1" "key \<noteq> []" "utf8_length key \<le> 200"
    "\<exists>r. lookup_run db (env_key e rid) = Some r"
  using assms
  by (auto simp: merge_agent_output_once_in_transaction_def delivery_checks_def bindE_Inr_iff
      select_run_lookup dict_has_def Let_def split: option.splits if_splits
      intro!: delivered_append dest: lookup_run_id)

text \<open>
  An agent delivery takes effect once: after a delivery of a key was accepted for a
  run, by either of the two delivery operations, every later delivery of that key for that
  run, by either operation and after any further operations, is accepted as a duplicate
  and writes nothing.
\<close>

theorem agent_delivery_exactly_once:
  assumes "reachable db"
    and "record_agent_delivery_once_in_transaction e tx rid key ty msg pl vis db = Inr (True, db1) \<or>
      merge_agent_output_once_in_transaction e tx rid key patch ty txt db = Inr (True, db1)"
    and "wf_step\<^sup>*\<^sup>* db1 db2" "en_tenant e' = en_tenant e" "en_owner e' = en_owner e"
  shows "record_agent_delivery_once_in_transaction e' True rid key ty' msg' pl' vis' db2 = Inr (False, db2) \<and>
    merge_agent_output_once_in_transaction e' True rid key patch' ty' txt' db2 = Inr (False, db2)"
proof -
  have env: "env_key e' x = env_key e x" for x using assms(4,5) by (simp add: env_key_def)
  from assms(2) have d: "delivered (env_key e rid) key db1" "key \<noteq> []" "utf8_length key \<le> 200"
    "\<exists>r. lookup_run db (env_key e rid) = Some r"
    by (blast dest: record_delivery_delivered merge_agent_delivered)+
  have step: "wf_op e db db1"
    using assms(2) by (blast intro: op_delivery op_merge_agent)
  then have "run_later db db2"
    using run_later_star[OF assms(1) rtranclp_trans[OF op_star assms(3)]] by blast
  with d(4) obtain r where "lookup_run db2 (env_key e rid) = Some r" by (blast dest: run_later_lookup)
  moreover have "delivered (env_key e rid) key db2"
    using run_later_star[OF reachable_op[OF assms(1) step] assms(3)] d(1) by (rule delivered_later)
  ultimately show ?thesis
    using d(2,3)
    by (simp add: record_agent_delivery_once_in_transaction_def merge_agent_output_once_in_transaction_def
        delivery_checks_def guardE_def select_run_lookup env)
qed

definition demo_delivered :: "unit wf_db" where
  "demo_delivered = snd (projr (record_agent_delivery_once_in_transaction demo_env True ''run_1'' ''dk''
     ''agent.step'' None [] VisUser demo_created))"

theorem agent_delivery_exactly_once_witness:
  "merge_agent_output_once_in_transaction demo_env True ''run_1'' ''dk'' [] ''agent.result'' ''m'' demo_delivered
     = Inr (False, demo_delivered)"
proof -
  have "record_agent_delivery_once_in_transaction demo_env True ''run_1'' ''dk'' ''agent.step'' None [] VisUser
      demo_created = Inr (True, demo_delivered)"
    unfolding demo_delivered_def by (rule Inr_projr) code_simp
  with agent_delivery_exactly_once[OF demo_reachable(2), of demo_env True "''run_1''" "''dk''" "''agent.step''" None
      "[]" VisUser demo_delivered "[]" "''m''" demo_delivered demo_env "''agent.result''" None "[]" VisUser "[]" "''m''"]
  show ?thesis by simp
qed

text \<open>
  Arbitration of an agent's terminal report always settles: for an existing run under
  a valid (or no) lease it returns a run that is stored, in the reported state when the run
  was active (going through \<open>running\<close> or \<open>cancel_requested\<close> where the transition
  table requires it) and in its earlier terminal state otherwise, and then nothing is written.
\<close>

theorem agent_arbitration_settles:
  assumes "reachable db" "lookup_run db (env_key e rid) = Some cur"
    and "assert_workflow_lease e rid None db = Inr ()" "is_terminal st"
  shows "\<exists>new db'. settle_agent_terminal_in_transaction e rid st msg out pl db = Inr (Some new, db') \<and>
    lookup_run db' (env_key e rid) = Some new \<and>
    wr_state new = (if is_terminal (wr_state cur) then wr_state cur else st) \<and>
    (is_terminal (wr_state cur) \<longrightarrow> db' = db)"
proof (cases "is_terminal (wr_state cur)")
  case True
  with assms(2-4) show ?thesis
    by (simp add: settle_agent_terminal_in_transaction_def select_run_lookup)
next
  case False
  with settle_active[OF reachable_wf[OF assms(1)] assms(2) _ assms(3,4), of msg out pl]
  show ?thesis by (auto simp: is_active_iff)
qed

theorem agent_arbitration_settles_witness:
  "\<exists>new db'. settle_agent_terminal_in_transaction demo_env ''run_1'' Cancelled None None None demo_created
     = Inr (Some new, db') \<and> wr_state new = Cancelled"
  using agent_arbitration_settles[OF demo_reachable(2) demo_lookup(1), of Cancelled None None None]
  by (auto simp: assert_workflow_lease_def workflow_lease_def demo_env_def demo_run_def new_run_def)

section \<open>Leases and recovery\<close>

text \<open>
  A worker that lost its lease cannot write: if the token's row has expired, was
  released or was taken over, each operation that carries the token raises
  \<open>LeaseOwnershipError\<close>, so nothing is committed.
\<close>

theorem lost_lease_cannot_write:
  assumes "en_clock e = Fin now" "0 \<le> now" "live_row now t (db_leases db) = None"
  shows "set_state e rid st (c\<lparr>sc_lease := Some t\<rparr>) db = Inl LeaseOwnershipError \<and>
    commit_run_progress_atomic e rid out w evs ty txt (Some t) db = Inl LeaseOwnershipError \<and>
    merge_output e rid out ty msg (Some t) strat db = Inl LeaseOwnershipError \<and>
    record_event e rid ty msg pl vis (Some t) db = Inl LeaseOwnershipError \<and>
    project_active_run e rid pw (Some t) db = Inl LeaseOwnershipError \<and>
    (en_lease e = Some t \<longrightarrow> request_cancel_in_transaction e rid msg db = Inl LeaseOwnershipError \<and>
      (is_terminal st \<longrightarrow> settle_agent_terminal_in_transaction e rid st msg od pl db = Inl LeaseOwnershipError))"
proof -
  have owned: "check_owned (en_clock e) t (db_leases db) = Inr False"
    using assms by simp
  have "assert_owned (en_clock e) t (db_leases db) = Inl LeaseOwnershipError"
    by (simp add: assert_owned_def guardE_def owned)
  then have "assert_workflow_lease e rid (Some t) db = Inl LeaseOwnershipError"
    "en_lease e = Some t \<Longrightarrow> assert_workflow_lease e rid None db = Inl LeaseOwnershipError"
    by (simp_all add: assert_workflow_lease_def workflow_lease_def)
  then show ?thesis
    by (simp add: set_state_def commit_run_progress_atomic_def merge_output_def record_event_def
        project_active_run_def request_cancel_in_transaction_def settle_agent_terminal_in_transaction_def)
qed

text \<open>A claim of the demo run at time 10 for 5 seconds, lost at time 20.\<close>

definition demo_token :: lease_token where
  "demo_token = \<lparr>tk_tenant = ''t'', tk_owner = ''o'', tk_kind = ''workflow'', tk_resource = ''run_1'',
     tk_holder = ''w1'', tk_fence = 1, tk_expires = 15, tk_heartbeat = 10\<rparr>"

definition demo_claimed :: "unit wf_db" where
  "demo_claimed = demo_created\<lparr>db_leases := [(''t'', ''o'', ''workflow'', ''run_1'') \<mapsto>
     \<lparr>lr_holder = ''w1'', lr_fence = 1, lr_expires = 15, lr_heartbeat = 10\<rparr>]\<rparr>"

lemma demo_created_leases: "db_leases demo_created k = None"
proof -
  have "db_leases (snd (create_run e b rid p a seen db)) = db_leases db" for e b rid p a seen and db :: "unit wf_db"
    by (auto simp: create_run_def insert_run_def Let_def split: option.splits sum.splits py_error.splits if_splits)
  then show ?thesis by (simp add: demo_created_def demo_empty_def)
qed

lemma demo_claim:
  "claim_run_for_execution demo_env (Fin 5) ''run_1'' ''w1'' demo_created = Inr (Some (demo_run, demo_token), demo_claimed)"
proof -
  have "lease_term (Fin 5) (Fin 10) = Inr (10, 15)" using lease_term_small[of 5 10] by simp
  from lease_acquire_free[OF this, of "''t''" "''o''" "''workflow''" "''run_1''" "''w1''" "db_leases demo_created"]
  have "lease_acquire (Fin 10) (''t'', ''o'', ''workflow'', ''run_1'') ''w1'' (Fin 5) (db_leases demo_created) =
      Inr (Some demo_token, db_leases demo_claimed)"
    by (simp add: demo_created_leases demo_token_def demo_claimed_def fun_eq_iff)
  moreover have "db_leases demo_created = Map.empty" using demo_created_leases by (rule ext)
  moreover have "lookup_run (demo_created\<lparr>db_leases := tab\<rparr>) k = lookup_run demo_created k" for tab k
    by (rule lookup_run_cong) simp
  ultimately show ?thesis
    using demo_lookup(1)
    by (simp add: claim_run_for_execution_def demo_env_def select_run_lookup demo_claimed_def Let_def
        demo_run_def new_run_def is_active_def)
qed

theorem lost_lease_cannot_write_witness:
  "record_event (demo_env\<lparr>en_clock := Fin 20\<rparr>) ''run_1'' ''note'' None None VisDebug (Some demo_token) demo_claimed
     = Inl LeaseOwnershipError"
proof -
  have "live_row 20 demo_token (db_leases demo_claimed) = None"
    by (simp add: live_row_def demo_claimed_def demo_token_def tk_key_def)
  with lost_lease_cannot_write[of "demo_env\<lparr>en_clock := Fin 20\<rparr>" 20 demo_token demo_claimed] show ?thesis by simp
qed

lemma lease_acquire_finite: "lease_acquire clk key h ttl db = Inr res \<Longrightarrow> \<exists>now. clk = Fin now"
  by (cases key) (auto simp: lease_acquire_def bindE_Inr_iff lease_term_Inr)

lemma claim_SomeD:
  assumes "claim_run_for_execution e ttl rid h db = Inr (Some (r, t), db1)"
  shows "lease_acquire (en_clock e) (en_tenant e, en_owner e, ''workflow'', rid) h ttl (db_leases db) =
      Inr (Some t, db_leases db1)" "lookup_run db1 (env_key e rid) = Some r" "is_active (wr_state r)"
proof -
  from assms obtain lease tab where acq: "lease_acquire (en_clock e)
      (en_tenant e, en_owner e, ''workflow'', rid) h ttl (db_leases db) = Inr (lease, tab)"
    by (auto simp: claim_run_for_execution_def bindE_Inr_iff)
  with assms obtain u where u: "lease = Some u"
    by (cases lease) (auto simp: claim_run_for_execution_def)
  with assms acq obtain q where q: "lookup_run (db\<lparr>db_leases := tab\<rparr>) (env_key e rid) = Some q"
    by (cases "lookup_run (db\<lparr>db_leases := tab\<rparr>) (env_key e rid)")
      (auto simp: claim_run_for_execution_def Let_def select_run_lookup bindE_Inr_iff)
  have "is_active (wr_state q) \<and> q = r \<and> u = t \<and> db1 = db\<lparr>db_leases := tab\<rparr>"
    using assms acq u q
    by (cases "is_active (wr_state q)")
      (auto simp: claim_run_for_execution_def Let_def select_run_lookup bindE_Inr_iff)
  with acq u q show "lease_acquire (en_clock e) (en_tenant e, en_owner e, ''workflow'', rid) h ttl (db_leases db) =
      Inr (Some t, db_leases db1)" "lookup_run db1 (env_key e rid) = Some r" "is_active (wr_state r)"
    by auto
qed

text \<open>
  One executor per run: a claim returns the stored, active run; and until the claim's
  term ends, every further claim of the run, by any holder and with any term, that does not
  raise is refused and changes nothing.
\<close>

theorem claim_excludes_others:
  assumes "claim_run_for_execution e ttl rid h db = Inr (Some (r, t), db1)"
    and "en_tenant e' = en_tenant e" "en_owner e' = en_owner e"
    and "en_clock e' = Fin now'" "now' < tk_expires t"
    and "claim_run_for_execution e' ttl' rid h' db1 = Inr (res, db2)"
  shows "lookup_run db1 (env_key e rid) = Some r \<and> is_active (wr_state r) \<and> res = None \<and> db2 = db1"
proof -
  let ?key = "(en_tenant e, en_owner e, ''workflow'', rid)"
  note c = claim_SomeD[OF assms(1)]
  obtain now where now: "en_clock e = Fin now" using lease_acquire_finite[OF c(1)] by blast
  from c(1)[unfolded now] obtain row where "db_leases db1 = (db_leases db)(?key \<mapsto> row)"
    "t = row_to_token ?key row"
    by (rule lease_acquire_SomeD)
  then have row: "db_leases db1 ?key = Some row" "lr_expires row = tk_expires t" by simp_all
  from assms(6) obtain lease tab where acq: "lease_acquire (Fin now') ?key h' ttl' (db_leases db1) = Inr (lease, tab)"
    by (auto simp: claim_run_for_execution_def bindE_Inr_iff assms(2-4))
  have "lease = None"
  proof (cases lease)
    case (Some u)
    from acq[unfolded Some] have "\<forall>old. db_leases db1 ?key = Some old \<longrightarrow> lr_expires old \<le> now'"
      by (rule lease_acquire_SomeD)
    with row assms(5) show ?thesis by simp
  qed
  moreover from this acq have "tab = db_leases db1" by (auto dest: lease_acquire_NoneD)
  ultimately show ?thesis
    using assms(6) acq c(2,3) by (simp add: claim_run_for_execution_def assms(2-4))
qed

theorem claim_excludes_others_witness:
  "claim_run_for_execution (demo_env\<lparr>en_clock := Fin 12\<rparr>) (Fin 5) ''run_1'' ''w2'' demo_claimed = Inr (None, demo_claimed)"
proof -
  have "lease_term (Fin 5) (Fin 12) = Inr (12, 17)" using lease_term_small[of 5 12] by simp
  then have "lease_acquire (Fin 12) (''t'', ''o'', ''workflow'', ''run_1'') ''w2'' (Fin 5) (db_leases demo_claimed) =
      Inr (None, db_leases demo_claimed)"
    by (simp add: lease_acquire_def validate_identity_def guardE_def demo_claimed_def)
  then have "claim_run_for_execution (demo_env\<lparr>en_clock := Fin 12\<rparr>) (Fin 5) ''run_1'' ''w2'' demo_claimed =
      Inr (None, demo_claimed\<lparr>db_leases := db_leases demo_claimed\<rparr>)"
    by (simp add: claim_run_for_execution_def demo_env_def)
  from claim_excludes_others[OF demo_claim _ _ _ _ this] show ?thesis
    using \<open>claim_run_for_execution _ _ _ _ _ = _\<close> by (simp add: demo_env_def demo_token_def)
qed

lemma count_list_distinct: "distinct xs \<Longrightarrow> count_list xs x = (if x \<in> set xs then 1 else 0)"
  by (induction xs) auto

lemma record_restored:
  assumes "en_lease e = None" "lookup_run db (env_key e rid) = Some r"
  shows "\<exists>v db1. record_event e rid ty msg pl vis None db = Inr (Some v, db1) \<and>
    (\<forall>k. lookup_run db1 k = lookup_run db k) \<and>
    (\<forall>k. length (events_of k db1) = length (events_of k db) + (if k = env_key e rid then 1 else 0))"
proof -
  let ?pl = "case pl of None \<Rightarrow> [] | Some p \<Rightarrow> p"
  let ?ev = "append_event e r ty msg ?pl vis db"
  have "wr_run_id r = rid" using assms(2) by (rule lookup_run_id)
  then have "length (events_of k (snd ?ev)) = length (events_of k db) + (if k = env_key e rid then 1 else 0)" for k
    by (simp add: events_of_append_event[OF refl])
  moreover have "lookup_run (snd ?ev) k = lookup_run db k" for k by (rule lookup_run_cong) simp
  moreover have "record_event e rid ty msg pl vis None db = Inr (Some (fst ?ev), snd ?ev)"
    using assms by (simp add: record_event_def assert_workflow_lease_def workflow_lease_def select_run_lookup split: prod.splits)
  ultimately show ?thesis by blast
qed

lemma restore_runs_all:
  assumes "en_lease e = None" "\<And>r. r \<in> set rs \<Longrightarrow> lookup_run db (env_key e (wr_run_id r)) = Some r"
  shows "\<exists>db'. restore_runs e rs n db = (Inr (n + length rs), db') \<and>
    (\<forall>k. lookup_run db' k = lookup_run db k) \<and>
    (\<forall>k. length (events_of k db') = length (events_of k db) + count_list (map (\<lambda>r. env_key e (wr_run_id r)) rs) k)"
  using assms(2)
proof (induction rs arbitrary: n db)
  case Nil
  then show ?case by simp
next
  case (Cons r rs)
  have "lookup_run db (env_key e (wr_run_id r)) = Some r" using Cons.prems by simp
  from record_restored[OF assms(1) this] obtain v db1 where
    db1: "record_event e (wr_run_id r) ''workflow.restored'' (Some msg_restored)
        (Some [(''state'', JStr (state_name (wr_state r)))]) VisDebug None db = Inr (Some v, db1)"
      "\<And>k. lookup_run db1 k = lookup_run db k"
      "\<And>k. length (events_of k db1) = length (events_of k db) + (if k = env_key e (wr_run_id r) then 1 else 0)"
    by blast
  have "\<And>x. x \<in> set rs \<Longrightarrow> lookup_run db1 (env_key e (wr_run_id x)) = Some x"
    using Cons.prems db1(2) by simp
  from Cons.IH[OF this, of "n + 1"] db1 show ?case by auto
qed

text \<open>
  The start-up restore without a lease cannot fail: it counts the unfinished runs of
  the scope, leaves every run row as it is, and appends exactly one event to the log of
  each unfinished run of the scope and none to any other.
\<close>

theorem restore_touches_each_unfinished_run_once:
  assumes "reachable db" "en_lease e = None"
  shows "\<exists>db'. restore_unfinished e db =
      (Inr (length (filter (\<lambda>r. in_scope e r \<and> is_active (wr_state (rr_run r))) (db_runs db))), db') \<and>
    (\<forall>k r. lookup_run db k = Some r \<longrightarrow> lookup_run db' k = Some r \<and>
      length (events_of k db') = length (events_of k db) +
        (if fst k = en_tenant e \<and> fst (snd k) = en_owner e \<and> is_active (wr_state r) then 1 else 0))"
proof -
  let ?rs = "list_unfinished_runs e db"
  let ?act = "filter (\<lambda>r. in_scope e r \<and> is_active (wr_state (rr_run r))) (db_runs db)"
  let ?keys = "map (\<lambda>r. env_key e (wr_run_id r)) ?rs"
  have inv: "wf_inv db" using assms(1) by (rule reachable_wf)
  have rows: "\<And>r. r \<in> set ?rs \<Longrightarrow> lookup_run db (env_key e (wr_run_id r)) = Some r"
    using row_lookup[OF inv] by (auto simp: list_unfinished_runs_def)
  have len: "length ?rs = length ?act" by (simp add: list_unfinished_runs_def)
  have "mset ?keys = image_mset (\<lambda>r. env_key e (wr_run_id (rr_run r))) (mset ?act)"
    by (simp add: list_unfinished_runs_def image_mset.compositionality comp_def)
  also have "\<dots> = image_mset run_key (mset ?act)"
    by (rule image_mset_cong) (auto simp: run_key_def env_key_def in_scope_def)
  finally have "mset ?keys = mset (map run_key ?act)" by simp
  moreover have "distinct (map run_key ?act)" using wf_inv_keys[OF inv] by (rule distinct_map_filter)
  ultimately have dist: "distinct ?keys" using mset_eq_imp_distinct_iff by blast
  have setk: "k \<in> set ?keys \<longleftrightarrow> fst k = en_tenant e \<and> fst (snd k) = en_owner e \<and> is_active (wr_state r)"
    if r: "lookup_run db k = Some r" for k r
  proof
    assume "k \<in> set ?keys"
    then obtain x where "x \<in> set ?rs" "k = env_key e (wr_run_id x)" by auto
    with rows[OF this(1)] r show "fst k = en_tenant e \<and> fst (snd k) = en_owner e \<and> is_active (wr_state r)"
      by (auto simp: list_unfinished_runs_def env_key_def)
  next
    assume k: "fst k = en_tenant e \<and> fst (snd k) = en_owner e \<and> is_active (wr_state r)"
    from r obtain row where row: "row \<in> set (db_runs db)" "run_key row = k" "rr_run row = r"
      by (rule lookup_run_SomeD)
    with k have "r \<in> set ?rs" "k = env_key e (wr_run_id r)"
      by (auto simp: list_unfinished_runs_def in_scope_def run_key_def env_key_def)
    then show "k \<in> set ?keys" by simp
  qed
  have "count_list ?keys k = (if k \<in> set ?keys then 1 else 0)" for k
    using dist by (rule count_list_distinct)
  with restore_runs_all[OF assms(2), of ?rs db 0, OF rows] setk len show ?thesis
    unfolding restore_unfinished_def by fastforce
qed

theorem restore_touches_each_unfinished_run_once_witness:
  "\<exists>db'. restore_unfinished demo_env demo_created = (Inr 1, db') \<and>
    lookup_run db' (env_key demo_env ''run_1'') = Some demo_run"
proof -
  have "length (filter (\<lambda>r. in_scope demo_env r \<and> is_active (wr_state (rr_run r))) (db_runs demo_created)) = 1"
    by code_simp
  moreover have "en_lease demo_env = None" by (simp add: demo_env_def)
  from restore_touches_each_unfinished_run_once[OF demo_reachable(2) this] obtain db' where
    "restore_unfinished demo_env demo_created =
      (Inr (length (filter (\<lambda>r. in_scope demo_env r \<and> is_active (wr_state (rr_run r))) (db_runs demo_created))), db')"
    "\<forall>k r. lookup_run demo_created k = Some r \<longrightarrow> lookup_run db' k = Some r \<and>
      length (events_of k db') = length (events_of k demo_created) +
        (if fst k = en_tenant demo_env \<and> fst (snd k) = en_owner demo_env \<and> is_active (wr_state r) then 1 else 0)"
    by blast
  ultimately show ?thesis using demo_lookup(1) by metis
qed

end
