(* ===== verification/CommandOutbox.thy ===== *)
theory CommandOutbox
  imports ExecLease "HOL-Library.Multiset"
begin

text \<open>
  \<open>AgentCommandOutbox\<close> (\<open>backend/app/agents/command_outbox.py\<close>): the durable queue of
  remote cancellation commands, one per (tenant, owner, task), written under fencing
  leases.  Each operation is one transaction; \<open>now\<close> is the reading of \<open>utc_now_iso\<close>,
  \<open>clk\<close> that of the lease clock.  The SHA-256 digest is the parameter \<open>digest\<close>.
\<close>

section \<open>State\<close>

datatype cmd_outcome = OutCancelled | OutCancelFailed | OutTerminalWon

record cmd =
  cm_id :: string
  cm_tenant :: string
  cm_owner :: string
  cm_device :: string
  cm_task :: string
  cm_runner :: "string option"
  cm_type :: string
  cm_opkey :: string
  cm_attempts :: nat
  cm_next_attempt_at :: rat
  cm_last_error :: "string option"
  cm_outcome :: "cmd_outcome option"
  cm_force_remote :: bool
  cm_created_at :: rat
  cm_updated_at :: rat
  cm_completed_at :: "rat option"

text \<open>The table, the tasks its foreign key refers to, and the leases.\<close>

record cmd_db =
  cd_rows :: "cmd list"
  cd_tasks :: "(string \<times> string \<times> string) list"
  cd_leases :: lease_table

definition task_key :: "cmd \<Rightarrow> string \<times> string \<times> string" where
  "task_key c = (cm_tenant c, cm_owner c, cm_task c)"

definition cmd_key :: "cmd \<Rightarrow> string \<times> string \<times> string" where
  "cmd_key c = (cm_tenant c, cm_owner c, cm_id c)"

section \<open>Operations\<close>

definition removeprefix :: "string \<Rightarrow> string \<Rightarrow> string" where
  "removeprefix p s = (if take (length p) s = p then drop (length p) s else s)"

definition cancel_operation_key :: "(string \<Rightarrow> string) \<Rightarrow> string \<Rightarrow> string \<Rightarrow> string \<Rightarrow> string" where
  "cancel_operation_key digest tenant owner task =
     ''agent-cancel-'' @ digest (''v1'' @ [CHR 0x00] @ tenant @ [CHR 0x00] @ owner @ [CHR 0x00] @ task
       @ [CHR 0x00] @ ''cancel'')"

definition select_task_command :: "string \<Rightarrow> string \<Rightarrow> string \<Rightarrow> cmd_db \<Rightarrow> cmd option" where
  "select_task_command tenant owner task db =
     List.find (\<lambda>r. task_key r = (tenant, owner, task)) (cd_rows db)"

definition select_command :: "cmd \<Rightarrow> cmd_db \<Rightarrow> cmd option" where
  "select_command c db = List.find (\<lambda>r. cmd_key r = cmd_key c) (cd_rows db)"

definition cancel_row ::
    "(string \<Rightarrow> string) \<Rightarrow> rat \<Rightarrow> string \<Rightarrow> string \<Rightarrow> string \<Rightarrow> string \<Rightarrow> string option \<Rightarrow> cmd" where
  "cancel_row digest now tenant owner device task runner =
     (let opkey = cancel_operation_key digest tenant owner task
      in \<lparr>cm_id = ''agent_cmd_'' @ take 32 (removeprefix ''agent-cancel-'' opkey),
          cm_tenant = tenant, cm_owner = owner, cm_device = device, cm_task = task,
          cm_runner = runner, cm_type = ''cancel'', cm_opkey = opkey, cm_attempts = 0,
          cm_next_attempt_at = 0, cm_last_error = None, cm_outcome = None,
          cm_force_remote = False, cm_created_at = now, cm_updated_at = now,
          cm_completed_at = None\<rparr>)"

text \<open>
  \<open>INSERT ... ON CONFLICT (tenant, owner, task, command_type) DO UPDATE ... WHERE
  completed_at IS NULL\<close>: the table's checks, then the conflict target, then the other
  unique constraints and the foreign key.
\<close>

definition enqueue_cancel ::
    "(string \<Rightarrow> string) \<Rightarrow> rat \<Rightarrow> string \<Rightarrow> string \<Rightarrow> string \<Rightarrow> string \<Rightarrow> string option \<Rightarrow> cmd_db
      \<Rightarrow> py_error + cmd \<times> cmd_db" where
  "enqueue_cancel digest now tenant owner device task runner db =
     (let row = cancel_row digest now tenant owner device task runner;
          db1 =
            (if [] \<in> {tenant, owner, device, task} then Inl IntegrityError
             else case select_task_command tenant owner task db of
               Some _ \<Rightarrow>
                 Inr (db\<lparr>cd_rows := update_where
                   (\<lambda>r. task_key r = (tenant, owner, task) \<and> cm_completed_at r = None)
                   (\<lambda>r. r\<lparr>cm_runner := (case cm_runner r of None \<Rightarrow> runner | Some x \<Rightarrow> Some x),
                          cm_updated_at := now\<rparr>) (cd_rows db)\<rparr>)
             | None \<Rightarrow>
                 if (\<exists>r \<in> set (cd_rows db). cmd_key r = cmd_key row \<or> cm_opkey r = cm_opkey row) \<or>
                    (tenant, owner, task) \<notin> set (cd_tasks db)
                 then Inl IntegrityError
                 else Inr (db\<lparr>cd_rows := cd_rows db @ [row]\<rparr>))
      in bindE db1 (\<lambda>db1.
           case select_task_command tenant owner task db1 of
             None \<Rightarrow> Inl (RuntimeError ''cancel command enqueue did not produce a durable row'')
           | Some r \<Rightarrow> Inr (r, db1)))"

definition attach_runner_and_requeue ::
    "rat \<Rightarrow> string \<Rightarrow> string \<Rightarrow> string \<Rightarrow> string \<Rightarrow> cmd_db \<Rightarrow> bool \<times> cmd_db" where
  "attach_runner_and_requeue now tenant owner task runner db =
     (let p = (\<lambda>r. task_key r = (tenant, owner, task) \<and> cm_completed_at r = None) in
      (rowcount p (cd_rows db) = 1,
       db\<lparr>cd_rows := update_where p
         (\<lambda>r. r\<lparr>cm_runner := Some runner, cm_attempts := 0, cm_next_attempt_at := 0,
                cm_last_error := None, cm_outcome := None, cm_force_remote := True,
                cm_completed_at := None, cm_updated_at := now\<rparr>) (cd_rows db)\<rparr>))"

text \<open>\<open>now_epoch or time.time()\<close>: zero and \<open>None\<close> both mean the clock.\<close>

definition list_due ::
    "string \<Rightarrow> string \<Rightarrow> string option \<Rightarrow> int \<Rightarrow> rat option \<Rightarrow> rat \<Rightarrow> cmd_db \<Rightarrow> py_error + cmd list" where
  "list_due tenant owner task limit now_epoch clock db =
     (if limit < 1 then Inl (ValueError ''command outbox limit must be positive'')
      else
        (let now = (case now_epoch of None \<Rightarrow> clock | Some t \<Rightarrow> if t = 0 then clock else t);
             due = filter (\<lambda>r. cm_tenant r = tenant \<and> cm_owner r = owner \<and> cm_completed_at r = None \<and>
                      cm_next_attempt_at r \<le> now \<and> (case task of None \<Rightarrow> True | Some t \<Rightarrow> cm_task r = t))
                    (cd_rows db)
         in Inr (take (nat limit) (sort_key cm_created_at (sort_key cm_id due)))))"

definition cmd_mark_retry ::
    "pyfloat \<Rightarrow> rat \<Rightarrow> cmd \<Rightarrow> lease_token \<Rightarrow> rat \<Rightarrow> string \<Rightarrow> cmd_db \<Rightarrow> py_error + cmd \<times> cmd_db" where
  "cmd_mark_retry clk now c lease next err db =
     bindE (assert_owned clk lease (cd_leases db)) (\<lambda>_.
       let p = (\<lambda>r. cmd_key r = cmd_key c \<and> cm_completed_at r = None) in
       if next < 0 \<and> (\<exists>r \<in> set (cd_rows db). p r) then Inl IntegrityError
       else
         (let db1 = db\<lparr>cd_rows := update_where p
                (\<lambda>r. r\<lparr>cm_attempts := cm_attempts r + 1, cm_next_attempt_at := next,
                       cm_last_error := Some err, cm_updated_at := now\<rparr>) (cd_rows db)\<rparr>
          in case select_command c db1 of
               None \<Rightarrow> Inl (RuntimeError ''cancel command disappeared during retry'')
             | Some r \<Rightarrow> Inr (r, db1)))"

definition mark_completed_in_transaction ::
    "rat \<Rightarrow> cmd \<Rightarrow> cmd_outcome \<Rightarrow> cmd_db \<Rightarrow> bool \<times> cmd_db" where
  "mark_completed_in_transaction now c outcome db =
     (let p = (\<lambda>r. cmd_key r = cmd_key c \<and> cm_completed_at r = None) in
      (rowcount p (cd_rows db) = 1,
       db\<lparr>cd_rows := update_where p
         (\<lambda>r. r\<lparr>cm_outcome := Some outcome, cm_completed_at := Some now, cm_updated_at := now,
                cm_last_error := None, cm_force_remote := False\<rparr>) (cd_rows db)\<rparr>))"

definition cmd_mark_completed ::
    "pyfloat \<Rightarrow> rat \<Rightarrow> cmd \<Rightarrow> lease_token \<Rightarrow> cmd_outcome \<Rightarrow> cmd_db \<Rightarrow> py_error + bool \<times> cmd_db" where
  "cmd_mark_completed clk now c lease outcome db =
     bindE (assert_owned clk lease (cd_leases db)) (\<lambda>_. Inr (mark_completed_in_transaction now c outcome db))"

section \<open>Behaviour of one enqueue\<close>

lemma cancel_row_sel [simp]:
  "task_key (cancel_row digest now tenant owner device task runner) = (tenant, owner, task)"
  "cm_outcome (cancel_row digest now tenant owner device task runner) = None"
  "cm_completed_at (cancel_row digest now tenant owner device task runner) = None"
  "cm_next_attempt_at (cancel_row digest now tenant owner device task runner) = 0"
  "cm_runner (cancel_row digest now tenant owner device task runner) = runner"
  by (simp_all add: cancel_row_def task_key_def Let_def)

lemma enqueue_new:
  assumes "enqueue_cancel digest now tenant owner device task runner db = Inr (r, db')"
    "select_task_command tenant owner task db = None"
  shows "cd_rows db' = cd_rows db @ [cancel_row digest now tenant owner device task runner]"
    "cmd_key (cancel_row digest now tenant owner device task runner) \<notin> cmd_key ` set (cd_rows db)"
    "cm_opkey (cancel_row digest now tenant owner device task runner) \<notin> cm_opkey ` set (cd_rows db)"
  using assms
  by (auto simp: enqueue_cancel_def Let_def bindE_Inr_iff split: if_splits option.splits)

lemma enqueue_again:
  assumes "enqueue_cancel digest now tenant owner device task runner db = Inr (r, db')"
    "select_task_command tenant owner task db = Some old"
  shows "cd_rows db' = update_where (\<lambda>r. task_key r = (tenant, owner, task) \<and> cm_completed_at r = None)
     (\<lambda>r. r\<lparr>cm_runner := (case cm_runner r of None \<Rightarrow> runner | Some x \<Rightarrow> Some x), cm_updated_at := now\<rparr>) (cd_rows db)"
  using assms
  by (auto simp: enqueue_cancel_def Let_def bindE_Inr_iff split: if_splits option.splits)

section \<open>Invariant\<close>

text \<open>One row per task, per command id and per operation key; an outcome exactly when completed.\<close>

definition cmd_inv :: "cmd_db \<Rightarrow> bool" where
  "cmd_inv db \<longleftrightarrow> distinct (map task_key (cd_rows db)) \<and> distinct (map cmd_key (cd_rows db)) \<and>
     distinct (map cm_opkey (cd_rows db)) \<and>
     (\<forall>r \<in> set (cd_rows db). (cm_outcome r \<noteq> None \<longleftrightarrow> cm_completed_at r \<noteq> None) \<and>
        0 \<le> cm_next_attempt_at r \<and> (cm_completed_at r \<noteq> None \<longrightarrow> \<not> cm_force_remote r))"

text \<open>Every write is a row rewrite that keeps the keys and leaves completed rows alone, or an insert.\<close>

definition keeps_keys :: "(cmd \<Rightarrow> cmd) \<Rightarrow> bool" where
  "keeps_keys f \<longleftrightarrow> (\<forall>r. task_key (f r) = task_key r \<and> cmd_key (f r) = cmd_key r \<and> cm_opkey (f r) = cm_opkey r \<and>
     cm_created_at (f r) = cm_created_at r)"

inductive cmd_step :: "cmd_db \<Rightarrow> cmd_db \<Rightarrow> bool" where
  step_enqueue: "enqueue_cancel digest now tenant owner device task runner db = Inr (r, db') \<Longrightarrow> cmd_step db db'"
| step_attach: "attach_runner_and_requeue now tenant owner task rid db = (b, db') \<Longrightarrow> cmd_step db db'"
| step_retry: "cmd_mark_retry clk now c lease next err db = Inr (r, db') \<Longrightarrow> cmd_step db db'"
| step_complete: "cmd_mark_completed clk now c lease outcome db = Inr (b, db') \<Longrightarrow> cmd_step db db'"
| step_complete_tx: "mark_completed_in_transaction now c outcome db = (b, db') \<Longrightarrow> cmd_step db db'"
| step_leases: "cmd_step db (db\<lparr>cd_leases := tab\<rparr>)"
| step_tasks: "cmd_step db (db\<lparr>cd_tasks := ts\<rparr>)"

definition cmd_init :: "cmd_db \<Rightarrow> bool" where
  "cmd_init db = (cd_rows db = [])"

definition row_step :: "cmd list \<Rightarrow> cmd list \<Rightarrow> bool" where
  "row_step rows rows' \<longleftrightarrow>
     (\<exists>p f. rows' = update_where p f rows \<and> keeps_keys f \<and> (\<forall>r. p r \<longrightarrow> cm_completed_at r = None) \<and>
        (\<forall>r. p r \<and> cm_outcome r = None \<and> 0 \<le> cm_next_attempt_at r \<and> r \<in> set rows \<longrightarrow>
           (cm_outcome (f r) \<noteq> None \<longleftrightarrow> cm_completed_at (f r) \<noteq> None) \<and> 0 \<le> cm_next_attempt_at (f r) \<and>
           (cm_completed_at (f r) \<noteq> None \<longrightarrow> \<not> cm_force_remote (f r)))) \<or>
     (\<exists>r. rows' = rows @ [r] \<and> task_key r \<notin> task_key ` set rows \<and> cmd_key r \<notin> cmd_key ` set rows \<and>
        cm_opkey r \<notin> cm_opkey ` set rows \<and> cm_outcome r = None \<and> cm_completed_at r = None \<and>
        cm_next_attempt_at r = 0)"

lemma row_step_refl: "row_step rows rows"
  unfolding row_step_def
  by (rule disjI1, rule exI[of _ "\<lambda>_. False"], rule exI[of _ id])
    (simp add: update_where_def keeps_keys_def)

lemma row_step_update:
  assumes "\<And>r. p r \<Longrightarrow> cm_completed_at r = None" "keeps_keys f"
    "\<And>r. p r \<Longrightarrow> r \<in> set rows \<Longrightarrow> cm_outcome r = None \<Longrightarrow> 0 \<le> cm_next_attempt_at r \<Longrightarrow>
      (cm_outcome (f r) \<noteq> None \<longleftrightarrow> cm_completed_at (f r) \<noteq> None) \<and> 0 \<le> cm_next_attempt_at (f r) \<and>
      (cm_completed_at (f r) \<noteq> None \<longrightarrow> \<not> cm_force_remote (f r))"
  shows "row_step rows (update_where p f rows)"
  unfolding row_step_def using assms by (intro disjI1 exI[of _ p] exI[of _ f]) blast

lemmas cmd_key_defs = task_key_def cmd_key_def keeps_keys_def

lemma cmd_step_rows:
  assumes "cmd_step db db'"
  shows "row_step (cd_rows db) (cd_rows db')"
  using assms
proof cases
  case (step_enqueue digest now tenant owner device task runner r)
  show ?thesis
  proof (cases "select_task_command tenant owner task db")
    case None
    then have "(tenant, owner, task) \<notin> task_key ` set (cd_rows db)"
      by (auto simp: select_task_command_def find_None_iff)
    with enqueue_new[OF step_enqueue(1) None] show ?thesis
      unfolding row_step_def
      by (intro disjI2 exI[of _ "cancel_row digest now tenant owner device task runner"]) simp
  next
    case (Some old)
    let ?p = "\<lambda>r. task_key r = (tenant, owner, task) \<and> cm_completed_at r = None"
    let ?f = "\<lambda>r. r\<lparr>cm_runner := (case cm_runner r of None \<Rightarrow> runner | Some x \<Rightarrow> Some x), cm_updated_at := now\<rparr>"
    have "cd_rows db' = update_where ?p ?f (cd_rows db)"
      by (rule enqueue_again[OF step_enqueue(1) Some])
    moreover have "row_step (cd_rows db) (update_where ?p ?f (cd_rows db))"
      by (rule row_step_update) (auto simp: cmd_key_defs)
    ultimately show ?thesis by simp
  qed
next
  case (step_attach now tenant owner task rid b)
  then show ?thesis
    by (auto simp: attach_runner_and_requeue_def Let_def cmd_key_defs intro!: row_step_update)
next
  case (step_retry clk now c lease nxt err r)
  let ?p = "\<lambda>r. cmd_key r = cmd_key c \<and> cm_completed_at r = None"
  let ?f = "\<lambda>r. r\<lparr>cm_attempts := cm_attempts r + 1, cm_next_attempt_at := nxt, cm_last_error := Some err,
      cm_updated_at := now\<rparr>"
  have "cd_rows db' = update_where ?p ?f (cd_rows db)"
    and "\<not> (nxt < 0 \<and> (\<exists>r \<in> set (cd_rows db). ?p r))"
    using step_retry by (auto simp: cmd_mark_retry_def Let_def bindE_Inr_iff split: if_splits option.splits)
  moreover from this(2) have "row_step (cd_rows db) (update_where ?p ?f (cd_rows db))"
    by (intro row_step_update) (auto simp: cmd_key_defs)
  ultimately show ?thesis by simp
next
  case (step_complete clk now c lease outcome b)
  then show ?thesis
    by (auto simp: cmd_mark_completed_def mark_completed_in_transaction_def bindE_Inr_iff Let_def cmd_key_defs
        intro!: row_step_update)
next
  case (step_complete_tx now c outcome b)
  then show ?thesis
    by (auto simp: mark_completed_in_transaction_def Let_def cmd_key_defs intro!: row_step_update)
next
  case (step_leases tab)
  then show ?thesis by (simp add: row_step_refl)
next
  case (step_tasks ts)
  then show ?thesis by (simp add: row_step_refl)
qed

lemma cmd_inv_rows: "cmd_inv db \<Longrightarrow> row_step (cd_rows db) (cd_rows db') \<Longrightarrow> cmd_inv db'"
  unfolding row_step_def
proof (elim disjE exE conjE)
  fix p f
  assume inv: "cmd_inv db" and rows: "cd_rows db' = update_where p f (cd_rows db)" and keys: "keeps_keys f"
    and p: "\<forall>r. p r \<longrightarrow> cm_completed_at r = None"
    and ok: "\<forall>r. p r \<and> cm_outcome r = None \<and> 0 \<le> cm_next_attempt_at r \<and> r \<in> set (cd_rows db) \<longrightarrow>
      (cm_outcome (f r) \<noteq> None \<longleftrightarrow> cm_completed_at (f r) \<noteq> None) \<and> 0 \<le> cm_next_attempt_at (f r) \<and>
      (cm_completed_at (f r) \<noteq> None \<longrightarrow> \<not> cm_force_remote (f r))"
  have "map task_key (cd_rows db') = map task_key (cd_rows db)" "map cmd_key (cd_rows db') = map cmd_key (cd_rows db)"
    "map cm_opkey (cd_rows db') = map cm_opkey (cd_rows db)"
    using keys unfolding rows by (auto simp: keeps_keys_def intro!: map_update_where_id)
  moreover have "(cm_outcome r \<noteq> None \<longleftrightarrow> cm_completed_at r \<noteq> None) \<and> 0 \<le> cm_next_attempt_at r \<and>
      (cm_completed_at r \<noteq> None \<longrightarrow> \<not> cm_force_remote r)" if "r \<in> set (cd_rows db')" for r
  proof -
    from that rows obtain q where q: "q \<in> set (cd_rows db)" "r = (if p q then f q else q)"
      by (auto simp: set_update_where)
    from inv q(1) have iq: "(cm_outcome q \<noteq> None \<longleftrightarrow> cm_completed_at q \<noteq> None) \<and> 0 \<le> cm_next_attempt_at q \<and>
      (cm_completed_at q \<noteq> None \<longrightarrow> \<not> cm_force_remote q)"
      by (simp add: cmd_inv_def)
    show ?thesis
    proof (cases "p q")
      case True
      then have "cm_outcome q = None" using iq p by simp
      with True ok q iq show ?thesis by simp
    next
      case False
      with q iq show ?thesis by simp
    qed
  qed
  ultimately show "cmd_inv db'" using inv unfolding cmd_inv_def by simp
qed (auto simp: cmd_inv_def)

section \<open>The final rows\<close>

definition cmd_view :: "cmd_db \<Rightarrow> string \<times> string \<times> string \<Rightarrow> cmd option" where
  "cmd_view db k = List.find (\<lambda>r. task_key r = k) (cd_rows db)"

definition completed :: "cmd \<Rightarrow> bool" where
  "completed r = (cm_completed_at r \<noteq> None)"

lemma find_update_where_other:
  assumes "\<And>r. p r \<Longrightarrow> k (f r) = k r" "List.find (\<lambda>r. k r = key) rows = Some r" "\<not> p r"
  shows "List.find (\<lambda>r. k r = key) (update_where p f rows) = Some r"
  using assms(2)
proof (induction rows)
  case (Cons a rows)
  with assms(1,3) show ?case
    by (cases "k a = key") (auto simp: update_where_def)
qed simp

lemma find_append_Some: "List.find P xs = Some r \<Longrightarrow> List.find P (xs @ ys) = Some r"
  by (induction xs) (auto split: if_splits)

lemma row_step_completed:
  assumes "row_step rows rows'" "List.find (\<lambda>r. task_key r = k) rows = Some r" "completed r"
  shows "List.find (\<lambda>r. task_key r = k) rows' = Some r"
  using assms(1) unfolding row_step_def
proof (elim disjE exE conjE)
  fix p f
  assume "rows' = update_where p f rows" "keeps_keys f" "\<forall>r. p r \<longrightarrow> cm_completed_at r = None"
  with assms(2,3) show ?thesis
    by (auto simp: keeps_keys_def completed_def intro!: find_update_where_other)
next
  fix q
  assume "rows' = rows @ [q]"
  with assms(2) show ?thesis by (simp add: find_append_Some)
qed

interpretation cmds: absorbing_system cmd_init cmd_step cmd_inv cmd_view completed
proof
  show "cmd_inv s" if "cmd_init s" for s using that by (simp add: cmd_init_def cmd_inv_def)
  show "cmd_inv t" if "cmd_inv s" "cmd_step s t" for s t
    using that(1) cmd_step_rows[OF that(2)] by (rule cmd_inv_rows)
  show "cmd_view t k = Some v" if "cmd_inv s" "cmd_step s t" "cmd_view s k = Some v" "completed v" for s t k v
    unfolding cmd_view_def
    by (rule row_step_completed[OF cmd_step_rows[OF that(2)] that(3)[unfolded cmd_view_def] that(4)])
qed

section \<open>Rows over time\<close>

definition rows_kept :: "cmd_db \<Rightarrow> cmd_db \<Rightarrow> bool" where
  "rows_kept db db' \<longleftrightarrow> (\<forall>k r. cmd_view db k = Some r \<longrightarrow>
     (\<exists>r'. cmd_view db' k = Some r' \<and> cm_id r' = cm_id r \<and> cm_opkey r' = cm_opkey r \<and>
        cm_created_at r' = cm_created_at r))"

lemma cmd_view_update:
  assumes "keeps_keys f"
  shows "cmd_view (db\<lparr>cd_rows := update_where p f (cd_rows db)\<rparr>) k =
     map_option (\<lambda>r. if p r then f r else r) (cmd_view db k)"
proof -
  have "List.find (\<lambda>r. task_key r = k) (update_where p f rows) =
      map_option (\<lambda>r. if p r then f r else r) (List.find (\<lambda>r. task_key r = k) rows)" for rows
    using assms by (induction rows) (auto simp: update_where_def keeps_keys_def)
  then show ?thesis by (simp add: cmd_view_def)
qed

lemma rows_kept_step: "cmd_step db db' \<Longrightarrow> rows_kept db db'"
proof (drule cmd_step_rows, unfold row_step_def, elim disjE exE conjE)
  fix p f
  assume "cd_rows db' = update_where p f (cd_rows db)" "keeps_keys f"
  then show "rows_kept db db'"
    using cmd_view_update[of f p db]
    by (auto simp: rows_kept_def cmd_view_def keeps_keys_def cmd_key_def)
next
  fix r
  assume "cd_rows db' = cd_rows db @ [r]"
  then show "rows_kept db db'"
    by (auto simp: rows_kept_def cmd_view_def find_append_Some)
qed

lemma rows_kept_star: "cmd_step\<^sup>*\<^sup>* db db' \<Longrightarrow> cmd_inv db \<Longrightarrow> rows_kept db db'"
  by (rule cmds.star_relation[where R = rows_kept])
    (auto intro: rows_kept_step, (fastforce simp: rows_kept_def)+)

lemma select_task_view: "select_task_command tenant owner task db = cmd_view db (tenant, owner, task)"
  by (simp add: select_task_command_def cmd_view_def)

lemma enqueue_result:
  "enqueue_cancel digest now tenant owner device task runner db = Inr (r, db') \<Longrightarrow>
     cmd_view db' (tenant, owner, task) = Some r"
  by (auto simp: enqueue_cancel_def Let_def bindE_Inr_iff select_task_view split: option.splits)

lemma cmd_view_SomeD: "cmd_view db k = Some r \<Longrightarrow> r \<in> set (cd_rows db) \<and> task_key r = k"
  unfolding cmd_view_def by (rule find_SomeD)

lemma cmd_view_row:
  assumes "cmd_inv db" "r \<in> set (cd_rows db)"
  shows "cmd_view db (task_key r) = Some r"
proof -
  have "List.find (\<lambda>q. task_key q = task_key r) rows = Some r"
    if "distinct (map task_key rows)" "r \<in> set rows" for rows
    using that by (induction rows) auto
  then show ?thesis using assms by (simp add: cmd_view_def cmd_inv_def)
qed

text \<open>A completion that reports a change found the open row and closed it.\<close>

lemma completion_row:
  assumes "cmd_inv db" "mark_completed_in_transaction now c outcome db = (True, db')"
  obtains r where "r \<in> set (cd_rows db)" "cmd_key r = cmd_key c"
    "cmd_view db' (task_key r) = Some (r\<lparr>cm_outcome := Some outcome, cm_completed_at := Some now,
       cm_updated_at := now, cm_last_error := None, cm_force_remote := False\<rparr>)"
proof -
  let ?p = "\<lambda>r. cmd_key r = cmd_key c \<and> cm_completed_at r = None"
  let ?f = "\<lambda>r. r\<lparr>cm_outcome := Some outcome, cm_completed_at := Some now, cm_updated_at := now,
                cm_last_error := None, cm_force_remote := False\<rparr>"
  from assms(2) have "rowcount ?p (cd_rows db) = 1"
    and db': "db' = db\<lparr>cd_rows := update_where ?p ?f (cd_rows db)\<rparr>"
    by (simp_all add: mark_completed_in_transaction_def Let_def)
  then have "filter ?p (cd_rows db) \<noteq> []" by (auto simp: rowcount_def)
  then obtain r where r: "r \<in> set (cd_rows db)" "?p r" by (auto simp: filter_empty_conv)
  have "keeps_keys ?f" by (simp add: cmd_key_defs)
  from cmd_view_update[OF this, of ?p db "task_key r"] cmd_view_row[OF assms(1) r(1)] r(2)
  have "cmd_view db' (task_key r) = Some (?f r)" by (simp add: db')
  with r show ?thesis by (intro that[of r]) auto
qed

lemma completed_is_closed:
  assumes "cmd_inv db" "r \<in> set (cd_rows db)" "cmd_key r = cmd_key c" "completed r"
  shows "mark_completed_in_transaction now c outcome db = (False, db)"
proof -
  have open_none: "\<not> (cmd_key q = cmd_key c \<and> cm_completed_at q = None)" if "q \<in> set (cd_rows db)" for q
    using assms that distinct_map_eqD[of cmd_key "cd_rows db" q r]
    by (auto simp: cmd_inv_def completed_def)
  have "filter (\<lambda>q. cmd_key q = cmd_key c \<and> cm_completed_at q = None) (cd_rows db) = []"
    unfolding filter_empty_conv using open_none by blast
  moreover have "update_where (\<lambda>q. cmd_key q = cmd_key c \<and> cm_completed_at q = None) f (cd_rows db) = cd_rows db" for f
    unfolding update_where_def by (rule map_idI) (simp only: open_none if_False)
  ultimately show ?thesis
    by (simp add: mark_completed_in_transaction_def Let_def rowcount_def)
qed

section \<open>Properties\<close>

text \<open>
  C17.  The first outcome of a cancellation wins: after a completion that reported a
  change, the stored command carries that outcome and time for good, and every later
  completion reports that nothing changed and writes nothing, whatever was enqueued,
  attached, retried or completed in between.
\<close>

theorem first_cancel_outcome_wins:
  assumes "cmd_init db0" "cmd_step\<^sup>*\<^sup>* db0 db"
    and "cmd_mark_completed clk now c lease outcome db = Inr (True, db1)" "cmd_step\<^sup>*\<^sup>* db1 db2"
  shows "(\<exists>r \<in> set (cd_rows db2). cmd_key r = cmd_key c \<and> cm_outcome r = Some outcome \<and> cm_completed_at r = Some now)
    \<and> mark_completed_in_transaction now' c outcome' db2 = (False, db2)"
proof -
  have inv: "cmd_inv db" using assms(1,2) by (rule cmds.reachable_inv)
  have step: "cmd_step db db1" using assms(3) by (rule step_complete)
  with inv have inv1: "cmd_inv db1" by (rule cmds.inv_step)
  with assms(4) have inv2: "cmd_inv db2" by (rule cmds.inv_star)
  have closing: "mark_completed_in_transaction now c outcome db = (True, db1)"
    using assms(3) by (auto simp: cmd_mark_completed_def bindE_Inr_iff)
  from inv this obtain r where r: "cmd_key r = cmd_key c" and view: "cmd_view db1 (task_key r) =
      Some (r\<lparr>cm_outcome := Some outcome, cm_completed_at := Some now, cm_updated_at := now,
         cm_last_error := None, cm_force_remote := False\<rparr>)"
    by (rule completion_row)
  let ?r = "r\<lparr>cm_outcome := Some outcome, cm_completed_at := Some now, cm_updated_at := now,
         cm_last_error := None, cm_force_remote := False\<rparr>"
  have "cmd_view db2 (task_key r) = Some ?r"
    using assms(4) inv1 view by (rule cmds.final_star) (simp add: completed_def)
  then have row: "?r \<in> set (cd_rows db2)" by (blast dest: cmd_view_SomeD)
  have key: "cmd_key ?r = cmd_key c" using r by (simp add: cmd_key_def)
  moreover have "mark_completed_in_transaction now' c outcome' db2 = (False, db2)"
    by (rule completed_is_closed[OF inv2 row key]) (simp add: completed_def)
  ultimately show ?thesis using row by (intro conjI bexI[of _ ?r]) simp_all
qed

definition demo_digest :: "string \<Rightarrow> string" where
  "demo_digest m = rev m"

definition demo_cdb :: cmd_db where
  "demo_cdb = \<lparr>cd_rows = [], cd_tasks = [(''t'', ''o'', ''x'')],
     cd_leases = [(''t'', ''o'', ''agent'', ''x'') \<mapsto>
       \<lparr>lr_holder = ''w'', lr_fence = 1, lr_expires = 100, lr_heartbeat = 0\<rparr>]\<rparr>"

definition demo_tok :: lease_token where
  "demo_tok = \<lparr>tk_tenant = ''t'', tk_owner = ''o'', tk_kind = ''agent'', tk_resource = ''x'',
     tk_holder = ''w'', tk_fence = 1, tk_expires = 100, tk_heartbeat = 0\<rparr>"

definition demo_cmd :: cmd where
  "demo_cmd = cancel_row demo_digest 1 ''t'' ''o'' ''d'' ''x'' None"

definition demo_cdb1 :: cmd_db where
  "demo_cdb1 = snd (projr (enqueue_cancel demo_digest 1 ''t'' ''o'' ''d'' ''x'' None demo_cdb))"

definition demo_cdb2 :: cmd_db where
  "demo_cdb2 = snd (projr (cmd_mark_completed (Fin 5) 2 demo_cmd demo_tok OutCancelled demo_cdb1))"

lemma demo_enqueue: "enqueue_cancel demo_digest 1 ''t'' ''o'' ''d'' ''x'' None demo_cdb = Inr (demo_cmd, demo_cdb1)"
  unfolding demo_cdb1_def by (rule Inr_projr) code_simp

lemma demo_complete: "cmd_mark_completed (Fin 5) 2 demo_cmd demo_tok OutCancelled demo_cdb1 = Inr (True, demo_cdb2)"
  unfolding demo_cdb2_def by (rule Inr_projr) code_simp

lemma demo_cinit: "cmd_init demo_cdb"
  by (simp add: cmd_init_def demo_cdb_def)

theorem first_cancel_outcome_wins_witness:
  "mark_completed_in_transaction 9 demo_cmd OutTerminalWon demo_cdb2 = (False, demo_cdb2)"
proof -
  have "cmd_step\<^sup>*\<^sup>* demo_cdb demo_cdb1" using step_enqueue[OF demo_enqueue] by blast
  from first_cancel_outcome_wins[OF demo_cinit this demo_complete rtranclp.rtrancl_refl] show ?thesis by blast
qed

text \<open>
  Enqueueing is idempotent: a second cancellation of a task, from any device and
  after any further operations, returns the same command (identifier, operation key,
  creation time) and adds no row.
\<close>

theorem enqueue_cancel_idempotent:
  assumes "cmd_init db0" "cmd_step\<^sup>*\<^sup>* db0 db"
    and "enqueue_cancel digest now tenant owner device task runner db = Inr (r1, db1)" "cmd_step\<^sup>*\<^sup>* db1 db2"
    and "enqueue_cancel digest now' tenant owner device' task runner' db2 = Inr (r2, db3)"
  shows "cm_id r2 = cm_id r1 \<and> cm_opkey r2 = cm_opkey r1 \<and> cm_created_at r2 = cm_created_at r1 \<and>
    map cmd_key (cd_rows db3) = map cmd_key (cd_rows db2)"
proof -
  have "cmd_inv db" using assms(1,2) by (rule cmds.reachable_inv)
  with step_enqueue[OF assms(3)] have "cmd_inv db1" by (rule cmds.inv_step[rotated])
  with assms(4) have kept: "rows_kept db1 db2" by (rule rows_kept_star)
  with enqueue_result[OF assms(3)] obtain r where r: "cmd_view db2 (tenant, owner, task) = Some r"
    "cm_id r = cm_id r1" "cm_opkey r = cm_opkey r1" "cm_created_at r = cm_created_at r1"
    unfolding rows_kept_def by blast
  from rows_kept_step[OF step_enqueue[OF assms(5)]] r(1) enqueue_result[OF assms(5)]
  have "cm_id r2 = cm_id r \<and> cm_opkey r2 = cm_opkey r \<and> cm_created_at r2 = cm_created_at r"
    unfolding rows_kept_def by fastforce
  moreover have "map cmd_key (cd_rows db3) = map cmd_key (cd_rows db2)"
    unfolding enqueue_again[OF assms(5) r(1)[folded select_task_view]]
    by (rule map_update_where_id) (simp add: cmd_key_def)
  ultimately show ?thesis using r by simp
qed

definition demo_again :: "cmd \<times> cmd_db" where
  "demo_again = projr (enqueue_cancel demo_digest 7 ''t'' ''o'' ''d2'' ''x'' (Some ''r'') demo_cdb2)"

theorem enqueue_cancel_idempotent_witness:
  "cm_id (fst demo_again) = cm_id demo_cmd \<and> length (cd_rows (snd demo_again)) = 1"
proof -
  have again: "enqueue_cancel demo_digest 7 ''t'' ''o'' ''d2'' ''x'' (Some ''r'') demo_cdb2 =
      Inr (fst demo_again, snd demo_again)"
    unfolding demo_again_def by (rule Inr_projr) code_simp
  have "cmd_step\<^sup>*\<^sup>* demo_cdb1 demo_cdb2" using step_complete[OF demo_complete] by blast
  from enqueue_cancel_idempotent[OF demo_cinit rtranclp.rtrancl_refl demo_enqueue this again]
  have e: "cm_id (fst demo_again) = cm_id demo_cmd"
    "map cmd_key (cd_rows (snd demo_again)) = map cmd_key (cd_rows demo_cdb2)" by simp_all
  have "length (map cmd_key (cd_rows demo_cdb2)) = 1" by code_simp
  with e(2) have "length (map cmd_key (cd_rows (snd demo_again))) = 1" by simp
  with e(1) show ?thesis by simp
qed

text \<open>
  The due list is exact and fair: it is ordered by creation time and then identifier,
  holds only open commands of the principal whose next attempt has come, and is cut only
  by the limit, never skipping an earlier command for a later one.
\<close>

theorem due_commands_in_order:
  assumes "1 \<le> limit"
  shows "\<exists>res rest. list_due tenant owner task limit None clock db = Inr res \<and>
    sorted_wrt (lex_le cm_created_at cm_id) (res @ rest) \<and> (rest = [] \<or> length res = nat limit) \<and>
    mset (res @ rest) = mset (filter (\<lambda>r. cm_tenant r = tenant \<and> cm_owner r = owner \<and>
      cm_completed_at r = None \<and> cm_next_attempt_at r \<le> clock \<and>
      (\<forall>t. task = Some t \<longrightarrow> cm_task r = t)) (cd_rows db))"
proof -
  let ?due = "filter (\<lambda>r. cm_tenant r = tenant \<and> cm_owner r = owner \<and> cm_completed_at r = None \<and>
      cm_next_attempt_at r \<le> clock \<and> (case task of None \<Rightarrow> True | Some t \<Rightarrow> cm_task r = t)) (cd_rows db)"
  let ?all = "sort_key cm_created_at (sort_key cm_id ?due)"
  have "mset ?all = mset (filter (\<lambda>r. cm_tenant r = tenant \<and> cm_owner r = owner \<and>
      cm_completed_at r = None \<and> cm_next_attempt_at r \<le> clock \<and>
      (\<forall>t. task = Some t \<longrightarrow> cm_task r = t)) (cd_rows db))"
    by (cases task) simp_all
  moreover have "list_due tenant owner task limit None clock db = Inr (take (nat limit) ?all)"
    using assms by (simp add: list_due_def)
  moreover have "drop (nat limit) ?all = [] \<or> length (take (nat limit) ?all) = nat limit"
    by auto
  ultimately show ?thesis
    using sort_key_lex[of cm_created_at cm_id ?due]
    by (intro exI[of _ "take (nat limit) ?all"] exI[of _ "drop (nat limit) ?all"]) simp
qed

theorem due_commands_in_order_witness:
  "\<exists>res rest. list_due ''t'' ''o'' None 10 None 3 demo_cdb1 = Inr res \<and>
    sorted_wrt (lex_le cm_created_at cm_id) (res @ rest) \<and> mset (res @ rest) = {#demo_cmd#}"
proof -
  have "filter (\<lambda>r. cm_tenant r = ''t'' \<and> cm_owner r = ''o'' \<and> cm_completed_at r = None \<and>
      cm_next_attempt_at r \<le> 3) (cd_rows demo_cdb1) = [demo_cmd]"
    by code_simp
  with due_commands_in_order[where limit = 10 and clock = 3 and tenant = "''t''" and owner = "''o''"
      and task = None and db = demo_cdb1] show ?thesis by auto
qed

end
