(* ===== verification/AutoMeeting.thy ===== *)
theory AutoMeeting
  imports Prelude
begin

text \<open>
  \<open>AutoMeetingDetector\<close> (\<open>backend/app/use_cases/auto_meeting_detector.py\<close>): the state
  machine that starts and ends meetings from speaker activity.  It is pure: an
  observation, a tick or a forced end returns the events and the next state.  Times are
  seconds since the epoch; a chunk's voice duration is in milliseconds.
\<close>

section \<open>State\<close>

datatype det_kind = DStart | DEnd

record det_event =
  de_kind :: det_kind
  de_meeting :: string
  de_reason :: string

record det_cfg =
  dc_window :: rat
  dc_min_distinct :: int
  dc_min_active :: rat
  dc_unknown_min_active :: "rat option"
  dc_silence :: rat
  dc_cooldown :: rat
  dc_max_duration :: rat

record det =
  dt_window :: "(rat \<times> string \<times> int) list"
  dt_unknown :: "(rat \<times> int) list"
  dt_active :: "string option"
  dt_last_voice_at :: "rat option"
  dt_last_end_at :: "rat option"
  dt_started_at :: "rat option"
  dt_distinct_at :: "rat option"

definition det_initial :: det where
  "det_initial = \<lparr>dt_window = [], dt_unknown = [], dt_active = None, dt_last_voice_at = None,
     dt_last_end_at = None, dt_started_at = None, dt_distinct_at = None\<rparr>"

definition default_cfg :: det_cfg where
  "default_cfg = \<lparr>dc_window = 30, dc_min_distinct = 2, dc_min_active = 6, dc_unknown_min_active = None,
     dc_silence = 30, dc_cooldown = 60, dc_max_duration = 1800\<rparr>"

section \<open>Operations\<close>

definition prune_window :: "det_cfg \<Rightarrow> rat \<Rightarrow> det \<Rightarrow> det" where
  "prune_window c now d =
     d\<lparr>dt_window := filter (\<lambda>(t, _, _). now - dc_window c \<le> t) (dt_window d),
       dt_unknown := filter (\<lambda>(t, _). now - dc_window c \<le> t) (dt_unknown d)\<rparr>"

definition clear_active :: "rat \<Rightarrow> det \<Rightarrow> det" where
  "clear_active now d =
     d\<lparr>dt_window := [], dt_unknown := [], dt_active := None, dt_last_voice_at := None,
       dt_last_end_at := Some now, dt_started_at := None, dt_distinct_at := None\<rparr>"

definition det_in_cooldown :: "det_cfg \<Rightarrow> rat \<Rightarrow> det \<Rightarrow> bool" where
  "det_in_cooldown c now d = (case dt_last_end_at d of None \<Rightarrow> False | Some t \<Rightarrow> now - t < dc_cooldown c)"

definition distinct_speakers :: "det \<Rightarrow> nat" where
  "distinct_speakers d = length (remdups (map (\<lambda>(_, s, _). s) (dt_window d)))"

definition exceeds :: "rat \<Rightarrow> rat option \<Rightarrow> rat \<Rightarrow> bool" where
  "exceeds now t limit = (case t of None \<Rightarrow> False | Some x \<Rightarrow> limit < now - x)"

definition end_reason :: "det_cfg \<Rightarrow> rat \<Rightarrow> det \<Rightarrow> string option" where
  "end_reason c now d =
     (if exceeds now (dt_started_at d) (dc_max_duration c) then Some ''max_duration_exceeded''
      else if exceeds now (dt_last_voice_at d) (dc_silence c) then Some ''silence_timeout''
      else if distinct_speakers d \<le> 1 \<and> exceeds now (dt_distinct_at d) (dc_silence c / 2)
      then Some ''degenerated_to_monolog''
      else None)"

definition maybe_end_active :: "det_cfg \<Rightarrow> rat \<Rightarrow> string \<Rightarrow> det \<Rightarrow> det_event list \<times> det" where
  "maybe_end_active c now mid d =
     (case end_reason c now d of
        Some r \<Rightarrow> ([\<lparr>de_kind = DEnd, de_meeting = mid, de_reason = r\<rparr>], clear_active now d)
      | None \<Rightarrow> ([], d))"

definition adopt_active :: "det_cfg \<Rightarrow> string \<Rightarrow> rat \<Rightarrow> rat \<Rightarrow> det \<Rightarrow> det" where
  "adopt_active c mid started now d = prune_window c now
     (d\<lparr>dt_active := Some mid, dt_started_at := Some started, dt_last_voice_at := Some now,
        dt_distinct_at := Some now, dt_last_end_at := None\<rparr>)"

definition auto_id :: "rat \<Rightarrow> string" where
  "auto_id now = ''auto-'' @ show_int (py_int now)"

text \<open>Step 2 of an observation: prune, record the chunk, refresh the several-speakers time.\<close>

definition record_chunk :: "det_cfg \<Rightarrow> string option \<Rightarrow> int \<Rightarrow> rat \<Rightarrow> det \<Rightarrow> det" where
  "record_chunk c speaker dur now d =
     (let d1 = prune_window c now d;
          d2 = (if 0 < dur
                then let d' = d1\<lparr>dt_last_voice_at := Some now\<rparr> in
                  (if truthy_str speaker
                   then d'\<lparr>dt_window := dt_window d' @ [(now, the speaker, dur)]\<rparr>
                   else d'\<lparr>dt_unknown := dt_unknown d' @ [(now, dur)]\<rparr>)
                else d1)
      in if dc_min_distinct c \<le> int (distinct_speakers d2) then d2\<lparr>dt_distinct_at := Some now\<rparr> else d2)"

text \<open>Step 4: the triggers of an idle detector.\<close>

definition maybe_start :: "det_cfg \<Rightarrow> rat \<Rightarrow> det \<Rightarrow> det_event list \<times> det" where
  "maybe_start c now d =
     (let active_ms = sum_list (map (\<lambda>(_, _, x). x) (dt_window d));
          unknown_ms = sum_list (map snd (dt_unknown d))
      in if dc_min_distinct c \<le> int (distinct_speakers d) \<and> dc_min_active c * 1000 \<le> of_int active_ms
         then ([\<lparr>de_kind = DStart, de_meeting = auto_id now,
                 de_reason = ''distinct_speakers='' @ show_nat (distinct_speakers d) @ '' active_ms='' @ show_int active_ms\<rparr>],
               d\<lparr>dt_active := Some (auto_id now), dt_started_at := Some now, dt_distinct_at := Some now\<rparr>)
         else if (case dc_unknown_min_active c of None \<Rightarrow> False | Some m \<Rightarrow> m * 1000 \<le> of_int unknown_ms)
         then ([\<lparr>de_kind = DStart, de_meeting = auto_id now,
                 de_reason = ''unknown_speaker_active_ms='' @ show_int unknown_ms\<rparr>],
               d\<lparr>dt_active := Some (auto_id now), dt_started_at := Some now\<rparr>)
         else ([], d))"

definition observe ::
    "det_cfg \<Rightarrow> string option \<Rightarrow> int \<Rightarrow> rat \<Rightarrow> string option \<Rightarrow> det \<Rightarrow> det_event list \<times> det" where
  "observe c speaker dur now manual d =
     (case manual of
        Some _ \<Rightarrow>
          (let (out, d1) = (case dt_active d of
                 Some mid \<Rightarrow> ([\<lparr>de_kind = DEnd, de_meeting = mid, de_reason = ''manual_meeting_started''\<rparr>],
                              clear_active now d)
               | None \<Rightarrow> ([], d))
           in (out, if truthy_str speaker then d1\<lparr>dt_last_voice_at := Some now\<rparr> else d1))
      | None \<Rightarrow>
          (let d1 = record_chunk c speaker dur now d in
           case dt_active d1 of
             Some mid \<Rightarrow> maybe_end_active c now mid d1
           | None \<Rightarrow> if det_in_cooldown c now d1 then ([], d1) else maybe_start c now d1))"

definition enter_cooldown :: "rat \<Rightarrow> det \<Rightarrow> det" where
  "enter_cooldown now d = clear_active now d"

definition force_end :: "rat \<Rightarrow> string \<Rightarrow> det \<Rightarrow> det_event option \<times> det" where
  "force_end now reason d =
     (case dt_active d of
        None \<Rightarrow> (None, d)
      | Some mid \<Rightarrow> (Some \<lparr>de_kind = DEnd, de_meeting = mid, de_reason = reason\<rparr>, enter_cooldown now d))"

definition det_tick :: "det_cfg \<Rightarrow> rat \<Rightarrow> det \<Rightarrow> det_event list \<times> det" where
  "det_tick c now d =
     (let d1 = prune_window c now d in
      case dt_active d1 of Some mid \<Rightarrow> maybe_end_active c now mid d1 | None \<Rightarrow> ([], d1))"

definition det_reset :: "det \<Rightarrow> det" where
  "det_reset d = d\<lparr>dt_window := [], dt_unknown := [], dt_active := None, dt_last_voice_at := None,
     dt_last_end_at := None, dt_started_at := None, dt_distinct_at := None\<rparr>"

section \<open>Histories\<close>

datatype det_op = Observe "string option" int "string option" | Tick | ForceEnd string

text \<open>The events of a history of timed operations, each with its time.\<close>

fun det_apply :: "det_cfg \<Rightarrow> rat \<Rightarrow> det_op \<Rightarrow> det \<Rightarrow> det_event list \<times> det" where
  "det_apply c now (Observe sp dur manual) d = observe c sp dur now manual d"
| "det_apply c now Tick d = det_tick c now d"
| "det_apply c now (ForceEnd r) d =
     (let (ev, d') = force_end now r d in (case ev of None \<Rightarrow> [] | Some x \<Rightarrow> [x], d'))"

fun det_trace :: "det_cfg \<Rightarrow> (rat \<times> det_op) list \<Rightarrow> det \<Rightarrow> (rat \<times> det_event) list" where
  "det_trace c [] d = []"
| "det_trace c ((t, op) # ops) d =
     (let (evs, d') = det_apply c t op d in map (Pair t) evs @ det_trace c ops d')"

text \<open>
  What a consumer may rely on: starts and ends alternate, an end names the meeting that
  was started, and a start comes no sooner than the cooldown after the end before it.
\<close>

fun bracketed :: "rat \<Rightarrow> string option \<Rightarrow> rat option \<Rightarrow> (rat \<times> det_event) list \<Rightarrow> bool" where
  "bracketed cool act le [] = True"
| "bracketed cool None le ((t, e) # evs) =
     (de_kind e = DStart \<and> (\<forall>t0 \<in> set_option le. cool \<le> t - t0) \<and> bracketed cool (Some (de_meeting e)) le evs)"
| "bracketed cool (Some m) le ((t, e) # evs) =
     (de_kind e = DEnd \<and> de_meeting e = m \<and> bracketed cool None (Some t) evs)"

lemma prune_window_sel [simp]:
  "dt_active (prune_window c now d) = dt_active d"
  "dt_last_end_at (prune_window c now d) = dt_last_end_at d"
  "dt_started_at (prune_window c now d) = dt_started_at d"
  "dt_last_voice_at (prune_window c now d) = dt_last_voice_at d"
  "dt_distinct_at (prune_window c now d) = dt_distinct_at d"
  by (simp_all add: prune_window_def)

lemma clear_active_sel [simp]:
  "dt_active (clear_active now d) = None" "dt_last_end_at (clear_active now d) = Some now"
  by (simp_all add: clear_active_def)

lemma record_chunk_sel [simp]:
  "dt_active (record_chunk c sp dur now d) = dt_active d"
  "dt_last_end_at (record_chunk c sp dur now d) = dt_last_end_at d"
  "dt_started_at (record_chunk c sp dur now d) = dt_started_at d"
  by (simp_all add: record_chunk_def Let_def)

lemma maybe_start_cases:
  "maybe_start c now d = ([], d) \<or>
   (\<exists>r dis. maybe_start c now d = ([\<lparr>de_kind = DStart, de_meeting = auto_id now, de_reason = r\<rparr>],
      d\<lparr>dt_active := Some (auto_id now), dt_started_at := Some now, dt_distinct_at := dis\<rparr>))"
proof (cases "fst (maybe_start c now d)")
  case Nil
  then have "maybe_start c now d = ([], d)"
    by (auto simp: maybe_start_def Let_def split: if_splits)
  then show ?thesis ..
next
  case (Cons ev evs)
  then have "maybe_start c now d = ([\<lparr>de_kind = DStart, de_meeting = auto_id now, de_reason = de_reason ev\<rparr>],
      d\<lparr>dt_active := Some (auto_id now), dt_started_at := Some now, dt_distinct_at := dt_distinct_at (snd (maybe_start c now d))\<rparr>)"
    by (auto simp: maybe_start_def Let_def split: if_splits)
  then show ?thesis by blast
qed

text \<open>The three ways one operation changes the pair (active meeting, last end).\<close>

lemma det_apply_cases:
  obtains (quiet) d' where "det_apply c now op d = ([], d')" "dt_active d' = dt_active d"
      "dt_last_end_at d' = dt_last_end_at d"
  | (ended) d' mid r where "det_apply c now op d = ([\<lparr>de_kind = DEnd, de_meeting = mid, de_reason = r\<rparr>], d')"
      "dt_active d = Some mid" "dt_active d' = None" "dt_last_end_at d' = Some now"
  | (started) d' mid r where "det_apply c now op d = ([\<lparr>de_kind = DStart, de_meeting = mid, de_reason = r\<rparr>], d')"
      "dt_active d = None" "\<not> det_in_cooldown c now d" "dt_active d' = Some mid"
      "dt_last_end_at d' = dt_last_end_at d" "dt_started_at d' = Some now"
proof (cases op)
  case (Observe sp dur manual)
  show ?thesis
  proof (cases manual)
    case (Some m)
    with Observe quiet ended show ?thesis
      by (cases "dt_active d") (auto simp: observe_def split: if_splits)
  next
    case None
    let ?d = "record_chunk c sp dur now d"
    show ?thesis
    proof (cases "dt_active d")
      case (Some mid)
      with None Observe quiet[of "snd (observe c sp dur now None d)"] ended show ?thesis
        by (cases "end_reason c now ?d") (auto simp: observe_def maybe_end_active_def Let_def)
    next
      case act: None
      show ?thesis
      proof (cases "det_in_cooldown c now d")
        case True
        then have "det_in_cooldown c now ?d" by (simp add: det_in_cooldown_def)
        with None act Observe quiet[of ?d] show ?thesis by (simp add: observe_def Let_def)
      next
        case False
        then have "\<not> det_in_cooldown c now ?d" by (simp add: det_in_cooldown_def)
        with None act Observe have run: "det_apply c now op d = maybe_start c now ?d"
          by (simp add: observe_def Let_def)
        from maybe_start_cases[of c now ?d] show ?thesis
        proof (elim disjE exE)
          assume "maybe_start c now ?d = ([], ?d)"
          with run quiet[of ?d] show ?thesis by simp
        next
          fix r dis
          assume "maybe_start c now ?d = ([\<lparr>de_kind = DStart, de_meeting = auto_id now, de_reason = r\<rparr>],
            ?d\<lparr>dt_active := Some (auto_id now), dt_started_at := Some now, dt_distinct_at := dis\<rparr>)"
          with run show ?thesis by (rule started[OF trans]) (use act False in simp_all)
        qed
      qed
    qed
  qed
next
  case Tick
  let ?d = "prune_window c now d"
  show ?thesis
  proof (cases "dt_active d")
    case (Some mid)
    with Tick quiet[of ?d] ended show ?thesis
      by (cases "end_reason c now ?d") (auto simp: det_tick_def maybe_end_active_def Let_def)
  next
    case None
    with Tick quiet[of ?d] show ?thesis by (simp add: det_tick_def Let_def)
  qed
next
  case (ForceEnd r)
  with quiet ended show ?thesis
    by (cases "dt_active d") (auto simp: force_end_def enter_cooldown_def)
qed

fun det_run :: "det_cfg \<Rightarrow> (rat \<times> det_op) list \<Rightarrow> det \<Rightarrow> det" where
  "det_run c [] d = d"
| "det_run c ((t, op) # ops) d = det_run c ops (snd (det_apply c t op d))"

lemma det_run_append [simp]: "det_run c (xs @ ys) d = det_run c ys (det_run c xs d)"
  by (induction c xs d rule: det_run.induct) simp_all

text \<open>An active meeting has a start time, no earlier than the hard limit allows after an operation.\<close>

definition det_ok :: "det \<Rightarrow> bool" where
  "det_ok d \<longleftrightarrow> (dt_active d \<noteq> None \<longrightarrow> dt_started_at d \<noteq> None)"

lemma maybe_end_active_keeps:
  assumes "maybe_end_active c now mid d = (evs, d')" "dt_active d' \<noteq> None"
  shows "d' = d \<and> end_reason c now d = None"
  using assms by (auto simp: maybe_end_active_def split: option.splits)

lemma end_reason_None:
  "end_reason c now d = None \<Longrightarrow> \<not> exceeds now (dt_started_at d) (dc_max_duration c) \<and>
     \<not> exceeds now (dt_last_voice_at d) (dc_silence c) \<and>
     \<not> (distinct_speakers d \<le> 1 \<and> exceeds now (dt_distinct_at d) (dc_silence c / 2))"
  by (auto simp: end_reason_def split: if_splits)

lemma det_apply_active:
  assumes "det_ok d" "dt_active (snd (det_apply c now op d)) \<noteq> None"
  shows "dt_started_at (snd (det_apply c now op d)) = Some now \<or>
    end_reason c now (snd (det_apply c now op d)) = None \<and> dt_started_at (snd (det_apply c now op d)) = dt_started_at d \<and>
      dt_active d \<noteq> None"
proof (cases rule: det_apply_cases[of c now op d])
  case (quiet d')
  then have act: "dt_active d \<noteq> None" using assms(2) by simp
  show ?thesis
  proof (cases op)
    case (Observe sp dur manual)
    with act quiet(1) assms(2) show ?thesis
      by (cases manual) (auto simp: observe_def Let_def dest!: maybe_end_active_keeps split: if_splits)
  next
    case Tick
    with act quiet(1) assms(2) show ?thesis
      by (auto simp: det_tick_def Let_def dest!: maybe_end_active_keeps)
  next
    case (ForceEnd r)
    with act quiet(1) show ?thesis by (auto simp: force_end_def)
  qed
next
  case (ended d' mid r)
  with assms(2) show ?thesis by simp
next
  case (started d' mid r)
  then show ?thesis by simp
qed

lemma det_ok_apply: "det_ok d \<Longrightarrow> det_ok (snd (det_apply c now op d))"
  using det_apply_active[of d c now op] by (auto simp: det_ok_def)

lemma det_ok_run: "det_ok d \<Longrightarrow> det_ok (det_run c ops d)"
  by (induction c ops d rule: det_run.induct) (simp_all add: det_ok_apply)

section \<open>Properties\<close>


text \<open>
  No meeting outlives the limits: after any history whose last operation is at time
  \<open>now\<close>, a meeting still active started at most the maximal duration ago; and if that
  operation was a tick, the last voice is no older than the silence timeout, and a meeting
  down to one speaker had several no longer than half of it ago.
\<close>

theorem meeting_within_limits:
  assumes "0 \<le> dc_max_duration c" "d = det_run c (ops @ [(now, op)]) det_initial" "dt_active d \<noteq> None"
  shows "(\<exists>t0. dt_started_at d = Some t0 \<and> now - t0 \<le> dc_max_duration c) \<and>
    (op = Tick \<longrightarrow> \<not> exceeds now (dt_last_voice_at d) (dc_silence c) \<and>
       \<not> (distinct_speakers d \<le> 1 \<and> exceeds now (dt_distinct_at d) (dc_silence c / 2)))"
proof -
  let ?p = "det_run c ops det_initial"
  have d: "d = snd (det_apply c now op ?p)" using assms(2) by simp
  have "det_ok det_initial" by (simp add: det_ok_def det_initial_def)
  then have ok: "det_ok ?p" by (rule det_ok_run)
  then have "dt_started_at d \<noteq> None" using assms(3) d det_ok_apply[OF ok] by (simp add: det_ok_def)
  then obtain t0 where t0: "dt_started_at d = Some t0" by blast
  have "dt_started_at d = Some now \<or> end_reason c now d = None"
    using det_apply_active[OF ok, of c now op] assms(3) unfolding d by argo
  then have "now - t0 \<le> dc_max_duration c"
    using t0 assms(1) end_reason_None[of c now d] by (auto simp: exceeds_def)
  moreover have "end_reason c now d = None" if "op = Tick"
    using assms(3) that unfolding d
    by (auto simp: det_tick_def Let_def split: option.splits)
      (auto simp: maybe_end_active_def split: option.splits)
  ultimately show ?thesis using t0 end_reason_None[of c now d] by blast
qed

lemmas det_eval = observe_def record_chunk_def prune_window_def maybe_start_def maybe_end_active_def
  end_reason_def exceeds_def distinct_speakers_def det_in_cooldown_def clear_active_def det_tick_def
  det_initial_def default_cfg_def truthy_str_def

theorem meeting_within_limits_witness:
  "\<exists>t0. dt_started_at (det_run default_cfg ([(0, Observe (Some ''a'') 4000 None), (2, Observe (Some ''b'') 4000 None)]
      @ [(20, Observe (Some ''b'') 1000 None)]) det_initial) = Some t0 \<and> 20 - t0 \<le> 1800"
proof -
  have "dt_active (det_run default_cfg ([(0, Observe (Some ''a'') 4000 None), (2, Observe (Some ''b'') 4000 None)]
      @ [(20, Observe (Some ''b'') 1000 None)]) det_initial) \<noteq> None"
    by (simp add: det_eval)
  from meeting_within_limits[OF _ refl this] show ?thesis by (simp add: default_cfg_def)
qed

section \<open>Divergences\<close>

text \<open>
  A start by unknown speakers keeps the several-speakers time of before the meeting, so
  the next chunk can end the new meeting at once as a monologue.
\<close>

lemma unknown_start_ends_at_once:
  "map (\<lambda>(t, e). (t, de_kind e)) (det_trace (default_cfg\<lparr>dc_unknown_min_active := Some 5\<rparr>)
     [(0, Observe (Some ''a'') 1000 None), (1, Observe (Some ''b'') 1000 None),
      (40, Observe None 6000 None), (41, Observe None 1000 None)] det_initial) = [(40, DStart), (41, DEnd)]"
  by (simp add: det_eval)

text \<open>The documented silence rule is \<open>\<ge>\<close>, the code's is \<open>>\<close>: exactly at the timeout nothing ends.\<close>

lemma silence_at_exact_timeout:
  "map (\<lambda>(t, e). (t, de_kind e)) (det_trace (default_cfg\<lparr>dc_window := 60\<rparr>)
     [(0, Observe (Some ''a'') 4000 None), (0, Observe (Some ''b'') 4000 None), (30, Tick)] det_initial) = [(0, DStart)]"
  by (simp add: det_eval)

end
