(* ===== verification/AsrCircuit.thy ===== *)
theory AsrCircuit
  imports Systems
begin

text \<open>
  Provider selection, circuit breaker and failover of the ASR scheduler
  (\<open>backend/app/adapters/stt/scheduler.py\<close>: \<open>_ProviderState\<close>, \<open>_select_provider\<close>,
  \<open>_record_provider_success\<close>, \<open>_record_provider_failure\<close>, \<open>_execute\<close>,
  \<open>_is_state_eligible\<close>) with the errors of \<open>adapters/stt/errors.py\<close>.  Each function
  under the state lock is one atomic step on the provider states.
\<close>

section \<open>Errors\<close>

datatype asr_kind = AudioRejected | IdempotencyConflict | RateLimited | QueueFull | NoEligibleProvider
  | DeadlineExceeded | SchedulerDisabled | SchedulerShutdown | ProviderTransient | ProviderRateLimited
  | ProviderPermanent | ProviderAuth | ProviderProtocol | ProviderMidstream | LocalUnavailable | SessionCapacity

record asr_error =
  ae_kind :: asr_kind
  ae_retry_after :: "rat option"

definition asr_err :: "asr_kind \<Rightarrow> asr_error" where
  "asr_err k = \<lparr>ae_kind = k, ae_retry_after = None\<rparr>"

definition asr_err_after :: "asr_kind \<Rightarrow> rat \<Rightarrow> asr_error" where
  "asr_err_after k s = \<lparr>ae_kind = k, ae_retry_after = Some s\<rparr>"

definition retryable :: "asr_kind \<Rightarrow> bool" where
  "retryable k = (k \<in> {RateLimited, QueueFull, NoEligibleProvider, SchedulerShutdown, ProviderTransient,
     ProviderRateLimited, SessionCapacity})"

definition asr_status_code :: "asr_kind \<Rightarrow> int" where
  "asr_status_code k = (case k of AudioRejected \<Rightarrow> 422 | IdempotencyConflict \<Rightarrow> 409 | RateLimited \<Rightarrow> 429
     | DeadlineExceeded \<Rightarrow> 504 | _ \<Rightarrow> 503)"

definition asr_machine_code :: "asr_kind \<Rightarrow> string" where
  "asr_machine_code k = (case k of
       AudioRejected \<Rightarrow> ''asr_audio_rejected'' | IdempotencyConflict \<Rightarrow> ''asr_idempotency_conflict''
     | RateLimited \<Rightarrow> ''asr_rate_limited'' | QueueFull \<Rightarrow> ''asr_queue_full''
     | NoEligibleProvider \<Rightarrow> ''asr_no_eligible_provider'' | DeadlineExceeded \<Rightarrow> ''asr_deadline_exceeded''
     | SchedulerDisabled \<Rightarrow> ''asr_scheduler_disabled'' | SchedulerShutdown \<Rightarrow> ''asr_scheduler_shutdown''
     | ProviderTransient \<Rightarrow> ''asr_provider_transient'' | ProviderRateLimited \<Rightarrow> ''provider_rate_limited''
     | ProviderPermanent \<Rightarrow> ''asr_provider_unavailable'' | ProviderAuth \<Rightarrow> ''asr_provider_auth_unavailable''
     | ProviderProtocol \<Rightarrow> ''asr_provider_protocol_error'' | ProviderMidstream \<Rightarrow> ''asr_provider_midstream_failed''
     | LocalUnavailable \<Rightarrow> ''asr_local_unavailable'' | SessionCapacity \<Rightarrow> ''asr_provider_session_capacity'')"

text \<open>The \<open>Retry-After\<close> header of \<open>as_http_error\<close>, in whole seconds.\<close>

definition retry_after_header :: "asr_error \<Rightarrow> int option" where
  "retry_after_header e =
     map_option (\<lambda>s. max 1 \<lceil>min 60 (max 0 s)\<rceil>) (ae_retry_after e)"

section \<open>State\<close>

datatype circuit = Closed | Open | HalfOpen

record prov_state =
  ps_circuit :: circuit
  ps_consecutive :: nat
  ps_open_until :: "rat option"
  ps_reserved :: bool
  ps_in_flight :: nat
  ps_waiting :: nat
  ps_successes :: nat
  ps_failures :: nat

definition fresh_provider :: prov_state where
  "fresh_provider = \<lparr>ps_circuit = Closed, ps_consecutive = 0, ps_open_until = None, ps_reserved = False,
     ps_in_flight = 0, ps_waiting = 0, ps_successes = 0, ps_failures = 0\<rparr>"

record binding =
  pb_weight :: rat
  pb_max_concurrency :: nat
  pb_enabled :: bool
  pb_auth_ready :: bool

record asr_cfg =
  ac_enabled :: bool
  ac_eligible :: "string list"
  ac_max_concurrency :: nat
  ac_queue_size :: nat
  ac_job_deadline :: rat
  ac_max_attempts :: nat
  ac_failure_threshold :: nat
  ac_cooldown :: rat
  ac_scope_max :: nat
  ac_scope_rate :: nat
  ac_silence_threshold :: int
  ac_min_audio_bytes :: nat

text \<open>What \<open>__post_init__\<close> accepts.\<close>

definition asr_cfg_ok :: "asr_cfg \<Rightarrow> bool" where
  "asr_cfg_ok c \<longleftrightarrow> 1 \<le> ac_max_concurrency c \<and> 0 < ac_job_deadline c \<and> 1 \<le> ac_max_attempts c \<and>
     1 \<le> ac_failure_threshold c \<and> 0 < ac_cooldown c \<and> 1 \<le> ac_scope_max c \<and>
     0 \<le> ac_silence_threshold c \<and> ac_silence_threshold c \<le> 32767 \<and> 2 \<le> ac_min_audio_bytes c \<and>
     distinct (ac_eligible c)"

type_synonym providers = "string \<Rightarrow> binding option"
type_synonym prov_states = "string \<Rightarrow> prov_state option"

section \<open>Operations\<close>

definition usable :: "providers \<Rightarrow> string \<Rightarrow> bool" where
  "usable ps name = (case ps name of None \<Rightarrow> False | Some b \<Rightarrow> pb_enabled b \<and> pb_auth_ready b)"

definition has_configured_candidate :: "asr_cfg \<Rightarrow> providers \<Rightarrow> bool" where
  "has_configured_candidate c ps = (\<exists>name \<in> set (ac_eligible c). usable ps name)"

definition cooling :: "rat \<Rightarrow> prov_state \<Rightarrow> bool" where
  "cooling now s = (ps_circuit s = Open \<and> (case ps_open_until s of None \<Rightarrow> True | Some t \<Rightarrow> now < t))"

definition is_state_eligible :: "providers \<Rightarrow> prov_states \<Rightarrow> rat \<Rightarrow> string \<Rightarrow> bool" where
  "is_state_eligible ps st now name =
     (case st name of None \<Rightarrow> False
      | Some s \<Rightarrow> usable ps name \<and> \<not> cooling now s \<and> \<not> (ps_circuit s = HalfOpen \<and> ps_reserved s))"

definition has_eligible_candidate :: "asr_cfg \<Rightarrow> providers \<Rightarrow> prov_states \<Rightarrow> rat \<Rightarrow> bool" where
  "has_eligible_candidate c ps st now = (\<exists>name \<in> set (ac_eligible c). is_state_eligible ps st now name)"

definition cooldown_left :: "prov_states \<Rightarrow> rat \<Rightarrow> string \<Rightarrow> rat option" where
  "cooldown_left st now name =
     (case st name of None \<Rightarrow> None
      | Some s \<Rightarrow> (case ps_open_until s of None \<Rightarrow> None
          | Some t \<Rightarrow> if ps_circuit s = Open \<and> now < t then Some (max (1/10) (t - now)) else None))"

definition no_eligible_retry_after :: "asr_cfg \<Rightarrow> prov_states \<Rightarrow> rat \<Rightarrow> rat option" where
  "no_eligible_retry_after c st now =
     (case List.map_filter (cooldown_left st now) (ac_eligible c) of
        [] \<Rightarrow> None | t # ts \<Rightarrow> Some (foldl min t ts))"

text \<open>
  The selection loop: what one configured provider contributes, and what entering or
  probing the half-open state writes.
\<close>

record cand =
  ca_score :: rat
  ca_order :: nat
  ca_name :: string
  ca_binding :: binding

definition wake :: "rat \<Rightarrow> prov_state \<Rightarrow> prov_state" where
  "wake now s = (if ps_circuit s = Open then s\<lparr>ps_circuit := HalfOpen, ps_reserved := False\<rparr> else s)"

definition prov_score :: "prov_state \<Rightarrow> binding \<Rightarrow> rat" where
  "prov_score s b = of_nat (ps_in_flight s + ps_waiting s + 1) / pb_weight b"

definition weigh ::
    "providers \<Rightarrow> rat \<Rightarrow> string set \<Rightarrow> nat \<Rightarrow> string \<Rightarrow> prov_states \<Rightarrow> cand option \<times> prov_states" where
  "weigh ps now tried i name st =
     (if name \<in> tried then (None, st)
      else case (ps name, st name) of
        (Some b, Some s) \<Rightarrow>
          if \<not> pb_enabled b \<or> \<not> pb_auth_ready b \<or> cooling now s then (None, st)
          else
            (let s1 = wake now s in
             if ps_circuit s1 = HalfOpen \<and> ps_reserved s1 then (None, st(name \<mapsto> s1))
             else
               (let s2 = (if ps_circuit s1 = HalfOpen then s1\<lparr>ps_reserved := True\<rparr> else s1)
                in (Some \<lparr>ca_score = prov_score s2 b, ca_order = i, ca_name = name, ca_binding = b\<rparr>,
                    st(name \<mapsto> s2))))
      | _ \<Rightarrow> (None, st))"

fun scan :: "providers \<Rightarrow> rat \<Rightarrow> string set \<Rightarrow> nat \<Rightarrow> string list \<Rightarrow> prov_states \<Rightarrow> cand list \<times> prov_states" where
  "scan ps now tried i [] st = ([], st)"
| "scan ps now tried i (name # names) st =
     (let (x, st1) = weigh ps now tried i name st;
          (cs, st2) = scan ps now tried (Suc i) names st1
      in (case x of None \<Rightarrow> cs | Some y \<Rightarrow> y # cs, st2))"

text \<open>Python's \<open>min\<close> over the key (score, order).\<close>

fun pick_min :: "cand list \<Rightarrow> cand option" where
  "pick_min [] = None"
| "pick_min (c # cs) = (case pick_min cs of None \<Rightarrow> Some c
     | Some d \<Rightarrow> if lex_le ca_score ca_order c d then Some c else Some d)"

definition has_room :: "prov_states \<Rightarrow> cand \<Rightarrow> bool" where
  "has_room st x = (case st (ca_name x) of None \<Rightarrow> False
     | Some s \<Rightarrow> ps_in_flight s + ps_waiting s < pb_max_concurrency (ca_binding x))"

definition select_provider ::
    "asr_cfg \<Rightarrow> providers \<Rightarrow> rat \<Rightarrow> string set \<Rightarrow> prov_states \<Rightarrow> (string \<times> binding) option \<times> prov_states" where
  "select_provider c ps now tried st =
     (let (cands, st') = scan ps now tried 0 (ac_eligible c) st;
          available = filter (has_room st') cands
      in (map_option (\<lambda>x. (ca_name x, ca_binding x)) (pick_min (if available = [] then cands else available)), st'))"

definition success_update :: "prov_state \<Rightarrow> prov_state" where
  "success_update s = s\<lparr>ps_consecutive := 0, ps_circuit := Closed, ps_open_until := None,
     ps_reserved := False, ps_successes := ps_successes s + 1\<rparr>"

definition failure_update :: "asr_cfg \<Rightarrow> rat \<Rightarrow> prov_state \<Rightarrow> prov_state" where
  "failure_update c now s =
     (let s1 = s\<lparr>ps_failures := ps_failures s + 1, ps_consecutive := ps_consecutive s + 1\<rparr> in
      if ps_circuit s1 = HalfOpen \<or> ac_failure_threshold c \<le> ps_consecutive s1
      then s1\<lparr>ps_circuit := Open, ps_open_until := Some (now + ac_cooldown c), ps_reserved := False\<rparr>
      else s1)"

definition record_provider_success :: "string \<Rightarrow> prov_states \<Rightarrow> prov_states" where
  "record_provider_success name st = st(name := map_option success_update (st name))"

definition record_provider_failure :: "asr_cfg \<Rightarrow> rat \<Rightarrow> string \<Rightarrow> prov_states \<Rightarrow> prov_states" where
  "record_provider_failure c now name st = st(name := map_option (failure_update c now) (st name))"

section \<open>Selection\<close>

lemma weigh_SomeD:
  "weigh ps now tried i name st = (Some x, st') \<Longrightarrow>
     ca_name x = name \<and> name \<notin> tried \<and> ps name = Some (ca_binding x) \<and> is_state_eligible ps st now name"
  by (auto simp: weigh_def Let_def usable_def is_state_eligible_def wake_def
      split: if_splits option.splits)

text \<open>Every configured, untried and eligible provider is offered, nobody else is.\<close>

lemma weigh_eligible:
  "name \<notin> tried \<Longrightarrow> is_state_eligible ps st now name \<Longrightarrow>
     \<exists>x. fst (weigh ps now tried i name st) = Some x \<and> ca_name x = name"
  by (auto simp: weigh_def Let_def usable_def is_state_eligible_def wake_def split: if_splits option.splits)

lemma weigh_other: "n \<noteq> name \<Longrightarrow> snd (weigh ps now tried i name st) n = st n"
  by (auto simp: weigh_def Let_def split: option.splits)

lemma scan_Cons:
  "scan ps now tried i (name # names) st = (cs, st') \<longleftrightarrow>
     (\<exists>cs1. scan ps now tried (Suc i) names (snd (weigh ps now tried i name st)) = (cs1, st') \<and>
        cs = (case fst (weigh ps now tried i name st) of None \<Rightarrow> cs1 | Some y \<Rightarrow> y # cs1))"
  by (auto simp: Let_def split: prod.splits option.splits)

lemma is_state_eligible_cong: "st n = st' n \<Longrightarrow> is_state_eligible ps st now n = is_state_eligible ps st' now n"
  by (simp add: is_state_eligible_def)

lemma scan_cands:
  assumes "scan ps now tried i names st = (cs, st')" "distinct names"
  shows "set (map ca_name cs) = {n \<in> set names. n \<notin> tried \<and> is_state_eligible ps st now n} \<and>
    (\<forall>x \<in> set cs. ps (ca_name x) = Some (ca_binding x)) \<and> (\<forall>n. n \<notin> set names \<longrightarrow> st' n = st n)"
  using assms
proof (induction names arbitrary: i cs st)
  case (Cons name names)
  let ?c = "weigh ps now tried i name st"
  from Cons.prems(1) obtain cs1 where rest: "scan ps now tried (Suc i) names (snd ?c) = (cs1, st')"
    and cs: "cs = (case fst ?c of None \<Rightarrow> cs1 | Some y \<Rightarrow> y # cs1)"
    unfolding scan_Cons by blast
  have same: "snd ?c n = st n" if "n \<noteq> name" for n using that by (rule weigh_other)
  have eli: "is_state_eligible ps (snd ?c) now n = is_state_eligible ps st now n" if "n \<in> set names" for n
    using that Cons.prems(2) by (intro is_state_eligible_cong same) auto
  have ih: "set (map ca_name cs1) = {n \<in> set names. n \<notin> tried \<and> is_state_eligible ps st now n}"
    "\<forall>x \<in> set cs1. ps (ca_name x) = Some (ca_binding x)" "\<forall>n. n \<notin> set names \<longrightarrow> st' n = snd ?c n"
    using Cons.IH[OF rest] Cons.prems(2) eli by auto
  show ?case
  proof (cases "fst ?c")
    case None
    then have "\<not> (name \<notin> tried \<and> is_state_eligible ps st now name)"
      using weigh_eligible[of name tried ps st now i] by auto
    with None cs ih same show ?thesis by auto
  next
    case (Some x)
    then have "?c = (Some x, snd ?c)" by (simp add: prod_eq_iff)
    from weigh_SomeD[OF this] Some cs ih same show ?thesis by auto
  qed
qed simp

lemma pick_min_in: "pick_min cs = Some x \<Longrightarrow> x \<in> set cs"
  by (induction cs arbitrary: x) (auto split: option.splits if_splits)

lemma pick_min_None [simp]: "pick_min cs = None \<longleftrightarrow> cs = []"
  by (cases cs) (auto split: option.splits)

lemma pick_min_least: "pick_min cs = Some x \<Longrightarrow> y \<in> set cs \<Longrightarrow> ca_score x \<le> ca_score y"
proof (induction cs arbitrary: x)
  case (Cons c cs)
  show ?case
  proof (cases "pick_min cs")
    case None
    with Cons.prems show ?thesis by simp
  next
    case (Some d)
    from Cons.prems(2) Cons.IH[OF Some] have y: "y = c \<or> ca_score d \<le> ca_score y" by auto
    show ?thesis
    proof (cases "lex_le ca_score ca_order c d")
      case True
      with Cons.prems(1) Some have "x = c" by simp
      with True y show ?thesis by (auto simp: lex_le_def)
    next
      case False
      with Cons.prems(1) Some have "x = d" by simp
      with False y show ?thesis by (auto simp: lex_le_def)
    qed
  qed
qed simp

text \<open>A provider that is reserved or cooling is passed over, and its state is left alone.\<close>

definition blocked :: "rat \<Rightarrow> prov_state \<Rightarrow> bool" where
  "blocked now s \<longleftrightarrow> cooling now s \<or> ps_circuit s = HalfOpen \<and> ps_reserved s"

lemma weigh_blocked:
  assumes "st n = Some s" "blocked now s"
  shows "snd (weigh ps now tried i name st) n = Some s"
  using assms
  by (cases "name = n") (auto simp: weigh_def Let_def blocked_def wake_def cooling_def split: option.splits)

lemma scan_blocked:
  assumes "scan ps now tried i names st = (cs, st')" "st n = Some s" "blocked now s"
  shows "st' n = Some s"
  using assms(1,2)
proof (induction names arbitrary: i cs st)
  case (Cons name names)
  from Cons.prems(1) obtain cs1 where "scan ps now tried (Suc i) names (snd (weigh ps now tried i name st)) = (cs1, st')"
    unfolding scan_Cons by blast
  then show ?case by (rule Cons.IH) (rule weigh_blocked[where s = s], rule Cons.prems(2), rule assms(3))
qed simp

lemma select_provider_SomeD:
  assumes "select_provider c ps now tried st = (Some (name, b), st')" "distinct (ac_eligible c)"
  shows "name \<in> set (ac_eligible c)" "name \<notin> tried" "ps name = Some b" "is_state_eligible ps st now name"
proof -
  obtain cs where scan: "scan ps now tried 0 (ac_eligible c) st = (cs, st')"
    and pick: "\<exists>x. pick_min (if filter (has_room st') cs = [] then cs else filter (has_room st') cs) = Some x \<and>
       ca_name x = name \<and> ca_binding x = b"
    using assms(1) by (auto simp: select_provider_def Let_def split: prod.splits)
  then obtain x where x: "x \<in> set cs" "ca_name x = name" "ca_binding x = b"
    by (auto dest!: pick_min_in split: if_splits)
  with scan_cands[OF scan assms(2)] show "name \<in> set (ac_eligible c)" "name \<notin> tried" "ps name = Some b"
    "is_state_eligible ps st now name"
    by auto
qed

lemma select_provider_None_iff:
  assumes "distinct (ac_eligible c)"
  shows "fst (select_provider c ps now tried st) = None \<longleftrightarrow>
    \<not> (\<exists>n \<in> set (ac_eligible c). n \<notin> tried \<and> is_state_eligible ps st now n)"
proof -
  obtain cs st' where scan: "scan ps now tried 0 (ac_eligible c) st = (cs, st')" by fastforce
  have "fst (select_provider c ps now tried st) = None \<longleftrightarrow> cs = []"
    by (auto simp: select_provider_def scan Let_def)
  also have "\<dots> \<longleftrightarrow> set (map ca_name cs) = {}" by simp
  also have "set (map ca_name cs) = {n \<in> set (ac_eligible c). n \<notin> tried \<and> is_state_eligible ps st now n}"
    using scan_cands[OF scan assms] by blast
  finally show ?thesis by blast
qed

lemma select_provider_blocked:
  "select_provider c ps now tried st = (r, st') \<Longrightarrow> st n = Some s \<Longrightarrow> blocked now s \<Longrightarrow> st' n = Some s"
  by (auto simp: select_provider_def Let_def split: prod.splits dest: scan_blocked)

section \<open>Failover\<close>

text \<open>
  One job's \<open>_execute\<close>.  What happens around it is an argument: \<open>at_start\<close>,
  \<open>at_select\<close>, \<open>at_record\<close> are the clock readings of an attempt, \<open>at_others\<close> what the
  other jobs do to the provider states before the selection, \<open>at_during\<close> while the call
  runs, and \<open>at_call\<close> the outcome of the provider call.  A \<open>TimeoutError\<close> of the adapter
  is \<open>CallTimedOut\<close>, as \<open>wait_for\<close> makes no difference between the two; any other
  exception that is no \<open>ASRError\<close> is \<open>RaisedForeign\<close>.
\<close>

datatype 'seg call_result = Returned "'seg list" | CallTimedOut | Raised asr_error | RaisedForeign
  | BadResult | CallCancelled

record 'seg attempt_env =
  at_start :: rat
  at_select :: rat
  at_record :: rat
  at_others :: "prov_states \<Rightarrow> prov_states"
  at_during :: "prov_states \<Rightarrow> prov_states"
  at_call :: "string \<Rightarrow> 'seg call_result"

datatype 'seg exec_result = Transcript "'seg list" | Failed asr_error | Cancelled

definition as_safe_provider_error :: "'seg call_result \<Rightarrow> asr_error" where
  "as_safe_provider_error r = (case r of Raised e \<Rightarrow> e | BadResult \<Rightarrow> asr_err ProviderProtocol
     | _ \<Rightarrow> asr_err ProviderTransient)"

definition is_deadline :: "'seg call_result \<Rightarrow> bool" where
  "is_deadline r = (case r of CallTimedOut \<Rightarrow> True | Raised e \<Rightarrow> ae_kind e = DeadlineExceeded | _ \<Rightarrow> False)"

text \<open>
  The loop over the attempts: the number left, the providers tried, the last error.  It
  returns the outcome, the provider states and the providers called, in order.
\<close>

fun execute_loop ::
    "asr_cfg \<Rightarrow> providers \<Rightarrow> rat \<Rightarrow> (nat \<Rightarrow> 'seg attempt_env) \<Rightarrow> nat \<Rightarrow> nat \<Rightarrow> string set
      \<Rightarrow> asr_error option \<Rightarrow> prov_states \<Rightarrow> 'seg exec_result \<times> prov_states \<times> string list" where
  "execute_loop c ps deadline env 0 i tried lasterr st =
     (Failed (case lasterr of Some e \<Rightarrow> e | None \<Rightarrow> asr_err ProviderPermanent), st, [])"
| "execute_loop c ps deadline env (Suc n) i tried lasterr st =
     (if deadline - at_start (env i) \<le> 0 then (Failed (asr_err DeadlineExceeded), st, [])
      else
        (let (sel, st1) = select_provider c ps (at_select (env i)) tried (at_others (env i) st) in
         case sel of
           None \<Rightarrow> (Failed (case lasterr of
               Some _ \<Rightarrow> asr_err_after NoEligibleProvider 1
             | None \<Rightarrow> \<lparr>ae_kind = NoEligibleProvider,
                        ae_retry_after = no_eligible_retry_after c st1 (at_record (env i))\<rparr>), st1, [])
         | Some (name, b) \<Rightarrow>
             (let st2 = at_during (env i) st1; out = at_call (env i) name in
              case out of
                Returned segs \<Rightarrow> (Transcript segs, record_provider_success name st2, [name])
              | CallCancelled \<Rightarrow> (Cancelled, st2, [name])
              | _ \<Rightarrow>
                  (let st3 = record_provider_failure c (at_record (env i)) name st2 in
                   if is_deadline out
                   then (Failed (case out of Raised e \<Rightarrow> e | _ \<Rightarrow> asr_err DeadlineExceeded), st3, [name])
                   else
                     (let err = as_safe_provider_error out; tried1 = insert name tried in
                      if \<not> retryable (ae_kind err) then (Failed err, st3, [name])
                      else if n = 0 then (Failed err, st3, [name])
                      else
                        (let tried2 = (if length (ac_eligible c) \<le> card tried1 then {} else tried1);
                             (r, st4, called) = execute_loop c ps deadline env n (Suc i) tried2 (Some err) st3
                         in (r, st4, name # called)))))))"

definition execute ::
    "asr_cfg \<Rightarrow> providers \<Rightarrow> rat \<Rightarrow> (nat \<Rightarrow> 'seg attempt_env) \<Rightarrow> prov_states
      \<Rightarrow> 'seg exec_result \<times> prov_states \<times> string list" where
  "execute c ps deadline env st = execute_loop c ps deadline env (ac_max_attempts c) 0 {} None st"

section \<open>The scheduler's provider states under concurrent jobs\<close>

text \<open>
  Jobs select, finish, fail and are cancelled in any order; \<open>cs_calls\<close> are the provider
  calls under way.  A cancelled call records nothing, as in \<open>_execute\<close>.
\<close>

record circ_sys =
  cs_states :: prov_states
  cs_calls :: "string list"

inductive circ_step :: "asr_cfg \<Rightarrow> providers \<Rightarrow> circ_sys \<Rightarrow> circ_sys \<Rightarrow> bool" for c ps where
  circ_select: "select_provider c ps now tried (cs_states s) = (Some (n, b), st') \<Longrightarrow>
    circ_step c ps s (s\<lparr>cs_states := st', cs_calls := n # cs_calls s\<rparr>)"
| circ_none: "select_provider c ps now tried (cs_states s) = (None, st') \<Longrightarrow>
    circ_step c ps s (s\<lparr>cs_states := st'\<rparr>)"
| circ_success: "n \<in> set (cs_calls s) \<Longrightarrow>
    circ_step c ps s (s\<lparr>cs_states := record_provider_success n (cs_states s), cs_calls := remove1 n (cs_calls s)\<rparr>)"
| circ_failure: "n \<in> set (cs_calls s) \<Longrightarrow>
    circ_step c ps s (s\<lparr>cs_states := record_provider_failure c now n (cs_states s), cs_calls := remove1 n (cs_calls s)\<rparr>)"
| circ_cancel: "n \<in> set (cs_calls s) \<Longrightarrow> circ_step c ps s (s\<lparr>cs_calls := remove1 n (cs_calls s)\<rparr>)"
| circ_load: "cs_states s n = Some q \<Longrightarrow>
    circ_step c ps s (s\<lparr>cs_states := (cs_states s)(n \<mapsto> q\<lparr>ps_in_flight := f, ps_waiting := w\<rparr>)\<rparr>)"

definition circ_init :: "circ_sys \<Rightarrow> bool" where
  "circ_init s \<longleftrightarrow> cs_calls s = [] \<and> (\<forall>n q. cs_states s n = Some q \<longrightarrow> q = fresh_provider)"

text \<open>The circuit invariant of one provider.\<close>

definition circuit_ok :: "asr_cfg \<Rightarrow> prov_state \<Rightarrow> bool" where
  "circuit_ok c s \<longleftrightarrow> (ps_reserved s \<longrightarrow> ps_circuit s = HalfOpen) \<and>
     (ps_circuit s = Open \<longrightarrow> ps_open_until s \<noteq> None) \<and>
     (ps_circuit s = Closed \<longrightarrow> ps_consecutive s < ac_failure_threshold c)"

definition circ_inv :: "asr_cfg \<Rightarrow> circ_sys \<Rightarrow> bool" where
  "circ_inv c s \<longleftrightarrow> 1 \<le> ac_failure_threshold c \<longrightarrow> (\<forall>n q. cs_states s n = Some q \<longrightarrow> circuit_ok c q)"

lemma scan_pointwise:
  assumes "scan ps now tried i names st = (cs, st')" "\<And>n q. st n = Some q \<Longrightarrow> P q"
    "\<And>q. P q \<Longrightarrow> P (wake now q)" "\<And>q. P q \<Longrightarrow> ps_circuit q = HalfOpen \<Longrightarrow> P (q\<lparr>ps_reserved := True\<rparr>)"
  shows "\<forall>n q. st' n = Some q \<longrightarrow> P q"
  using assms(1,2)
proof (induction names arbitrary: i cs st)
  case (Cons name names)
  from Cons.prems(1) obtain cs1 where rest: "scan ps now tried (Suc i) names (snd (weigh ps now tried i name st)) = (cs1, st')"
    unfolding scan_Cons by blast
  have "P q" if "snd (weigh ps now tried i name st) n = Some q" for n q
    using that Cons.prems(2) assms(3,4)
    by (cases "n = name") (auto simp: weigh_def Let_def split: if_splits option.splits)
  with rest show ?case by (rule Cons.IH)
qed simp

lemma select_pointwise:
  assumes "select_provider c ps now tried st = (r, st')" "\<And>n q. st n = Some q \<Longrightarrow> P q"
    "\<And>q. P q \<Longrightarrow> P (wake now q)" "\<And>q. P q \<Longrightarrow> ps_circuit q = HalfOpen \<Longrightarrow> P (q\<lparr>ps_reserved := True\<rparr>)"
  shows "st' n = Some q \<Longrightarrow> P q"
proof -
  obtain cs where "scan ps now tried 0 (ac_eligible c) st = (cs, st')"
    using assms(1) by (auto simp: select_provider_def Let_def split: prod.splits)
  then have "\<forall>n q. st' n = Some q \<longrightarrow> P q"
    by (rule scan_pointwise[where P = P]) (fact assms(2-4))+
  then show "st' n = Some q \<Longrightarrow> P q" by blast
qed

lemma circuit_ok_updates:
  assumes "1 \<le> ac_failure_threshold c"
  shows "circuit_ok c s \<Longrightarrow> circuit_ok c (wake now s)"
    "circuit_ok c s \<Longrightarrow> ps_circuit s = HalfOpen \<Longrightarrow> circuit_ok c (s\<lparr>ps_reserved := True\<rparr>)"
    "circuit_ok c (success_update s)"
    "circuit_ok c s \<Longrightarrow> circuit_ok c (failure_update c now s)"
    "circuit_ok c s \<Longrightarrow> circuit_ok c (s\<lparr>ps_in_flight := f, ps_waiting := w\<rparr>)"
  using assms by (auto simp: circuit_ok_def wake_def success_update_def failure_update_def Let_def)

lemma pointwise_upd:
  assumes "(st(n := map_option f (st n))) m = Some q" "\<And>n q. st n = Some q \<Longrightarrow> P q" "\<And>q. P q \<Longrightarrow> P (f q)"
  shows "P q"
  using assms(1) by (cases "m = n") (auto intro: assms(2,3))

interpretation circ: invariant_system circ_init "circ_step c ps" "circ_inv c" for c ps
proof
  show "circ_inv c s" if "circ_init s" for s
  proof -
    have "circuit_ok c fresh_provider" if "1 \<le> ac_failure_threshold c"
      using that by (simp add: circuit_ok_def fresh_provider_def)
    then show ?thesis using that unfolding circ_inv_def circ_init_def by blast
  qed
  show "circ_inv c t" if inv: "circ_inv c s" and step: "circ_step c ps s t" for s t
  proof (cases "1 \<le> ac_failure_threshold c")
    case False
    then show ?thesis by (simp add: circ_inv_def)
  next
    case True
    with inv have ok: "\<And>n q. cs_states s n = Some q \<Longrightarrow> circuit_ok c q" by (simp add: circ_inv_def)
    note upd = circuit_ok_updates[OF True]
    from step show ?thesis
    proof cases
      case (circ_select now tried n b st')
      have "circuit_ok c q" if "cs_states t m = Some q" for m q
        by (rule select_pointwise[where P = "circuit_ok c", OF circ_select(2) ok upd(1,2)])
          (use that circ_select(1) in simp_all)
      then show ?thesis by (simp add: circ_inv_def)
    next
      case (circ_none now tried st')
      have "circuit_ok c q" if "cs_states t m = Some q" for m q
        by (rule select_pointwise[where P = "circuit_ok c", OF circ_none(2) ok upd(1,2)])
          (use that circ_none(1) in simp_all)
      then show ?thesis by (simp add: circ_inv_def)
    next
      case (circ_success n)
      have "circuit_ok c q" if "cs_states t m = Some q" for m q
      proof -
        from that circ_success(1) have "((cs_states s)(n := map_option success_update (cs_states s n))) m = Some q"
          by (simp add: record_provider_success_def del: fun_upd_apply)
        then show ?thesis by (rule pointwise_upd[where P = "circuit_ok c"]) (rule ok, assumption, rule upd(3), assumption?)
      qed
      then show ?thesis by (simp add: circ_inv_def)
    next
      case (circ_failure n now)
      have "circuit_ok c q" if "cs_states t m = Some q" for m q
      proof -
        from that circ_failure(1) have "((cs_states s)(n := map_option (failure_update c now) (cs_states s n))) m = Some q"
          by (simp add: record_provider_failure_def del: fun_upd_apply)
        then show ?thesis by (rule pointwise_upd[where P = "circuit_ok c"]) (rule ok, assumption, rule upd(4), assumption?)
      qed
      then show ?thesis by (simp add: circ_inv_def)
    next
      case (circ_cancel n)
      then show ?thesis using ok by (simp add: circ_inv_def)
    next
      case (circ_load n q f w)
      have "circuit_ok c p" if "cs_states t m = Some p" for m p
        using that ok[OF circ_load(2)] ok[of m p] upd(5)[of q f w] unfolding circ_load(1)
        by (cases "m = n") simp_all
      then show ?thesis by (simp add: circ_inv_def)
    qed
  qed
qed

section \<open>A reserved probe that nobody runs\<close>

definition stuck :: "string \<Rightarrow> circ_sys \<Rightarrow> bool" where
  "stuck n s \<longleftrightarrow> (\<exists>q. cs_states s n = Some q \<and> ps_circuit q = HalfOpen \<and> ps_reserved q) \<and> n \<notin> set (cs_calls s)"

lemma eligible_not_blocked: "is_state_eligible ps st now n \<Longrightarrow> st n = Some q \<Longrightarrow> \<not> blocked now q"
  by (auto simp: is_state_eligible_def blocked_def)

lemma stuck_blocked: "stuck n s \<Longrightarrow> \<exists>q. cs_states s n = Some q \<and> blocked now q"
  by (auto simp: stuck_def blocked_def)

lemma stuck_step:
  assumes "circ_step c ps s t" "stuck n s" "distinct (ac_eligible c)"
  shows "stuck n t"
proof -
  from assms(2) obtain q where q: "cs_states s n = Some q" "ps_circuit q = HalfOpen" "ps_reserved q"
    and calls: "n \<notin> set (cs_calls s)" by (auto simp: stuck_def)
  have blk: "blocked now q" for now using q by (simp add: blocked_def)
  from assms(1) show ?thesis
  proof cases
    case (circ_select now tried m b st')
    have "m \<noteq> n"
      using select_provider_SomeD(4)[OF circ_select(2) assms(3)] eligible_not_blocked q(1) blk by blast
    moreover have "st' n = Some q" by (rule select_provider_blocked[OF circ_select(2) q(1) blk])
    ultimately show ?thesis using circ_select(1) q calls by (simp add: stuck_def)
  next
    case (circ_none now tried st')
    have "st' n = Some q" by (rule select_provider_blocked[OF circ_none(2) q(1) blk])
    with circ_none(1) q calls show ?thesis by (simp add: stuck_def)
  next
    case (circ_success m)
    with calls have "m \<noteq> n" by blast
    with circ_success(1) q calls show ?thesis
      by (auto simp: stuck_def record_provider_success_def dest: notin_set_remove1)
  next
    case (circ_failure m now)
    with calls have "m \<noteq> n" by blast
    with circ_failure(1) q calls show ?thesis
      by (auto simp: stuck_def record_provider_failure_def dest: notin_set_remove1)
  next
    case (circ_cancel m)
    with q calls show ?thesis by (auto simp: stuck_def dest: notin_set_remove1)
  next
    case (circ_load m p f w)
    with q calls show ?thesis by (auto simp: stuck_def)
  qed
qed

section \<open>Properties\<close>

text \<open>
  One attempt of the loop: it ends before or with a call, or it is a retryable failure and
  the loop goes on.
\<close>

definition next_tried :: "asr_cfg \<Rightarrow> string \<Rightarrow> string set \<Rightarrow> string set" where
  "next_tried c name tried =
     (if length (ac_eligible c) \<le> card (insert name tried) then {} else insert name tried)"

lemma execute_loop_Suc:
  assumes "execute_loop c ps dl env (Suc n) i tried le st = (r, st', called)" "distinct (ac_eligible c)"
  obtains (none) e where "called = []" "r = Failed e"
  | (final) name where "called = [name]" "name \<in> set (ac_eligible c)" "name \<notin> tried" "usable ps name"
      "\<And>segs. r = Transcript segs \<longleftrightarrow> at_call (env i) name = Returned segs"
  | (again) name rest err st3 where "called = name # rest" "name \<in> set (ac_eligible c)" "name \<notin> tried" "usable ps name"
      "0 < n" "err = as_safe_provider_error (at_call (env i) name)" "retryable (ae_kind err)"
      "\<And>segs. at_call (env i) name \<noteq> Returned segs"
      "execute_loop c ps dl env n (Suc i) (next_tried c name tried) (Some err) st3 = (r, st', rest)"
proof -
  let ?sel = "select_provider c ps (at_select (env i)) tried (at_others (env i) st)"
  show ?thesis
  proof (cases "dl - at_start (env i) \<le> 0")
    case True
    with assms(1) show ?thesis by (intro none) auto
  next
    case live: False
    obtain sel st1 where sel: "?sel = (sel, st1)" by fastforce
    show ?thesis
    proof (cases sel)
      case None
      with assms(1) live sel show ?thesis by (intro none) auto
    next
      case (Some nb)
      obtain name b where nb: "nb = (name, b)" by fastforce
      note s = select_provider_SomeD[OF sel[unfolded Some nb] assms(2)]
      have us: "usable ps name" using s(4) by (auto simp: is_state_eligible_def split: option.splits)
      let ?out = "at_call (env i) name"
      let ?err = "as_safe_provider_error ?out"
      show ?thesis
      proof (cases "(\<exists>segs. ?out = Returned segs) \<or> ?out = CallCancelled \<or> is_deadline ?out \<or>
          \<not> retryable (ae_kind ?err) \<or> n = 0")
        case True
        with assms(1) live sel Some nb have "called = [name] \<and> (\<forall>segs. r = Transcript segs \<longleftrightarrow> ?out = Returned segs)"
          by (auto simp: Let_def is_deadline_def split: call_result.splits if_splits prod.splits)
        with s us show ?thesis by (intro final[of name]) auto
      next
        case False
        let ?st3 = "record_provider_failure c (at_record (env i)) name (at_during (env i) st1)"
        obtain r1 st4 rest where rec: "execute_loop c ps dl env n (Suc i) (next_tried c name tried) (Some ?err) ?st3 =
            (r1, st4, rest)"
          by (cases "execute_loop c ps dl env n (Suc i) (next_tried c name tried) (Some ?err) ?st3")
        from False assms(1) live sel Some nb rec have "called = name # rest \<and> r = r1 \<and> st' = st4"
          by (cases ?out) (simp_all add: Let_def next_tried_def is_deadline_def as_safe_provider_error_def split: if_splits)
        with False s us rec show ?thesis by (intro again[of name rest ?err ?st3]) auto
      qed
    qed
  qed
qed

lemma execute_loop_calls:
  assumes "execute_loop c ps dl env n i tried le st = (r, st', called)" "distinct (ac_eligible c)"
  shows "length called \<le> n \<and> (\<forall>name \<in> set called. name \<in> set (ac_eligible c) \<and> usable ps name) \<and>
    (\<forall>segs. r = Transcript segs \<longrightarrow> called \<noteq> [] \<and>
       at_call (env (i + length called - 1)) (last called) = Returned segs) \<and>
    (\<forall>j. Suc j < length called \<longrightarrow>
       retryable (ae_kind (as_safe_provider_error (at_call (env (i + j)) (called ! j)))))"
  using assms(1)
proof (induction n arbitrary: i tried le st called)
  case 0
  then show ?case by auto
next
  case (Suc n)
  from Suc.prems assms(2) show ?case
  proof (cases rule: execute_loop_Suc)
    case (none e)
    then show ?thesis by simp
  next
    case (final name)
    then show ?thesis by simp
  next
    case (again name rest err st3)
    note ih = Suc.IH[OF again(9)]
    have "at_call (env (i + length called - 1)) (last called) = Returned segs \<and> called \<noteq> []" if "r = Transcript segs" for segs
      using ih that again(1) by auto
    moreover have "retryable (ae_kind (as_safe_provider_error (at_call (env (i + j)) (called ! j))))"
      if "Suc j < length called" for j
      using that ih again(1,6,7) by (cases j) auto
    ultimately show ?thesis using ih again(1-4) by auto
  qed
qed

lemma execute_loop_distinct:
  assumes "execute_loop c ps dl env n i tried le st = (r, st', called)" "distinct (ac_eligible c)"
    "tried \<subseteq> set (ac_eligible c)" "card tried < length (ac_eligible c)"
  shows "distinct (take (length (ac_eligible c) - card tried) called) \<and>
    set (take (length (ac_eligible c) - card tried) called) \<inter> tried = {}"
  using assms(1,3,4)
proof (induction n arbitrary: i tried le st called)
  case 0
  then show ?case by auto
next
  case (Suc n)
  let ?L = "length (ac_eligible c)"
  from Suc.prems(1) assms(2) show ?case
  proof (cases rule: execute_loop_Suc)
    case (none e)
    then show ?thesis by simp
  next
    case (final name)
    then show ?thesis by (auto dest: in_set_takeD)
  next
    case (again name rest err st3)
    have fin: "finite tried" using Suc.prems(2) finite_subset by blast
    then have card: "card (insert name tried) = Suc (card tried)" using again(3) by simp
    show ?thesis
    proof (cases "?L \<le> card (insert name tried)")
      case True
      with card Suc.prems(3) have "?L - card tried = 1" by simp
      with again(1,3) show ?thesis by simp
    next
      case False
      then have "next_tried c name tried = insert name tried" by (simp add: next_tried_def)
      with Suc.IH[OF again(9)] False again(2) Suc.prems(2)
      have ih: "distinct (take (?L - card (insert name tried)) rest) \<and>
          set (take (?L - card (insert name tried)) rest) \<inter> insert name tried = {}"
        by simp
      have "?L - card tried = Suc (?L - card (insert name tried))" using False card by simp
      with ih again(1,3) show ?thesis by auto
    qed
  qed
qed

text \<open>
  C22.  Failover is bounded and fair: a job calls at most \<open>max_attempts\<close> providers, each of
  them configured, enabled and ready; no provider is called twice before every configured
  one has been; only retryable errors lead to another call; and a transcript is the answer
  of the last provider called.
\<close>

theorem failover_bounded:
  assumes "asr_cfg_ok c" "execute c ps deadline env st = (r, st', called)"
  shows "length called \<le> ac_max_attempts c \<and>
    (\<forall>name \<in> set called. name \<in> set (ac_eligible c) \<and> usable ps name) \<and>
    distinct (take (length (ac_eligible c)) called) \<and>
    (\<forall>j. Suc j < length called \<longrightarrow> retryable (ae_kind (as_safe_provider_error (at_call (env j) (called ! j))))) \<and>
    (\<forall>segs. r = Transcript segs \<longrightarrow> called \<noteq> [] \<and> at_call (env (length called - 1)) (last called) = Returned segs)"
proof -
  have dist: "distinct (ac_eligible c)" using assms(1) by (simp add: asr_cfg_ok_def)
  note run = assms(2)[unfolded execute_def]
  note calls = execute_loop_calls[OF run dist]
  have "distinct (take (length (ac_eligible c)) called)"
  proof (cases "ac_eligible c")
    case Nil
    then show ?thesis by simp
  next
    case (Cons a as)
    then show ?thesis using execute_loop_distinct[OF run dist] by simp
  qed
  with calls show ?thesis by simp
qed

definition demo_cfg :: asr_cfg where
  "demo_cfg = \<lparr>ac_enabled = True, ac_eligible = [''a'', ''b''], ac_max_concurrency = 1, ac_queue_size = 1,
     ac_job_deadline = 30, ac_max_attempts = 2, ac_failure_threshold = 1, ac_cooldown = 15, ac_scope_max = 2,
     ac_scope_rate = 60, ac_silence_threshold = 0, ac_min_audio_bytes = 2\<rparr>"

definition demo_providers :: providers where
  "demo_providers = [''a'' \<mapsto> \<lparr>pb_weight = 1, pb_max_concurrency = 1, pb_enabled = True, pb_auth_ready = True\<rparr>,
     ''b'' \<mapsto> \<lparr>pb_weight = 1, pb_max_concurrency = 1, pb_enabled = True, pb_auth_ready = True\<rparr>]"

definition demo_states :: prov_states where
  "demo_states = [''a'' \<mapsto> fresh_provider, ''b'' \<mapsto> fresh_provider]"

text \<open>Provider \<open>a\<close> fails once with a transient error, provider \<open>b\<close> answers.\<close>

definition demo_attempts :: "nat \<Rightarrow> nat attempt_env" where
  "demo_attempts i = \<lparr>at_start = of_nat i, at_select = of_nat i, at_record = of_nat i, at_others = id, at_during = id,
     at_call = (\<lambda>name. if name = ''a'' then Raised (asr_err ProviderTransient) else Returned [7])\<rparr>"

lemma demo_cfg_ok: "asr_cfg_ok demo_cfg"
  by (simp add: asr_cfg_ok_def demo_cfg_def)

lemmas demo_asr_defs = demo_cfg_def demo_providers_def demo_states_def demo_attempts_def fresh_provider_def
  select_provider_def scan.simps weigh_def wake_def cooling_def prov_score_def has_room_def lex_le_def
  record_provider_failure_def record_provider_success_def failure_update_def success_update_def

theorem failover_bounded_witness:
  "distinct (snd (snd (execute demo_cfg demo_providers 30 demo_attempts demo_states))) \<and>
   fst (execute demo_cfg demo_providers 30 demo_attempts demo_states) = Transcript [7]"
proof -
  obtain st' where run: "execute demo_cfg demo_providers 30 demo_attempts demo_states =
      (Transcript [7], st', [''a'', ''b''])"
    by (simp add: execute_def demo_asr_defs Let_def is_deadline_def as_safe_provider_error_def asr_err_def
        retryable_def numeral_2_eq_2)
  from failover_bounded[OF demo_cfg_ok run] have "distinct (take 2 [''a'', ''b''])"
    by (simp add: demo_cfg_def)
  with run show ?thesis by simp
qed

text \<open>
  The breaker opens and holds: a failure that reaches the threshold, or any failure of
  a half-open provider, takes the provider out of selection until the cooldown has passed,
  and selections before that leave it open.
\<close>

theorem tripped_circuit_holds:
  assumes "asr_cfg_ok c" "st name = Some s"
    and "ps_circuit s = HalfOpen \<or> ac_failure_threshold c \<le> ps_consecutive s + 1"
    and "now' < now + ac_cooldown c"
    and "select_provider c ps now' tried (record_provider_failure c now name st) = (sel, st')"
  shows "(\<forall>b. sel \<noteq> Some (name, b)) \<and>
    (\<exists>q. st' name = Some q \<and> ps_circuit q = Open \<and> ps_open_until q = Some (now + ac_cooldown c))"
proof -
  let ?q = "failure_update c now s"
  have q: "record_provider_failure c now name st name = Some ?q"
    using assms(2) by (simp add: record_provider_failure_def)
  have open_q: "ps_circuit ?q = Open \<and> ps_open_until ?q = Some (now + ac_cooldown c)"
    using assms(3) by (auto simp: failure_update_def Let_def)
  then have blk: "blocked now' ?q" using assms(4) by (simp add: blocked_def cooling_def)
  have "st' name = Some ?q"
    by (rule select_provider_blocked[where s = ?q], rule assms(5), rule q, rule blk)
  moreover have "\<not> is_state_eligible ps (record_provider_failure c now name st) now' name"
    using eligible_not_blocked[where q = ?q] q blk by blast
  then have "sel \<noteq> Some (name, b)" for b
    using select_provider_SomeD(4) assms(1,5) by (auto simp: asr_cfg_ok_def)
  ultimately show ?thesis using open_q by blast
qed

theorem tripped_circuit_holds_witness:
  "\<exists>q. snd (select_provider demo_cfg demo_providers 10 {} (record_provider_failure demo_cfg 5 ''a'' demo_states)) ''a'' =
     Some q \<and> ps_circuit q = Open \<and> ps_open_until q = Some 20"
proof -
  let ?r = "select_provider demo_cfg demo_providers 10 {} (record_provider_failure demo_cfg 5 ''a'' demo_states)"
  have "demo_states ''a'' = Some fresh_provider" by (simp add: demo_states_def)
  from tripped_circuit_holds[OF demo_cfg_ok, of demo_states "''a''" fresh_provider, OF this, where sel = "fst ?r" and st' = "snd ?r" and now = 5 and now' = 10
      and tried = "{}" and ps = demo_providers]
  show ?thesis by (simp add: demo_cfg_def)
qed

text \<open>
  A probe reservation that no call holds is never released: once a provider is
  half-open and reserved while no call to it is under way (its probe was cancelled, or the
  selection loop reserved it and then chose another provider), then whatever selections,
  successes, failures and cancellations follow, it stays so, and it is not eligible at any
  later time.
\<close>

theorem leaked_probe_blocks_forever:
  assumes "asr_cfg_ok c" "(circ_step c ps)\<^sup>*\<^sup>* s t"
    and "cs_states s n = Some q" "ps_circuit q = HalfOpen" "ps_reserved q" "n \<notin> set (cs_calls s)"
  shows "\<not> is_state_eligible ps (cs_states t) now n \<and> n \<notin> set (cs_calls t)"
proof -
  have "stuck n s" using assms(3-6) by (simp add: stuck_def)
  with assms(2) have "stuck n t"
    by (induction rule: rtranclp_induct) (use assms(1) in \<open>auto simp: asr_cfg_ok_def intro: stuck_step\<close>)
  then show ?thesis
    using stuck_blocked[of n t] eligible_not_blocked[of ps "cs_states t" now n]
    by (auto simp: stuck_def is_state_eligible_def)
qed

text \<open>Both providers' cooldowns have passed; one selection reserves both and calls one.\<close>

definition demo_half :: circ_sys where
  "demo_half = (let q = fresh_provider\<lparr>ps_circuit := Open, ps_open_until := Some 10\<rparr>;
      (sel, st) = select_provider demo_cfg demo_providers 20 {} [''a'' \<mapsto> q, ''b'' \<mapsto> q]
    in \<lparr>cs_states = st, cs_calls = [fst (the sel)]\<rparr>)"

theorem leaked_probe_blocks_forever_witness:
  "cs_calls demo_half = [''a''] \<and>
   {(t, now). (circ_step demo_cfg demo_providers)\<^sup>*\<^sup>* demo_half t \<and>
      is_state_eligible demo_providers (cs_states t) now ''b''} = {}"
proof -
  have half: "cs_calls demo_half = [''a'']" "\<exists>q. cs_states demo_half ''b'' = Some q \<and> ps_circuit q = HalfOpen \<and> ps_reserved q"
    by (simp_all add: demo_half_def demo_asr_defs Let_def)
  then obtain q where "cs_states demo_half ''b'' = Some q" "ps_circuit q = HalfOpen" "ps_reserved q" by blast
  moreover have "''b'' \<notin> set (cs_calls demo_half)" using half(1) by simp
  ultimately show ?thesis
    using leaked_probe_blocks_forever[OF demo_cfg_ok, of demo_providers demo_half _ "''b''" q] half(1) by blast
qed

end
