(* ===== verification/AsrAdmission.thy ===== *)
theory AsrAdmission
  imports AsrCircuit "HOL-Library.Word" "HOL-Library.Multiset"
begin

text \<open>
  Admission of the ASR scheduler (\<open>adapters/stt/scheduler.py\<close>: \<open>_admit\<close>,
  \<open>_enqueue_admitted_job\<close>, \<open>_next_job\<close>, the head of \<open>_worker_loop\<close>, \<open>_finish_job\<close>,
  \<open>_fail_queued_jobs\<close>, the idempotency records) and the scope key of
  \<open>adapters/stt/contracts.py\<close>.  Every function that the code runs under the state lock
  is one atomic step; the request fingerprint (a SHA-256 digest of the canonical request)
  is an argument.  A job is known by a number, which also names its future.
\<close>

section \<open>Requests\<close>

definition is_space :: "char \<Rightarrow> bool" where
  "is_space ch = (ch \<in> {CHR 0x20, CHR 0x09, CHR 0x0A, CHR 0x0B, CHR 0x0C, CHR 0x0D})"

definition strip :: "string \<Rightarrow> string" where
  "strip s = rev (dropWhile is_space (rev (dropWhile is_space s)))"

type_synonym scope_key = "string \<times> string \<times> string"

definition scope_part :: "string option \<Rightarrow> string \<Rightarrow> string" where
  "scope_part v unknown = (if truthy_str v then strip (the v) else unknown)"

record asr_request =
  rq_tenant :: "string option"
  rq_principal :: "string option"
  rq_device :: "string option"
  rq_idempotency_key :: "string option"
  rq_deadline :: "rat option"

definition scope_key :: "asr_request \<Rightarrow> scope_key" where
  "scope_key r = (scope_part (rq_tenant r) ''unknown-tenant'', scope_part (rq_principal r) ''unknown-principal'',
     scope_part (rq_device r) ''unknown-device'')"

text \<open>PCM16 little endian: the samples of an audio buffer, and the silence gate.\<close>

fun pcm16 :: "8 word list \<Rightarrow> int list" where
  "pcm16 (lo # hi # bs) = sint (word_cat hi lo :: 16 word) # pcm16 bs"
| "pcm16 _ = []"

definition audio_is_admissible :: "asr_cfg \<Rightarrow> 8 word list \<Rightarrow> bool" where
  "audio_is_admissible c bs =
     (if length bs < ac_min_audio_bytes c then False
      else if ac_silence_threshold c = 0 \<or> odd (length bs) then (\<exists>b \<in> set bs. b \<noteq> 0)
      else (\<exists>x \<in> set (pcm16 bs). ac_silence_threshold c < \<bar>x\<bar>))"

section \<open>State\<close>

record job =
  jb_id :: nat
  jb_scope :: scope_key
  jb_deadline_at :: rat
  jb_accepted_at :: rat

datatype future = FPending | FResult | FError asr_error | FCancelled

record scope_state =
  sc_in_flight :: nat
  sc_times :: "rat list"

record idem_rec =
  ir_fingerprint :: string
  ir_expires :: rat
  ir_job :: nat

record sched =
  sd_closing :: bool
  sd_accepted :: nat
  sd_active :: nat
  sd_reserved :: nat
  sd_dispatch :: "job list"
  sd_queue :: "job list"
  sd_taken :: "(job \<times> bool) list"
  sd_running :: "job list"
  sd_scopes :: "scope_key \<Rightarrow> scope_state option"
  sd_idem :: "(scope_key \<times> string) \<Rightarrow> idem_rec option"
  sd_futures :: "nat \<Rightarrow> future"
  sd_next :: nat
  sd_rejected :: nat
  sd_accepted_total :: nat
  sd_completed :: nat
  sd_failed :: nat
  sd_clock :: rat

definition sched_init :: "sched \<Rightarrow> bool" where
  "sched_init s \<longleftrightarrow> \<not> sd_closing s \<and> sd_accepted s = 0 \<and> sd_active s = 0 \<and> sd_reserved s = 0 \<and>
     sd_dispatch s = [] \<and> sd_queue s = [] \<and> sd_taken s = [] \<and> sd_running s = [] \<and>
     sd_scopes s = Map.empty \<and> sd_idem s = Map.empty"

section \<open>Operations\<close>

definition capacity :: "asr_cfg \<Rightarrow> nat" where
  "capacity c = ac_max_concurrency c + ac_queue_size c"

definition prune_idempotency :: "rat \<Rightarrow> sched \<Rightarrow> sched" where
  "prune_idempotency now s = s\<lparr>sd_idem := (\<lambda>k. case sd_idem s k of None \<Rightarrow> None
     | Some r \<Rightarrow> if ir_expires r \<le> now then None else Some r)\<rparr>"

definition prune_scope :: "rat \<Rightarrow> scope_state \<Rightarrow> scope_state" where
  "prune_scope now q = q\<lparr>sc_times := dropWhile (\<lambda>t. 60 \<le> now - t) (sc_times q)\<rparr>"

definition reject :: "asr_error \<Rightarrow> sched \<Rightarrow> (asr_error + 'a) \<times> sched" where
  "reject e s = (Inl e, s\<lparr>sd_rejected := sd_rejected s + 1\<rparr>)"

text \<open>An admitted job with its owner, or the job of an earlier request with the same key.\<close>

datatype admitted = OwnJob job | Shared nat

definition enqueue_admitted_job ::
    "asr_cfg \<Rightarrow> rat \<Rightarrow> job \<Rightarrow> scope_state \<Rightarrow> string option \<Rightarrow> string \<Rightarrow> sched \<Rightarrow> (asr_error + admitted) \<times> sched" where
  "enqueue_admitted_job c now j q ikey fp s =
     (let running = sd_active s + sd_reserved s;
          placed =
            (if running < ac_max_concurrency c
             then (if length (sd_dispatch s) < ac_max_concurrency c
                   then Some (s\<lparr>sd_dispatch := sd_dispatch s @ [j], sd_reserved := sd_reserved s + 1\<rparr>) else None)
             else (if length (sd_queue s) < max 1 (ac_queue_size c)
                   then Some (s\<lparr>sd_queue := sd_queue s @ [j]\<rparr>) else None))
      in case placed of
           None \<Rightarrow> reject (asr_err_after QueueFull 1) s
         | Some s1 \<Rightarrow>
             (Inr (OwnJob j),
              s1\<lparr>sd_accepted := sd_accepted s1 + 1,
                 sd_scopes := (sd_scopes s1)(jb_scope j \<mapsto>
                   q\<lparr>sc_in_flight := sc_in_flight q + 1, sc_times := sc_times q @ [now]\<rparr>),
                 sd_idem := (case ikey of None \<Rightarrow> sd_idem s1
                   | Some k \<Rightarrow> (sd_idem s1)((jb_scope j, k) \<mapsto>
                       \<lparr>ir_fingerprint = fp, ir_expires = now + max 60 (ac_job_deadline c * 4), ir_job = jb_id j\<rparr>)),
                 sd_accepted_total := sd_accepted_total s1 + 1\<rparr>))"

text \<open>The quota and capacity checks, on the request's scope \<open>q\<close>, and the enqueue.\<close>

definition admit_scoped ::
    "asr_cfg \<Rightarrow> rat \<Rightarrow> asr_request \<Rightarrow> string \<Rightarrow> scope_state \<Rightarrow> sched \<Rightarrow> (asr_error + admitted) \<times> sched" where
  "admit_scoped c now rq fp q s =
     (if ac_scope_max c \<le> sc_in_flight q then reject (asr_err_after RateLimited 1) s
      else if 0 < ac_scope_rate c \<and> ac_scope_rate c \<le> length (sc_times q)
      then reject (asr_err_after RateLimited (max 1 (60 - (now - hd (sc_times q))))) s
      else if capacity c \<le> sd_accepted s then reject (asr_err_after QueueFull 1) s
      else
        (let limit = (case rq_deadline rq of None \<Rightarrow> ac_job_deadline c
                      | Some d \<Rightarrow> if d = 0 then ac_job_deadline c else min d (ac_job_deadline c))
         in enqueue_admitted_job c now
              \<lparr>jb_id = sd_next s, jb_scope = scope_key rq, jb_deadline_at = now + limit, jb_accepted_at = now\<rparr>
              q (rq_idempotency_key rq) fp
              (s\<lparr>sd_futures := (sd_futures s)(sd_next s := FPending), sd_next := sd_next s + 1\<rparr>)))"

definition idem_lookup :: "asr_request \<Rightarrow> sched \<Rightarrow> idem_rec option" where
  "idem_lookup rq s = (case rq_idempotency_key rq of None \<Rightarrow> None | Some k \<Rightarrow> sd_idem s (scope_key rq, k))"

definition admit ::
    "asr_cfg \<Rightarrow> providers \<Rightarrow> prov_states \<Rightarrow> rat \<Rightarrow> asr_request \<Rightarrow> string \<Rightarrow> sched \<Rightarrow> (asr_error + admitted) \<times> sched" where
  "admit c ps st now rq fp s0 =
     (let s = prune_idempotency now s0 in
      if sd_closing s then reject (asr_err_after SchedulerShutdown 1) s
      else if \<not> ac_enabled c then reject (asr_err SchedulerDisabled) s
      else case idem_lookup rq s of
        Some r \<Rightarrow> if ir_fingerprint r \<noteq> fp then (Inl (asr_err IdempotencyConflict), s)
                  else (Inr (Shared (ir_job r)), s)
      | None \<Rightarrow>
          if \<not> has_eligible_candidate c ps st now
          then reject \<lparr>ae_kind = NoEligibleProvider, ae_retry_after = no_eligible_retry_after c st now\<rparr> s
          else
            (let q = prune_scope now (case sd_scopes s (scope_key rq) of Some q \<Rightarrow> q
                       | None \<Rightarrow> \<lparr>sc_in_flight = 0, sc_times = []\<rparr>)
             in admit_scoped c now rq fp q (s\<lparr>sd_scopes := (sd_scopes s)(scope_key rq \<mapsto> q)\<rparr>)))"

text \<open>A worker takes a job, counts it, runs it (\<open>execute\<close>) and finishes it.\<close>

definition next_job :: "sched \<Rightarrow> (job \<times> bool) option \<times> sched" where
  "next_job s = (case sd_dispatch s of
       j # js \<Rightarrow> (Some (j, True), s\<lparr>sd_dispatch := js, sd_taken := (j, True) # sd_taken s\<rparr>)
     | [] \<Rightarrow> (case sd_queue s of
         j # js \<Rightarrow> (Some (j, False), s\<lparr>sd_queue := js, sd_taken := (j, False) # sd_taken s\<rparr>)
       | [] \<Rightarrow> (None, s)))"

definition begin_job :: "job \<times> bool \<Rightarrow> sched \<Rightarrow> sched" where
  "begin_job jd s = s\<lparr>sd_taken := remove1 jd (sd_taken s), sd_running := fst jd # sd_running s,
     sd_reserved := (if snd jd then sd_reserved s - 1 else sd_reserved s), sd_active := sd_active s + 1\<rparr>"

definition set_future :: "nat \<Rightarrow> future \<Rightarrow> sched \<Rightarrow> sched" where
  "set_future i f s = (if sd_futures s i = FPending then s\<lparr>sd_futures := (sd_futures s)(i := f)\<rparr> else s)"

definition finish_job :: "job \<Rightarrow> sched \<Rightarrow> sched" where
  "finish_job j s =
     (let s1 = s\<lparr>sd_accepted := sd_accepted s - 1, sd_active := sd_active s - 1,
                 sd_scopes := (case sd_scopes s (jb_scope j) of None \<Rightarrow> sd_scopes s
                   | Some q \<Rightarrow> (sd_scopes s)(jb_scope j \<mapsto> q\<lparr>sc_in_flight := sc_in_flight q - 1\<rparr>))\<rparr>
      in case sd_futures s (jb_id j) of
           FCancelled \<Rightarrow> s1
         | FError _ \<Rightarrow> s1\<lparr>sd_failed := sd_failed s + 1\<rparr>
         | _ \<Rightarrow> s1\<lparr>sd_completed := sd_completed s + 1\<rparr>)"

definition end_job :: "job \<Rightarrow> sched \<Rightarrow> sched" where
  "end_job j s = finish_job j (s\<lparr>sd_running := remove1 j (sd_running s)\<rparr>)"

text \<open>The shutdown path: every queued job fails and is finished.\<close>

fun fail_jobs :: "asr_error \<Rightarrow> bool \<Rightarrow> job list \<Rightarrow> sched \<Rightarrow> sched" where
  "fail_jobs e disp [] s = s"
| "fail_jobs e disp (j # js) s = fail_jobs e disp js
     (finish_job j (set_future (jb_id j) (FError e)
        (if disp then s\<lparr>sd_reserved := sd_reserved s - 1\<rparr> else s)))"

definition fail_queued_jobs :: "asr_error \<Rightarrow> sched \<Rightarrow> sched" where
  "fail_queued_jobs e s =
     (let s1 = fail_jobs e True (sd_dispatch s) (s\<lparr>sd_dispatch := []\<rparr>)
      in fail_jobs e False (sd_queue s1) (s1\<lparr>sd_queue := []\<rparr>))"

section \<open>The running scheduler\<close>

inductive sched_step :: "asr_cfg \<Rightarrow> providers \<Rightarrow> sched \<Rightarrow> sched \<Rightarrow> bool" for c ps where
  sched_admit: "admit c ps st (sd_clock s) rq fp s = (res, s') \<Longrightarrow> sched_step c ps s s'"
| sched_take: "next_job s = (Some jd, s') \<Longrightarrow> sched_step c ps s s'"
| sched_begin: "jd \<in> set (sd_taken s) \<Longrightarrow> sched_step c ps s (begin_job jd s)"
| sched_future: "sched_step c ps s (set_future i f s)"
| sched_end: "j \<in> set (sd_running s) \<Longrightarrow> sched_step c ps s (end_job j s)"
| sched_close: "sched_step c ps s (s\<lparr>sd_closing := True\<rparr>)"
| sched_fail: "sd_closing s \<Longrightarrow> sched_step c ps s (fail_queued_jobs (asr_err SchedulerShutdown) s)"
| sched_clock: "sd_clock s \<le> t \<Longrightarrow> sched_step c ps s (s\<lparr>sd_clock := t\<rparr>)"

text \<open>All jobs the scheduler holds, and the accounting invariant while it is open.\<close>

definition held :: "sched \<Rightarrow> job list" where
  "held s = sd_dispatch s @ sd_queue s @ map fst (sd_taken s) @ sd_running s"

definition scope_count :: "scope_key \<Rightarrow> job list \<Rightarrow> nat" where
  "scope_count k js = length (filter (\<lambda>j. jb_scope j = k) js)"

definition scope_flight :: "sched \<Rightarrow> scope_key \<Rightarrow> nat" where
  "scope_flight s k = (case sd_scopes s k of None \<Rightarrow> 0 | Some q \<Rightarrow> sc_in_flight q)"

definition scopes_ok :: "nat \<Rightarrow> (scope_key \<Rightarrow> nat) \<Rightarrow> job list \<Rightarrow> bool" where
  "scopes_ok m flight js \<longleftrightarrow> (\<forall>k. flight k = scope_count k js \<and> flight k \<le> m)"

definition sched_inv :: "asr_cfg \<Rightarrow> sched \<Rightarrow> bool" where
  "sched_inv c s \<longleftrightarrow> sd_closing s \<or>
     sd_accepted s = length (held s) \<and> sd_active s = length (sd_running s) \<and>
     sd_reserved s = length (sd_dispatch s) + length (filter snd (sd_taken s)) \<and>
     sd_accepted s \<le> capacity c \<and> scopes_ok (ac_scope_max c) (scope_flight s) (held s)"

section \<open>The accounting invariant\<close>

definition same_core :: "sched \<Rightarrow> sched \<Rightarrow> bool" where
  "same_core s s' \<longleftrightarrow> sd_closing s' = sd_closing s \<and> sd_accepted s' = sd_accepted s \<and> sd_active s' = sd_active s \<and>
     sd_reserved s' = sd_reserved s \<and> sd_dispatch s' = sd_dispatch s \<and> sd_queue s' = sd_queue s \<and>
     sd_taken s' = sd_taken s \<and> sd_running s' = sd_running s \<and> scope_flight s' = scope_flight s"

lemma same_core_inv: "same_core s s' \<Longrightarrow> sched_inv c s' = sched_inv c s"
  by (simp add: same_core_def sched_inv_def held_def)

lemma prune_scope_flight [simp]: "sc_in_flight (prune_scope now q) = sc_in_flight q"
  by (simp add: prune_scope_def)

text \<open>
  What an admission may do: nothing to the accounts, or place one job of the scope, which
  then has room in its scope and in the scheduler.
\<close>

definition placed :: "asr_cfg \<Rightarrow> job \<Rightarrow> sched \<Rightarrow> sched \<Rightarrow> bool" where
  "placed c j s s' \<longleftrightarrow> \<not> sd_closing s \<and> sd_closing s' = sd_closing s \<and> sd_accepted s' = sd_accepted s + 1 \<and>
     sd_accepted s < capacity c \<and> scope_flight s (jb_scope j) < ac_scope_max c \<and>
     sd_active s' = sd_active s \<and> sd_taken s' = sd_taken s \<and> sd_running s' = sd_running s \<and>
     (if sd_active s + sd_reserved s < ac_max_concurrency c
      then sd_dispatch s' = sd_dispatch s @ [j] \<and> sd_reserved s' = sd_reserved s + 1 \<and> sd_queue s' = sd_queue s
      else sd_queue s' = sd_queue s @ [j] \<and> sd_dispatch s' = sd_dispatch s \<and> sd_reserved s' = sd_reserved s) \<and>
     scope_flight s' = (scope_flight s)(jb_scope j := scope_flight s (jb_scope j) + 1)"

lemma enqueue_cases:
  assumes "enqueue_admitted_job c now j q ikey fp s = (res, s')"
    "sd_scopes s (jb_scope j) = Some q" "sc_in_flight q < ac_scope_max c" "sd_accepted s < capacity c"
    "\<not> sd_closing s"
  shows "same_core s s' \<and> res = Inl (asr_err_after QueueFull 1) \<or> placed c j s s' \<and> res = Inr (OwnJob j)"
  using assms
  by (auto simp: enqueue_admitted_job_def Let_def reject_def same_core_def placed_def scope_flight_def fun_eq_iff split: if_splits)

lemma same_core_reject: "reject e s = (res, s') \<Longrightarrow> same_core s s' \<and> res = Inl e"
  by (auto simp: reject_def same_core_def scope_flight_def fun_eq_iff)

lemma same_core_trans: "same_core a b \<Longrightarrow> same_core b c \<Longrightarrow> same_core a c"
  by (simp add: same_core_def)

lemma placed_core: "same_core a b \<Longrightarrow> placed c j b s' \<Longrightarrow> placed c j a s'"
  by (simp add: placed_def same_core_def)

lemma admit_scoped_cases:
  assumes "admit_scoped c now rq fp q s = (res, s')" "sd_scopes s (scope_key rq) = Some q" "\<not> sd_closing s"
  shows "same_core s s' \<and> (\<exists>e. res = Inl e) \<or>
    (\<exists>j. placed c j s s' \<and> res = Inr (OwnJob j) \<and> jb_scope j = scope_key rq)"
proof (cases "sc_in_flight q < ac_scope_max c \<and> \<not> (0 < ac_scope_rate c \<and> ac_scope_rate c \<le> length (sc_times q)) \<and>
    sd_accepted s < capacity c")
  case False
  with assms(1) have "\<exists>e. reject e s = (res, s')"
    by (auto simp: admit_scoped_def not_less split: if_splits)
  then show ?thesis by (auto dest: same_core_reject)
next
  case True
  let ?s = "s\<lparr>sd_futures := (sd_futures s)(sd_next s := FPending), sd_next := sd_next s + 1\<rparr>"
  have core: "same_core s ?s" by (simp add: same_core_def scope_flight_def fun_eq_iff)
  from assms(1) True obtain j where "enqueue_admitted_job c now j q (rq_idempotency_key rq) fp ?s = (res, s')"
    and j: "jb_scope j = scope_key rq"
    by (auto simp: admit_scoped_def Let_def)
  from enqueue_cases[OF this(1)] assms(2,3) True j
  have "same_core ?s s' \<and> res = Inl (asr_err_after QueueFull 1) \<or> placed c j ?s s' \<and> res = Inr (OwnJob j)"
    by simp
  with core j show ?thesis by (blast intro: same_core_trans placed_core)
qed

lemma admit_cases:
  assumes "admit c ps st now rq fp s = (res, s')"
  obtains (quiet) "same_core s s'" "\<forall>j. res \<noteq> Inr (OwnJob j)"
  | (own) j where "placed c j s s'" "res = Inr (OwnJob j)" "jb_scope j = scope_key rq"
proof -
  let ?s = "prune_idempotency now s"
  have pruned: "same_core s ?s" by (simp add: same_core_def prune_idempotency_def scope_flight_def fun_eq_iff)
  have rej: "reject e ?s = (res, s') \<Longrightarrow> thesis" for e
    using pruned by (intro quiet) (auto dest!: same_core_reject intro: same_core_trans)
  show thesis
  proof (cases "sd_closing ?s \<or> \<not> ac_enabled c")
    case True
    with assms rej show thesis by (auto simp: admit_def Let_def split: if_splits)
  next
    case open_s: False
    show thesis
    proof (cases "idem_lookup rq ?s")
      case (Some r)
      with assms open_s pruned show thesis by (intro quiet) (auto simp: admit_def Let_def split: if_splits)
    next
      case None
      show thesis
      proof (cases "has_eligible_candidate c ps st now")
        case False
        with assms open_s None rej show thesis by (auto simp: admit_def Let_def)
      next
        case True
        define q where "q = prune_scope now (case sd_scopes ?s (scope_key rq) of Some q \<Rightarrow> q
                       | None \<Rightarrow> \<lparr>sc_in_flight = 0, sc_times = []\<rparr>)"
        let ?s1 = "?s\<lparr>sd_scopes := (sd_scopes ?s)(scope_key rq \<mapsto> q)\<rparr>"
        have "same_core ?s ?s1" by (auto simp: same_core_def scope_flight_def fun_eq_iff q_def split: option.splits)
        with pruned have core: "same_core s ?s1" by (rule same_core_trans)
        have "admit_scoped c now rq fp q ?s1 = (res, s')"
          using assms open_s None True by (simp add: admit_def Let_def q_def)
        from admit_scoped_cases[OF this] open_s
        have "same_core ?s1 s' \<and> (\<exists>e. res = Inl e) \<or>
            (\<exists>j. placed c j ?s1 s' \<and> res = Inr (OwnJob j) \<and> jb_scope j = scope_key rq)"
          by simp
        with core quiet own show thesis by (blast intro: same_core_trans placed_core)
      qed
    qed
  qed
qed

lemma scopes_ok_perm: "scopes_ok m fl js \<Longrightarrow> mset js = mset js' \<Longrightarrow> scopes_ok m fl js'"
proof -
  assume "mset js = mset js'"
  then have "scope_count k js = scope_count k js'" for k
    unfolding scope_count_def by (metis mset_filter size_mset)
  then show "scopes_ok m fl js \<Longrightarrow> scopes_ok m fl js'" unfolding scopes_ok_def by metis
qed

lemma scopes_ok_add:
  assumes "scopes_ok m fl js" "fl (jb_scope j) < m"
  shows "scopes_ok m (fl(jb_scope j := fl (jb_scope j) + 1)) (j # js)"
  unfolding scopes_ok_def
proof
  fix k
  from assms(1) have "fl k = scope_count k js" "fl k \<le> m" unfolding scopes_ok_def by blast+
  with assms(2) show "(fl(jb_scope j := fl (jb_scope j) + 1)) k = scope_count k (j # js) \<and>
      (fl(jb_scope j := fl (jb_scope j) + 1)) k \<le> m"
    by (cases "k = jb_scope j") (simp_all add: scope_count_def)
qed

lemma scopes_ok_del:
  assumes "scopes_ok m fl (j # js)"
  shows "scopes_ok m (fl(jb_scope j := fl (jb_scope j) - 1)) js"
  unfolding scopes_ok_def
proof
  fix k
  from assms have "fl k = scope_count k (j # js)" "fl k \<le> m" unfolding scopes_ok_def by blast+
  then show "(fl(jb_scope j := fl (jb_scope j) - 1)) k = scope_count k js \<and> (fl(jb_scope j := fl (jb_scope j) - 1)) k \<le> m"
    by (cases "k = jb_scope j") (simp_all add: scope_count_def)
qed

lemma remove1_split:
  assumes "x \<in> set xs"
  obtains ys zs where "xs = ys @ x # zs" "remove1 x xs = ys @ zs"
proof -
  from split_list_first[OF assms] obtain ys zs where "xs = ys @ x # zs" "x \<notin> set ys" by blast
  then show thesis by (intro that[of ys zs]) (simp_all add: remove1_append)
qed

text \<open>The counters of an open scheduler, and a rule for steps that move jobs around.\<close>

definition counters_ok :: "asr_cfg \<Rightarrow> sched \<Rightarrow> bool" where
  "counters_ok c s \<longleftrightarrow> sd_accepted s = length (held s) \<and> sd_active s = length (sd_running s) \<and>
     sd_reserved s = length (sd_dispatch s) + length (filter snd (sd_taken s)) \<and> sd_accepted s \<le> capacity c"

lemma sched_inv_alt:
  "sched_inv c s \<longleftrightarrow> sd_closing s \<or> counters_ok c s \<and> scopes_ok (ac_scope_max c) (scope_flight s) (held s)"
  by (auto simp: sched_inv_def counters_ok_def)

lemma inv_moved:
  assumes "sched_inv c s" "sd_closing s' = sd_closing s" "mset (held s') = mset (held s)"
    "scope_flight s' = scope_flight s" "counters_ok c s \<Longrightarrow> counters_ok c s'"
  shows "sched_inv c s'"
  using assms scopes_ok_perm[OF _ assms(3)[symmetric]] by (auto simp: sched_inv_alt)

lemma inv_placed:
  assumes "sched_inv c s" "placed c j s s'"
  shows "sched_inv c s'"
proof -
  from assms have inv: "counters_ok c s" "scopes_ok (ac_scope_max c) (scope_flight s) (held s)"
    by (simp_all add: sched_inv_alt placed_def)
  have "mset (held s') = mset (j # held s)" using assms(2) by (auto simp: placed_def held_def split: if_splits)
  moreover have "scopes_ok (ac_scope_max c) (scope_flight s') (j # held s)"
    using scopes_ok_add[OF inv(2), of j] assms(2) by (simp add: placed_def)
  ultimately have "scopes_ok (ac_scope_max c) (scope_flight s') (held s')"
    by (blast intro: scopes_ok_perm dest: sym)
  moreover have "counters_ok c s'"
    using inv(1) assms(2) by (auto simp: counters_ok_def placed_def held_def split: if_splits)
  ultimately show ?thesis by (simp add: sched_inv_alt)
qed

lemma inv_take:
  assumes "sched_inv c s" "next_job s = (Some jd, s')"
  shows "sched_inv c s'"
proof (cases "sd_dispatch s")
  case (Cons j js)
  with assms(2) have "s' = s\<lparr>sd_dispatch := js, sd_taken := (j, True) # sd_taken s\<rparr>" by (auto simp: next_job_def)
  then show ?thesis
    by (intro inv_moved[OF assms(1)]) (use Cons in \<open>auto simp: held_def counters_ok_def scope_flight_def fun_eq_iff\<close>)
next
  case Nil
  with assms(2) obtain j js where "sd_queue s = j # js" "s' = s\<lparr>sd_queue := js, sd_taken := (j, False) # sd_taken s\<rparr>"
    by (auto simp: next_job_def split: list.splits)
  then show ?thesis
    by (intro inv_moved[OF assms(1)]) (use Nil in \<open>auto simp: held_def counters_ok_def scope_flight_def fun_eq_iff\<close>)
qed

lemma inv_begin:
  assumes "sched_inv c s" "jd \<in> set (sd_taken s)"
  shows "sched_inv c (begin_job jd s)"
proof -
  from assms(2) obtain ys zs where t: "sd_taken s = ys @ jd # zs" "remove1 jd (sd_taken s) = ys @ zs"
    by (rule remove1_split)
  show ?thesis
    by (rule inv_moved[OF assms(1)])
      (use t in \<open>auto simp: held_def counters_ok_def scope_flight_def begin_job_def fun_eq_iff\<close>)
qed

lemma finish_job_core:
  "sd_closing (finish_job j s) = sd_closing s" "sd_accepted (finish_job j s) = sd_accepted s - 1"
  "sd_active (finish_job j s) = sd_active s - 1" "sd_reserved (finish_job j s) = sd_reserved s"
  "sd_dispatch (finish_job j s) = sd_dispatch s" "sd_queue (finish_job j s) = sd_queue s"
  "sd_taken (finish_job j s) = sd_taken s" "sd_running (finish_job j s) = sd_running s"
  "sd_idem (finish_job j s) = sd_idem s" "sd_clock (finish_job j s) = sd_clock s"
  "sd_futures (finish_job j s) = sd_futures s"
  "scope_flight (finish_job j s) = (scope_flight s)(jb_scope j := scope_flight s (jb_scope j) - 1)"
  by (auto simp: finish_job_def Let_def scope_flight_def fun_eq_iff split: future.splits option.splits)

lemma inv_end:
  assumes "sched_inv c s" "j \<in> set (sd_running s)"
  shows "sched_inv c (end_job j s)"
proof -
  from assms(2) obtain ys zs where r: "sd_running s = ys @ j # zs" "remove1 j (sd_running s) = ys @ zs"
    by (rule remove1_split)
  have fl: "scope_flight (s\<lparr>sd_running := rs\<rparr>) = scope_flight s" for rs by (simp add: scope_flight_def fun_eq_iff)
  show ?thesis
  proof (cases "sd_closing s")
    case True
    then show ?thesis by (simp add: sched_inv_alt end_job_def finish_job_core)
  next
    case False
    with assms(1) have inv: "counters_ok c s" "scopes_ok (ac_scope_max c) (scope_flight s) (held s)"
      by (auto simp: sched_inv_alt)
    have "mset (held s) = mset (j # held (end_job j s))"
      using r by (simp add: held_def end_job_def finish_job_core)
    with inv(2) have "scopes_ok (ac_scope_max c) (scope_flight s) (j # held (end_job j s))" by (rule scopes_ok_perm)
    then have "scopes_ok (ac_scope_max c) (scope_flight (end_job j s)) (held (end_job j s))"
      using scopes_ok_del by (simp only: end_job_def finish_job_core fl)
    moreover have "counters_ok c (end_job j s)"
      using inv(1) r by (auto simp: counters_ok_def held_def end_job_def finish_job_core)
    ultimately show ?thesis by (simp add: sched_inv_alt)
  qed
qed

lemma same_core_simple:
  "same_core s (set_future i f s)" "same_core s (s\<lparr>sd_clock := t\<rparr>)"
  by (simp_all add: same_core_def set_future_def scope_flight_def fun_eq_iff)

lemma fail_jobs_closing: "sd_closing (fail_jobs e d js s) = sd_closing s"
  by (induction e d js s rule: fail_jobs.induct) (simp_all add: finish_job_core set_future_def)

interpretation sched: invariant_system sched_init "sched_step c ps" "sched_inv c" for c ps
proof
  show "sched_inv c s" if "sched_init s" for s
  proof -
    have "scopes_ok (ac_scope_max c) (scope_flight s) []"
      unfolding scopes_ok_def using that by (simp add: sched_init_def scope_flight_def scope_count_def)
    then show ?thesis using that by (simp add: sched_inv_def sched_init_def held_def)
  qed
  show "sched_inv c t" if inv: "sched_inv c s" and step: "sched_step c ps s t" for s t
    using step
  proof cases
    case (sched_admit st rq fp res)
    then show ?thesis
      by (cases rule: admit_cases) (use inv same_core_inv inv_placed in auto)
  next
    case (sched_take jd)
    with inv show ?thesis by (blast intro: inv_take)
  next
    case (sched_begin jd)
    with inv show ?thesis by (simp add: inv_begin)
  next
    case (sched_future i f)
    with inv same_core_inv[OF same_core_simple(1)] show ?thesis by simp
  next
    case (sched_end j)
    with inv show ?thesis by (simp add: inv_end)
  next
    case sched_close
    then show ?thesis by (simp add: sched_inv_def)
  next
    case sched_fail
    then show ?thesis by (simp add: sched_inv_def fail_queued_jobs_def Let_def fail_jobs_closing)
  next
    case (sched_clock t)
    with inv same_core_inv[OF same_core_simple(2)] show ?thesis by simp
  qed
qed

section \<open>Idempotency records over time\<close>

lemma next_job_idem: "next_job s = (r, s') \<Longrightarrow> sd_idem s' = sd_idem s \<and> sd_clock s' = sd_clock s"
  by (auto simp: next_job_def split: list.splits)

lemma fail_jobs_idem: "sd_idem (fail_jobs e d js s) = sd_idem s \<and> sd_clock (fail_jobs e d js s) = sd_clock s"
  by (induction e d js s rule: fail_jobs.induct) (simp_all add: finish_job_core set_future_def)

lemma admit_clock: "admit c ps st now rq fp s = (res, s') \<Longrightarrow> sd_clock s' = sd_clock s"
  by (auto simp: admit_def admit_scoped_def enqueue_admitted_job_def reject_def prune_idempotency_def Let_def
      split: if_splits option.splits)

text \<open>An admission keeps every record that has not expired; it adds one only for a free key.\<close>

lemma admit_keeps_record:
  assumes "admit c ps st now rq fp s = (res, s')" "sd_idem s (k, ik) = Some r" "now < ir_expires r"
  shows "sd_idem s' (k, ik) = Some r"
proof -
  let ?s = "prune_idempotency now s"
  have rec: "sd_idem ?s (k, ik) = Some r" using assms(2,3) by (simp add: prune_idempotency_def)
  show ?thesis
  proof (cases "scope_key rq = k \<and> rq_idempotency_key rq = Some ik")
    case True
    then have "idem_lookup rq ?s = Some r" using rec by (simp add: idem_lookup_def)
    with assms(1) rec show ?thesis
      by (auto simp: admit_def Let_def reject_def split: if_splits)
  next
    case False
    with assms(1) rec show ?thesis
      by (auto simp: admit_def admit_scoped_def enqueue_admitted_job_def reject_def Let_def
          split: if_splits option.splits)
  qed
qed

lemma step_keeps_record:
  assumes "sched_step c ps s t" "sd_idem s (k, ik) = Some r" "sd_clock t < ir_expires r"
  shows "sd_idem t (k, ik) = Some r \<and> sd_clock s \<le> sd_clock t"
  using assms(1)
proof cases
  case (sched_admit st rq fp res)
  with admit_clock[OF this] assms(2,3) show ?thesis by (auto dest: admit_keeps_record)
next
  case (sched_take jd)
  with assms(2) show ?thesis by (auto dest: next_job_idem)
qed (use assms(2) in \<open>simp_all add: begin_job_def set_future_def end_job_def finish_job_core
    fail_queued_jobs_def Let_def fail_jobs_idem\<close>)

lemma clock_mono: "sched_step c ps s t \<Longrightarrow> sd_clock s \<le> sd_clock t"
  by (erule sched_step.cases)
    (auto simp: begin_job_def set_future_def end_job_def finish_job_core fail_queued_jobs_def Let_def
      fail_jobs_idem dest: admit_clock next_job_idem)

lemma star_keeps_record:
  assumes "(sched_step c ps)\<^sup>*\<^sup>* s t" "sd_idem s (k, ik) = Some r" "sd_clock t < ir_expires r"
  shows "sd_idem t (k, ik) = Some r"
  using assms(1,3)
proof (induction rule: rtranclp_induct)
  case base
  show ?case by (rule assms(2))
next
  case (step y z)
  from clock_mono[OF step.hyps(2)] step.prems have "sd_clock y < ir_expires r" by simp
  with step.IH have "sd_idem y (k, ik) = Some r" .
  with step_keeps_record[OF step.hyps(2)] step.prems show ?case by blast
qed

section \<open>Properties\<close>


definition demo_sched :: sched where
  "demo_sched = \<lparr>sd_closing = False, sd_accepted = 0, sd_active = 0, sd_reserved = 0, sd_dispatch = [], sd_queue = [],
     sd_taken = [], sd_running = [], sd_scopes = Map.empty, sd_idem = Map.empty, sd_futures = (\<lambda>_. FPending),
     sd_next = 0, sd_rejected = 0, sd_accepted_total = 0, sd_completed = 0, sd_failed = 0, sd_clock = 5\<rparr>"

definition demo_rq :: asr_request where
  "demo_rq = \<lparr>rq_tenant = Some ''t'', rq_principal = None, rq_device = None, rq_idempotency_key = Some ''k'',
     rq_deadline = None\<rparr>"

definition demo_admitted :: sched where
  "demo_admitted = snd (admit demo_cfg demo_providers demo_states 5 demo_rq ''f'' demo_sched)"

lemma demo_sched_step: "sched_init demo_sched" "sched_step demo_cfg demo_providers demo_sched demo_admitted"
proof -
  show "sched_init demo_sched" by (simp add: sched_init_def demo_sched_def)
  have "admit demo_cfg demo_providers demo_states (sd_clock demo_sched) demo_rq ''f'' demo_sched =
      (fst (admit demo_cfg demo_providers demo_states 5 demo_rq ''f'' demo_sched), demo_admitted)"
    by (simp add: demo_admitted_def demo_sched_def)
  then show "sched_step demo_cfg demo_providers demo_sched demo_admitted" by (rule sched_admit)
qed

lemmas demo_admit_defs = admit_def admit_scoped_def enqueue_admitted_job_def prune_idempotency_def prune_scope_def
  demo_sched_def demo_cfg_def demo_providers_def demo_states_def has_eligible_candidate_def is_state_eligible_def
  usable_def cooling_def fresh_provider_def capacity_def idem_lookup_def

lemma demo_admitted_facts:
  "\<not> sd_closing demo_admitted" "sd_dispatch demo_admitted \<noteq> []"
  "sd_idem demo_admitted (scope_key demo_rq, ''k'') = Some \<lparr>ir_fingerprint = ''f'', ir_expires = 125, ir_job = 0\<rparr>"
  "sd_clock demo_admitted = 5"
  by (simp_all add: demo_admitted_def demo_admit_defs demo_rq_def Let_def)


text \<open>
  The internal queues never overflow: whenever the capacity check of an open scheduler
  passes, placing the job succeeds, in the dispatch queue or in the backlog; the
  \<open>QueueFull\<close> branch of the enqueue is dead code.
\<close>

theorem enqueue_never_overflows:
  assumes "sched_init s0" "(sched_step c ps)\<^sup>*\<^sup>* s0 s" "\<not> sd_closing s"
    and "sd_accepted s < ac_max_concurrency c + ac_queue_size c"
  shows "fst (enqueue_admitted_job c now j q ikey fp s) = Inr (OwnJob j)"
proof -
  from assms(1,2) have "sched_inv c s" by (rule sched.reachable_inv)
  with assms(3) have "counters_ok c s" by (auto simp: sched_inv_alt)
  then have acc: "sd_accepted s = length (sd_dispatch s) + length (sd_queue s) + length (sd_taken s) + length (sd_running s)"
    and act: "sd_active s = length (sd_running s)"
    and res: "sd_reserved s = length (sd_dispatch s) + length (filter snd (sd_taken s))"
    by (auto simp: counters_ok_def held_def)
  have "length (filter snd (sd_taken s)) \<le> length (sd_taken s)" by (rule length_filter_le)
  with acc act res assms(4)
  have "sd_active s + sd_reserved s < ac_max_concurrency c \<longrightarrow> length (sd_dispatch s) < ac_max_concurrency c"
    "\<not> sd_active s + sd_reserved s < ac_max_concurrency c \<longrightarrow> length (sd_queue s) < max 1 (ac_queue_size c)"
    by linarith+
  then show ?thesis by (simp add: enqueue_admitted_job_def Let_def)
qed

theorem enqueue_never_overflows_witness:
  "fst (enqueue_admitted_job demo_cfg 6 \<lparr>jb_id = 9, jb_scope = scope_key demo_rq, jb_deadline_at = 9, jb_accepted_at = 6\<rparr>
     \<lparr>sc_in_flight = 0, sc_times = []\<rparr> None ''g'' demo_sched) =
   Inr (OwnJob \<lparr>jb_id = 9, jb_scope = scope_key demo_rq, jb_deadline_at = 9, jb_accepted_at = 6\<rparr>)"
  by (rule enqueue_never_overflows[OF demo_sched_step(1) rtranclp.rtrancl_refl])
    (simp_all add: demo_sched_def demo_cfg_def)

text \<open>
  One job per idempotency key: while the record of an admitted request lives, a
  request of the same scope and key is answered by the same job when its fingerprint
  agrees and rejected as a conflict when it does not; neither admits a job, whatever
  happened in between.
\<close>

theorem idempotency_key_binds:
  assumes "sd_idem s (scope_key rq, key) = Some r" "(sched_step c ps)\<^sup>*\<^sup>* s t" "sd_clock t < ir_expires r"
    and "\<not> sd_closing t" "ac_enabled c" "rq_idempotency_key rq = Some key"
    and "admit c ps st (sd_clock t) rq fp t = (res, t')"
  shows "res = (if fp = ir_fingerprint r then Inr (Shared (ir_job r)) else Inl (asr_err IdempotencyConflict)) \<and>
    held t' = held t \<and> sd_accepted t' = sd_accepted t"
proof -
  have "sd_idem t (scope_key rq, key) = Some r" by (rule star_keeps_record[OF assms(2,1,3)])
  then have "idem_lookup rq (prune_idempotency (sd_clock t) t) = Some r"
    using assms(3,6) by (simp add: idem_lookup_def prune_idempotency_def)
  moreover have "\<not> sd_closing (prune_idempotency (sd_clock t) t)" using assms(4) by (simp add: prune_idempotency_def)
  ultimately have "(res, t') = (if fp = ir_fingerprint r then Inr (Shared (ir_job r)) else Inl (asr_err IdempotencyConflict),
      prune_idempotency (sd_clock t) t)"
    using assms(5,7) by (simp add: admit_def Let_def split: if_splits)
  then show ?thesis by (simp add: prune_idempotency_def held_def)
qed

theorem idempotency_key_binds_witness:
  "fst (admit demo_cfg demo_providers demo_states 5 demo_rq ''f'' demo_admitted) = Inr (Shared 0) \<and>
   fst (admit demo_cfg demo_providers demo_states 5 demo_rq ''g'' demo_admitted) = Inl (asr_err IdempotencyConflict)"
proof -
  let ?a = "\<lambda>fp. admit demo_cfg demo_providers demo_states 5 demo_rq fp demo_admitted"
  have "admit demo_cfg demo_providers demo_states (sd_clock demo_admitted) demo_rq fp demo_admitted = (fst (?a fp), snd (?a fp))" for fp
    by (simp add: demo_admitted_facts(4))
  from idempotency_key_binds[OF demo_admitted_facts(3) rtranclp.rtrancl_refl _ demo_admitted_facts(1) _ _ this]
  show ?thesis by (simp add: demo_admitted_facts(4) demo_cfg_def demo_rq_def)
qed

text \<open>
  The record outlives a cancellation of its job: a retry with the same key after the owner
  disconnected is handed the cancelled future.
\<close>

lemma retry_gets_cancelled_future:
  "\<exists>t'. admit demo_cfg demo_providers demo_states 5 demo_rq ''f'' (set_future 0 FCancelled demo_admitted) =
     (Inr (Shared 0), t') \<and> sd_futures t' 0 = FCancelled"
  by (simp add: demo_admitted_def demo_admit_defs demo_rq_def Let_def set_future_def scope_key_def)

text \<open>The shutdown path takes the queued jobs out of the active counter, which never held them.\<close>

lemma fail_jobs_active:
  "sd_active (fail_jobs e d js s) = sd_active s - length js \<and> sd_running (fail_jobs e d js s) = sd_running s"
  by (induction e d js s rule: fail_jobs.induct) (simp_all add: finish_job_core set_future_def)

end
