(* ===== verification/EventBus.thy ===== *)
theory EventBus
  imports WorkflowDb
begin

text \<open>
  The in-process event bus, \<open>backend/app/adapters/event_bus/inmemory.py\<close>.  Every principal
  scope (tenant and owner; the type variable \<open>'k\<close>) has its own stream: an epoch, a
  sequence counter, a bounded replay history and the queues of its subscribers.  The
  number of streams is bounded; a full bus drops the least recently used stream that has
  no subscriber and no reserved admission, and otherwise makes new scopes wait in a
  bounded first-come-first-served queue.

  Every method body that holds \<open>self._lock\<close> is one function on the state \<open>bus\<close>; where
  a method releases the lock to wait, it is modelled as the functions before and after
  the wait.  Objects that the code compares by identity (queues and futures) are numbers
  drawn from \<open>bs_next\<close>, and the n-th \<open>uuid4().hex\<close> is \<open>bc_uuid c n\<close>.  Not kept:
  \<open>last_used\<close>, which nothing reads, and the wake-up of \<open>wait_for_admission_waiter_count\<close>.
\<close>

section \<open>State\<close>

text \<open>
  A committed event: the published one with the coordinates the bus adds
  (\<open>seq\<close>, \<open>stream_epoch\<close>, \<open>tenant_id\<close> with \<open>owner_id\<close>).  A frame the bus itself makes has
  sequence number 0 and no scope.
\<close>

record 'k bus_event =
  be_event :: echo_event
  be_seq :: nat
  be_epoch :: string
  be_scope :: "'k option"

record 'k stream =
  st_epoch :: string
  st_seq :: nat
  st_history :: "'k bus_event list"
  st_subs :: "nat list"

datatype admission = Waiting | Granted | AdmissionCancelled

record 'k bus =
  bs_streams :: "('k \<times> 'k stream) list"
  bs_waiters :: "('k \<times> nat) list"
  bs_grants :: "'k \<Rightarrow> nat option"
  bs_futures :: "nat \<Rightarrow> admission"
  bs_queues :: "nat \<Rightarrow> 'k bus_event list"
  bs_next :: nat

record bus_cfg =
  bc_cap :: nat
  bc_replay :: nat
  bc_max_streams :: nat
  bc_max_waiters :: nat
  bc_uuid :: "nat \<Rightarrow> string"

datatype bus_error = CapacityExceeded string | SlowConsumer

definition bus_cfg_ok :: "bus_cfg \<Rightarrow> bool" where
  "bus_cfg_ok c = (1 \<le> bc_cap c \<and> 1 \<le> bc_replay c \<and> 1 \<le> bc_max_streams c \<and> 1 \<le> bc_max_waiters c)"

definition bus_init :: "'k bus \<Rightarrow> bool" where
  "bus_init b \<longleftrightarrow> bs_streams b = [] \<and> bs_waiters b = [] \<and> bs_grants b = Map.empty"

section \<open>Streams and their number\<close>

definition new_stream :: "string \<Rightarrow> 'k stream" where
  "new_stream ep = \<lparr>st_epoch = ep, st_seq = 0, st_history = [], st_subs = []\<rparr>"

definition the_stream :: "'k \<Rightarrow> 'k bus \<Rightarrow> 'k stream option" where
  "the_stream k b = map_of (bs_streams b) k"

definition put_stream :: "'k \<Rightarrow> 'k stream \<Rightarrow> 'k bus \<Rightarrow> 'k bus" where
  "put_stream k s b = b\<lparr>bs_streams := AList.update k s (bs_streams b)\<rparr>"

definition idle :: "'k bus \<Rightarrow> 'k \<times> 'k stream \<Rightarrow> bool" where
  "idle b p = (st_subs (snd p) = [] \<and> bs_grants b (fst p) = None)"

definition make_room :: "bus_cfg \<Rightarrow> 'k bus \<Rightarrow> bus_error + 'k bus" where
  "make_room c b =
     (if length (bs_streams b) < bc_max_streams c then Inr b
      else case find (idle b) (bs_streams b) of
        Some p \<Rightarrow> Inr (b\<lparr>bs_streams := AList.delete (fst p) (bs_streams b)\<rparr>)
      | None \<Rightarrow> Inl (CapacityExceeded ''all scoped event streams have subscribers''))"

text \<open>
  \<open>_stream_locked\<close>: the scope's stream, created on demand, moved to the end of the
  ordered dictionary.
\<close>

definition stream_locked :: "bus_cfg \<Rightarrow> 'k \<Rightarrow> 'k bus \<Rightarrow> bus_error + 'k bus" where
  "stream_locked c k b =
     (case the_stream k b of
        Some s \<Rightarrow> Inr (b\<lparr>bs_streams := AList.delete k (bs_streams b) @ [(k, s)]\<rparr>)
      | None \<Rightarrow> bindE (make_room c b) (\<lambda>b1.
          Inr (b1\<lparr>bs_streams := bs_streams b1 @ [(k, new_stream (bc_uuid c (bs_next b1)))],
                  bs_next := bs_next b1 + 1\<rparr>)))"

definition has_scope_slot :: "bus_cfg \<Rightarrow> 'k bus \<Rightarrow> bool" where
  "has_scope_slot c b = (length (bs_streams b) < bc_max_streams c \<or> (\<exists>p \<in> set (bs_streams b). idle b p))"

section \<open>Admission\<close>

text \<open>\<open>_grant_admission_waiters_locked\<close> on the waiters still to be looked at.\<close>

fun grant_loop :: "bus_cfg \<Rightarrow> ('k \<times> nat) list \<Rightarrow> 'k bus \<Rightarrow> bus_error option \<times> 'k bus" where
  "grant_loop c [] b = (None, b\<lparr>bs_waiters := []\<rparr>)"
| "grant_loop c ((k, f) # ws) b =
     (if the_stream k b = None \<and> \<not> has_scope_slot c b then (None, b\<lparr>bs_waiters := (k, f) # ws\<rparr>)
      else if bs_futures b f = AdmissionCancelled then grant_loop c ws b
      else case stream_locked c k b of
             Inl e \<Rightarrow> (Some e, b\<lparr>bs_waiters := ws\<rparr>)
           | Inr b1 \<Rightarrow> grant_loop c ws
               (b1\<lparr>bs_grants := (bs_grants b1)(k \<mapsto> f), bs_futures := (bs_futures b1)(f := Granted)\<rparr>))"

definition grant_waiters :: "bus_cfg \<Rightarrow> 'k bus \<Rightarrow> bus_error option \<times> 'k bus" where
  "grant_waiters c b = grant_loop c (bs_waiters b) b"

definition cancel_admission :: "bus_cfg \<Rightarrow> 'k \<Rightarrow> nat \<Rightarrow> 'k bus \<Rightarrow> bus_error option \<times> 'k bus" where
  "cancel_admission c k f b =
     (let b1 = (if map_of (bs_waiters b) k = Some f
                then b\<lparr>bs_waiters := AList.delete k (bs_waiters b)\<rparr> else b);
          b2 = (if bs_grants b1 k = Some f then b1\<lparr>bs_grants := (bs_grants b1)(k := None)\<rparr> else b1)
      in grant_waiters c b2)"

text \<open>
  \<open>_await_scope_admission\<close> up to its wait.  A future is returned when the scope has to
  wait for it; the wait ends when it is \<open>Granted\<close>, or with \<open>cancel_admission\<close> and an
  exception when the time is up or the task is cancelled.
\<close>

definition await_admission :: "bus_cfg \<Rightarrow> 'k \<Rightarrow> 'k bus \<Rightarrow> (bus_error + nat option) \<times> 'k bus" where
  "await_admission c k b =
     (if the_stream k b \<noteq> None then (Inr None, b)
      else if map_of (bs_waiters b) k \<noteq> None
      then (Inl (CapacityExceeded ''scope already has an admission waiter''), b)
      else if bc_max_waiters c \<le> length (bs_waiters b)
      then (Inl (CapacityExceeded ''event stream admission queue is full''), b)
      else
        (let f = bs_next b;
             (e, b1) = grant_waiters c (b\<lparr>bs_next := f + 1, bs_futures := (bs_futures b)(f := Waiting),
                         bs_waiters := bs_waiters b @ [(k, f)]\<rparr>)
         in case e of Some x \<Rightarrow> (Inl x, b1) | None \<Rightarrow> (Inr (Some f), b1)))"

definition complete_admission :: "'k \<Rightarrow> nat option \<Rightarrow> 'k bus \<Rightarrow> 'k bus" where
  "complete_admission k adm b =
     (if adm \<noteq> None \<and> bs_grants b k = adm then b\<lparr>bs_grants := (bs_grants b)(k := None)\<rparr> else b)"

section \<open>Publication\<close>

definition slow_frame :: "rat \<Rightarrow> 'k stream \<Rightarrow> 'k bus_event" where
  "slow_frame now s = \<lparr>be_event = \<lparr>ee_type = ''error'', ee_meeting_id = None,
       ee_payload = [(''reason'', JStr ''slow_consumer''), (''reconnect'', JBool True),
                     (''close_code'', JNum 4409), (''fence_seq'', JNum (of_nat (st_seq s)))], ee_ts = now\<rparr>,
     be_seq = 0, be_epoch = st_epoch s, be_scope = None\<rparr>"

definition is_slow_frame :: "'k bus_event \<Rightarrow> bool" where
  "is_slow_frame e = (ee_type (be_event e) = ''error'' \<and>
     map_of (ee_payload (be_event e)) ''reason'' = Some (JStr ''slow_consumer''))"

text \<open>
  \<open>_fan_out_locked\<close>: a subscriber whose queue is full loses the queue's content, gets the
  slow-consumer frame and is unsubscribed.
\<close>

definition overflowing :: "bus_cfg \<Rightarrow> 'k bus \<Rightarrow> nat \<Rightarrow> bool" where
  "overflowing c b q = (bc_cap c \<le> length (bs_queues b q))"

definition fan_out :: "bus_cfg \<Rightarrow> rat \<Rightarrow> 'k \<Rightarrow> 'k stream \<Rightarrow> 'k bus_event \<Rightarrow> 'k bus \<Rightarrow> 'k bus" where
  "fan_out c now k s e b =
     (put_stream k (s\<lparr>st_subs := filter (\<lambda>q. \<not> overflowing c b q) (st_subs s)\<rparr>) b)
       \<lparr>bs_queues := (\<lambda>q. if q \<notin> set (st_subs s) then bs_queues b q
          else if overflowing c b q then [slow_frame now s] else bs_queues b q @ [e])\<rparr>"

definition trim :: "nat \<Rightarrow> 'a list \<Rightarrow> 'a list" where
  "trim n xs = drop (length xs - n) xs"

definition commit :: "bus_cfg \<Rightarrow> 'k \<Rightarrow> echo_event \<Rightarrow> 'k stream \<Rightarrow> 'k bus_event \<times> 'k stream" where
  "commit c k ev s =
     (let e = \<lparr>be_event = ev, be_seq = st_seq s + 1, be_epoch = st_epoch s, be_scope = Some k\<rparr>
      in (e, s\<lparr>st_seq := st_seq s + 1, st_history := trim (bc_replay c) (st_history s @ [e])\<rparr>))"

definition publish_to ::
    "bus_cfg \<Rightarrow> rat \<Rightarrow> 'k \<Rightarrow> echo_event \<Rightarrow> 'k bus \<Rightarrow> (bus_error + unit) \<times> 'k bus" where
  "publish_to c now k ev b =
     (case grant_waiters c b of
        (Some x, b1) \<Rightarrow> (Inl x, b1)
      | (None, b1) \<Rightarrow> (case stream_locked c k b1 of
          Inl x \<Rightarrow> (Inl x, b1)
        | Inr b2 \<Rightarrow> (let (e, s) = commit c k ev (the (the_stream k b2)) in (Inr (), fan_out c now k s e b2))))"

section \<open>Subscription\<close>

record stream_state =
  ss_epoch :: string
  ss_max_seq :: nat
  ss_oldest_seq :: nat

definition state_of :: "'k stream \<Rightarrow> stream_state" where
  "state_of s = \<lparr>ss_epoch = st_epoch s, ss_max_seq = st_seq s,
     ss_oldest_seq = (case st_history s of [] \<Rightarrow> 0 | e # _ \<Rightarrow> be_seq e)\<rparr>"

definition gap_reason :: "stream_state \<Rightarrow> nat \<Rightarrow> string option \<Rightarrow> string option" where
  "gap_reason st l ep =
     (if truthy_str ep \<and> ep \<noteq> Some (ss_epoch st) then Some ''stream_epoch_changed''
      else if ss_max_seq st < l then Some ''client_ahead_of_stream''
      else if ss_oldest_seq st \<noteq> 0 \<and> l + 1 < ss_oldest_seq st then Some ''history_expired''
      else if l < ss_max_seq st \<and> ss_oldest_seq st = 0 then Some ''history_unavailable''
      else None)"

text \<open>\<open>FencedEventSubscription\<close>; \<open>su_queue\<close> is the identity of its queue.\<close>

record 'k sub =
  su_state :: stream_state
  su_gap :: "string option"
  su_requested :: nat
  su_resume :: nat
  su_scope :: 'k
  su_queue :: nat
  su_replay :: "'k bus_event list"
  su_index :: nat
  su_closed :: bool
  su_slow :: bool

definition later_than :: "nat \<Rightarrow> 'k bus_event list \<Rightarrow> 'k bus_event list" where
  "later_than l es = filter (\<lambda>e. l < be_seq e) es"

text \<open>Registration of a new queue \<open>q\<close>, end of the admission, and a round of grants.\<close>

definition register ::
    "bus_cfg \<Rightarrow> 'k \<Rightarrow> nat \<Rightarrow> nat option \<Rightarrow> 'k stream \<Rightarrow> 'k bus \<Rightarrow> bus_error option \<times> 'k bus" where
  "register c k q adm s b =
     grant_waiters c (complete_admission k adm (put_stream k (s\<lparr>st_subs := q # st_subs s\<rparr>) b))"

definition abandon :: "bus_cfg \<Rightarrow> 'k \<Rightarrow> nat option \<Rightarrow> 'k bus \<Rightarrow> 'k bus" where
  "abandon c k adm b = (case adm of None \<Rightarrow> b | Some f \<Rightarrow> snd (cancel_admission c k f b))"

definition new_queue :: "'k bus \<Rightarrow> nat \<times> 'k bus" where
  "new_queue b = (bs_next b, b\<lparr>bs_next := bs_next b + 1, bs_queues := (bs_queues b)(bs_next b := [])\<rparr>)"

text \<open>The replay decision of \<open>open_fenced_subscription\<close> on the scope's stream.\<close>

definition fenced_sub :: "'k \<Rightarrow> nat \<Rightarrow> int \<Rightarrow> string option \<Rightarrow> bool \<Rightarrow> 'k stream \<Rightarrow> 'k sub" where
  "fenced_sub k q l ep at_latest s =
     (let st = state_of s;
          requested = (if at_latest then ss_max_seq st else nat l);
          gap = gap_reason st requested ep;
          resume = (if gap \<noteq> None then ss_max_seq st else requested)
      in \<lparr>su_state = st, su_gap = gap, su_requested = requested, su_resume = resume,
          su_scope = k, su_queue = q, su_replay = later_than resume (st_history s),
          su_index = 0, su_closed = False, su_slow = False\<rparr>)"

text \<open>\<open>open_fenced_subscription\<close> after the admission wait.\<close>

definition open_fenced ::
    "bus_cfg \<Rightarrow> 'k \<Rightarrow> int \<Rightarrow> string option \<Rightarrow> bool \<Rightarrow> nat option \<Rightarrow> 'k bus \<Rightarrow> (bus_error + 'k sub) \<times> 'k bus" where
  "open_fenced c k l ep at_latest adm b0 =
     (let (q, b) = new_queue b0 in
      case stream_locked c k b of
        Inl x \<Rightarrow> (Inl x, abandon c k adm b)
      | Inr b1 \<Rightarrow>
          (let s = the (the_stream k b1) in
           case register c k q adm s b1 of
             (Some x, b2) \<Rightarrow> (Inl x, abandon c k adm b2)
           | (None, b2) \<Rightarrow> (Inr (fenced_sub k q l ep at_latest s), b2)))"

text \<open>\<open>subscribe\<close> after the admission wait, up to its first \<open>yield\<close>: the queue and the replay.\<close>

definition subscribe ::
    "bus_cfg \<Rightarrow> 'k \<Rightarrow> nat \<Rightarrow> nat option \<Rightarrow> 'k bus \<Rightarrow> (bus_error + nat \<times> 'k bus_event list) \<times> 'k bus" where
  "subscribe c k since adm b0 =
     (let (q, b) = new_queue b0 in
      case stream_locked c k b of
        Inl x \<Rightarrow> (Inl x, abandon c k adm b)
      | Inr b1 \<Rightarrow>
          (let s = the (the_stream k b1) in
           case register c k q adm s b1 of
             (Some x, b2) \<Rightarrow> (Inl x, abandon c k adm b2)
           | (None, b2) \<Rightarrow> (Inr (q, later_than since (st_history s)), b2)))"

text \<open>\<open>_close_fenced_subscription\<close>, also the cleanup of \<open>subscribe\<close>.\<close>

definition close_queue :: "bus_cfg \<Rightarrow> 'k \<Rightarrow> nat \<Rightarrow> 'k bus \<Rightarrow> bus_error option \<times> 'k bus" where
  "close_queue c k q b = grant_waiters c
     (case the_stream k b of None \<Rightarrow> b
      | Some s \<Rightarrow> put_stream k (s\<lparr>st_subs := filter (\<lambda>r. r \<noteq> q) (st_subs s)\<rparr>) b)"

definition close_sub :: "bus_cfg \<Rightarrow> 'k sub \<Rightarrow> 'k bus \<Rightarrow> 'k sub \<times> 'k bus" where
  "close_sub c su b = (if su_closed su then (su, b)
     else (su\<lparr>su_closed := True\<rparr>, snd (close_queue c (su_scope su) (su_queue su) b)))"

text \<open>
  \<open>__anext__\<close>: the end of the iteration, an exception, an event, or (\<open>Blocks\<close>) waiting for
  the queue to receive one.
\<close>

datatype 'a next_result = Stop | Raises bus_error | Yields 'a | Blocks

definition deliver :: "'k bus_event \<Rightarrow> 'k sub \<Rightarrow> 'k sub" where
  "deliver e su = (if is_slow_frame e then su\<lparr>su_slow := True\<rparr> else su)"

definition sub_next :: "'k sub \<Rightarrow> 'k bus \<Rightarrow> 'k bus_event next_result \<times> 'k sub \<times> 'k bus" where
  "sub_next su b =
     (if su_closed su then (Stop, su, b)
      else if su_slow su then (Raises SlowConsumer, su, b)
      else if su_index su < length (su_replay su)
      then (let e = su_replay su ! su_index su in (Yields e, deliver e (su\<lparr>su_index := su_index su + 1\<rparr>), b))
      else case bs_queues b (su_queue su) of
             [] \<Rightarrow> (Blocks, su, b)
           | e # es \<Rightarrow> (Yields e, deliver e su, b\<lparr>bs_queues := (bs_queues b)(su_queue su := es)\<rparr>))"

section \<open>Inspection and shutdown\<close>

definition stream_state_for :: "bus_cfg \<Rightarrow> 'k \<Rightarrow> 'k bus \<Rightarrow> (bus_error + stream_state) \<times> 'k bus" where
  "stream_state_for c k b =
     (case the_stream k b of
        Some s \<Rightarrow> (Inr (state_of s), b)
      | None \<Rightarrow> (case stream_locked c k b of
          Inl x \<Rightarrow> (Inl x, b) | Inr b1 \<Rightarrow> (Inr (state_of (the (the_stream k b1))), b1)))"

definition replay_gap_reason ::
    "bus_cfg \<Rightarrow> 'k \<Rightarrow> nat \<Rightarrow> string option \<Rightarrow> 'k bus \<Rightarrow> (bus_error + string option) \<times> 'k bus" where
  "replay_gap_reason c k l ep b =
     (case stream_state_for c k b of
        (Inl x, b1) \<Rightarrow> (Inl x, b1) | (Inr st, b1) \<Rightarrow> (Inr (gap_reason st l ep), b1))"

definition recent_events :: "'k \<Rightarrow> int \<Rightarrow> 'k bus \<Rightarrow> py_error + 'k bus_event list" where
  "recent_events k limit b =
     (if limit < 1 then Inl (ValueError ''event history limit must be positive'')
      else Inr (case the_stream k b of None \<Rightarrow> [] | Some s \<Rightarrow> trim (nat limit) (st_history s)))"

definition subscriber_count :: "'k bus \<Rightarrow> nat" where
  "subscriber_count b = sum_list (map (\<lambda>p. length (st_subs (snd p))) (bs_streams b))"

definition shutdown_frame :: "rat \<Rightarrow> 'k stream \<Rightarrow> 'k bus_event" where
  "shutdown_frame now s = \<lparr>be_event = \<lparr>ee_type = ''error'', ee_meeting_id = None,
       ee_payload = [(''reason'', JStr ''server_shutting_down'')], ee_ts = now\<rparr>,
     be_seq = 0, be_epoch = st_epoch s, be_scope = None\<rparr>"

text \<open>\<open>aclose\<close>: a full queue does not get the farewell frame.\<close>

definition farewell :: "bus_cfg \<Rightarrow> rat \<Rightarrow> 'k stream \<Rightarrow> (nat \<Rightarrow> 'k bus_event list) \<Rightarrow> nat \<Rightarrow> 'k bus_event list" where
  "farewell c now s qs q =
     (if q \<in> set (st_subs s) \<and> length (qs q) < bc_cap c then qs q @ [shutdown_frame now s] else qs q)"

definition bus_aclose :: "bus_cfg \<Rightarrow> rat \<Rightarrow> 'k bus \<Rightarrow> 'k bus" where
  "bus_aclose c now b = b\<lparr>
     bs_futures := (\<lambda>f. if f \<in> snd ` set (bs_waiters b) \<and> bs_futures b f = Waiting then AdmissionCancelled
                    else bs_futures b f),
     bs_waiters := [], bs_grants := Map.empty,
     bs_queues := fold (farewell c now) (map snd (bs_streams b)) (bs_queues b),
     bs_streams := []\<rparr>"

end
