(* ===== verification/EventBusCorrect.thy ===== *)
theory EventBusCorrect
  imports EventBus Systems "HOL-Library.Sublist"
begin

text \<open>
  The event bus keeps its invariant.  Bookkeeping of streams and admissions is \<open>quiet\<close>: it
  never touches a stream that has subscribers nor any queue.  What a subscription is owed
  (\<open>sub_ok\<close>) survives every operation: publications extend it, an overflow or the shutdown
  ends it with one frame.  The last section puts the operations together as a step
  relation and interprets \<open>invariant_system\<close> on it.
\<close>

section \<open>The invariant\<close>

definition stream_ok :: "bus_cfg \<Rightarrow> 'k \<Rightarrow> 'k stream \<Rightarrow> bool" where
  "stream_ok c k s \<longleftrightarrow> length (st_history s) \<le> bc_replay c \<and> length (st_history s) \<le> st_seq s \<and>
     (st_seq s \<noteq> 0 \<longrightarrow> st_history s \<noteq> []) \<and>
     map be_seq (st_history s) = [Suc (st_seq s) - length (st_history s)..<Suc (st_seq s)] \<and>
     (\<forall>e \<in> set (st_history s). be_epoch e = st_epoch s \<and> be_scope e = Some k) \<and> distinct (st_subs s)"

definition subscribed :: "'k bus \<Rightarrow> 'k \<Rightarrow> nat \<Rightarrow> bool" where
  "subscribed b k q \<longleftrightarrow> (\<exists>s. the_stream k b = Some s \<and> q \<in> set (st_subs s))"

definition bus_core :: "bus_cfg \<Rightarrow> 'k bus \<Rightarrow> bool" where
  "bus_core c b \<longleftrightarrow> distinct (map fst (bs_streams b)) \<and> length (bs_streams b) \<le> bc_max_streams c \<and>
     (\<forall>k. bs_grants b k \<noteq> None \<longrightarrow> the_stream k b \<noteq> None) \<and>
     (\<forall>k s. the_stream k b = Some s \<longrightarrow> stream_ok c k s) \<and>
     (\<forall>k q. subscribed b k q \<longrightarrow> q < bs_next b \<and> length (bs_queues b q) \<le> bc_cap c) \<and>
     (\<forall>k k' q. subscribed b k q \<longrightarrow> subscribed b k' q \<longrightarrow> k = k')"

definition waiters_ok :: "bus_cfg \<Rightarrow> 'k bus \<Rightarrow> bool" where
  "waiters_ok c b \<longleftrightarrow> distinct (map fst (bs_waiters b)) \<and> length (bs_waiters b) \<le> bc_max_waiters c"

definition bus_inv :: "bus_cfg \<Rightarrow> 'k bus \<Rightarrow> bool" where
  "bus_inv c b \<longleftrightarrow> bus_core c b \<and> waiters_ok c b"

text \<open>
  What stream bookkeeping may do: it creates blank streams and drops streams without
  subscribers, and touches nothing else.
\<close>

definition blank :: "'k stream \<Rightarrow> bool" where
  "blank s \<longleftrightarrow> st_seq s = 0 \<and> st_history s = [] \<and> st_subs s = []"

definition quiet :: "'k bus \<Rightarrow> 'k bus \<Rightarrow> bool" where
  "quiet b b' \<longleftrightarrow> bs_queues b' = bs_queues b \<and> bs_next b \<le> bs_next b' \<and>
     (\<forall>k s. the_stream k b = Some s \<longrightarrow> st_subs s \<noteq> [] \<longrightarrow> the_stream k b' = Some s) \<and>
     (\<forall>k s. the_stream k b' = Some s \<longrightarrow> the_stream k b = Some s \<or> blank s)"

lemma quiet_refl [simp]: "quiet b b"
  by (simp add: quiet_def)

lemma quiet_trans: "quiet a b \<Longrightarrow> quiet b c \<Longrightarrow> quiet a c"
  unfolding quiet_def by (metis le_trans)

lemma blank_ok: "blank s \<Longrightarrow> stream_ok c k s"
  by (simp add: blank_def stream_ok_def)

lemma blank_new [simp]: "blank (new_stream ep)"
  by (simp add: blank_def new_stream_def)

lemma quiet_subscribed: "quiet b b' \<Longrightarrow> subscribed b' k q = subscribed b k q"
  unfolding quiet_def subscribed_def blank_def by (metis empty_iff empty_set)

lemma quiet_core:
  assumes "bus_core c b" "quiet b b'" "distinct (map fst (bs_streams b'))"
    "length (bs_streams b') \<le> bc_max_streams c" "\<And>k. bs_grants b' k \<noteq> None \<Longrightarrow> the_stream k b' \<noteq> None"
  shows "bus_core c b'"
proof -
  have "stream_ok c k s" if "the_stream k b' = Some s" for k s
    using assms(1,2) that blank_ok unfolding bus_core_def quiet_def by metis
  moreover have "q < bs_next b' \<and> length (bs_queues b' q) \<le> bc_cap c" if "subscribed b' k q" for k q
  proof -
    have "q < bs_next b \<and> length (bs_queues b q) \<le> bc_cap c"
      using assms(1) that unfolding bus_core_def quiet_subscribed[OF assms(2)] by blast
    then show ?thesis using assms(2) by (auto simp: quiet_def)
  qed
  moreover have "k = k'" if "subscribed b' k q" "subscribed b' k' q" for k k' q
    using assms(1) that unfolding bus_core_def quiet_subscribed[OF assms(2)] by blast
  ultimately show ?thesis
    using assms(3-5) unfolding bus_core_def by blast
qed

lemma the_stream_upd [simp]:
  "the_stream k (b\<lparr>bs_waiters := w\<rparr>) = the_stream k b" "the_stream k (b\<lparr>bs_grants := g\<rparr>) = the_stream k b"
  "the_stream k (b\<lparr>bs_futures := f\<rparr>) = the_stream k b" "the_stream k (b\<lparr>bs_queues := qs\<rparr>) = the_stream k b"
  "the_stream k (b\<lparr>bs_next := n\<rparr>) = the_stream k b"
  by (simp_all add: the_stream_def)

lemma the_stream_put [simp]:
  "the_stream k (put_stream k' s b) = (if k = k' then Some s else the_stream k b)"
  by (simp add: the_stream_def put_stream_def map_of_update)

lemma put_stream_sel [simp]:
  "bs_waiters (put_stream k s b) = bs_waiters b" "bs_grants (put_stream k s b) = bs_grants b"
  "bs_futures (put_stream k s b) = bs_futures b" "bs_queues (put_stream k s b) = bs_queues b"
  "bs_next (put_stream k s b) = bs_next b"
  by (simp_all add: put_stream_def)

lemma the_stream_move:
  "the_stream k' (b\<lparr>bs_streams := AList.delete k (bs_streams b) @ [(k, s)]\<rparr>) =
     (if k' = k then Some s else the_stream k' b)"
  by (auto simp: the_stream_def map_of_delete map_add_def split: option.splits)

lemma the_stream_fresh:
  "the_stream k b = None \<Longrightarrow> the_stream k' (b\<lparr>bs_streams := bs_streams b @ [(k, s)]\<rparr>) =
     (if k' = k then Some s else the_stream k' b)"
  by (auto simp: the_stream_def map_add_def split: option.splits)

lemma the_stream_drop:
  "the_stream k' (b\<lparr>bs_streams := AList.delete k (bs_streams b)\<rparr>) = (if k' = k then None else the_stream k' b)"
  by (simp add: the_stream_def map_of_delete)

lemma length_delete_distinct:
  "distinct (map fst xs) \<Longrightarrow> map_of xs k \<noteq> None \<Longrightarrow> Suc (length (AList.delete k xs)) = length xs"
  by (induction xs) (auto simp: delete_id image_iff, blast+)

lemma stream_locked_cases:
  assumes "stream_locked c k b = Inr b'" "distinct (map fst (bs_streams b))" "length (bs_streams b) \<le> bc_max_streams c"
  obtains s where "the_stream k b = Some s" "b' = b\<lparr>bs_streams := AList.delete k (bs_streams b) @ [(k, s)]\<rparr>"
  | b1 where "the_stream k b = None" "make_room c b = Inr b1"
      "b' = b1\<lparr>bs_streams := bs_streams b1 @ [(k, new_stream (bc_uuid c (bs_next b1)))], bs_next := bs_next b1 + 1\<rparr>"
proof (cases "the_stream k b")
  case None
  with assms(1) obtain b1 where "make_room c b = Inr b1"
    "b' = b1\<lparr>bs_streams := bs_streams b1 @ [(k, new_stream (bc_uuid c (bs_next b1)))], bs_next := bs_next b1 + 1\<rparr>"
    by (auto simp: stream_locked_def bindE_Inr_iff)
  with None that(2) show ?thesis by blast
next
  case (Some s)
  with assms(1) that(1) show ?thesis by (simp add: stream_locked_def)
qed

lemma make_room_ok:
  assumes "make_room c b = Inr b1" "bus_core c b" "1 \<le> bc_max_streams c"
  shows "quiet b b1" "bus_core c b1" "length (bs_streams b1) < bc_max_streams c"
    "\<And>k. the_stream k b = None \<Longrightarrow> the_stream k b1 = None"
    "bs_grants b1 = bs_grants b" "bs_waiters b1 = bs_waiters b" "bs_futures b1 = bs_futures b" "bs_next b1 = bs_next b"
proof -
  have core: "distinct (map fst (bs_streams b))" "length (bs_streams b) \<le> bc_max_streams c"
    using assms(2) by (simp_all add: bus_core_def)
  consider "b1 = b" "length (bs_streams b) < bc_max_streams c"
    | p where "find (idle b) (bs_streams b) = Some p" "b1 = b\<lparr>bs_streams := AList.delete (fst p) (bs_streams b)\<rparr>"
  proof (cases "length (bs_streams b) < bc_max_streams c")
    case True
    with assms(1) that(1) show ?thesis by (simp add: make_room_def)
  next
    case False
    with assms(1) that(2) show ?thesis by (cases "find (idle b) (bs_streams b)") (simp_all add: make_room_def)
  qed
  then have "quiet b b1 \<and> bus_core c b1 \<and> length (bs_streams b1) < bc_max_streams c \<and>
    (\<forall>k. the_stream k b = None \<longrightarrow> the_stream k b1 = None) \<and>
    bs_grants b1 = bs_grants b \<and> bs_waiters b1 = bs_waiters b \<and> bs_futures b1 = bs_futures b \<and> bs_next b1 = bs_next b"
  proof cases
    case 1
    then show ?thesis using assms(2) by simp
  next
    case 2
    from 2(1) have p: "p \<in> set (bs_streams b)" "idle b p" by (auto simp: find_Some_iff)
    from p(1) core(1) have at: "the_stream (fst p) b = Some (snd p)" by (simp add: the_stream_def)
    have len: "Suc (length (bs_streams b1)) = length (bs_streams b)"
      using length_delete_distinct[OF core(1), of "fst p"] at by (simp add: 2(2) the_stream_def)
    have q: "quiet b b1"
      using at p(2) by (auto simp: quiet_def 2(2) the_stream_drop idle_def)
    have "bus_core c b1"
    proof (rule quiet_core[OF assms(2) q])
      show "distinct (map fst (bs_streams b1))" using core(1) by (simp add: 2(2) distinct_delete)
      show "length (bs_streams b1) \<le> bc_max_streams c" using len core(2) by simp
      show "the_stream k b1 \<noteq> None" if "bs_grants b1 k \<noteq> None" for k
        using that assms(2) p(2) by (auto simp: 2(2) the_stream_drop idle_def bus_core_def)
    qed
    with q len core(2) show ?thesis by (simp add: 2(2) the_stream_drop)
  qed
  then show "quiet b b1" "bus_core c b1" "length (bs_streams b1) < bc_max_streams c"
    "\<And>k. the_stream k b = None \<Longrightarrow> the_stream k b1 = None"
    "bs_grants b1 = bs_grants b" "bs_waiters b1 = bs_waiters b" "bs_futures b1 = bs_futures b" "bs_next b1 = bs_next b"
    by blast+
qed

lemma stream_locked_ok:
  assumes "stream_locked c k b = Inr b'" "bus_core c b" "1 \<le> bc_max_streams c"
  shows "bus_core c b'" "quiet b b'" "the_stream k b' \<noteq> None" "bs_grants b' = bs_grants b"
    "bs_waiters b' = bs_waiters b" "bs_futures b' = bs_futures b" "\<And>s. the_stream k b = Some s \<Longrightarrow> the_stream k b' = Some s"
proof -
  have core: "distinct (map fst (bs_streams b))" "length (bs_streams b) \<le> bc_max_streams c"
    using assms(2) by (simp_all add: bus_core_def)
  have "bus_core c b' \<and> quiet b b' \<and> the_stream k b' \<noteq> None \<and> bs_grants b' = bs_grants b \<and>
    bs_waiters b' = bs_waiters b \<and> bs_futures b' = bs_futures b \<and>
    (\<forall>s. the_stream k b = Some s \<longrightarrow> the_stream k b' = Some s)"
    using assms(1) core
  proof (cases rule: stream_locked_cases)
    case (1 s)
    have same: "the_stream k' b' = the_stream k' b" for k'
      using 1 by (simp add: the_stream_move)
    have q: "quiet b b'" using 1 by (simp add: quiet_def same[unfolded 1(2)])
    have "bus_core c b'"
    proof (rule quiet_core[OF assms(2) q])
      show "distinct (map fst (bs_streams b'))" using core(1) by (simp add: 1(2) delete_keys distinct_removeAll)
      show "length (bs_streams b') \<le> bc_max_streams c"
        using core 1(1) length_delete_distinct[OF core(1), of k] by (simp add: 1(2) the_stream_def)
      show "the_stream k' b' \<noteq> None" if "bs_grants b' k' \<noteq> None" for k'
        using that assms(2) unfolding same by (auto simp: bus_core_def 1(2))
    qed
    with q 1(1) show ?thesis unfolding same by (simp add: 1(2))
  next
    case (2 b1)
    note r = make_room_ok[OF 2(2) assms(2,3)]
    have none: "the_stream k b1 = None" using r(4) 2(1) by blast
    have look: "the_stream k' b' = (if k' = k then Some (new_stream (bc_uuid c (bs_next b1))) else the_stream k' b1)" for k'
      using none by (simp add: 2(3) the_stream_fresh)
    have q1: "quiet b1 b'" using none by (auto simp: quiet_def look 2(3) the_stream_fresh)
    have "bus_core c b'"
    proof (rule quiet_core[OF r(2) q1])
      show "distinct (map fst (bs_streams b'))"
        using r(2) none by (auto simp: 2(3) bus_core_def the_stream_def map_of_eq_None_iff)
      show "length (bs_streams b') \<le> bc_max_streams c" using r(3) by (simp add: 2(3))
      show "the_stream k' b' \<noteq> None" if "bs_grants b' k' \<noteq> None" for k'
        using that r(2) unfolding look by (auto simp: bus_core_def 2(3))
    qed
    moreover have "bs_grants b' = bs_grants b" "bs_waiters b' = bs_waiters b" "bs_futures b' = bs_futures b"
      by (simp_all add: 2(3) r)
    ultimately show ?thesis using quiet_trans[OF r(1) q1] 2(1) by (simp add: look)
  qed
  then show "bus_core c b'" "quiet b b'" "the_stream k b' \<noteq> None" "bs_grants b' = bs_grants b"
    "bs_waiters b' = bs_waiters b" "bs_futures b' = bs_futures b" "\<And>s. the_stream k b = Some s \<Longrightarrow> the_stream k b' = Some s"
    by blast+
qed


lemma subscribed_upd [simp]:
  "subscribed (b\<lparr>bs_waiters := w\<rparr>) = subscribed b" "subscribed (b\<lparr>bs_grants := g\<rparr>) = subscribed b"
  "subscribed (b\<lparr>bs_futures := f\<rparr>) = subscribed b" "subscribed (b\<lparr>bs_queues := qs\<rparr>) = subscribed b"
  "subscribed (b\<lparr>bs_next := n\<rparr>) = subscribed b"
  by (simp_all add: subscribed_def fun_eq_iff)

lemma bus_core_upd [simp]:
  "bus_core c (b\<lparr>bs_waiters := w\<rparr>) = bus_core c b" "bus_core c (b\<lparr>bs_futures := f\<rparr>) = bus_core c b"
  by (simp_all add: bus_core_def)

lemma quiet_upd [simp]:
  "quiet b (b'\<lparr>bs_waiters := w\<rparr>) = quiet b b'" "quiet b (b'\<lparr>bs_grants := g\<rparr>) = quiet b b'"
  "quiet b (b'\<lparr>bs_futures := f\<rparr>) = quiet b b'"
  by (simp_all add: quiet_def)

lemma quiet_upd2 [simp]:
  "quiet (b\<lparr>bs_waiters := w\<rparr>) b' = quiet b b'" "quiet (b\<lparr>bs_grants := g\<rparr>) b' = quiet b b'"
  "quiet (b\<lparr>bs_futures := f\<rparr>) b' = quiet b b'"
  by (simp_all add: quiet_def)

lemma bus_core_grant:
  "bus_core c b \<Longrightarrow> the_stream k b \<noteq> None \<Longrightarrow> bus_core c (b\<lparr>bs_grants := (bs_grants b)(k \<mapsto> f)\<rparr>)"
  by (simp add: bus_core_def)

lemma bus_core_revoke: "bus_core c b \<Longrightarrow> bus_core c (b\<lparr>bs_grants := (bs_grants b)(k := None)\<rparr>)"
  by (simp add: bus_core_def)

lemma has_slot_upd [simp]:
  "has_scope_slot c (b\<lparr>bs_waiters := w\<rparr>) = has_scope_slot c b" "has_scope_slot c (b\<lparr>bs_futures := f\<rparr>) = has_scope_slot c b"
  by (simp_all add: has_scope_slot_def idle_def)

lemma make_room_total: "has_scope_slot c b \<Longrightarrow> \<exists>b'. make_room c b = Inr b'"
proof (cases "length (bs_streams b) < bc_max_streams c")
  case False
  assume "has_scope_slot c b"
  with False obtain p where "p \<in> set (bs_streams b)" "idle b p" unfolding has_scope_slot_def by blast
  then have "find (idle b) (bs_streams b) \<noteq> None" unfolding find_None_iff by blast
  with False show ?thesis by (cases "find (idle b) (bs_streams b)") (simp_all add: make_room_def)
qed (simp add: make_room_def)

lemma stream_locked_total: "the_stream k b \<noteq> None \<or> has_scope_slot c b \<Longrightarrow> \<exists>b'. stream_locked c k b = Inr b'"
  using make_room_total[of c b] by (cases "the_stream k b") (auto simp: stream_locked_def)

lemma stream_locked_none: "stream_locked c k b = Inl x \<Longrightarrow> the_stream k b = None \<and> \<not> has_scope_slot c b"
  by (rule ccontr) (use stream_locked_total[of k b c] in auto)

text \<open>A round of grants never raises, serves the queue from its head, and stops only when it must.\<close>

definition served :: "bus_cfg \<Rightarrow> 'k bus \<Rightarrow> bool" where
  "served c b \<longleftrightarrow> (case bs_waiters b of [] \<Rightarrow> True
     | p # _ \<Rightarrow> the_stream (fst p) b = None \<and> \<not> has_scope_slot c b)"

lemma grant_loop_ok:
  assumes "bus_core c b" "1 \<le> bc_max_streams c" "grant_loop c ws b = (e, b')"
  shows "e = None \<and> bus_core c b' \<and> quiet b b' \<and> suffix (bs_waiters b') ws \<and> served c b'"
  using assms
proof (induction c ws b rule: grant_loop.induct)
  case (1 c b)
  then show ?case by (auto simp: served_def)
next
  case (2 c k f ws b)
  consider (stop) "the_stream k b = None \<and> \<not> has_scope_slot c b"
    | (skip) "\<not> (the_stream k b = None \<and> \<not> has_scope_slot c b)" "bs_futures b f = AdmissionCancelled"
    | (grant) b1 where "\<not> (the_stream k b = None \<and> \<not> has_scope_slot c b)" "bs_futures b f \<noteq> AdmissionCancelled"
        "stream_locked c k b = Inr b1"
    using stream_locked_total[of k b c] by blast
  then show ?case
  proof cases
    case stop
    with 2(3-5) show ?thesis by (auto simp: served_def)
  next
    case skip
    from 2(1)[OF skip 2(3,4)] 2(5) skip show ?thesis by (auto intro: suffix_ConsI)
  next
    case grant
    note ok = stream_locked_ok[OF grant(3) 2(3,4)]
    have "bus_core c (b1\<lparr>bs_grants := (bs_grants b1)(k \<mapsto> f), bs_futures := (bs_futures b1)(f := Granted)\<rparr>)"
      using bus_core_grant[OF ok(1,3)] by simp
    from 2(2)[OF grant(1,2,3) this 2(4)] 2(5) grant quiet_trans[OF ok(2)] show ?thesis
      by (auto intro: suffix_ConsI)
  qed
qed

lemma grant_waiters_ok:
  assumes "bus_inv c b" "1 \<le> bc_max_streams c" "grant_waiters c b = (e, b')"
  shows "e = None" "bus_inv c b'" "quiet b b'" "served c b'"
proof -
  have "bus_core c b" using assms(1) by (simp add: bus_inv_def)
  note ok = grant_loop_ok[OF this assms(2) assms(3)[unfolded grant_waiters_def]]
  then have suf: "suffix (bs_waiters b') (bs_waiters b)" by blast
  then obtain xs where xs: "bs_waiters b = xs @ bs_waiters b'" by (auto simp: suffix_def)
  have "waiters_ok c b'"
    using assms(1) by (auto simp: bus_inv_def waiters_ok_def xs)
  with ok show "e = None" "bus_inv c b'" "quiet b b'" "served c b'" by (auto simp: bus_inv_def)
qed


lemma cancel_admission_ok:
  assumes "bus_inv c b" "1 \<le> bc_max_streams c" "cancel_admission c k f b = (e, b')"
  shows "e = None" "bus_inv c b'" "quiet b b'"
proof -
  define b1 where "b1 = (if map_of (bs_waiters b) k = Some f then b\<lparr>bs_waiters := AList.delete k (bs_waiters b)\<rparr> else b)"
  define b2 where "b2 = (if bs_grants b1 k = Some f then b1\<lparr>bs_grants := (bs_grants b1)(k := None)\<rparr> else b1)"
  have "bus_inv c b1"
    using assms(1) length_delete_le[of k "bs_waiters b"]
    by (auto simp: bus_inv_def waiters_ok_def b1_def delete_keys distinct_removeAll intro: le_trans)
  then have "bus_inv c b2"
    by (auto simp: b2_def bus_inv_def waiters_ok_def bus_core_revoke)
  moreover have "quiet b b2" by (simp add: b2_def b1_def)
  ultimately show "e = None" "bus_inv c b'" "quiet b b'"
    using grant_waiters_ok[of c b2 e b'] assms(2,3) quiet_trans[of b b2 b']
    by (simp_all add: cancel_admission_def Let_def b1_def[symmetric] b2_def[symmetric])
qed

lemma core_next: "bus_core c b \<Longrightarrow> bs_next b \<le> n \<Longrightarrow> bus_core c (b\<lparr>bs_next := n\<rparr>)"
  by (simp add: bus_core_def) (meson less_le_trans)

lemma await_admission_ok:
  assumes "bus_inv c b" "1 \<le> bc_max_streams c" "await_admission c k b = (r, b')"
  shows "bus_inv c b' \<and> quiet b b'"
proof (cases "the_stream k b \<noteq> None \<or> map_of (bs_waiters b) k \<noteq> None \<or> bc_max_waiters c \<le> length (bs_waiters b)")
  case True
  with assms(1,3) show ?thesis by (auto simp: await_admission_def split: if_splits)
next
  case False
  define b1 where "b1 = b\<lparr>bs_next := bs_next b + 1, bs_futures := (bs_futures b)(bs_next b := Waiting),
    bs_waiters := bs_waiters b @ [(k, bs_next b)]\<rparr>"
  obtain e b2 where g: "grant_waiters c b1 = (e, b2)" by fastforce
  have "k \<notin> fst ` set (bs_waiters b)" using False by (simp add: map_of_eq_None_iff)
  moreover have "bus_core c (b\<lparr>bs_next := bs_next b + 1\<rparr>)"
    using assms(1) by (auto simp: bus_inv_def intro: core_next)
  ultimately have "bus_inv c b1"
    using assms(1) False by (simp add: bus_inv_def waiters_ok_def b1_def)
  note ok = grant_waiters_ok[OF this assms(2) g]
  have "quiet b b1" by (simp add: b1_def quiet_def)
  moreover have "b' = b2"
    using assms(3) False g ok(1) by (simp add: await_admission_def Let_def b1_def)
  ultimately show ?thesis using ok quiet_trans by blast
qed

lemma complete_admission_ok:
  assumes "bus_inv c b"
  shows "bus_inv c (complete_admission k adm b)" "quiet b (complete_admission k adm b)"
  using assms by (auto simp: complete_admission_def bus_inv_def waiters_ok_def bus_core_revoke)

lemma keys_put: "map fst (AList.update k s xs) = (if k \<in> set (map fst xs) then map fst xs else map fst xs @ [k])"
  by (rule update_keys)

text \<open>Replacing a stream that is there by one with the same key.\<close>

lemma put_core:
  assumes "bus_core c b" "the_stream k b \<noteq> None" "stream_ok c k s"
    and "\<And>q. q \<in> set (st_subs s) \<Longrightarrow> q < bs_next b \<and> length (bs_queues b q) \<le> bc_cap c"
    and "\<And>q k'. q \<in> set (st_subs s) \<Longrightarrow> subscribed b k' q \<Longrightarrow> k' = k"
  shows "bus_core c (put_stream k s b)"
proof -
  have k: "k \<in> set (map fst (bs_streams b))"
    using assms(2) by (auto simp: the_stream_def map_of_eq_None_iff)
  have keys: "map fst (bs_streams (put_stream k s b)) = map fst (bs_streams b)"
    using k by (simp add: put_stream_def keys_put)
  have len: "length (bs_streams (put_stream k s b)) = length (bs_streams b)"
    using arg_cong[OF keys, of length] by simp
  have sub: "subscribed (put_stream k s b) k' q = (if k' = k then q \<in> set (st_subs s) else subscribed b k' q)" for k' q
    by (simp add: subscribed_def)
  show ?thesis
    using assms(1,3) unfolding bus_core_def keys len sub
    by (simp add: assms(4)) (metis assms(5))
qed


lemma drop_upt_from: "n \<le> m \<Longrightarrow> drop d [n..<m] = [n + d..<m]"
  by simp

lemma commit_ok:
  assumes "stream_ok c k s" "1 \<le> bc_replay c" "commit c k ev s = (e, s')"
  shows "stream_ok c k s'" "st_seq s' = Suc (st_seq s)" "be_seq e = Suc (st_seq s)" "st_epoch s' = st_epoch s"
    "be_epoch e = st_epoch s" "be_scope e = Some k" "st_subs s' = st_subs s"
proof -
  let ?h = "st_history s @ [e]"
  have e: "e = \<lparr>be_event = ev, be_seq = st_seq s + 1, be_epoch = st_epoch s, be_scope = Some k\<rparr>"
    and s': "s' = s\<lparr>st_seq := st_seq s + 1, st_history := trim (bc_replay c) ?h\<rparr>"
    using assms(3) by (auto simp: commit_def Let_def)
  show "st_seq s' = Suc (st_seq s)" "be_seq e = Suc (st_seq s)" "st_epoch s' = st_epoch s"
    "be_epoch e = st_epoch s" "be_scope e = Some k" "st_subs s' = st_subs s"
    by (simp_all add: e s')
  have len: "length (st_history s) \<le> st_seq s"
    and seqs: "map be_seq (st_history s) = [Suc (st_seq s) - length (st_history s)..<Suc (st_seq s)]"
    and tags: "\<forall>e \<in> set (st_history s). be_epoch e = st_epoch s \<and> be_scope e = Some k"
    using assms(1) by (simp_all add: stream_ok_def)
  have all: "map be_seq ?h = [Suc (st_seq s) - length (st_history s)..<Suc (Suc (st_seq s))]"
    using len by (simp add: seqs e)
  have trimmed: "map be_seq (trim n ?h) = [Suc (Suc (st_seq s)) - length (trim n ?h)..<Suc (Suc (st_seq s))]" for n
  proof -
    have "Suc (st_seq s) - length (st_history s) + (length ?h - n) = Suc (Suc (st_seq s)) - (length ?h - (length ?h - n))"
      using len by simp
    then show ?thesis unfolding trim_def drop_map[symmetric] all by (simp only: drop_upt length_drop)
  qed
  have sub: "set (trim n ?h) \<subseteq> set ?h" for n
    unfolding trim_def by (rule set_drop_subset)
  have "length (trim (bc_replay c) ?h) \<le> bc_replay c" "trim (bc_replay c) ?h \<noteq> []"
    using assms(2) by (auto simp: trim_def)
  moreover have "length (trim (bc_replay c) ?h) \<le> Suc (st_seq s)"
    using len by (simp add: trim_def)
  moreover have "be_epoch x = st_epoch s \<and> be_scope x = Some k" if "x \<in> set (trim (bc_replay c) ?h)" for x
    using that sub[of "bc_replay c"] tags by (auto simp: e)
  ultimately show "stream_ok c k s'"
    using assms(1) trimmed[of "bc_replay c"] by (simp add: stream_ok_def s')
qed

lemma fan_out_subscribed:
  "subscribed (fan_out c now k s e b) k' q =
     (if k' = k then q \<in> set (st_subs s) \<and> \<not> overflowing c b q else subscribed b k' q)"
  by (auto simp: fan_out_def subscribed_def)

lemma fan_out_queue:
  "bs_queues (fan_out c now k s e b) q =
     (if q \<notin> set (st_subs s) then bs_queues b q
      else if overflowing c b q then [slow_frame now s] else bs_queues b q @ [e])"
  by (simp add: fan_out_def)

lemma fan_out_core:
  assumes "bus_core c b" "the_stream k b = Some s0" "st_subs s = st_subs s0" "stream_ok c k s"
  shows "bus_core c (fan_out c now k s e b)"
proof -
  let ?s = "s\<lparr>st_subs := filter (\<lambda>q. \<not> overflowing c b q) (st_subs s)\<rparr>"
  let ?b = "b\<lparr>bs_queues := bs_queues (fan_out c now k s e b)\<rparr>"
  have subs: "subscribed b k q" if "q \<in> set (st_subs s)" for q
    using that assms(2,3) by (auto simp: subscribed_def)
  have uniq: "k' = k" if "subscribed b k' q" "q \<in> set (st_subs s)" for k' q
    using assms(1) that(1) subs[OF that(2)] unfolding bus_core_def by blast
  have b: "bus_core c (put_stream k ?s b)"
  proof (rule put_core)
    show "bus_core c b" by fact
    show "the_stream k b \<noteq> None" using assms(2) by simp
    show "stream_ok c k ?s" using assms(4) by (simp add: stream_ok_def)
    show "q < bs_next b \<and> length (bs_queues b q) \<le> bc_cap c" if "q \<in> set (st_subs ?s)" for q
    proof -
      from that have "subscribed b k q" using subs by simp
      with assms(1) show ?thesis unfolding bus_core_def by blast
    qed
    show "k' = k" if "q \<in> set (st_subs ?s)" "subscribed b k' q" for q k'
      using that uniq by simp
  qed
  have q: "length (bs_queues (fan_out c now k s e b) q) \<le> bc_cap c"
    if "subscribed (put_stream k ?s b) k' q" for k' q
  proof (cases "q \<in> set (st_subs s)")
    case True
    have "k' = k"
    proof (rule ccontr)
      assume "k' \<noteq> k"
      with that have "subscribed b k' q" by (simp add: subscribed_def)
      from uniq[OF this True] \<open>k' \<noteq> k\<close> show False by simp
    qed
    with that have "\<not> overflowing c b q" by (simp add: subscribed_def)
    with True show ?thesis by (simp add: fan_out_queue overflowing_def)
  next
    case False
    with that b show ?thesis unfolding bus_core_def by (auto simp: fan_out_queue)
  qed
  have "fan_out c now k s e b = (put_stream k ?s b)\<lparr>bs_queues := bs_queues (fan_out c now k s e b)\<rparr>"
    by (simp add: fan_out_def)
  moreover have "bus_core c ((put_stream k ?s b)\<lparr>bs_queues := bs_queues (fan_out c now k s e b)\<rparr>)"
    using b q unfolding bus_core_def by simp
  ultimately show ?thesis by simp
qed

lemma publish_to_cases:
  assumes "bus_inv c b" "bus_cfg_ok c" "publish_to c now k ev b = (r, b')"
  obtains "bus_inv c b'" "quiet b b'"
  | b2 s e s' where "bus_inv c b2" "quiet b b2" "the_stream k b2 = Some s" "commit c k ev s = (e, s')"
      "b' = fan_out c now k s' e b2" "r = Inr ()"
proof -
  have cfg: "1 \<le> bc_max_streams c" using assms(2) by (simp add: bus_cfg_ok_def)
  obtain x b1 where g: "grant_waiters c b = (x, b1)" by fastforce
  note ok = grant_waiters_ok[OF assms(1) cfg g]
  show thesis
  proof (cases "stream_locked c k b1")
    case (Inl y)
    then show thesis using assms(3) g ok that(1) by (simp add: publish_to_def)
  next
    case (Inr b2)
    have "bus_core c b1" using ok(2) by (simp add: bus_inv_def)
    note sl = stream_locked_ok[OF Inr this cfg]
    obtain s where s: "the_stream k b2 = Some s" using sl(3) by blast
    obtain e s' where cm: "commit c k ev s = (e, s')" by fastforce
    have "bus_inv c b2" using ok(2) sl(1,5) by (simp add: bus_inv_def waiters_ok_def)
    moreover have "quiet b b2" using quiet_trans[OF ok(3) sl(2)] .
    ultimately show thesis
      using assms(3) g ok(1) Inr s cm that(2) by (simp add: publish_to_def)
  qed
qed


section \<open>Registration\<close>

lemma new_queue_ok:
  assumes "new_queue b0 = (q, b)" "bus_inv c b0"
  shows "q = bs_next b0" "bs_next b = Suc q" "bs_queues b q = []" "bus_inv c b" "\<not> subscribed b k q"
    "the_stream k b = the_stream k b0" "\<And>r. r \<noteq> q \<Longrightarrow> bs_queues b r = bs_queues b0 r"
proof -
  have b: "q = bs_next b0" "b = b0\<lparr>bs_next := bs_next b0 + 1, bs_queues := (bs_queues b0)(bs_next b0 := [])\<rparr>"
    using assms(1) by (auto simp: new_queue_def)
  then show "q = bs_next b0" "bs_next b = Suc q" "bs_queues b q = []" "the_stream k b = the_stream k b0"
    "\<And>r. r \<noteq> q \<Longrightarrow> bs_queues b r = bs_queues b0 r"
    by simp_all
  have core: "bus_core c b0" using assms(2) by (simp add: bus_inv_def)
  then have lt: "subscribed b0 k q' \<Longrightarrow> q' < bs_next b0 \<and> length (bs_queues b0 q') \<le> bc_cap c" for k q'
    unfolding bus_core_def by blast
  then show "\<not> subscribed b k q" unfolding b by (metis less_irrefl subscribed_upd(4,5))
  have "subscribed b = subscribed b0" by (simp add: b)
  then have "bus_core c b"
    using core lt unfolding bus_core_def by (auto simp: b intro: less_SucI)
  then show "bus_inv c b" using assms(2) by (simp add: bus_inv_def waiters_ok_def b)
qed

lemma register_ok:
  assumes "bus_inv c b" "1 \<le> bc_max_streams c" "the_stream k b = Some s"
    and "q < bs_next b" "bs_queues b q = []" "\<And>k'. \<not> subscribed b k' q"
    and "register c k q adm s b = (e, b')"
  shows "e = None" "bus_inv c b'" "quiet (put_stream k (s\<lparr>st_subs := q # st_subs s\<rparr>) b) b'"
proof -
  let ?s = "s\<lparr>st_subs := q # st_subs s\<rparr>"
  have core: "bus_core c b" using assms(1) by (simp add: bus_inv_def)
  have "bus_core c (put_stream k ?s b)"
  proof (rule put_core[OF core])
    show "the_stream k b \<noteq> None" using assms(3) by simp
    have "stream_ok c k s" using core assms(3) by (simp add: bus_core_def)
    moreover have "q \<notin> set (st_subs s)" using assms(3,6) by (auto simp: subscribed_def)
    ultimately show "stream_ok c k ?s" by (simp add: stream_ok_def)
    show "r < bs_next b \<and> length (bs_queues b r) \<le> bc_cap c" if "r \<in> set (st_subs ?s)" for r
    proof (cases "r = q")
      case False
      with that assms(3) have "subscribed b k r" by (simp add: subscribed_def)
      with core show ?thesis unfolding bus_core_def by blast
    qed (use assms(4,5) in simp)
    show "k' = k" if "r \<in> set (st_subs ?s)" "subscribed b k' r" for r k'
    proof (cases "r = q")
      case True
      with that(2) assms(6) show ?thesis by simp
    next
      case False
      with that(1) assms(3) have "subscribed b k r" by (simp add: subscribed_def)
      with that(2) core show ?thesis unfolding bus_core_def by blast
    qed
  qed
  then have "bus_inv c (put_stream k ?s b)"
    using assms(1) by (simp add: bus_inv_def waiters_ok_def)
  note ca = complete_admission_ok[OF this, of k adm]
  note gw = grant_waiters_ok[OF ca(1) assms(2) assms(7)[unfolded register_def]]
  show "e = None" "bus_inv c b'" by (fact gw(1), fact gw(2))
  show "quiet (put_stream k ?s b) b'" using quiet_trans[OF ca(2) gw(3)] .
qed

lemma abandon_ok:
  assumes "bus_inv c b" "1 \<le> bc_max_streams c"
  shows "bus_inv c (abandon c k adm b)" "quiet b (abandon c k adm b)"
  using assms cancel_admission_ok[of c b k "the adm"]
  by (auto simp: abandon_def split: option.splits) (metis prod.collapse)+

lemma close_queue_ok:
  assumes "bus_inv c b" "1 \<le> bc_max_streams c" "close_queue c k q b = (e, b')"
  shows "bus_inv c b' \<and> ((the_stream k b = None \<and> quiet b b') \<or>
    (\<exists>s. the_stream k b = Some s \<and> quiet (put_stream k (s\<lparr>st_subs := filter (\<lambda>r. r \<noteq> q) (st_subs s)\<rparr>) b) b'))"
proof (cases "the_stream k b")
  case None
  with assms grant_waiters_ok[OF assms(1,2)] show ?thesis by (simp add: close_queue_def)
next
  case (Some s)
  let ?s = "s\<lparr>st_subs := filter (\<lambda>r. r \<noteq> q) (st_subs s)\<rparr>"
  have core: "bus_core c b" using assms(1) by (simp add: bus_inv_def)
  have sub: "subscribed b k r" if "r \<in> set (st_subs ?s)" for r
    using that Some by (simp add: subscribed_def)
  have "bus_core c (put_stream k ?s b)"
  proof (rule put_core[OF core])
    show "the_stream k b \<noteq> None" using Some by simp
    have "stream_ok c k s" using core Some by (simp add: bus_core_def)
    then show "stream_ok c k ?s" by (simp add: stream_ok_def)
    show "r < bs_next b \<and> length (bs_queues b r) \<le> bc_cap c" if "r \<in> set (st_subs ?s)" for r
      using core sub[OF that] unfolding bus_core_def by blast
    show "k' = k" if "r \<in> set (st_subs ?s)" "subscribed b k' r" for r k'
      using core sub[OF that(1)] that(2) unfolding bus_core_def by blast
  qed
  then have "bus_inv c (put_stream k ?s b)"
    using assms(1) by (simp add: bus_inv_def waiters_ok_def)
  from grant_waiters_ok[OF this assms(2)] Some assms(3) show ?thesis by (simp add: close_queue_def)
qed


section \<open>What a subscription is owed\<close>

text \<open>
  \<open>run_of k ep r es\<close>: \<open>es\<close> are the events of scope \<open>k\<close> and epoch \<open>ep\<close> that follow number
  \<open>r\<close>, all of them and in order.  \<open>frames fs\<close>: at most one error frame of the bus.
\<close>

definition run_of :: "'k \<Rightarrow> string \<Rightarrow> nat \<Rightarrow> 'k bus_event list \<Rightarrow> bool" where
  "run_of k ep r es \<longleftrightarrow> map be_seq es = [Suc r..<Suc r + length es] \<and>
     (\<forall>e \<in> set es. be_epoch e = ep \<and> be_scope e = Some k)"

definition frames :: "'k bus_event list \<Rightarrow> bool" where
  "frames fs \<longleftrightarrow> length fs \<le> 1 \<and> (\<forall>f \<in> set fs. be_seq f = 0 \<and> ee_type (be_event f) = ''error'')"

definition pending :: "'k sub \<Rightarrow> 'k bus \<Rightarrow> 'k bus_event list" where
  "pending su b = drop (su_index su) (su_replay su) @ bs_queues b (su_queue su)"

text \<open>Attached: still subscribed, and served up to the stream's present number.\<close>

definition attached :: "'k sub \<Rightarrow> nat \<Rightarrow> 'k bus \<Rightarrow> bool" where
  "attached su n b \<longleftrightarrow> (\<exists>s. the_stream (su_scope su) b = Some s \<and>
     st_epoch s = ss_epoch (su_state su) \<and> st_seq s = su_resume su + n)"

definition sub_ok :: "'k bus_event list \<Rightarrow> 'k sub \<Rightarrow> 'k bus \<Rightarrow> bool" where
  "sub_ok got su b \<longleftrightarrow> su_queue su < bs_next b \<and> (\<exists>es fs. got @ pending su b = es @ fs \<and>
     run_of (su_scope su) (ss_epoch (su_state su)) (su_resume su) es \<and> frames fs \<and>
     (\<forall>k. subscribed b k (su_queue su) \<longrightarrow> k = su_scope su \<and> fs = [] \<and> attached su (length es) b))"

lemma run_of_append: "run_of k ep r es \<Longrightarrow> be_seq e = Suc (r + length es) \<Longrightarrow> be_epoch e = ep \<Longrightarrow>
    be_scope e = Some k \<Longrightarrow> run_of k ep r (es @ [e])"
  by (auto simp: run_of_def)

lemma run_of_prefix: "run_of k ep r (es @ fs) \<Longrightarrow> run_of k ep r es"
proof -
  assume r: "run_of k ep r (es @ fs)"
  then have "map be_seq (es @ fs) = [Suc r..<Suc r + length (es @ fs)]" by (simp add: run_of_def)
  then have "take (length es) (map be_seq (es @ fs)) = take (length es) [Suc r..<Suc r + length (es @ fs)]" by (rule arg_cong)
  moreover have "take (length es) (map be_seq (es @ fs)) = map be_seq es" by simp
  moreover have "take (length es) [Suc r..<Suc r + length (es @ fs)] = [Suc r..<Suc r + length es]"
    by (rule take_upt) simp
  ultimately have "map be_seq es = [Suc r..<Suc r + length es]" by (simp only:)
  with r show ?thesis by (auto simp: run_of_def)
qed

lemma frames_nil [simp]: "frames []"
  by (simp add: frames_def)

lemma sub_ok_mono:
  assumes "sub_ok got su b" "bs_next b \<le> bs_next b'" "bs_queues b' (su_queue su) = bs_queues b (su_queue su)"
    and "\<And>k. subscribed b' k (su_queue su) \<Longrightarrow> subscribed b k (su_queue su)"
    and "\<And>n. subscribed b' (su_scope su) (su_queue su) \<Longrightarrow> attached su n b \<Longrightarrow> attached su n b'"
  shows "sub_ok got su b'"
proof -
  obtain es fs where es: "got @ pending su b = es @ fs"
    "run_of (su_scope su) (ss_epoch (su_state su)) (su_resume su) es" "frames fs"
    "\<forall>k. subscribed b k (su_queue su) \<longrightarrow> k = su_scope su \<and> fs = [] \<and> attached su (length es) b"
    using assms(1) unfolding sub_ok_def by blast
  have "pending su b' = pending su b" using assms(3) by (simp add: pending_def)
  moreover have "su_queue su < bs_next b'" using assms(1,2) by (auto simp: sub_ok_def)
  moreover have "\<forall>k. subscribed b' k (su_queue su) \<longrightarrow> k = su_scope su \<and> fs = [] \<and> attached su (length es) b'"
    using es(4) assms(4,5) by blast
  ultimately show ?thesis using es(1,2,3) unfolding sub_ok_def by metis
qed

lemma sub_ok_quiet:
  assumes "quiet b b'" "sub_ok got su b"
  shows "sub_ok got su b'"
proof (rule sub_ok_mono[OF assms(2)])
  show "attached su n b'" if "subscribed b' (su_scope su) (su_queue su)" "attached su n b" for n
  proof -
    from that(1) obtain s where s: "the_stream (su_scope su) b = Some s" "su_queue su \<in> set (st_subs s)"
      unfolding quiet_subscribed[OF assms(1)] by (auto simp: subscribed_def)
    from s(2) have "st_subs s \<noteq> []" by auto
    with assms(1) s(1) have "the_stream (su_scope su) b' = Some s" unfolding quiet_def by blast
    with s(1) that(2) show ?thesis by (simp add: attached_def)
  qed
qed (use assms(1) quiet_subscribed[OF assms(1)] in \<open>auto simp: quiet_def\<close>)

lemma sub_ok_subscribed:
  assumes "sub_ok got su b" "subscribed b k (su_queue su)"
  shows "run_of k (ss_epoch (su_state su)) (su_resume su) (got @ pending su b)" "k = su_scope su"
    "attached su (length (got @ pending su b)) b" "su_queue su < bs_next b"
proof -
  obtain es fs where es: "got @ pending su b = es @ fs"
    "run_of (su_scope su) (ss_epoch (su_state su)) (su_resume su) es"
    "\<forall>k. subscribed b k (su_queue su) \<longrightarrow> k = su_scope su \<and> fs = [] \<and> attached su (length es) b"
    using assms(1) unfolding sub_ok_def by blast
  from es(3) assms(2) have "k = su_scope su" "fs = []" "attached su (length es) b" by blast+
  with es(1,2) show "run_of k (ss_epoch (su_state su)) (su_resume su) (got @ pending su b)" "k = su_scope su"
    "attached su (length (got @ pending su b)) b" by simp_all
  show "su_queue su < bs_next b" using assms(1) by (simp add: sub_ok_def)
qed

lemma subscribed_unique: "bus_inv c b \<Longrightarrow> subscribed b k q \<Longrightarrow> subscribed b k' q \<Longrightarrow> k' = k"
  unfolding bus_inv_def bus_core_def by blast

lemma sub_ok_put:
  assumes "sub_ok got su b" "the_stream k b = Some s" "st_seq s' = st_seq s" "st_epoch s' = st_epoch s"
    and "su_queue su \<in> set (st_subs s') \<Longrightarrow> su_queue su \<in> set (st_subs s)"
  shows "sub_ok got su (put_stream k s' b)"
  by (rule sub_ok_mono[OF assms(1)])
    (use assms(2-5) in \<open>auto simp: subscribed_def attached_def split: if_splits\<close>)

lemma sub_ok_new_queue:
  assumes "new_queue b0 = (q, b)" "bus_inv c b0" "sub_ok got su b0"
  shows "sub_ok got su b" "su_queue su \<noteq> q"
proof -
  show "su_queue su \<noteq> q" using assms(3) new_queue_ok(1)[OF assms(1,2)] by (auto simp: sub_ok_def)
  then show "sub_ok got su b"
    using new_queue_ok[OF assms(1,2)]
    by (intro sub_ok_mono[OF assms(3)]) (simp_all add: subscribed_def attached_def)
qed

lemma sub_ok_fan_out:
  assumes "sub_ok got su b" "the_stream k b = Some s" "commit c k ev s = (e, s')" "bus_inv c b" "bus_cfg_ok c"
  shows "sub_ok got su (fan_out c now k s' e b)"
proof -
  have "stream_ok c k s" using assms(2,4) by (simp add: bus_inv_def bus_core_def)
  note cm = commit_ok[OF this _ assms(3)]
  have cm: "st_seq s' = Suc (st_seq s)" "be_seq e = Suc (st_seq s)" "st_epoch s' = st_epoch s"
    "be_epoch e = st_epoch s" "be_scope e = Some k" "st_subs s' = st_subs s"
    using cm assms(5) by (simp_all add: bus_cfg_ok_def)
  let ?q = "su_queue su" and ?b = "fan_out c now k s' e b"
  have look: "the_stream k' ?b = (if k' = k then Some (s'\<lparr>st_subs := filter (\<lambda>q. \<not> overflowing c b q) (st_subs s')\<rparr>)
      else the_stream k' b)" for k'
    by (simp add: fan_out_def)
  have next_b: "bs_next ?b = bs_next b" by (simp add: fan_out_def)
  show ?thesis
  proof (cases "?q \<in> set (st_subs s)")
    case False
    show ?thesis
    proof (rule sub_ok_mono[OF assms(1)])
      show "subscribed b k' ?q" if "subscribed ?b k' ?q" for k'
        using that False by (auto simp: fan_out_subscribed cm split: if_splits)
      show "attached su n ?b" if "subscribed ?b (su_scope su) ?q" "attached su n b" for n
        using that False by (auto simp: fan_out_subscribed cm attached_def look split: if_splits)
    qed (simp_all add: next_b fan_out_queue cm False)
  next
    case True
    then have "subscribed b k ?q" using assms(2) by (auto simp: subscribed_def)
    define es where "es = got @ pending su b"
    from sub_ok_subscribed[OF assms(1) \<open>subscribed b k ?q\<close>]
    have es: "got @ pending su b = es" "run_of k (ss_epoch (su_state su)) (su_resume su) es"
      "k = su_scope su" "attached su (length es) b" "?q < bs_next b"
      by (simp_all add: es_def)
    have st: "st_epoch s = ss_epoch (su_state su)" "st_seq s = su_resume su + length es"
      using es(3,4) assms(2) by (auto simp: attached_def)
    show ?thesis
    proof (cases "overflowing c b ?q")
      case ov: True
      have "run_of k (ss_epoch (su_state su)) (su_resume su) (got @ drop (su_index su) (su_replay su))"
        using es(1,2) run_of_prefix[of k _ _ "got @ drop (su_index su) (su_replay su)" "bs_queues b ?q"]
        by (simp add: pending_def)
      moreover have "got @ pending su ?b = (got @ drop (su_index su) (su_replay su)) @ [slow_frame now s']"
        using True ov by (simp add: pending_def fan_out_queue cm)
      moreover have "frames [slow_frame now s']" by (simp add: frames_def slow_frame_def)
      moreover have "\<not> subscribed ?b k' ?q" for k'
        using True ov subscribed_unique[OF assms(4) \<open>subscribed b k ?q\<close>, of k'] by (auto simp: fan_out_subscribed cm)
      ultimately show ?thesis using es(3,5) unfolding sub_ok_def next_b by blast
    next
      case nov: False
      have "run_of k (ss_epoch (su_state su)) (su_resume su) (es @ [e])"
        by (rule run_of_append[OF es(2)]) (simp_all add: cm st)
      moreover have "got @ pending su ?b = es @ [e]"
        using True nov es(1) by (simp add: pending_def fan_out_queue cm)
      moreover have "k' = su_scope su" if "subscribed ?b k' ?q" for k'
        using that subscribed_unique[OF assms(4) \<open>subscribed b k ?q\<close>, of k'] es(3)
        by (auto simp: fan_out_subscribed split: if_splits)
      moreover have "attached su (length (es @ [e])) ?b"
        by (simp add: attached_def es(3)[symmetric] look cm st)
      ultimately show ?thesis using es(3,5) unfolding sub_ok_def next_b
        by (intro conjI exI[of _ "es @ [e]"] exI[of _ "[]"]) auto
    qed
  qed
qed


lemma later_than_run:
  assumes "stream_ok c k s" "Suc l \<ge> Suc (st_seq s) - length (st_history s)" "l \<le> st_seq s"
  shows "run_of k (st_epoch s) l (later_than l (st_history s))" "length (later_than l (st_history s)) = st_seq s - l"
proof -
  have "map be_seq (later_than l (st_history s)) = filter (\<lambda>n. l < n) (map be_seq (st_history s))"
    by (simp add: later_than_def filter_map comp_def)
  also have "\<dots> = filter (\<lambda>n. l < n) [Suc (st_seq s) - length (st_history s)..<Suc (st_seq s)]"
    using assms(1) by (simp only: stream_ok_def)
  also have "\<dots> = [Suc l..<Suc (st_seq s)]"
  proof -
    have "[Suc (st_seq s) - length (st_history s)..<Suc (st_seq s)] =
      [Suc (st_seq s) - length (st_history s)..<Suc l] @ [Suc l..<Suc (st_seq s)]"
      using upt_add_eq_append[of "Suc (st_seq s) - length (st_history s)" "Suc l" "st_seq s - l"] assms(2,3) by simp
    then show ?thesis by (auto simp: filter_empty_conv intro!: filter_True)
  qed
  finally have m: "map be_seq (later_than l (st_history s)) = [Suc l..<Suc (st_seq s)]" .
  have len: "length (later_than l (st_history s)) = st_seq s - l"
    using arg_cong[OF m, of length] by (simp del: upt_Suc)
  then show "length (later_than l (st_history s)) = st_seq s - l" .
  show "run_of k (st_epoch s) l (later_than l (st_history s))"
  proof -
    have "Suc l + (st_seq s - l) = Suc (st_seq s)" using assms(3) by simp
    moreover have "\<forall>e \<in> set (later_than l (st_history s)). be_epoch e = st_epoch s \<and> be_scope e = Some k"
      using assms(1) by (simp add: stream_ok_def later_than_def)
    ultimately show ?thesis unfolding run_of_def m len by simp
  qed
qed

lemma oldest_seq:
  assumes "stream_ok c k s"
  shows "ss_oldest_seq (state_of s) = (if st_seq s = 0 then 0 else Suc (st_seq s) - length (st_history s))"
proof (cases "st_history s")
  case Nil
  with assms show ?thesis by (auto simp: stream_ok_def state_of_def)
next
  case (Cons e h)
  from assms have "map be_seq (st_history s) = [Suc (st_seq s) - length (st_history s)..<Suc (st_seq s)]"
    by (simp add: stream_ok_def)
  moreover have "be_seq e = hd (map be_seq (st_history s))" by (simp add: Cons)
  moreover have "hd [Suc (st_seq s) - length (st_history s)..<Suc (st_seq s)] = Suc (st_seq s) - length (st_history s)"
    by (rule hd_upt) (simp add: Cons)
  ultimately have "be_seq e = Suc (st_seq s) - length (st_history s)" by (simp only:)
  moreover have "st_seq s \<noteq> 0" using assms Cons by (auto simp: stream_ok_def)
  ultimately show ?thesis by (simp add: state_of_def Cons)
qed

text \<open>No gap is reported exactly when everything after the requested number can be replayed.\<close>

lemma gap_reason_None:
  assumes "stream_ok c k s"
  shows "gap_reason (state_of s) l ep = None \<longleftrightarrow> (truthy_str ep \<longrightarrow> ep = Some (st_epoch s)) \<and> l \<le> st_seq s \<and>
    Suc (st_seq s) - length (st_history s) \<le> Suc l"
proof -
  have "length (st_history s) \<le> st_seq s" "st_seq s \<noteq> 0 \<Longrightarrow> st_history s \<noteq> []"
    using assms by (simp_all add: stream_ok_def)
  moreover have "ss_epoch (state_of s) = st_epoch s" "ss_max_seq (state_of s) = st_seq s" by (simp_all add: state_of_def)
  ultimately show ?thesis
    unfolding gap_reason_def oldest_seq[OF assms] by (cases "st_seq s = 0") auto
qed

lemma fenced_sub_resume:
  assumes "stream_ok c k s"
  shows "su_resume (fenced_sub k' q l ep at_latest s) \<le> st_seq s"
    "Suc (st_seq s) - length (st_history s) \<le> Suc (su_resume (fenced_sub k' q l ep at_latest s))"
proof -
  let ?rq = "if at_latest then ss_max_seq (state_of s) else nat l"
  have m: "ss_max_seq (state_of s) = st_seq s" by (simp add: state_of_def)
  have res: "su_resume (fenced_sub k' q l ep at_latest s) = (if gap_reason (state_of s) ?rq ep \<noteq> None then st_seq s else ?rq)"
    by (simp only: fenced_sub_def Let_def sub.select_convs m)
  have "st_seq s \<noteq> 0 \<longrightarrow> st_history s \<noteq> []" using assms by (simp add: stream_ok_def)
  then show "su_resume (fenced_sub k' q l ep at_latest s) \<le> st_seq s"
    "Suc (st_seq s) - length (st_history s) \<le> Suc (su_resume (fenced_sub k' q l ep at_latest s))"
    using gap_reason_None[OF assms, of ?rq ep] unfolding res
    by (cases "gap_reason (state_of s) ?rq ep"; simp)+
qed

text \<open>The part that both kinds of subscription share.\<close>

lemma enroll_ok:
  assumes "bus_inv c b0" "bus_cfg_ok c" "new_queue b0 = (q, b)" "stream_locked c k b = Inr b1"
    and "register c k q adm (the (the_stream k b1)) b1 = (e, b2)"
  obtains s where "the_stream k b1 = Some s" "stream_ok c k s" "e = None" "bus_inv c b2"
    "quiet (put_stream k (s\<lparr>st_subs := q # st_subs s\<rparr>) b1) b2"
    "q < bs_next b1" "bs_queues b1 q = []" "\<And>k'. \<not> subscribed b1 k' q"
    "\<And>got su. sub_ok got su b0 \<Longrightarrow> sub_ok got su b2"
proof -
  have cfg: "1 \<le> bc_max_streams c" using assms(2) by (simp add: bus_cfg_ok_def)
  note n = new_queue_ok[OF assms(3,1)]
  have core: "bus_core c b" using n(4) by (simp add: bus_inv_def)
  note sl = stream_locked_ok[OF assms(4) core cfg]
  have inv1: "bus_inv c b1" using n(4) sl(1,5) by (simp add: bus_inv_def waiters_ok_def)
  obtain s where s: "the_stream k b1 = Some s" using sl(3) by blast
  have ok: "stream_ok c k s" using sl(1) s by (simp add: bus_core_def)
  have fresh: "q < bs_next b1" "bs_queues b1 q = []" "\<not> subscribed b1 k' q" for k'
    using sl(2) n(2,3,5) quiet_subscribed[OF sl(2)] by (auto simp: quiet_def)
  have reg: "register c k q adm s b1 = (e, b2)" using assms(5) by (simp add: s)
  note rg = register_ok[OF inv1 cfg s fresh reg]
  have "sub_ok got su b2" if "sub_ok got su b0" for got su
  proof -
    have "sub_ok got su b1" using sub_ok_new_queue(1)[OF assms(3,1) that] by (rule sub_ok_quiet[OF sl(2)])
    then have "sub_ok got su (put_stream k (s\<lparr>st_subs := q # st_subs s\<rparr>) b1)"
      by (rule sub_ok_put[OF _ s]) (use sub_ok_new_queue(2)[OF assms(3,1) that] in auto)
    then show ?thesis by (rule sub_ok_quiet[OF rg(3)])
  qed
  with s ok rg fresh that show thesis by blast
qed

lemma open_fenced_ok:
  assumes "bus_inv c b0" "bus_cfg_ok c" "open_fenced c k l ep at_latest adm b0 = (r, b')"
  shows "bus_inv c b'" "sub_ok got su b0 \<Longrightarrow> sub_ok got su b'"
    "r = Inr su \<Longrightarrow> sub_ok [] su b' \<and> su_queue su = bs_next b0"
proof -
  have cfg: "1 \<le> bc_max_streams c" using assms(2) by (simp add: bus_cfg_ok_def)
  obtain q b where nq: "new_queue b0 = (q, b)" by fastforce
  have "bus_inv c b' \<and> (\<forall>got su. sub_ok got su b0 \<longrightarrow> sub_ok got su b') \<and>
    (\<forall>su. r = Inr su \<longrightarrow> sub_ok [] su b' \<and> su_queue su = q)"
  proof (cases "stream_locked c k b")
    case (Inl x)
    with assms(3) have "r = Inl x" "b' = abandon c k adm b" by (simp_all add: open_fenced_def nq)
    with abandon_ok[OF new_queue_ok(4)[OF nq assms(1)] cfg] show ?thesis
      by (blast intro: sub_ok_quiet sub_ok_new_queue(1)[OF nq assms(1)])
  next
    case (Inr b1)
    obtain e b2 where reg: "register c k q adm (the (the_stream k b1)) b1 = (e, b2)" by fastforce
    obtain s where s: "the_stream k b1 = Some s" "stream_ok c k s" "e = None" "bus_inv c b2"
      "quiet (put_stream k (s\<lparr>st_subs := q # st_subs s\<rparr>) b1) b2"
      "q < bs_next b1" "bs_queues b1 q = []" "\<And>k'. \<not> subscribed b1 k' q"
      "\<And>got su. sub_ok got su b0 \<Longrightarrow> sub_ok got su b2"
      using enroll_ok[OF assms(1,2) nq Inr reg] by blast
    let ?b = "put_stream k (s\<lparr>st_subs := q # st_subs s\<rparr>) b1"
    define su where "su = fenced_sub k q l ep at_latest s"
    define resume where "resume = su_resume su"
    have su: "su_state su = state_of s" "su_scope su = k" "su_queue su = q" "su_index su = 0"
      "su_replay su = later_than resume (st_history s)" "su_resume su = resume"
      by (simp_all add: resume_def su_def fenced_sub_def Let_def split del: if_split)
    have r: "r = Inr su" "b' = b2"
      using assms(3) s(3) reg by (simp_all add: open_fenced_def nq Inr s(1) Let_def su_def)
    have seq: "ss_max_seq (state_of s) = st_seq s" "ss_epoch (state_of s) = st_epoch s" by (simp_all add: state_of_def)
    have res: "resume \<le> st_seq s" "Suc (st_seq s) - length (st_history s) \<le> Suc resume"
      using fenced_sub_resume[OF s(2), of k q l ep at_latest] by (simp_all add: resume_def su_def)
    note run = later_than_run[OF s(2) res(2,1)]
    have "sub_ok [] su ?b"
      unfolding sub_ok_def
    proof (intro conjI exI allI impI)
      show "su_queue su < bs_next ?b" using s(6) by (simp add: su)
      show "[] @ pending su ?b = later_than resume (st_history s) @ []"
        using s(7) by (simp add: pending_def su)
      show "run_of (su_scope su) (ss_epoch (su_state su)) (su_resume su) (later_than resume (st_history s))"
        using run(1) by (simp add: su seq)
      show "k' = su_scope su" if "subscribed ?b k' (su_queue su)" for k'
        using that s(8) by (auto simp: subscribed_def su split: if_splits)
      show "attached su (length (later_than resume (st_history s))) ?b"
        using run(2) res(1) by (simp add: attached_def su seq)
    qed simp_all
    then have "sub_ok [] su b2" by (rule sub_ok_quiet[OF s(5)])
    then show ?thesis using s(4,9) r su by simp
  qed
  then show "bus_inv c b'" "sub_ok got su b0 \<Longrightarrow> sub_ok got su b'"
    "r = Inr su \<Longrightarrow> sub_ok [] su b' \<and> su_queue su = bs_next b0"
    using new_queue_ok(1)[OF nq assms(1)] by blast+
qed

lemma subscribe_ok:
  assumes "bus_inv c b0" "bus_cfg_ok c" "subscribe c k since adm b0 = (r, b')"
  shows "bus_inv c b'" "sub_ok got su b0 \<Longrightarrow> sub_ok got su b'"
proof -
  have cfg: "1 \<le> bc_max_streams c" using assms(2) by (simp add: bus_cfg_ok_def)
  obtain q b where nq: "new_queue b0 = (q, b)" by fastforce
  have "bus_inv c b' \<and> (\<forall>got su. sub_ok got su b0 \<longrightarrow> sub_ok got su b')"
  proof (cases "stream_locked c k b")
    case (Inl x)
    with assms(3) have "b' = abandon c k adm b" by (simp add: subscribe_def nq)
    with abandon_ok[OF new_queue_ok(4)[OF nq assms(1)] cfg] show ?thesis
      by (blast intro: sub_ok_quiet sub_ok_new_queue(1)[OF nq assms(1)])
  next
    case (Inr b1)
    obtain e b2 where reg: "register c k q adm (the (the_stream k b1)) b1 = (e, b2)" by fastforce
    obtain s where s: "e = None" "bus_inv c b2" "\<And>got su. sub_ok got su b0 \<Longrightarrow> sub_ok got su b2"
      using enroll_ok[OF assms(1,2) nq Inr reg] by blast
    moreover have "b' = b2" using assms(3) s(1) reg by (simp add: subscribe_def nq Inr Let_def)
    ultimately show ?thesis by simp
  qed
  then show "bus_inv c b'" "sub_ok got su b0 \<Longrightarrow> sub_ok got su b'" by blast+
qed

lemma publish_to_ok:
  assumes "bus_inv c b" "bus_cfg_ok c" "publish_to c now k ev b = (r, b')"
  shows "bus_inv c b'" "sub_ok got su b \<Longrightarrow> sub_ok got su b'"
proof -
  have "bus_inv c b' \<and> (\<forall>got su. sub_ok got su b \<longrightarrow> sub_ok got su b')"
    using assms
  proof (cases rule: publish_to_cases)
    case 1
    then show ?thesis by (blast intro: sub_ok_quiet)
  next
    case (2 b2 s e s')
    have ok: "stream_ok c k s" using 2(1,3) by (simp add: bus_inv_def bus_core_def)
    have "1 \<le> bc_replay c" using assms(2) by (simp add: bus_cfg_ok_def)
    note cm = commit_ok[OF ok this 2(4)]
    have "bus_core c b2" using 2(1) by (simp add: bus_inv_def)
    from fan_out_core[OF this 2(3) cm(7,1)] have "bus_inv c b'"
      using 2(1) by (simp add: bus_inv_def waiters_ok_def 2(5) fan_out_def)
    then show ?thesis
      using sub_ok_fan_out[OF _ 2(3,4,1) assms(2)] sub_ok_quiet[OF 2(2)] by (simp add: 2(5))
  qed
  then show "bus_inv c b'" "sub_ok got su b \<Longrightarrow> sub_ok got su b'" by blast+
qed

lemma close_queue_keeps:
  assumes "bus_inv c b" "1 \<le> bc_max_streams c" "close_queue c k q b = (e, b')" "sub_ok got su b"
  shows "sub_ok got su b'"
proof -
  consider "quiet b b'" | s where "the_stream k b = Some s"
    "quiet (put_stream k (s\<lparr>st_subs := filter (\<lambda>r. r \<noteq> q) (st_subs s)\<rparr>) b) b'"
    using close_queue_ok[OF assms(1-3)] by blast
  then show ?thesis
  proof cases
    case 1
    from 1 assms(4) show ?thesis by (rule sub_ok_quiet)
  next
    case 2
    have "sub_ok got su (put_stream k (s\<lparr>st_subs := filter (\<lambda>r. r \<noteq> q) (st_subs s)\<rparr>) b)"
      by (rule sub_ok_put[OF assms(4) 2(1)]) auto
    with 2(2) show ?thesis by (rule sub_ok_quiet)
  qed
qed

lemma stream_state_for_ok:
  assumes "bus_inv c b" "1 \<le> bc_max_streams c" "stream_state_for c k b = (r, b')"
  shows "bus_inv c b' \<and> quiet b b'"
proof -
  have core: "bus_core c b" using assms(1) by (simp add: bus_inv_def)
  consider "b' = b" | "stream_locked c k b = Inr b'"
    using assms(3) by (auto simp: stream_state_for_def split: option.splits sum.splits)
  then show ?thesis
  proof cases
    case 2
    from stream_locked_ok[OF this core assms(2)] assms(1) show ?thesis by (simp add: bus_inv_def waiters_ok_def)
  qed (use assms(1) in simp)
qed


lemma core_queues:
  assumes "bus_core c b" "\<And>k q. subscribed b k q \<Longrightarrow> length (qs q) \<le> bc_cap c"
  shows "bus_core c (b\<lparr>bs_queues := qs\<rparr>)"
  using assms by (simp add: bus_core_def)

text \<open>Taking the head of a queue, by its subscription or by a plain subscriber.\<close>

lemma pop_queue_inv:
  assumes "bus_inv c b"
  shows "bus_inv c (b\<lparr>bs_queues := (bs_queues b)(q := tl (bs_queues b q))\<rparr>)"
proof -
  have core: "bus_core c b" using assms by (simp add: bus_inv_def)
  have "length (bs_queues b r) \<le> bc_cap c" if "subscribed b k r" for k r
    using core that unfolding bus_core_def by blast
  then have "bus_core c (b\<lparr>bs_queues := (bs_queues b)(q := tl (bs_queues b q))\<rparr>)"
    by (intro core_queues[OF core]) (auto intro: le_trans[OF diff_le_self])
  then show ?thesis using assms by (simp add: bus_inv_def waiters_ok_def)
qed

lemma sub_ok_pop_other:
  "sub_ok got su b \<Longrightarrow> su_queue su \<noteq> q \<Longrightarrow> sub_ok got su (b\<lparr>bs_queues := (bs_queues b)(q := qs)\<rparr>)"
  by (erule sub_ok_mono) (simp_all add: attached_def)

lemma deliver_sel [simp]:
  "su_scope (deliver e su) = su_scope su" "su_queue (deliver e su) = su_queue su" "su_state (deliver e su) = su_state su"
  "su_resume (deliver e su) = su_resume su" "su_replay (deliver e su) = su_replay su" "su_index (deliver e su) = su_index su"
  by (simp_all add: deliver_def)

lemma sub_ok_same:
  assumes "sub_ok got su b" "got' @ pending su' b' = got @ pending su b" "su_queue su' = su_queue su"
    "su_scope su' = su_scope su" "su_state su' = su_state su" "su_resume su' = su_resume su"
    "bs_next b' = bs_next b" "\<And>k. the_stream k b' = the_stream k b"
  shows "sub_ok got' su' b'"
  using assms(1) unfolding sub_ok_def assms(2-7) attached_def subscribed_def assms(8) .

lemma sub_next_ok:
  assumes "sub_next su b = (Yields e, su', b')" "bus_inv c b"
  shows "bus_inv c b'" "sub_ok got su b \<Longrightarrow> sub_ok (got @ [e]) su' b'" "su_queue su' = su_queue su"
    "sub_ok got2 su2 b \<Longrightarrow> su_queue su2 \<noteq> su_queue su \<Longrightarrow> sub_ok got2 su2 b'"
proof -
  consider (replay) "su_index su < length (su_replay su)" "e = su_replay su ! su_index su"
      "su' = deliver e (su\<lparr>su_index := su_index su + 1\<rparr>)" "b' = b"
    | (queue) es where "length (su_replay su) \<le> su_index su" "bs_queues b (su_queue su) = e # es"
      "su' = deliver e su" "b' = b\<lparr>bs_queues := (bs_queues b)(su_queue su := es)\<rparr>"
    using assms(1) by (auto simp: sub_next_def Let_def split: if_splits list.splits)
  then have "bus_inv c b' \<and> (sub_ok got su b \<longrightarrow> sub_ok (got @ [e]) su' b') \<and> su_queue su' = su_queue su \<and>
    (sub_ok got2 su2 b \<longrightarrow> su_queue su2 \<noteq> su_queue su \<longrightarrow> sub_ok got2 su2 b')"
  proof cases
    case replay
    have "sub_ok (got @ [e]) su' b'" if "sub_ok got su b"
      by (rule sub_ok_same[OF that]) (simp_all add: replay pending_def Cons_nth_drop_Suc)
    with replay assms(2) show ?thesis by simp
  next
    case queue
    have "sub_ok (got @ [e]) su' b'" if "sub_ok got su b"
      by (rule sub_ok_same[OF that]) (simp_all add: queue pending_def)
    moreover have "bus_inv c b'" using pop_queue_inv[OF assms(2), of "su_queue su"] by (simp add: queue)
    ultimately show ?thesis using sub_ok_pop_other[of got2 su2 b "su_queue su" es] by (simp add: queue)
  qed
  then show "bus_inv c b'" "sub_ok got su b \<Longrightarrow> sub_ok (got @ [e]) su' b'" "su_queue su' = su_queue su"
    "sub_ok got2 su2 b \<Longrightarrow> su_queue su2 \<noteq> su_queue su \<Longrightarrow> sub_ok got2 su2 b'"
    by blast+
qed

lemma fold_farewell:
  assumes "\<And>i j. i < length ss \<Longrightarrow> j < length ss \<Longrightarrow> q \<in> set (st_subs (ss ! i)) \<Longrightarrow> q \<in> set (st_subs (ss ! j)) \<Longrightarrow> i = j"
  shows "fold (farewell c now) ss qs q = qs q \<or>
    (\<exists>s \<in> set ss. q \<in> set (st_subs s) \<and> fold (farewell c now) ss qs q = qs q @ [shutdown_frame now s])"
  using assms
proof (induction ss arbitrary: qs)
  case (Cons s ss)
  have rest: "fold (farewell c now) ss qs' q = qs' q" if "q \<notin> \<Union> (set (map (\<lambda>s. set (st_subs s)) ss))" for qs'
    using that by (induction ss arbitrary: qs') (auto simp: farewell_def)
  have tail: "i = j" if "i < length ss" "j < length ss" "q \<in> set (st_subs (ss ! i))" "q \<in> set (st_subs (ss ! j))" for i j
    using Cons.prems[of "Suc i" "Suc j"] that by simp
  show ?case
  proof (cases "q \<in> set (st_subs s)")
    case False
    then have "farewell c now s qs q = qs q" by (simp add: farewell_def)
    moreover have "fold (farewell c now) ss (farewell c now s qs) q = farewell c now s qs q \<or>
      (\<exists>s' \<in> set ss. q \<in> set (st_subs s') \<and>
         fold (farewell c now) ss (farewell c now s qs) q = farewell c now s qs q @ [shutdown_frame now s'])"
      by (rule Cons.IH) (rule tail)
    ultimately show ?thesis by auto
  next
    case True
    have "q \<notin> set (st_subs x)" if x: "x \<in> set ss" for x
    proof
      assume "q \<in> set (st_subs x)"
      moreover obtain j where "j < length ss" "ss ! j = x" using x by (metis in_set_conv_nth)
      ultimately show False using Cons.prems[of 0 "Suc j"] True by simp
    qed
    then have "fold (farewell c now) ss (farewell c now s qs) q = farewell c now s qs q" by (intro rest) auto
    moreover have "farewell c now s qs q = qs q \<or> farewell c now s qs q = qs q @ [shutdown_frame now s]"
      by (simp add: farewell_def)
    ultimately show ?thesis using True by auto
  qed
qed simp

lemma bus_aclose_ok:
  assumes "bus_inv c b"
  shows "bus_inv c (bus_aclose c now b)" "sub_ok got su b \<Longrightarrow> sub_ok got su (bus_aclose c now b)"
proof -
  let ?b = "bus_aclose c now b"
  have none: "the_stream k ?b = None" for k by (simp add: bus_aclose_def the_stream_def)
  then have nosub: "\<not> subscribed ?b k q" for k q by (simp add: subscribed_def)
  then show "bus_inv c ?b"
    using none by (simp add: bus_inv_def bus_core_def waiters_ok_def) (simp add: bus_aclose_def)
  have core: "bus_core c b" using assms by (simp add: bus_inv_def)
  then have dist: "distinct (map fst (bs_streams b))" by (simp add: bus_core_def)
  let ?q = "su_queue su"
  have look: "the_stream (fst (bs_streams b ! i)) b = Some (snd (bs_streams b ! i))" if "i < length (bs_streams b)" for i
    using that dist by (simp add: the_stream_def)
  have uniq: "i = j" if "i < length (bs_streams b)" "j < length (bs_streams b)"
    "q \<in> set (st_subs (snd (bs_streams b ! i)))" "q \<in> set (st_subs (snd (bs_streams b ! j)))" for i j q
  proof -
    have "subscribed b (fst (bs_streams b ! i)) q" "subscribed b (fst (bs_streams b ! j)) q"
      using that look by (auto simp: subscribed_def)
    then have "fst (bs_streams b ! i) = fst (bs_streams b ! j)" using subscribed_unique[OF assms] by metis
    with dist that(1,2) show ?thesis by (simp add: distinct_conv_nth) (metis nth_map)
  qed
  assume ok: "sub_ok got su b"
  then obtain es fs where es: "got @ pending su b = es @ fs" "frames fs"
    "run_of (su_scope su) (ss_epoch (su_state su)) (su_resume su) es"
    "\<forall>k. subscribed b k ?q \<longrightarrow> k = su_scope su \<and> fs = [] \<and> attached su (length es) b"
    unfolding sub_ok_def by blast
  have "bs_queues ?b ?q = bs_queues b ?q \<or> (\<exists>s \<in> set (map snd (bs_streams b)). ?q \<in> set (st_subs s) \<and>
    bs_queues ?b ?q = bs_queues b ?q @ [shutdown_frame now s])"
    using fold_farewell[of "map snd (bs_streams b)" ?q c now "bs_queues b"] uniq by (simp add: bus_aclose_def)
  then obtain gs where gs: "got @ pending su ?b = es @ gs" "frames gs"
  proof
    assume "bs_queues ?b ?q = bs_queues b ?q"
    with es that show thesis by (simp add: pending_def)
  next
    assume "\<exists>s \<in> set (map snd (bs_streams b)). ?q \<in> set (st_subs s) \<and> bs_queues ?b ?q = bs_queues b ?q @ [shutdown_frame now s]"
    then obtain s where s: "s \<in> set (map snd (bs_streams b))" "?q \<in> set (st_subs s)"
      "bs_queues ?b ?q = bs_queues b ?q @ [shutdown_frame now s]" by blast
    from s(1) obtain i where i: "i < length (bs_streams b)" "s = snd (bs_streams b ! i)"
      unfolding in_set_conv_nth by auto
    have "subscribed b (fst (bs_streams b ! i)) ?q" using look[OF i(1)] i(2) s(2) by (simp add: subscribed_def)
    then have "fs = []" using es(4) by blast
    with es(1) s(3) have "got @ pending su ?b = es @ [shutdown_frame now s]" by (simp add: pending_def)
    moreover have "frames [shutdown_frame now s]" by (simp add: frames_def shutdown_frame_def)
    ultimately show thesis by (rule that)
  qed
  moreover have "?q < bs_next ?b" using ok by (simp add: sub_ok_def bus_aclose_def)
  ultimately show "sub_ok got su ?b" using es(3) nosub unfolding sub_ok_def by blast
qed


section \<open>The running bus\<close>

text \<open>
  The bus with its fenced subscriptions (by queue) and what each of them has delivered so
  far.  A plain subscriber (\<open>subscribe\<close>) takes from its own queue and leaves.
\<close>

record 'k bus_sys =
  sy_bus :: "'k bus"
  sy_subs :: "nat \<Rightarrow> 'k sub option"
  sy_got :: "nat \<Rightarrow> 'k bus_event list"

definition bus_sys_init :: "'k bus_sys \<Rightarrow> bool" where
  "bus_sys_init s \<longleftrightarrow> bus_init (sy_bus s) \<and> sy_subs s = Map.empty"

inductive bus_step :: "bus_cfg \<Rightarrow> 'k bus_sys \<Rightarrow> 'k bus_sys \<Rightarrow> bool" for c where
  bus_publish: "publish_to c now k ev (sy_bus s) = (r, b) \<Longrightarrow> bus_step c s (s\<lparr>sy_bus := b\<rparr>)"
| bus_await: "await_admission c k (sy_bus s) = (r1, b) \<Longrightarrow> bus_step c s (s\<lparr>sy_bus := b\<rparr>)"
| bus_cancel: "cancel_admission c k f (sy_bus s) = (x, b) \<Longrightarrow> bus_step c s (s\<lparr>sy_bus := b\<rparr>)"
| bus_open: "open_fenced c k l ep at_latest adm (sy_bus s) = (Inr su, b) \<Longrightarrow>
    bus_step c s (s\<lparr>sy_bus := b, sy_subs := (sy_subs s)(su_queue su \<mapsto> su), sy_got := (sy_got s)(su_queue su := [])\<rparr>)"
| bus_refuse: "open_fenced c k l ep at_latest adm (sy_bus s) = (Inl x1, b) \<Longrightarrow> bus_step c s (s\<lparr>sy_bus := b\<rparr>)"
| bus_subscribe: "subscribe c k since adm (sy_bus s) = (r2, b) \<Longrightarrow> bus_step c s (s\<lparr>sy_bus := b\<rparr>)"
| bus_take: "sy_subs s q = None \<Longrightarrow>
    bus_step c s (s\<lparr>sy_bus := (sy_bus s)\<lparr>bs_queues := (bs_queues (sy_bus s))(q := tl (bs_queues (sy_bus s) q))\<rparr>\<rparr>)"
| bus_leave: "sy_subs s q = None \<Longrightarrow> close_queue c k q (sy_bus s) = (x, b) \<Longrightarrow> bus_step c s (s\<lparr>sy_bus := b\<rparr>)"
| bus_next: "sy_subs s q = Some su \<Longrightarrow> sub_next su (sy_bus s) = (Yields e, su', b) \<Longrightarrow>
    bus_step c s (s\<lparr>sy_bus := b, sy_subs := (sy_subs s)(q \<mapsto> su'), sy_got := (sy_got s)(q := sy_got s q @ [e])\<rparr>)"
| bus_close: "sy_subs s q = Some su \<Longrightarrow> close_sub c su (sy_bus s) = (su', b) \<Longrightarrow>
    bus_step c s (s\<lparr>sy_bus := b, sy_subs := (sy_subs s)(q \<mapsto> su')\<rparr>)"
| bus_inspect: "stream_state_for c k (sy_bus s) = (r3, b) \<Longrightarrow> bus_step c s (s\<lparr>sy_bus := b\<rparr>)"
| bus_shutdown: "bus_step c s (s\<lparr>sy_bus := bus_aclose c now (sy_bus s)\<rparr>)"

inductive_cases bus_stepE: "bus_step c s t"

definition subs_ok :: "'k bus_sys \<Rightarrow> bool" where
  "subs_ok s \<longleftrightarrow> (\<forall>q su. sy_subs s q = Some su \<longrightarrow> su_queue su = q \<and> sub_ok (sy_got s q) su (sy_bus s))"

definition bus_sys_inv :: "bus_cfg \<Rightarrow> 'k bus_sys \<Rightarrow> bool" where
  "bus_sys_inv c s \<longleftrightarrow> (bus_cfg_ok c \<longrightarrow> bus_inv c (sy_bus s) \<and> subs_ok s)"

lemma subs_ok_bus:
  "subs_ok s \<Longrightarrow> (\<And>got su. sub_ok got su (sy_bus s) \<Longrightarrow> sub_ok got su b) \<Longrightarrow> subs_ok (s\<lparr>sy_bus := b\<rparr>)"
  by (simp add: subs_ok_def)

lemma close_sub_ok:
  assumes "bus_inv c b" "1 \<le> bc_max_streams c" "close_sub c su b = (su', b')"
  shows "bus_inv c b'" "sub_ok got su2 b \<Longrightarrow> sub_ok got su2 b'" "sub_ok got su b \<Longrightarrow> sub_ok got su' b'"
    "su_queue su' = su_queue su"
proof -
  have "bus_inv c b' \<and> (\<forall>got su2. sub_ok got su2 b \<longrightarrow> sub_ok got su2 b') \<and>
    (\<forall>got. sub_ok got su b' \<longrightarrow> sub_ok got su' b') \<and> su_queue su' = su_queue su"
  proof (cases "su_closed su")
    case True
    with assms show ?thesis by (simp add: close_sub_def)
  next
    case False
    obtain e b2 where cq: "close_queue c (su_scope su) (su_queue su) b = (e, b2)" by fastforce
    have r: "su' = su\<lparr>su_closed := True\<rparr>" "b' = b2" using assms(3) False cq by (simp_all add: close_sub_def)
    have "sub_ok got su' b'" if "sub_ok got su b'" for got
      by (rule sub_ok_same[OF that]) (simp_all add: r pending_def)
    then show ?thesis using close_queue_ok[OF assms(1,2) cq] close_queue_keeps[OF assms(1,2) cq] r by simp
  qed
  then show "bus_inv c b'" "sub_ok got su2 b \<Longrightarrow> sub_ok got su2 b'" "sub_ok got su b \<Longrightarrow> sub_ok got su' b'"
    "su_queue su' = su_queue su" by blast+
qed

lemma bus_step_inv:
  assumes "bus_cfg_ok c" "bus_step c s t" "bus_inv c (sy_bus s)" "subs_ok s"
  shows "bus_inv c (sy_bus t) \<and> subs_ok t"
proof -
  have cfg: "1 \<le> bc_max_streams c" using assms(1) by (simp add: bus_cfg_ok_def)
  note inv = assms(3)
  from assms(2) show ?thesis
  proof cases
    case (bus_publish now k ev r b)
    show ?thesis unfolding bus_publish(1)
      using publish_to_ok[OF inv assms(1) bus_publish(2)] by (auto intro: subs_ok_bus[OF assms(4)])
  next
    case (bus_await k r b)
    show ?thesis unfolding bus_await(1)
      using await_admission_ok[OF inv cfg bus_await(2)] by (auto intro: subs_ok_bus[OF assms(4)] sub_ok_quiet)
  next
    case (bus_cancel k f x b)
    show ?thesis unfolding bus_cancel(1)
      using cancel_admission_ok[OF inv cfg bus_cancel(2)] by (auto intro: subs_ok_bus[OF assms(4)] sub_ok_quiet)
  next
    case (bus_open k l ep at_latest adm su b)
    note ok = open_fenced_ok[OF inv assms(1) bus_open(2)]
    have "subs_ok t" using assms(4) ok(2) ok(3)[OF refl] by (auto simp: bus_open(1) subs_ok_def)
    with ok(1) show ?thesis by (simp add: bus_open(1))
  next
    case (bus_refuse k l ep at_latest adm x b)
    show ?thesis unfolding bus_refuse(1)
      using open_fenced_ok(1,2)[OF inv assms(1) bus_refuse(2)] by (auto intro: subs_ok_bus[OF assms(4)])
  next
    case (bus_subscribe k since adm r b)
    show ?thesis unfolding bus_subscribe(1)
      using subscribe_ok[OF inv assms(1) bus_subscribe(2)] by (auto intro: subs_ok_bus[OF assms(4)])
  next
    case (bus_take q)
    have "subs_ok t" using assms(4) bus_take(2) by (auto simp: bus_take(1) subs_ok_def intro!: sub_ok_pop_other)
    then show ?thesis using pop_queue_inv[OF inv, of q] by (simp add: bus_take(1))
  next
    case (bus_leave q k x b)
    show ?thesis unfolding bus_leave(1)
      using close_queue_ok[OF inv cfg bus_leave(3)] close_queue_keeps[OF inv cfg bus_leave(3)]
      by (auto intro: subs_ok_bus[OF assms(4)])
  next
    case (bus_next q su e su' b)
    note ok = sub_next_ok[OF bus_next(3) inv]
    have "su_queue su = q" using assms(4) bus_next(2) by (simp add: subs_ok_def)
    then have "subs_ok t" using assms(4) bus_next(2) ok by (auto simp: bus_next(1) subs_ok_def)
    with ok(1) show ?thesis by (simp add: bus_next(1))
  next
    case (bus_close q su su' b)
    note ok = close_sub_ok[OF inv cfg bus_close(3)]
    have "subs_ok t" using assms(4) bus_close(2) ok by (auto simp: bus_close(1) subs_ok_def)
    with ok(1) show ?thesis by (simp add: bus_close(1))
  next
    case (bus_inspect k r b)
    show ?thesis unfolding bus_inspect(1)
      using stream_state_for_ok[OF inv cfg bus_inspect(2)] by (auto intro: subs_ok_bus[OF assms(4)] sub_ok_quiet)
  next
    case (bus_shutdown now)
    show ?thesis unfolding bus_shutdown
      using bus_aclose_ok[OF inv] by (auto intro: subs_ok_bus[OF assms(4)])
  qed
qed

interpretation event_bus: invariant_system bus_sys_init "bus_step c" "bus_sys_inv c" for c
proof
  show "bus_sys_inv c s" if "bus_sys_init s" for s
    using that by (simp add: bus_sys_init_def bus_init_def bus_sys_inv_def bus_inv_def bus_core_def waiters_ok_def
      subs_ok_def the_stream_def subscribed_def)
  show "bus_sys_inv c t" if "bus_sys_inv c s" "bus_step c s t" for s t
    using that bus_step_inv[OF _ that(2)] by (simp add: bus_sys_inv_def)
qed

end
