(* ===== verification/EventBusProps.thy ===== *)
theory EventBusProps
  imports EventBusCorrect
begin

text \<open>
  The properties of the event bus (subscriptions without gaps, exact gap reports, bounds,
  granted admissions), each with a concrete run of a small bus as its witness.
\<close>

section \<open>Properties\<close>

lemma bus_reachable:
  assumes "bus_cfg_ok c" "bus_sys_init s0" "(bus_step c)\<^sup>*\<^sup>* s0 s"
  shows "bus_inv c (sy_bus s)" "sy_subs s q = Some su \<Longrightarrow> su_queue su = q \<and> sub_ok (sy_got s q) su (sy_bus s)"
  using event_bus.reachable_inv[OF assms(2,3)] assms(1) by (auto simp: bus_sys_inv_def subs_ok_def)

lemma run_of_got:
  assumes "run_of k ep r es" "got @ rest = es @ fs" "frames fs"
  shows "\<exists>es fs. got = es @ fs \<and> run_of k ep r es \<and> frames fs"
proof -
  from assms(2) consider us where "got @ us = es" | us where "got = es @ us" "us @ rest = fs"
    by (auto simp: append_eq_append_conv2)
  then show ?thesis
  proof cases
    case 1
    have "run_of k ep r got" by (rule run_of_prefix[of _ _ _ _ us]) (use assms(1) 1 in simp)
    then show ?thesis by (intro exI[of _ got] exI[of _ "[]"]) simp
  next
    case 2
    from assms(3) have "frames us" unfolding 2(2)[symmetric] by (auto simp: frames_def)
    with 2(1) assms(1) show ?thesis by blast
  qed
qed

text \<open>
  C28.  A fenced subscription has no gap: after any interleaving of publications,
  subscriptions, admissions, timeouts, closings and a shutdown, what a subscription has
  delivered is a run of events of its own scope and epoch, numbered one by one from the
  number after its resume point, and possibly one error frame of the bus after them; and
  while its queue is subscribed, delivered, replay and queue together reach up to the
  stream's present number.
\<close>

theorem subscription_without_gaps:
  assumes "bus_cfg_ok c" "bus_sys_init s0" "(bus_step c)\<^sup>*\<^sup>* s0 s" "sy_subs s q = Some su"
  shows "(\<exists>es fs. sy_got s q = es @ fs \<and>
      map be_seq es = [Suc (su_resume su)..<Suc (su_resume su) + length es] \<and>
      (\<forall>e \<in> set es. be_scope e = Some (su_scope su) \<and> be_epoch e = ss_epoch (su_state su)) \<and>
      length fs \<le> 1 \<and> (\<forall>f \<in> set fs. be_seq f = 0 \<and> ee_type (be_event f) = ''error'')) \<and>
    (\<forall>k st. the_stream k (sy_bus s) = Some st \<and> q \<in> set (st_subs st) \<longrightarrow> k = su_scope su \<and>
      map be_seq (sy_got s q @ drop (su_index su) (su_replay su) @ bs_queues (sy_bus s) q) =
        [Suc (su_resume su)..<Suc (st_seq st)])"
proof -
  note r = bus_reachable[OF assms(1-3)]
  have q: "su_queue su = q" and ok: "sub_ok (sy_got s q) su (sy_bus s)" using r(2)[OF assms(4)] by blast+
  obtain es fs where "sy_got s q @ pending su (sy_bus s) = es @ fs" "frames fs"
    "run_of (su_scope su) (ss_epoch (su_state su)) (su_resume su) es"
    using ok unfolding sub_ok_def by blast
  then have "\<exists>es fs. sy_got s q = es @ fs \<and> run_of (su_scope su) (ss_epoch (su_state su)) (su_resume su) es \<and> frames fs"
    by (intro run_of_got)
  moreover have "k = su_scope su \<and> map be_seq (sy_got s q @ pending su (sy_bus s)) =
      [Suc (su_resume su)..<Suc (st_seq st)]" if st: "the_stream k (sy_bus s) = Some st" "q \<in> set (st_subs st)" for k st
  proof -
    have "subscribed (sy_bus s) k (su_queue su)" using st by (auto simp: subscribed_def q)
    note ss = sub_ok_subscribed[OF ok this]
    from ss(3) have "st_seq st = su_resume su + length (sy_got s q @ pending su (sy_bus s))"
      using st(1) ss(2) by (auto simp: attached_def)
    with ss(1,2) show ?thesis by (simp add: run_of_def)
  qed
  ultimately show ?thesis unfolding run_of_def frames_def pending_def q by blast
qed

lemma open_fenced_sub:
  assumes "bus_inv c b0" "bus_cfg_ok c" "open_fenced c k l ep at_latest adm b0 = (Inr su, b')"
  obtains s q where "stream_ok c k s" "su = fenced_sub k q l ep at_latest s"
    "the_stream k b' = Some (s\<lparr>st_subs := q # st_subs s\<rparr>)"
proof -
  obtain q b where nq: "new_queue b0 = (q, b)" by fastforce
  obtain b1 where sl: "stream_locked c k b = Inr b1"
    using assms(3) by (cases "stream_locked c k b") (simp_all add: open_fenced_def nq)
  obtain e b2 where reg: "register c k q adm (the (the_stream k b1)) b1 = (e, b2)" by fastforce
  obtain s where s: "the_stream k b1 = Some s" "stream_ok c k s" "e = None"
    "quiet (put_stream k (s\<lparr>st_subs := q # st_subs s\<rparr>) b1) b2"
    using enroll_ok[OF assms(1,2) nq sl reg] by blast
  have "su = fenced_sub k q l ep at_latest s" "b' = b2"
    using assms(3) s(3) reg by (simp_all add: open_fenced_def nq sl s(1) Let_def)
  moreover have "the_stream k b2 = Some (s\<lparr>st_subs := q # st_subs s\<rparr>)"
    using s(4) by (simp add: quiet_def)
  ultimately show thesis using s(2) that by blast
qed

lemma fenced_sub_gap:
  assumes "stream_ok c k s" "su = fenced_sub k q l ep at_latest s"
  shows "su_state su = state_of s"
    "su_gap su = None \<longleftrightarrow> (truthy_str ep \<longrightarrow> ep = Some (st_epoch s)) \<and> su_requested su \<le> st_seq s \<and>
      (\<forall>n. su_requested su < n \<and> n \<le> st_seq s \<longrightarrow> n \<in> be_seq ` set (st_history s))"
    "su_resume su = (if su_gap su = None then su_requested su else st_seq s)"
    "map be_seq (su_replay su) = [Suc (su_resume su)..<Suc (st_seq s)]"
proof -
  let ?r = "su_requested su"
  have m: "ss_max_seq (state_of s) = st_seq s" by (simp add: state_of_def)
  have gap: "su_gap su = gap_reason (state_of s) ?r ep" and rep: "su_replay su = later_than (su_resume su) (st_history s)"
    and res': "su_resume su = (if su_gap su \<noteq> None then st_seq s else ?r)"
    unfolding assms(2) fenced_sub_def Let_def sub.select_convs m by (rule refl)+
  have res: "su_resume su = (if su_gap su = None then ?r else st_seq s)"
    unfolding res' by simp
  show "su_state su = state_of s" by (simp add: assms(2) fenced_sub_def Let_def)
  show "su_resume su = (if su_gap su = None then ?r else st_seq s)" by (fact res)
  have seqs: "be_seq ` set (st_history s) = {Suc (st_seq s) - length (st_history s)..<Suc (st_seq s)}"
  proof -
    have "map be_seq (st_history s) = [Suc (st_seq s) - length (st_history s)..<Suc (st_seq s)]"
      using assms(1) by (simp only: stream_ok_def)
    then have "set (map be_seq (st_history s)) = set [Suc (st_seq s) - length (st_history s)..<Suc (st_seq s)]" by (rule arg_cong)
    then show ?thesis by (simp only: set_map set_upt)
  qed
  have len: "length (st_history s) \<le> st_seq s" "st_seq s \<noteq> 0 \<longrightarrow> st_history s \<noteq> []"
    using assms(1) by (simp_all add: stream_ok_def)
  have "(\<forall>n. ?r < n \<and> n \<le> st_seq s \<longrightarrow> n \<in> be_seq ` set (st_history s)) \<longleftrightarrow>
      Suc (st_seq s) - length (st_history s) \<le> Suc ?r" if "?r \<le> st_seq s"
  proof
    assume all: "\<forall>n. ?r < n \<and> n \<le> st_seq s \<longrightarrow> n \<in> be_seq ` set (st_history s)"
    show "Suc (st_seq s) - length (st_history s) \<le> Suc ?r"
    proof (cases "?r = st_seq s")
      case False
      with that all have "Suc ?r \<in> be_seq ` set (st_history s)" by simp
      then show ?thesis unfolding seqs by simp
    qed simp
  qed (auto simp: seqs)
  then show "su_gap su = None \<longleftrightarrow> (truthy_str ep \<longrightarrow> ep = Some (st_epoch s)) \<and> ?r \<le> st_seq s \<and>
      (\<forall>n. ?r < n \<and> n \<le> st_seq s \<longrightarrow> n \<in> be_seq ` set (st_history s))"
    unfolding gap gap_reason_None[OF assms(1)] by blast
  note rs = fenced_sub_resume[OF assms(1), of k q l ep at_latest, folded assms(2)]
  from later_than_run(1)[OF assms(1) rs(2,1)] later_than_run(2)[OF assms(1) rs(2,1)] rs(1)
  show "map be_seq (su_replay su) = [Suc (su_resume su)..<Suc (st_seq s)]"
    unfolding rep run_of_def by simp
qed

text \<open>
  C29.  Gaps are reported exactly: a new subscription reports no gap if and only if the
  client's epoch (if it sent one) is the stream's, its number is not ahead, and every
  later event is still in the history.  Then it replays exactly those events; otherwise
  it replays nothing and resumes at the present number.
\<close>

theorem gap_reported_exactly:
  assumes "bus_cfg_ok c" "bus_sys_init s0" "(bus_step c)\<^sup>*\<^sup>* s0 s"
    and "open_fenced c k l ep at_latest adm (sy_bus s) = (Inr su, b)"
  shows "\<exists>st. the_stream k b = Some st \<and> su_state su = state_of st \<and>
    (su_gap su = None \<longleftrightarrow> (truthy_str ep \<longrightarrow> ep = Some (st_epoch st)) \<and> su_requested su \<le> st_seq st \<and>
       (\<forall>n. su_requested su < n \<and> n \<le> st_seq st \<longrightarrow> n \<in> be_seq ` set (st_history st))) \<and>
    su_resume su = (if su_gap su = None then su_requested su else st_seq st) \<and>
    map be_seq (su_replay su) = [Suc (su_resume su)..<Suc (st_seq st)]"
proof -
  obtain st q where st: "stream_ok c k st" "su = fenced_sub k q l ep at_latest st"
    "the_stream k b = Some (st\<lparr>st_subs := q # st_subs st\<rparr>)"
    using open_fenced_sub[OF bus_reachable(1)[OF assms(1-3)] assms(1,4)] by blast
  define st' where "st' = st\<lparr>st_subs := q # st_subs st\<rparr>"
  have same: "st_epoch st' = st_epoch st" "st_seq st' = st_seq st" "st_history st' = st_history st" "state_of st' = state_of st"
    by (simp_all add: st'_def state_of_def)
  show ?thesis
    using fenced_sub_gap[OF st(1,2), folded same] st(3)[folded st'_def]
    by - (rule exI[of _ st'], (rule conjI, assumption)+, assumption)
qed

text \<open>
  The bus is bounded: in every reachable state the number of streams, each stream's
  replay history, each subscribed queue and the admission queue respect their configured
  limits, and a queue belongs to one stream only.
\<close>

theorem bus_is_bounded:
  assumes "bus_cfg_ok c" "bus_sys_init s0" "(bus_step c)\<^sup>*\<^sup>* s0 s" "the_stream k (sy_bus s) = Some st"
  shows "length (bs_streams (sy_bus s)) \<le> bc_max_streams c \<and> length (bs_waiters (sy_bus s)) \<le> bc_max_waiters c \<and>
    length (st_history st) \<le> bc_replay c \<and>
    (\<forall>q \<in> set (st_subs st). length (bs_queues (sy_bus s) q) \<le> bc_cap c \<and>
       (\<forall>k' st'. the_stream k' (sy_bus s) = Some st' \<and> q \<in> set (st_subs st') \<longrightarrow> k' = k))"
proof -
  have inv: "bus_core c (sy_bus s)" "waiters_ok c (sy_bus s)"
    using bus_reachable(1)[OF assms(1-3)] by (simp_all add: bus_inv_def)
  have "stream_ok c k st" using inv(1) assms(4) by (simp add: bus_core_def)
  moreover have "subscribed (sy_bus s) k q" if "q \<in> set (st_subs st)" for q
    using that assms(4) by (simp add: subscribed_def)
  moreover have "subscribed (sy_bus s) k' q \<longleftrightarrow> (\<exists>st'. the_stream k' (sy_bus s) = Some st' \<and> q \<in> set (st_subs st'))" for k' q
    by (simp add: subscribed_def)
  ultimately show ?thesis
    using inv unfolding bus_core_def waiters_ok_def stream_ok_def by metis
qed

text \<open>
  A granted admission is honoured: once a scope's waiter has been granted, opening
  the subscription with that grant succeeds in whatever reachable state it happens, even
  when every other stream is in use; the grant is spent, and the scope's stream keeps its
  epoch and number.
\<close>

theorem granted_admission_honoured:
  assumes "bus_cfg_ok c" "bus_sys_init s0" "(bus_step c)\<^sup>*\<^sup>* s0 s" "bs_grants (sy_bus s) k = Some f"
  shows "\<exists>su b st. open_fenced c k l ep at_latest (Some f) (sy_bus s) = (Inr su, b) \<and>
    the_stream k (sy_bus s) = Some st \<and> su_state su = state_of st"
proof -
  let ?b0 = "sy_bus s"
  have inv: "bus_inv c ?b0" using bus_reachable(1)[OF assms(1-3)] .
  then obtain st where st: "the_stream k ?b0 = Some st"
    using assms(4) by (auto simp: bus_inv_def bus_core_def)
  obtain q b where nq: "new_queue ?b0 = (q, b)" by fastforce
  have stb: "the_stream k b = Some st" using new_queue_ok(6)[OF nq inv] st by simp
  obtain b1 where sl: "stream_locked c k b = Inr b1" using stream_locked_total[of k b c] stb by auto
  have "bus_core c b" using new_queue_ok(4)[OF nq inv] by (simp add: bus_inv_def)
  from stream_locked_ok(7)[OF sl this _ stb] assms(1) have at: "the_stream k b1 = Some st"
    by (simp add: bus_cfg_ok_def)
  obtain e b2 where reg: "register c k q (Some f) (the (the_stream k b1)) b1 = (e, b2)" by fastforce
  have "e = None" using enroll_ok[OF inv assms(1) nq sl reg] by blast
  then have "open_fenced c k l ep at_latest (Some f) ?b0 = (Inr (fenced_sub k q l ep at_latest st), b2)"
    using reg by (simp add: open_fenced_def nq sl at Let_def)
  moreover have "su_state (fenced_sub k q l ep at_latest st) = state_of st"
    by (simp add: fenced_sub_def Let_def)
  ultimately show ?thesis using st by blast
qed


section \<open>Concrete runs\<close>

type_synonym scope = "string \<times> string"

definition demo_bcfg :: bus_cfg where
  "demo_bcfg = \<lparr>bc_cap = 1, bc_replay = 2, bc_max_streams = 1, bc_max_waiters = 1,
     bc_uuid = (\<lambda>n. if n = 1 then ''e1'' else ''e'')\<rparr>"

definition demo_scope :: scope where "demo_scope = (''t'', ''a'')"
definition demo_scope2 :: scope where "demo_scope2 = (''t'', ''b'')"

definition demo_ev :: "string \<Rightarrow> echo_event" where
  "demo_ev ty = \<lparr>ee_type = ty, ee_meeting_id = None, ee_payload = [], ee_ts = 0\<rparr>"

definition demo_bus0 :: "scope bus_sys" where
  "demo_bus0 = \<lparr>sy_bus = \<lparr>bs_streams = [], bs_waiters = [], bs_grants = Map.empty, bs_futures = (\<lambda>_. Waiting),
     bs_queues = (\<lambda>_. []), bs_next = 0\<rparr>, sy_subs = Map.empty, sy_got = (\<lambda>_. [])\<rparr>"

definition run_open :: "scope \<Rightarrow> int \<Rightarrow> scope bus_sys \<Rightarrow> scope bus_sys" where
  "run_open k l s = (let r = open_fenced demo_bcfg k l None False None (sy_bus s); su = projr (fst r)
     in s\<lparr>sy_bus := snd r, sy_subs := (sy_subs s)(su_queue su \<mapsto> su), sy_got := (sy_got s)(su_queue su := [])\<rparr>)"

definition run_publish :: "string \<Rightarrow> scope bus_sys \<Rightarrow> scope bus_sys" where
  "run_publish ty s = s\<lparr>sy_bus := snd (publish_to demo_bcfg 0 demo_scope (demo_ev ty) (sy_bus s))\<rparr>"

definition run_await :: "scope \<Rightarrow> scope bus_sys \<Rightarrow> scope bus_sys" where
  "run_await k s = s\<lparr>sy_bus := snd (await_admission demo_bcfg k (sy_bus s))\<rparr>"

definition run_close :: "nat \<Rightarrow> scope bus_sys \<Rightarrow> scope bus_sys" where
  "run_close q s = (let r = close_sub demo_bcfg (the (sy_subs s q)) (sy_bus s)
     in s\<lparr>sy_bus := snd r, sy_subs := (sy_subs s)(q \<mapsto> fst r)\<rparr>)"

fun yielded :: "'a next_result \<Rightarrow> 'a option" where
  "yielded (Yields e) = Some e"
| "yielded _ = None"

definition run_next :: "nat \<Rightarrow> scope bus_sys \<Rightarrow> scope bus_sys" where
  "run_next q s = (case sub_next (the (sy_subs s q)) (sy_bus s) of (r, su', b) \<Rightarrow>
     s\<lparr>sy_bus := b, sy_subs := (sy_subs s)(q \<mapsto> su'), sy_got := (sy_got s)(q := sy_got s q @ [the (yielded r)])\<rparr>)"

lemma run_steps:
  "bus_step demo_bcfg s (run_publish ty s)" "bus_step demo_bcfg s (run_await k s)"
  "\<not> isl (fst (open_fenced demo_bcfg k l None False None (sy_bus s))) \<Longrightarrow> bus_step demo_bcfg s (run_open k l s)"
  "sy_subs s q \<noteq> None \<Longrightarrow> bus_step demo_bcfg s (run_close q s)"
  "sy_subs s q \<noteq> None \<Longrightarrow> yielded (fst (sub_next (the (sy_subs s q)) (sy_bus s))) \<noteq> None \<Longrightarrow>
     bus_step demo_bcfg s (run_next q s)"
proof -
  show "bus_step demo_bcfg s (run_publish ty s)"
    unfolding run_publish_def by (rule bus_publish) (rule prod.collapse[symmetric])
  show "bus_step demo_bcfg s (run_await k s)"
    unfolding run_await_def by (rule bus_await) (rule prod.collapse[symmetric])
  show "bus_step demo_bcfg s (run_open k l s)" if "\<not> isl (fst (open_fenced demo_bcfg k l None False None (sy_bus s)))"
    unfolding run_open_def Let_def by (rule bus_open) (use that in \<open>simp add: prod_eq_iff sum.collapse(2)\<close>)
  show "bus_step demo_bcfg s (run_close q s)" if "sy_subs s q \<noteq> None"
    unfolding run_close_def Let_def by (rule bus_close) (use that in auto)
  show "bus_step demo_bcfg s (run_next q s)"
    if some: "sy_subs s q \<noteq> None" and y: "yielded (fst (sub_next (the (sy_subs s q)) (sy_bus s))) \<noteq> None"
  proof -
    obtain r su' b where n: "sub_next (the (sy_subs s q)) (sy_bus s) = (r, su', b)" by (metis prod_cases3)
    with y obtain e where r: "r = Yields e" by (cases r) auto
    show ?thesis unfolding run_next_def n r by (simp add: bus_next[OF _ n[unfolded r]] some option.expand)
  qed
qed

definition demo_bus1 :: "scope bus_sys" where "demo_bus1 = run_open demo_scope 0 demo_bus0"
definition demo_bus2 :: "scope bus_sys" where "demo_bus2 = run_next 0 (run_publish ''chat.delta'' demo_bus1)"
definition demo_bus3 :: "scope bus_sys" where
  "demo_bus3 = run_next 0 (run_publish ''chat.done'' (run_publish ''chat.delta'' demo_bus2))"
definition demo_bus4 :: "scope bus_sys" where "demo_bus4 = run_close 0 (run_await demo_scope2 demo_bus1)"

lemma demo_bus_runs:
  "(bus_step demo_bcfg)\<^sup>*\<^sup>* demo_bus0 demo_bus1" "(bus_step demo_bcfg)\<^sup>*\<^sup>* demo_bus0 demo_bus2"
  "(bus_step demo_bcfg)\<^sup>*\<^sup>* demo_bus0 demo_bus3" "(bus_step demo_bcfg)\<^sup>*\<^sup>* demo_bus0 demo_bus4"
proof -
  have "\<not> isl (fst (open_fenced demo_bcfg demo_scope 0 None False None (sy_bus demo_bus0)))" by code_simp
  then show r1: "(bus_step demo_bcfg)\<^sup>*\<^sup>* demo_bus0 demo_bus1"
    unfolding demo_bus1_def by (intro r_into_rtranclp run_steps(3))
  have "sy_subs (run_publish ''chat.delta'' demo_bus1) 0 \<noteq> None"
    "yielded (fst (sub_next (the (sy_subs (run_publish ''chat.delta'' demo_bus1) 0)) (sy_bus (run_publish ''chat.delta'' demo_bus1)))) \<noteq> None"
    by code_simp+
  then have "bus_step demo_bcfg (run_publish ''chat.delta'' demo_bus1) demo_bus2"
    unfolding demo_bus2_def by (rule run_steps(5))
  then show r2: "(bus_step demo_bcfg)\<^sup>*\<^sup>* demo_bus0 demo_bus2"
    using r1 run_steps(1) by (meson rtranclp.rtrancl_into_rtrancl)
  let ?s = "run_publish ''chat.done'' (run_publish ''chat.delta'' demo_bus2)"
  have "sy_subs ?s 0 \<noteq> None" "yielded (fst (sub_next (the (sy_subs ?s 0)) (sy_bus ?s))) \<noteq> None"
    by code_simp+
  then have "bus_step demo_bcfg ?s demo_bus3"
    unfolding demo_bus3_def by (rule run_steps(5))
  then show "(bus_step demo_bcfg)\<^sup>*\<^sup>* demo_bus0 demo_bus3"
    using r2 run_steps(1) by (meson rtranclp.rtrancl_into_rtrancl)
  have "sy_subs (run_await demo_scope2 demo_bus1) 0 \<noteq> None" by code_simp
  then have "bus_step demo_bcfg (run_await demo_scope2 demo_bus1) demo_bus4"
    unfolding demo_bus4_def by (rule run_steps(4))
  then show "(bus_step demo_bcfg)\<^sup>*\<^sup>* demo_bus0 demo_bus4"
    using r1 run_steps(2) by (meson rtranclp.rtrancl_into_rtrancl)
qed

lemma demo_bus_init: "bus_cfg_ok demo_bcfg" "bus_sys_init demo_bus0"
  by (simp_all add: bus_cfg_ok_def demo_bcfg_def bus_sys_init_def bus_init_def demo_bus0_def)


lemma demo_bus_facts:
  "sy_subs demo_bus3 0 = Some (the (sy_subs demo_bus3 0))" "length (sy_got demo_bus3 0) = 2"
  "open_fenced demo_bcfg demo_scope 1 (Some ''e1'') False None (sy_bus demo_bus3) =
     (Inr (projr (fst (open_fenced demo_bcfg demo_scope 1 (Some ''e1'') False None (sy_bus demo_bus3)))),
      snd (open_fenced demo_bcfg demo_scope 1 (Some ''e1'') False None (sy_bus demo_bus3)))"
  "the_stream demo_scope (sy_bus demo_bus2) = Some (the (the_stream demo_scope (sy_bus demo_bus2)))"
  "bs_grants (sy_bus demo_bus4) demo_scope2 = Some (the (bs_grants (sy_bus demo_bus4) demo_scope2))"
proof -
  have "sy_subs demo_bus3 0 \<noteq> None" by code_simp
  then show "sy_subs demo_bus3 0 = Some (the (sy_subs demo_bus3 0))" by simp
  show "length (sy_got demo_bus3 0) = 2" by code_simp
  have "\<not> isl (fst (open_fenced demo_bcfg demo_scope 1 (Some ''e1'') False None (sy_bus demo_bus3)))" by code_simp
  then show "open_fenced demo_bcfg demo_scope 1 (Some ''e1'') False None (sy_bus demo_bus3) =
     (Inr (projr (fst (open_fenced demo_bcfg demo_scope 1 (Some ''e1'') False None (sy_bus demo_bus3)))),
      snd (open_fenced demo_bcfg demo_scope 1 (Some ''e1'') False None (sy_bus demo_bus3)))"
    by (simp add: prod_eq_iff sum.collapse(2))
  have "the_stream demo_scope (sy_bus demo_bus2) \<noteq> None" by code_simp
  then show "the_stream demo_scope (sy_bus demo_bus2) = Some (the (the_stream demo_scope (sy_bus demo_bus2)))" by simp
  have "bs_grants (sy_bus demo_bus4) demo_scope2 \<noteq> None" by code_simp
  then show "bs_grants (sy_bus demo_bus4) demo_scope2 = Some (the (bs_grants (sy_bus demo_bus4) demo_scope2))" by simp
qed

theorem subscription_without_gaps_witness:
  "length (sy_got demo_bus3 0) = 2 \<and> (\<exists>es fs. sy_got demo_bus3 0 = es @ fs \<and>
     map be_seq es = [Suc (su_resume (the (sy_subs demo_bus3 0)))..<Suc (su_resume (the (sy_subs demo_bus3 0))) + length es])"
  using subscription_without_gaps[OF demo_bus_init demo_bus_runs(3) demo_bus_facts(1)] demo_bus_facts(2) by blast

theorem gap_reported_exactly_witness:
  "\<exists>st. the_stream demo_scope (snd (open_fenced demo_bcfg demo_scope 1 (Some ''e1'') False None (sy_bus demo_bus3))) = Some st \<and>
     st_seq st = 3"
proof -
  obtain st where "the_stream demo_scope (snd (open_fenced demo_bcfg demo_scope 1 (Some ''e1'') False None (sy_bus demo_bus3))) = Some st"
    using gap_reported_exactly[OF demo_bus_init demo_bus_runs(3) demo_bus_facts(3)] by blast
  moreover have "map_option st_seq (the_stream demo_scope
      (snd (open_fenced demo_bcfg demo_scope 1 (Some ''e1'') False None (sy_bus demo_bus3)))) = Some 3" by code_simp
  ultimately show ?thesis by simp
qed

theorem bus_is_bounded_witness:
  "length (bs_streams (sy_bus demo_bus2)) \<le> 1 \<and> length (st_history (the (the_stream demo_scope (sy_bus demo_bus2)))) \<le> 2"
  using bus_is_bounded[OF demo_bus_init demo_bus_runs(2) demo_bus_facts(4)] by (simp add: demo_bcfg_def)

theorem granted_admission_honoured_witness:
  "\<exists>su b. open_fenced demo_bcfg demo_scope2 0 None False (Some (the (bs_grants (sy_bus demo_bus4) demo_scope2)))
     (sy_bus demo_bus4) = (Inr su, b)"
  using granted_admission_honoured[OF demo_bus_init demo_bus_runs(4) demo_bus_facts(5)] by blast

end
