(* ===== verification/Outbox.thy ===== *)
theory Outbox
  imports EventBus
begin

text \<open>
  Delivery of the transactional outbox to the event bus: the consumer half of
  \<open>WorkflowService\<close> (\<open>backend/app/workflows/service.py\<close>, from \<open>_outbox_replay_floor\<close> to
  \<open>drain_outbox\<close>).  Every backend process is a consumer with a durable cursor.  A row that
  cannot be published opens a recovery lane for its scope behind the cursor; later rows of
  the scope queue behind the lane's head, other scopes go on.  This theory has the main
  lane, the recovery lanes of the consumer and the sparse rows of older databases.

  The state \<open>dlv\<close> holds the shared tables and the fields of one process; its event bus
  is part of it.  \<open>'k\<close> is the scope (tenant and owner).  \<open>oc_clock c n\<close> is \<open>time.time()\<close>
  after the process has made \<open>n\<close> publication attempts.  The field \<open>dv_trace\<close> is not in the
  code: it records the lane, scope and row of each successful publication.
  The foreign key of the lanes on the consumer's row is not checked: every operation here runs
  after \<open>ensure_consumer\<close>.
\<close>

section \<open>Tables and state\<close>

record 'k dlv_row =
  dr_id :: nat
  dr_scope :: 'k
  dr_type :: string
  dr_meeting :: "string option"
  dr_payload :: jdict
  dr_published :: "rat option"
  dr_attempts :: nat
  dr_error :: "string option"

record retry_info =
  rt_attempts :: nat
  rt_at :: rat
  rt_error :: "string option"

record lane = retry_info +
  ln_next :: nat

record consumer =
  cn_cursor :: nat
  cn_heartbeat :: rat

datatype delivery_lane = MainLane | SparseLane | ScopeLane | GlobalLane

record 'k dlv =
  dv_rows :: "'k dlv_row list"
  dv_seq :: nat
  dv_consumers :: "(string \<times> consumer) list"
  dv_lanes :: "string \<Rightarrow> 'k \<Rightarrow> lane option"
  dv_sparse :: "string \<Rightarrow> nat \<Rightarrow> retry_info option"
  dv_glanes :: "'k \<Rightarrow> lane option"
  dv_scan :: nat
  dv_through :: nat
  dv_lease_owner :: "string option"
  dv_lease_fence :: nat
  dv_lease_expires :: rat
  dv_failed_owner :: "string option"
  dv_failed_retry :: rat
  dv_cursor :: nat
  dv_registered :: bool
  dv_fence :: "nat option"
  dv_saturated :: bool
  dv_next_cleanup :: rat
  dv_bus :: "'k bus"
  dv_tries :: nat
  dv_trace :: "(delivery_lane \<times> 'k \<times> nat) list"

record dlv_cfg =
  oc_bus :: bus_cfg
  oc_id :: string
  oc_owner :: string
  oc_clock :: "nat \<Rightarrow> rat"
  oc_mono :: "nat \<Rightarrow> rat"
  oc_invalid :: "string \<Rightarrow> string"
  oc_window :: nat
  oc_ttl :: rat
  oc_retention :: rat
  oc_max_rows :: nat
  oc_cleanup :: rat

definition clock_now :: "dlv_cfg \<Rightarrow> 'k dlv \<Rightarrow> rat" where
  "clock_now c s = oc_clock c (dv_tries s)"

definition set_consumer :: "string \<Rightarrow> (consumer \<Rightarrow> consumer) \<Rightarrow> 'k dlv \<Rightarrow> 'k dlv" where
  "set_consumer i f s = s\<lparr>dv_consumers := map (\<lambda>p. (fst p, if fst p = i then f (snd p) else snd p)) (dv_consumers s)\<rparr>"

definition beat :: "dlv_cfg \<Rightarrow> 'k dlv \<Rightarrow> 'k dlv" where
  "beat c s = set_consumer (oc_id c) (\<lambda>n. n\<lparr>cn_heartbeat := clock_now c s\<rparr>) s"

definition set_lane :: "string \<Rightarrow> 'k \<Rightarrow> lane option \<Rightarrow> 'k dlv \<Rightarrow> 'k dlv" where
  "set_lane i k l s = s\<lparr>dv_lanes := (dv_lanes s)(i := (dv_lanes s i)(k := l))\<rparr>"

definition set_sparse :: "string \<Rightarrow> nat \<Rightarrow> retry_info option \<Rightarrow> 'k dlv \<Rightarrow> 'k dlv" where
  "set_sparse i n x s = s\<lparr>dv_sparse := (dv_sparse s)(i := (dv_sparse s i)(n := x))\<rparr>"

section \<open>Registration\<close>

definition nth_newest :: "nat \<Rightarrow> 'k dlv \<Rightarrow> nat" where
  "nth_newest n s = (let ids = rev (sort (map dr_id (dv_rows s))) in if n < length ids then ids ! n else 0)"

definition replay_floor :: "nat \<Rightarrow> 'k dlv \<Rightarrow> nat" where
  "replay_floor n s = (if n = 0 then max0 (map dr_id (dv_rows s)) else nth_newest n s)"

text \<open>\<open>_ensure_outbox_consumer\<close>; \<open>seen\<close> is the database it read before taking the write lock.\<close>

definition ensure_consumer :: "dlv_cfg \<Rightarrow> 'k dlv \<Rightarrow> 'k dlv \<Rightarrow> 'k dlv" where
  "ensure_consumer c seen s =
     (let candidate = (if map_of (dv_consumers seen) (oc_id c) = None
                       then Some (replay_floor (oc_window c) seen) else None)
      in case map_of (dv_consumers s) (oc_id c) of
           None \<Rightarrow>
             (let cursor = (case candidate of Some x \<Rightarrow> x | None \<Rightarrow> 0)
              in s\<lparr>dv_consumers := dv_consumers s @ [(oc_id c, \<lparr>cn_cursor = cursor, cn_heartbeat = clock_now c s\<rparr>)],
                   dv_through := max (dv_through s) cursor, dv_cursor := cursor, dv_registered := True\<rparr>)
         | Some n \<Rightarrow> (beat c s)\<lparr>dv_cursor := cn_cursor n, dv_registered := True\<rparr>)"

section \<open>Recovery lanes\<close>

definition retry_delay :: "nat \<Rightarrow> rat" where
  "retry_delay attempts = min 30 (1 / 4 * 2 ^ min (attempts - 1) 16)"

definition error_text :: "string option \<Rightarrow> string option" where
  "error_text e = (case e of None \<Rightarrow> None | Some t \<Rightarrow> if t = [] then None else Some (utf8_take 500 t))"

definition fresh_lane :: "rat \<Rightarrow> nat \<Rightarrow> string option \<Rightarrow> bool \<Rightarrow> lane" where
  "fresh_lane now i err attempted =
     (let a = (if attempted then 1 else 0)
      in \<lparr>rt_attempts = a, rt_at = (if attempted then now + retry_delay a else 0), rt_error = error_text err, ln_next = i\<rparr>)"

text \<open>The decision shared by \<open>_queue_scope_recovery\<close> and \<open>_queue_global_scope_recovery\<close>.\<close>

definition requeue :: "rat \<Rightarrow> nat \<Rightarrow> string option \<Rightarrow> bool \<Rightarrow> lane option \<Rightarrow> lane" where
  "requeue now i err attempted old =
     (case old of
        None \<Rightarrow> fresh_lane now i err attempted
      | Some l \<Rightarrow>
          if i < ln_next l then fresh_lane now i err attempted
          else if attempted \<and> i = ln_next l
          then l\<lparr>rt_attempts := rt_attempts l + 1, rt_at := now + retry_delay (rt_attempts l + 1),
                 rt_error := error_text err\<rparr>
          else l)"

definition queue_scope_recovery :: "dlv_cfg \<Rightarrow> 'k dlv_row \<Rightarrow> string option \<Rightarrow> bool \<Rightarrow> 'k dlv \<Rightarrow> 'k dlv" where
  "queue_scope_recovery c r err attempted s =
     set_lane (oc_id c) (dr_scope r)
       (Some (requeue (clock_now c s) (dr_id r) err attempted (dv_lanes s (oc_id c) (dr_scope r)))) s"

definition lane_before :: "lane option \<Rightarrow> nat \<Rightarrow> bool" where
  "lane_before l i = (case l of None \<Rightarrow> False | Some x \<Rightarrow> ln_next x < i)"

definition sparse_before :: "string \<Rightarrow> 'k \<Rightarrow> nat \<Rightarrow> 'k dlv \<Rightarrow> bool" where
  "sparse_before i k n s = (\<exists>q \<in> set (dv_rows s). dr_scope q = k \<and> dr_id q < n \<and> dv_sparse s i (dr_id q) \<noteq> None)"

definition has_earlier_scope_recovery :: "dlv_cfg \<Rightarrow> 'k dlv_row \<Rightarrow> 'k dlv \<Rightarrow> bool" where
  "has_earlier_scope_recovery c r s =
     (lane_before (dv_lanes s (oc_id c) (dr_scope r)) (dr_id r) \<or> lane_before (dv_glanes s (dr_scope r)) (dr_id r) \<or>
      sparse_before (oc_id c) (dr_scope r) (dr_id r) s)"

definition advance_outbox_cursor :: "dlv_cfg \<Rightarrow> nat \<Rightarrow> 'k dlv \<Rightarrow> 'k dlv" where
  "advance_outbox_cursor c i s =
     (let cur = max (dv_cursor s) i
      in set_consumer (oc_id c) (\<lambda>n. n\<lparr>cn_cursor := max (cn_cursor n) cur, cn_heartbeat := clock_now c s\<rparr>)
           (s\<lparr>dv_cursor := cur\<rparr>))"

text \<open>\<open>_advance_scope_recovery\<close>: the lane moves to the scope's next row up to the cursor.\<close>

definition next_of_scope :: "'k \<Rightarrow> nat \<Rightarrow> nat \<Rightarrow> 'k dlv_row list \<Rightarrow> nat option" where
  "next_of_scope k lo hi rows =
     (case sort (map dr_id (filter (\<lambda>q. dr_scope q = k \<and> lo < dr_id q \<and> dr_id q \<le> hi) rows)) of
        [] \<Rightarrow> None | i # _ \<Rightarrow> Some i)"

definition advance_scope_recovery :: "dlv_cfg \<Rightarrow> 'k dlv_row \<Rightarrow> 'k dlv \<Rightarrow> py_error + 'k dlv" where
  "advance_scope_recovery c r s =
     (case dv_lanes s (oc_id c) (dr_scope r) of
        None \<Rightarrow> Inl (RuntimeError ''outbox scope recovery lane disappeared'')
      | Some l \<Rightarrow>
          if ln_next l \<noteq> dr_id r then Inl (RuntimeError ''outbox scope recovery lane disappeared'')
          else Inr (set_lane (oc_id c) (dr_scope r)
            (map_option (\<lambda>i. \<lparr>rt_attempts = 0, rt_at = 0, rt_error = None, ln_next = i\<rparr>)
              (next_of_scope (dr_scope r) (dr_id r) (dv_cursor s) (dv_rows s))) s))"

section \<open>Publication of one row\<close>

definition echo_event_types :: "string list" where
  "echo_event_types = [''meeting.started'', ''meeting.auto_detected'', ''meeting.auto_ended'',
     ''meeting.state_changed'', ''meeting.segment'', ''meeting.ended'', ''meeting.todo.completed'',
     ''meeting.todo.updated'', ''minutes.ready'', ''minutes.failed'', ''artifact.generating'', ''artifact.ready'',
     ''artifact.failed'', ''workflow.event'', ''workflow.snapshot'', ''rag.query'', ''rag.answer.delta'',
     ''rag.answer.done'', ''chat.delta'', ''tts.suggested'', ''chat.done'', ''memory.status'', ''memory.sources'',
     ''agent.task.event'', ''error'', ''server_hello'', ''server_ping'', ''server_resync'', ''server_sync'',
     ''client_hello'', ''client_ping'']"

definition bus_error_text :: "bus_error \<Rightarrow> string" where
  "bus_error_text e = (case e of CapacityExceeded t \<Rightarrow> t | SlowConsumer \<Rightarrow> ''subscriber queue overflowed'')"

text \<open>\<open>_publish_outbox_row\<close>: the text of the exception, if there was one.\<close>

definition publish_outbox_row :: "dlv_cfg \<Rightarrow> delivery_lane \<Rightarrow> 'k dlv_row \<Rightarrow> 'k dlv \<Rightarrow> string option \<times> 'k dlv" where
  "publish_outbox_row c lane r s =
     (let s1 = s\<lparr>dv_tries := dv_tries s + 1\<rparr> in
      if dr_type r \<notin> set echo_event_types then (Some (oc_invalid c (dr_type r)), s1)
      else
        (let (res, b) = publish_to (oc_bus c) (clock_now c s) (dr_scope r)
               \<lparr>ee_type = dr_type r, ee_meeting_id = dr_meeting r, ee_payload = dr_payload r, ee_ts = clock_now c s\<rparr>
               (dv_bus s)
         in case res of
              Inl e \<Rightarrow> (Some (bus_error_text e), s1\<lparr>dv_bus := b\<rparr>)
            | Inr _ \<Rightarrow> (None, s1\<lparr>dv_bus := b, dv_trace := dv_trace s @ [(lane, dr_scope r, dr_id r)]\<rparr>)))"

definition set_row :: "nat \<Rightarrow> ('k dlv_row \<Rightarrow> 'k dlv_row) \<Rightarrow> 'k dlv \<Rightarrow> 'k dlv" where
  "set_row i f s = s\<lparr>dv_rows := update_where (\<lambda>q. dr_id q = i) f (dv_rows s)\<rparr>"

definition row_published :: "rat \<Rightarrow> 'k dlv_row \<Rightarrow> 'k dlv_row" where
  "row_published now q = q\<lparr>dr_published := Some (case dr_published q of Some t \<Rightarrow> t | None \<Rightarrow> now),
     dr_attempts := dr_attempts q + 1, dr_error := None\<rparr>"

definition row_failed :: "string \<Rightarrow> 'k dlv_row \<Rightarrow> 'k dlv_row" where
  "row_failed err q = q\<lparr>dr_attempts := dr_attempts q + 1, dr_error := Some (utf8_take 500 err)\<rparr>"

definition mark_outbox_published :: "dlv_cfg \<Rightarrow> delivery_lane \<Rightarrow> 'k dlv_row \<Rightarrow> 'k dlv \<Rightarrow> py_error + 'k dlv" where
  "mark_outbox_published c lane r s0 =
     (let s = set_row (dr_id r) (row_published (clock_now c s0)) s0 in
      case lane of
        MainLane \<Rightarrow> Inr (advance_outbox_cursor c (dr_id r) s)
      | SparseLane \<Rightarrow> Inr (beat c (set_sparse (oc_id c) (dr_id r) None s))
      | _ \<Rightarrow> map_sum id (beat c) (advance_scope_recovery c r s))"

definition retry_sparse :: "dlv_cfg \<Rightarrow> 'k dlv_row \<Rightarrow> string \<Rightarrow> 'k dlv \<Rightarrow> py_error + 'k dlv" where
  "retry_sparse c r err s =
     (case dv_sparse s (oc_id c) (dr_id r) of
        None \<Rightarrow> Inl (RuntimeError ''legacy outbox recovery row disappeared'')
      | Some x \<Rightarrow> Inr (set_sparse (oc_id c) (dr_id r)
          (Some \<lparr>rt_attempts = rt_attempts x + 1, rt_at = clock_now c s + retry_delay (rt_attempts x + 1),
                 rt_error = Some (utf8_take 500 err)\<rparr>) s))"

definition mark_outbox_failed :: "dlv_cfg \<Rightarrow> delivery_lane \<Rightarrow> 'k dlv_row \<Rightarrow> string \<Rightarrow> 'k dlv \<Rightarrow> py_error + 'k dlv" where
  "mark_outbox_failed c lane r err s0 =
     (let e = utf8_take 500 err; s = set_row (dr_id r) (row_failed err) s0 in
      case lane of
        MainLane \<Rightarrow> Inr (advance_outbox_cursor c (dr_id r) (queue_scope_recovery c r (Some e) True s))
      | SparseLane \<Rightarrow> map_sum id (beat c) (retry_sparse c r e s)
      | _ \<Rightarrow> Inr (beat c (queue_scope_recovery c r (Some e) True s)))"

text \<open>
  One row of a lane: publish it and record the outcome in one transaction.  An exception
  while recording ends the flush and rolls the tables back.
\<close>

definition deliver_row :: "dlv_cfg \<Rightarrow> delivery_lane \<Rightarrow> 'k dlv_row \<Rightarrow> 'k dlv \<Rightarrow> bool \<times> (py_error option \<times> 'k dlv)" where
  "deliver_row c lane r s =
     (let (err, s1) = publish_outbox_row c lane r s in
      case (case err of None \<Rightarrow> mark_outbox_published c lane r s1 | Some t \<Rightarrow> mark_outbox_failed c lane r t s1) of
        Inl x \<Rightarrow> (False, Some x, s1)
      | Inr s2 \<Rightarrow> (err = None, None, s2))"

section \<open>Lanes\<close>

text \<open>A row of the main lane: behind a recovery lane of its scope it only joins the lane.\<close>

definition main_row :: "dlv_cfg \<Rightarrow> 'k dlv_row \<Rightarrow> 'k dlv \<Rightarrow> bool \<times> (py_error option \<times> 'k dlv)" where
  "main_row c r s =
     (if has_earlier_scope_recovery c r s
      then (False, None, advance_outbox_cursor c (dr_id r) (queue_scope_recovery c r None False s))
      else deliver_row c MainLane r s)"

fun each_row :: "('k dlv_row \<Rightarrow> 'k dlv \<Rightarrow> bool \<times> ('e option \<times> 'k dlv)) \<Rightarrow> 'k dlv_row list \<Rightarrow> nat \<Rightarrow> 'k dlv
    \<Rightarrow> nat \<times> ('e option \<times> 'k dlv)" where
  "each_row f [] n s = (n, None, s)"
| "each_row f (r # rs) n s =
     (case f r s of
        (ok, Some x, s1) \<Rightarrow> (n, Some x, s1)
      | (ok, None, s1) \<Rightarrow> each_row f rs (if ok then n + 1 else n) s1)"

definition main_page :: "nat \<Rightarrow> 'k dlv \<Rightarrow> 'k dlv_row list" where
  "main_page limit s = take limit (sort_key dr_id (filter (\<lambda>q. dv_cursor s < dr_id q) (dv_rows s)))"

text \<open>\<open>_flush_outbox_main_rows\<close>: how many rows were published, and how many were in the page.\<close>

definition flush_main :: "dlv_cfg \<Rightarrow> nat \<Rightarrow> 'k dlv \<Rightarrow> (nat \<times> nat) \<times> (py_error option \<times> 'k dlv)" where
  "flush_main c limit s =
     (let rows = main_page limit s; (n, x, s1) = each_row (main_row c) rows 0 s in ((n, length rows), x, s1))"

definition due :: "rat \<Rightarrow> retry_info option \<Rightarrow> bool" where
  "due now x = (case x of None \<Rightarrow> False | Some i \<Rightarrow> rt_at i \<le> now)"

definition head_due :: "rat \<Rightarrow> nat \<Rightarrow> lane option \<Rightarrow> bool" where
  "head_due now i l = (case l of None \<Rightarrow> False | Some x \<Rightarrow> ln_next x = i \<and> rt_at x \<le> now)"

definition sparse_due :: "dlv_cfg \<Rightarrow> 'k dlv \<Rightarrow> 'k dlv_row \<Rightarrow> bool" where
  "sparse_due c s q = (due (clock_now c s) (dv_sparse s (oc_id c) (dr_id q)) \<and>
     \<not> sparse_before (oc_id c) (dr_scope q) (dr_id q) s)"

definition scope_due :: "dlv_cfg \<Rightarrow> 'k dlv \<Rightarrow> 'k dlv_row \<Rightarrow> bool" where
  "scope_due c s q = (head_due (clock_now c s) (dr_id q) (dv_lanes s (oc_id c) (dr_scope q)) \<and>
     \<not> sparse_before (oc_id c) (dr_scope q) (dr_id q) s \<and> \<not> lane_before (dv_glanes s (dr_scope q)) (dr_id q))"

text \<open>\<open>_due_legacy_recovery_rows\<close> and \<open>_due_scope_recovery_rows\<close>.\<close>

definition due_rows :: "dlv_cfg \<Rightarrow> delivery_lane \<Rightarrow> nat \<Rightarrow> 'k dlv \<Rightarrow> 'k dlv_row list" where
  "due_rows c lane limit s =
     take limit (sort_key dr_id (filter (if lane = SparseLane then sparse_due c s else scope_due c s) (dv_rows s)))"

text \<open>\<open>_flush_legacy_recovery_rows\<close> and \<open>_flush_scope_recovery_rows\<close>.\<close>

function flush_lane :: "dlv_cfg \<Rightarrow> delivery_lane \<Rightarrow> nat \<Rightarrow> nat \<Rightarrow> nat \<Rightarrow> 'k dlv
    \<Rightarrow> (nat \<times> nat) \<times> (py_error option \<times> 'k dlv)" where
  "flush_lane c lane limit processed published s =
     (if limit \<le> processed then ((published, processed), None, s)
      else
        (let rows = due_rows c lane (limit - processed) s in
         if rows = [] then ((published, processed), None, s)
         else case each_row (deliver_row c lane) rows published s of
                (n, Some x, s1) \<Rightarrow> ((n, processed + length rows), Some x, s1)
              | (n, None, s1) \<Rightarrow> flush_lane c lane limit (processed + length rows) n s1))"
  by pat_completeness auto
termination
proof (relation "measure (\<lambda>(c, lane, limit, processed, n, s). limit - processed)", goal_cases)
  case 1
  then show ?case by simp
next
  case (2 c lane limit processed published s x xa y xb)
  then have "length x \<noteq> 0" "processed < limit" by auto
  then show ?case by (simp only: in_measure prod.case)
qed

declare flush_lane.simps [simp del]

end
