(* ===== verification/OutboxGlobal.thy ===== *)
theory OutboxGlobal
  imports Outbox
begin

text \<open>
  The rest of \<open>flush_outbox\<close> in \<open>backend/app/workflows/service.py\<close>: the recovery of rows that
  were committed before any living consumer registered (one scanner at a time, elected by a
  fenced lease in the database), the complete flush, the pruning of old rows, the drain loop
  and the shutdown.  A lost lease (\<open>_GlobalRecoveryLeaseLost\<close>) is \<open>None\<close> in the operations
  on the tables; the transaction it interrupts is rolled back, publications are not.
\<close>

section \<open>The lease of the global scanner\<close>

definition global_lease_s :: rat where
  "global_lease_s = 15"

definition try_acquire_global :: "dlv_cfg \<Rightarrow> 'k dlv \<Rightarrow> bool \<times> 'k dlv" where
  "try_acquire_global c s =
     (let now = clock_now c s; me = Some (oc_owner c) in
      if (dv_lease_owner s = None \<or> dv_lease_owner s = me \<or> dv_lease_expires s \<le> now) \<and>
         (dv_failed_owner s = None \<or> dv_failed_owner s \<noteq> me \<or> dv_failed_retry s \<le> now)
      then let f = (if dv_lease_owner s = me then dv_lease_fence s else dv_lease_fence s + 1)
           in (True, s\<lparr>dv_lease_fence := f, dv_lease_owner := me, dv_lease_expires := now + global_lease_s,
                       dv_fence := Some f\<rparr>)
      else (False, s\<lparr>dv_fence := None\<rparr>))"

text \<open>The condition that \<open>_assert\<close>, \<open>_renew\<close> and \<open>_advance_global_scan_cursor\<close> put in their SQL.\<close>

definition owns_global_lease :: "dlv_cfg \<Rightarrow> 'k dlv \<Rightarrow> bool" where
  "owns_global_lease c s =
     (case dv_fence s of
        None \<Rightarrow> False
      | Some f \<Rightarrow> dv_lease_owner s = Some (oc_owner c) \<and> dv_lease_fence s = f \<and> clock_now c s < dv_lease_expires s)"

definition renew_global :: "dlv_cfg \<Rightarrow> 'k dlv \<Rightarrow> 'k dlv option" where
  "renew_global c s =
     (if owns_global_lease c s then Some (s\<lparr>dv_lease_expires := clock_now c s + global_lease_s\<rparr>) else None)"

definition begin_global :: "dlv_cfg \<Rightarrow> 'k dlv \<Rightarrow> 'k dlv option" where
  "begin_global c s = (if owns_global_lease c s then Some s else None)"

definition release_global :: "dlv_cfg \<Rightarrow> 'k dlv \<Rightarrow> 'k dlv" where
  "release_global c s =
     (case dv_fence s of
        None \<Rightarrow> s
      | Some f \<Rightarrow>
          (if dv_lease_owner s = Some (oc_owner c) \<and> dv_lease_fence s = f
           then s\<lparr>dv_lease_owner := None, dv_lease_expires := 0\<rparr> else s)\<lparr>dv_fence := None\<rparr>)"

definition advance_global_scan :: "dlv_cfg \<Rightarrow> nat \<Rightarrow> 'k dlv \<Rightarrow> 'k dlv option" where
  "advance_global_scan c i s =
     (if owns_global_lease c s
      then Some (s\<lparr>dv_scan := max (dv_scan s) i, dv_lease_expires := clock_now c s + global_lease_s\<rparr>) else None)"

definition scan_complete :: "'k dlv \<Rightarrow> bool" where
  "scan_complete s = (dv_through s \<le> dv_scan s)"

section \<open>Recovery lanes of the global scanner\<close>

definition set_glane :: "'k \<Rightarrow> lane option \<Rightarrow> 'k dlv \<Rightarrow> 'k dlv" where
  "set_glane k l s = s\<lparr>dv_glanes := (dv_glanes s)(k := l)\<rparr>"

definition queue_global :: "dlv_cfg \<Rightarrow> 'k dlv_row \<Rightarrow> string option \<Rightarrow> bool \<Rightarrow> 'k dlv \<Rightarrow> 'k dlv" where
  "queue_global c r err attempted s =
     set_glane (dr_scope r) (Some (requeue (clock_now c s) (dr_id r) err attempted (dv_glanes s (dr_scope r)))) s"

definition first_unpublished :: "'k \<Rightarrow> nat \<Rightarrow> nat \<Rightarrow> 'k dlv_row list \<Rightarrow> nat option" where
  "first_unpublished k lo hi rows =
     (case sort (map dr_id (filter (\<lambda>q. dr_scope q = k \<and> lo \<le> dr_id q \<and> dr_id q \<le> hi \<and> dr_published q = None) rows)) of
        [] \<Rightarrow> None | i # _ \<Rightarrow> Some i)"

definition restart_lane :: "nat \<Rightarrow> lane" where
  "restart_lane i = \<lparr>rt_attempts = 0, rt_at = 0, rt_error = None, ln_next = i\<rparr>"

text \<open>
  \<open>_normalize_global_scope_recovery\<close> visits every lane once and changes only that lane, so the
  loop is one function on the table of lanes.
\<close>

definition normal_lane :: "'k dlv \<Rightarrow> 'k \<Rightarrow> lane option" where
  "normal_lane s k =
     (case dv_glanes s k of
        None \<Rightarrow> None
      | Some l \<Rightarrow> (case first_unpublished k (ln_next l) (dv_through s) (dv_rows s) of
                    None \<Rightarrow> None
                  | Some i \<Rightarrow> if i \<noteq> ln_next l then Some (restart_lane i) else Some l))"

definition normalize_global :: "dlv_cfg \<Rightarrow> 'k dlv \<Rightarrow> 'k dlv option" where
  "normalize_global c s0 =
     Option.bind (begin_global c s0) (\<lambda>s. renew_global c (s\<lparr>dv_glanes := normal_lane s\<rparr>))"

definition advance_global_scope :: "'k dlv_row \<Rightarrow> 'k dlv \<Rightarrow> 'k dlv" where
  "advance_global_scope r s =
     set_glane (dr_scope r)
       (map_option restart_lane (first_unpublished (dr_scope r) (Suc (dr_id r)) (dv_through s) (dv_rows s))) s"

definition mark_global_published :: "dlv_cfg \<Rightarrow> bool \<Rightarrow> 'k dlv_row \<Rightarrow> 'k dlv \<Rightarrow> 'k dlv option" where
  "mark_global_published c advance_lane r s0 =
     Option.bind (begin_global c s0) (\<lambda>s.
       let s1 = set_row (dr_id r) (row_published (clock_now c s)) s;
           s2 = (if advance_lane then advance_global_scope r s1 else s1)
       in renew_global c (set_sparse (oc_id c) (dr_id r) None s2))"

definition mark_global_failed :: "dlv_cfg \<Rightarrow> 'k dlv_row \<Rightarrow> string \<Rightarrow> 'k dlv \<Rightarrow> 'k dlv option" where
  "mark_global_failed c r err s0 =
     Option.bind (begin_global c s0) (\<lambda>s.
       let s1 = queue_global c r (Some (utf8_take 500 err)) True (set_row (dr_id r) (row_failed err) s);
           s2 = s1\<lparr>dv_failed_owner := Some (oc_owner c), dv_failed_retry := clock_now c s + retry_delay 1\<rparr>
       in renew_global c s2)"

section \<open>The global scanner\<close>

text \<open>The error of a flush whose lease was lost; \<open>each_row\<close> and the loops end with it.\<close>

datatype lease_lost = LeaseLost

definition or_lost :: "bool \<Rightarrow> 'k dlv \<Rightarrow> 'k dlv option \<Rightarrow> bool \<times> (lease_lost option \<times> 'k dlv)" where
  "or_lost ok before x = (case x of None \<Rightarrow> (False, Some LeaseLost, before) | Some s \<Rightarrow> (ok, None, s))"

definition deliver_global :: "dlv_cfg \<Rightarrow> 'k dlv_row \<Rightarrow> 'k dlv \<Rightarrow> bool \<times> (lease_lost option \<times> 'k dlv)" where
  "deliver_global c r s =
     (let (err, s1) = publish_outbox_row c GlobalLane r s in
      case err of
        Some t \<Rightarrow> or_lost False s1 (mark_global_failed c r t s1)
      | None \<Rightarrow> or_lost True s1 (mark_global_published c True r s1))"

definition global_due_rows :: "dlv_cfg \<Rightarrow> nat \<Rightarrow> 'k dlv \<Rightarrow> 'k dlv_row list" where
  "global_due_rows c limit s =
     take limit (sort_key dr_id (filter (\<lambda>q. head_due (clock_now c s) (dr_id q) (dv_glanes s (dr_scope q))) (dv_rows s)))"

function flush_global_lanes :: "dlv_cfg \<Rightarrow> nat \<Rightarrow> nat \<Rightarrow> nat \<Rightarrow> 'k dlv
    \<Rightarrow> (nat \<times> nat) \<times> (lease_lost option \<times> 'k dlv)" where
  "flush_global_lanes c limit processed published s =
     (if limit \<le> processed then ((published, processed), None, s)
      else
        (let rows = global_due_rows c (limit - processed) s in
         if rows = [] then ((published, processed), None, s)
         else case each_row (deliver_global c) rows published s of
                (n, Some x, s1) \<Rightarrow> ((n, processed + length rows), Some x, s1)
              | (n, None, s1) \<Rightarrow> flush_global_lanes c limit (processed + length rows) n s1))"
  by pat_completeness auto
termination
proof (relation "measure (\<lambda>(c, limit, processed, n, s). limit - processed)", goal_cases)
  case 1
  then show ?case by simp
next
  case (2 c limit processed published s x xa y xb)
  then have "length x \<noteq> 0" "processed < limit" by auto
  then show ?case by (simp only: in_measure prod.case)
qed

declare flush_global_lanes.simps [simp del]

text \<open>
  One discovered row: a scope with a lane is only scanned over.  Marking the row and moving the
  scan cursor are one transaction.
\<close>

definition discover_row :: "dlv_cfg \<Rightarrow> bool \<Rightarrow> 'k dlv_row \<Rightarrow> 'k dlv \<Rightarrow> bool \<times> (lease_lost option \<times> 'k dlv)" where
  "discover_row c blocked r s =
     (if blocked then or_lost False s (Option.bind (begin_global c s) (advance_global_scan c (dr_id r)))
      else
        let (err, s1) = publish_outbox_row c GlobalLane r s in
        case err of
          Some t \<Rightarrow> or_lost False s1 (Option.bind (mark_global_failed c r t s1) (advance_global_scan c (dr_id r)))
        | None \<Rightarrow> or_lost True s1 (Option.bind (mark_global_published c False r s1) (advance_global_scan c (dr_id r))))"

fun discover :: "dlv_cfg \<Rightarrow> ('k \<Rightarrow> bool) \<Rightarrow> 'k dlv_row list \<Rightarrow> nat \<Rightarrow> 'k dlv \<Rightarrow> nat \<times> (lease_lost option \<times> 'k dlv)" where
  "discover c blocked [] n s = (n, None, s)"
| "discover c blocked (r # rs) n s =
     (case discover_row c (blocked (dr_scope r)) r s of
        (ok, Some x, s1) \<Rightarrow> (n, Some x, s1)
      | (ok, None, s1) \<Rightarrow>
          discover c (if ok then blocked else blocked(dr_scope r := True)) rs (if ok then n + 1 else n) s1)"

definition discovery_page :: "nat \<Rightarrow> 'k dlv \<Rightarrow> 'k dlv_row list" where
  "discovery_page limit s =
     take limit (sort_key dr_id
       (filter (\<lambda>q. dr_published q = None \<and> dv_scan s < dr_id q \<and> dr_id q \<le> dv_through s) (dv_rows s)))"

text \<open>\<open>_flush_global_discovery_rows\<close>: published, processed, and whether the scan is complete.\<close>

definition flush_discovery :: "dlv_cfg \<Rightarrow> nat \<Rightarrow> 'k dlv \<Rightarrow> (nat \<times> nat \<times> bool) \<times> (lease_lost option \<times> 'k dlv)" where
  "flush_discovery c limit s =
     (if scan_complete s then ((0, 0, True), None, s)
      else
        let rows = discovery_page limit s in
        case discover c (\<lambda>k. dv_glanes s k \<noteq> None) rows 0 s of
          (n, Some x, s1) \<Rightarrow> ((n, length rows, False), Some x, s1)
        | (n, None, s1) \<Rightarrow>
            if length rows < limit
            then case Option.bind (begin_global c s1) (advance_global_scan c (dv_through s)) of
                   None \<Rightarrow> ((n, length rows, False), Some LeaseLost, s1)
                 | Some s2 \<Rightarrow> ((n, length rows, scan_complete s2), None, s2)
            else ((n, length rows, scan_complete s1), None, s1))"

definition scan_and_recover :: "dlv_cfg \<Rightarrow> nat \<Rightarrow> 'k dlv \<Rightarrow> (nat \<times> nat \<times> bool) \<times> (lease_lost option \<times> 'k dlv)" where
  "scan_and_recover c limit s =
     (case normalize_global c s of
        None \<Rightarrow> ((0, 0, False), Some LeaseLost, s)
      | Some s1 \<Rightarrow>
          (case flush_discovery c limit s1 of
             (x, Some e, s2) \<Rightarrow> (x, Some e, s2)
           | ((dn, dp, fin), None, s2) \<Rightarrow>
               let ((gn, gp), e, s3) = flush_global_lanes c (limit - dp) 0 0 s2
               in ((dn + gn, dp + gp, fin), e, s3)))"

text \<open>\<open>_flush_global_recovery_rows\<close>: published, processed, scan complete, lease acquired.\<close>

definition flush_global :: "dlv_cfg \<Rightarrow> nat \<Rightarrow> 'k dlv \<Rightarrow> (nat \<times> nat \<times> bool \<times> bool) \<times> 'k dlv" where
  "flush_global c limit s =
     (case try_acquire_global c s of
        (False, s1) \<Rightarrow> ((0, 0, scan_complete s1, False), s1)
      | (True, s1) \<Rightarrow>
          (case scan_and_recover c limit s1 of
             (_, Some LeaseLost, s2) \<Rightarrow> ((0, 0, scan_complete s2, False), release_global c s2)
           | ((n, p, fin), None, s2) \<Rightarrow> ((n, p, fin, True), release_global c s2)))"

end
