(* ===== verification/OutboxFlush.thy ===== *)
theory OutboxFlush
  imports OutboxGlobal
begin

text \<open>
  \<open>flush_outbox\<close>, \<open>prune_outbox\<close>, \<open>drain_outbox\<close> and \<open>aclose\<close> of \<open>WorkflowService\<close>
  (\<open>backend/app/workflows/service.py\<close>), composed from the lanes of \<open>Outbox\<close> and the
  global scanner of \<open>OutboxGlobal\<close>.  Deleting a consumer or an outbox row deletes the recovery
  records that reference it (the tables' foreign keys).
\<close>

section \<open>Pruning\<close>

definition drop_consumers :: "(string \<times> consumer \<Rightarrow> bool) \<Rightarrow> 'k dlv \<Rightarrow> 'k dlv" where
  "drop_consumers p s =
     (let dead = map fst (filter p (dv_consumers s)) in
      s\<lparr>dv_consumers := filter (\<lambda>x. \<not> p x) (dv_consumers s),
        dv_lanes := (\<lambda>i. if i \<in> set dead then (\<lambda>_. None) else dv_lanes s i),
        dv_sparse := (\<lambda>i. if i \<in> set dead then (\<lambda>_. None) else dv_sparse s i)\<rparr>)"

definition min_cursor :: "(string \<times> consumer) list \<Rightarrow> nat" where
  "min_cursor cs = (case map (cn_cursor \<circ> snd) cs of [] \<Rightarrow> 0 | x # xs \<Rightarrow> fold min xs x)"

definition in_recovery :: "'k dlv \<Rightarrow> 'k dlv_row \<Rightarrow> bool" where
  "in_recovery s q =
     (\<exists>(i, n) \<in> set (dv_consumers s).
        dv_sparse s i (dr_id q) \<noteq> None \<or>
        (case dv_lanes s i (dr_scope q) of
           None \<Rightarrow> False | Some l \<Rightarrow> ln_next l \<le> dr_id q \<and> dr_id q \<le> cn_cursor n))"

definition prunable :: "nat \<Rightarrow> rat \<Rightarrow> nat \<Rightarrow> 'k dlv \<Rightarrow> 'k dlv_row \<Rightarrow> bool" where
  "prunable cursor age_cutoff count_cutoff s q =
     (case dr_published q of
        None \<Rightarrow> False
      | Some t \<Rightarrow> dr_id q \<le> cursor \<and> (t < age_cutoff \<or> dr_id q \<le> count_cutoff) \<and> \<not> in_recovery s q)"

definition prune_outbox :: "dlv_cfg \<Rightarrow> 'k dlv \<Rightarrow> nat \<times> 'k dlv" where
  "prune_outbox c s0 =
     (let now = clock_now c s0;
          active_after = now - oc_ttl c;
          s1 = ensure_consumer c s0 s0;
          s2 = drop_consumers (\<lambda>x. cn_heartbeat (snd x) < active_after) s1;
          cursor = min (min_cursor (filter (\<lambda>x. active_after \<le> cn_heartbeat (snd x)) (dv_consumers s2)))
                       (replay_floor (oc_window c) s2);
          gone = prunable cursor (now - oc_retention c) (nth_newest (oc_max_rows c) s2) s2
      in if 0 < cursor
         then (length (filter gone (dv_rows s2)), s2\<lparr>dv_rows := filter (\<lambda>q. \<not> gone q) (dv_rows s2)\<rparr>)
         else (0, s2))"

section \<open>One flush\<close>

text \<open>
  The body of \<open>flush_outbox\<close> under its lock, for \<open>0 < limit\<close>.  An exception of a lane ends it.
\<close>

definition flush_lanes :: "dlv_cfg \<Rightarrow> nat \<Rightarrow> 'k dlv \<Rightarrow> (py_error + nat) \<times> 'k dlv" where
  "flush_lanes c limit s =
     (case flush_lane c SparseLane limit 0 0 s of
        (_, Some e, s1) \<Rightarrow> (Inl e, s1)
      | ((xn, xp), None, s1) \<Rightarrow>
          let ((gn, gp, fin, acquired), s2) = flush_global c limit s1 in
          if fin
          then case flush_main c limit s2 of
                 (_, Some e, s3) \<Rightarrow> (Inl e, s3)
               | ((mn, mp), None, s3) \<Rightarrow>
                   (case flush_lane c ScopeLane limit 0 0 s3 of
                      (_, Some e, s4) \<Rightarrow> (Inl e, s4)
                    | ((sn, sp), None, s4) \<Rightarrow>
                        (Inr (xn + gn + mn + sn),
                         s4\<lparr>dv_saturated := (limit \<le> xp \<or> limit \<le> gp \<or> limit \<le> mp \<or> limit \<le> sp)\<rparr>))
          else (Inr (xn + gn), s2\<lparr>dv_saturated := (limit \<le> xp \<or> limit \<le> gp \<or> acquired)\<rparr>))"

definition cleanup_if_due :: "dlv_cfg \<Rightarrow> 'k dlv \<Rightarrow> 'k dlv" where
  "cleanup_if_due c s =
     (let now = oc_mono c (dv_tries s) in
      if dv_next_cleanup s \<le> now then snd (prune_outbox c (s\<lparr>dv_next_cleanup := now + oc_cleanup c\<rparr>)) else s)"

definition flush_outbox :: "dlv_cfg \<Rightarrow> int \<Rightarrow> 'k dlv \<Rightarrow> (py_error + nat) \<times> 'k dlv" where
  "flush_outbox c limit s =
     (if limit < 0 then (Inl (ValueError ''outbox flush limit must be non-negative''), s)
      else
        let s1 = s\<lparr>dv_saturated := False\<rparr>;
            s2 = ensure_consumer c s1 s1
        in if limit = 0 then (Inr 0, cleanup_if_due c s2)
           else case flush_lanes c (nat limit) s2 of
                  (Inl e, s3) \<Rightarrow> (Inl e, s3)
                | (Inr n, s3) \<Rightarrow> (Inr n, cleanup_if_due c s3))"

text \<open>\<open>_flush_outbox_after_commit_best_effort\<close> drops the outcome.\<close>

definition flush_best_effort :: "dlv_cfg \<Rightarrow> 'k dlv \<Rightarrow> 'k dlv" where
  "flush_best_effort c s = snd (flush_outbox c 500 s)"

section \<open>Drain and shutdown\<close>

partial_function (option) drain_loop :: "dlv_cfg \<Rightarrow> int \<Rightarrow> nat \<Rightarrow> 'k dlv \<Rightarrow> ((py_error + nat) \<times> 'k dlv) option" where
  "drain_loop c batch done_n s =
     (case flush_outbox c batch s of
        (Inl e, s1) \<Rightarrow> Some (Inl e, s1)
      | (Inr n, s1) \<Rightarrow>
          if dv_cursor s < dv_cursor s1 \<or> dv_saturated s1 \<or> batch \<le> int n
          then drain_loop c batch (done_n + n) s1
          else Some (Inr (done_n + n), s1))"

definition drain_outbox :: "dlv_cfg \<Rightarrow> int \<Rightarrow> 'k dlv \<Rightarrow> ((py_error + nat) \<times> 'k dlv) option" where
  "drain_outbox c batch s =
     (if batch \<le> 0 then Some (Inl (ValueError ''outbox drain batch_size must be positive''), s)
      else drain_loop c batch 0 s)"

text \<open>\<open>aclose\<close>, after it has cancelled the poller task.\<close>

definition aclose :: "dlv_cfg \<Rightarrow> 'k dlv \<Rightarrow> 'k dlv" where
  "aclose c s =
     (if \<not> dv_registered s then s
      else
        let s1 = (if dv_lease_owner s = Some (oc_owner c) then s\<lparr>dv_lease_owner := None, dv_lease_expires := 0\<rparr> else s)
        in (drop_consumers (\<lambda>x. fst x = oc_id c) s1)\<lparr>dv_registered := False\<rparr>)"

end
