(* ===== verification/OutboxCorrect.thy ===== *)
theory OutboxCorrect
  imports OutboxFlush
begin

text \<open>
  Delivery to one consumer refines one queue per scope.  The rows a consumer \<open>i\<close> still owes to
  a scope are those from its frontier on: the head of the scope's recovery lane, or else the
  first id after the cursor.  The theory holds the invariant of the consumer's position, the
  frame lemmas (which operations leave the position and the owed rows alone) and the effect of
  the main and the scope lane on the queues.
\<close>

section \<open>The position of a consumer\<close>

definition shape :: "'k dlv \<Rightarrow> (nat \<times> 'k) list" where
  "shape s = map (\<lambda>q. (dr_id q, dr_scope q)) (dv_rows s)"

definition db_cursor :: "string \<Rightarrow> 'k dlv \<Rightarrow> nat" where
  "db_cursor i s = (case map_of (dv_consumers s) i of None \<Rightarrow> 0 | Some n \<Rightarrow> cn_cursor n)"

definition frontier :: "string \<Rightarrow> 'k dlv \<Rightarrow> 'k \<Rightarrow> nat" where
  "frontier i s k = (case dv_lanes s i k of None \<Rightarrow> Suc (db_cursor i s) | Some l \<Rightarrow> ln_next l)"

definition owed :: "string \<Rightarrow> 'k dlv \<Rightarrow> 'k \<Rightarrow> nat list" where
  "owed i s k = map fst (filter (\<lambda>p. snd p = k \<and> frontier i s k \<le> fst p) (shape s))"

definition sent :: "'k dlv \<Rightarrow> 'k \<Rightarrow> nat list" where
  "sent s k = map (snd \<circ> snd) (filter (\<lambda>t. (fst t = MainLane \<or> fst t = ScopeLane) \<and> fst (snd t) = k) (dv_trace s))"

definition position_ok :: "string \<Rightarrow> 'k dlv \<Rightarrow> bool" where
  "position_ok i s \<longleftrightarrow>
     sorted_wrt (<) (map fst (shape s)) \<and> (\<forall>p \<in> set (shape s). fst p \<le> dv_seq s) \<and>
     distinct (map fst (dv_consumers s)) \<and>
     map_option cn_cursor (map_of (dv_consumers s) i) = Some (dv_cursor s) \<and> dv_cursor s \<le> dv_seq s \<and>
     (\<forall>k l. dv_lanes s i k = Some l \<longrightarrow> ln_next l \<le> dv_cursor s \<and> (ln_next l, k) \<in> set (shape s))"

section \<open>Frames\<close>

text \<open>
  \<open>kept i s t\<close>: the tables of \<open>t\<close> hold the rows of \<open>s\<close> and the same position of consumer
  \<open>i\<close>.  \<open>quiet s t\<close>: the process itself has not moved.
\<close>

definition kept :: "string \<Rightarrow> 'k dlv \<Rightarrow> 'k dlv \<Rightarrow> bool" where
  "kept i s t \<longleftrightarrow> shape t = shape s \<and> dv_seq t = dv_seq s \<and> dv_lanes t i = dv_lanes s i \<and>
     map_option cn_cursor (map_of (dv_consumers t) i) = map_option cn_cursor (map_of (dv_consumers s) i) \<and>
     (distinct (map fst (dv_consumers s)) \<longrightarrow> distinct (map fst (dv_consumers t)))"

definition quiet :: "'k dlv \<Rightarrow> 'k dlv \<Rightarrow> bool" where
  "quiet s t \<longleftrightarrow> dv_cursor t = dv_cursor s \<and> sent t = sent s"

named_theorems frame

lemma kept_refl [frame]: "kept i s s"
  by (simp add: kept_def)

lemma quiet_proc_refl [frame]: "quiet s s"
  by (simp add: quiet_def)

lemma kept_trans: "kept i s t \<Longrightarrow> kept i t u \<Longrightarrow> kept i s u"
  by (simp add: kept_def)

lemma quiet_proc_trans: "quiet s t \<Longrightarrow> quiet t u \<Longrightarrow> quiet s u"
  by (simp add: quiet_def)

lemma shape_set_row [simp]:
  "(\<And>q. dr_id (f q) = dr_id q \<and> dr_scope (f q) = dr_scope q) \<Longrightarrow> shape (set_row n f s) = shape s"
  by (auto simp: shape_def set_row_def update_where_def)

lemma row_marks [simp]:
  "dr_id (row_published t q) = dr_id q" "dr_scope (row_published t q) = dr_scope q"
  "dr_id (row_failed e q) = dr_id q" "dr_scope (row_failed e q) = dr_scope q"
  by (simp_all add: row_published_def row_failed_def)

lemma set_row_sel [simp]:
  "dv_seq (set_row n f s) = dv_seq s" "dv_consumers (set_row n f s) = dv_consumers s"
  "dv_lanes (set_row n f s) = dv_lanes s" "dv_sparse (set_row n f s) = dv_sparse s"
  "dv_glanes (set_row n f s) = dv_glanes s" "dv_cursor (set_row n f s) = dv_cursor s"
  "dv_trace (set_row n f s) = dv_trace s" "dv_tries (set_row n f s) = dv_tries s"
  by (simp_all add: set_row_def)

lemma set_consumer_sel [simp]:
  "dv_seq (set_consumer i f s) = dv_seq s" "dv_rows (set_consumer i f s) = dv_rows s"
  "dv_lanes (set_consumer i f s) = dv_lanes s" "dv_sparse (set_consumer i f s) = dv_sparse s"
  "dv_glanes (set_consumer i f s) = dv_glanes s" "dv_cursor (set_consumer i f s) = dv_cursor s"
  "dv_trace (set_consumer i f s) = dv_trace s" "dv_tries (set_consumer i f s) = dv_tries s"
  "shape (set_consumer i f s) = shape s"
  "map fst (dv_consumers (set_consumer i f s)) = map fst (dv_consumers s)"
  by (simp_all add: set_consumer_def shape_def)

lemma map_of_set_consumer:
  "map_of (dv_consumers (set_consumer j f s)) i =
     (if i = j then map_option f (map_of (dv_consumers s) i) else map_of (dv_consumers s) i)"
proof -
  have "map_of (map (\<lambda>p. (fst p, if fst p = j then f (snd p) else snd p)) xs) i =
     (if i = j then map_option f (map_of xs i) else map_of xs i)" for xs
    by (induction xs) auto
  then show ?thesis by (simp add: set_consumer_def)
qed

lemma set_lane_sel [simp]:
  "dv_seq (set_lane i k l s) = dv_seq s" "dv_rows (set_lane i k l s) = dv_rows s"
  "dv_consumers (set_lane i k l s) = dv_consumers s" "dv_sparse (set_lane i k l s) = dv_sparse s"
  "dv_glanes (set_lane i k l s) = dv_glanes s" "dv_cursor (set_lane i k l s) = dv_cursor s"
  "dv_trace (set_lane i k l s) = dv_trace s" "dv_tries (set_lane i k l s) = dv_tries s"
  "shape (set_lane i k l s) = shape s"
  "dv_lanes (set_lane i k l s) j = (if j = i then (dv_lanes s i)(k := l) else dv_lanes s j)"
  by (auto simp add: set_lane_def shape_def)

lemma set_sparse_sel [simp]:
  "dv_seq (set_sparse i n x s) = dv_seq s" "dv_consumers (set_sparse i n x s) = dv_consumers s"
  "dv_lanes (set_sparse i n x s) = dv_lanes s" "dv_cursor (set_sparse i n x s) = dv_cursor s"
  "dv_trace (set_sparse i n x s) = dv_trace s" "shape (set_sparse i n x s) = shape s"
  by (simp_all add: set_sparse_def shape_def)

lemma set_glane_sel [simp]:
  "dv_seq (set_glane k l s) = dv_seq s" "dv_consumers (set_glane k l s) = dv_consumers s"
  "dv_lanes (set_glane k l s) = dv_lanes s" "dv_cursor (set_glane k l s) = dv_cursor s"
  "dv_trace (set_glane k l s) = dv_trace s" "shape (set_glane k l s) = shape s"
  by (simp_all add: set_glane_def shape_def)

lemma kept_prims [frame]:
  "kept i s t \<Longrightarrow> (\<And>q. dr_id (f q) = dr_id q \<and> dr_scope (f q) = dr_scope q) \<Longrightarrow> kept i s (set_row n f t)"
  "kept i s t \<Longrightarrow> kept i s (beat c t)"
  "kept i s t \<Longrightarrow> j \<noteq> i \<Longrightarrow> kept i s (set_lane j k l t)"
  "kept i s t \<Longrightarrow> kept i s (set_sparse j n x t)"
  "kept i s t \<Longrightarrow> kept i s (set_glane k l t)"
  "kept i s t \<Longrightarrow> j \<noteq> i \<Longrightarrow> kept i s (set_consumer j g t)"
  by (auto simp: kept_def beat_def map_of_set_consumer option.map_comp comp_def intro: option.map_cong)

lemma quiet_prims [frame]:
  "quiet s t \<Longrightarrow> quiet s (set_row n f t)"
  "quiet s t \<Longrightarrow> quiet s (beat c t)"
  "quiet s t \<Longrightarrow> quiet s (set_lane j k l t)"
  "quiet s t \<Longrightarrow> quiet s (set_sparse j n x t)"
  "quiet s t \<Longrightarrow> quiet s (set_glane k l t)"
  by (auto simp: quiet_def sent_def fun_eq_iff beat_def set_sparse_def set_glane_def)

lemma kept_fields [frame]:
  "kept i s t \<Longrightarrow> kept i s (t\<lparr>dv_bus := b\<rparr>)" "kept i s t \<Longrightarrow> kept i s (t\<lparr>dv_tries := n\<rparr>)"
  "kept i s t \<Longrightarrow> kept i s (t\<lparr>dv_trace := tr\<rparr>)" "kept i s t \<Longrightarrow> kept i s (t\<lparr>dv_cursor := n\<rparr>)"
  "kept i s t \<Longrightarrow> kept i s (t\<lparr>dv_registered := e\<rparr>)" "kept i s t \<Longrightarrow> kept i s (t\<lparr>dv_fence := f\<rparr>)"
  "kept i s t \<Longrightarrow> kept i s (t\<lparr>dv_lease_owner := w\<rparr>)" "kept i s t \<Longrightarrow> kept i s (t\<lparr>dv_lease_fence := n\<rparr>)"
  "kept i s t \<Longrightarrow> kept i s (t\<lparr>dv_lease_expires := x\<rparr>)" "kept i s t \<Longrightarrow> kept i s (t\<lparr>dv_failed_owner := w\<rparr>)"
  "kept i s t \<Longrightarrow> kept i s (t\<lparr>dv_failed_retry := x\<rparr>)" "kept i s t \<Longrightarrow> kept i s (t\<lparr>dv_scan := n\<rparr>)"
  "kept i s t \<Longrightarrow> kept i s (t\<lparr>dv_through := n\<rparr>)" "kept i s t \<Longrightarrow> kept i s (t\<lparr>dv_glanes := g\<rparr>)"
  "kept i s t \<Longrightarrow> kept i s (t\<lparr>dv_saturated := e\<rparr>)" "kept i s t \<Longrightarrow> kept i s (t\<lparr>dv_next_cleanup := x\<rparr>)"
  by (simp_all add: kept_def shape_def)

lemma quiet_fields [frame]:
  "quiet s t \<Longrightarrow> quiet s (t\<lparr>dv_bus := b\<rparr>)" "quiet s t \<Longrightarrow> quiet s (t\<lparr>dv_tries := n\<rparr>)"
  "quiet s t \<Longrightarrow> quiet s (t\<lparr>dv_registered := e\<rparr>)" "quiet s t \<Longrightarrow> quiet s (t\<lparr>dv_fence := f\<rparr>)"
  "quiet s t \<Longrightarrow> quiet s (t\<lparr>dv_lease_owner := w\<rparr>)" "quiet s t \<Longrightarrow> quiet s (t\<lparr>dv_lease_fence := n\<rparr>)"
  "quiet s t \<Longrightarrow> quiet s (t\<lparr>dv_lease_expires := x\<rparr>)" "quiet s t \<Longrightarrow> quiet s (t\<lparr>dv_failed_owner := w\<rparr>)"
  "quiet s t \<Longrightarrow> quiet s (t\<lparr>dv_failed_retry := x\<rparr>)" "quiet s t \<Longrightarrow> quiet s (t\<lparr>dv_scan := n\<rparr>)"
  "quiet s t \<Longrightarrow> quiet s (t\<lparr>dv_through := n\<rparr>)" "quiet s t \<Longrightarrow> quiet s (t\<lparr>dv_glanes := g\<rparr>)"
  "quiet s t \<Longrightarrow> quiet s (t\<lparr>dv_saturated := e\<rparr>)" "quiet s t \<Longrightarrow> quiet s (t\<lparr>dv_next_cleanup := x\<rparr>)"
  by (simp_all add: quiet_def sent_def fun_eq_iff)

lemma publish_frame [frame]:
  "kept i s t \<Longrightarrow> kept i s (snd (publish_outbox_row c lane r t))"
  by (auto simp: publish_outbox_row_def Let_def split: prod.splits sum.splits intro: frame)

lemma publish_quiet [frame]:
  assumes "quiet s t" "lane = SparseLane \<or> lane = GlobalLane"
  shows "quiet s (snd (publish_outbox_row c lane r t))"
  using assms
  by (auto simp: publish_outbox_row_def Let_def quiet_def sent_def fun_eq_iff split: prod.splits sum.splits)

text \<open>An invariant of every row holds for a page of them.\<close>

lemma each_row_inv:
  assumes "\<And>r t. r \<in> set rs \<Longrightarrow> I t \<Longrightarrow> I (snd (snd (f r t)))" "I s"
  shows "I (snd (snd (each_row f rs n s)))"
  using assms
proof (induction rs arbitrary: n s)
  case (Cons r rs)
  obtain ok x s1 where f: "f r s = (ok, x, s1)" by (cases "f r s") auto
  with Cons.prems have "I s1" by (metis list.set_intros(1) snd_conv)
  with Cons f show ?case by (cases x) auto
qed simp

section \<open>Operations that leave a consumer's position alone\<close>

lemma queue_scope_frame [frame]:
  "kept i s t \<Longrightarrow> oc_id c \<noteq> i \<Longrightarrow> kept i s (queue_scope_recovery c r e b t)"
  by (auto simp: queue_scope_recovery_def intro: frame)

lemma advance_cursor_frame [frame]:
  "kept i s t \<Longrightarrow> oc_id c \<noteq> i \<Longrightarrow> kept i s (advance_outbox_cursor c n t)"
  by (auto simp: advance_outbox_cursor_def Let_def intro: frame)

lemma deliver_row_frame:
  assumes "kept i s t" "oc_id c \<noteq> i \<or> lane = SparseLane"
  shows "kept i s (snd (snd (deliver_row c lane r t)))"
proof -
  obtain err s1 where p: "publish_outbox_row c lane r t = (err, s1)" by (cases "publish_outbox_row c lane r t")
  with assms(1) have k: "kept i s s1" by (metis publish_frame snd_conv)
  show ?thesis
  proof (cases err)
    case None
    with p k assms(2) show ?thesis
      by (cases lane)
        (auto simp: deliver_row_def mark_outbox_published_def Let_def advance_scope_recovery_def
          split: sum.splits option.splits if_splits intro!: frame)
  next
    case (Some e)
    with p k assms(2) show ?thesis
      by (cases lane)
        (auto simp: deliver_row_def mark_outbox_failed_def Let_def retry_sparse_def
          split: sum.splits option.splits if_splits intro!: frame)
  qed
qed

lemma deliver_sparse_quiet:
  assumes "quiet s t"
  shows "quiet s (snd (snd (deliver_row c SparseLane r t)))"
proof -
  obtain err s1 where p: "publish_outbox_row c SparseLane r t = (err, s1)"
    by (cases "publish_outbox_row c SparseLane r t")
  with assms have "quiet s s1" by (metis publish_quiet snd_conv)
  with p show ?thesis
    by (cases err)
      (auto simp: deliver_row_def mark_outbox_published_def mark_outbox_failed_def Let_def retry_sparse_def
        split: option.splits intro!: frame)
qed

lemma main_row_frame:
  assumes "kept i s t" "oc_id c \<noteq> i"
  shows "kept i s (snd (snd (main_row c r t)))"
  using assms deliver_row_frame[OF assms(1)] by (auto simp: main_row_def intro: frame)

lemma try_acquire_frame:
  "kept i s t \<Longrightarrow> kept i s (snd (try_acquire_global c t))"
  "quiet s t \<Longrightarrow> quiet s (snd (try_acquire_global c t))"
  by (auto simp: try_acquire_global_def Let_def intro!: frame)

lemma release_frame:
  "kept i s t \<Longrightarrow> kept i s (release_global c t)"
  "quiet s t \<Longrightarrow> quiet s (release_global c t)"
  by (auto simp: release_global_def split: option.splits intro!: frame)

text \<open>The operations on the tables that can lose the lease.\<close>

definition framed :: "string \<Rightarrow> 'k dlv \<Rightarrow> 'k dlv option \<Rightarrow> bool" where
  "framed i s x = (\<forall>t. x = Some t \<longrightarrow> kept i s t \<and> quiet s t)"

lemma framed_bind:
  "framed i s x \<Longrightarrow> (\<And>t. x = Some t \<Longrightarrow> framed i t (f t)) \<Longrightarrow> framed i s (Option.bind x f)"
  by (cases x) (auto simp: framed_def intro: kept_trans quiet_proc_trans)

lemma framed_prims:
  "framed i s (begin_global c s)" "framed i s (renew_global c s)" "framed i s (advance_global_scan c n s)"
  by (auto simp: framed_def begin_global_def renew_global_def advance_global_scan_def intro!: frame)

lemma framed_renew: "kept i s t \<Longrightarrow> quiet s t \<Longrightarrow> framed i s (renew_global c t)"
  by (auto simp: framed_def renew_global_def intro!: frame)

lemma framed_global_ops:
  "framed i s (normalize_global c s)"
  "framed i s (mark_global_published c a r s)"
  "framed i s (mark_global_failed c r e s)"
  unfolding normalize_global_def mark_global_published_def mark_global_failed_def Let_def
  by (auto intro!: framed_bind framed_prims framed_renew frame
      simp: advance_global_scope_def queue_global_def)

lemma framed_then_advance:
  "framed i s x \<Longrightarrow> framed i s (Option.bind x (advance_global_scan c n))"
  by (rule framed_bind) (auto intro: framed_prims)

lemma or_lost_frame:
  assumes "kept i s t" "quiet s t" "framed i t x"
  shows "kept i s (snd (snd (or_lost ok t x))) \<and> quiet s (snd (snd (or_lost ok t x)))"
  using assms
  by (cases x) (auto simp: or_lost_def framed_def intro: kept_trans quiet_proc_trans)

lemma published_global_frame:
  assumes "publish_outbox_row c GlobalLane r s = (err, s1)"
  shows "kept i s s1" "quiet s s1"
  using assms by (metis publish_frame kept_refl snd_conv) (metis assms publish_quiet quiet_proc_refl snd_conv)

lemma deliver_global_frame:
  "kept i s (snd (snd (deliver_global c r s))) \<and> quiet s (snd (snd (deliver_global c r s)))"
proof -
  obtain err s1 where p: "publish_outbox_row c GlobalLane r s = (err, s1)"
    by (cases "publish_outbox_row c GlobalLane r s")
  note f = or_lost_frame[OF published_global_frame(1)[OF p] published_global_frame(2)[OF p]]
  show ?thesis
    using p f[OF framed_global_ops(2)] f[OF framed_global_ops(3)] by (cases err) (simp_all add: deliver_global_def)
qed

lemma discover_row_frame:
  "kept i s (snd (snd (discover_row c b r s))) \<and> quiet s (snd (snd (discover_row c b r s)))"
proof -
  obtain err s1 where p: "publish_outbox_row c GlobalLane r s = (err, s1)"
    by (cases "publish_outbox_row c GlobalLane r s")
  note f = or_lost_frame[OF published_global_frame(1)[OF p] published_global_frame(2)[OF p] framed_then_advance]
  show ?thesis
    using p f[OF framed_global_ops(2)] f[OF framed_global_ops(3)]
      or_lost_frame[OF kept_refl[of i s] quiet_proc_refl framed_then_advance[OF framed_prims(1)]]
    by (cases err) (simp_all add: discover_row_def)
qed

text \<open>
  \<open>trimmed i s t\<close>: rows may be gone, but none that consumer \<open>i\<close> still owes.
\<close>

definition trimmed :: "string \<Rightarrow> 'k dlv \<Rightarrow> 'k dlv \<Rightarrow> bool" where
  "trimmed i s t \<longleftrightarrow>
     filter (\<lambda>p. frontier i s (snd p) \<le> fst p) (shape t) = filter (\<lambda>p. frontier i s (snd p) \<le> fst p) (shape s) \<and>
     set (shape t) \<subseteq> set (shape s) \<and>
     (sorted_wrt (<) (map fst (shape s)) \<longrightarrow> sorted_wrt (<) (map fst (shape t))) \<and>
     dv_seq t = dv_seq s \<and> dv_lanes t i = dv_lanes s i \<and>
     map_option cn_cursor (map_of (dv_consumers t) i) = map_option cn_cursor (map_of (dv_consumers s) i) \<and>
     (distinct (map fst (dv_consumers s)) \<longrightarrow> distinct (map fst (dv_consumers t)))"

lemma kept_trimmed: "kept i s t \<Longrightarrow> trimmed i s t"
  by (simp add: kept_def trimmed_def)

lemma db_cursor_eq:
  "map_option cn_cursor (map_of (dv_consumers t) i) = map_option cn_cursor (map_of (dv_consumers s) i) \<Longrightarrow>
   db_cursor i t = db_cursor i s"
  by (auto simp: db_cursor_def split: option.splits)

lemma trimmed_frontier: "trimmed i s t \<Longrightarrow> frontier i t = frontier i s"
  using db_cursor_eq[of t i s] by (auto simp: trimmed_def frontier_def fun_eq_iff split: option.split)

lemma trimmed_owed:
  assumes "trimmed i s t"
  shows "owed i t = owed i s"
proof
  fix k
  have "filter (\<lambda>p. snd p = k \<and> frontier i s k \<le> fst p) xs =
    filter (\<lambda>p. snd p = k) (filter (\<lambda>p. frontier i s (snd p) \<le> fst p) xs)" for xs
    by (auto intro: filter_cong)
  from this[of "shape t"] this[of "shape s"] assms show "owed i t k = owed i s k"
    unfolding owed_def trimmed_frontier[OF assms] trimmed_def by (simp only:)
qed

lemma trimmed_trans: "trimmed i s t \<Longrightarrow> trimmed i t u \<Longrightarrow> trimmed i s u"
  using trimmed_frontier[of i s t] by (auto simp: trimmed_def)

lemma position_trimmed:
  assumes "position_ok i s" "trimmed i s t" "dv_cursor t = dv_cursor s"
  shows "position_ok i t"
proof -
  have "(ln_next l, k) \<in> set (shape t)" if l: "dv_lanes s i k = Some l" for k l
  proof -
    have "(ln_next l, k) \<in> set (filter (\<lambda>p. frontier i s (snd p) \<le> fst p) (shape s))"
      using assms(1) l by (auto simp: position_ok_def frontier_def)
    then have "(ln_next l, k) \<in> set (filter (\<lambda>p. frontier i s (snd p) \<le> fst p) (shape t))"
      using assms(2) by (simp add: trimmed_def)
    then show ?thesis by simp
  qed
  with assms show ?thesis by (auto simp: position_ok_def trimmed_def)
qed

section \<open>Registration and pruning\<close>

lemma ensure_frame:
  assumes "kept i s t" "oc_id c \<noteq> i"
  shows "kept i s (ensure_consumer c seen t)"
proof (cases "map_of (dv_consumers t) (oc_id c)")
  case None
  then have "oc_id c \<notin> fst ` set (dv_consumers t)" by (simp add: map_of_eq_None_iff)
  with None assms show ?thesis
    by (auto simp: ensure_consumer_def Let_def kept_def shape_def map_add_def split: option.splits)
next
  case (Some n)
  with assms show ?thesis by (auto simp: ensure_consumer_def Let_def intro!: frame)
qed

lemma ensure_own:
  assumes "position_ok (oc_id c) s"
  shows "kept (oc_id c) s (ensure_consumer c seen s)" "quiet s (ensure_consumer c seen s)"
proof -
  obtain n where n: "map_of (dv_consumers s) (oc_id c) = Some n" "cn_cursor n = dv_cursor s"
    using assms by (auto simp: position_ok_def)
  then have "kept (oc_id c) s (beat c s)" by (auto intro!: frame)
  with n show "kept (oc_id c) s (ensure_consumer c seen s)"
    by (auto simp: ensure_consumer_def Let_def intro!: frame)
  from n show "quiet s (ensure_consumer c seen s)"
    by (auto simp: ensure_consumer_def Let_def quiet_def sent_def beat_def fun_eq_iff)
qed

lemma min_cursor_le:
  assumes "(i, n) \<in> set cs"
  shows "min_cursor cs \<le> cn_cursor n"
proof -
  have le: "fold min xs (x::nat) \<le> x" for xs x
    by (induction xs arbitrary: x) (auto intro: le_trans[OF _ min.cobounded2])
  have all: "fold min xs (x::nat) \<le> y" if "y \<in> set (x # xs)" for xs x y
    using that
  proof (induction xs arbitrary: x)
    case (Cons a xs)
    then show ?case
      by (cases "y = a \<or> y = x") (auto intro: le_trans[OF le] le_trans[OF le min.cobounded1])
  qed simp
  have m: "cn_cursor n \<in> set (map (cn_cursor \<circ> snd) cs)" using assms by force
  then obtain x xs where "map (cn_cursor \<circ> snd) cs = x # xs"
    by (cases "map (cn_cursor \<circ> snd) cs") auto
  with m all[of "cn_cursor n" x xs] show ?thesis
    by (simp only: min_cursor_def list.case)
qed

lemma drop_consumers_trimmed:
  assumes "\<And>n. (i, n) \<in> set (dv_consumers s) \<Longrightarrow> \<not> p (i, n)"
  shows "kept i s (drop_consumers p s)"
proof -
  have "map_of (filter (\<lambda>x. \<not> p x) xs) i = map_of xs i" if "\<And>n. (i, n) \<in> set xs \<Longrightarrow> \<not> p (i, n)" for xs
    using that by (induction xs) auto
  moreover have "distinct (map fst (filter (\<lambda>x. \<not> p x) xs))" if "distinct (map fst xs)" for xs
    using that by (rule distinct_map_filter)
  ultimately show ?thesis
    using assms by (auto simp: kept_def drop_consumers_def Let_def shape_def)
qed

lemma drop_consumers_quiet: "quiet s (drop_consumers p s)"
  by (simp add: quiet_def drop_consumers_def Let_def sent_def fun_eq_iff)

text \<open>
  A row whose deletion the pruning allows is behind every cursor and in no recovery lane.
\<close>

lemma prunable_not_owed:
  assumes "prunable cursor age count s q" "map_of (dv_consumers s) i = Some n" "cursor \<le> cn_cursor n"
  shows "dr_id q < frontier i s (dr_scope q)"
proof -
  have "(i, n) \<in> set (dv_consumers s)" using assms(2) by (rule map_of_SomeD)
  moreover have q: "dr_id q \<le> cursor" "\<not> in_recovery s q"
    using assms(1) by (auto simp: prunable_def split: option.splits)
  ultimately have "\<not> (case dv_lanes s i (dr_scope q) of
      None \<Rightarrow> False | Some l \<Rightarrow> ln_next l \<le> dr_id q \<and> dr_id q \<le> cn_cursor n)"
    by (auto simp: in_recovery_def)
  with q(1) assms(2,3) show ?thesis
    by (auto simp: frontier_def db_cursor_def split: option.splits)
qed

lemma filter_rows_trimmed:
  assumes "\<And>q. q \<in> set (dv_rows s) \<Longrightarrow> \<not> P q \<Longrightarrow> dr_id q < frontier i s (dr_scope q)"
  shows "trimmed i s (s\<lparr>dv_rows := filter P (dv_rows s)\<rparr>)" "quiet s (s\<lparr>dv_rows := filter P (dv_rows s)\<rparr>)"
proof -
  have "filter (\<lambda>q. frontier i s (dr_scope q) \<le> dr_id q) (filter P (dv_rows s)) =
      filter (\<lambda>q. frontier i s (dr_scope q) \<le> dr_id q) (dv_rows s)"
    using assms by (force intro: filter_cong)
  moreover have "sorted_wrt (<) (map fst (map g (filter P xs)))"
    if "sorted_wrt (<) (map fst (map g xs))" for g :: "'a dlv_row \<Rightarrow> nat \<times> 'a" and xs
    using that by (simp add: sorted_wrt_map sorted_wrt_filter)
  ultimately show "trimmed i s (s\<lparr>dv_rows := filter P (dv_rows s)\<rparr>)"
    by (auto simp: trimmed_def shape_def filter_map comp_def simp del: map_map)
  show "quiet s (s\<lparr>dv_rows := filter P (dv_rows s)\<rparr>)"
    by (simp add: quiet_def sent_def fun_eq_iff)
qed

lemma prune_trimmed_tables:
  assumes "kept i s (ensure_consumer c s s)"
    and "distinct (map fst (dv_consumers s))"
    and "map_of (dv_consumers (snd (prune_outbox c s))) i \<noteq> None"
  shows "trimmed i s (snd (prune_outbox c s))"
    and "quiet s (ensure_consumer c s s) \<Longrightarrow> quiet s (snd (prune_outbox c s))"
proof -
  define after where "after = clock_now c s - oc_ttl c"
  define s1 where "s1 = ensure_consumer c s s"
  define s2 where "s2 = drop_consumers (\<lambda>x. cn_heartbeat (snd x) < after) s1"
  define live where "live = filter (\<lambda>x. after \<le> cn_heartbeat (snd x)) (dv_consumers s2)"
  define cursor where "cursor = min (min_cursor live) (replay_floor (oc_window c) s2)"
  define gone where "gone = prunable cursor (clock_now c s - oc_retention c) (nth_newest (oc_max_rows c) s2) s2"
  have p: "snd (prune_outbox c s) = (if 0 < cursor then s2\<lparr>dv_rows := filter (\<lambda>q. \<not> gone q) (dv_rows s2)\<rparr> else s2)"
    by (simp add: prune_outbox_def Let_def after_def s1_def s2_def live_def cursor_def gone_def)
  with assms(3) obtain n where n: "map_of (dv_consumers s2) i = Some n" by (auto split: if_splits)
  then have mem: "(i, n) \<in> set (dv_consumers s1)" "after \<le> cn_heartbeat n"
    by (auto simp: s2_def drop_consumers_def Let_def dest: map_of_SomeD)
  have d1: "distinct (map fst (dv_consumers s1))" using assms(1,2) by (simp add: kept_def s1_def)
  have "\<not> cn_heartbeat (snd (i, m)) < after" if "(i, m) \<in> set (dv_consumers s1)" for m
    using eq_key_imp_eq_value[OF d1 that mem(1)] mem(2) by simp
  then have k2: "kept i s1 s2" "quiet s1 s2"
    unfolding s2_def by (auto intro!: drop_consumers_trimmed drop_consumers_quiet)
  have k: "trimmed i s s2" "quiet s s1 \<Longrightarrow> quiet s s2"
    using assms(1) k2 by (auto simp flip: s1_def intro: kept_trimmed kept_trans quiet_proc_trans)
  have "(i, n) \<in> set live" using n mem(2) by (auto simp: live_def dest: map_of_SomeD)
  then have "cursor \<le> cn_cursor n" using min_cursor_le by (fastforce simp: cursor_def)
  then have "dr_id q < frontier i s2 (dr_scope q)" if "gone q" for q
    using prunable_not_owed[OF that[unfolded gone_def] n] by simp
  then have "trimmed i s2 (s2\<lparr>dv_rows := filter (\<lambda>q. \<not> gone q) (dv_rows s2)\<rparr>)"
    "quiet s2 (s2\<lparr>dv_rows := filter (\<lambda>q. \<not> gone q) (dv_rows s2)\<rparr>)"
    by (auto intro!: filter_rows_trimmed)
  with k p show "trimmed i s (snd (prune_outbox c s))"
    "quiet s (ensure_consumer c s s) \<Longrightarrow> quiet s (snd (prune_outbox c s))"
    by (auto simp flip: s1_def intro: trimmed_trans quiet_proc_trans)
qed

section \<open>The main lane and the scope lane\<close>

lemma next_of_scope_None:
  "next_of_scope k lo hi rows = None \<Longrightarrow> q \<in> set rows \<Longrightarrow> dr_scope q = k \<Longrightarrow> lo < dr_id q \<Longrightarrow> hi < dr_id q"
proof -
  assume n: "next_of_scope k lo hi rows = None" and q: "q \<in> set rows" "dr_scope q = k" "lo < dr_id q"
  let ?xs = "map dr_id (filter (\<lambda>q. dr_scope q = k \<and> lo < dr_id q \<and> dr_id q \<le> hi) rows)"
  from n have "sort ?xs = []" by (cases "sort ?xs") (simp_all add: next_of_scope_def)
  then have "set (sort ?xs) = {}" by (simp only: list.set)
  then have e: "set ?xs = {}" by (simp only: set_sort)
  show ?thesis
  proof (rule ccontr)
    assume "\<not> hi < dr_id q"
    with q have "dr_id q \<in> set ?xs" by simp
    then show False unfolding e by simp
  qed
qed

lemma next_of_scope_Some:
  assumes "next_of_scope k lo hi rows = Some j"
  shows "lo < j" "j \<le> hi" "\<exists>q \<in> set rows. dr_scope q = k \<and> dr_id q = j"
    "\<And>q. q \<in> set rows \<Longrightarrow> dr_scope q = k \<Longrightarrow> lo < dr_id q \<Longrightarrow> j \<le> dr_id q"
proof -
  let ?xs = "map dr_id (filter (\<lambda>q. dr_scope q = k \<and> lo < dr_id q \<and> dr_id q \<le> hi) rows)"
  from assms obtain js where s: "sort ?xs = j # js" by (cases "sort ?xs") (simp_all add: next_of_scope_def)
  then have "j \<in> set (sort ?xs)" by simp
  then have j: "j \<in> set ?xs" by (simp only: set_sort)
  then show "lo < j" "j \<le> hi" "\<exists>q \<in> set rows. dr_scope q = k \<and> dr_id q = j" by auto
  have sj: "sorted (j # js)" using s sorted_sort[of ?xs] by metis
  fix q assume q: "q \<in> set rows" "dr_scope q = k" "lo < dr_id q"
  show "j \<le> dr_id q"
  proof (cases "dr_id q \<le> hi")
    case True
    with q have "dr_id q \<in> set ?xs" by auto
    then have "dr_id q \<in> set (sort ?xs)" by (simp only: set_sort)
    with s sj show ?thesis by auto
  next
    case False
    with j show ?thesis by auto
  qed
qed

lemma publish_result:
  assumes "publish_outbox_row c lane r s = (err, t)"
  shows "kept i s t" "dv_cursor t = dv_cursor s" "dv_rows t = dv_rows s" "dv_lanes t = dv_lanes s"
    and "dv_trace t = (if err = None then dv_trace s @ [(lane, dr_scope r, dr_id r)] else dv_trace s)"
proof -
  show "kept i s t" using assms publish_frame[OF kept_refl, of i s c lane r] by simp
  show "dv_cursor t = dv_cursor s" "dv_rows t = dv_rows s" "dv_lanes t = dv_lanes s"
    "dv_trace t = (if err = None then dv_trace s @ [(lane, dr_scope r, dr_id r)] else dv_trace s)"
    using assms by (auto simp: publish_outbox_row_def Let_def split: if_splits prod.splits sum.splits)
qed

lemma ln_next_requeue:
  "ln_next (requeue now n e b l) = (case l of None \<Rightarrow> n | Some x \<Rightarrow> min n (ln_next x))"
  by (auto simp: requeue_def fresh_lane_def Let_def split: option.splits)

lemma sent_append:
  "dv_trace t = dv_trace s @ [(lane, k, n)] \<Longrightarrow> lane = MainLane \<or> lane = ScopeLane \<Longrightarrow>
   sent t = (sent s)(k := sent s k @ [n])"
  by (auto simp: sent_def fun_eq_iff)

lemma sent_same: "dv_trace t = dv_trace s \<Longrightarrow> sent t = sent s"
  by (simp add: sent_def fun_eq_iff)

text \<open>The cursor of the consumer moves to a row beyond it.\<close>

definition moved :: "string \<Rightarrow> nat \<Rightarrow> 'k dlv \<Rightarrow> 'k dlv \<Rightarrow> bool" where
  "moved i n s t \<longleftrightarrow> shape t = shape s \<and> dv_seq t = dv_seq s \<and> dv_cursor t = n \<and>
     map fst (dv_consumers t) = map fst (dv_consumers s) \<and>
     map_option cn_cursor (map_of (dv_consumers t) i) = Some n"

lemma advance_moved:
  assumes "map_option cn_cursor (map_of (dv_consumers s) i) = Some (dv_cursor s)" "dv_cursor s \<le> n" "oc_id c = i"
  shows "moved i n s (advance_outbox_cursor c n s)"
  using assms by (auto simp: moved_def advance_outbox_cursor_def Let_def map_of_set_consumer shape_def)

lemma advance_sel [simp]:
  "dv_lanes (advance_outbox_cursor c n s) = dv_lanes s" "dv_trace (advance_outbox_cursor c n s) = dv_trace s"
  by (simp_all add: advance_outbox_cursor_def Let_def)

lemma moved_from:
  "moved i n s' t \<Longrightarrow> shape s' = shape s \<Longrightarrow> dv_seq s' = dv_seq s \<Longrightarrow>
   map fst (dv_consumers s') = map fst (dv_consumers s) \<Longrightarrow> moved i n s t"
  by (simp add: moved_def)

lemma queue_sel [simp]:
  "shape (queue_scope_recovery c r e b s) = shape s" "dv_seq (queue_scope_recovery c r e b s) = dv_seq s"
  "dv_consumers (queue_scope_recovery c r e b s) = dv_consumers s"
  "dv_cursor (queue_scope_recovery c r e b s) = dv_cursor s"
  "dv_trace (queue_scope_recovery c r e b s) = dv_trace s"
  by (simp_all add: queue_scope_recovery_def)

lemma queue_lane:
  "\<exists>l. dv_lanes (queue_scope_recovery c r e b s) (oc_id c) = (dv_lanes s (oc_id c))(dr_scope r := Some l) \<and>
     ln_next l = (case dv_lanes s (oc_id c) (dr_scope r) of None \<Rightarrow> dr_id r | Some x \<Rightarrow> min (dr_id r) (ln_next x))"
  by (auto simp: queue_scope_recovery_def ln_next_requeue)

lemma publish_consumers:
  "publish_outbox_row c lane r s = (err, t) \<Longrightarrow> dv_consumers t = dv_consumers s \<and> dv_seq t = dv_seq s \<and> shape t = shape s"
  by (auto simp: publish_outbox_row_def Let_def shape_def split: if_splits prod.splits sum.splits)

text \<open>What one row of the main lane does: it is sent, or its scope has a lane.\<close>

lemma main_row_result:
  assumes pos: "map_option cn_cursor (map_of (dv_consumers s) (oc_id c)) = Some (dv_cursor s)"
    and new: "dv_cursor s \<le> dr_id r" and t: "t = snd (snd (main_row c r s))"
  shows "moved (oc_id c) (dr_id r) s t"
    and "(sent t = (sent s)(dr_scope r := sent s (dr_scope r) @ [dr_id r]) \<and>
          dv_lanes t (oc_id c) = dv_lanes s (oc_id c) \<and> \<not> has_earlier_scope_recovery c r s) \<or>
         (sent t = sent s \<and> (\<exists>l. dv_lanes t (oc_id c) = (dv_lanes s (oc_id c))(dr_scope r := Some l) \<and>
            ln_next l = (case dv_lanes s (oc_id c) (dr_scope r) of None \<Rightarrow> dr_id r | Some x \<Rightarrow> min (dr_id r) (ln_next x))))"
proof -
  obtain err s1 where p: "publish_outbox_row c MainLane r s = (err, s1)"
    by (cases "publish_outbox_row c MainLane r s")
  note pr = publish_result(2-5)[OF p] publish_consumers[OF p]
  let ?q = "queue_scope_recovery c r None False s"
  let ?ok = "set_row (dr_id r) (row_published (clock_now c s1)) s1"
  let ?bad = "\<lambda>e. queue_scope_recovery c r (Some (utf8_take 500 e)) True
                (set_row (dr_id r) (row_failed e) s1)"
  have t': "t = advance_outbox_cursor c (dr_id r)
      (if has_earlier_scope_recovery c r s then ?q else case err of None \<Rightarrow> ?ok | Some e \<Rightarrow> ?bad e)"
    unfolding t by (auto simp: main_row_def deliver_row_def p mark_outbox_published_def
        mark_outbox_failed_def Let_def split: option.splits)
  have m: "moved (oc_id c) (dr_id r) s (advance_outbox_cursor c (dr_id r) u)"
    if "shape u = shape s" "dv_seq u = dv_seq s" "dv_consumers u = dv_consumers s" "dv_cursor u = dv_cursor s" for u
    using that pos new by (intro moved_from[OF advance_moved]) auto
  show "moved (oc_id c) (dr_id r) s t"
    unfolding t' using pr by (intro m) (auto split: option.splits)
  show "(sent t = (sent s)(dr_scope r := sent s (dr_scope r) @ [dr_id r]) \<and>
          dv_lanes t (oc_id c) = dv_lanes s (oc_id c) \<and> \<not> has_earlier_scope_recovery c r s) \<or>
         (sent t = sent s \<and> (\<exists>l. dv_lanes t (oc_id c) = (dv_lanes s (oc_id c))(dr_scope r := Some l) \<and>
            ln_next l = (case dv_lanes s (oc_id c) (dr_scope r) of None \<Rightarrow> dr_id r | Some x \<Rightarrow> min (dr_id r) (ln_next x))))"
  proof (cases "has_earlier_scope_recovery c r s")
    case True
    with queue_lane[of c r None False s] show ?thesis by (auto simp: t' sent_def)
  next
    case False
    show ?thesis
    proof (cases err)
      case None
      with False pr show ?thesis by (auto simp: t' intro!: sent_append)
    next
      case (Some e)
      with False pr queue_lane[of c r "Some (utf8_take 500 e)" True "set_row (dr_id r) (row_failed e) s1"]
      show ?thesis by (auto simp: t' sent_def)
    qed
  qed
qed

text \<open>Where the lane of a scope goes once its head \<open>n\<close> has been sent.\<close>

definition lane_after :: "(nat \<times> 'k) list \<Rightarrow> 'k \<Rightarrow> nat \<Rightarrow> nat \<Rightarrow> lane option \<Rightarrow> bool" where
  "lane_after rows k n cursor x =
     (case x of
        None \<Rightarrow> \<forall>p \<in> set rows. snd p = k \<and> n < fst p \<longrightarrow> cursor < fst p
      | Some l \<Rightarrow> n < ln_next l \<and> ln_next l \<le> cursor \<and> (ln_next l, k) \<in> set rows \<and>
                  (\<forall>p \<in> set rows. snd p = k \<and> n < fst p \<longrightarrow> ln_next l \<le> fst p))"

lemma lane_after_next:
  "lane_after (shape s) k n cursor
     (map_option (\<lambda>i. \<lparr>rt_attempts = 0, rt_at = 0, rt_error = None, ln_next = i\<rparr>) (next_of_scope k n cursor (dv_rows s)))"
proof (cases "next_of_scope k n cursor (dv_rows s)")
  case None
  then show ?thesis by (auto simp: lane_after_def shape_def dest: next_of_scope_None)
next
  case (Some j)
  note n = next_of_scope_Some[OF Some]
  from n(3) have "(j, k) \<in> set (shape s)" by (auto simp: shape_def)
  with Some n(1,2,4) show ?thesis by (auto simp: lane_after_def shape_def)
qed

lemma scope_row_result:
  assumes lane: "dv_lanes s (oc_id c) (dr_scope r) = Some l" "ln_next l = dr_id r"
    and t: "t = snd (snd (deliver_row c ScopeLane r s))"
  shows "shape t = shape s" "dv_seq t = dv_seq s" "dv_cursor t = dv_cursor s"
    "map fst (dv_consumers t) = map fst (dv_consumers s)"
    "map_option cn_cursor (map_of (dv_consumers t) i) = map_option cn_cursor (map_of (dv_consumers s) i)"
    "fst (snd (deliver_row c ScopeLane r s)) = None"
    and "\<exists>x. dv_lanes t (oc_id c) = (dv_lanes s (oc_id c))(dr_scope r := x) \<and>
           ((sent t = (sent s)(dr_scope r := sent s (dr_scope r) @ [dr_id r]) \<and>
             lane_after (shape s) (dr_scope r) (dr_id r) (dv_cursor s) x) \<or>
            (sent t = sent s \<and> (\<exists>l'. x = Some l' \<and> ln_next l' = dr_id r)))"
proof -
  obtain err s1 where p: "publish_outbox_row c ScopeLane r s = (err, s1)"
    by (cases "publish_outbox_row c ScopeLane r s")
  note pr = publish_result(2-5)[OF p] publish_consumers[OF p]
  let ?ok = "set_row (dr_id r) (row_published (clock_now c s1)) s1"
  let ?x = "map_option (\<lambda>i. \<lparr>rt_attempts = 0, rt_at = 0, rt_error = None, ln_next = i\<rparr>)
              (next_of_scope (dr_scope r) (dr_id r) (dv_cursor ?ok) (dv_rows ?ok))"
  let ?bad = "\<lambda>e. queue_scope_recovery c r (Some (utf8_take 500 e)) True (set_row (dr_id r) (row_failed e) s1)"
  have d: "snd (deliver_row c ScopeLane r s) =
      (None, beat c (case err of None \<Rightarrow> set_lane (oc_id c) (dr_scope r) ?x ?ok | Some e \<Rightarrow> ?bad e))"
    using lane pr by (auto simp: deliver_row_def p mark_outbox_published_def mark_outbox_failed_def
        advance_scope_recovery_def Let_def split: option.splits)
  show "fst (snd (deliver_row c ScopeLane r s)) = None" by (simp add: d)
  have t': "t = beat c (case err of None \<Rightarrow> set_lane (oc_id c) (dr_scope r) ?x ?ok | Some e \<Rightarrow> ?bad e)"
    by (simp add: t d)
  show "shape t = shape s" "dv_seq t = dv_seq s" "dv_cursor t = dv_cursor s"
    "map fst (dv_consumers t) = map fst (dv_consumers s)"
    using pr by (auto simp: t' beat_def split: option.splits)
  show "map_option cn_cursor (map_of (dv_consumers t) i) = map_option cn_cursor (map_of (dv_consumers s) i)"
    using pr by (auto simp: t' beat_def map_of_set_consumer option.map_comp comp_def split: option.splits)
  have b: "dv_lanes (beat c u) = dv_lanes u" "sent (beat c u) = sent u" for u
    by (auto simp: beat_def sent_def)
  show "\<exists>x. dv_lanes t (oc_id c) = (dv_lanes s (oc_id c))(dr_scope r := x) \<and>
           ((sent t = (sent s)(dr_scope r := sent s (dr_scope r) @ [dr_id r]) \<and>
             lane_after (shape s) (dr_scope r) (dr_id r) (dv_cursor s) x) \<or>
            (sent t = sent s \<and> (\<exists>l'. x = Some l' \<and> ln_next l' = dr_id r)))"
  proof (cases err)
    case None
    have "shape ?ok = shape s" using pr by simp
    then have "lane_after (shape s) (dr_scope r) (dr_id r) (dv_cursor s) ?x"
      using lane_after_next[of ?ok "dr_scope r" "dr_id r" "dv_cursor s"] pr by simp
    with None pr show ?thesis by (auto simp: t' b intro!: exI[of _ ?x] sent_append)
  next
    case (Some e)
    let ?u = "set_row (dr_id r) (row_failed e) s1"
    obtain l' where q: "dv_lanes (?bad e) (oc_id c) = (dv_lanes ?u (oc_id c))(dr_scope r := Some l')"
      "ln_next l' = (case dv_lanes ?u (oc_id c) (dr_scope r) of None \<Rightarrow> dr_id r | Some x \<Rightarrow> min (dr_id r) (ln_next x))"
      using queue_lane[of c r "Some (utf8_take 500 e)" True ?u] by (elim exE conjE) (rule that)
    then have "dv_lanes t (oc_id c) = (dv_lanes s (oc_id c))(dr_scope r := Some l')" "ln_next l' = dr_id r"
      using lane pr Some by (simp_all add: t' b)
    moreover have "sent t = sent s" by (rule sent_same) (simp add: t' Some pr beat_def)
    ultimately show ?thesis by blast
  qed
qed

text \<open>A process that prunes has just beaten.\<close>

lemma own_survives_prune:
  assumes "position_ok (oc_id c) s" "0 \<le> oc_ttl c"
  shows "map_of (dv_consumers (snd (prune_outbox c s))) (oc_id c) \<noteq> None"
proof -
  obtain n where n: "map_of (dv_consumers s) (oc_id c) = Some n" using assms(1) by (auto simp: position_ok_def)
  define s1 where "s1 = ensure_consumer c s s"
  have m: "map_of (dv_consumers s1) (oc_id c) = Some (n\<lparr>cn_heartbeat := clock_now c s\<rparr>)"
    using n by (simp add: s1_def ensure_consumer_def beat_def map_of_set_consumer)
  let ?p = "\<lambda>x. \<not> cn_heartbeat (snd x) < clock_now c s - oc_ttl c"
  have "\<exists>y. map_of (filter ?p (dv_consumers s1)) (oc_id c) = Some y"
    using map_of_SomeD[OF m] assms(2)
    by (intro weak_map_of_SomeI[of _ "n\<lparr>cn_heartbeat := clock_now c s\<rparr>"]) simp
  then show ?thesis
    by (auto simp: prune_outbox_def Let_def drop_consumers_def simp flip: s1_def)
qed

end
