(* ===== verification/OutboxRefine.thy ===== *)
theory OutboxRefine
  imports OutboxCorrect
begin

text \<open>
  The specification of outbox delivery, one queue per scope, and the proof that every step
  of the delivery of \<open>WorkflowService\<close> (\<open>backend/app/workflows/service.py\<close>) implements it:
  commits of new rows, the lanes of this process, and everything other processes do to the
  shared tables, in any order.
\<close>

section \<open>Specification\<close>

text \<open>A scope has the ids already sent and the ids still owed.  A label lists committed rows.\<close>

inductive fifo_step :: "(nat \<times> 'k) list \<Rightarrow> ('k \<Rightarrow> nat list \<times> nat list) \<Rightarrow> ('k \<Rightarrow> nat list \<times> nat list) \<Rightarrow> bool" where
  fifo_commit: "q k = (xs, ys) \<Longrightarrow> fifo_step [(n, k)] q (q(k := (xs, ys @ [n])))"
| fifo_send: "q k = (xs, n # ys) \<Longrightarrow> fifo_step [] q (q(k := (xs @ [n], ys)))"
| fifo_idle: "fifo_step [] q q"

definition queues :: "string \<Rightarrow> 'k dlv \<Rightarrow> 'k \<Rightarrow> nat list \<times> nat list" where
  "queues i s k = (sent s k, owed i s k)"

lemma fifo_step_history:
  "fifo_step es q q' \<Longrightarrow>
   fst (q' k) @ snd (q' k) = fst (q k) @ snd (q k) @ map fst (filter (\<lambda>p. snd p = k) es)"
  by (induction rule: fifo_step.induct) auto

section \<open>Steps\<close>

text \<open>The state of one process, \<open>s\<close>, over the tables of \<open>t\<close>.\<close>

definition adopt :: "'k dlv \<Rightarrow> 'k dlv \<Rightarrow> 'k dlv" where
  "adopt s t = t\<lparr>dv_cursor := dv_cursor s, dv_registered := dv_registered s, dv_fence := dv_fence s,
     dv_saturated := dv_saturated s, dv_next_cleanup := dv_next_cleanup s, dv_bus := dv_bus s,
     dv_tries := dv_tries s, dv_trace := dv_trace s\<rparr>"

text \<open>Operations of a process on the shared tables that are not part of its main or scope lanes.\<close>

inductive shared_op :: "dlv_cfg \<Rightarrow> 'k dlv \<Rightarrow> 'k dlv \<Rightarrow> bool" for c where
  op_register: "shared_op c s (ensure_consumer c seen s)"
| op_sparse: "shared_op c s (snd (snd (deliver_row c SparseLane r s)))"
| op_acquire: "shared_op c s (snd (try_acquire_global c s))"
| op_release: "shared_op c s (release_global c s)"
| op_normalize: "normalize_global c s = Some t \<Longrightarrow> shared_op c s t"
| op_global: "shared_op c s (snd (snd (deliver_global c r s)))"
| op_discover: "shared_op c s (snd (snd (discover_row c b r s)))"
| op_scan: "Option.bind (begin_global c s) (advance_global_scan c n) = Some t \<Longrightarrow> shared_op c s t"
| op_prune: "shared_op c s (snd (prune_outbox c s))"
| op_note: "shared_op c s (s\<lparr>dv_saturated := e, dv_next_cleanup := x\<rparr>)"

inductive any_op :: "dlv_cfg \<Rightarrow> 'k dlv \<Rightarrow> 'k dlv \<Rightarrow> bool" for c where
  any_shared: "shared_op c s t \<Longrightarrow> any_op c s t"
| any_main: "any_op c s (snd (snd (main_row c r s)))"
| any_lane: "any_op c s (snd (snd (deliver_row c lane r s)))"
| any_close: "any_op c s (aclose c s)"

text \<open>
  A step of the system as the process \<open>c\<close> sees it.  Somebody commits a row, with an id the
  database has not used; the process handles the first row after its cursor, or the head of
  one of its lanes; it works on the shared tables; or another process \<open>d\<close>, with process state
  \<open>p\<close>, does anything it can do, short of declaring \<open>c\<close> dead.
\<close>

definition next_main :: "'k dlv \<Rightarrow> 'k dlv_row \<Rightarrow> bool" where
  "next_main s r = (map (\<lambda>q. (dr_id q, dr_scope q)) (main_page 1 s) = [(dr_id r, dr_scope r)])"

inductive delivery_step :: "dlv_cfg \<Rightarrow> (nat \<times> 'k) list \<Rightarrow> 'k dlv \<Rightarrow> 'k dlv \<Rightarrow> bool" for c where
  step_commit: "dv_seq s < dr_id r \<Longrightarrow>
     delivery_step c [(dr_id r, dr_scope r)] s (s\<lparr>dv_rows := dv_rows s @ [r], dv_seq := dr_id r\<rparr>)"
| step_main: "next_main s r \<Longrightarrow> delivery_step c [] s (snd (snd (main_row c r s)))"
| step_scope: "dv_lanes s (oc_id c) (dr_scope r) = Some l \<Longrightarrow> ln_next l = dr_id r \<Longrightarrow>
     delivery_step c [] s (snd (snd (deliver_row c ScopeLane r s)))"
| step_shared: "shared_op c s t \<Longrightarrow> delivery_step c [] s t"
| step_other: "oc_id d \<noteq> oc_id c \<Longrightarrow> any_op d (adopt p s) t \<Longrightarrow> map_of (dv_consumers t) (oc_id c) \<noteq> None \<Longrightarrow>
     delivery_step c [] s (adopt s t)"

inductive delivery_run :: "dlv_cfg \<Rightarrow> (nat \<times> 'k) list \<Rightarrow> 'k dlv \<Rightarrow> 'k dlv \<Rightarrow> bool" for c where
  run_none: "delivery_run c [] s s"
| run_step: "delivery_run c es s t \<Longrightarrow> delivery_step c fs t u \<Longrightarrow> delivery_run c (es @ fs) s u"

section \<open>Every step implements the queues\<close>

lemma shared_op_frame:
  assumes op: "shared_op c s t" and pos: "position_ok (oc_id c) s" and ttl: "0 \<le> oc_ttl c"
  shows "trimmed (oc_id c) s t" "quiet s t"
proof -
  have "trimmed (oc_id c) s t \<and> quiet s t"
    using op
  proof cases
    case (op_register seen)
    then show ?thesis using ensure_own[OF pos] by (auto intro: kept_trimmed)
  next
    case (op_sparse r)
    then show ?thesis
      using deliver_row_frame[OF kept_refl, of c _ SparseLane] deliver_sparse_quiet[OF quiet_proc_refl]
      by (auto intro: kept_trimmed)
  next
    case op_acquire
    then show ?thesis by (auto intro!: kept_trimmed try_acquire_frame frame)
  next
    case op_release
    then show ?thesis by (auto intro!: kept_trimmed release_frame frame)
  next
    case op_normalize
    then show ?thesis using framed_global_ops(1) by (auto simp: framed_def intro: kept_trimmed)
  next
    case (op_global r)
    then show ?thesis using deliver_global_frame[of "oc_id c" s c r] by (auto intro: kept_trimmed)
  next
    case (op_discover b r)
    then show ?thesis using discover_row_frame[of "oc_id c" s c b r] by (auto intro: kept_trimmed)
  next
    case (op_scan n)
    then show ?thesis using framed_then_advance[OF framed_prims(1)[where i = "oc_id c" and s = s and c = c], where c = c and n = n] by (auto simp: framed_def intro: kept_trimmed)
  next
    case op_prune
    have "map_of (dv_consumers (snd (prune_outbox c s))) (oc_id c) \<noteq> None"
      using own_survives_prune[OF pos ttl] .
    with op_prune pos show ?thesis
      using prune_trimmed_tables[OF ensure_own(1)[OF pos]] ensure_own(2)[OF pos] by (auto simp: position_ok_def)
  next
    case (op_note e x)
    then show ?thesis by (auto intro!: kept_trimmed frame)
  qed
  then show "trimmed (oc_id c) s t" "quiet s t" by auto
qed

lemma adopt_sel [simp]:
  "shape (adopt s t) = shape t" "dv_seq (adopt s t) = dv_seq t" "dv_lanes (adopt s t) = dv_lanes t"
  "dv_consumers (adopt s t) = dv_consumers t" "dv_cursor (adopt s t) = dv_cursor s" "dv_trace (adopt s t) = dv_trace s"
  by (simp_all add: adopt_def shape_def)

lemma any_op_trimmed:
  assumes op: "any_op d s t" and d: "oc_id d \<noteq> i" and alive: "map_of (dv_consumers t) i \<noteq> None"
    and dist: "distinct (map fst (dv_consumers s))"
  shows "trimmed i s t"
  using op
proof cases
  case any_shared
  then show ?thesis
  proof cases
    case (op_register seen)
    then show ?thesis using ensure_frame[OF kept_refl d] by (auto intro: kept_trimmed)
  next
    case (op_sparse r)
    then show ?thesis using deliver_row_frame[OF kept_refl, of d i SparseLane s r] by (auto intro: kept_trimmed)
  next
    case op_acquire
    then show ?thesis by (auto intro!: kept_trimmed try_acquire_frame frame)
  next
    case op_release
    then show ?thesis by (auto intro!: kept_trimmed release_frame frame)
  next
    case op_normalize
    then show ?thesis using framed_global_ops(1)[of i s d] by (auto simp: framed_def intro: kept_trimmed)
  next
    case (op_global r)
    then show ?thesis using deliver_global_frame[of i s d r] by (auto intro: kept_trimmed)
  next
    case (op_discover b r)
    then show ?thesis using discover_row_frame[of i s d b r] by (auto intro: kept_trimmed)
  next
    case (op_scan n)
    then show ?thesis
      using framed_then_advance[OF framed_prims(1)[where i = i and s = s and c = d], where c = d and n = n] by (auto simp: framed_def intro: kept_trimmed)
  next
    case op_prune
    have k: "kept i s (ensure_consumer d s s)" using ensure_frame[OF kept_refl d] .
    from op_prune alive dist show ?thesis using prune_trimmed_tables[OF k] by auto
  next
    case (op_note e x)
    then show ?thesis by (auto intro!: kept_trimmed frame)
  qed
next
  case (any_main r)
  then show ?thesis using main_row_frame[OF kept_refl d] by (auto intro: kept_trimmed)
next
  case (any_lane lane r)
  then show ?thesis using deliver_row_frame[OF kept_refl, of d i lane s r] d by (auto intro: kept_trimmed)
next
  case any_close
  define u where "u = (if dv_lease_owner s = Some (oc_owner d)
    then s\<lparr>dv_lease_owner := None, dv_lease_expires := 0\<rparr> else s)"
  have "kept i s u" by (auto simp: u_def intro: frame)
  then have "kept i s (drop_consumers (\<lambda>x. fst x = oc_id d) u)"
    by (rule kept_trans[OF _ drop_consumers_trimmed]) (use d in auto)
  with any_close show ?thesis
    by (auto simp: aclose_def Let_def simp flip: u_def intro: kept_trimmed frame)
qed

lemma step_other_trimmed:
  assumes "any_op d (adopt p s) t" "oc_id d \<noteq> i" "map_of (dv_consumers t) i \<noteq> None" "distinct (map fst (dv_consumers s))"
  shows "trimmed i s (adopt s t)" "quiet s (adopt s t)"
proof -
  have "trimmed i (adopt p s) t" using any_op_trimmed[OF assms(1-3)] assms(4) by simp
  moreover have "frontier i (adopt p s) = frontier i s" by (simp add: fun_eq_iff frontier_def db_cursor_def split: option.split)
  ultimately show "trimmed i s (adopt s t)" by (simp add: trimmed_def)
  show "quiet s (adopt s t)" by (simp add: quiet_def sent_def fun_eq_iff)
qed

lemma trimmed_step:
  assumes "trimmed i s t" "quiet s t" "position_ok i s"
  shows "position_ok i t" "fifo_step [] (queues i s) (queues i t)"
proof -
  show "position_ok i t" using position_trimmed[OF assms(3,1)] assms(2) by (simp add: quiet_def)
  have "queues i t = queues i s" using trimmed_owed[OF assms(1)] assms(2) by (simp add: queues_def quiet_def fun_eq_iff)
  then show "fifo_step [] (queues i s) (queues i t)" by (simp add: fifo_idle)
qed

section \<open>Commits and the lanes\<close>

lemma owed_unchanged:
  assumes "shape t = shape s"
    and "\<And>n. (n, k) \<in> set (shape s) \<Longrightarrow> frontier i t k \<le> n \<longleftrightarrow> frontier i s k \<le> n"
  shows "owed i t k = owed i s k"
  using assms by (auto simp: owed_def intro!: arg_cong[of _ _ "map fst"] filter_cong)

lemma sorted_filter_head:
  fixes xs :: "(nat \<times> 'k) list"
  assumes "sorted_wrt (<) (map fst xs)" "(n, k) \<in> set xs"
  shows "map fst (filter (\<lambda>p. snd p = k \<and> n \<le> fst p) xs) = n # map fst (filter (\<lambda>p. snd p = k \<and> n < fst p) xs)"
  using assms
proof (induction xs)
  case (Cons p xs)
  show ?case
  proof (cases "p = (n, k)")
    case True
    with Cons.prems(1) have lt: "n < fst q" if "q \<in> set xs" for q using that by auto
    have "filter (\<lambda>p. snd p = k \<and> n \<le> fst p) xs = filter (\<lambda>p. snd p = k \<and> n < fst p) xs"
      by (rule filter_cong[OF refl]) (auto dest: lt)
    with True show ?thesis by simp
  next
    case False
    with Cons.prems have "(n, k) \<in> set xs" "fst p < n" by auto
    with Cons show ?thesis by auto
  qed
qed simp

text \<open>The frontier of a scope moves past its first owed row.\<close>

lemma owed_sent:
  assumes "shape t = shape s" "sorted_wrt (<) (map fst (shape s))" "(n, k) \<in> set (shape s)"
    and "\<And>m. (m, k) \<in> set (shape s) \<Longrightarrow> frontier i s k \<le> m \<longleftrightarrow> n \<le> m"
    and "\<And>m. (m, k) \<in> set (shape s) \<Longrightarrow> frontier i t k \<le> m \<longleftrightarrow> n < m"
  shows "owed i s k = n # owed i t k"
proof -
  have "filter (\<lambda>p. snd p = k \<and> frontier i s k \<le> fst p) (shape s) = filter (\<lambda>p. snd p = k \<and> n \<le> fst p) (shape s)"
    using assms(4) by (auto intro!: filter_cong)
  moreover have "filter (\<lambda>p. snd p = k \<and> frontier i t k \<le> fst p) (shape t) = filter (\<lambda>p. snd p = k \<and> n < fst p) (shape s)"
    using assms(1,5) by (auto intro!: filter_cong)
  ultimately show ?thesis
    using sorted_filter_head[OF assms(2,3)] by (simp add: owed_def)
qed

lemma queues_send:
  assumes "sent t = (sent s)(k := sent s k @ [n])" "owed i s k = n # owed i t k"
    and "\<And>j. j \<noteq> k \<Longrightarrow> owed i t j = owed i s j"
  shows "fifo_step [] (queues i s) (queues i t)"
proof -
  have "queues i t = (queues i s)(k := (sent s k @ [n], owed i t k))"
    using assms(1,3) by (auto simp: queues_def fun_eq_iff)
  moreover have "queues i s k = (sent s k, n # owed i t k)" using assms(2) by (simp add: queues_def)
  ultimately show ?thesis by (metis fifo_send)
qed

lemma queues_same:
  assumes "sent t = sent s" "\<And>k. owed i t k = owed i s k"
  shows "fifo_step [] (queues i s) (queues i t)"
proof -
  have "queues i t = queues i s" using assms by (simp add: queues_def fun_eq_iff)
  then show ?thesis by (simp add: fifo_idle)
qed

lemma db_cursor_SomeI: "map_option cn_cursor (map_of (dv_consumers s) i) = Some x \<Longrightarrow> db_cursor i s = x"
  by (auto simp: db_cursor_def)

lemma commit_step:
  assumes pos: "position_ok i s" and new: "dv_seq s < dr_id r"
  defines "t \<equiv> s\<lparr>dv_rows := dv_rows s @ [r], dv_seq := dr_id r\<rparr>"
  shows "position_ok i t" "fifo_step [(dr_id r, dr_scope r)] (queues i s) (queues i t)"
proof -
  have sh: "shape t = shape s @ [(dr_id r, dr_scope r)]" by (simp add: t_def shape_def)
  have fr: "frontier i t = frontier i s" by (simp add: t_def fun_eq_iff frontier_def db_cursor_def split: option.split)
  show "position_ok i t"
    using pos new unfolding position_ok_def sh by (auto simp: t_def sorted_wrt_append intro: le_less_trans)
  have "frontier i s k \<le> dr_id r" for k
    using pos new by (fastforce simp: position_ok_def frontier_def db_cursor_def split: option.split)
  then have "owed i t = (owed i s)(dr_scope r := owed i s (dr_scope r) @ [dr_id r])"
    by (simp add: owed_def sh fr fun_eq_iff)
  moreover have "sent t = sent s" by (simp add: sent_def t_def fun_eq_iff)
  ultimately have "queues i t = (queues i s)(dr_scope r := (sent s (dr_scope r), owed i s (dr_scope r) @ [dr_id r]))"
    by (auto simp: queues_def fun_eq_iff)
  moreover have "queues i s (dr_scope r) = (sent s (dr_scope r), owed i s (dr_scope r))" by (simp add: queues_def)
  ultimately show "fifo_step [(dr_id r, dr_scope r)] (queues i s) (queues i t)" by (metis fifo_commit)
qed

text \<open>The page of the main lane starts with the first row after the cursor.\<close>

lemma next_mainD:
  assumes "next_main s r"
  shows "(dr_id r, dr_scope r) \<in> set (shape s)" "dv_cursor s < dr_id r"
    "\<And>p. p \<in> set (shape s) \<Longrightarrow> dv_cursor s < fst p \<Longrightarrow> dr_id r \<le> fst p"
proof -
  let ?xs = "filter (\<lambda>q. dv_cursor s < dr_id q) (dv_rows s)"
  from assms obtain q where q: "take 1 (sort_key dr_id ?xs) = [q]" "dr_id q = dr_id r" "dr_scope q = dr_scope r"
    by (auto simp: next_main_def main_page_def)
  then obtain qs where s: "sort_key dr_id ?xs = q # qs" by (cases "sort_key dr_id ?xs") auto
  then have "q \<in> set (sort_key dr_id ?xs)" by simp
  then have m: "q \<in> set ?xs" by (simp only: set_sort)
  then show "(dr_id r, dr_scope r) \<in> set (shape s)" "dv_cursor s < dr_id r"
    using q(2,3) by (auto simp: shape_def image_iff intro!: bexI[of _ q])
  have sorted: "sorted (map dr_id (q # qs))" using sorted_sort_key[of dr_id ?xs] by (simp only: s)
  fix p assume p: "p \<in> set (shape s)" "dv_cursor s < fst p"
  then obtain q' where q': "q' \<in> set ?xs" "p = (dr_id q', dr_scope q')" by (auto simp: shape_def)
  then have "q' \<in> set (sort_key dr_id ?xs)" by (simp only: set_sort)
  then have "q' \<in> set (q # qs)" by (simp only: s)
  with sorted q(2) q'(2) show "dr_id r \<le> fst p" by auto
qed

lemma id_scope_unique:
  "sorted_wrt (<) (map fst xs) \<Longrightarrow> (n, k) \<in> set xs \<Longrightarrow> (n, k') \<in> set xs \<Longrightarrow> k' = (k::'k)"
  for xs :: "(nat \<times> 'k) list"
  by (meson eq_key_imp_eq_value strict_sorted_iff)

lemma main_step:
  assumes pos: "position_ok (oc_id c) s" and r: "next_main s r"
  defines "t \<equiv> snd (snd (main_row c r s))"
  shows "position_ok (oc_id c) t" "fifo_step [] (queues (oc_id c) s) (queues (oc_id c) t)"
proof -
  let ?i = "oc_id c" and ?n = "dr_id r" and ?k = "dr_scope r"
  note nm = next_mainD[OF r]
  have cur: "map_option cn_cursor (map_of (dv_consumers s) ?i) = Some (dv_cursor s)"
    and srt: "sorted_wrt (<) (map fst (shape s))"
    and lanes: "\<And>k l. dv_lanes s ?i k = Some l \<Longrightarrow> ln_next l \<le> dv_cursor s \<and> (ln_next l, k) \<in> set (shape s)"
    using pos by (auto simp: position_ok_def)
  note res = main_row_result[OF cur less_imp_le[OF nm(2)] t_def[THEN meta_eq_to_obj_eq]]
  have mv: "shape t = shape s" "dv_seq t = dv_seq s" "dv_cursor t = ?n"
    "map_option cn_cursor (map_of (dv_consumers t) ?i) = Some ?n" "map fst (dv_consumers t) = map fst (dv_consumers s)"
    using res(1) by (auto simp: moved_def)
  have db: "db_cursor ?i s = dv_cursor s" "db_cursor ?i t = ?n"
    using db_cursor_SomeI[OF cur] db_cursor_SomeI[OF mv(4)] by auto
  have base: "position_ok ?i t" if "\<And>k l. dv_lanes t ?i k = Some l \<Longrightarrow> ln_next l \<le> ?n \<and> (ln_next l, k) \<in> set (shape s)"
    using pos that nm(1) unfolding position_ok_def mv by auto
  have beyond: "dv_cursor s < m \<longleftrightarrow> ?n \<le> m" if "(m, k) \<in> set (shape s)" for m k
    using nm(2) nm(3)[OF that] by auto
  have other: "owed ?i t j = owed ?i s j" if j: "j \<noteq> ?k" "dv_lanes t ?i j = dv_lanes s ?i j" for j
  proof (rule owed_unchanged[OF mv(1)])
    fix m assume m: "(m, j) \<in> set (shape s)"
    have "m \<noteq> ?n" using id_scope_unique[OF srt nm(1)] m j(1) by blast
    with beyond[OF m] j(2) db show "frontier ?i t j \<le> m \<longleftrightarrow> frontier ?i s j \<le> m"
      by (auto simp: frontier_def split: option.split)
  qed
  from res(2) show "position_ok ?i t"
  proof (elim disjE conjE exE)
    assume "dv_lanes t ?i = dv_lanes s ?i"
    then show ?thesis using lanes nm(2) by (intro base) fastforce
  next
    fix l assume l: "dv_lanes t ?i = (dv_lanes s ?i)(?k := Some l)"
      "ln_next l = (case dv_lanes s ?i ?k of None \<Rightarrow> ?n | Some x \<Rightarrow> min ?n (ln_next x))"
    have "ln_next l \<le> ?n \<and> (ln_next l, ?k) \<in> set (shape s)"
      using l(2) nm(1,2) lanes[of ?k] by (cases "dv_lanes s ?i ?k") (auto simp: min_def)
    with l(1) lanes nm(2) show ?thesis by (intro base) (fastforce split: if_splits)
  qed
  from res(2) show "fifo_step [] (queues ?i s) (queues ?i t)"
  proof (elim disjE conjE exE)
    assume s: "sent t = (sent s)(?k := sent s ?k @ [?n])" "dv_lanes t ?i = dv_lanes s ?i"
      "\<not> has_earlier_scope_recovery c r s"
    have none: "dv_lanes s ?i ?k = None"
      using s(3) lanes[of ?k] nm(2) by (cases "dv_lanes s ?i ?k") (auto simp: has_earlier_scope_recovery_def lane_before_def)
    have "owed ?i s ?k = ?n # owed ?i t ?k"
      by (rule owed_sent[OF mv(1) srt nm(1)]) (auto simp: frontier_def none s(2) db Suc_le_eq beyond)
    then show ?thesis using s(1,2) other by (intro queues_send) auto
  next
    fix l assume l: "sent t = sent s" "dv_lanes t ?i = (dv_lanes s ?i)(?k := Some l)"
      "ln_next l = (case dv_lanes s ?i ?k of None \<Rightarrow> ?n | Some x \<Rightarrow> min ?n (ln_next x))"
    have "owed ?i t ?k = owed ?i s ?k"
    proof (rule owed_unchanged[OF mv(1)])
      fix m assume "(m, ?k) \<in> set (shape s)"
      from beyond[OF this] show "frontier ?i t ?k \<le> m \<longleftrightarrow> frontier ?i s ?k \<le> m"
        using l(2,3) lanes[of ?k] nm(2) db by (cases "dv_lanes s ?i ?k") (auto simp: frontier_def Suc_le_eq min_def)
    qed
    moreover have "owed ?i t j = owed ?i s j" if "j \<noteq> ?k" for j using other[OF that] that l(2) by simp
    ultimately show ?thesis using l(1) by (intro queues_same) metis+
  qed
qed

lemma scope_step:
  assumes pos: "position_ok (oc_id c) s" and l: "dv_lanes s (oc_id c) (dr_scope r) = Some l" "ln_next l = dr_id r"
  defines "t \<equiv> snd (snd (deliver_row c ScopeLane r s))"
  shows "position_ok (oc_id c) t" "fifo_step [] (queues (oc_id c) s) (queues (oc_id c) t)"
proof -
  let ?i = "oc_id c" and ?n = "dr_id r" and ?k = "dr_scope r"
  note res = scope_row_result[OF l t_def[THEN meta_eq_to_obj_eq]]
  have cur: "map_option cn_cursor (map_of (dv_consumers s) ?i) = Some (dv_cursor s)"
    and srt: "sorted_wrt (<) (map fst (shape s))"
    and lanes: "\<And>k l. dv_lanes s ?i k = Some l \<Longrightarrow> ln_next l \<le> dv_cursor s \<and> (ln_next l, k) \<in> set (shape s)"
    using pos by (auto simp: position_ok_def)
  have n: "?n \<le> dv_cursor s" "(?n, ?k) \<in> set (shape s)" using lanes[OF l(1)] l(2) by auto
  have db: "db_cursor ?i s = dv_cursor s" "db_cursor ?i t = dv_cursor s"
    using db_cursor_SomeI[OF cur] db_cursor_SomeI[of t ?i] res(5)[of ?i] cur by auto
  obtain x where x: "dv_lanes t ?i = (dv_lanes s ?i)(?k := x)"
    and alt: "(sent t = (sent s)(?k := sent s ?k @ [?n]) \<and> lane_after (shape s) ?k ?n (dv_cursor s) x) \<or>
            (sent t = sent s \<and> (\<exists>l'. x = Some l' \<and> ln_next l' = ?n))"
    using res(7) by (elim exE conjE) (rule that)
  have "ln_next l' \<le> dv_cursor s \<and> (ln_next l', ?k) \<in> set (shape s)" if "x = Some l'" for l'
    using alt that n by (auto simp: lane_after_def)
  with pos x show "position_ok ?i t"
    unfolding position_ok_def res(1-5) by auto
  have other: "owed ?i t j = owed ?i s j" if "j \<noteq> ?k" for j
    by (rule owed_unchanged[OF res(1)]) (use that x db in \<open>simp add: frontier_def split: option.split\<close>)
  from alt show "fifo_step [] (queues ?i s) (queues ?i t)"
  proof (elim disjE conjE exE)
    assume s: "sent t = (sent s)(?k := sent s ?k @ [?n])" "lane_after (shape s) ?k ?n (dv_cursor s) x"
    have "frontier ?i t ?k \<le> m \<longleftrightarrow> ?n < m" if "(m, ?k) \<in> set (shape s)" for m
      using s(2) that n by (cases x) (fastforce simp: lane_after_def frontier_def x db)+
    then have "owed ?i s ?k = ?n # owed ?i t ?k"
      by (intro owed_sent[OF res(1) srt n(2)]) (auto simp: frontier_def l)
    then show ?thesis using s(1) other by (intro queues_send) auto
  next
    fix l' assume s: "sent t = sent s" "x = Some l'" "ln_next l' = ?n"
    have "owed ?i t ?k = owed ?i s ?k"
      by (rule owed_unchanged[OF res(1)]) (use s x l in \<open>simp add: frontier_def\<close>)
    with other s(1) show ?thesis by (intro queues_same) metis+
  qed
qed

section \<open>Runs\<close>

lemma delivery_step_ok:
  assumes "delivery_step c es s t" "position_ok (oc_id c) s" "0 \<le> oc_ttl c"
  shows "position_ok (oc_id c) t \<and> fifo_step es (queues (oc_id c) s) (queues (oc_id c) t)"
  using assms(1)
proof cases
  case (step_commit r)
  then show ?thesis using commit_step[OF assms(2)] by auto
next
  case (step_main r)
  then show ?thesis using main_step[OF assms(2)] by auto
next
  case (step_scope r l)
  then show ?thesis using scope_step[OF assms(2)] by auto
next
  case step_shared
  then show ?thesis using trimmed_step[OF shared_op_frame[OF _ assms(2,3)] assms(2)] by auto
next
  case (step_other d p u)
  have "distinct (map fst (dv_consumers s))" using assms(2) by (simp add: position_ok_def)
  with step_other show ?thesis using trimmed_step[OF step_other_trimmed assms(2)] by auto
qed

lemma run_position:
  assumes "delivery_run c es s t" "position_ok (oc_id c) s" "0 \<le> oc_ttl c"
  shows "position_ok (oc_id c) t"
  using assms by (induction rule: delivery_run.induct) (auto dest: delivery_step_ok)

lemma run_history:
  assumes "delivery_run c es s t" "position_ok (oc_id c) s" "0 \<le> oc_ttl c"
  shows "sent t k @ owed (oc_id c) t k = sent s k @ owed (oc_id c) s k @ map fst (filter (\<lambda>p. snd p = k) es)"
  using assms
proof (induction rule: delivery_run.induct)
  case (run_step es s t fs u)
  have "fifo_step fs (queues (oc_id c) t) (queues (oc_id c) u)"
    using delivery_step_ok[OF run_step(2) run_position[OF run_step(1)]] run_step.prems by simp
  from fifo_step_history[OF this, of k] run_step show ?case by (simp add: queues_def)
qed simp

lemma run_trans: "delivery_run c fs t u \<Longrightarrow> delivery_run c es s t \<Longrightarrow> delivery_run c (es @ fs) s u"
proof (induction rule: delivery_run.induct)
  case (run_step fs' t' v gs w)
  then show ?case using delivery_run.run_step by fastforce
qed simp

lemma run_comp: "delivery_run c [] s t \<Longrightarrow> delivery_run c [] t u \<Longrightarrow> delivery_run c [] s u"
  using run_trans by fastforce

lemma run_one: "delivery_step c [] s t \<Longrightarrow> delivery_run c [] s t"
  using delivery_run.run_step[OF run_none] by fastforce

lemma run_shared: "shared_op c s t \<Longrightarrow> delivery_run c [] s t"
  by (intro run_one step_shared)

lemma trimmed_seq: "trimmed i s t \<Longrightarrow> dv_seq t = dv_seq s"
  by (simp add: trimmed_def)

lemma step_seq:
  assumes "delivery_step c es s t" "position_ok (oc_id c) s" "0 \<le> oc_ttl c"
  shows "dv_seq s \<le> dv_seq t \<and> (\<forall>p \<in> set es. dv_seq s < fst p \<and> fst p \<le> dv_seq t) \<and> length es \<le> 1"
  using assms(1)
proof cases
  case (step_commit r)
  then show ?thesis by auto
next
  case (step_main r)
  have cur: "map_option cn_cursor (map_of (dv_consumers s) (oc_id c)) = Some (dv_cursor s)"
    using assms(2) unfolding position_ok_def by (elim conjE)
  from main_row_result(1)[OF cur less_imp_le[OF next_mainD(2)[OF step_main(3)]] refl] step_main
  show ?thesis by (simp add: moved_def)
next
  case (step_scope r l)
  then show ?thesis using scope_row_result(2)[OF step_scope(3,4) refl] by simp
next
  case step_shared
  then show ?thesis using trimmed_seq[OF shared_op_frame(1)[OF _ assms(2,3)]] by auto
next
  case (step_other d p u)
  have "distinct (map fst (dv_consumers s))" using assms(2) by (simp add: position_ok_def)
  with step_other show ?thesis
    using trimmed_seq[OF step_other_trimmed(1)[OF step_other(4,3,5)]] by simp
qed

text \<open>Committed ids grow, so what is sent and owed is in increasing order.\<close>

lemma run_sorted:
  assumes "delivery_run c es s t" "position_ok (oc_id c) s" "0 \<le> oc_ttl c" "\<And>k. sent s k = []"
  shows "sorted_wrt (<) (sent t k @ owed (oc_id c) t k) \<and> (\<forall>n \<in> set (sent t k @ owed (oc_id c) t k). n \<le> dv_seq t)"
  using assms
proof (induction arbitrary: k rule: delivery_run.induct)
  case (run_none s)
  then have "sorted_wrt (<) (map fst (shape s))" "\<forall>p \<in> set (shape s). fst p \<le> dv_seq s"
    by (auto simp: position_ok_def)
  then show ?case
    using run_none.prems(3) by (auto simp: owed_def sorted_wrt_map sorted_wrt_filter)
next
  case (run_step es s t fs u)
  note pos = run_position[OF run_step(1) run_step.prems(1,2)]
  note step = delivery_step_ok[OF run_step(2) pos run_step.prems(2)]
  have seq: "dv_seq t \<le> dv_seq u" "\<forall>p \<in> set fs. dv_seq t < fst p \<and> fst p \<le> dv_seq u" "length fs \<le> 1"
    using run_step(2) step_seq[OF run_step(2) pos run_step.prems(2)] by auto
  have h: "sent u k @ owed (oc_id c) u k = (sent t k @ owed (oc_id c) t k) @ map fst (filter (\<lambda>p. snd p = k) fs)"
    using fifo_step_history[OF conjunct2[OF step], of k] by (simp add: queues_def)
  define xs ys where "xs = sent t k @ owed (oc_id c) t k" and "ys = map fst (filter (\<lambda>p. snd p = k) fs)"
  have xs: "sorted_wrt (<) xs" "\<And>n. n \<in> set xs \<Longrightarrow> n \<le> dv_seq t"
    using run_step.IH[OF run_step.prems, of k] by (auto simp: xs_def)
  have ys: "sorted_wrt (<) ys" using seq(3) by (cases fs) (auto simp: ys_def)
  have ys': "dv_seq t < n \<and> n \<le> dv_seq u" if "n \<in> set ys" for n
    using that seq(2) by (auto simp: ys_def)
  have "sorted_wrt (<) (xs @ ys)" using xs ys ys' by (fastforce simp: sorted_wrt_append intro: le_less_trans)
  moreover have "n \<le> dv_seq u" if "n \<in> set (xs @ ys)" for n using that xs(2) ys' seq(1) by fastforce
  ultimately show ?case unfolding h xs_def[symmetric] ys_def[symmetric] by blast
qed

end
