(* ===== verification/OutboxProps.thy ===== *)
theory OutboxProps
  imports OutboxRefine
begin

text \<open>
  The properties of outbox delivery (\<open>backend/app/workflows/service.py\<close>): every step of the
  system implements one queue per scope, a flush and a drain are runs of such steps, what a
  healthy flush delivers, and what the pruning may delete; with a demonstration state for
  the witnesses.
\<close>

section \<open>A flush is a run\<close>

definition key :: "'k dlv_row \<Rightarrow> nat \<times> 'k" where
  "key q = (dr_id q, dr_scope q)"

lemma main_page_key:
  assumes "sorted_wrt (<) (map fst (shape s))"
  shows "map key (main_page n s) = take n (filter (\<lambda>p. dv_cursor s < fst p) (shape s))"
proof -
  let ?xs = "filter (\<lambda>q. dv_cursor s < dr_id q) (dv_rows s)"
  have "sorted (map dr_id (dv_rows s))"
    using assms by (simp add: shape_def comp_def strict_sorted_iff)
  then have "sorted (map dr_id ?xs)" by (rule sorted_filter)
  then have "sort_key dr_id ?xs = ?xs" by (rule sort_key_id_if_sorted)
  then show ?thesis
    by (simp add: main_page_def shape_def key_def[abs_def] take_map filter_map comp_def)
qed

lemma sorted_filter_tail:
  fixes xs :: "(nat \<times> 'k) list"
  assumes "sorted_wrt (<) (map fst xs)" "filter (\<lambda>p. c < fst p) xs = p # ps"
  shows "filter (\<lambda>q. fst p < fst q) xs = ps"
  using assms
proof (induction xs)
  case (Cons x xs)
  show ?case
  proof (cases "c < fst x")
    case True
    have all: "\<forall>y \<in> set xs. fst x < fst y" using Cons.prems(1) by auto
    then have "filter (\<lambda>p. c < fst p) xs = xs" using True by (auto simp: filter_id_conv)
    with Cons.prems(2) True have "p = x" "ps = xs" by auto
    with all show ?thesis by (auto simp: filter_id_conv)
  next
    case False
    with Cons have f: "filter (\<lambda>q. fst p < fst q) xs = ps" by simp
    have "p \<in> set (filter (\<lambda>p. c < fst p) xs)" using Cons.prems(2) False by simp
    then have "c < fst p" by simp
    with False f show ?thesis by simp
  qed
qed simp

lemma main_page_run:
  assumes "position_ok (oc_id c) s" "0 \<le> oc_ttl c"
    and "map key rs = take (length rs) (filter (\<lambda>p. dv_cursor s < fst p) (shape s))"
  shows "delivery_run c [] s (snd (snd (each_row (main_row c) rs n s)))"
  using assms
proof (induction rs arbitrary: n s)
  case Nil
  then show ?case by (simp add: run_none)
next
  case (Cons r rs)
  have srt: "sorted_wrt (<) (map fst (shape s))" and
    cur: "map_option cn_cursor (map_of (dv_consumers s) (oc_id c)) = Some (dv_cursor s)"
    using Cons.prems(1) unfolding position_ok_def by blast+
  obtain ps where ps: "filter (\<lambda>p. dv_cursor s < fst p) (shape s) = key r # ps" "map key rs = take (length rs) ps"
    using Cons.prems(3) by (cases "filter (\<lambda>p. dv_cursor s < fst p) (shape s)") auto
  have "map key (main_page 1 s) = [key r]" using main_page_key[OF srt, of 1] ps(1) by simp
  then have nm: "next_main s r" by (simp add: next_main_def key_def[abs_def])
  obtain ok x s1 where s1: "main_row c r s = (ok, x, s1)" by (cases "main_row c r s") auto
  have step: "delivery_step c [] s s1" using step_main[OF nm, of c] s1 by simp
  have x: "x = None"
    using s1 by (auto simp: main_row_def deliver_row_def mark_outbox_published_def mark_outbox_failed_def Let_def
        split: if_splits prod.splits option.splits)
  have mv: "shape s1 = shape s" "dv_cursor s1 = dr_id r"
    using main_row_result(1)[OF cur less_imp_le[OF next_mainD(2)[OF nm]] refl] s1 by (auto simp: moved_def)
  have "filter (\<lambda>p. dv_cursor s1 < fst p) (shape s1) = ps"
    using sorted_filter_tail[OF srt ps(1)] by (simp add: mv key_def)
  then have "delivery_run c [] s1 (snd (snd (each_row (main_row c) rs (if ok then n + 1 else n) s1)))"
    using ps(2) delivery_step_ok[OF step] Cons.prems(1,2) by (intro Cons.IH) auto
  then show ?case using run_comp[OF run_one[OF step]] by (simp add: s1 x)
qed

lemma flush_main_run:
  assumes "position_ok (oc_id c) s" "0 \<le> oc_ttl c"
  shows "delivery_run c [] s (snd (snd (flush_main c limit s)))"
proof -
  have srt: "sorted_wrt (<) (map fst (shape s))" using assms(1) unfolding position_ok_def by blast
  have "map key (main_page limit s) =
      take (length (main_page limit s)) (filter (\<lambda>p. dv_cursor s < fst p) (shape s))"
    using main_page_key[OF srt, of limit] by (metis length_map length_take min.commute take_take take_all_iff nat_le_linear)
  from main_page_run[OF assms this, of 0] show ?thesis
    by (cases "each_row (main_row c) (main_page limit s) 0 s") (simp add: flush_main_def)
qed

text \<open>A page of the scope lanes holds the heads of different scopes.\<close>

lemma scope_page_run:
  assumes "\<forall>r \<in> set rs. \<exists>l. dv_lanes s (oc_id c) (dr_scope r) = Some l \<and> ln_next l = dr_id r"
    and "distinct (map dr_scope rs)"
  shows "delivery_run c [] s (snd (snd (each_row (deliver_row c ScopeLane) rs n s)))"
  using assms
proof (induction rs arbitrary: n s)
  case Nil
  then show ?case by (simp add: run_none)
next
  case (Cons r rs)
  obtain l where l: "dv_lanes s (oc_id c) (dr_scope r) = Some l" "ln_next l = dr_id r" using Cons.prems(1) by auto
  obtain ok x s1 where s1: "deliver_row c ScopeLane r s = (ok, x, s1)" by (cases "deliver_row c ScopeLane r s") auto
  have step: "delivery_step c [] s s1" using step_scope[where c = c, OF l] s1 by simp
  note res = scope_row_result[OF l refl]
  have x: "x = None" using res(6) s1 by simp
  obtain y where "dv_lanes s1 (oc_id c) = (dv_lanes s (oc_id c))(dr_scope r := y)"
    using res(7) s1 by auto
  moreover have "dr_scope q \<noteq> dr_scope r" if "q \<in> set rs" for q
    using Cons.prems(2) imageI[OF that, of dr_scope] by auto
  ultimately have "delivery_run c [] s1 (snd (snd (each_row (deliver_row c ScopeLane) rs (if ok then n + 1 else n) s1)))"
    using Cons.prems by (intro Cons.IH) auto
  then show ?case using run_comp[OF run_one[OF step]] by (simp add: s1 x)
qed

lemma sparse_page_run:
  "delivery_run c [] s (snd (snd (each_row (deliver_row c SparseLane) rs n s)))"
  by (rule each_row_inv) (auto intro: run_none run_comp run_shared op_sparse)

lemma due_scope_rows:
  fixes n
  assumes "position_ok i s" "i = oc_id c"
  defines "rs \<equiv> due_rows c ScopeLane n s"
  shows "\<forall>r \<in> set rs. \<exists>l. dv_lanes s (oc_id c) (dr_scope r) = Some l \<and> ln_next l = dr_id r"
    and "distinct (map dr_scope rs)"
proof -
  let ?xs = "sort_key dr_id (filter (scope_due c s) (dv_rows s))"
  have head: "\<exists>l. dv_lanes s (oc_id c) (dr_scope r) = Some l \<and> ln_next l = dr_id r" if "r \<in> set ?xs" for r
    using that by (auto simp: scope_due_def head_due_def split: option.splits)
  then show "\<forall>r \<in> set rs. \<exists>l. dv_lanes s (oc_id c) (dr_scope r) = Some l \<and> ln_next l = dr_id r"
    unfolding rs_def due_rows_def by (auto dest: in_set_takeD)
  have d: "distinct (map dr_id (dv_rows s))"
    using assms(1) by (auto simp: position_ok_def shape_def comp_def strict_sorted_iff)
  then have "distinct ?xs" "inj_on dr_id (set ?xs)"
    by (auto simp: distinct_map inj_on_def)
  moreover have "inj_on dr_scope (set ?xs)"
  proof (rule inj_onI)
    fix q r assume m: "q \<in> set ?xs" "r \<in> set ?xs" and e: "dr_scope q = dr_scope r"
    have "dr_id q = dr_id r" using head[OF m(1)] head[OF m(2)] e by auto
    with m \<open>inj_on dr_id (set ?xs)\<close> show "q = r" by (rule inj_onD[rotated 2]) 
  qed
  ultimately show "distinct (map dr_scope rs)"
    unfolding rs_def due_rows_def by (simp add: distinct_map inj_on_subset[OF _ set_take_subset])
qed

lemma flush_lane_run:
  assumes "lane = SparseLane \<or> lane = ScopeLane" "position_ok (oc_id c) s" "0 \<le> oc_ttl c"
  shows "delivery_run c [] s (snd (snd (flush_lane c lane limit p n s)))"
  using assms
proof (induction c lane limit p n s rule: flush_lane.induct)
  case (1 c lane limit p n s)
  let ?rows = "due_rows c lane (limit - p) s"
  obtain m x s1 where e: "each_row (deliver_row c lane) ?rows n s = (m, x, s1)"
    by (cases "each_row (deliver_row c lane) ?rows n s") auto
  have r: "delivery_run c [] s s1"
    using 1(2) scope_page_run[OF due_scope_rows[OF 1(3) refl]] sparse_page_run e by (metis snd_conv)
  show ?case
  proof (cases "limit \<le> p \<or> ?rows = []")
    case True
    then show ?thesis by (auto simp: flush_lane.simps[of c lane limit p n s] Let_def run_none)
  next
    case False
    show ?thesis
    proof (cases x)
      case None
      have "delivery_run c [] s1 (snd (snd (flush_lane c lane limit (p + length ?rows) m s1)))"
        using False None 1(2) run_position[OF r 1(3,4)] 1(4) e by (intro 1(1)[OF _ refl _ e[symmetric]]) auto
      with False None e run_comp[OF r] show ?thesis
        by (simp add: flush_lane.simps[of c lane limit p n s] Let_def)
    next
      case (Some y)
      with False e r show ?thesis by (simp add: flush_lane.simps[of c lane limit p n s] Let_def)
    qed
  qed
qed

text \<open>The global scanner only works on the shared tables.\<close>

lemma discover_run:
  "delivery_run c [] s (snd (snd (discover c blocked rs n s)))"
proof (induction rs arbitrary: blocked n s)
  case (Cons r rs)
  obtain ok x s1 where e: "discover_row c (blocked (dr_scope r)) r s = (ok, x, s1)"
    by (cases "discover_row c (blocked (dr_scope r)) r s") auto
  have "delivery_run c [] s s1" using run_shared[OF op_discover[of c s "blocked (dr_scope r)" r]] e by simp
  with e Cons show ?case by (cases x) (auto intro: run_comp)
qed (simp add: run_none)

lemma advance_run:
  assumes "Option.bind (begin_global c s) (advance_global_scan c n) = Some t"
  shows "delivery_run c [] s t"
  using run_shared[OF op_scan[OF assms]] .

lemma flush_discovery_run:
  "delivery_run c [] s (snd (snd (flush_discovery c limit s)))"
proof -
  obtain n x s1 where e: "discover c (\<lambda>k. dv_glanes s k \<noteq> None) (discovery_page limit s) 0 s = (n, x, s1)"
    by (cases "discover c (\<lambda>k. dv_glanes s k \<noteq> None) (discovery_page limit s) 0 s") auto
  have r: "delivery_run c [] s s1" using discover_run e by (metis snd_conv)
  show ?thesis
  proof (cases "Option.bind (begin_global c s1) (advance_global_scan c (dv_through s))")
    case None
    with e r show ?thesis by (cases x) (auto simp: flush_discovery_def Let_def run_none)
  next
    case (Some s2)
    with e r run_comp[OF r advance_run[OF Some]] show ?thesis
      by (cases x) (auto simp: flush_discovery_def Let_def run_none)
  qed
qed

lemma global_page_run:
  "delivery_run c [] s (snd (snd (each_row (deliver_global c) rs n s)))"
  by (rule each_row_inv) (auto intro: run_none run_comp run_shared op_global)

lemma flush_global_lanes_run:
  "delivery_run c [] s (snd (snd (flush_global_lanes c limit p n s)))"
proof (induction c limit p n s rule: flush_global_lanes.induct)
  case (1 c limit p n s)
  let ?rows = "global_due_rows c (limit - p) s"
  obtain m x s1 where e: "each_row (deliver_global c) ?rows n s = (m, x, s1)"
    by (cases "each_row (deliver_global c) ?rows n s") auto
  have r: "delivery_run c [] s s1" using global_page_run e by (metis snd_conv)
  show ?case
  proof (cases "limit \<le> p \<or> ?rows = []")
    case True
    then show ?thesis by (auto simp: flush_global_lanes.simps[of c limit p n s] Let_def run_none)
  next
    case False
    show ?thesis
    proof (cases x)
      case None
      have "delivery_run c [] s1 (snd (snd (flush_global_lanes c limit (p + length ?rows) m s1)))"
        using False None e by (intro 1[OF _ refl _ e[symmetric]]) auto
      with False None e run_comp[OF r] show ?thesis
        by (simp add: flush_global_lanes.simps[of c limit p n s] Let_def)
    next
      case (Some y)
      with False e r show ?thesis by (simp add: flush_global_lanes.simps[of c limit p n s] Let_def)
    qed
  qed
qed

lemma scan_and_recover_run:
  "delivery_run c [] s (snd (snd (scan_and_recover c limit s)))"
proof (cases "normalize_global c s")
  case None
  then show ?thesis by (simp add: scan_and_recover_def run_none)
next
  case (Some s1)
  have r1: "delivery_run c [] s s1" using run_shared[OF op_normalize[OF Some]] .
  obtain a x s2 where e: "flush_discovery c limit s1 = (a, x, s2)" by (cases "flush_discovery c limit s1") auto
  have r2: "delivery_run c [] s s2" using run_comp[OF r1 flush_discovery_run[of c s1 limit]] e by simp
  have "delivery_run c [] s (snd (snd (flush_global_lanes c k 0 0 s2)))" for k
    using run_comp[OF r2 flush_global_lanes_run] .
  with Some e r2 show ?thesis
    by (auto simp: scan_and_recover_def split: option.split prod.split) (metis snd_conv)+
qed

lemma flush_global_run: "delivery_run c [] s (snd (flush_global c limit s))"
proof -
  obtain ok s1 where e: "try_acquire_global c s = (ok, s1)" by (cases "try_acquire_global c s")
  have r1: "delivery_run c [] s s1" using run_shared[OF op_acquire[of c s]] e by simp
  obtain a x s2 where e2: "scan_and_recover c limit s1 = (a, x, s2)" by (cases "scan_and_recover c limit s1") auto
  have "delivery_run c [] s1 s2" using scan_and_recover_run[of c s1 limit] e2 by simp
  then have r2: "delivery_run c [] s (release_global c s2)"
    using run_comp[OF run_comp[OF r1] run_shared[OF op_release]] by blast
  show ?thesis
  proof (cases ok)
    case True
    obtain n p f where "a = (n, p, f)" by (cases a) auto
    with True e e2 r2 show ?thesis
      by (cases x) (auto simp: flush_global_def split: lease_lost.split)
  next
    case False
    with e r1 show ?thesis by (simp add: flush_global_def)
  qed
qed

lemma note_run: "delivery_run c [] s (s\<lparr>dv_saturated := e\<rparr>)"
  using run_shared[OF op_note[where c = c and s = s and e = e and x = "dv_next_cleanup s"]] by simp

lemma note_run2: "delivery_run c [] s (s\<lparr>dv_next_cleanup := x\<rparr>)"
  using run_shared[OF op_note[where c = c and s = s and e = "dv_saturated s" and x = x]] by simp

lemma flush_lanes_run:
  assumes "position_ok (oc_id c) s" "0 \<le> oc_ttl c"
  shows "delivery_run c [] s (snd (flush_lanes c limit s))"
proof -
  obtain a x s1 where e1: "flush_lane c SparseLane limit 0 0 s = (a, x, s1)"
    by (cases "flush_lane c SparseLane limit 0 0 s") auto
  have r1: "delivery_run c [] s s1" using flush_lane_run[of SparseLane c s limit 0 0] assms e1 by simp
  obtain gn gp f w s2 where e2: "flush_global c limit s1 = ((gn, gp, f, w), s2)"
    by (cases "flush_global c limit s1") auto
  have r2: "delivery_run c [] s s2" using run_comp[OF r1 flush_global_run[of c s1 limit]] e2 by simp
  note p2 = run_position[OF r2 assms]
  obtain b y s3 where e3: "flush_main c limit s2 = (b, y, s3)" by (cases "flush_main c limit s2") auto
  have r3: "delivery_run c [] s s3" using run_comp[OF r2 flush_main_run[OF p2 assms(2), of limit]] e3 by simp
  obtain d z s4 where e4: "flush_lane c ScopeLane limit 0 0 s3 = (d, z, s4)"
    by (cases "flush_lane c ScopeLane limit 0 0 s3") auto
  have r4: "delivery_run c [] s s4"
    using run_comp[OF r3 flush_lane_run[of ScopeLane c s3 limit 0 0]] run_position[OF r3 assms] assms(2) e4 by simp
  obtain a1 a2 b1 b2 d1 d2 where "a = (a1, a2)" "b = (b1, b2)" "d = (d1, d2)"
    by (cases a; cases b; cases d) auto
  with e1 e2 e3 e4 r1 r3 show ?thesis
    using run_comp[OF r2 note_run] run_comp[OF r4 note_run] r4
    by (cases x; cases y; cases z; cases f) (auto simp: flush_lanes_def Let_def)
qed

lemma cleanup_run: "delivery_run c [] s (cleanup_if_due c s)"
  using run_comp[OF note_run2 run_shared[OF op_prune]] by (auto simp: cleanup_if_due_def Let_def run_none)

lemma flush_outbox_run:
  assumes "position_ok (oc_id c) s" "0 \<le> oc_ttl c"
  shows "delivery_run c [] s (snd (flush_outbox c limit s))"
proof -
  let ?s1 = "s\<lparr>dv_saturated := False\<rparr>"
  let ?s2 = "ensure_consumer c ?s1 ?s1"
  have r2: "delivery_run c [] s ?s2" using run_comp[OF note_run run_shared[OF op_register]] .
  have r3: "delivery_run c [] s (snd (flush_lanes c (nat limit) ?s2))"
    using run_comp[OF r2 flush_lanes_run[OF run_position[OF r2 assms] assms(2)]] .
  obtain x s3 where e: "flush_lanes c (nat limit) ?s2 = (x, s3)" by (cases "flush_lanes c (nat limit) ?s2")
  with r3 run_comp[OF r3 cleanup_run] run_comp[OF r2 cleanup_run] show ?thesis
    by (cases x) (auto simp: flush_outbox_def Let_def run_none)
qed

lemma drain_loop_run:
  assumes "drain_loop c batch n s = Some y"
  shows "position_ok (oc_id c) s \<and> 0 \<le> oc_ttl c \<longrightarrow> delivery_run c [] s (snd y)"
proof (rule drain_loop.raw_induct[OF _ assms], intro impI, elim conjE)
  fix f and c :: dlv_cfg and batch n and s :: "'a dlv" and y
  assume IH: "\<And>c batch n s y. f c batch n s = Some y \<Longrightarrow>
      position_ok (oc_id c) s \<and> 0 \<le> oc_ttl c \<longrightarrow> delivery_run c [] (s :: 'a dlv) (snd y)"
    and body: "(case flush_outbox c batch s of
        (Inl e, s1) \<Rightarrow> Some (Inl e, s1)
      | (Inr m, s1) \<Rightarrow> if dv_cursor s < dv_cursor s1 \<or> dv_saturated s1 \<or> batch \<le> int m
          then f c batch (n + m) s1 else Some (Inr (n + m), s1)) = Some y"
    and pos: "position_ok (oc_id c) s" "0 \<le> oc_ttl c"
  obtain x s1 where e: "flush_outbox c batch s = (x, s1)" by (cases "flush_outbox c batch s")
  have r: "delivery_run c [] s s1" using flush_outbox_run[OF pos, of batch] e by simp
  show "delivery_run c [] s (snd y)"
  proof (cases x)
    case (Inl z)
    with body e r show ?thesis by auto
  next
    case (Inr m)
    show ?thesis
    proof (cases "dv_cursor s < dv_cursor s1 \<or> dv_saturated s1 \<or> batch \<le> int m")
      case True
      with body e Inr have "f c batch (n + m) s1 = Some y" by simp
      from IH[OF this] run_position[OF r pos] pos(2) show ?thesis by (blast intro: run_comp[OF r])
    next
      case False
      with body e Inr r show ?thesis by auto
    qed
  qed
qed

lemma drain_outbox_run:
  assumes "drain_outbox c batch s = Some y" "position_ok (oc_id c) s" "0 \<le> oc_ttl c"
  shows "delivery_run c [] s (snd y)"
  using assms drain_loop_run[of c batch 0 s y] by (auto simp: drain_outbox_def run_none split: if_splits)

section \<open>A healthy flush\<close>

text \<open>No row waits for recovery and no scope waits for a stream of the bus.\<close>

definition healthy :: "dlv_cfg \<Rightarrow> 'k dlv \<Rightarrow> bool" where
  "healthy c s \<longleftrightarrow> dv_lanes s (oc_id c) = Map.empty \<and> dv_glanes s = Map.empty \<and>
     dv_sparse s (oc_id c) = Map.empty \<and> bs_waiters (dv_bus s) = []"

definition deliverable :: "'k dlv \<Rightarrow> 'k dlv_row \<Rightarrow> bool" where
  "deliverable s q \<longleftrightarrow> dr_type q \<in> set echo_event_types \<and> the_stream (dr_scope q) (dv_bus s) \<noteq> None"

definition all_deliverable :: "'k dlv \<Rightarrow> bool" where
  "all_deliverable s \<longleftrightarrow> (\<forall>q \<in> set (dv_rows s). deliverable s q)"

lemma publish_to_open:
  assumes "bs_waiters b = []" "the_stream k b \<noteq> None"
  obtains b' where "publish_to c now k ev b = (Inr (), b')" "bs_waiters b' = []"
    "\<And>j. the_stream j b \<noteq> None \<Longrightarrow> the_stream j b' \<noteq> None"
proof -
  obtain st where st: "the_stream k b = Some st" using assms(2) by blast
  define b1 where "b1 = b\<lparr>bs_waiters := []\<rparr>"
  define b2 where "b2 = b1\<lparr>bs_streams := AList.delete k (bs_streams b1) @ [(k, st)]\<rparr>"
  have g: "grant_waiters c b = (None, b1)" by (simp add: grant_waiters_def assms(1) b1_def)
  have l: "stream_locked c k b1 = Inr b2" using st by (simp add: stream_locked_def b1_def b2_def the_stream_def)
  obtain e s where cm: "commit c k ev (the (the_stream k b2)) = (e, s)" by (cases "commit c k ev (the (the_stream k b2))")
  show thesis
  proof (rule that)
    show "publish_to c now k ev b = (Inr (), fan_out c now k s e b2)" by (simp add: publish_to_def g l cm)
    show "bs_waiters (fan_out c now k s e b2) = []" by (simp add: fan_out_def put_stream_def b2_def b1_def)
    show "the_stream j (fan_out c now k s e b2) \<noteq> None" if "the_stream j b \<noteq> None" for j
      using that
      by (auto simp: the_stream_def fan_out_def put_stream_def b2_def b1_def update_conv' delete_conv' map_add_def)
  qed
qed

lemma advance_sel2 [simp]:
  "dv_glanes (advance_outbox_cursor c n s) = dv_glanes s" "dv_sparse (advance_outbox_cursor c n s) = dv_sparse s"
  "dv_bus (advance_outbox_cursor c n s) = dv_bus s" "dv_bus (set_row n f s) = dv_bus s"
  "dv_rows (advance_outbox_cursor c n s) = dv_rows s"
  by (simp_all add: advance_outbox_cursor_def Let_def set_consumer_def set_row_def)

lemma main_row_healthy:
  assumes "healthy c s" "deliverable s r"
  obtains t where "main_row c r s = (True, None, t)" "healthy c t" "\<And>q. deliverable s q \<Longrightarrow> deliverable t q"
    "all_deliverable s \<Longrightarrow> all_deliverable t" "dv_scan t = dv_scan s \<and> dv_through t = dv_through s"
proof -
  let ?ev = "\<lparr>ee_type = dr_type r, ee_meeting_id = dr_meeting r, ee_payload = dr_payload r, ee_ts = clock_now c s\<rparr>"
  have w: "bs_waiters (dv_bus s) = []" "the_stream (dr_scope r) (dv_bus s) \<noteq> None"
    using assms by (auto simp: healthy_def deliverable_def)
  obtain b where b: "publish_to (oc_bus c) (clock_now c s) (dr_scope r) ?ev (dv_bus s) = (Inr (), b)"
    "bs_waiters b = []" "\<And>j. the_stream j (dv_bus s) \<noteq> None \<Longrightarrow> the_stream j b \<noteq> None"
    by (rule publish_to_open[OF w, where c = "oc_bus c" and now = "clock_now c s" and ev = ?ev]) (rule that)
  define s1 where "s1 = s\<lparr>dv_tries := dv_tries s + 1, dv_bus := b, dv_trace := dv_trace s @ [(MainLane, dr_scope r, dr_id r)]\<rparr>"
  have p: "publish_outbox_row c MainLane r s = (None, s1)"
    using assms(2) b(1) by (simp add: publish_outbox_row_def deliverable_def s1_def)
  have "\<not> has_earlier_scope_recovery c r s"
    using assms(1) by (simp add: has_earlier_scope_recovery_def healthy_def lane_before_def sparse_before_def)
  then have "main_row c r s =
      (True, None, advance_outbox_cursor c (dr_id r) (set_row (dr_id r) (row_published (clock_now c s1)) s1))"
    by (simp add: main_row_def deliver_row_def p mark_outbox_published_def)
  then show thesis
    by (rule that) (use assms b(2,3) in \<open>auto simp: healthy_def deliverable_def all_deliverable_def s1_def
        set_row_def update_where_def row_published_def advance_outbox_cursor_def Let_def set_consumer_def\<close>)
qed

lemma main_page_healthy:
  assumes "healthy c s" "\<forall>r \<in> set rs. deliverable s r" "position_ok (oc_id c) s" "0 \<le> oc_ttl c"
    and "map key rs = take (length rs) (filter (\<lambda>p. dv_cursor s < fst p) (shape s))"
  shows "\<exists>t. each_row (main_row c) rs n s = (n + length rs, None, t) \<and> healthy c t \<and>
     filter (\<lambda>p. dv_cursor t < fst p) (shape t) = drop (length rs) (filter (\<lambda>p. dv_cursor s < fst p) (shape s)) \<and>
     (all_deliverable s \<longrightarrow> all_deliverable t) \<and> dv_scan t = dv_scan s \<and> dv_through t = dv_through s"
  using assms
proof (induction rs arbitrary: n s)
  case (Cons r rs)
  obtain s1 where s1: "main_row c r s = (True, None, s1)" "healthy c s1" "\<And>q. deliverable s q \<Longrightarrow> deliverable s1 q"
    "all_deliverable s \<longrightarrow> all_deliverable s1" "dv_scan s1 = dv_scan s \<and> dv_through s1 = dv_through s"
    using main_row_healthy[OF Cons.prems(1)] Cons.prems(2) by (metis list.set_intros(1))
  have srt: "sorted_wrt (<) (map fst (shape s))" and
    cur: "map_option cn_cursor (map_of (dv_consumers s) (oc_id c)) = Some (dv_cursor s)"
    using Cons.prems(3) unfolding position_ok_def by blast+
  obtain ps where ps: "filter (\<lambda>p. dv_cursor s < fst p) (shape s) = key r # ps" "map key rs = take (length rs) ps"
    using Cons.prems(5) by (cases "filter (\<lambda>p. dv_cursor s < fst p) (shape s)") auto
  have "map key (main_page 1 s) = [key r]" using main_page_key[OF srt, of 1] ps(1) by simp
  then have nm: "next_main s r" by (simp add: next_main_def key_def[abs_def])
  have "position_ok (oc_id c) s1"
    using delivery_step_ok[OF step_main[OF nm, of c] Cons.prems(3,4)] s1(1) by simp
  moreover have mv: "shape s1 = shape s" "dv_cursor s1 = dr_id r"
    using main_row_result(1)[OF cur less_imp_le[OF next_mainD(2)[OF nm]] refl] s1 by (auto simp: moved_def)
  moreover have f: "filter (\<lambda>p. dv_cursor s1 < fst p) (shape s1) = ps"
    using sorted_filter_tail[OF srt ps(1)] by (simp add: mv key_def)
  ultimately obtain t where "each_row (main_row c) rs (n + 1) s1 = (n + 1 + length rs, None, t)" "healthy c t"
    "filter (\<lambda>p. dv_cursor t < fst p) (shape t) = drop (length rs) ps"
    "all_deliverable s1 \<longrightarrow> all_deliverable t" "dv_scan t = dv_scan s1" "dv_through t = dv_through s1"
    using Cons.IH[of s1 "n + 1"] s1(2,3) Cons.prems(2,4) ps(2) by auto
  with s1 ps(1) show ?case by simp
qed simp

section \<open>The fence of the global scanner\<close>

text \<open>What a scanner may write.\<close>

definition same_tables :: "'k dlv \<Rightarrow> 'k dlv \<Rightarrow> bool" where
  "same_tables s t \<longleftrightarrow> dv_rows t = dv_rows s \<and> dv_sparse t = dv_sparse s \<and> dv_glanes t = dv_glanes s \<and>
     dv_scan t = dv_scan s \<and> dv_lease_owner t = dv_lease_owner s \<and> dv_lease_fence t = dv_lease_fence s \<and>
     dv_lease_expires t = dv_lease_expires s \<and> dv_failed_owner t = dv_failed_owner s"

definition fenced_out :: "dlv_cfg \<Rightarrow> 'k dlv \<Rightarrow> bool" where
  "fenced_out c s \<longleftrightarrow> dv_lease_owner s \<noteq> Some (oc_owner c) \<or> dv_fence s \<noteq> Some (dv_lease_fence s)"

lemma fenced_out_loses:
  assumes "fenced_out c s"
  shows "begin_global c s = None" "advance_global_scan c n s = None"
  using assms by (auto simp: fenced_out_def begin_global_def advance_global_scan_def owns_global_lease_def split: option.splits)

lemma publish_same_tables:
  assumes "publish_outbox_row c lane r s = (err, t)"
  shows "same_tables s t" "fenced_out c t = fenced_out c s"
  using assms
  by (auto simp: publish_outbox_row_def Let_def same_tables_def fenced_out_def split: if_splits prod.splits sum.splits)

section \<open>Properties\<close>



text \<open>
  A drain loses nothing: if \<open>drain_outbox\<close> returns, with a count or with an error, the rows
  that a scope has been sent and those it is still owed are together what they were before, in
  the same order, and the process can go on from where it stands.
\<close>

theorem drain_loses_nothing:
  assumes "drain_outbox c batch s = Some (x, t)" "position_ok (oc_id c) s" "0 \<le> oc_ttl c"
  shows "sent t k @ owed (oc_id c) t k = sent s k @ owed (oc_id c) s k \<and> position_ok (oc_id c) t"
  using run_history[OF drain_outbox_run[OF assms] assms(2,3), of k] run_position[OF drain_outbox_run[OF assms] assms(2,3)]
  by simp

text \<open>
  C35.  A healthy flush delivers everything: when no row waits for recovery, the bus has a
  stream for every scope and the types are known, one pass of the main lane with a sufficient
  limit publishes every row after the cursor, reports no error and owes nothing afterwards.
\<close>

theorem healthy_flush_delivers:
  assumes "healthy c s" "position_ok (oc_id c) s" "0 \<le> oc_ttl c"
    and "all_deliverable s" "length (dv_rows s) \<le> limit"
  shows "\<exists>t. flush_main c limit s =
      ((length (filter (\<lambda>q. dv_cursor s < dr_id q) (dv_rows s)), length (filter (\<lambda>q. dv_cursor s < dr_id q) (dv_rows s))), None, t) \<and>
    (\<forall>k. owed (oc_id c) t k = [] \<and> sent t k = sent s k @ owed (oc_id c) s k)"
proof -
  let ?rs = "main_page limit s"
  have srt: "sorted_wrt (<) (map fst (shape s))" using assms(2) unfolding position_ok_def by blast
  have len: "length (filter (\<lambda>p. dv_cursor s < fst p) (shape s)) = length (filter (\<lambda>q. dv_cursor s < dr_id q) (dv_rows s))"
    by (simp add: shape_def filter_map comp_def)
  then have le: "length (filter (\<lambda>p. dv_cursor s < fst p) (shape s)) \<le> limit"
    using assms(5) by (metis length_filter_le le_trans)
  then have all: "map key ?rs = filter (\<lambda>p. dv_cursor s < fst p) (shape s)"
    using main_page_key[OF srt, of limit] by simp
  then have n: "length ?rs = length (filter (\<lambda>q. dv_cursor s < dr_id q) (dv_rows s))"
    using len by (metis length_map)
  have "deliverable s r" if "r \<in> set ?rs" for r
    using in_set_takeD[OF that[unfolded main_page_def]] assms(4) by (auto simp: all_deliverable_def)
  then obtain t where t: "each_row (main_row c) ?rs 0 s = (0 + length ?rs, None, t)" "healthy c t"
    "filter (\<lambda>p. dv_cursor t < fst p) (shape t) = drop (length ?rs) (filter (\<lambda>p. dv_cursor s < fst p) (shape s))"
    using main_page_healthy[OF assms(1) _ assms(2,3), of ?rs 0] all len n by auto
  have f: "flush_main c limit s = ((length ?rs, length ?rs), None, t)" by (simp add: flush_main_def t(1) Let_def)
  have run: "delivery_run c [] s t" using flush_main_run[OF assms(2,3), of limit] f by simp
  have "db_cursor (oc_id c) t = dv_cursor t"
    by (rule db_cursor_SomeI) (use run_position[OF run assms(2,3)] in \<open>unfold position_ok_def, elim conjE\<close>)
  then have "owed (oc_id c) t k = []" for k
    using t(2,3) len n by (auto simp: owed_def frontier_def healthy_def Suc_le_eq filter_empty_conv)
  with f n run_history[OF run assms(2,3)] show ?thesis by auto
qed


text \<open>
  C37.  A superseded scanner writes nothing: a process whose lease of the global recovery has
  passed to another owner or to a newer fence loses it at the next row, discovered or retried,
  published or not, and leaves the rows, the recovery lanes, the scan position and the lease
  as they are.
\<close>

theorem superseded_scanner_writes_nothing:
  assumes "fenced_out c s"
  shows "fst (snd (deliver_global c r s)) = Some LeaseLost \<and> same_tables s (snd (snd (deliver_global c r s))) \<and>
    fst (snd (discover_row c b r s)) = Some LeaseLost \<and> same_tables s (snd (snd (discover_row c b r s)))"
proof -
  obtain err t where p: "publish_outbox_row c GlobalLane r s = (err, t)" by (cases "publish_outbox_row c GlobalLane r s")
  note t = publish_same_tables[OF p]
  have "begin_global c t = None" "begin_global c s = None"
    using fenced_out_loses(1) assms t(2) by auto
  moreover have "same_tables s s" by (simp add: same_tables_def)
  ultimately show ?thesis
    using t(1) by (cases err)
      (auto simp: deliver_global_def discover_row_def p or_lost_def mark_global_failed_def mark_global_published_def)
qed

section \<open>A demonstration\<close>

text \<open>
  Two tenants' rows 1 and 3, and a row 2 whose type the bus does not know; the process \<open>a\<close>
  has registered before them.  The clock stands still.
\<close>

definition demo_cfg :: dlv_cfg where
  "demo_cfg = \<lparr>oc_bus = \<lparr>bc_cap = 8, bc_replay = 8, bc_max_streams = 4, bc_max_waiters = 4, bc_uuid = (\<lambda>_. ''e'')\<rparr>,
     oc_id = ''a'', oc_owner = ''o'', oc_clock = (\<lambda>_. 0), oc_mono = (\<lambda>_. 0), oc_invalid = (\<lambda>_. ''invalid''),
     oc_window = 0, oc_ttl = 60, oc_retention = 60, oc_max_rows = 10, oc_cleanup = 60\<rparr>"

definition demo_row :: "nat \<Rightarrow> string \<Rightarrow> string \<Rightarrow> string dlv_row" where
  "demo_row n k ty = \<lparr>dr_id = n, dr_scope = k, dr_type = ty, dr_meeting = None, dr_payload = [],
     dr_published = None, dr_attempts = 0, dr_error = None\<rparr>"

definition demo_out :: "string dlv_row list \<Rightarrow> string dlv" where
  "demo_out rows = \<lparr>dv_rows = rows, dv_seq = 3, dv_consumers = [(''a'', \<lparr>cn_cursor = 0, cn_heartbeat = 0\<rparr>)],
     dv_lanes = (\<lambda>_ _. None), dv_sparse = (\<lambda>_ _. None), dv_glanes = (\<lambda>_. None), dv_scan = 0, dv_through = 0,
     dv_lease_owner = None, dv_lease_fence = 0, dv_lease_expires = 0, dv_failed_owner = None, dv_failed_retry = 0,
     dv_cursor = 0, dv_registered = True, dv_fence = None, dv_saturated = False, dv_next_cleanup = 1,
     dv_bus = \<lparr>bs_streams = [(''k'', new_stream ''e'')], bs_waiters = [], bs_grants = Map.empty,
       bs_futures = (\<lambda>_. Waiting), bs_queues = (\<lambda>_. []), bs_next = 0\<rparr>, dv_tries = 0, dv_trace = []\<rparr>"

definition demo_mixed :: "string dlv" where
  "demo_mixed = demo_out [demo_row 1 ''k'' ''chat.delta'', demo_row 2 ''j'' ''bad'', demo_row 3 ''k'' ''chat.done'']"

lemma demo_position: "position_ok (oc_id demo_cfg) demo_mixed" "0 \<le> oc_ttl demo_cfg" "sent demo_mixed = (\<lambda>_. [])"
  by (simp_all add: position_ok_def demo_mixed_def demo_out_def demo_cfg_def demo_row_def shape_def sent_def fun_eq_iff)

definition demo_flushed :: "string dlv" where
  "demo_flushed = snd (flush_outbox demo_cfg 10 demo_mixed)"



lemma demo_drain:
  "drain_outbox demo_cfg 10 demo_mixed = Some (Inr 2, snd (flush_outbox demo_cfg 10 demo_flushed))"
proof -
  have 1: "flush_outbox demo_cfg 10 demo_mixed = (Inr 2, demo_flushed)"
  proof (rule prod_eqI)
    show "fst (flush_outbox demo_cfg 10 demo_mixed) = fst (Inr 2, demo_flushed)" by code_simp
    show "snd (flush_outbox demo_cfg 10 demo_mixed) = snd (Inr 2 :: py_error + nat, demo_flushed)"
      by (simp add: demo_flushed_def)
  qed
  have 2: "flush_outbox demo_cfg 10 demo_flushed = (Inr 0, snd (flush_outbox demo_cfg 10 demo_flushed))"
  proof (rule prod_eqI)
    show "fst (flush_outbox demo_cfg 10 demo_flushed) = fst (Inr 0, snd (flush_outbox demo_cfg 10 demo_flushed))"
      by code_simp
  qed simp
  have 3: "dv_cursor demo_mixed < dv_cursor demo_flushed" by code_simp
  have 4: "\<not> dv_cursor demo_flushed < dv_cursor (snd (flush_outbox demo_cfg 10 demo_flushed))"
    "\<not> dv_saturated (snd (flush_outbox demo_cfg 10 demo_flushed))" by code_simp+
  have "drain_loop demo_cfg 10 2 demo_flushed = Some (Inr 2, snd (flush_outbox demo_cfg 10 demo_flushed))"
    using 4 by (subst drain_loop.simps, subst 2) simp
  then have "drain_loop demo_cfg 10 0 demo_mixed = Some (Inr 2, snd (flush_outbox demo_cfg 10 demo_flushed))"
    using 3 by (subst drain_loop.simps, subst 1) (simp add: numeral_2_eq_2)
  then show ?thesis by (simp add: drain_outbox_def)
qed

lemma drain_loses_nothing_witness:
  "sent (snd (the (drain_outbox demo_cfg 10 demo_mixed))) ''j'' @
     owed ''a'' (snd (the (drain_outbox demo_cfg 10 demo_mixed))) ''j'' = [2]"
proof -
  from drain_loses_nothing[OF demo_drain demo_position(1,2), of "''j''"]
  have "sent (snd (flush_outbox demo_cfg 10 demo_flushed)) ''j'' @
      owed ''a'' (snd (flush_outbox demo_cfg 10 demo_flushed)) ''j'' = sent demo_mixed ''j'' @ owed ''a'' demo_mixed ''j''"
    by (simp add: demo_cfg_def)
  moreover have "sent demo_mixed ''j'' @ owed ''a'' demo_mixed ''j'' = [2]" by code_simp
  ultimately show ?thesis by (simp add: demo_drain)
qed

definition demo_ok :: "string dlv" where
  "demo_ok = demo_out [demo_row 1 ''k'' ''chat.delta'', demo_row 3 ''k'' ''chat.done'']"

lemma healthy_flush_delivers_witness:
  "fst (flush_main demo_cfg 10 demo_ok) = (2, 2) \<and> owed ''a'' (snd (snd (flush_main demo_cfg 10 demo_ok))) ''k'' = [] \<and>
   sent (snd (snd (flush_main demo_cfg 10 demo_ok))) ''k'' = [1, 3]"
proof -
  have h: "healthy demo_cfg demo_ok" "position_ok (oc_id demo_cfg) demo_ok"
    by (simp_all add: healthy_def demo_ok_def demo_out_def demo_cfg_def position_ok_def demo_row_def shape_def)
  have d: "all_deliverable demo_ok"
    by (simp add: all_deliverable_def deliverable_def demo_ok_def demo_out_def demo_row_def echo_event_types_def the_stream_def)
  have l: "length (dv_rows demo_ok) \<le> 10" "length (filter (\<lambda>q. dv_cursor demo_ok < dr_id q) (dv_rows demo_ok)) = 2"
    "sent demo_ok ''k'' @ owed ''a'' demo_ok ''k'' = [1, 3]" "oc_id demo_cfg = ''a''" by code_simp+
  obtain t where "flush_main demo_cfg 10 demo_ok = ((2, 2), None, t)"
    "owed (oc_id demo_cfg) t ''k'' = []" "sent t ''k'' = sent demo_ok ''k'' @ owed (oc_id demo_cfg) demo_ok ''k''"
    using healthy_flush_delivers[OF h demo_position(2) d l(1)] unfolding l(2) by blast
  with l(3,4) show ?thesis by simp
qed

definition demo_pruner :: dlv_cfg where
  "demo_pruner = demo_cfg\<lparr>oc_id := ''b'', oc_max_rows := 1\<rparr>"


definition demo_superseded :: "string dlv" where
  "demo_superseded = demo_mixed\<lparr>dv_fence := Some 1, dv_lease_owner := Some ''p'', dv_lease_fence := 2, dv_lease_expires := 9\<rparr>"

lemma superseded_scanner_writes_nothing_witness:
  "fst (snd (deliver_global demo_cfg (demo_row 1 ''k'' ''chat.delta'') demo_superseded)) = Some LeaseLost \<and>
   dv_rows (snd (snd (discover_row demo_cfg False (demo_row 1 ''k'' ''chat.delta'') demo_superseded))) = dv_rows demo_mixed"
proof -
  have "fenced_out demo_cfg demo_superseded" by (simp add: fenced_out_def demo_superseded_def demo_cfg_def)
  from superseded_scanner_writes_nothing[OF this, of "demo_row 1 ''k'' ''chat.delta''" False]
  show ?thesis by (simp add: same_tables_def demo_superseded_def)
qed

end
