(* ===== verification/OutboxDrain.thy ===== *)
theory OutboxDrain
  imports OutboxProps
begin

text \<open>
  Termination of \<open>drain_outbox\<close> (\<open>backend/app/workflows/service.py\<close>): with nothing in recovery
  and a bus that has every scope's stream, each flush moves the cursor over a page of the rows
  that are left, and the loop ends after the last one.
\<close>

definition pending :: "'k dlv \<Rightarrow> nat" where
  "pending s = length (filter (\<lambda>p. dv_cursor s < fst p) (shape s))"

text \<open>Everything that the health of a process depends on.\<close>

definition drainable :: "dlv_cfg \<Rightarrow> 'k dlv \<Rightarrow> bool" where
  "drainable c s \<longleftrightarrow> healthy c s \<and> position_ok (oc_id c) s \<and> scan_complete s \<and> all_deliverable s"

definition same_health :: "dlv_cfg \<Rightarrow> 'k dlv \<Rightarrow> 'k dlv \<Rightarrow> bool" where
  "same_health c s t \<longleftrightarrow> dv_lanes t (oc_id c) = dv_lanes s (oc_id c) \<and> dv_glanes t = dv_glanes s \<and>
     dv_sparse t (oc_id c) = dv_sparse s (oc_id c) \<and> dv_bus t = dv_bus s \<and> dv_scan t = dv_scan s \<and>
     dv_through t = dv_through s \<and> set (dv_rows t) \<subseteq> set (dv_rows s)"

lemma drainable_same:
  assumes "drainable c s" "same_health c s t" "delivery_run c [] s t" "0 \<le> oc_ttl c"
  shows "drainable c t"
  using assms(1,2) run_position[OF assms(3) _ assms(4)]
  by (auto simp: drainable_def same_health_def healthy_def deliverable_def all_deliverable_def scan_complete_def)

lemma pending_owed:
  assumes "drainable c s" "trimmed (oc_id c) s t" "dv_cursor t = dv_cursor s"
  shows "pending t = pending s"
proof -
  have "map_option cn_cursor (map_of (dv_consumers s) (oc_id c)) = Some (dv_cursor s)"
    using assms(1) unfolding drainable_def position_ok_def by blast
  then have "frontier (oc_id c) s k = Suc (dv_cursor s)" for k
    using assms(1) db_cursor_SomeI[of s "oc_id c"] by (simp add: frontier_def drainable_def healthy_def)
  then have "filter (\<lambda>p. dv_cursor s < fst p) (shape t) = filter (\<lambda>p. dv_cursor s < fst p) (shape s)"
    using assms(2) by (simp add: trimmed_def Suc_le_eq)
  with assms(3) show ?thesis by (simp add: pending_def)
qed

section \<open>One flush\<close>

text \<open>No lane has a due row, and the scanner only takes and releases its lease.\<close>

lemma no_due_rows:
  assumes "healthy c s" "lane = SparseLane \<or> lane = ScopeLane"
  shows "flush_lane c lane limit 0 0 s = ((0, 0), None, s)"
proof -
  have "due_rows c lane limit s = []"
    using assms by (auto simp: due_rows_def healthy_def sparse_due_def scope_due_def due_def head_due_def)
  then show ?thesis by (simp add: flush_lane.simps[of c lane limit 0 0 s] Let_def)
qed

lemma idle_scanner:
  assumes "drainable c s"
  obtains a t where "flush_global c limit s = ((0, 0, True, a), t)" "same_health c s t" "dv_cursor t = dv_cursor s"
    "dv_rows t = dv_rows s"
proof (cases "try_acquire_global c s")
  case (Pair ok s1)
  have d: "dv_glanes s1 = Map.empty" "scan_complete s1" "same_health c s s1" "dv_cursor s1 = dv_cursor s" "dv_rows s1 = dv_rows s"
    using Pair assms by (auto simp: try_acquire_global_def Let_def drainable_def healthy_def scan_complete_def same_health_def split: if_splits)
  have rel: "same_health c s (release_global c u)" "dv_cursor (release_global c u) = dv_cursor u" "dv_rows (release_global c u) = dv_rows u"
    if "same_health c s u" for u
    using that by (auto simp: release_global_def same_health_def split: option.split)
  show thesis
  proof (cases ok)
    case False
    with Pair d have "flush_global c limit s = ((0, 0, True, False), s1)" by (simp add: flush_global_def)
    with d show thesis by (blast intro: that)
  next
    case True
    have own: "owns_global_lease c s1"
      using Pair True by (auto simp: try_acquire_global_def Let_def owns_global_lease_def clock_now_def global_lease_s_def split: if_splits)
    define s2 where "s2 = s1\<lparr>dv_glanes := normal_lane s1, dv_lease_expires := clock_now c s1 + global_lease_s\<rparr>"
    have nl: "normal_lane s1 = Map.empty" using d(1) by (simp add: normal_lane_def fun_eq_iff)
    have "normalize_global c s1 = Some s2"
      using own by (simp add: normalize_global_def begin_global_def renew_global_def s2_def owns_global_lease_def
          clock_now_def split: option.splits)
    moreover have s2: "dv_glanes s2 = Map.empty" "scan_complete s2" "same_health c s s2" "dv_cursor s2 = dv_cursor s"
      "dv_rows s2 = dv_rows s"
      using d nl by (auto simp: s2_def scan_complete_def same_health_def)
    moreover have "flush_global_lanes c limit 0 0 s2 = ((0, 0), None, s2)"
      using s2(1) by (simp add: flush_global_lanes.simps[of c limit 0 0 s2] global_due_rows_def head_due_def)
    ultimately have "flush_global c limit s = ((0, 0, True, True), release_global c s2)"
      using Pair True by (simp add: flush_global_def scan_and_recover_def flush_discovery_def)
    from that[OF this rel(1)[OF s2(3)]] rel(2,3)[OF s2(3)] s2(4,5) show thesis by simp
  qed
qed

lemma main_pass:
  assumes "drainable c s" "0 \<le> oc_ttl c"
  obtains t where "flush_main c limit s = ((min limit (pending s), min limit (pending s)), None, t)" "drainable c t"
    "pending t = pending s - min limit (pending s)" "pending s = 0 \<longrightarrow> t = s"
proof -
  let ?rs = "main_page limit s"
  have h: "healthy c s" "position_ok (oc_id c) s" "all_deliverable s" "scan_complete s"
    using assms(1) by (auto simp: drainable_def)
  have srt: "sorted_wrt (<) (map fst (shape s))" using h(2) unfolding position_ok_def by blast
  have keys: "map key ?rs = take limit (filter (\<lambda>p. dv_cursor s < fst p) (shape s))" by (rule main_page_key[OF srt])
  then have len: "length ?rs = min limit (pending s)"
    by (metis length_map length_take min.commute pending_def)
  have "map key ?rs = take (length ?rs) (filter (\<lambda>p. dv_cursor s < fst p) (shape s))"
    unfolding keys len pending_def by (simp add: min_def)
  moreover have "\<forall>r \<in> set ?rs. deliverable s r"
    using h(3) by (auto simp: main_page_def all_deliverable_def dest!: in_set_takeD)
  ultimately obtain t where t: "each_row (main_row c) ?rs 0 s = (0 + length ?rs, None, t)" "healthy c t"
    "filter (\<lambda>p. dv_cursor t < fst p) (shape t) = drop (length ?rs) (filter (\<lambda>p. dv_cursor s < fst p) (shape s))"
    "all_deliverable t" "dv_scan t = dv_scan s" "dv_through t = dv_through s"
    using main_page_healthy[OF h(1) _ h(2) assms(2), of ?rs 0] h(3) by blast
  have f: "flush_main c limit s = ((length ?rs, length ?rs), None, t)" by (simp add: flush_main_def t(1) Let_def)
  have "position_ok (oc_id c) t"
    using run_position[OF flush_main_run[OF h(2) assms(2), of limit] h(2) assms(2)] by (simp add: f)
  then have "drainable c t" using t h(4) by (simp add: drainable_def scan_complete_def)
  moreover have "pending t = pending s - min limit (pending s)" using t(3) by (simp add: pending_def len)
  moreover have "pending s = 0 \<longrightarrow> t = s" using t(1) len by auto
  ultimately show thesis using that f len by metis
qed

lemma ensure_drainable:
  assumes "drainable c s" "0 \<le> oc_ttl c" and t: "t = ensure_consumer c s s"
  shows "drainable c t" "pending t = pending s" "dv_cursor t = dv_cursor s"
proof -
  have pos: "position_ok (oc_id c) s" using assms(1) by (simp add: drainable_def)
  obtain n where n: "map_of (dv_consumers s) (oc_id c) = Some n" using pos by (auto simp: position_ok_def)
  then have sh: "same_health c s t"
    by (auto simp: t same_health_def ensure_consumer_def beat_def set_consumer_def)
  show "drainable c t"
    using drainable_same[OF assms(1) sh _ assms(2)] run_shared[OF op_register[of c s s]] t by simp
  show cur: "dv_cursor t = dv_cursor s" using ensure_own(2)[OF pos] by (simp add: quiet_def t)
  show "pending t = pending s"
    using pending_owed[OF assms(1) kept_trimmed[OF ensure_own(1)[OF pos]]] cur by (simp add: t)
qed

lemma prune_drainable:
  assumes "drainable c s" "0 \<le> oc_ttl c"
  shows "drainable c (snd (prune_outbox c s))" "pending (snd (prune_outbox c s)) = pending s"
    "dv_cursor (snd (prune_outbox c s)) = dv_cursor s" "dv_saturated (snd (prune_outbox c s)) = dv_saturated s"
proof -
  let ?t = "snd (prune_outbox c s)"
  have pos: "position_ok (oc_id c) s" using assms(1) by (simp add: drainable_def)
  obtain n where n: "map_of (dv_consumers s) (oc_id c) = Some n" using pos by (auto simp: position_ok_def)
  note fr = shared_op_frame[OF op_prune pos assms(2)]
  have cur: "dv_cursor ?t = dv_cursor s" using fr(2) by (simp add: quiet_def)
  have "set (dv_rows ?t) \<subseteq> set (dv_rows s)" "dv_glanes ?t = dv_glanes s" "dv_bus ?t = dv_bus s"
    "dv_scan ?t = dv_scan s" "dv_through ?t = dv_through s" and sat: "dv_saturated ?t = dv_saturated s"
    and "dv_sparse ?t (oc_id c) = dv_sparse s (oc_id c) \<or> dv_sparse ?t (oc_id c) = Map.empty"
    using n by (auto simp: prune_outbox_def Let_def drop_consumers_def ensure_consumer_def beat_def set_consumer_def)
  moreover have "dv_lanes ?t (oc_id c) = dv_lanes s (oc_id c)" using fr(1) by (simp add: trimmed_def)
  moreover have "position_ok (oc_id c) ?t" using position_trimmed[OF pos fr(1) cur] .
  ultimately show "drainable c ?t"
    using assms(1) by (auto simp: drainable_def healthy_def scan_complete_def all_deliverable_def deliverable_def)
  show "dv_cursor ?t = dv_cursor s" "dv_saturated ?t = dv_saturated s" by (fact cur) (fact sat)
  show "pending ?t = pending s" using pending_owed[OF assms(1) fr(1) cur] .
qed

lemma note_position [simp]:
  "position_ok i (s\<lparr>dv_saturated := e\<rparr>) = position_ok i s"
  "position_ok i (s\<lparr>dv_next_cleanup := x\<rparr>) = position_ok i s"
  by (simp_all add: position_ok_def shape_def)

lemma note_drainable:
  "drainable c s \<Longrightarrow> drainable c (s\<lparr>dv_saturated := e\<rparr>)" "pending (s\<lparr>dv_saturated := e\<rparr>) = pending s"
  "drainable c s \<Longrightarrow> drainable c (s\<lparr>dv_next_cleanup := x\<rparr>)" "pending (s\<lparr>dv_next_cleanup := x\<rparr>) = pending s"
  by (simp_all add: drainable_def healthy_def shape_def scan_complete_def all_deliverable_def
      deliverable_def pending_def)

lemma cleanup_drainable:
  assumes "drainable c s" "0 \<le> oc_ttl c"
  shows "drainable c (cleanup_if_due c s)" "pending (cleanup_if_due c s) = pending s"
    "dv_cursor (cleanup_if_due c s) = dv_cursor s" "dv_saturated (cleanup_if_due c s) = dv_saturated s"
  using assms prune_drainable[OF note_drainable(3)[OF assms(1)] assms(2)]
  by (simp_all add: cleanup_if_due_def Let_def note_drainable)

text \<open>A flush delivers a page, or everything that is left.\<close>

lemma flush_drains:
  assumes "drainable c s" "0 \<le> oc_ttl c" "0 < batch"
  obtains t where "flush_outbox c batch s = (Inr (min (nat batch) (pending s)), t)" "drainable c t"
    "pending t = pending s - min (nat batch) (pending s)" "dv_saturated t \<longleftrightarrow> nat batch \<le> pending s"
    "pending s = 0 \<longrightarrow> dv_cursor t = dv_cursor s"
proof -
  let ?b = "nat batch"
  let ?s1 = "s\<lparr>dv_saturated := False\<rparr>"
  define s2 where "s2 = ensure_consumer c ?s1 ?s1"
  have s2: "drainable c s2" "pending s2 = pending s" "dv_cursor s2 = dv_cursor s"
    using ensure_drainable[OF note_drainable(1)[OF assms(1)] assms(2) s2_def] by (simp_all add: note_drainable)
  obtain a s3 where g: "flush_global c ?b s2 = ((0, 0, True, a), s3)" "same_health c s2 s3" "dv_cursor s3 = dv_cursor s2"
    "dv_rows s3 = dv_rows s2"
    by (rule idle_scanner[OF s2(1)])
  have s3: "drainable c s3" "pending s3 = pending s"
    using drainable_same[OF s2(1) g(2) _ assms(2)] flush_global_run[of c s2 ?b] g(1,3,4) s2(2)
    by (simp_all add: pending_def shape_def)
  obtain s4 where m: "flush_main c ?b s3 = ((min ?b (pending s3), min ?b (pending s3)), None, s4)" "drainable c s4"
    "pending s4 = pending s3 - min ?b (pending s3)" "pending s3 = 0 \<longrightarrow> s4 = s3"
    by (rule main_pass[OF s3(1) assms(2)])
  let ?t = "s4\<lparr>dv_saturated := (?b \<le> min ?b (pending s))\<rparr>"
  have "flush_lanes c ?b s2 = (Inr (min ?b (pending s)), ?t)"
    using s2(1) m(1,2) g(1) s3(2) assms(3)
    by (simp add: flush_lanes_def no_due_rows drainable_def)
  then have f: "flush_outbox c batch s = (Inr (min ?b (pending s)), cleanup_if_due c ?t)"
    using assms(3) by (simp add: flush_outbox_def Let_def s2_def)
  note c = cleanup_drainable[OF note_drainable(1)[OF m(2)] assms(2), of "?b \<le> min ?b (pending s)"]
  show thesis
    by (rule that[OF f c(1)]) (use c m s2(3) s3(2) g(3) in \<open>auto simp: note_drainable\<close>)
qed

lemma drain_loop_ends:
  assumes "drainable c s" "0 \<le> oc_ttl c" "0 < batch"
  shows "\<exists>t. drain_loop c batch n s = Some (Inr (n + pending s), t) \<and> drainable c t \<and> pending t = 0"
  using assms(1)
proof (induction "pending s" arbitrary: n s rule: less_induct)
  case less
  obtain t where t: "flush_outbox c batch s = (Inr (min (nat batch) (pending s)), t)" "drainable c t"
    "pending t = pending s - min (nat batch) (pending s)" "dv_saturated t \<longleftrightarrow> nat batch \<le> pending s"
    "pending s = 0 \<longrightarrow> dv_cursor t = dv_cursor s"
    by (rule flush_drains[OF less.prems assms(2,3)])
  let ?m = "min (nat batch) (pending s)"
  show ?case
  proof (cases "dv_cursor s < dv_cursor t \<or> dv_saturated t \<or> batch \<le> int ?m")
    case True
    then have "0 < pending s" using t(4,5) assms(3) by (cases "pending s = 0") auto
    then have "pending t < pending s" using t(3) assms(3) by auto
    from less.hyps[OF this t(2), of "n + ?m"] t(1,3) True show ?thesis
      by (subst drain_loop.simps) simp
  next
    case False
    then have "pending s < nat batch" using t(4) by simp
    with False t show ?thesis by (subst drain_loop.simps) simp
  qed
qed

lemma nothing_owed:
  assumes "drainable c s" "pending s = 0"
  shows "owed (oc_id c) s k = []"
proof -
  have "db_cursor (oc_id c) s = dv_cursor s"
    by (rule db_cursor_SomeI) (use assms(1) in \<open>unfold drainable_def position_ok_def, elim conjE\<close>)
  with assms show ?thesis
    by (auto simp: owed_def frontier_def drainable_def healthy_def Suc_le_eq pending_def filter_empty_conv)
qed

text \<open>
  C38.  A drain ends: with a positive batch size, nothing in recovery, the ancient rows scanned
  and a bus that has a stream for every scope, \<open>drain_outbox\<close> returns - whatever the pruning
  does in between - the number of rows after the cursor, has sent every scope what it was owed,
  in order, and owes nothing.
\<close>

theorem drain_terminates:
  assumes "drainable c s" "0 \<le> oc_ttl c" "0 < batch"
  shows "\<exists>t. drain_outbox c batch s = Some (Inr (pending s), t) \<and>
    (\<forall>k. owed (oc_id c) t k = [] \<and> sent t k = sent s k @ owed (oc_id c) s k)"
proof -
  obtain t where t: "drain_loop c batch 0 s = Some (Inr (pending s), t)" "drainable c t" "pending t = 0"
    using drain_loop_ends[OF assms, of 0] by auto
  then have d: "drain_outbox c batch s = Some (Inr (pending s), t)" using assms(3) by (simp add: drain_outbox_def)
  have pos: "position_ok (oc_id c) s" using assms(1) by (simp add: drainable_def)
  have "sent t k @ owed (oc_id c) t k = sent s k @ owed (oc_id c) s k" for k
    using run_history[OF drain_outbox_run[OF d pos assms(2)] pos assms(2), of k] by simp
  with d nothing_owed[OF t(2,3)] show ?thesis by simp
qed

lemma drain_terminates_witness:
  "drain_outbox demo_cfg 1 demo_ok \<noteq> None \<and> fst (the (drain_outbox demo_cfg 1 demo_ok)) = Inr 2 \<and>
   sent (snd (the (drain_outbox demo_cfg 1 demo_ok))) ''k'' = [1, 3]"
proof -
  have "drainable demo_cfg demo_ok"
    by (simp add: drainable_def scan_complete_def healthy_def demo_ok_def demo_out_def demo_cfg_def position_ok_def
        demo_row_def shape_def all_deliverable_def deliverable_def echo_event_types_def the_stream_def)
  moreover have "pending demo_ok = 2" "sent demo_ok ''k'' @ owed (oc_id demo_cfg) demo_ok ''k'' = [1, 3]" by code_simp+
  ultimately obtain t where "drain_outbox demo_cfg 1 demo_ok = Some (Inr 2, t)" "sent t ''k'' = [1, 3]"
    using drain_terminates[of demo_cfg demo_ok 1] demo_position(2) by auto
  then show ?thesis by simp
qed

end
