(* ===== verification/PyText.thy ===== *)
theory PyText
  imports Prelude
begin

text \<open>
  Python's text operations on UTF-8 strings and the conversions that the request handlers apply to
  JSON values: \<open>str.strip\<close>, \<open>str.isdigit\<close>, \<open>int(str)\<close>, truth values and \<open>x or y\<close>.  Decimal
  digits are the ASCII ones.
\<close>

section \<open>Stripping white space\<close>

text \<open>The characters that \<open>str.isspace\<close> accepts, as UTF-8.\<close>

definition space_chars :: "string list" where
  "space_chars = [[CHR 0x20], [CHR 0x09], [CHR 0x0A], [CHR 0x0B], [CHR 0x0C], [CHR 0x0D], [CHR 0x1C], [CHR 0x1D],
     [CHR 0x1E], [CHR 0x1F], [CHR 0xC2, CHR 0x85], [CHR 0xC2, CHR 0xA0], [CHR 0xE1, CHR 0x9A, CHR 0x80],
     [CHR 0xE2, CHR 0x80, CHR 0x80], [CHR 0xE2, CHR 0x80, CHR 0x81], [CHR 0xE2, CHR 0x80, CHR 0x82],
     [CHR 0xE2, CHR 0x80, CHR 0x83], [CHR 0xE2, CHR 0x80, CHR 0x84], [CHR 0xE2, CHR 0x80, CHR 0x85],
     [CHR 0xE2, CHR 0x80, CHR 0x86], [CHR 0xE2, CHR 0x80, CHR 0x87], [CHR 0xE2, CHR 0x80, CHR 0x88],
     [CHR 0xE2, CHR 0x80, CHR 0x89], [CHR 0xE2, CHR 0x80, CHR 0x8A], [CHR 0xE2, CHR 0x80, CHR 0xA8],
     [CHR 0xE2, CHR 0x80, CHR 0xA9], [CHR 0xE2, CHR 0x80, CHR 0xAF], [CHR 0xE2, CHR 0x81, CHR 0x9F],
     [CHR 0xE3, CHR 0x80, CHR 0x80]]"

definition head_of :: "string list \<Rightarrow> string \<Rightarrow> string option" where
  "head_of ws s = List.find (\<lambda>w. w \<noteq> [] \<and> take (length w) s = w) ws"

lemma head_of_SomeD: "head_of ws s = Some w \<Longrightarrow> w \<in> set ws \<and> w \<noteq> [] \<and> s = w @ drop (length w) s"
  unfolding head_of_def using find_SomeD by (metis (mono_tags, lifting) append_take_drop_id)

lemma head_of_None_iff: "head_of ws s = None \<longleftrightarrow> (\<forall>w \<in> set ws. w = [] \<or> take (length w) s \<noteq> w)"
  by (auto simp: head_of_def find_None_iff)

function drop_heads :: "string list \<Rightarrow> string \<Rightarrow> string" where
  "drop_heads ws s = (case head_of ws s of None \<Rightarrow> s | Some w \<Rightarrow> drop_heads ws (drop (length w) s))"
  by pat_completeness auto
termination
proof (relation "measure (\<lambda>(ws, s). length s)", goal_cases)
  case 1
  then show ?case by simp
next
  case (2 ws s w)
  then have "w \<noteq> []" "s = w @ drop (length w) s" by (auto dest: head_of_SomeD)
  then have "length (drop (length w) s) < length s" by (metis add.commute length_append length_greater_0_conv less_add_same_cancel1)
  then show ?case by simp
qed

declare drop_heads.simps [simp del]

text \<open>The end is stripped by reading the string and the characters backwards.\<close>

definition py_strip :: "string \<Rightarrow> string" where
  "py_strip s = rev (drop_heads (map rev space_chars) (rev (drop_heads space_chars s)))"

lemma drop_heads_head: "head_of ws (drop_heads ws s) = None"
proof (induction ws s rule: drop_heads.induct)
  case (1 ws s)
  then show ?case by (cases "head_of ws s") (simp_all add: drop_heads.simps[of ws s])
qed

lemma drop_heads_id: "head_of ws s = None \<Longrightarrow> drop_heads ws s = s"
  by (simp add: drop_heads.simps)

lemma drop_heads_suffix: "\<exists>xs. s = xs @ drop_heads ws s"
proof (induction ws s rule: drop_heads.induct)
  case (1 ws s)
  show ?case
  proof (cases "head_of ws s")
    case (Some w)
    with 1 obtain xs where "drop (length w) s = xs @ drop_heads ws (drop (length w) s)" by blast
    then have "s = (w @ xs) @ drop_heads ws (drop (length w) s)"
      using head_of_SomeD[OF Some] by (metis append.assoc)
    moreover have "drop_heads ws s = drop_heads ws (drop (length w) s)" using Some by (simp add: drop_heads.simps[of ws s])
    ultimately show ?thesis by metis
  qed (simp add: drop_heads.simps[of ws s])
qed

lemma head_of_prefix:
  assumes "head_of ws (s @ t) = None"
  shows "head_of ws s = None"
  unfolding head_of_None_iff
proof (intro ballI)
  fix w assume w: "w \<in> set ws"
  show "w = [] \<or> take (length w) s \<noteq> w"
  proof (rule ccontr)
    assume "\<not> (w = [] \<or> take (length w) s \<noteq> w)"
    then have "w \<noteq> []" "take (length w) s = w" by auto
    moreover from this have "length w \<le> length s" by (metis length_take min.absorb_iff2 min.commute)
    ultimately have "take (length w) (s @ t) = w" by simp
    with assms w \<open>w \<noteq> []\<close> show False by (auto simp: head_of_None_iff)
  qed
qed

text \<open>A stripped string has no space at either end, and stripping it again changes nothing.\<close>

definition stripped :: "string \<Rightarrow> bool" where
  "stripped s = (head_of space_chars s = None \<and> head_of (map rev space_chars) (rev s) = None)"

lemma stripped_strip: "stripped (py_strip s)"
proof -
  let ?t = "drop_heads space_chars s"
  let ?u = "drop_heads (map rev space_chars) (rev ?t)"
  obtain xs where "rev ?t = xs @ ?u" using drop_heads_suffix by blast
  then have "?t = rev ?u @ rev xs" by (metis rev_append rev_rev_ident)
  then have "head_of space_chars (rev ?u @ rev xs) = None" using drop_heads_head[of space_chars s] by simp
  then show ?thesis
    using head_of_prefix drop_heads_head[of "map rev space_chars" "rev ?t"] by (simp add: stripped_def py_strip_def)
qed

lemma strip_stripped: "stripped s \<Longrightarrow> py_strip s = s"
  by (simp add: stripped_def py_strip_def drop_heads_id)

lemma strip_iff: "py_strip s = s \<longleftrightarrow> stripped s"
  using stripped_strip strip_stripped by metis

lemma strip_idem [simp]: "py_strip (py_strip s) = py_strip s"
  by (simp add: strip_stripped stripped_strip)

lemma strip_Nil [simp]: "py_strip [] = []"
  by (rule strip_stripped) (simp add: stripped_def head_of_def space_chars_def)

section \<open>Digits\<close>

definition digit_char :: "char \<Rightarrow> bool" where
  "digit_char c = ((48 :: nat) \<le> of_char c \<and> of_char c \<le> (57 :: nat))"

definition alpha_char :: "char \<Rightarrow> bool" where
  "alpha_char c = (let n = of_char c :: nat in 65 \<le> n \<and> n \<le> 90 \<or> 97 \<le> n \<and> n \<le> 122)"

definition lower_char :: "char \<Rightarrow> char" where
  "lower_char c = (if CHR ''A'' \<le> c \<and> c \<le> CHR ''Z'' then char_of (of_char c + 32 :: nat) else c)"

definition isdigit :: "string \<Rightarrow> bool" where
  "isdigit s = (s \<noteq> [] \<and> list_all digit_char s)"

definition digits_value :: "string \<Rightarrow> nat" where
  "digits_value s = fold (\<lambda>c n. 10 * n + (of_char c - 48)) s 0"

lemma digits_value_snoc: "digits_value (s @ [c]) = 10 * digits_value s + (of_char c - 48)"
  by (simp add: digits_value_def)

lemma isdigit_show_nat: "isdigit (show_nat n)"
proof (induction n rule: show_nat.induct)
  case (1 n)
  have "digit_char (char_of (48 + m))" if "m < 10" for m :: nat
    using that by (simp add: digit_char_def)
  with 1 show ?case by (cases "n < 10") (simp_all add: show_nat.simps[of n] isdigit_def)
qed

lemma digits_value_show_nat: "digits_value (show_nat n) = n"
proof (induction n rule: show_nat.induct)
  case (1 n)
  have "of_char (char_of (48 + m)) - 48 = (m :: nat)" if "m < 10" for m :: nat
    using that by simp
  with 1 show ?case
    by (cases "n < 10") (simp_all add: show_nat.simps[of n] digits_value_snoc, simp add: digits_value_def)
qed

text \<open>\<open>int(s)\<close>: an optional sign and digits, single underscores between them; \<open>None\<close> is \<open>ValueError\<close>.\<close>

fun digit_groups :: "bool \<Rightarrow> string \<Rightarrow> string option" where
  "digit_groups after [] = (if after then Some [] else None)"
| "digit_groups after (c # cs) =
     (if digit_char c then map_option ((#) c) (digit_groups True cs)
      else if c = CHR ''_'' \<and> after \<and> cs \<noteq> [] then digit_groups False cs else None)"

definition int_of_str :: "string \<Rightarrow> int option" where
  "int_of_str s =
     (case py_strip s of
        [] \<Rightarrow> None
      | c # cs \<Rightarrow>
          if c = CHR ''-'' then map_option (\<lambda>d. - int (digits_value d)) (digit_groups False cs)
          else if c = CHR ''+'' then map_option (\<lambda>d. int (digits_value d)) (digit_groups False cs)
          else map_option (\<lambda>d. int (digits_value d)) (digit_groups False (c # cs)))"

section \<open>JSON values as Python objects\<close>

fun truthy :: "json \<Rightarrow> bool" where
  "truthy JNull = False"
| "truthy (JBool b) = b"
| "truthy (JNum r) = (r \<noteq> 0)"
| "truthy (JStr s) = (s \<noteq> [])"
| "truthy (JArr xs) = (xs \<noteq> [])"
| "truthy (JObj kvs) = (kvs \<noteq> [])"

text \<open>\<open>d.get(k)\<close>, and \<open>a or b\<close>.\<close>

definition dget :: "jdict \<Rightarrow> string \<Rightarrow> json" where
  "dget d k = (case map_of d k of None \<Rightarrow> JNull | Some v \<Rightarrow> v)"

definition jor :: "json \<Rightarrow> json \<Rightarrow> json" where
  "jor a b = (if truthy a then a else b)"

end
