(* ===== verification/HubState.thy ===== *)
theory HubState
  imports PyText
begin

text \<open>
  The local state of the desktop's hub client, \<open>backend/app/hub/state.py\<close>: the tolerant parser of the
  JSON file and the writer.  The bytes of the file and its atomic replacement are not modelled; a
  missing file is \<open>None\<close>, an unreadable one (\<open>HubStateError\<close>) does not reach the parser.  A JSON number
  is a Python \<open>int\<close> when it is integral (\<open>True\<close>, an \<open>int\<close> too, is schema 1), and \<open>uuid4()\<close> is an argument.
\<close>

section \<open>State\<close>

datatype hub_connection = Disabled | PairingRequired | Connecting | Connected | Disconnected | ConnectionError

record hub_device =
  hd_id :: string
  hd_name :: "string option"
  hd_platform :: "string option"
  hd_status :: "string option"
  hd_current :: bool
  hd_last_seen :: "string option"

record hub_state =
  hs_schema :: int
  hs_device :: string
  hs_token :: "string option"
  hs_cursor :: "string option"
  hs_code :: "string option"
  hs_code_expires :: "string option"
  hs_connection :: hub_connection
  hs_last_sync :: "string option"
  hs_last_connected :: "string option"
  hs_last_error :: "string option"
  hs_devices :: "hub_device list"

definition connections :: "(string \<times> hub_connection) list" where
  "connections = [(''disabled'', Disabled), (''pairing_required'', PairingRequired), (''connecting'', Connecting),
     (''connected'', Connected), (''disconnected'', Disconnected), (''error'', ConnectionError)]"

fun connection_text :: "hub_connection \<Rightarrow> string" where
  "connection_text Disabled = ''disabled''"
| "connection_text PairingRequired = ''pairing_required''"
| "connection_text Connecting = ''connecting''"
| "connection_text Connected = ''connected''"
| "connection_text Disconnected = ''disconnected''"
| "connection_text ConnectionError = ''error''"

section \<open>Parsing\<close>

text \<open>\<open>_string\<close>\<close>

definition text_field :: "json \<Rightarrow> string option" where
  "text_field v = (case v of JStr s \<Rightarrow> (let t = py_strip s in if t = [] then None else Some t) | _ \<Rightarrow> None)"

definition device_status :: "jdict \<Rightarrow> string option" where
  "device_status d =
     (case text_field (dget d ''status'') of
        Some t \<Rightarrow> Some t
      | None \<Rightarrow> (case dget d ''online'' of JBool b \<Rightarrow> Some (if b then ''online'' else ''offline'') | _ \<Rightarrow> None))"

definition device_from_payload :: "json \<Rightarrow> hub_device option" where
  "device_from_payload payload =
     (case payload of
        JObj d \<Rightarrow>
          (case text_field (jor (dget d ''device_id'') (jor (dget d ''deviceId'') (dget d ''id''))) of
             None \<Rightarrow> None
           | Some i \<Rightarrow>
               Some \<lparr>hd_id = i, hd_name = text_field (jor (dget d ''name'') (dget d ''device_name'')),
                    hd_platform = text_field (dget d ''platform''), hd_status = device_status d,
                    hd_current = truthy (jor (dget d ''is_current'') (dget d ''isCurrent'')),
                    hd_last_seen = text_field (jor (dget d ''last_seen_at'') (dget d ''lastSeenAt''))\<rparr>)
      | _ \<Rightarrow> None)"

definition fresh_state :: "string \<Rightarrow> hub_state" where
  "fresh_state uuid = \<lparr>hs_schema = 1, hs_device = uuid, hs_token = None, hs_cursor = None, hs_code = None,
     hs_code_expires = None, hs_connection = Disconnected, hs_last_sync = None, hs_last_connected = None,
     hs_last_error = None, hs_devices = []\<rparr>"

definition connection_field :: "json \<Rightarrow> hub_connection" where
  "connection_field v =
     (case text_field v of
        None \<Rightarrow> Disconnected
      | Some t \<Rightarrow> (case map_of connections t of None \<Rightarrow> Disconnected | Some x \<Rightarrow> x))"

definition schema_field :: "json \<Rightarrow> int" where
  "schema_field v =
     (case v of
        JNum r \<Rightarrow> if of_int \<lfloor>r\<rfloor> = r \<and> 0 < r then \<lfloor>r\<rfloor> else 1
      | _ \<Rightarrow> 1)"

definition device_list :: "json \<Rightarrow> hub_device list" where
  "device_list v = (case v of JArr xs \<Rightarrow> List.map_filter device_from_payload xs | _ \<Rightarrow> [])"

definition state_from_payload :: "string \<Rightarrow> json \<Rightarrow> hub_state" where
  "state_from_payload uuid payload =
     (case payload of
        JObj d \<Rightarrow>
          \<lparr>hs_schema = schema_field (dget d ''schema''),
            hs_device = (case text_field (dget d ''device_id'') of None \<Rightarrow> uuid | Some i \<Rightarrow> i),
            hs_token = text_field (dget d ''sync_token''), hs_cursor = text_field (dget d ''cursor''),
            hs_code = text_field (dget d ''pairing_code''),
            hs_code_expires = text_field (dget d ''pairing_expires_at''),
            hs_connection = connection_field (dget d ''connection''),
            hs_last_sync = text_field (dget d ''last_sync_at''),
            hs_last_connected = text_field (dget d ''last_connected_at''),
            hs_last_error = text_field (dget d ''last_error''), hs_devices = device_list (dget d ''devices'')\<rparr>
      | _ \<Rightarrow> fresh_state uuid)"

text \<open>\<open>HubStateStore.load\<close> on the parsed file: the state, and the state it saves when there was none.\<close>

definition load_state :: "string \<Rightarrow> json option \<Rightarrow> hub_state \<times> hub_state option" where
  "load_state uuid file =
     (case file of
        None \<Rightarrow> (fresh_state uuid, Some (fresh_state uuid))
      | Some payload \<Rightarrow> (state_from_payload uuid payload, None))"

section \<open>Writing\<close>

definition opt_text :: "string option \<Rightarrow> json" where
  "opt_text v = (case v of None \<Rightarrow> JNull | Some s \<Rightarrow> JStr s)"

definition device_payload :: "hub_device \<Rightarrow> json" where
  "device_payload d = JObj [(''device_id'', JStr (hd_id d)), (''name'', opt_text (hd_name d)),
     (''platform'', opt_text (hd_platform d)), (''status'', opt_text (hd_status d)),
     (''is_current'', JBool (hd_current d)), (''last_seen_at'', opt_text (hd_last_seen d))]"

definition state_payload :: "hub_state \<Rightarrow> json" where
  "state_payload s = JObj [(''schema'', JNum (of_int (hs_schema s))), (''device_id'', JStr (hs_device s)),
     (''sync_token'', opt_text (hs_token s)), (''cursor'', opt_text (hs_cursor s)),
     (''pairing_code'', opt_text (hs_code s)), (''pairing_expires_at'', opt_text (hs_code_expires s)),
     (''connection'', JStr (connection_text (hs_connection s))), (''last_sync_at'', opt_text (hs_last_sync s)),
     (''last_connected_at'', opt_text (hs_last_connected s)), (''last_error'', opt_text (hs_last_error s)),
     (''devices'', JArr (map device_payload (hs_devices s)))]"

definition public_payload :: "bool \<Rightarrow> bool \<Rightarrow> hub_state \<Rightarrow> json" where
  "public_payload enabled configured s = JObj [(''enabled'', JBool enabled), (''configured'', JBool configured),
     (''device_id'', JStr (hs_device s)), (''paired'', JBool (truthy_str (hs_token s))),
     (''connection'', JStr (connection_text (hs_connection s))), (''pairing_code'', opt_text (hs_code s)),
     (''pairing_expires_at'', opt_text (hs_code_expires s)),
     (''devices'', JArr (map device_payload (hs_devices s))), (''last_sync_at'', opt_text (hs_last_sync s)),
     (''last_connected_at'', opt_text (hs_last_connected s)), (''last_error'', opt_text (hs_last_error s))]"

section \<open>Well-formed states\<close>

text \<open>What the writer relies on: texts are stripped and not empty, the schema is positive.\<close>

definition text_ok :: "string \<Rightarrow> bool" where
  "text_ok s = (s \<noteq> [] \<and> py_strip s = s)"

definition field_ok :: "string option \<Rightarrow> bool" where
  "field_ok v = (case v of None \<Rightarrow> True | Some s \<Rightarrow> text_ok s)"

definition device_ok :: "hub_device \<Rightarrow> bool" where
  "device_ok d = (text_ok (hd_id d) \<and> field_ok (hd_name d) \<and> field_ok (hd_platform d) \<and> field_ok (hd_status d) \<and>
     field_ok (hd_last_seen d))"

definition state_ok :: "hub_state \<Rightarrow> bool" where
  "state_ok s = (0 < hs_schema s \<and> text_ok (hs_device s) \<and> field_ok (hs_token s) \<and> field_ok (hs_cursor s) \<and>
     field_ok (hs_code s) \<and> field_ok (hs_code_expires s) \<and> field_ok (hs_last_sync s) \<and>
     field_ok (hs_last_connected s) \<and> field_ok (hs_last_error s) \<and> list_all device_ok (hs_devices s))"

lemma text_field_ok: "field_ok (text_field v)"
  by (cases v) (simp_all add: field_ok_def text_field_def text_ok_def Let_def)

lemma text_field_opt [simp]: "field_ok v \<Longrightarrow> text_field (opt_text v) = v"
  by (cases v) (simp_all add: field_ok_def text_field_def text_ok_def opt_text_def)

lemma text_field_str [simp]: "text_ok s \<Longrightarrow> text_field (JStr s) = Some s"
  by (simp add: text_field_def text_ok_def)

lemma text_field_SomeD: "text_field v = Some t \<Longrightarrow> text_ok t"
  using text_field_ok[of v] by (simp add: field_ok_def)

lemma field_ok_None [simp]: "field_ok None"
  by (simp add: field_ok_def)

lemma field_ok_Some [simp]: "field_ok (Some s) = text_ok s"
  by (simp add: field_ok_def)

lemma opt_text_jor [simp]: "field_ok v \<Longrightarrow> jor (opt_text v) JNull = opt_text v"
  by (cases v) (simp_all add: jor_def opt_text_def text_ok_def)

lemma online_ok: "text_ok ''online''" "text_ok ''offline''"
  by code_simp+

lemma device_status_ok: "field_ok (device_status d)"
  by (auto simp: device_status_def online_ok dest: text_field_SomeD split: option.splits json.splits)

lemma device_from_ok: "device_from_payload p = Some d \<Longrightarrow> device_ok d"
  by (cases p) (auto simp: device_from_payload_def device_ok_def text_field_ok device_status_ok
      dest: text_field_SomeD split: option.splits)

lemma device_roundtrip:
  assumes "device_ok d"
  shows "device_from_payload (device_payload d) = Some d"
proof -
  have "text_ok (hd_id d)" "hd_id d \<noteq> []" using assms by (simp_all add: device_ok_def text_ok_def)
  moreover from this have "jor (JStr (hd_id d)) x = JStr (hd_id d)" for x by (simp add: jor_def)
  moreover have "field_ok (hd_name d)" "field_ok (hd_platform d)" "field_ok (hd_status d)" "field_ok (hd_last_seen d)"
    using assms by (simp_all add: device_ok_def)
  ultimately show ?thesis
    by (cases "hd_current d")
      (auto simp: device_from_payload_def device_payload_def dget_def device_status_def jor_def[of "JBool _"]
        split: option.split)
qed

lemma devices_roundtrip: "list_all device_ok ds \<Longrightarrow> device_list (JArr (map device_payload ds)) = ds"
  unfolding device_list_def json.case
  by (induction ds) (simp_all add: List.map_filter_simps device_roundtrip)

lemma device_list_ok: "list_all device_ok (device_list v)"
proof (cases v)
  case (JArr xs)
  have "list_all device_ok (List.map_filter device_from_payload xs)"
    by (induction xs) (auto simp: List.map_filter_simps dest: device_from_ok split: option.split)
  with JArr show ?thesis by (simp add: device_list_def)
qed (simp_all add: device_list_def)

lemma connection_roundtrip: "connection_field (JStr (connection_text x)) = x"
  by (cases x; hypsubst; code_simp)

lemma schema_positive: "0 < schema_field v"
  by (cases v) (auto simp: schema_field_def)

lemma fresh_state_ok: "text_ok uuid \<Longrightarrow> state_ok (fresh_state uuid)"
  by (simp add: state_ok_def fresh_state_def)

lemma state_from_ok: "text_ok uuid \<Longrightarrow> state_ok (state_from_payload uuid p)"
  by (cases p) (auto simp: state_from_payload_def fresh_state_def state_ok_def text_field_ok schema_positive
      device_list_ok dest: text_field_SomeD split: option.split)

lemma state_roundtrip: "state_ok s \<Longrightarrow> state_from_payload uuid (state_payload s) = s"
  by (simp add: state_from_payload_def state_payload_def dget_def state_ok_def schema_field_def
      connection_roundtrip devices_roundtrip)

text \<open>What the settings page is told does not depend on the secrets.\<close>

lemma public_payload_hides_secrets:
  "truthy_str t = truthy_str (hs_token s) \<Longrightarrow>
   public_payload e c (s\<lparr>hs_token := t, hs_cursor := x\<rparr>) = public_payload e c s"
  by (simp add: public_payload_def)

section \<open>Properties\<close>

text \<open>
  C39.  Reading always gives a usable state: whatever JSON value the file holds, and if there is no
  file, the loaded state is well formed - positive schema, stripped and non-empty device id,
  optional texts absent or stripped and non-empty, only well-formed devices.
\<close>

theorem loaded_state_well_formed:
  assumes "text_ok uuid"
  shows "state_ok (fst (load_state uuid file))"
  using state_from_ok[OF assms] fresh_state_ok[OF assms] by (simp add: load_state_def split: option.split)

lemma loaded_state_well_formed_witness:
  "state_ok (fst (load_state ''u'' (Some (JObj [(''schema'', JNum (- 2)), (''device_id'', JStr '' d ''),
     (''devices'', JArr [JNull, JObj [(''id'', JStr ''x''), (''online'', JBool True)]])])))) \<and>
   hs_device (fst (load_state ''u'' (Some (JObj [(''device_id'', JStr '' d '')])))) = ''d''"
proof -
  have "text_ok ''u''" by code_simp
  moreover have "hs_device (fst (load_state ''u'' (Some (JObj [(''device_id'', JStr '' d '')])))) = ''d''" by code_simp
  ultimately show ?thesis using loaded_state_well_formed[of "''u''"] by blast
qed

text \<open>
  C40.  Saving and loading is the identity: a well-formed state comes back unchanged from the JSON
  object that \<open>save\<close> writes, so every state that was ever loaded survives any number of restarts.
\<close>

theorem saved_state_loads_back:
  assumes "state_ok s"
  shows "load_state uuid (Some (state_payload s)) = (s, None)"
  using state_roundtrip[OF assms] by (simp add: load_state_def)

definition demo_hub :: hub_state where
  "demo_hub = (fresh_state ''u'')\<lparr>hs_token := Some ''t'', hs_connection := Connected, hs_devices :=
     [\<lparr>hd_id = ''x'', hd_name = None, hd_platform = Some ''mac'', hd_status = None, hd_current = True, hd_last_seen = None\<rparr>]\<rparr>"

lemma saved_state_loads_back_witness: "fst (load_state ''v'' (Some (state_payload demo_hub))) = demo_hub"
proof -
  have "state_ok demo_hub" by code_simp
  from saved_state_loads_back[OF this] show ?thesis by simp
qed

end
