(* ===== verification/SyncHub.thy ===== *)
theory SyncHub
  imports PyText
begin

text \<open>
  The store of the sync hub, \<open>backend/app/sync_hub/store.py\<close>: pairing of devices, the push of an
  operation with its revision check, the change feed, the snapshot and the device list.

  The database of all principals is the record \<open>hub\<close>; one list per table, in insertion order.  A
  method under \<open>BEGIN IMMEDIATE\<close> is one transaction; an exception rolls it back.  Text that SQLite
  or Python makes of numbers and other values (\<open>str(x)\<close>, \<open>float(x)\<close> of a text, a TEXT column given
  a number) and the normal forms of \<open>app.memory.repository\<close> are functions of the environment
  \<open>hub_env\<close>, as are the random secrets, their digest and the time of the call.  \<open>HubBindingError\<close> is what the driver
  raises for an argument that SQLite cannot store: a list, a dictionary or a too large integer.  The tenant and user
  rows that \<open>_ensure_principal_device_tx\<close> inserts are read by nobody here and left out.
\<close>

section \<open>Tables\<close>

record hub_principal =
  hp_tenant :: string
  hp_owner :: string
  hp_device :: string

type_synonym hub_scope = "string \<times> string"

definition hp_scope :: "hub_principal \<Rightarrow> hub_scope" where
  "hp_scope p = (hp_tenant p, hp_owner p)"

datatype entity = Transcript | Summary | Memory

record hub_event =
  ev_scope :: hub_scope
  ev_cursor :: nat
  ev_source :: string
  ev_entity :: entity
  ev_id :: string
  ev_revision :: nat
  ev_updated :: rat
  ev_payload :: jdict

datatype push_status = Applied | Duplicate | Conflict

record hub_operation =
  op_id :: string
  op_scope :: hub_scope
  op_source :: string
  op_entity :: entity
  op_eid :: string
  op_base :: int
  op_updated :: rat
  op_payload :: jdict
  op_status :: push_status
  op_revision :: nat
  op_cursor :: "nat option"
  op_current :: "jdict option"

record hub_segment =
  sg_id :: nat
  sg_meeting :: string
  sg_text :: string
  sg_start :: int
  sg_end :: int
  sg_speaker :: "string option"
  sg_label :: "string option"
  sg_captured :: string
  sg_scope :: hub_scope
  sg_device :: string

record hub_meeting =
  mt_id :: string
  mt_scope :: hub_scope
  mt_device :: string
  mt_finalized_state :: bool
  mt_started :: string
  mt_ended :: "string option"
  mt_finalized :: "string option"
  mt_minutes :: "jdict option"
  mt_title :: "string option"
  mt_display :: "string option"

record hub_memory =
  mm_id :: string
  mm_scope :: hub_scope
  mm_kind :: string
  mm_content :: string
  mm_normalized :: string
  mm_key :: string
  mm_subject :: "string option"
  mm_confidence :: rat
  mm_salience :: rat
  mm_reach :: string
  mm_status :: string
  mm_confirmed :: bool
  mm_updated :: rat
  mm_revision :: nat
  mm_metadata :: jdict
  mm_deleted :: "rat option"

record hub_pairing =
  pr_id :: string
  pr_scope :: hub_scope
  pr_source :: string
  pr_code_hash :: string
  pr_expires :: rat
  pr_claimed :: "rat option"
  pr_claimed_by :: "string option"

record hub_device_row =
  hd_dev_scope :: hub_scope
  hd_dev_id :: string

record sync_device =
  sd_scope :: hub_scope
  sd_id :: string
  sd_name :: string
  sd_platform :: string
  sd_token_hash :: string
  sd_created :: rat
  sd_seen :: rat
  sd_revoked :: "rat option"

record hub =
  hb_events :: "hub_event list"
  hb_operations :: "hub_operation list"
  hb_segments :: "hub_segment list"
  hb_segment_seq :: nat
  hb_meetings :: "hub_meeting list"
  hb_memories :: "hub_memory list"
  hb_pairings :: "hub_pairing list"
  hb_devices :: "hub_device_row list"
  hb_sync_devices :: "sync_device list"
  hb_cursors :: "((hub_scope \<times> string) \<times> nat) list"

record hub_env =
  he_now :: rat
  he_iso :: "rat \<Rightarrow> string"
  he_parse :: "string \<Rightarrow> rat option"
  he_secret :: "nat \<Rightarrow> string"
  he_hash :: "string \<Rightarrow> string"
  he_str :: "json \<Rightarrow> string"
  he_float :: "string \<Rightarrow> pyfloat option"
  he_column :: "json \<Rightarrow> string"
  he_norm_text :: "string \<Rightarrow> string"
  he_norm_key :: "string \<Rightarrow> string"

datatype hub_error = PairingNotFound string | DeviceAlreadyExists | SyncDeviceNotFound | EntityInvalid string
  | OperationIdCollision | HubIntegrityError | HubBindingError | HubValueError string | HubStopIteration

section \<open>Values of a payload\<close>

definition py_str :: "hub_env \<Rightarrow> json \<Rightarrow> string" where
  "py_str e j = (case j of JStr s \<Rightarrow> s | _ \<Rightarrow> he_str e j)"

text \<open>\<open>str(payload.get(key) or default)\<close>\<close>

definition str_or :: "hub_env \<Rightarrow> json \<Rightarrow> string \<Rightarrow> string" where
  "str_or e j d = (if truthy j then py_str e j else d)"

definition py_int_of :: "json \<Rightarrow> int option" where
  "py_int_of j = (case j of JBool b \<Rightarrow> Some (if b then 1 else 0) | JNum r \<Rightarrow> Some (py_int r) | JStr s \<Rightarrow> int_of_str s | _ \<Rightarrow> None)"

definition int_field :: "jdict \<Rightarrow> string \<Rightarrow> int \<Rightarrow> hub_error + int" where
  "int_field d k dflt =
     (case (case map_of d k of None \<Rightarrow> Some dflt | Some j \<Rightarrow> py_int_of j) of
        None \<Rightarrow> Inl (EntityInvalid (k @ '' must be an integer''))
      | Some n \<Rightarrow> if n < 0 then Inl (EntityInvalid (k @ '' must be non-negative'')) else Inr n)"

text \<open>\<open>str(candidate).isdigit()\<close> and \<open>int(candidate)\<close>\<close>

definition digits_of :: "json \<Rightarrow> nat option" where
  "digits_of j =
     (case j of
        JStr s \<Rightarrow> if isdigit s then Some (digits_value s) else None
      | JNum r \<Rightarrow> if of_int \<lfloor>r\<rfloor> = r \<and> 0 \<le> r then Some (nat \<lfloor>r\<rfloor>) else None
      | _ \<Rightarrow> None)"

definition column :: "hub_env \<Rightarrow> json \<Rightarrow> hub_error + string option" where
  "column e j =
     (case j of
        JNull \<Rightarrow> Inr None | JStr s \<Rightarrow> Inr (Some s) | JArr _ \<Rightarrow> Inl HubBindingError | JObj _ \<Rightarrow> Inl HubBindingError
      | _ \<Rightarrow> Inr (Some (he_column e j)))"

definition sql_int :: "int \<Rightarrow> hub_error + unit" where
  "sql_int n = guardE (n < 2 ^ 63) HubBindingError"

definition opt_json :: "string option \<Rightarrow> json" where
  "opt_json v = (case v of None \<Rightarrow> JNull | Some s \<Rightarrow> JStr s)"

section \<open>The current state of an entity\<close>

definition events_in :: "hub_scope \<Rightarrow> hub \<Rightarrow> hub_event list" where
  "events_in k h = filter (\<lambda>v. ev_scope v = k) (hb_events h)"

definition max_cursor :: "hub_scope \<Rightarrow> hub \<Rightarrow> nat" where
  "max_cursor k h = max0 (map ev_cursor (events_in k h))"

definition latest_event :: "hub_scope \<Rightarrow> entity \<Rightarrow> string \<Rightarrow> hub \<Rightarrow> hub_event option" where
  "latest_event k t i h =
     (case rev (sort_key ev_cursor (filter (\<lambda>v. ev_entity v = t \<and> ev_id v = i) (events_in k h))) of
        [] \<Rightarrow> None | v # _ \<Rightarrow> Some v)"

definition segment_payload :: "hub_segment \<Rightarrow> jdict" where
  "segment_payload r = [(''meeting_id'', JStr (sg_meeting r)), (''segment_id'', JNum (of_nat (sg_id r))),
     (''text'', JStr (sg_text r)), (''start_ms'', JNum (of_int (sg_start r))), (''end_ms'', JNum (of_int (sg_end r))),
     (''speaker_id'', opt_json (sg_speaker r)), (''speaker_label'', opt_json (sg_label r)),
     (''captured_at'', JStr (sg_captured r))]"

definition occurred_at :: "hub_meeting \<Rightarrow> string" where
  "occurred_at r = or_str (mt_finalized r) (or_str (mt_ended r) (mt_started r))"

definition minutes_payload :: "hub_meeting \<Rightarrow> jdict \<Rightarrow> jdict" where
  "minutes_payload r d =
     AList.update ''updated_at'' (JStr (occurred_at r)) (AList.update ''meeting_id'' (JStr (mt_id r)) d)"

definition memory_payload :: "hub_memory \<Rightarrow> jdict" where
  "memory_payload r = [(''memory_id'', JStr (mm_id r)), (''kind'', JStr (mm_kind r)), (''content'', JStr (mm_content r)),
     (''canonical_key'', JStr (mm_key r)), (''subject'', opt_json (mm_subject r)),
     (''confidence'', JNum (mm_confidence r)), (''salience'', JNum (mm_salience r)), (''scope'', JStr (mm_reach r)),
     (''status'', JStr (mm_status r)), (''user_confirmed'', JBool (mm_confirmed r)),
     (''revision'', JNum (of_nat (mm_revision r))), (''metadata'', JObj (mm_metadata r))]"

text \<open>\<open>_current_entity_tx\<close>: revision, cursor and payload.\<close>

definition stored_entity :: "hub_scope \<Rightarrow> entity \<Rightarrow> string \<Rightarrow> hub \<Rightarrow> nat \<times> nat \<times> jdict option" where
  "stored_entity k t i h =
     (case t of
        Transcript \<Rightarrow>
          (if isdigit i
           then case List.find (\<lambda>r. sg_id r = digits_value i \<and> sg_scope r = k) (hb_segments h) of
                  Some r \<Rightarrow> (0, 0, Some (segment_payload r)) | None \<Rightarrow> (0, 0, None)
           else (0, 0, None))
      | Summary \<Rightarrow>
          (case List.find (\<lambda>r. mt_id r = i \<and> mt_scope r = k \<and> mt_minutes r \<noteq> None) (hb_meetings h) of
             Some r \<Rightarrow> (0, 0, Some (minutes_payload r (the (mt_minutes r)))) | None \<Rightarrow> (0, 0, None))
      | Memory \<Rightarrow>
          (case List.find (\<lambda>r. mm_id r = i \<and> mm_scope r = k) (hb_memories h) of
             Some r \<Rightarrow> (mm_revision r, 0, Some (memory_payload r)) | None \<Rightarrow> (0, 0, None)))"

definition current_entity :: "hub_scope \<Rightarrow> entity \<Rightarrow> string \<Rightarrow> hub \<Rightarrow> hub_error + (nat \<times> nat \<times> jdict option)" where
  "current_entity k t i h =
     (case latest_event k t i h of
        Some v \<Rightarrow> Inr (ev_revision v, ev_cursor v, Some (ev_payload v))
      | None \<Rightarrow>
          bindE (if t = Transcript \<and> isdigit i then sql_int (int (digits_value i)) else Inr ())
            (\<lambda>_. Inr (stored_entity k t i h)))"

section \<open>Applying an operation\<close>

definition ensure_meeting :: "hub_principal \<Rightarrow> string \<Rightarrow> string \<Rightarrow> hub \<Rightarrow> hub" where
  "ensure_meeting p m upd h =
     (if \<exists>r \<in> set (hb_meetings h). mt_id r = m \<and> mt_scope r = hp_scope p then h
      else h\<lparr>hb_meetings := hb_meetings h @ [\<lparr>mt_id = m, mt_scope = hp_scope p, mt_device = hp_device p,
          mt_finalized_state = False, mt_started = upd, mt_ended = Some upd, mt_finalized = None, mt_minutes = None,
          mt_title = None, mt_display = None\<rparr>]\<rparr>)"

definition chosen_segment :: "jdict \<Rightarrow> jdict option \<Rightarrow> string \<Rightarrow> nat option" where
  "chosen_segment d cur i =
     (case digits_of (dget d ''segment_id'') of
        Some n \<Rightarrow> Some n
      | None \<Rightarrow>
          (case (case cur of None \<Rightarrow> None | Some c \<Rightarrow> digits_of (dget c ''segment_id'')) of
             Some n \<Rightarrow> Some n | None \<Rightarrow> if isdigit i then Some (digits_value i) else None))"

definition store_segment :: "hub_principal \<Rightarrow> nat option \<Rightarrow> hub_segment \<Rightarrow> hub \<Rightarrow> hub_error + nat \<times> hub" where
  "store_segment p sid r h =
     (case sid of
        None \<Rightarrow> (let n = hb_segment_seq h + 1
                 in Inr (n, h\<lparr>hb_segments := hb_segments h @ [r\<lparr>sg_id := n\<rparr>], hb_segment_seq := n\<rparr>))
      | Some n \<Rightarrow>
          (let mine = (\<lambda>q. sg_id q = n \<and> sg_scope q = hp_scope p) in
           if rowcount mine (hb_segments h) = 1
           then Inr (n, h\<lparr>hb_segments := update_where mine (\<lambda>_. r\<lparr>sg_id := n\<rparr>) (hb_segments h)\<rparr>)
           else if \<exists>q \<in> set (hb_segments h). sg_id q = n then Inl HubIntegrityError
           else Inr (n, h\<lparr>hb_segments := hb_segments h @ [r\<lparr>sg_id := n\<rparr>], hb_segment_seq := max (hb_segment_seq h) n\<rparr>)))"

definition apply_transcript :: "hub_env \<Rightarrow> hub_principal \<Rightarrow> string \<Rightarrow> jdict \<Rightarrow> rat \<Rightarrow> jdict option \<Rightarrow> hub
    \<Rightarrow> hub_error + jdict \<times> hub" where
  "apply_transcript e p i d upd cur h =
     (let m = py_strip (str_or e (dget d ''meeting_id'') []); tx = py_strip (str_or e (dget d ''text'') []) in
      if m = [] \<or> tx = [] then Inl (EntityInvalid ''transcript_segment requires meeting_id and text'')
      else bindE (int_field d ''start_ms'' 0) (\<lambda>a. bindE (int_field d ''end_ms'' a) (\<lambda>b.
        if b < a then Inl (EntityInvalid ''end_ms must be greater than start_ms'')
        else
          let sid = chosen_segment d cur i; cap = str_or e (dget d ''captured_at'') (he_iso e upd) in
          bindE (column e (dget d ''speaker_id'')) (\<lambda>sp. bindE (column e (dget d ''speaker_label'')) (\<lambda>lb.
          bindE (sql_int a) (\<lambda>_. bindE (sql_int b) (\<lambda>_.
          bindE (case sid of None \<Rightarrow> Inr () | Some n \<Rightarrow> sql_int (int n)) (\<lambda>_.
          bindE (store_segment p sid \<lparr>sg_id = 0, sg_meeting = m, sg_text = tx, sg_start = a, sg_end = b, sg_speaker = sp,
                   sg_label = lb, sg_captured = cap, sg_scope = hp_scope p, sg_device = hp_device p\<rparr>
                   (ensure_meeting p m cap h)) (\<lambda>(n, h2).
            Inr ([(''meeting_id'', JStr m), (''segment_id'', JNum (of_nat n)), (''text'', JStr tx),
                  (''start_ms'', JNum (of_int a)), (''end_ms'', JNum (of_int b)),
                  (''speaker_id'', dget d ''speaker_id''), (''speaker_label'', dget d ''speaker_label''),
                  (''captured_at'', JStr cap)], h2)))))))))) "

definition none_if_empty :: "string \<Rightarrow> string option" where
  "none_if_empty s = (if s = [] then None else Some s)"

definition coalesce :: "'a option \<Rightarrow> 'a option \<Rightarrow> 'a option" where
  "coalesce a b = (case a of None \<Rightarrow> b | Some _ \<Rightarrow> a)"

definition apply_summary :: "hub_env \<Rightarrow> hub_principal \<Rightarrow> string \<Rightarrow> jdict \<Rightarrow> rat \<Rightarrow> hub \<Rightarrow> hub_error + jdict \<times> hub" where
  "apply_summary e p i d upd h =
     (let m = py_strip (str_or e (dget d ''meeting_id'') i) in
      if m = [] then Inl (EntityInvalid ''meeting_summary requires meeting_id'')
      else
        let canonical = AList.update ''updated_at'' (JStr (he_iso e upd)) (AList.update ''meeting_id'' (JStr m) d);
            h1 = ensure_meeting p m (he_iso e upd) h;
            title = none_if_empty (py_strip (str_or e (dget canonical ''title'') []));
            disp = none_if_empty (py_strip (str_or e (dget canonical ''display_title'') []));
            mine = (\<lambda>r. mt_id r = m \<and> mt_scope r = hp_scope p)
        in if rowcount mine (hb_meetings h1) \<noteq> 1 then Inl (EntityInvalid ''meeting_summary meeting not found'')
           else Inr (canonical, h1\<lparr>hb_meetings := update_where mine (\<lambda>r. r\<lparr>mt_finalized_state := True,
               mt_minutes := Some canonical, mt_ended := coalesce (mt_ended r) (Some (he_iso e upd)),
               mt_finalized := Some (he_iso e upd), mt_title := coalesce title (mt_title r),
               mt_display := coalesce disp (mt_display r)\<rparr>) (hb_meetings h1)\<rparr>))"

definition py_float_of :: "hub_env \<Rightarrow> json \<Rightarrow> pyfloat option" where
  "py_float_of e j =
     (case j of JBool b \<Rightarrow> Some (Fin (if b then 1 else 0)) | JNum r \<Rightarrow> Some (Fin r) | JStr s \<Rightarrow> he_float e s | _ \<Rightarrow> None)"

definition unit_field :: "hub_env \<Rightarrow> jdict \<Rightarrow> string \<Rightarrow> rat \<Rightarrow> pyfloat option" where
  "unit_field e d k dflt = (case map_of d k of None \<Rightarrow> Some (Fin dflt) | Some j \<Rightarrow> py_float_of e j)"

definition in_unit :: "pyfloat \<Rightarrow> bool" where
  "in_unit x = (case x of Fin r \<Rightarrow> 0 \<le> r \<and> r \<le> 1 | _ \<Rightarrow> False)"

definition fin_value :: "pyfloat \<Rightarrow> rat" where
  "fin_value x = (case x of Fin r \<Rightarrow> r | _ \<Rightarrow> 0)"

definition active_key_clash :: "hub_memory \<Rightarrow> hub \<Rightarrow> bool" where
  "active_key_clash r h = (mm_status r = ''active'' \<and>
     (\<exists>q \<in> set (hb_memories h). mm_scope q = mm_scope r \<and> mm_id q \<noteq> mm_id r \<and> mm_kind q = mm_kind r \<and>
        mm_key q = mm_key r \<and> mm_status q = ''active''))"

text \<open>Insert or update; the unique index allows one active memory per kind and key.\<close>

definition store_memory :: "hub_memory \<Rightarrow> hub \<Rightarrow> hub_error + hub" where
  "store_memory r h =
     (let mine = (\<lambda>q. mm_scope q = mm_scope r \<and> mm_id q = mm_id r) in
      if active_key_clash r h then Inl HubIntegrityError
      else if \<exists>q \<in> set (hb_memories h). mine q
      then Inr (h\<lparr>hb_memories := update_where mine (\<lambda>q. r\<lparr>mm_confirmed := mm_confirmed q\<rparr>) (hb_memories h)\<rparr>)
      else Inr (h\<lparr>hb_memories := hb_memories h @ [r\<lparr>mm_deleted := None\<rparr>]\<rparr>))"

definition apply_memory :: "hub_env \<Rightarrow> hub_principal \<Rightarrow> string \<Rightarrow> jdict \<Rightarrow> nat \<Rightarrow> rat \<Rightarrow> hub \<Rightarrow> hub_error + jdict \<times> hub" where
  "apply_memory e p i d rn upd h =
     (let mid = py_strip (str_or e (dget d ''memory_id'') i); kind = str_or e (dget d ''kind'') ''fact'';
          content = py_strip (str_or e (dget d ''content'') []) in
      if kind \<notin> set [''fact'', ''preference'', ''decision'', ''todo'', ''relationship'']
      then Inl (EntityInvalid ''memory kind is invalid'')
      else if mid = [] \<or> content = [] then Inl (EntityInvalid ''memory requires memory_id and content'')
      else
        let ck = he_norm_key e (str_or e (dget d ''canonical_key'') mid); status = str_or e (dget d ''status'') ''active'' in
        if status \<notin> set [''active'', ''superseded'', ''deleted''] then Inl (EntityInvalid ''memory status is invalid'')
        else
          case (unit_field e d ''confidence'' 1, unit_field e d ''salience'' (1 / 2)) of
            (Some co, Some sa) \<Rightarrow>
              if \<not> in_unit co \<or> \<not> in_unit sa
              then Inl (EntityInvalid ''memory confidence and salience must be in [0, 1]'')
              else
                let meta = (case dget d ''metadata'' of JObj m \<Rightarrow> m | _ \<Rightarrow> []);
                    reach = str_or e (dget d ''scope'') ''owner'' in
                bindE (column e (dget d ''subject'')) (\<lambda>su.
                bindE (store_memory \<lparr>mm_id = mid, mm_scope = hp_scope p, mm_kind = kind, mm_content = content,
                     mm_normalized = he_norm_text e content, mm_key = ck, mm_subject = su, mm_confidence = fin_value co,
                     mm_salience = fin_value sa, mm_reach = reach, mm_status = status, mm_confirmed = False,
                     mm_updated = upd, mm_revision = rn, mm_metadata = meta,
                     mm_deleted = (if status = ''deleted'' then Some upd else None)\<rparr> h) (\<lambda>h2.
                  Inr ([(''memory_id'', JStr mid), (''kind'', JStr kind), (''content'', JStr content),
                     (''canonical_key'', JStr ck), (''subject'', dget d ''subject''),
                     (''confidence'', JNum (fin_value co)), (''salience'', JNum (fin_value sa)), (''scope'', JStr reach),
                     (''status'', JStr status), (''metadata'', JObj meta), (''revision'', JNum (of_nat rn))], h2)))
          | _ \<Rightarrow> Inl (EntityInvalid ''memory confidence and salience must be numbers''))"

definition apply_entity :: "hub_env \<Rightarrow> hub_principal \<Rightarrow> entity \<Rightarrow> string \<Rightarrow> jdict \<Rightarrow> nat \<Rightarrow> rat \<Rightarrow> jdict option \<Rightarrow> hub
    \<Rightarrow> hub_error + jdict \<times> hub" where
  "apply_entity e p t i d rn upd cur h =
     (case t of
        Transcript \<Rightarrow> apply_transcript e p i d upd cur h
      | Summary \<Rightarrow> apply_summary e p i d upd h
      | Memory \<Rightarrow> apply_memory e p i d rn upd h)"

section \<open>Push\<close>

record push_result =
  pu_status :: push_status
  pu_revision :: nat
  pu_cursor :: "nat option"
  pu_current :: "jdict option"

record push_request =
  pq_operation :: string
  pq_device :: string
  pq_entity :: entity
  pq_id :: string
  pq_base :: int
  pq_updated :: rat
  pq_payload :: jdict

definition find_operation :: "string \<Rightarrow> hub \<Rightarrow> hub_operation option" where
  "find_operation i h = List.find (\<lambda>o'. op_id o' = i) (hb_operations h)"

definition operation_row :: "hub_principal \<Rightarrow> push_request \<Rightarrow> push_status \<Rightarrow> nat \<Rightarrow> nat \<Rightarrow> jdict option \<Rightarrow> hub_operation" where
  "operation_row p q st rn cur now = \<lparr>op_id = pq_operation q, op_scope = hp_scope p, op_source = hp_device p,
     op_entity = pq_entity q, op_eid = pq_id q, op_base = pq_base q, op_updated = pq_updated q,
     op_payload = pq_payload q, op_status = st, op_revision = rn, op_cursor = Some cur, op_current = now\<rparr>"

definition bump_cursor :: "hub_principal \<Rightarrow> nat \<Rightarrow> hub \<Rightarrow> hub" where
  "bump_cursor p n h = h\<lparr>hb_cursors :=
     map (\<lambda>(k, m). (k, if k = (hp_scope p, hp_device p) then max m n else m)) (hb_cursors h)\<rparr>"

definition push_tx :: "hub_env \<Rightarrow> hub_principal \<Rightarrow> push_request \<Rightarrow> hub \<Rightarrow> hub_error + push_result \<times> hub" where
  "push_tx e p q h =
     (case find_operation (pq_operation q) h of
        Some r \<Rightarrow>
          if op_scope r \<noteq> hp_scope p then Inl OperationIdCollision
          else Inr (\<lparr>pu_status = Duplicate, pu_revision = op_revision r, pu_cursor = op_cursor r, pu_current = op_current r\<rparr>, h)
      | None \<Rightarrow>
          bindE (current_entity (hp_scope p) (pq_entity q) (pq_id q) h) (\<lambda>(rn, cur, now).
          if pq_base q \<noteq> int rn
          then if pq_base q < 0 then Inl HubIntegrityError else if 2 ^ 63 \<le> pq_base q then Inl HubBindingError
               else Inr (\<lparr>pu_status = Conflict, pu_revision = rn, pu_cursor = Some cur, pu_current = now\<rparr>,
                 h\<lparr>hb_operations := hb_operations h @ [operation_row p q Conflict rn cur now]\<rparr>)
          else
            bindE (apply_entity e p (pq_entity q) (pq_id q) (pq_payload q) (rn + 1) (pq_updated q) now h) (\<lambda>(canonical, h1).
              let c = max_cursor (hp_scope p) h1 + 1
              in Inr (\<lparr>pu_status = Applied, pu_revision = rn + 1, pu_cursor = Some c, pu_current = None\<rparr>,
                bump_cursor p c
                 (h1\<lparr>hb_events := hb_events h1 @ [\<lparr>ev_scope = hp_scope p, ev_cursor = c, ev_source = hp_device p,
                        ev_entity = pq_entity q, ev_id = pq_id q, ev_revision = rn + 1, ev_updated = pq_updated q,
                        ev_payload = canonical\<rparr>],
                     hb_operations := hb_operations h1 @ [operation_row p q Applied (rn + 1) c (Some canonical)]\<rparr>)))))"

definition push :: "hub_env \<Rightarrow> hub_principal \<Rightarrow> push_request \<Rightarrow> hub \<Rightarrow> (hub_error + push_result) \<times> hub" where
  "push e p q h =
     (if pq_device q \<noteq> hp_device p
      then (Inl (EntityInvalid ''device_id does not match authenticated device''), h)
      else if take 8 (pq_operation q) = ''capture:''
      then (Inl (EntityInvalid ''sync operation_id uses a reserved namespace''), h)
      else transact (push_tx e p q) h)"

section \<open>The change feed\<close>

definition feed :: "hub_scope \<Rightarrow> hub \<Rightarrow> hub_event list" where
  "feed k h = sort_key ev_cursor (events_in k h)"

text \<open>
  The reads of \<open>list_changes\<close> and \<open>snapshot\<close> are separate statements outside a transaction, between
  which other connections may commit: each has a database of its own, \<open>h1\<close> for the first statement,
  \<open>h2\<close> for the second and so on.
\<close>

definition changes_after :: "hub_scope \<Rightarrow> nat \<Rightarrow> nat \<Rightarrow> hub \<Rightarrow> hub_event list" where
  "changes_after k cursor limit h = take limit (filter (\<lambda>v. cursor < ev_cursor v) (feed k h))"

definition list_changes :: "hub_principal \<Rightarrow> nat \<Rightarrow> nat \<Rightarrow> hub \<Rightarrow> hub \<Rightarrow> hub \<Rightarrow> (nat \<times> hub_event list) \<times> hub" where
  "list_changes p cursor limit h1 h2 h3 =
     (let rows = changes_after (hp_scope p) cursor limit h1;
          ret = (if rows = [] then max_cursor (hp_scope p) h2 else ev_cursor (last rows))
      in ((ret, rows), bump_cursor p ret h3))"

text \<open>
  The loop of the WebSocket \<open>/sync/events\<close> (\<open>api/hub.py\<close>), one page per turn: the records are sent, the
  cursor moves to the last one sent; after an empty page the loop waits and reads again.
\<close>

definition next_cursor :: "nat \<Rightarrow> hub_event list \<Rightarrow> nat" where
  "next_cursor cursor rows = (if rows = [] then cursor else ev_cursor (last rows))"

fun stream_changes :: "hub_scope \<Rightarrow> nat \<Rightarrow> hub list \<Rightarrow> nat \<times> hub_event list" where
  "stream_changes k cursor [] = (cursor, [])"
| "stream_changes k cursor (h # hs) =
     (let rows = changes_after k cursor 100 h; (c, more) = stream_changes k (next_cursor cursor rows) hs
      in (c, rows @ more))"

section \<open>The snapshot\<close>

record change =
  cg_cursor :: nat
  cg_source :: string
  cg_entity :: entity
  cg_id :: string
  cg_revision :: nat
  cg_time :: rat
  cg_payload :: jdict

definition change_from_row :: "hub_event \<Rightarrow> change" where
  "change_from_row v = \<lparr>cg_cursor = ev_cursor v, cg_source = ev_source v, cg_entity = ev_entity v, cg_id = ev_id v,
     cg_revision = ev_revision v, cg_time = ev_updated v, cg_payload = ev_payload v\<rparr>"

definition latest_events :: "hub_scope \<Rightarrow> hub \<Rightarrow> ((entity \<times> string) \<times> hub_event) list" where
  "latest_events k h = fold (\<lambda>v m. AList.update (ev_entity v, ev_id v) v m) (feed k h) []"

text \<open>\<open>int(payload[key])\<close> where a missing key and every conversion error count as no value\<close>

definition int_at :: "jdict \<Rightarrow> string \<Rightarrow> int option" where
  "int_at d k = (case map_of d k of None \<Rightarrow> None | Some j \<Rightarrow> py_int_of j)"

definition transcript_event_matches_row :: "hub_env \<Rightarrow> hub_event \<Rightarrow> hub_segment \<Rightarrow> bool" where
  "transcript_event_matches_row e v r =
     (let d = ev_payload v in
      int_at d ''segment_id'' = Some (int (sg_id r)) \<or>
      (py_str e (dget d ''meeting_id'') = sg_meeting r \<and> int_at d ''start_ms'' = Some (sg_start r) \<and>
       int_at d ''end_ms'' = Some (sg_end r) \<and> py_str e (dget d ''text'') = sg_text r))"

definition parse_time :: "hub_env \<Rightarrow> string \<Rightarrow> hub_error + rat" where
  "parse_time e s = (case he_parse e s of None \<Rightarrow> Inl (HubValueError ''Invalid isoformat string'') | Some t \<Rightarrow> Inr t)"

definition snapshot_transcript :: "hub_env \<Rightarrow> hub_segment \<Rightarrow> hub_error + change" where
  "snapshot_transcript e r = bindE (parse_time e (sg_captured r)) (\<lambda>t.
     Inr \<lparr>cg_cursor = 0, cg_source = sg_device r, cg_entity = Transcript, cg_id = he_str e (JNum (of_nat (sg_id r))),
       cg_revision = 0, cg_time = t, cg_payload = segment_payload r\<rparr>)"

definition last_event :: "hub_event list \<Rightarrow> hub_event option" where
  "last_event vs = (case rev (sort_key ev_cursor vs) of [] \<Rightarrow> None | v # _ \<Rightarrow> Some v)"

fun snapshot_rows :: "hub_env \<Rightarrow> hub_event list \<Rightarrow> nat list \<Rightarrow> nat list \<Rightarrow> hub_segment list
    \<Rightarrow> hub_error + change list \<times> nat list" where
  "snapshot_rows e evs consumed emitted [] = Inr ([], consumed)"
| "snapshot_rows e evs consumed emitted (r # rs) =
     (let matching = filter (\<lambda>v. transcript_event_matches_row e v r) evs;
          consumed' = map ev_cursor matching @ consumed in
      case last_event matching of
        None \<Rightarrow> bindE (snapshot_transcript e r) (\<lambda>c.
                 bindE (snapshot_rows e evs consumed' emitted rs) (\<lambda>(out, cs). Inr (c # out, cs)))
      | Some v \<Rightarrow>
          if ev_cursor v \<in> set emitted then snapshot_rows e evs consumed' emitted rs
          else bindE (snapshot_rows e evs consumed' (ev_cursor v # emitted) rs)
                 (\<lambda>(out, cs). Inr (change_from_row v # out, cs)))"

definition snapshot_transcripts :: "hub_env \<Rightarrow> hub_segment list \<Rightarrow> hub_event list \<Rightarrow> hub_error + change list" where
  "snapshot_transcripts e rows evs =
     bindE (snapshot_rows e evs [] [] rows) (\<lambda>(out, consumed).
       Inr (out @ map change_from_row (filter (\<lambda>v. ev_cursor v \<notin> set consumed) evs)))"

definition snapshot_summary :: "hub_env \<Rightarrow> ((entity \<times> string) \<times> hub_event) list \<Rightarrow> hub_meeting \<Rightarrow> hub_error + change" where
  "snapshot_summary e m r =
     (case map_of m (Summary, mt_id r) of
        Some v \<Rightarrow> Inr (change_from_row v)
      | None \<Rightarrow> bindE (parse_time e (occurred_at r)) (\<lambda>t.
          Inr \<lparr>cg_cursor = 0, cg_source = mt_device r, cg_entity = Summary, cg_id = mt_id r, cg_revision = 0,
            cg_time = t, cg_payload = minutes_payload r (the (mt_minutes r))\<rparr>))"

fun collectE :: "('e + 'a) list \<Rightarrow> 'e + 'a list" where
  "collectE [] = Inr []"
| "collectE (x # xs) = bindE x (\<lambda>a. bindE (collectE xs) (\<lambda>bs. Inr (a # bs)))"

definition snapshot_memory :: "((entity \<times> string) \<times> hub_event) list \<Rightarrow> hub_memory \<Rightarrow> change" where
  "snapshot_memory m r =
     (case map_of m (Memory, mm_id r) of
        Some v \<Rightarrow> change_from_row v
      | None \<Rightarrow> \<lparr>cg_cursor = 0, cg_source = ''sync-snapshot'', cg_entity = Memory, cg_id = mm_id r,
          cg_revision = mm_revision r, cg_time = mm_updated r, cg_payload = memory_payload r\<rparr>)"

record snapshot_result =
  sn_cursor :: nat
  sn_transcripts :: "change list"
  sn_summaries :: "change list"
  sn_memories :: "change list"

text \<open>\<open>COALESCE(finalized_at, ended_at, started_at)\<close>\<close>

definition sort_time :: "hub_meeting \<Rightarrow> string" where
  "sort_time r = (case coalesce (mt_finalized r) (mt_ended r) of None \<Rightarrow> mt_started r | Some t \<Rightarrow> t)"

definition snapshot :: "hub_env \<Rightarrow> hub_principal \<Rightarrow> hub \<Rightarrow> hub \<Rightarrow> hub \<Rightarrow> hub \<Rightarrow> hub \<Rightarrow> hub_error + snapshot_result" where
  "snapshot e p h1 h2 h3 h4 h5 =
     (let k = hp_scope p; m = latest_events k h1;
          evs = sort_key ev_cursor (map snd (filter (\<lambda>((t, i), v). t = Transcript) m));
          segs = sort_key sg_id (filter (\<lambda>r. sg_scope r = k) (hb_segments h2));
          mts = sort_key sort_time (sort_key mt_id (filter (\<lambda>r. mt_scope r = k \<and> mt_minutes r \<noteq> None) (hb_meetings h3)));
          mms = sort_key mm_updated (sort_key mm_id
                  (filter (\<lambda>r. mm_scope r = k \<and> mm_status r = ''active'') (hb_memories h4)))
      in bindE (snapshot_transcripts e segs evs) (\<lambda>ts.
         bindE (collectE (map (snapshot_summary e m) mts)) (\<lambda>ss.
           Inr \<lparr>sn_cursor = max_cursor k h5, sn_transcripts = ts, sn_summaries = ss,
             sn_memories = map (snapshot_memory m) mms\<rparr>)))"

section \<open>Pairing and devices\<close>

definition ensure_device :: "hub_principal \<Rightarrow> hub \<Rightarrow> hub" where
  "ensure_device p h =
     (if \<exists>d \<in> set (hb_devices h). hd_dev_scope d = hp_scope p \<and> hd_dev_id d = hp_device p then h
      else h\<lparr>hb_devices := hb_devices h @ [\<lparr>hd_dev_scope = hp_scope p, hd_dev_id = hp_device p\<rparr>]\<rparr>)"

record pairing_record =
  pp_id :: string
  pp_source :: string
  pp_code :: string
  pp_created :: rat
  pp_expires :: rat

definition create_pairing_tx :: "hub_env \<Rightarrow> hub_principal \<Rightarrow> rat \<Rightarrow> hub \<Rightarrow> hub_error + pairing_record \<times> hub" where
  "create_pairing_tx e p ttl h =
     (let i = ''pairing_'' @ he_secret e 0; c = ''pair_'' @ he_secret e 1; h1 = ensure_device p h in
      bindE (guardE (\<forall>r \<in> set (hb_pairings h1). pr_id r \<noteq> i \<and> pr_code_hash r \<noteq> he_hash e c) HubIntegrityError) (\<lambda>_.
        Inr (\<lparr>pp_id = i, pp_source = hp_device p, pp_code = c, pp_created = he_now e, pp_expires = he_now e + ttl\<rparr>,
             h1\<lparr>hb_pairings := hb_pairings h1 @ [\<lparr>pr_id = i, pr_scope = hp_scope p, pr_source = hp_device p,
                  pr_code_hash = he_hash e c, pr_expires = he_now e + ttl, pr_claimed = None, pr_claimed_by = None\<rparr>]\<rparr>)))"

definition create_pairing :: "hub_env \<Rightarrow> hub_principal \<Rightarrow> rat \<Rightarrow> hub \<Rightarrow> (hub_error + pairing_record) \<times> hub" where
  "create_pairing e p ttl h =
     (if ttl \<le> 0 then (Inl (HubValueError ''pairing ttl must be positive''), h)
      else transact (create_pairing_tx e p ttl) h)"

record claimed_device =
  cd_device :: string
  cd_token :: string
  cd_cursor :: nat

definition claim_pairing_tx :: "hub_env \<Rightarrow> string \<Rightarrow> string \<Rightarrow> string \<Rightarrow> string \<Rightarrow> hub \<Rightarrow> hub_error + claimed_device \<times> hub" where
  "claim_pairing_tx e code dev name plat h =
     (case List.find (\<lambda>r. pr_code_hash r = he_hash e code) (hb_pairings h) of
        None \<Rightarrow> Inl (PairingNotFound ''pairing code invalid'')
      | Some r \<Rightarrow>
          if pr_claimed r \<noteq> None then Inl (PairingNotFound ''pairing code invalid'')
          else if pr_expires r \<le> he_now e then Inl (PairingNotFound ''pairing code expired'')
          else if \<exists>d \<in> set (hb_devices h). hd_dev_scope d = pr_scope r \<and> hd_dev_id d = dev then Inl DeviceAlreadyExists
          else
            let tok = ''sync_'' @ he_secret e 0; cur = max_cursor (pr_scope r) h in
            bindE (guardE (\<forall>d \<in> set (hb_sync_devices h). sd_token_hash d \<noteq> he_hash e tok \<and>
                     \<not> (sd_scope d = pr_scope r \<and> sd_id d = dev)) HubIntegrityError) (\<lambda>_.
            bindE (guardE ((pr_scope r, dev) \<notin> fst ` set (hb_cursors h)) HubIntegrityError) (\<lambda>_.
              Inr (\<lparr>cd_device = dev, cd_token = tok, cd_cursor = cur\<rparr>,
                   h\<lparr>hb_devices := hb_devices h @ [\<lparr>hd_dev_scope = pr_scope r, hd_dev_id = dev\<rparr>],
                     hb_sync_devices := hb_sync_devices h @ [\<lparr>sd_scope = pr_scope r, sd_id = dev, sd_name = name,
                       sd_platform = plat, sd_token_hash = he_hash e tok, sd_created = he_now e, sd_seen = he_now e,
                       sd_revoked = None\<rparr>],
                     hb_cursors := hb_cursors h @ [((pr_scope r, dev), cur)],
                     hb_pairings := update_where (\<lambda>q. pr_id q = pr_id r \<and> pr_claimed q = None)
                       (\<lambda>q. q\<lparr>pr_claimed := Some (he_now e), pr_claimed_by := Some dev\<rparr>) (hb_pairings h)\<rparr>))))"

definition claim_pairing :: "hub_env \<Rightarrow> string \<Rightarrow> string \<Rightarrow> string \<Rightarrow> string \<Rightarrow> hub \<Rightarrow> (hub_error + claimed_device) \<times> hub" where
  "claim_pairing e code dev name plat h = transact (claim_pairing_tx e code dev name plat) h"

record device_record =
  dd_id :: string
  dd_name :: string
  dd_platform :: string
  dd_created :: rat
  dd_seen :: rat
  dd_revoked :: "rat option"
  dd_cursor :: nat

definition device_record_of :: "hub \<Rightarrow> sync_device \<Rightarrow> device_record" where
  "device_record_of h d = \<lparr>dd_id = sd_id d, dd_name = sd_name d, dd_platform = sd_platform d, dd_created = sd_created d,
     dd_seen = sd_seen d, dd_revoked = sd_revoked d,
     dd_cursor = (case map_of (hb_cursors h) (sd_scope d, sd_id d) of None \<Rightarrow> 0 | Some n \<Rightarrow> n)\<rparr>"

definition list_devices :: "hub_principal \<Rightarrow> hub \<Rightarrow> device_record list" where
  "list_devices p h = map (device_record_of h)
     (sort_key sd_created (sort_key sd_id (filter (\<lambda>d. sd_scope d = hp_scope p) (hb_sync_devices h))))"

definition revoke_device_tx :: "hub_env \<Rightarrow> hub_principal \<Rightarrow> string \<Rightarrow> hub \<Rightarrow> hub_error + unit \<times> hub" where
  "revoke_device_tx e p dev h =
     (let mine = (\<lambda>d. sd_scope d = hp_scope p \<and> sd_id d = dev) in
      bindE (guardE (rowcount mine (hb_sync_devices h) = 1) SyncDeviceNotFound) (\<lambda>_.
        Inr ((), h\<lparr>hb_sync_devices := update_where mine
          (\<lambda>d. d\<lparr>sd_revoked := coalesce (sd_revoked d) (Some (he_now e)), sd_seen := he_now e\<rparr>) (hb_sync_devices h)\<rparr>)))"

definition revoke_device :: "hub_env \<Rightarrow> hub_principal \<Rightarrow> string \<Rightarrow> hub \<Rightarrow> (hub_error + device_record) \<times> hub" where
  "revoke_device e p dev h =
     (case transact (revoke_device_tx e p dev) h of
        (Inl x, h') \<Rightarrow> (Inl x, h')
      | (Inr _, h') \<Rightarrow>
          (case List.find (\<lambda>r. dd_id r = dev) (list_devices p h') of
             Some r \<Rightarrow> (Inr r, h') | None \<Rightarrow> (Inl HubStopIteration, h')))"

end
