(* ===== verification/SyncHubCorrect.thy ===== *)
theory SyncHubCorrect
  imports SyncHub Systems "HOL-Library.Sublist"
begin

text \<open>
  The invariant of the sync tables and its preservation.  The state of the system is the history of
  the database, newest first, since a read of several statements sees several of its states; a step
  prepends the next one.  \<open>hub_ok\<close>: the log of a scope is numbered without a gap, the revisions
  of an entity are consecutive, the events are the applied operations, the cursors of the devices
  stay within the log.  \<open>hub_le\<close>: what later states keep of earlier ones.
\<close>

named_theorems hub_simps "reading one table after another one was written"

section \<open>Steps\<close>

text \<open>Tables that only this store writes; all others may change under it at any time.\<close>

definition same_sync :: "hub \<Rightarrow> hub \<Rightarrow> bool" where
  "same_sync h h' = (hb_events h' = hb_events h \<and> hb_operations h' = hb_operations h \<and> hb_pairings h' = hb_pairings h \<and>
     hb_sync_devices h' = hb_sync_devices h \<and> hb_cursors h' = hb_cursors h)"

inductive hub_step :: "hub list \<Rightarrow> hub list \<Rightarrow> bool" where
  push_step: "push e p q h = (r, h') \<Longrightarrow> hub_step (h # hs) (h' # h # hs)"
| list_step: "h1 \<in> set (h # hs) \<Longrightarrow> h2 \<in> set (h # hs) \<Longrightarrow> list_changes p c l h1 h2 h = (r, h') \<Longrightarrow>
     hub_step (h # hs) (h' # h # hs)"
| create_step: "create_pairing e p ttl h = (r, h') \<Longrightarrow> hub_step (h # hs) (h' # h # hs)"
| claim_step: "claim_pairing e code dev name plat h = (r, h') \<Longrightarrow> hub_step (h # hs) (h' # h # hs)"
| revoke_step: "revoke_device e p dev h = (r, h') \<Longrightarrow> hub_step (h # hs) (h' # h # hs)"
| local_step: "same_sync h h' \<Longrightarrow> hub_step (h # hs) (h' # h # hs)"

definition hub_init :: "hub list \<Rightarrow> bool" where
  "hub_init hs = (\<exists>h. hs = [h] \<and> hb_events h = [] \<and> hb_operations h = [] \<and> hb_pairings h = [] \<and>
     hb_sync_devices h = [] \<and> hb_cursors h = [])"

section \<open>The invariant\<close>

definition consecutive :: "nat list \<Rightarrow> bool" where
  "consecutive ns = (\<exists>a. ns = [a ..< a + length ns])"

definition hub_events_of :: "hub_scope \<Rightarrow> entity \<Rightarrow> string \<Rightarrow> hub \<Rightarrow> hub_event list" where
  "hub_events_of k t i h = filter (\<lambda>v. ev_entity v = t \<and> ev_id v = i) (events_in k h)"

definition op_event :: "hub_operation \<Rightarrow> hub_event" where
  "op_event r = \<lparr>ev_scope = op_scope r, ev_cursor = the (op_cursor r), ev_source = op_source r, ev_entity = op_entity r,
     ev_id = op_eid r, ev_revision = op_revision r, ev_updated = op_updated r, ev_payload = the (op_current r)\<rparr>"

definition applied_ops :: "hub \<Rightarrow> hub_operation list" where
  "applied_ops h = filter (\<lambda>r. op_status r = Applied) (hb_operations h)"

definition log_numbered :: "hub \<Rightarrow> bool" where
  "log_numbered h = (\<forall>k. map ev_cursor (events_in k h) = [1 ..< Suc (length (events_in k h))])"

definition revisions_consecutive :: "hub \<Rightarrow> bool" where
  "revisions_consecutive h = (\<forall>k t i. consecutive (map ev_revision (hub_events_of k t i h)))"

definition ops_ok :: "hub \<Rightarrow> bool" where
  "ops_ok h = (distinct (map op_id (hb_operations h)) \<and> map op_event (applied_ops h) = hb_events h \<and>
     (\<forall>r \<in> set (applied_ops h). int (op_revision r) = op_base r + 1))"

definition devices_ok :: "hub \<Rightarrow> bool" where
  "devices_ok h = (distinct (map pr_id (hb_pairings h)) \<and> distinct (map pr_code_hash (hb_pairings h)) \<and>
     distinct (map (\<lambda>d. (sd_scope d, sd_id d)) (hb_sync_devices h)) \<and>
     (\<forall>((k, d), n) \<in> set (hb_cursors h). n \<le> max_cursor k h))"

definition hub_ok :: "hub \<Rightarrow> bool" where
  "hub_ok h = (log_numbered h \<and> revisions_consecutive h \<and> ops_ok h \<and> devices_ok h)"

definition pairing_le :: "hub_pairing \<Rightarrow> hub_pairing \<Rightarrow> bool" where
  "pairing_le a b = (pr_id b = pr_id a \<and> pr_code_hash b = pr_code_hash a \<and> pr_scope b = pr_scope a \<and>
     pr_expires b = pr_expires a \<and> (pr_claimed a \<noteq> None \<longrightarrow> b = a))"

definition hub_le :: "hub \<Rightarrow> hub \<Rightarrow> bool" where
  "hub_le a b = (prefix (hb_events a) (hb_events b) \<and> prefix (hb_operations a) (hb_operations b) \<and>
     (\<exists>qs. prefix qs (hb_pairings b) \<and> list_all2 pairing_le (hb_pairings a) qs))"

definition history_ok :: "hub list \<Rightarrow> bool" where
  "history_ok hs = (hs \<noteq> [] \<and> (\<forall>h \<in> set hs. hub_ok h) \<and> sorted_wrt (\<lambda>new old. hub_le old new) hs)"

section \<open>The order of states\<close>

lemma pairing_le_refl [simp]: "pairing_le a a"
  by (simp add: pairing_le_def)

lemma pairing_le_trans: "pairing_le a b \<Longrightarrow> pairing_le b c \<Longrightarrow> pairing_le a c"
  by (auto simp: pairing_le_def)

lemma pairings_self [simp]: "\<exists>qs. prefix qs ps \<and> list_all2 pairing_le ps qs"
  by (rule exI[of _ ps]) (simp add: list_all2_refl)

lemma hub_le_refl [simp]: "hub_le h h"
  by (simp add: hub_le_def)

lemma hub_le_trans:
  assumes "hub_le a b" "hub_le b c"
  shows "hub_le a c"
proof -
  obtain qs where qs: "prefix qs (hb_pairings b)" "list_all2 pairing_le (hb_pairings a) qs"
    using assms(1) by (auto simp: hub_le_def)
  obtain rs where rs: "prefix rs (hb_pairings c)" "list_all2 pairing_le (hb_pairings b) rs"
    using assms(2) by (auto simp: hub_le_def)
  obtain zs where zs: "hb_pairings b = qs @ zs" using qs(1) by (auto simp: prefix_def)
  obtain us vs where us: "rs = us @ vs" "list_all2 pairing_le qs us"
    using rs(2) unfolding zs by (auto simp: list_all2_append1)
  have "list_all2 pairing_le (hb_pairings a) us"
    using list_all2_trans[of pairing_le pairing_le pairing_le] pairing_le_trans qs(2) us(2) by blast
  moreover have "prefix us (hb_pairings c)" using rs(1) us(1) by (metis append_prefixD)
  ultimately show ?thesis
    using assms unfolding hub_le_def by (meson prefix_order.trans)
qed

lemma events_in_le:
  assumes "hub_le a b"
  shows "prefix (events_in k a) (events_in k b)"
  using assms by (auto simp: hub_le_def events_in_def prefix_def)

lemma find_operation_le:
  assumes "hub_le a b" "find_operation i a = Some r"
  shows "find_operation i b = Some r"
proof -
  have find_append: "List.find P (xs @ ys) = (case List.find P xs of None \<Rightarrow> List.find P ys | Some x \<Rightarrow> Some x)" for P xs and ys :: "hub_operation list"
    by (induction xs) auto
  obtain zs where "hb_operations b = hb_operations a @ zs" using assms(1) by (auto simp: hub_le_def prefix_def)
  then show ?thesis using assms(2) by (simp add: find_operation_def find_append)
qed

section \<open>The log\<close>

lemma feed_eq:
  assumes "log_numbered h"
  shows "feed k h = events_in k h"
proof -
  have "sorted (map ev_cursor (events_in k h))"
    using assms unfolding log_numbered_def by (metis sorted_upt)
  then show ?thesis unfolding feed_def by (rule sort_key_id_if_sorted)
qed

lemma max_cursor_eq:
  assumes "log_numbered h"
  shows "max_cursor k h = length (events_in k h)"
proof -
  have "max_cursor k h = Max (insert 0 (set (map ev_cursor (events_in k h))))"
    by (simp add: max_cursor_def max0_Max)
  also have "set (map ev_cursor (events_in k h)) = {1 ..< Suc (length (events_in k h))}"
    using assms unfolding log_numbered_def by (metis set_upt)
  also have "Max (insert 0 {1 ..< Suc (length (events_in k h))}) = length (events_in k h)"
    by (rule Max_eqI) (auto simp: Suc_le_eq)
  finally show ?thesis .
qed

lemma cursor_pos:
  assumes "log_numbered h" "n < length (events_in k h)"
  shows "ev_cursor (events_in k h ! n) = Suc n"
proof -
  have "map ev_cursor (events_in k h) ! n = [1 ..< Suc (length (events_in k h))] ! n"
    using assms(1) unfolding log_numbered_def by metis
  then show ?thesis using assms(2) by (simp del: upt_Suc)
qed

lemma max_cursor_le:
  assumes "log_numbered a" "log_numbered b" "hub_le a b"
  shows "max_cursor k a \<le> max_cursor k b"
  using assms events_in_le[OF assms(3), of k] by (simp add: max_cursor_eq prefix_length_le)

lemma cursor_le_max: "v \<in> set (events_in k h) \<Longrightarrow> ev_cursor v \<le> max_cursor k h"
  unfolding max_cursor_def max0_Max by (rule Max_ge) auto

lemma latest_event_eq:
  assumes "log_numbered h"
  shows "latest_event k t i h = (if hub_events_of k t i h = [] then None else Some (last (hub_events_of k t i h)))"
proof -
  have "sorted (map ev_cursor (events_in k h))"
    using assms unfolding log_numbered_def by (metis sorted_upt)
  then have "sorted (map ev_cursor (hub_events_of k t i h))"
    unfolding hub_events_of_def by (rule sorted_filter)
  then have s: "sort_key ev_cursor (filter (\<lambda>v. ev_entity v = t \<and> ev_id v = i) (events_in k h)) = hub_events_of k t i h"
    unfolding hub_events_of_def by (rule sort_key_id_if_sorted)
  show ?thesis
    unfolding latest_event_def s by (cases "hub_events_of k t i h" rule: rev_cases) auto
qed

lemma consecutive_snoc:
  assumes "consecutive ns" "ns \<noteq> [] \<Longrightarrow> n = Suc (last ns)"
  shows "consecutive (ns @ [n])"
proof (cases ns rule: rev_cases)
  case Nil
  then show ?thesis by (auto simp: consecutive_def intro!: exI[of _ n])
next
  case (snoc ms m)
  obtain a where a: "ns = [a ..< a + length ns]" using assms(1) by (auto simp: consecutive_def)
  have "ns \<noteq> []" using snoc by simp
  then have "last ns = a + length ns - 1" using a by (metis add.right_neutral last_upt less_add_same_cancel1 length_greater_0_conv)
  with assms(2) \<open>ns \<noteq> []\<close> have "n = a + length ns" by (cases ns) auto
  then have "ns @ [n] = [a ..< a + length (ns @ [n])]" using a by (metis add_Suc_right le_add1 length_append_singleton upt_Suc_append)
  then show ?thesis unfolding consecutive_def by blast
qed

section \<open>Writes that leave the sync tables alone\<close>

lemma same_sync_refl [simp]: "same_sync h h"
  by (simp add: same_sync_def)

lemma same_sync_trans: "same_sync a b \<Longrightarrow> same_sync b c \<Longrightarrow> same_sync a c"
  by (simp add: same_sync_def)

lemma ensure_meeting_same: "same_sync h (ensure_meeting p m t h)"
  by (simp add: ensure_meeting_def same_sync_def)

lemma store_segment_same: "store_segment p sid r h = Inr (n, h') \<Longrightarrow> same_sync h h'"
  by (auto simp: store_segment_def same_sync_def Let_def split: option.splits if_splits)

lemma store_memory_same: "store_memory r h = Inr h' \<Longrightarrow> same_sync h h'"
  by (auto simp: store_memory_def same_sync_def Let_def split: if_splits)

lemma apply_transcript_same:
  assumes "apply_transcript e p i d t cur h = Inr (c, h')"
  shows "same_sync h h'"
proof -
  obtain sid r m cap n where "store_segment p sid r (ensure_meeting p m cap h) = Inr (n, h')"
    using assms by (auto simp: apply_transcript_def bindE_Inr_iff Let_def split: if_splits prod.splits)
  then show ?thesis by (rule same_sync_trans[OF ensure_meeting_same store_segment_same])
qed

lemma apply_summary_same:
  assumes "apply_summary e p i d t h = Inr (c, h')"
  shows "same_sync h h'"
  using assms by (auto simp: apply_summary_def Let_def same_sync_def ensure_meeting_def split: if_splits)

lemma apply_memory_same:
  assumes "apply_memory e p i d rn t h = Inr (c, h')"
  shows "same_sync h h'"
  using assms store_memory_same
  by (auto simp: apply_memory_def bindE_Inr_iff Let_def split: if_splits option.splits)

lemma apply_entity_same:
  assumes "apply_entity e p t i d rn u cur h = Inr (c, h')"
  shows "same_sync h h'"
  using assms apply_transcript_same apply_summary_same apply_memory_same
  by (cases t) (auto simp: apply_entity_def)

section \<open>Push, case by case\<close>

lemma push_cases:
  assumes "push e p q h = (r, h')"
  obtains
    (failed) x where "r = Inl x" "h' = h"
  | (duplicate) o' where "find_operation (pq_operation q) h = Some o'" "op_scope o' = hp_scope p" "h' = h"
      "r = Inr \<lparr>pu_status = Duplicate, pu_revision = op_revision o', pu_cursor = op_cursor o', pu_current = op_current o'\<rparr>"
  | (conflict) rn cur now where "find_operation (pq_operation q) h = None"
      "current_entity (hp_scope p) (pq_entity q) (pq_id q) h = Inr (rn, cur, now)" "pq_base q \<noteq> int rn"
      "r = Inr \<lparr>pu_status = Conflict, pu_revision = rn, pu_cursor = Some cur, pu_current = now\<rparr>"
      "h' = h\<lparr>hb_operations := hb_operations h @ [operation_row p q Conflict rn cur now]\<rparr>"
  | (applied) rn cur now canonical h1 where "find_operation (pq_operation q) h = None"
      "current_entity (hp_scope p) (pq_entity q) (pq_id q) h = Inr (rn, cur, now)" "pq_base q = int rn"
      "apply_entity e p (pq_entity q) (pq_id q) (pq_payload q) (rn + 1) (pq_updated q) now h = Inr (canonical, h1)"
      "same_sync h h1"
      "r = Inr \<lparr>pu_status = Applied, pu_revision = rn + 1, pu_cursor = Some (max_cursor (hp_scope p) h + 1), pu_current = None\<rparr>"
      "h' = bump_cursor p (max_cursor (hp_scope p) h + 1)
         (h1\<lparr>hb_events := hb_events h @ [op_event (operation_row p q Applied (rn + 1) (max_cursor (hp_scope p) h + 1) (Some canonical))],
             hb_operations := hb_operations h @ [operation_row p q Applied (rn + 1) (max_cursor (hp_scope p) h + 1) (Some canonical)]\<rparr>)"
proof (cases r)
  case (Inl x)
  with assms have "h' = h" by (auto simp: push_def split: if_splits dest: transact_InlD)
  with Inl failed show thesis by blast
next
  case (Inr y)
  with assms have tx: "push_tx e p q h = Inr (y, h')" by (auto simp: push_def split: if_splits dest: transact_InrD)
  show thesis
  proof (cases "find_operation (pq_operation q) h")
    case (Some o')
    with tx Inr duplicate[of o'] show thesis by (auto simp: push_tx_def split: if_splits)
  next
    case None
    with tx obtain rn cur now where ce: "current_entity (hp_scope p) (pq_entity q) (pq_id q) h = Inr (rn, cur, now)"
      by (auto simp: push_tx_def bindE_Inr_iff)
    show thesis
    proof (cases "pq_base q = int rn")
      case False
      with tx None ce Inr conflict[of rn cur now] show thesis by (auto simp: push_tx_def split: if_splits)
    next
      case True
      with tx None ce obtain canonical h1 where
        ap: "apply_entity e p (pq_entity q) (pq_id q) (pq_payload q) (rn + 1) (pq_updated q) now h = Inr (canonical, h1)"
        by (auto simp: push_tx_def bindE_Inr_iff)
      then have same: "same_sync h h1" by (rule apply_entity_same)
      then have "max_cursor (hp_scope p) h1 = max_cursor (hp_scope p) h" by (simp add: same_sync_def max_cursor_def events_in_def)
      with tx None ce True ap same Inr applied[OF None ce True ap same] show thesis
        by (auto simp: push_tx_def Let_def op_event_def operation_row_def same_sync_def)
    qed
  qed
qed

section \<open>The invariant under each write\<close>

lemma bump_cursor_tables [hub_simps]:
  "hb_events (bump_cursor p n h) = hb_events h" "hb_operations (bump_cursor p n h) = hb_operations h"
  "hb_pairings (bump_cursor p n h) = hb_pairings h" "hb_sync_devices (bump_cursor p n h) = hb_sync_devices h"
  by (simp_all add: bump_cursor_def)

lemma hub_ok_same: "same_sync h h' \<Longrightarrow> hub_ok h \<Longrightarrow> hub_ok h'"
  by (simp add: hub_ok_def same_sync_def log_numbered_def revisions_consecutive_def ops_ok_def devices_ok_def
      applied_ops_def hub_events_of_def events_in_def max_cursor_def)

lemma hub_le_same: "same_sync h h' \<Longrightarrow> hub_le h h'"
  by (auto simp: hub_le_def same_sync_def list_all2_refl)

lemma bump_cursor_ok:
  assumes "hub_ok h" "n \<le> max_cursor (hp_scope p) h"
  shows "hub_ok (bump_cursor p n h)"
proof -
  have "events_in k (bump_cursor p n h) = events_in k h" for k by (simp add: events_in_def hub_simps)
  moreover from this have "max_cursor k (bump_cursor p n h) = max_cursor k h" for k by (simp add: max_cursor_def)
  moreover have "\<forall>((k, d), m) \<in> set (hb_cursors (bump_cursor p n h)). m \<le> max_cursor k h"
    using assms unfolding hub_ok_def devices_ok_def bump_cursor_def by (fastforce split: if_splits)
  ultimately show ?thesis
    using assms(1) by (simp add: hub_ok_def log_numbered_def revisions_consecutive_def ops_ok_def devices_ok_def
        applied_ops_def hub_events_of_def hub_simps)
qed

text \<open>A new operation of a kind that is not applied.\<close>

lemma append_conflict_ok:
  assumes "hub_ok h" "find_operation (pq_operation q) h = None" "st \<noteq> Applied"
  shows "hub_ok (h\<lparr>hb_operations := hb_operations h @ [operation_row p q st rn cur now]\<rparr>)"
proof -
  have "pq_operation q \<notin> set (map op_id (hb_operations h))"
    using assms(2) by (auto simp: find_operation_def find_None_iff)
  then show ?thesis
    using assms(1,3) by (simp add: hub_ok_def log_numbered_def revisions_consecutive_def ops_ok_def devices_ok_def
        applied_ops_def hub_events_of_def events_in_def max_cursor_def operation_row_def)
qed

lemma append_applied_ok:
  fixes h :: hub and p :: hub_principal and q :: push_request and rn :: nat and d :: jdict
  defines "c \<equiv> max_cursor (hp_scope p) h + 1"
  defines "r \<equiv> operation_row p q Applied (rn + 1) c (Some d)"
  assumes ok: "hub_ok h" and new: "find_operation (pq_operation q) h = None" and base: "pq_base q = int rn"
    and last: "hub_events_of (hp_scope p) (pq_entity q) (pq_id q) h \<noteq> [] \<Longrightarrow>
      ev_revision (last (hub_events_of (hp_scope p) (pq_entity q) (pq_id q) h)) = rn"
  shows "hub_ok (h\<lparr>hb_events := hb_events h @ [op_event r], hb_operations := hb_operations h @ [r]\<rparr>)" (is "hub_ok ?h")
proof -
  have r: "ev_scope (op_event r) = hp_scope p" "ev_cursor (op_event r) = c" "ev_entity (op_event r) = pq_entity q"
      "ev_id (op_event r) = pq_id q" "ev_revision (op_event r) = rn + 1"
    by (simp_all add: r_def op_event_def operation_row_def)
  have ev: "events_in k ?h = events_in k h @ (if k = hp_scope p then [op_event r] else [])" for k
    by (simp add: events_in_def r)
  have c: "c = Suc (length (events_in (hp_scope p) h))"
    using ok by (simp add: c_def max_cursor_eq hub_ok_def)
  have "log_numbered ?h"
    unfolding log_numbered_def
  proof
    fix k
    have "map ev_cursor (events_in k h) = [1 ..< Suc (length (events_in k h))]"
      using ok unfolding hub_ok_def log_numbered_def by blast
    then show "map ev_cursor (events_in k ?h) = [1 ..< Suc (length (events_in k ?h))]"
      by (cases "k = hp_scope p") (simp_all add: ev r c)
  qed
  moreover from this have mc: "max_cursor k h \<le> max_cursor k ?h" for k
    using ok ev by (simp add: max_cursor_eq hub_ok_def)
  moreover have "revisions_consecutive ?h"
    unfolding revisions_consecutive_def
  proof (intro allI)
    fix k t i
    have old: "consecutive (map ev_revision (hub_events_of k t i h))"
      using ok unfolding hub_ok_def revisions_consecutive_def by blast
    show "consecutive (map ev_revision (hub_events_of k t i ?h))"
    proof (cases "k = hp_scope p \<and> t = pq_entity q \<and> i = pq_id q")
      case True
      then have "map ev_revision (hub_events_of k t i ?h) = map ev_revision (hub_events_of k t i h) @ [rn + 1]"
        by (simp add: hub_events_of_def ev r)
      moreover have "map ev_revision (hub_events_of k t i h) \<noteq> [] \<Longrightarrow> rn + 1 = Suc (last (map ev_revision (hub_events_of k t i h)))"
        using last True by (simp add: last_map)
      ultimately show ?thesis using old consecutive_snoc by metis
    next
      case False
      then have "hub_events_of k t i ?h = hub_events_of k t i h" by (auto simp: hub_events_of_def ev r)
      with old show ?thesis by simp
    qed
  qed
  moreover have "ops_ok ?h"
  proof -
    have "pq_operation q \<notin> set (map op_id (hb_operations h))"
      using new by (auto simp: find_operation_def find_None_iff)
    then show ?thesis using ok base by (auto simp: ops_ok_def hub_ok_def applied_ops_def r_def operation_row_def)
  qed
  moreover have "devices_ok ?h"
    using ok mc unfolding devices_ok_def hub_ok_def by (fastforce intro: order_trans)
  ultimately show ?thesis by (simp add: hub_ok_def)
qed

lemma current_entity_last:
  assumes "log_numbered h" "current_entity k t i h = Inr (rn, cur, now)" "hub_events_of k t i h \<noteq> []"
  shows "ev_revision (last (hub_events_of k t i h)) = rn"
  using assms by (simp add: current_entity_def latest_event_eq)

lemma hub_le_append:
  "hub_le h (h\<lparr>hb_operations := hb_operations h @ rs\<rparr>)"
  "hub_le h (h\<lparr>hb_events := hb_events h @ vs, hb_operations := hb_operations h @ rs\<rparr>)"
  by (auto simp: hub_le_def list_all2_refl)

lemma push_ok:
  assumes "push e p q h = (r, h')" "hub_ok h"
  shows "hub_ok h' \<and> hub_le h h'"
  using assms(1)
proof (cases rule: push_cases)
  case (applied rn cur now canonical h1)
  let ?c = "max_cursor (hp_scope p) h + 1"
  let ?r = "operation_row p q Applied (rn + 1) ?c (Some canonical)"
  let ?g = "h\<lparr>hb_events := hb_events h @ [op_event ?r], hb_operations := hb_operations h @ [?r]\<rparr>"
  let ?g1 = "h1\<lparr>hb_events := hb_events h @ [op_event ?r], hb_operations := hb_operations h @ [?r]\<rparr>"
  have num: "log_numbered h" using assms(2) by (simp add: hub_ok_def)
  have "hub_ok ?g"
    by (rule append_applied_ok[OF assms(2) applied(1,3)]) (rule current_entity_last[OF num applied(2)])
  moreover have same: "same_sync ?g ?g1" using applied(5) by (simp add: same_sync_def)
  ultimately have ok1: "hub_ok ?g1" by (simp add: hub_ok_same)
  have "op_event ?r \<in> set (events_in (hp_scope p) ?g1)" by (simp add: events_in_def op_event_def operation_row_def)
  then have "ev_cursor (op_event ?r) \<le> max_cursor (hp_scope p) ?g1" by (rule cursor_le_max)
  then have "?c \<le> max_cursor (hp_scope p) ?g1" by (simp add: op_event_def operation_row_def)
  with ok1 have "hub_ok h'" unfolding applied(7) by (rule bump_cursor_ok)
  moreover have "hub_le h h'"
  proof -
    have "hub_le h ?g1" using hub_le_append(2) hub_le_same[OF same] by (rule hub_le_trans)
    then show ?thesis by (simp add: applied(7) hub_le_def hub_simps)
  qed
  ultimately show ?thesis ..
qed (use assms(2) append_conflict_ok hub_le_append in \<open>auto\<close>)

lemma changes_after_subset: "v \<in> set (changes_after k c l h) \<Longrightarrow> v \<in> set (events_in k h)"
  by (auto simp: changes_after_def feed_def dest!: in_set_takeD)

lemma list_changes_ok:
  assumes "list_changes p c l h1 h2 h = (r, h')" "hub_ok h1" "hub_ok h2" "hub_ok h" "hub_le h1 h" "hub_le h2 h"
  shows "hub_ok h' \<and> hub_le h h'"
proof -
  let ?k = "hp_scope p"
  let ?rows = "changes_after ?k c l h1"
  let ?ret = "if ?rows = [] then max_cursor ?k h2 else ev_cursor (last ?rows)"
  have h': "h' = bump_cursor p ?ret h" using assms(1) by (auto simp: list_changes_def Let_def)
  have "?ret \<le> max_cursor ?k h"
  proof (cases "?rows = []")
    case True
    then show ?thesis using assms max_cursor_le by (auto simp: hub_ok_def)
  next
    case False
    then have "last ?rows \<in> set (events_in ?k h1)" by (rule changes_after_subset[OF last_in_set])
    then have "ev_cursor (last ?rows) \<le> max_cursor ?k h1" by (rule cursor_le_max)
    also have "\<dots> \<le> max_cursor ?k h" using assms by (intro max_cursor_le) (auto simp: hub_ok_def)
    finally show ?thesis using False by simp
  qed
  then have "hub_ok h'" unfolding h' by (rule bump_cursor_ok[OF assms(4)])
  moreover have "hub_le h h'" using hub_le_refl[of h] by (simp add: h' hub_le_def hub_simps)
  ultimately show ?thesis ..
qed

lemma max_cursor_cong: "hb_events h' = hb_events h \<Longrightarrow> max_cursor k h' = max_cursor k h"
  by (simp add: max_cursor_def events_in_def)

text \<open>The log is untouched by the operations on devices.\<close>

lemma hub_ok_devices:
  assumes "hub_ok h" "hb_events h' = hb_events h" "hb_operations h' = hb_operations h" "devices_ok h'"
  shows "hub_ok h'"
  using assms by (simp add: hub_ok_def log_numbered_def revisions_consecutive_def ops_ok_def applied_ops_def hub_events_of_def events_in_def)

lemma create_pairing_ok:
  assumes "create_pairing e p ttl h = (r, h')" "hub_ok h"
  shows "hub_ok h' \<and> hub_le h h'"
proof (cases r)
  case (Inl x)
  with assms have "h' = h" by (auto simp: create_pairing_def split: if_splits dest: transact_InlD)
  with assms show ?thesis by simp
next
  case (Inr y)
  with assms(1) have tx: "create_pairing_tx e p ttl h = Inr (y, h')" by (auto simp: create_pairing_def split: if_splits dest: transact_InrD)
  then have h: "hb_events h' = hb_events h" "hb_operations h' = hb_operations h" "hb_cursors h' = hb_cursors h"
      "hb_sync_devices h' = hb_sync_devices h"
    by (auto simp: create_pairing_tx_def bindE_Inr_iff Let_def ensure_device_def)
  from tx obtain n where n: "hb_pairings h' = hb_pairings h @ [n]"
      "\<forall>r \<in> set (hb_pairings h). pr_id r \<noteq> pr_id n \<and> pr_code_hash r \<noteq> pr_code_hash n"
    by (auto simp: create_pairing_tx_def bindE_Inr_iff Let_def ensure_device_def split: if_splits)
  have "devices_ok h'"
    using assms(2) n h max_cursor_cong[OF h(1)] unfolding devices_ok_def hub_ok_def by auto
  then have "hub_ok h'" by (rule hub_ok_devices[OF assms(2) h(1,2)])
  moreover have "hub_le h h'"
    using hub_le_refl[of h] unfolding hub_le_def h n(1) by (meson prefix_prefix)
  ultimately show ?thesis ..
qed

lemma distinct_pairing_update:
  assumes "distinct (map g (hb_pairings h))" "\<And>q. g (f q) = g q"
  shows "distinct (map g (update_where P f (hb_pairings h)))"
  using assms by (simp add: map_update_where_id)

lemma claim_pairing_ok:
  assumes "claim_pairing e code dev name plat h = (r, h')" "hub_ok h"
  shows "hub_ok h' \<and> hub_le h h'"
proof (cases r)
  case (Inl x)
  with assms have "h' = h" by (auto simp: claim_pairing_def dest: transact_InlD)
  with assms show ?thesis by simp
next
  case (Inr y)
  with assms(1) have tx: "claim_pairing_tx e code dev name plat h = Inr (y, h')" by (auto simp: claim_pairing_def dest: transact_InrD)
  then obtain q where f: "List.find (\<lambda>r. pr_code_hash r = he_hash e code) (hb_pairings h) = Some q"
    by (auto simp: claim_pairing_tx_def split: option.splits)
  note claimed = tx[unfolded claim_pairing_tx_def f option.case Let_def bindE_Inr_iff guardE_Inr_iff, simplified]
  have h: "hb_events h' = hb_events h" "hb_operations h' = hb_operations h"
    using claimed by (auto simp: bindE_Inr_iff split: if_splits)
  have q: "hb_pairings h' = update_where (\<lambda>q'. pr_id q' = pr_id q \<and> pr_claimed q' = None)
        (\<lambda>q'. q'\<lparr>pr_claimed := Some (he_now e), pr_claimed_by := Some dev\<rparr>) (hb_pairings h)"
      and cur: "hb_cursors h' = hb_cursors h @ [((pr_scope q, dev), max_cursor (pr_scope q) h)]"
    using claimed by (auto simp: bindE_Inr_iff split: if_splits)
  obtain d where d: "hb_sync_devices h' = hb_sync_devices h @ [d]" "sd_scope d = pr_scope q" "sd_id d = dev"
    using claimed by (auto simp: bindE_Inr_iff split: if_splits)
  have "(sd_scope d, sd_id d) \<notin> set (map (\<lambda>d. (sd_scope d, sd_id d)) (hb_sync_devices h))"
    using claimed d(2,3) by (auto simp: bindE_Inr_iff split: if_splits)
  note d = d(1) this
  have "distinct (map pr_id (hb_pairings h'))" "distinct (map pr_code_hash (hb_pairings h'))"
    unfolding q using assms(2) by (intro distinct_pairing_update; simp add: hub_ok_def devices_ok_def)+
  then have "devices_ok h'"
    using assms(2) d cur max_cursor_cong[OF h(1)] unfolding devices_ok_def hub_ok_def by auto
  then have "hub_ok h'" by (rule hub_ok_devices[OF assms(2) h])
  moreover have "list_all2 pairing_le (hb_pairings h) (hb_pairings h')"
    unfolding q update_where_def by (auto simp: list_all2_map2 pairing_le_def intro!: list_all2_refl)
  then have "hub_le h h'" using h unfolding hub_le_def by auto
  ultimately show ?thesis ..
qed

lemma revoke_device_ok:
  assumes "revoke_device e p dev h = (r, h')" "hub_ok h"
  shows "hub_ok h' \<and> hub_le h h'"
proof -
  obtain x where "transact (revoke_device_tx e p dev) h = (x, h')"
    using assms(1) by (auto simp: revoke_device_def split: prod.splits sum.splits option.splits)
  then have "h' = h \<or> revoke_device_tx e p dev h = Inr ((), h')"
    by (cases x) (auto dest: transact_InlD transact_InrD)
  then show ?thesis
  proof
    assume "revoke_device_tx e p dev h = Inr ((), h')"
    then obtain f where h': "h' = h\<lparr>hb_sync_devices := f\<rparr>"
        and f: "map (\<lambda>d. (sd_scope d, sd_id d)) f = map (\<lambda>d. (sd_scope d, sd_id d)) (hb_sync_devices h)"
      by (auto simp: revoke_device_tx_def bindE_Inr_iff Let_def map_update_where_id)
    have "devices_ok h'" using assms(2) f unfolding h' hub_ok_def devices_ok_def max_cursor_def events_in_def by simp
    then have "hub_ok h'" using hub_ok_devices[OF assms(2), of h'] by (simp add: h')
    then show ?thesis using hub_le_refl[of h] by (simp add: h' hub_le_def)
  qed (use assms(2) in simp)
qed

section \<open>Histories\<close>

lemma history_step:
  assumes "history_ok hs" "hub_step hs hs'"
  shows "history_ok hs'"
  using assms(2,1)
proof cases
  case (list_step h1 h old h2 p c l r h')
  with assms(1) have "hub_ok h1" "hub_ok h2" "hub_ok h" "hub_le h1 h" "hub_le h2 h" by (auto simp: history_ok_def)
  from list_changes_ok[OF list_step(5) this] list_step(1,2) assms(1) show ?thesis
    by (auto simp: history_ok_def intro: hub_le_trans)
qed (auto simp: history_ok_def dest: push_ok create_pairing_ok claim_pairing_ok revoke_device_ok hub_ok_same hub_le_same
      intro: hub_le_trans)

lemma hub_init_ok:
  assumes "hub_init hs"
  shows "history_ok hs"
proof -
  obtain h where h: "hs = [h]" "hb_events h = []" "hb_operations h = []" "hb_pairings h = []" "hb_sync_devices h = []" "hb_cursors h = []"
    using assms by (auto simp: hub_init_def)
  have "events_in k h = []" for k by (simp add: events_in_def h)
  then show ?thesis
    by (simp add: h history_ok_def hub_ok_def log_numbered_def revisions_consecutive_def ops_ok_def devices_ok_def
        applied_ops_def hub_events_of_def consecutive_def)
qed

interpretation hub: invariant_system hub_init hub_step history_ok
  by unfold_locales (auto intro: hub_init_ok history_step)

definition hub_reachable :: "hub list \<Rightarrow> bool" where
  "hub_reachable hs = (\<exists>h0. hub_init h0 \<and> hub_step\<^sup>*\<^sup>* h0 hs)"

lemma reachable_ok: "hub_reachable hs \<Longrightarrow> history_ok hs"
  unfolding hub_reachable_def by (blast intro: hub.reachable_inv)

lemma reachable_step: "hub_reachable hs \<Longrightarrow> hub_step\<^sup>*\<^sup>* hs hs' \<Longrightarrow> hub_reachable hs'"
  unfolding hub_reachable_def by (meson rtranclp_trans)

lemma step_extends: "hub_step\<^sup>*\<^sup>* hs hs' \<Longrightarrow> \<exists>new. hs' = new @ hs"
proof (induction rule: rtranclp_induct)
  case (step y z)
  from step.hyps(2) have "\<exists>h. z = h # y" by cases auto
  with step.IH show ?case by auto
qed simp

lemma history_le:
  assumes "history_ok hs" "hub_step\<^sup>*\<^sup>* hs hs'"
  shows "hub_le (hd hs) (hd hs')"
proof -
  obtain new where new: "hs' = new @ hs" using step_extends[OF assms(2)] by blast
  have "history_ok hs'" using hub.inv_star assms by blast
  then show ?thesis
    using assms(1) by (cases new) (auto simp: new history_ok_def)
qed

end
