(* ===== verification/SyncHubProps.thy ===== *)
theory SyncHubProps
  imports SyncHubCorrect
begin

text \<open>
  The guarantees of the sync hub: what a client that reads page by page sees, retries of a push, the
  exactness of the log, isolation of principals, one use per pairing code.
\<close>

section \<open>Pages of the feed\<close>

lemma numbered_range:
  assumes "map ev_cursor vs = [1 ..< Suc (length vs)]"
  shows "filter (\<lambda>v. a < ev_cursor v \<and> ev_cursor v \<le> b) vs = drop a (take b vs)"
  using assms
proof (induction vs rule: rev_induct)
  case (snoc v vs)
  have "map ev_cursor vs = [1 ..< Suc (length vs)]" "ev_cursor v = Suc (length vs)"
    using snoc.prems by auto
  with snoc.IH show ?case by auto
qed simp

lemma numbered_after:
  assumes "map ev_cursor vs = [1 ..< Suc (length vs)]"
  shows "filter (\<lambda>v. a < ev_cursor v) vs = drop a vs"
proof -
  have "\<forall>v \<in> set vs. ev_cursor v \<le> length vs"
  proof
    fix v assume "v \<in> set vs"
    then have "ev_cursor v \<in> set (map ev_cursor vs)" by simp
    with assms show "ev_cursor v \<le> length vs" by auto
  qed
  then have "filter (\<lambda>v. a < ev_cursor v) vs = filter (\<lambda>v. a < ev_cursor v \<and> ev_cursor v \<le> length vs) vs"
    by (intro filter_cong) auto
  then show ?thesis using numbered_range[OF assms, of a "length vs"] by simp
qed

lemma numberedI: "log_numbered h \<Longrightarrow> map ev_cursor (events_in k h) = [1 ..< Suc (length (events_in k h))]"
  unfolding log_numbered_def by blast

lemma changes_after_eq:
  assumes "log_numbered h"
  shows "changes_after k c l h = take l (drop c (events_in k h))"
  using numbered_after[OF numberedI[OF assms]] by (simp add: changes_after_def feed_eq[OF assms])

lemma drop_take_split:
  assumes "a \<le> b" "b \<le> c"
  shows "drop a (take c xs) = drop a (take b xs) @ drop b (take c xs)"
proof -
  let ?ys = "drop a (take c xs)"
  have "drop b (take c xs) = drop (b - a) ?ys" "drop a (take b xs) = take (b - a) ?ys"
    using assms by (simp_all add: drop_take)
  then show ?thesis by (metis append_take_drop_id)
qed

text \<open>One page is a piece of every later log.\<close>

lemma page_range:
  fixes k :: hub_scope and c l :: nat
  assumes "log_numbered h" "log_numbered g" "hub_le h g"
  defines "c' \<equiv> next_cursor c (changes_after k c l h)"
  shows "changes_after k c l h = drop c (take c' (events_in k g)) \<and> c \<le> c'"
proof -
  let ?E = "events_in k h" and ?F = "events_in k g"
  obtain zs where F: "?F = ?E @ zs" using events_in_le[OF assms(3), of k] by (auto simp: prefix_def)
  have pg: "changes_after k c l h = take l (drop c ?E)" using assms(1) by (rule changes_after_eq)
  show ?thesis
  proof (cases "take l (drop c ?E) = []")
    case True
    then show ?thesis by (simp add: c'_def next_cursor_def pg)
  next
    case False
    then have lt: "c < length ?E" "0 < l" by auto
    let ?m = "min (length ?E) (c + l)"
    have rows: "take l (drop c ?E) = drop c (take ?m ?E)" by (simp add: take_drop min_def add.commute)
    have m1: "?m - 1 < ?m" using lt by linarith
    have "last (take l (drop c ?E)) = ?E ! (?m - 1)"
      using lt nth_take[OF m1, of ?E] unfolding rows by (simp add: last_conv_nth del: nth_take)
    then have "ev_cursor (last (take l (drop c ?E))) = ?m"
      using cursor_pos[OF assms(1), of "?m - 1" k] lt by (simp add: Suc_diff_1 min_def split: if_splits)
    with False have c': "c' = ?m" by (simp add: c'_def next_cursor_def pg)
    have "take ?m ?F = take ?m ?E" by (simp add: F)
    with rows lt show ?thesis by (simp add: c' pg)
  qed
qed

lemma stream_range:
  assumes "\<forall>h \<in> set reads. log_numbered h \<and> hub_le h g" "log_numbered g"
    and "stream_changes k c reads = (c', vs)"
  shows "vs = drop c (take c' (events_in k g)) \<and> c \<le> c'"
  using assms(1,3)
proof (induction reads arbitrary: c vs)
  case (Cons h reads)
  let ?rows = "changes_after k c 100 h"
  let ?c1 = "next_cursor c ?rows"
  obtain d ws where st: "stream_changes k ?c1 reads = (d, ws)" by fastforce
  with Cons.prems have d: "d = c'" "vs = ?rows @ ws" by (auto simp: Let_def)
  with Cons st have ws: "ws = drop ?c1 (take c' (events_in k g))" "?c1 \<le> c'" by auto
  have rows: "?rows = drop c (take ?c1 (events_in k g))" "c \<le> ?c1"
    using page_range[of h g k c 100] Cons.prems(1) assms(2) by auto
  have "drop c (take c' (events_in k g)) = ?rows @ ws"
    unfolding drop_take_split[OF rows(2) ws(2)] ws(1) rows(1)[symmetric] ..
  then show ?case using d rows(2) ws(2) by simp
qed simp

lemma history_reads:
  assumes "hub_reachable hist" "\<forall>t \<in> set ts. t < length hist"
  shows "\<forall>h \<in> set (map ((!) (rev hist)) ts). log_numbered h \<and> hub_le h (hd hist)"
proof -
  have ok: "history_ok hist" using assms(1) by (rule reachable_ok)
  then obtain g hs where hist: "hist = g # hs" by (auto simp: history_ok_def neq_Nil_conv)
  have "h \<in> set hist \<Longrightarrow> log_numbered h \<and> hub_le h g" for h
    using ok unfolding hist by (auto simp: history_ok_def hub_ok_def)
  moreover have "\<forall>t \<in> set ts. rev hist ! t \<in> set hist"
    using assms(2) by (metis length_rev nth_mem set_rev)
  ultimately show ?thesis by (auto simp: hist)
qed

text \<open>
  C11.  A client of the WebSocket feed that reads pages at any times \<open>ts\<close> while other devices
  push has been sent exactly the changes after its first cursor up to its present one, each once and
  in order; when its next page is empty, that is the whole log after the first cursor.
\<close>

theorem paged_stream_is_the_feed:
  assumes "hub_reachable hist" "\<forall>t \<in> set ts. t < length hist"
    and "stream_changes k c (map ((!) (rev hist)) ts) = (c', vs)"
  shows "vs = filter (\<lambda>v. c < ev_cursor v \<and> ev_cursor v \<le> c') (feed k (hd hist)) \<and>
     (changes_after k c' 100 (hd hist) = [] \<longrightarrow> vs = filter (\<lambda>v. c < ev_cursor v) (feed k (hd hist)))"
proof -
  let ?g = "hd hist" and ?E = "events_in k (hd hist)"
  have num: "log_numbered ?g" using reachable_ok[OF assms(1)] by (auto simp: history_ok_def hub_ok_def)
  have vs: "vs = drop c (take c' ?E)" "c \<le> c'"
    using stream_range[OF history_reads[OF assms(1,2)] num assms(3)] by auto
  have "changes_after k c' 100 ?g = [] \<Longrightarrow> vs = drop c ?E"
    using vs(1) by (auto simp: changes_after_eq[OF num])
  then show ?thesis
    using numbered_range[OF numberedI[OF num, of k], of c c'] numbered_after[OF numberedI[OF num, of k], of c] vs(1)
    by (simp add: feed_eq[OF num])
qed

section \<open>Retries\<close>

lemma push_leaves_row:
  assumes "push e p q h = (Inr r, h')"
  shows "\<exists>o'. find_operation (pq_operation q) h' = Some o' \<and> op_scope o' = hp_scope p \<and>
     op_revision o' = pu_revision r \<and> op_cursor o' = pu_cursor r"
proof -
  have find_snoc: "List.find P xs = None \<Longrightarrow> List.find P (xs @ [x]) = (if P x then Some x else None)" for P xs and x :: hub_operation
    by (induction xs) (auto split: if_splits)
  show ?thesis
    using assms
    by (cases rule: push_cases) (auto simp: find_operation_def find_snoc operation_row_def hub_simps)
qed

text \<open>
  C16.  A push that was answered, applied or not, is remembered for good: when any device of the same
  principal sends the operation again, however much later and with whatever content, the answer is
  the first one's revision and cursor, marked as a duplicate, and nothing is written.
\<close>

theorem answered_push_is_remembered:
  assumes "hub_reachable (h # hs)" "push e p q h = (Inr r, h')" "hub_step\<^sup>*\<^sup>* (h' # h # hs) hs'"
    and "pq_operation q' = pq_operation q" "hp_scope p' = hp_scope p" "pq_device q' = hp_device p'"
  shows "\<exists>now. push e' p' q' (hd hs') =
     (Inr \<lparr>pu_status = Duplicate, pu_revision = pu_revision r, pu_cursor = pu_cursor r, pu_current = now\<rparr>, hd hs')"
proof -
  have "hub_reachable (h' # h # hs)"
    using reachable_step[OF assms(1)] push_step[OF assms(2)] by blast
  then have "hub_le h' (hd hs')"
    using history_le[OF reachable_ok assms(3)] by simp
  with push_leaves_row[OF assms(2)] obtain o' where "find_operation (pq_operation q) (hd hs') = Some o'"
      "op_scope o' = hp_scope p" "op_revision o' = pu_revision r" "op_cursor o' = pu_cursor r"
    using find_operation_le by blast
  moreover have "take 8 (pq_operation q) \<noteq> ''capture:''" using assms(2) by (auto simp: push_def split: if_splits)
  ultimately show ?thesis using assms(4-6) by (simp add: push_def push_tx_def transact_def)
qed

section \<open>The log\<close>

text \<open>
  C13.  In every reachable database the changes of a principal are numbered 1, 2, 3, ..., the revisions
  of an entity follow each other by one, the log is exactly the applied operations in their order,
  each applied on the revision it named as its base, and no device has acknowledged a change that does
  not exist.
\<close>

theorem sync_log_is_exact:
  assumes "hub_reachable hist" "h \<in> set hist"
  shows "map ev_cursor (feed k h) = [1 ..< Suc (length (feed k h))] \<and>
     (\<exists>a. map ev_revision (filter (\<lambda>v. ev_entity v = t \<and> ev_id v = i) (feed k h)) =
        [a ..< a + length (filter (\<lambda>v. ev_entity v = t \<and> ev_id v = i) (feed k h))]) \<and>
     map op_event (applied_ops h) = hb_events h \<and> distinct (map op_id (hb_operations h)) \<and>
     list_all (\<lambda>r. int (op_revision r) = op_base r + 1) (applied_ops h) \<and>
     list_all (\<lambda>((k, d), n). n \<le> max_cursor k h) (hb_cursors h)"
proof -
  have ok: "hub_ok h" using reachable_ok[OF assms(1)] assms(2) by (simp add: history_ok_def)
  then have num: "log_numbered h" by (simp add: hub_ok_def)
  have "consecutive (map ev_revision (hub_events_of k t i h))" using ok unfolding hub_ok_def revisions_consecutive_def by blast
  then have "\<exists>a. map ev_revision (filter (\<lambda>v. ev_entity v = t \<and> ev_id v = i) (feed k h)) =
      [a ..< a + length (filter (\<lambda>v. ev_entity v = t \<and> ev_id v = i) (feed k h))]"
    by (simp add: consecutive_def hub_events_of_def feed_eq[OF num])
  moreover have "map ev_cursor (feed k h) = [1 ..< Suc (length (feed k h))]"
    unfolding feed_eq[OF num] by (rule numberedI[OF num])
  ultimately show ?thesis using ok by (simp add: hub_ok_def ops_ok_def devices_ok_def list_all_iff)
qed

section \<open>Isolation of principals\<close>

record scope_view =
  vw_events :: "hub_event list"
  vw_operations :: "hub_operation list"
  vw_segments :: "hub_segment list"
  vw_meetings :: "hub_meeting list"
  vw_memories :: "hub_memory list"
  vw_cursors :: "((hub_scope \<times> string) \<times> nat) list"

definition view_of :: "hub_scope \<Rightarrow> hub \<Rightarrow> scope_view" where
  "view_of k h = \<lparr>vw_events = events_in k h, vw_operations = filter (\<lambda>r. op_scope r = k) (hb_operations h),
     vw_segments = filter (\<lambda>r. sg_scope r = k) (hb_segments h), vw_meetings = filter (\<lambda>r. mt_scope r = k) (hb_meetings h),
     vw_memories = filter (\<lambda>r. mm_scope r = k) (hb_memories h), vw_cursors = filter (\<lambda>r. fst (fst r) = k) (hb_cursors h)\<rparr>"

lemma filter_update_where:
  assumes "\<And>r. P r \<Longrightarrow> \<not> Q r \<and> \<not> Q (f r)"
  shows "filter Q (update_where P f rows) = filter Q rows"
  using assms unfolding update_where_def by (induction rows) auto

lemma store_segment_view:
  assumes "store_segment p sid r h = Inr (n, h')" "sg_scope r = hp_scope p" "k \<noteq> hp_scope p"
  shows "view_of k h' = view_of k h"
  using assms by (auto simp: store_segment_def Let_def view_of_def events_in_def intro!: filter_update_where split: option.splits if_splits)

lemma store_memory_view:
  assumes "store_memory r h = Inr h'" "k \<noteq> mm_scope r"
  shows "view_of k h' = view_of k h"
  using assms by (auto simp: store_memory_def Let_def view_of_def events_in_def intro!: filter_update_where split: if_splits)

lemma ensure_meeting_view: "k \<noteq> hp_scope p \<Longrightarrow> view_of k (ensure_meeting p m t h) = view_of k h"
  by (simp add: ensure_meeting_def view_of_def events_in_def)

lemma apply_transcript_view:
  assumes "apply_transcript e p i d t cur h = Inr (c, h')" "k \<noteq> hp_scope p"
  shows "view_of k h' = view_of k h"
proof -
  obtain sid r m cap n where "store_segment p sid r (ensure_meeting p m cap h) = Inr (n, h')" "sg_scope r = hp_scope p"
    using assms(1) by (auto simp: apply_transcript_def bindE_Inr_iff Let_def split: if_splits prod.splits)
  then show ?thesis using store_segment_view ensure_meeting_view assms(2) by metis
qed

lemma apply_summary_view:
  assumes "apply_summary e p i d t h = Inr (c, h')" "k \<noteq> hp_scope p"
  shows "view_of k h' = view_of k h"
proof -
  let ?h1 = "ensure_meeting p (py_strip (str_or e (dget d ''meeting_id'') i)) (he_iso e t) h"
  have "view_of k h' = view_of k ?h1"
    using assms by (auto simp: apply_summary_def Let_def view_of_def events_in_def intro!: filter_update_where split: if_splits)
  then show ?thesis using ensure_meeting_view assms(2) by metis
qed

lemma apply_memory_view:
  assumes "apply_memory e p i d rn t h = Inr (c, h')" "k \<noteq> hp_scope p"
  shows "view_of k h' = view_of k h"
proof -
  obtain r where "store_memory r h = Inr h'" "mm_scope r = hp_scope p"
    using assms(1) by (auto simp: apply_memory_def bindE_Inr_iff Let_def split: if_splits option.splits)
  then show ?thesis using store_memory_view assms(2) by metis
qed

lemma apply_entity_view:
  assumes "apply_entity e p t i d rn u cur h = Inr (c, h')" "k \<noteq> hp_scope p"
  shows "view_of k h' = view_of k h"
  using assms apply_transcript_view apply_summary_view apply_memory_view by (cases t) (auto simp: apply_entity_def)

text \<open>
  C18.  A push, whatever identifiers its payload names, leaves every row of every other principal as it
  was: changes, operations, segments, meetings, memories, positions of devices.
\<close>

theorem push_stays_in_its_scope:
  assumes "push e p q h = (r, h')" "k \<noteq> hp_scope p"
  shows "view_of k h' = view_of k h"
  using assms(1)
proof (cases rule: push_cases)
  case (applied rn cur now canonical h1)
  have "view_of k h1 = view_of k h" by (rule apply_entity_view[OF applied(4) assms(2)])
  moreover have "filter (\<lambda>r. fst (fst r) = k) (hb_cursors (bump_cursor p n g)) = filter (\<lambda>r. fst (fst r) = k) (hb_cursors g)" for n g
    using assms(2) by (auto simp: bump_cursor_def filter_map comp_def case_prod_beta intro!: map_idI cong: filter_cong)
  ultimately show ?thesis
    using assms(2) unfolding applied(7)
    by (simp add: view_of_def events_in_def op_event_def operation_row_def hub_simps bump_cursor_def)
qed (use assms(2) in \<open>auto simp: view_of_def events_in_def operation_row_def\<close>)

section \<open>Pairing codes\<close>

lemma find_unique:
  assumes "distinct (map f xs)" "x \<in> set xs" "f x = c"
  shows "List.find (\<lambda>r. f r = c) xs = Some x"
  using assms by (induction xs) (auto simp: image_iff)

lemma claimed_row:
  assumes "claim_pairing e code dev name plat h = (Inr d, h')"
  shows "\<exists>r \<in> set (hb_pairings h'). pr_code_hash r = he_hash e code \<and> pr_claimed r \<noteq> None"
proof -
  have tx: "claim_pairing_tx e code dev name plat h = Inr (d, h')" using assms by (auto simp: claim_pairing_def dest: transact_InrD)
  then obtain q where f: "List.find (\<lambda>r. pr_code_hash r = he_hash e code) (hb_pairings h) = Some q"
    by (auto simp: claim_pairing_tx_def split: option.splits)
  note claimed = tx[unfolded claim_pairing_tx_def f option.case Let_def bindE_Inr_iff guardE_Inr_iff, simplified]
  have h': "hb_pairings h' = update_where (\<lambda>q'. pr_id q' = pr_id q \<and> pr_claimed q' = None)
        (\<lambda>q'. q'\<lparr>pr_claimed := Some (he_now e), pr_claimed_by := Some dev\<rparr>) (hb_pairings h)"
      and "pr_claimed q = None"
    using claimed by (auto simp: bindE_Inr_iff split: if_splits)
  moreover have "q \<in> set (hb_pairings h)" "pr_code_hash q = he_hash e code" using find_SomeD[OF f] by auto
  ultimately show ?thesis
    by (auto simp: update_where_def intro!: bexI[of _ "q\<lparr>pr_claimed := Some (he_now e), pr_claimed_by := Some dev\<rparr>"] image_eqI[of _ _ q])
qed

text \<open>
  A pairing code is good for one device: once it was claimed, every later claim with it is
  refused and writes nothing, whatever the device and the time.
\<close>

theorem pairing_code_used_once:
  assumes "hub_reachable (h # hs)" "claim_pairing e code dev name plat h = (Inr d, h')"
    and "hub_step\<^sup>*\<^sup>* (h' # h # hs) hs'" "he_hash e' code = he_hash e code"
  shows "claim_pairing e' code dev' name' plat' (hd hs') = (Inl (PairingNotFound ''pairing code invalid''), hd hs')"
proof -
  have reach: "hub_reachable (h' # h # hs)" using reachable_step[OF assms(1)] claim_step[OF assms(2)] by blast
  then have ok: "hub_ok (hd hs')"
    using reachable_ok[OF reachable_step[OF _ assms(3)]] by (auto simp: history_ok_def)
  obtain r where r: "r \<in> set (hb_pairings h')" "pr_code_hash r = he_hash e code" "pr_claimed r \<noteq> None"
    using claimed_row[OF assms(2)] by blast
  have "hub_le h' (hd hs')" using history_le[OF reachable_ok[OF reach] assms(3)] by simp
  then obtain qs where "prefix qs (hb_pairings (hd hs'))" "list_all2 pairing_le (hb_pairings h') qs"
    by (auto simp: hub_le_def)
  with r have "r \<in> set (hb_pairings (hd hs'))"
    by (fastforce simp: list_all2_conv_all_nth in_set_conv_nth pairing_le_def prefix_def nth_append)
  then have "List.find (\<lambda>r. pr_code_hash r = he_hash e' code) (hb_pairings (hd hs')) = Some r"
    using ok r(2) assms(4) by (intro find_unique) (auto simp: hub_ok_def devices_ok_def)
  then show ?thesis using r(3) by (simp add: claim_pairing_def claim_pairing_tx_def transact_def)
qed

section \<open>Concrete runs\<close>

definition hub_demo_env :: hub_env where
  "hub_demo_env = \<lparr>he_now = 0, he_iso = (\<lambda>_. ''2026''), he_parse = (\<lambda>s. if s = ''soon'' then None else Some 0),
     he_secret = (\<lambda>n. if n = 0 then ''a'' else ''b''), he_hash = (\<lambda>s. s), he_str = (\<lambda>_. ''1''), he_float = (\<lambda>_. None),
     he_column = (\<lambda>_. ''1''), he_norm_text = (\<lambda>s. s), he_norm_key = (\<lambda>s. s)\<rparr>"

definition demo_p :: hub_principal where
  "demo_p = \<lparr>hp_tenant = ''t'', hp_owner = ''o'', hp_device = ''d1''\<rparr>"

definition demo_p2 :: hub_principal where
  "demo_p2 = \<lparr>hp_tenant = ''t'', hp_owner = ''o2'', hp_device = ''d2''\<rparr>"

definition demo_h0 :: hub where
  "demo_h0 = \<lparr>hb_events = [], hb_operations = [], hb_segments = [], hb_segment_seq = 0, hb_meetings = [], hb_memories = [],
     hb_pairings = [], hb_devices = [], hb_sync_devices = [], hb_cursors = []\<rparr>"

definition demo_push :: "string \<Rightarrow> entity \<Rightarrow> string \<Rightarrow> int \<Rightarrow> jdict \<Rightarrow> push_request" where
  "demo_push o' t i b d = \<lparr>pq_operation = o', pq_device = ''d1'', pq_entity = t, pq_id = i, pq_base = b, pq_updated = 0, pq_payload = d\<rparr>"

definition demo_q1 :: push_request where
  "demo_q1 = demo_push ''op1'' Memory ''m'' 0 [(''content'', JStr ''tea'')]"

definition demo_q2 :: push_request where
  "demo_q2 = demo_push ''op2'' Memory ''other'' 0 [(''memory_id'', JStr ''m''), (''content'', JStr ''stale'')]"

definition demo_h1 :: hub where "demo_h1 = snd (push hub_demo_env demo_p demo_q1 demo_h0)"
definition demo_h2 :: hub where "demo_h2 = snd (push hub_demo_env demo_p demo_q2 demo_h1)"

lemmas demo_defs = hub_demo_env_def demo_p_def demo_p2_def demo_h0_def demo_push_def demo_q1_def demo_q2_def

lemma hub_demo_reachable: "hub_reachable [demo_h2, demo_h1, demo_h0]" "hub_reachable [demo_h1, demo_h0]" "hub_reachable [demo_h0]"
proof -
  have init: "hub_init [demo_h0]" by (simp add: hub_init_def demo_h0_def)
  then show r0: "hub_reachable [demo_h0]" unfolding hub_reachable_def by blast
  have "hub_step [demo_h0] [demo_h1, demo_h0]" by (rule push_step[of hub_demo_env demo_p demo_q1 demo_h0]) (simp add: demo_h1_def prod_eq_iff)
  with r0 show r1: "hub_reachable [demo_h1, demo_h0]" by (blast intro: reachable_step)
  have "hub_step [demo_h1, demo_h0] [demo_h2, demo_h1, demo_h0]"
    by (rule push_step[of hub_demo_env demo_p demo_q2 demo_h1]) (simp add: demo_h2_def prod_eq_iff)
  with r1 show "hub_reachable [demo_h2, demo_h1, demo_h0]" by (blast intro: reachable_step)
qed

definition demo_k :: hub_scope where "demo_k = hp_scope demo_p"

lemma paged_stream_is_the_feed_witness:
  "snd (stream_changes demo_k 0 (map ((!) (rev [demo_h2, demo_h1, demo_h0])) [0, 1, 1, 2])) =
     filter (\<lambda>v. 0 < ev_cursor v) (feed demo_k demo_h2) \<and> map ev_id (feed demo_k demo_h2) = [''m'', ''other'']"
proof -
  let ?reads = "map ((!) (rev [demo_h2, demo_h1, demo_h0])) [0, 1, 1, 2]"
  obtain c vs where st: "stream_changes demo_k 0 ?reads = (c, vs)" by fastforce
  have "changes_after demo_k (fst (stream_changes demo_k 0 ?reads)) 100 demo_h2 = []" by code_simp
  then have "changes_after demo_k c 100 demo_h2 = []" unfolding st by simp
  moreover have "\<forall>t \<in> set [0, 1, 1, 2]. t < length [demo_h2, demo_h1, demo_h0]" by simp
  ultimately have "vs = filter (\<lambda>v. 0 < ev_cursor v) (feed demo_k demo_h2)"
    using paged_stream_is_the_feed[OF hub_demo_reachable(1) _ st] unfolding list.sel by blast
  then have "snd (stream_changes demo_k 0 ?reads) = filter (\<lambda>v. 0 < ev_cursor v) (feed demo_k demo_h2)"
    unfolding st by simp
  moreover have "map ev_id (feed demo_k demo_h2) = [''m'', ''other'']" by code_simp
  ultimately show ?thesis by blast
qed

lemma answered_push_is_remembered_witness:
  "\<exists>now. push hub_demo_env demo_p demo_q1 demo_h2 =
     (Inr \<lparr>pu_status = Duplicate, pu_revision = 1, pu_cursor = Some 1, pu_current = now\<rparr>, demo_h2)"
proof -
  let ?r = "\<lparr>pu_status = Applied, pu_revision = 1, pu_cursor = Some 1, pu_current = None\<rparr>"
  have "fst (push hub_demo_env demo_p demo_q1 demo_h0) = Inr ?r" by code_simp
  then have first: "push hub_demo_env demo_p demo_q1 demo_h0 = (Inr ?r, demo_h1)" by (simp add: demo_h1_def prod_eq_iff)
  have "hub_step\<^sup>*\<^sup>* [demo_h1, demo_h0] [demo_h2, demo_h1, demo_h0]"
    by (rule r_into_rtranclp, rule push_step[of hub_demo_env demo_p demo_q2 demo_h1]) (simp add: demo_h2_def prod_eq_iff)
  from answered_push_is_remembered[OF hub_demo_reachable(3) first this, of demo_q1 demo_p hub_demo_env]
  show ?thesis by (simp add: demo_q1_def demo_push_def demo_p_def)
qed

lemma sync_log_is_exact_witness:
  "map op_event (applied_ops demo_h2) = hb_events demo_h2 \<and> map op_id (applied_ops demo_h2) = [''op1'', ''op2'']"
proof -
  have "map op_event (applied_ops demo_h2) = hb_events demo_h2"
    using sync_log_is_exact[OF hub_demo_reachable(1), of demo_h2] by simp
  moreover have "map op_id (applied_ops demo_h2) = [''op1'', ''op2'']" by code_simp
  ultimately show ?thesis by blast
qed

lemma push_stays_in_its_scope_witness:
  "view_of (hp_scope demo_p2) (snd (push hub_demo_env demo_p demo_q1 demo_h0)) = view_of (hp_scope demo_p2) demo_h0 \<and>
     length (hb_events (snd (push hub_demo_env demo_p demo_q1 demo_h0))) = 1"
proof -
  have "view_of (hp_scope demo_p2) (snd (push hub_demo_env demo_p demo_q1 demo_h0)) = view_of (hp_scope demo_p2) demo_h0"
    by (rule push_stays_in_its_scope[of hub_demo_env demo_p demo_q1 demo_h0 "fst (push hub_demo_env demo_p demo_q1 demo_h0)"])
      (simp_all add: demo_defs hp_scope_def)
  moreover have "length (hb_events (snd (push hub_demo_env demo_p demo_q1 demo_h0))) = 1" by code_simp
  ultimately show ?thesis by blast
qed

definition demo_code :: string where "demo_code = ''pair_b''"
definition demo_h3 :: hub where "demo_h3 = snd (create_pairing hub_demo_env demo_p 60 demo_h0)"
definition demo_h4 :: hub where "demo_h4 = snd (claim_pairing hub_demo_env demo_code ''phone'' ''Phone'' ''ios'' demo_h3)"

lemma pairing_code_used_once_witness:
  "claim_pairing hub_demo_env demo_code ''tablet'' ''Tablet'' ''ios'' demo_h4 = (Inl (PairingNotFound ''pairing code invalid''), demo_h4) \<and>
     map sd_id (hb_sync_devices demo_h4) = [''phone'']"
proof -
  have "hub_step [demo_h0] [demo_h3, demo_h0]"
    by (rule create_step[of hub_demo_env demo_p 60]) (simp add: demo_h3_def prod_eq_iff)
  with hub_demo_reachable(3) have reach: "hub_reachable [demo_h3, demo_h0]" by (blast intro: reachable_step)
  have "isl (fst (claim_pairing hub_demo_env demo_code ''phone'' ''Phone'' ''ios'' demo_h3)) = False" by code_simp
  then obtain d where "claim_pairing hub_demo_env demo_code ''phone'' ''Phone'' ''ios'' demo_h3 = (Inr d, demo_h4)"
    by (cases "fst (claim_pairing hub_demo_env demo_code ''phone'' ''Phone'' ''ios'' demo_h3)") (auto simp: demo_h4_def prod_eq_iff)
  from pairing_code_used_once[OF reach this rtranclp.rtrancl_refl, of hub_demo_env "''tablet''" "''Tablet''" "''ios''"]
  have "claim_pairing hub_demo_env demo_code ''tablet'' ''Tablet'' ''ios'' demo_h4 =
      (Inl (PairingNotFound ''pairing code invalid''), demo_h4)" by simp
  moreover have "map sd_id (hb_sync_devices demo_h4) = [''phone'']" by code_simp
  ultimately show ?thesis by blast
qed

text \<open>
  What the code does not guarantee.  \<open>list_changes\<close> takes its rows and the largest cursor with two
  statements: when a push commits between them, a client that goes on from the returned cursor never
  sees that change.
\<close>

lemma poll_skips_change:
  "fst (list_changes demo_p 0 100 demo_h0 demo_h1 demo_h1) = (1, []) \<and> changes_after demo_k 1 100 demo_h1 = [] \<and>
     map ev_id (feed demo_k demo_h1) = [''m'']"
  by (intro conjI; code_simp)

text \<open>So does \<open>snapshot\<close>, whose cursor is read last.\<close>

lemma snapshot_skips_change:
  "snapshot hub_demo_env demo_p demo_h0 demo_h0 demo_h0 demo_h0 demo_h1 =
     Inr \<lparr>sn_cursor = 1, sn_transcripts = [], sn_summaries = [], sn_memories = []\<rparr>"
  by code_simp

text \<open>
  The revision is checked for the entity the request names, the row written is the one the payload
  names: a push based on revision 0 of an unknown entity replaces a memory that has revision 1.
\<close>

lemma revision_check_bypassed:
  "map mm_content (hb_memories demo_h1) = [''tea''] \<and> map mm_revision (hb_memories demo_h1) = [1] \<and>
     pu_status (projr (fst (push hub_demo_env demo_p demo_q2 demo_h1))) = Applied \<and>
     map mm_content (hb_memories demo_h2) = [''stale'']"
  by (intro conjI; code_simp)

definition demo_seg :: "string \<Rightarrow> int \<Rightarrow> string \<Rightarrow> rat \<Rightarrow> push_request" where
  "demo_seg o' b x n = demo_push o' Transcript ''s'' b
     [(''meeting_id'', JStr ''m''), (''text'', JStr x), (''segment_id'', JNum n), (''captured_at'', JStr ''soon'')]"

text \<open>The number of a segment is global: a number that another principal holds is an integrity error.\<close>

lemma foreign_segment_number_fails:
  "fst (push hub_demo_env demo_p2 ((demo_seg ''op2'' 0 ''hi'' 7)\<lparr>pq_device := ''d2''\<rparr>) (snd (push hub_demo_env demo_p (demo_seg ''op1'' 0 ''hi'' 7) demo_h0))) =
     Inl HubIntegrityError"
  by code_simp

text \<open>
  The time of a segment is not checked when it is stored.  A segment that no latest change describes
  any more makes every snapshot of its owner fail when its time is not a date.
\<close>

lemma snapshot_fails_on_stored_time:
  "(let h = snd (push hub_demo_env demo_p (demo_seg ''op2'' 1 ''ho'' 8) (snd (push hub_demo_env demo_p (demo_seg ''op1'' 0 ''hi'' 7) demo_h0)))
    in snapshot hub_demo_env demo_p h h h h h) = Inl (HubValueError ''Invalid isoformat string'')"
  by code_simp

end
