(* ===== verification/SyncNotify.thy ===== *)
theory SyncNotify
  imports Systems
begin

text \<open>
  Waiting for a change, \<open>wait_for_change\<close> and \<open>_notify_scope\<close> of \<open>backend/app/sync_hub/store.py\<close>, for one
  principal.  The waiters of a principal share one \<open>asyncio.Event\<close>.  A push commits first and notifies
  later; a waiter clears the event, reads the log, and sleeps when it found nothing.  \<open>wt_log\<close> is the
  largest cursor of the log, \<open>wt_event\<close> the event (\<open>None\<close> before the first waiter created it),
  \<open>wt_pending\<close> the number of commits whose notification is still to come.
\<close>

text \<open>
  A waiter for changes after \<open>c\<close>: before its query, after it with the answer whether a change was found,
  asleep with the mark that the event was set meanwhile.
\<close>

datatype waiter = Idle | Querying nat | Answered nat bool | Asleep nat bool

record waits =
  wt_log :: nat
  wt_event :: "bool option"
  wt_pending :: nat
  wt_phase :: "nat \<Rightarrow> waiter"

definition event_cleared :: "waits \<Rightarrow> waits" where
  "event_cleared s = s\<lparr>wt_event := Some False\<rparr>"

definition push_commits :: "waits \<Rightarrow> waits" where
  "push_commits s = s\<lparr>wt_log := wt_log s + 1, wt_pending := wt_pending s + 1\<rparr>"

definition wake_waiter :: "waiter \<Rightarrow> waiter" where
  "wake_waiter w = (case w of Asleep c _ \<Rightarrow> Asleep c True | _ \<Rightarrow> w)"

text \<open>\<open>set()\<close> resolves the futures of all sleepers.\<close>

definition notify_scope :: "waits \<Rightarrow> waits" where
  "notify_scope s =
     (let s1 = s\<lparr>wt_pending := wt_pending s - 1\<rparr> in
      case wt_event s of None \<Rightarrow> s1 | Some _ \<Rightarrow> s1\<lparr>wt_event := Some True, wt_phase := wake_waiter \<circ> wt_phase s\<rparr>)"

definition wait_begins :: "nat \<Rightarrow> nat \<Rightarrow> waits \<Rightarrow> waits" where
  "wait_begins i c s = event_cleared (s\<lparr>wt_phase := (wt_phase s)(i := Querying c)\<rparr>)"

definition wait_queries :: "nat \<Rightarrow> nat \<Rightarrow> waits \<Rightarrow> waits" where
  "wait_queries i c s = s\<lparr>wt_phase := (wt_phase s)(i := Answered c (c < wt_log s))\<rparr>"

text \<open>With a row the call returns; \<open>wait()\<close> returns at once when the event is set.\<close>

definition wait_goes_on :: "nat \<Rightarrow> nat \<Rightarrow> bool \<Rightarrow> waits \<Rightarrow> waits" where
  "wait_goes_on i c found s =
     (if found then s\<lparr>wt_phase := (wt_phase s)(i := Idle)\<rparr>
      else if wt_event s = Some True then event_cleared (s\<lparr>wt_phase := (wt_phase s)(i := Idle)\<rparr>)
      else s\<lparr>wt_phase := (wt_phase s)(i := Asleep c False)\<rparr>)"

text \<open>Woken, or after the timeout: the event is cleared and the call returns.\<close>

definition wait_ends :: "nat \<Rightarrow> waits \<Rightarrow> waits" where
  "wait_ends i s = event_cleared (s\<lparr>wt_phase := (wt_phase s)(i := Idle)\<rparr>)"

text \<open>\<open>only\<close>: the waiters that take part.\<close>

inductive wait_step :: "nat set \<Rightarrow> waits \<Rightarrow> waits \<Rightarrow> bool" for only where
  commit: "wait_step only s (push_commits s)"
| notified: "0 < wt_pending s \<Longrightarrow> wait_step only s (notify_scope s)"
| begins: "i \<in> only \<Longrightarrow> wt_phase s i = Idle \<Longrightarrow> wait_step only s (wait_begins i c s)"
| queries: "wt_phase s i = Querying c \<Longrightarrow> wait_step only s (wait_queries i c s)"
| goes_on: "wt_phase s i = Answered c b \<Longrightarrow> wait_step only s (wait_goes_on i c b s)"
| ends: "wt_phase s i = Asleep c b \<Longrightarrow> wait_step only s (wait_ends i s)"

definition wait_init :: "waits \<Rightarrow> bool" where
  "wait_init s = (wt_event s = None \<and> wt_pending s = 0 \<and> wt_phase s = (\<lambda>_. Idle))"

definition wait_reachable :: "nat set \<Rightarrow> waits \<Rightarrow> bool" where
  "wait_reachable only s = (\<exists>s0. wait_init s0 \<and> (wait_step only)\<^sup>*\<^sup>* s0 s)"

section \<open>One waiter\<close>

text \<open>What a waiter may rely on: a change it has not seen is about to be announced or already is.\<close>

definition announced :: "waits \<Rightarrow> nat \<Rightarrow> bool \<Rightarrow> bool" where
  "announced s c known = (wt_log s \<le> c \<or> 0 < wt_pending s \<or> known)"

definition alone_ok :: "nat \<Rightarrow> waits \<Rightarrow> bool" where
  "alone_ok i s = ((\<forall>j. j \<noteq> i \<longrightarrow> wt_phase s j = Idle) \<and> (wt_phase s i \<noteq> Idle \<longrightarrow> wt_event s \<noteq> None) \<and>
     (case wt_phase s i of
        Answered c b \<Rightarrow> announced s c (b \<or> wt_event s = Some True)
      | Asleep c b \<Rightarrow> announced s c b
      | _ \<Rightarrow> True))"

lemmas wait_defs = push_commits_def notify_scope_def wait_begins_def wait_queries_def wait_goes_on_def wait_ends_def event_cleared_def

lemma alone_ok_init: "wait_init s \<Longrightarrow> alone_ok i s"
  by (simp add: wait_init_def alone_ok_def)

lemma alone_ok_step:
  assumes "wait_step {i} s t" "alone_ok i s"
  shows "alone_ok i t"
  using assms
proof cases
  case notified
  with assms(2) show ?thesis
    by (auto simp: alone_ok_def announced_def notify_scope_def wake_waiter_def Let_def split: option.split waiter.splits)
next
  case (queries j c)
  with assms(2) show ?thesis by (cases "j = i") (auto simp: alone_ok_def announced_def wait_defs)
next
  case (goes_on j c b)
  with assms(2) show ?thesis by (cases "j = i") (auto simp: alone_ok_def announced_def wait_defs)
next
  case (ends j c b)
  with assms(2) show ?thesis by (cases "j = i") (auto simp: alone_ok_def announced_def wait_defs)
qed (auto simp: alone_ok_def announced_def wait_defs split: waiter.splits)

interpretation alone: invariant_system wait_init "wait_step {i}" "alone_ok i" for i
  by unfold_locales (auto intro: alone_ok_init alone_ok_step)

text \<open>
  No lost wake-up for a single subscription: while a principal has one waiter at a time, a waiter
  that sleeps although a change after its cursor exists has been woken, or the notification of a
  commit is still to come and will wake it.
\<close>

theorem single_waiter_is_woken:
  assumes "wait_reachable {i} s" "wt_phase s j = Asleep c woken" "c < wt_log s"
  shows "(0 < wt_pending s \<or> woken) \<and> wt_phase (notify_scope s) j = Asleep c True"
proof -
  have ok: "alone_ok i s" using assms(1) unfolding wait_reachable_def by (blast intro: alone.reachable_inv)
  then have "j = i" using assms(2) by (auto simp: alone_ok_def)
  with ok assms(2,3) show ?thesis
    by (auto simp: alone_ok_def announced_def notify_scope_def wake_waiter_def Let_def)
qed

definition wait_demo :: "waits" where
  "wait_demo = \<lparr>wt_log = 0, wt_event = None, wt_pending = 0, wt_phase = (\<lambda>_. Idle)\<rparr>"

lemma wait_demo_reachable: "wait_reachable only wait_demo"
  unfolding wait_reachable_def by (rule exI[of _ wait_demo]) (simp add: wait_init_def wait_demo_def)

lemma wait_reachable_step: "wait_reachable only s \<Longrightarrow> wait_step only s t \<Longrightarrow> wait_reachable only t"
  unfolding wait_reachable_def by (meson rtranclp.rtrancl_into_rtrancl)

definition wait_run1 :: "waits" where
  "wait_run1 = push_commits (wait_goes_on 1 0 False (wait_queries 1 0 (wait_begins 1 0 wait_demo)))"

lemma single_waiter_is_woken_witness:
  "wt_pending wait_run1 = 1 \<and> wt_phase wait_run1 1 = Asleep 0 False \<and> wt_phase (notify_scope wait_run1) 1 = Asleep 0 True"
proof -
  let ?a = "wait_begins 1 0 wait_demo"
  have "wait_reachable {1} ?a" by (rule wait_reachable_step[OF wait_demo_reachable begins]) (simp_all add: wait_demo_def)
  then have "wait_reachable {1} (wait_queries 1 0 ?a)"
    by (rule wait_reachable_step[OF _ queries]) (simp add: wait_defs)
  then have "wait_reachable {1} (wait_goes_on 1 0 False (wait_queries 1 0 ?a))"
    by (rule wait_reachable_step[OF _ goes_on]) (simp add: wait_defs wait_demo_def)
  then have "wait_reachable {1} wait_run1" unfolding wait_run1_def by (rule wait_reachable_step[OF _ commit])
  from single_waiter_is_woken[OF this, of 1 0 False] show ?thesis
    by (simp add: wait_run1_def wait_defs wait_demo_def)
qed

text \<open>
  Two subscriptions of one principal: the second one clears the event between the notification and the
  moment the first would have seen it.  The first then sleeps, with a change waiting, until its timeout.
\<close>

definition wait_run2 :: "waits" where
  "wait_run2 = wait_goes_on 1 0 False (wait_begins 2 1 (notify_scope (push_commits (wait_queries 1 0 (wait_begins 1 0 wait_demo)))))"

lemma second_waiter_swallows_wakeup:
  "wait_reachable {1, 2} wait_run2 \<and> wt_phase wait_run2 1 = Asleep 0 False \<and> 0 < wt_log wait_run2 \<and> wt_pending wait_run2 = 0"
proof -
  let ?a = "wait_begins 1 0 wait_demo"
  have "wait_reachable {1, 2} ?a" by (rule wait_reachable_step[OF wait_demo_reachable begins]) (simp_all add: wait_demo_def)
  then have "wait_reachable {1, 2} (wait_queries 1 0 ?a)"
    by (rule wait_reachable_step[OF _ queries]) (simp add: wait_defs)
  then have "wait_reachable {1, 2} (push_commits (wait_queries 1 0 ?a))" by (rule wait_reachable_step[OF _ commit])
  then have "wait_reachable {1, 2} (notify_scope (push_commits (wait_queries 1 0 ?a)))"
    by (rule wait_reachable_step[OF _ notified]) (simp add: wait_defs)
  then have "wait_reachable {1, 2} (wait_begins 2 1 (notify_scope (push_commits (wait_queries 1 0 ?a))))"
    by (rule wait_reachable_step[OF _ begins]) (simp_all add: wait_defs wait_demo_def wake_waiter_def Let_def)
  then have "wait_reachable {1, 2} wait_run2"
    unfolding wait_run2_def by (rule wait_reachable_step[OF _ goes_on]) (simp add: wait_defs wait_demo_def wake_waiter_def Let_def)
  then show ?thesis by (simp add: wait_run2_def wait_defs wait_demo_def wake_waiter_def Let_def)
qed

end
