(* ===== verification/Governor.thy ===== *)
theory Governor
  imports Systems PyText
begin

text \<open>
  Quotas of a principal, \<open>PrincipalGovernor\<close> in \<open>backend/app/security/governor.py\<close>: the ledger of
  budgets in the database, the counters of running requests in memory, the rate of WebSocket
  frames, and the reservations and leases handed out.  The ledger maps a scope, a metric and a
  window to the amount used; a missing row is 0.  Every method is one atomic step: a ledger update is one
  transaction, the counters change without an \<open>await\<close>.  The time of a call is in seconds since 1970.
\<close>

section \<open>State\<close>

type_synonym gscope = "string \<times> string"

record gov_principal =
  gp_scope :: gscope
  gp_public :: bool

datatype metric = Requests | UploadBytes | StorageBytes | LlmTokens

datatype lease_metric = RequestSlots | ExpensiveTasks | Websockets

datatype window = Minute int | Day int | Lifetime

type_synonym ledger_key = "gscope \<times> metric \<times> window"

type_synonym lease_key = "gscope \<times> lease_metric"

record audio_row =
  ar_scope :: gscope
  ar_ref :: string
  ar_size :: int
  ar_charged :: bool

record gov =
  gv_ledger :: "(ledger_key \<times> int) list"
  gv_active :: "(lease_key \<times> int) list"
  gv_frames :: "(gscope \<times> rat list) list"
  gv_audio :: "audio_row list"
  gv_segments :: "(gscope \<times> string) list"

record gov_cfg =
  gc_requests :: int
  gc_slots :: int
  gc_expensive :: int
  gc_websockets :: int
  gc_upload :: int
  gc_storage :: int
  gc_tokens :: int
  gc_frames :: int
  gc_streams :: int

record quota_exceeded =
  qe_metric :: string
  qe_limit :: int
  qe_used :: int
  qe_retry :: int

definition quota_error :: "string \<Rightarrow> int \<Rightarrow> int \<Rightarrow> int \<Rightarrow> quota_exceeded" where
  "quota_error m l u r = \<lparr>qe_metric = m, qe_limit = l, qe_used = u, qe_retry = max 1 r\<rparr>"

fun metric_name :: "metric \<Rightarrow> string" where
  "metric_name Requests = ''requests''"
| "metric_name UploadBytes = ''upload_bytes''"
| "metric_name StorageBytes = ''storage_bytes''"
| "metric_name LlmTokens = ''llm_tokens''"

fun lease_name :: "lease_metric \<Rightarrow> string" where
  "lease_name RequestSlots = ''requests''"
| "lease_name ExpensiveTasks = ''expensive_tasks''"
| "lease_name Websockets = ''websockets''"

section \<open>Windows and routes\<close>

text \<open>\<open>_window_key\<close>: the window of an instant and the seconds left in it.\<close>

definition window_key :: "rat \<Rightarrow> metric \<Rightarrow> window \<times> int" where
  "window_key now m =
     (let s = \<lfloor>now\<rfloor> in
      case m of
        Requests \<Rightarrow> (Minute (s div 60), max 1 (60 - s mod 60))
      | StorageBytes \<Rightarrow> (Lifetime, 3600)
      | _ \<Rightarrow> (Day (s div 86400), max 1 (86400 - s mod 86400)))"

text \<open>The patterns are matched against the whole path; a dot matches anything but a newline.\<close>

definition below :: "string \<Rightarrow> string \<Rightarrow> bool" where
  "below base path =
     (path = base \<or>
      take (length base + 1) path = base @ ''/'' \<and> CHR 0x0A \<notin> set (drop (length base + 1) path))"

definition meeting_route :: "string \<Rightarrow> bool" where
  "meeting_route path =
     (let pre = ''/meetings/''; rest = drop (length pre) path; mid = takeWhile (\<lambda>c. c \<noteq> CHR ''/'') rest;
          suf = drop (length mid) rest
      in take (length pre) path = pre \<and> mid \<noteq> [] \<and> (suf = ''/chunk'' \<or> suf = ''/finalize''))"

definition upper_char :: "char \<Rightarrow> char" where
  "upper_char c = (if CHR ''a'' \<le> c \<and> c \<le> CHR ''z'' then char_of (of_char c - 32 :: nat) else c)"

definition is_expensive :: "string \<Rightarrow> string \<Rightarrow> bool" where
  "is_expensive verb path =
     (map upper_char verb \<notin> set [''GET'', ''HEAD'', ''OPTIONS''] \<and>
      (path = ''/capture/chunk'' \<or> below ''/chat'' path \<or> below ''/retrieval'' path \<or> below ''/rag'' path \<or>
       path = ''/artifacts/generate'' \<or> meeting_route path \<or> below ''/workflows'' path \<or> below ''/tts'' path))"

section \<open>Leases\<close>

text \<open>A lease without a key releases nothing.\<close>

definition active_count :: "lease_key \<Rightarrow> gov \<Rightarrow> int" where
  "active_count k g = (case map_of (gv_active g) k of None \<Rightarrow> 0 | Some n \<Rightarrow> n)"

definition acquire_active :: "gov_principal \<Rightarrow> lease_metric \<Rightarrow> int \<Rightarrow> gov \<Rightarrow> (quota_exceeded + lease_key option) \<times> gov" where
  "acquire_active p m limit g =
     (if \<not> gp_public p then (Inr None, g)
      else
        let k = (gp_scope p, m); used = active_count k g in
        if limit \<le> used then (Inl (quota_error (lease_name m) limit used 1), g)
        else (Inr (Some k), g\<lparr>gv_active := AList.update k (used + 1) (gv_active g)\<rparr>))"

definition release_active :: "lease_key \<Rightarrow> gov \<Rightarrow> gov" where
  "release_active k g =
     (let n = active_count k g in
      if n \<le> 1 then g\<lparr>gv_active := AList.delete k (gv_active g)\<rparr>
      else g\<lparr>gv_active := AList.update k (n - 1) (gv_active g)\<rparr>)"

text \<open>\<open>_Lease.release\<close>: the key and whether it was released; a second release does nothing.\<close>

definition lease_release_once :: "lease_key option \<times> bool \<Rightarrow> gov \<Rightarrow> (lease_key option \<times> bool) \<times> gov" where
  "lease_release_once l g =
     (case l of
        (k, True) \<Rightarrow> (l, g)
      | (None, False) \<Rightarrow> ((None, True), g)
      | (Some k, False) \<Rightarrow> ((Some k, True), release_active k g))"

section \<open>The ledger\<close>

definition read_usage :: "gov_principal \<Rightarrow> metric \<Rightarrow> window \<Rightarrow> gov \<Rightarrow> int" where
  "read_usage p m w g = (case map_of (gv_ledger g) (gp_scope p, m, w) of None \<Rightarrow> 0 | Some n \<Rightarrow> n)"

definition write_usage :: "gov_principal \<Rightarrow> metric \<Rightarrow> window \<Rightarrow> int \<Rightarrow> gov \<Rightarrow> gov" where
  "write_usage p m w n g = g\<lparr>gv_ledger := AList.update (gp_scope p, m, w) n (gv_ledger g)\<rparr>"

definition adjust_ledger :: "rat \<Rightarrow> gov_principal \<Rightarrow> metric \<Rightarrow> window \<Rightarrow> int \<Rightarrow> int \<Rightarrow> gov \<Rightarrow> (quota_exceeded + int) \<times> gov" where
  "adjust_ledger now p m w delta limit g =
     (if \<not> gp_public p \<or> delta = 0 then (Inr 0, g)
      else
        let current = read_usage p m w g; updated = max 0 (current + delta) in
        if 0 < delta \<and> limit < updated
        then (Inl (quota_error (metric_name m) limit current (snd (window_key now m))), g)
        else (Inr updated, write_usage p m w updated g))"

record reservation =
  rv_principal :: gov_principal
  rv_metric :: metric
  rv_window :: window
  rv_reserved :: int
  rv_limit :: int
  rv_settled :: bool

definition reserve :: "rat \<Rightarrow> gov_principal \<Rightarrow> metric \<Rightarrow> int \<Rightarrow> int \<Rightarrow> gov \<Rightarrow> (quota_exceeded + reservation) \<times> gov" where
  "reserve now p m amount limit g =
     (let a = max 0 amount; w = fst (window_key now m);
          r = \<lparr>rv_principal = p, rv_metric = m, rv_window = w, rv_reserved = a, rv_limit = limit, rv_settled = False\<rparr>
      in if a = 0 then (Inr r, g)
         else case adjust_ledger now p m w a limit g of
                (Inl x, g') \<Rightarrow> (Inl x, g')
              | (Inr _, g') \<Rightarrow> (Inr r, g'))"

text \<open>\<open>settle\<close>: the reservation is marked before the ledger is adjusted, also when that is refused.\<close>

definition settle :: "rat \<Rightarrow> int \<Rightarrow> reservation \<Rightarrow> gov \<Rightarrow> (quota_exceeded + unit) \<times> reservation \<times> gov" where
  "settle now actual r g =
     (let r' = r\<lparr>rv_settled := True\<rparr>; delta = max 0 actual - rv_reserved r in
      if rv_settled r \<or> rv_reserved r = 0 \<or> delta = 0 then (Inr (), r', g)
      else case adjust_ledger now (rv_principal r) (rv_metric r) (rv_window r) delta (rv_limit r) g of
             (Inl x, g') \<Rightarrow> (Inl x, r', g')
           | (Inr _, g') \<Rightarrow> (Inr (), r', g'))"

definition release_reservation :: "rat \<Rightarrow> reservation \<Rightarrow> gov \<Rightarrow> (quota_exceeded + unit) \<times> reservation \<times> gov" where
  "release_reservation now r g = settle now 0 r g"

fun limit_of :: "gov_cfg \<Rightarrow> metric \<Rightarrow> int" where
  "limit_of c Requests = gc_requests c"
| "limit_of c UploadBytes = gc_upload c"
| "limit_of c StorageBytes = gc_storage c"
| "limit_of c LlmTokens = gc_tokens c"

fun slots_of :: "gov_cfg \<Rightarrow> lease_metric \<Rightarrow> int" where
  "slots_of c RequestSlots = gc_slots c"
| "slots_of c ExpensiveTasks = gc_expensive c"
| "slots_of c Websockets = gc_websockets c"

section \<open>The operations\<close>

text \<open>
  \<open>request\<close> up to its \<open>yield\<close>: the leases the request holds.  When the second lease is refused, the
  \<open>finally\<close> releases the first.  At the end of the request both are released.
\<close>

definition request_enter :: "gov_cfg \<Rightarrow> rat \<Rightarrow> gov_principal \<Rightarrow> string \<Rightarrow> string \<Rightarrow> gov
    \<Rightarrow> (quota_exceeded + lease_key option \<times> lease_key option) \<times> gov" where
  "request_enter c now p verb path g =
     (if \<not> gp_public p then (Inr (None, None), g)
      else
        case adjust_ledger now p Requests (fst (window_key now Requests)) 1 (gc_requests c) g of
          (Inl x, g1) \<Rightarrow> (Inl x, g1)
        | (Inr _, g1) \<Rightarrow>
            (case acquire_active p RequestSlots (gc_slots c) g1 of
               (Inl x, g2) \<Rightarrow> (Inl x, g2)
             | (Inr l1, g2) \<Rightarrow>
                 if \<not> is_expensive verb path then (Inr (None, l1), g2)
                 else case acquire_active p ExpensiveTasks (gc_expensive c) g2 of
                        (Inl x, g3) \<Rightarrow> (Inl x, snd (lease_release_once (l1, False) g3))
                      | (Inr l2, g3) \<Rightarrow> (Inr (l2, l1), g3)))"

definition request_exit :: "lease_key option \<times> lease_key option \<Rightarrow> gov \<Rightarrow> gov" where
  "request_exit ls g = snd (lease_release_once (snd ls, False) (snd (lease_release_once (fst ls, False) g)))"

definition websocket :: "gov_cfg \<Rightarrow> gov_principal \<Rightarrow> gov \<Rightarrow> (quota_exceeded + lease_key option) \<times> gov" where
  "websocket c p g = acquire_active p Websockets (gc_websockets c) g"

definition reserve_upload_bytes :: "gov_cfg \<Rightarrow> rat \<Rightarrow> gov_principal \<Rightarrow> int \<Rightarrow> gov \<Rightarrow> (quota_exceeded + reservation) \<times> gov" where
  "reserve_upload_bytes c now p a g = reserve now p UploadBytes a (gc_upload c) g"

definition reserve_storage :: "gov_cfg \<Rightarrow> rat \<Rightarrow> gov_principal \<Rightarrow> int \<Rightarrow> gov \<Rightarrow> (quota_exceeded + reservation) \<times> gov" where
  "reserve_storage c now p a g = reserve now p StorageBytes a (gc_storage c) g"

definition reserve_llm_tokens :: "gov_cfg \<Rightarrow> rat \<Rightarrow> gov_principal \<Rightarrow> int \<Rightarrow> gov \<Rightarrow> (quota_exceeded + reservation) \<times> gov" where
  "reserve_llm_tokens c now p a g = reserve now p LlmTokens a (gc_tokens c) g"

definition charge_upload_bytes :: "gov_cfg \<Rightarrow> rat \<Rightarrow> gov_principal \<Rightarrow> int \<Rightarrow> gov \<Rightarrow> (quota_exceeded + unit) \<times> gov" where
  "charge_upload_bytes c now p a g =
     (case reserve now p UploadBytes a (gc_upload c) g of
        (Inl x, g1) \<Rightarrow> (Inl x, g1)
      | (Inr r, g1) \<Rightarrow> (case settle now a r g1 of (res, _, g2) \<Rightarrow> (res, g2)))"

definition reserve_upload :: "gov_cfg \<Rightarrow> rat \<Rightarrow> gov_principal \<Rightarrow> int \<Rightarrow> bool \<Rightarrow> gov
    \<Rightarrow> (quota_exceeded + reservation option) \<times> gov" where
  "reserve_upload c now p a persistent g =
     (case charge_upload_bytes c now p a g of
        (Inl x, g1) \<Rightarrow> (Inl x, g1)
      | (Inr _, g1) \<Rightarrow>
          if \<not> persistent then (Inr None, g1)
          else case reserve_storage c now p a g1 of
                 (Inl x, g2) \<Rightarrow> (Inl x, g2)
               | (Inr r, g2) \<Rightarrow> (Inr (Some r), g2))"

definition release_storage_bytes :: "gov_cfg \<Rightarrow> rat \<Rightarrow> gov_principal \<Rightarrow> int \<Rightarrow> gov \<Rightarrow> (quota_exceeded + int) \<times> gov" where
  "release_storage_bytes c now p a g = adjust_ledger now p StorageBytes Lifetime (- max 0 a) (gc_storage c) g"

definition release_registered_ambient_storage :: "gov_principal \<Rightarrow> string \<Rightarrow> gov \<Rightarrow> int option \<times> gov" where
  "release_registered_ambient_storage p ref g =
     (if \<not> gp_public p then (None, g)
      else
        let mine = (\<lambda>r. ar_scope r = gp_scope p \<and> ar_ref r = ref) in
        case List.find mine (gv_audio g) of
          None \<Rightarrow> (None, g)
        | Some r \<Rightarrow>
            let size = max 0 (ar_size r); charged = (if ar_charged r then size else 0);
                g1 = (if charged = 0 then g
                      else write_usage p StorageBytes Lifetime (max 0 (read_usage p StorageBytes Lifetime g - charged)) g)
            in (Some charged, g1\<lparr>gv_audio := filter (\<lambda>r. \<not> mine r) (gv_audio g1),
                  gv_segments := map (\<lambda>(k, a). if k = gp_scope p \<and> a = ref then (k, []) else (k, a)) (gv_segments g1)\<rparr>))"

definition usage :: "rat \<Rightarrow> gov_principal \<Rightarrow> metric \<Rightarrow> gov \<Rightarrow> int" where
  "usage now p m g = read_usage p m (fst (window_key now m)) g"

text \<open>
  \<open>admit_websocket_frame\<close>: frames older than a second are dropped in every scope and scopes without frames
  forgotten, the caller's scope moves to the end, and after an admission the scopes used least recently go when
  there are too many.  \<open>now\<close> is a reading of the monotonic clock.
\<close>

definition fresh_frames :: "rat \<Rightarrow> (gscope \<times> rat list) list \<Rightarrow> (gscope \<times> rat list) list" where
  "fresh_frames now fs = filter (\<lambda>(k, ts). ts \<noteq> []) (map (\<lambda>(k, ts). (k, dropWhile (\<lambda>t. t \<le> now - 1) ts)) fs)"

definition frames_for :: "gscope \<Rightarrow> (gscope \<times> rat list) list \<Rightarrow> rat list" where
  "frames_for k fs = (case map_of fs k of None \<Rightarrow> [] | Some ts \<Rightarrow> ts)"

definition admit_frame :: "gov_cfg \<Rightarrow> rat \<Rightarrow> gov_principal \<Rightarrow> gov \<Rightarrow> (quota_exceeded + unit) \<times> gov" where
  "admit_frame c now p g =
     (if \<not> gp_public p then (Inr (), g)
      else
        let k = gp_scope p; fs = fresh_frames now (gv_frames g); ts = frames_for k fs;
            others = AList.delete k fs in
        if gc_frames c \<le> int (length ts)
        then (Inl (quota_error ''websocket_frames'' (gc_frames c) (int (length ts)) 1), g\<lparr>gv_frames := others @ [(k, ts)]\<rparr>)
        else
          let all = others @ [(k, ts @ [now])]
          in (Inr (), g\<lparr>gv_frames := drop (nat (int (length all) - gc_streams c)) all\<rparr>))"

end
