(* ===== verification/GovernorProps.thy ===== *)
theory GovernorProps
  imports Governor
begin

text \<open>
  Guarantees of the quotas: no slot is leaked or handed out twice, the budgets used are exactly
  what the reservations hold, no scope exceeds its frame rate.
\<close>

text \<open>Keys of the tables are tuples; quantified ones stay whole.\<close>

declare split_paired_All [simp del] split_paired_Ex [simp del]

section \<open>The running system\<close>

text \<open>
  Next to the state of the governor, the leases handed out with the mark that they were released, and the
  reservations with the amount that each holds in the ledger.
\<close>

record gov_system =
  gs_gov :: gov
  gs_leases :: "(lease_key option \<times> bool) list"
  gs_held :: "(reservation \<times> int) list"

definition charge_now :: "reservation \<Rightarrow> int" where
  "charge_now r = (if gp_public (rv_principal r) then rv_reserved r else 0)"

definition charge_after :: "int \<Rightarrow> reservation \<Rightarrow> (quota_exceeded + unit) \<Rightarrow> int \<Rightarrow> int" where
  "charge_after actual r res old =
     (if rv_settled r \<or> rv_reserved r = 0 \<or> \<not> gp_public (rv_principal r) \<or> isl res then old else max 0 actual)"

inductive gov_step :: "gov_cfg \<Rightarrow> gov_system \<Rightarrow> gov_system \<Rightarrow> bool" for c where
  request_admitted: "request_enter c now p verb path (gs_gov s) = (Inr (l2, l1), g) \<Longrightarrow>
     gov_step c s (s\<lparr>gs_gov := g, gs_leases := gs_leases s @ [(l1, False), (l2, False)]\<rparr>)"
| request_refused: "request_enter c now p verb path (gs_gov s) = (Inl x, g) \<Longrightarrow> gov_step c s (s\<lparr>gs_gov := g\<rparr>)"
| socket_admitted: "websocket c p (gs_gov s) = (Inr l, g) \<Longrightarrow>
     gov_step c s (s\<lparr>gs_gov := g, gs_leases := gs_leases s @ [(l, False)]\<rparr>)"
| lease_over: "i < length (gs_leases s) \<Longrightarrow> lease_release_once (gs_leases s ! i) (gs_gov s) = (l, g) \<Longrightarrow>
     gov_step c s (s\<lparr>gs_gov := g, gs_leases := (gs_leases s)[i := l]\<rparr>)"
| reserved: "reserve now p m a (limit_of c m) (gs_gov s) = (Inr r, g) \<Longrightarrow>
     gov_step c s (s\<lparr>gs_gov := g, gs_held := gs_held s @ [(r, charge_now r)]\<rparr>)"
| settled: "i < length (gs_held s) \<Longrightarrow> gs_held s ! i = (r, h) \<Longrightarrow> settle now a r (gs_gov s) = (res, r', g) \<Longrightarrow>
     gov_step c s (s\<lparr>gs_gov := g, gs_held := (gs_held s)[i := (r', charge_after a r res h)]\<rparr>)"
| storage_released: "release_storage_bytes c now p a (gs_gov s) = (res, g) \<Longrightarrow> gov_step c s (s\<lparr>gs_gov := g\<rparr>)"
| ambient_released: "release_registered_ambient_storage p ref (gs_gov s) = (res, g) \<Longrightarrow> gov_step c s (s\<lparr>gs_gov := g\<rparr>)"
| frame: "admit_frame c now p (gs_gov s) = (res, g) \<Longrightarrow> gov_step c s (s\<lparr>gs_gov := g\<rparr>)"

definition gov_init :: "gov_system \<Rightarrow> bool" where
  "gov_init s = (gv_ledger (gs_gov s) = [] \<and> gv_active (gs_gov s) = [] \<and> gs_leases s = [] \<and> gs_held s = [])"

definition gov_reachable :: "gov_cfg \<Rightarrow> gov_system \<Rightarrow> bool" where
  "gov_reachable c s = (\<exists>s0. gov_init s0 \<and> (gov_step c)\<^sup>*\<^sup>* s0 s)"

section \<open>Slots\<close>

definition open_leases :: "lease_key \<Rightarrow> (lease_key option \<times> bool) list \<Rightarrow> nat" where
  "open_leases k ls = length (filter (\<lambda>l. l = (Some k, False)) ls)"

text \<open>A counter exists while leases with its key are open.\<close>

definition counts_ok :: "gov_cfg \<Rightarrow> gov \<Rightarrow> (lease_key option \<times> bool) list \<Rightarrow> bool" where
  "counts_ok c g ls = (distinct (map fst (gv_active g)) \<and>
     (\<forall>k. active_count k g = int (open_leases k ls) \<and> int (open_leases k ls) \<le> max 0 (slots_of c (snd k))))"

lemma open_leases_simps [simp]:
  "open_leases k [] = 0"
  "open_leases k (ls @ ms) = open_leases k ls + open_leases k ms"
  "open_leases k (l # ls) = (if l = (Some k, False) then 1 else 0) + open_leases k ls"
  by (simp_all add: open_leases_def)

lemma open_leases_update:
  assumes "i < length ls"
  shows "open_leases k (ls[i := l]) + (if ls ! i = (Some k, False) then 1 else 0) =
     open_leases k ls + (if l = (Some k, False) then 1 else 0)"
proof -
  have "open_leases k ls = open_leases k (take i ls) + (if ls ! i = (Some k, False) then 1 else 0) + open_leases k (drop (Suc i) ls)"
    using assms by (subst id_take_nth_drop[of i ls]) simp_all
  moreover have "open_leases k (ls[i := l]) = open_leases k (take i ls) + (if l = (Some k, False) then 1 else 0) + open_leases k (drop (Suc i) ls)"
    using assms by (subst upd_conv_take_nth_drop) simp_all
  ultimately show ?thesis by simp
qed

lemma counts_ok_cong: "gv_active g' = gv_active g \<Longrightarrow> counts_ok c g' ls = counts_ok c g ls"
  by (simp add: counts_ok_def active_count_def)

lemma counts_ok_neutral: "counts_ok c g (ls @ [(None, b)]) = counts_ok c g ls" "counts_ok c g (ls @ [(None, b), l]) = counts_ok c g (ls @ [l])"
  "counts_ok c g (ls @ [l, (None, b)]) = counts_ok c g (ls @ [l])"
  by (simp_all add: counts_ok_def)

lemma acquire_counts:
  assumes "acquire_active p m (slots_of c m) g = (r, g')" "counts_ok c g ls"
  shows "case r of Inl _ \<Rightarrow> g' = g | Inr l \<Rightarrow> counts_ok c g' (ls @ [(l, False)])"
proof (cases r)
  case (Inr l)
  show ?thesis
  proof (cases "gp_public p")
    case False
    with assms Inr show ?thesis by (auto simp: acquire_active_def counts_ok_neutral)
  next
    case True
    let ?k = "(gp_scope p, m)"
    from True assms(1) Inr have l: "l = Some ?k" "active_count ?k g < slots_of c m"
        and g': "g' = g\<lparr>gv_active := AList.update ?k (active_count ?k g + 1) (gv_active g)\<rparr>"
      by (auto simp: acquire_active_def Let_def split: if_splits)
    have act: "active_count k g' = (if k = ?k then active_count ?k g + 1 else active_count k g)" for k
      by (simp add: active_count_def g' py_simps)
    have "distinct (map fst (gv_active g'))" using assms(2) by (simp add: g' counts_ok_def distinct_update)
    with l act assms(2) Inr show ?thesis by (auto simp: counts_ok_def)
  qed
qed (use assms in \<open>auto simp: acquire_active_def Let_def split: if_splits\<close>)

lemma release_counts:
  assumes "counts_ok c g ls" "i < length ls" "lease_release_once (ls ! i) g = (l, g')"
  shows "counts_ok c g' (ls[i := l])"
proof -
  obtain k b where li: "ls ! i = (k, b)" by fastforce
  have upd: "open_leases q (ls[i := l]) + (if ls ! i = (Some q, False) then 1 else 0) =
      open_leases q ls + (if l = (Some q, False) then 1 else 0)" for q
    by (rule open_leases_update[OF assms(2)])
  show ?thesis
  proof (cases "k = None \<or> b")
    case True
    with assms(3) li have "g' = g" "l \<noteq> (Some q, False)" "ls ! i \<noteq> (Some q, False)" for q
      by (auto simp: lease_release_once_def split: bool.splits option.splits)
    with upd assms(1) show ?thesis by (simp add: counts_ok_def)
  next
    case False
    then obtain q where q: "ls ! i = (Some q, False)" using li by auto
    with assms(3) have l: "l = (Some q, True)" and g': "g' = release_active q g"
      by (auto simp: lease_release_once_def)
    have count: "open_leases k' (ls[i := l]) = open_leases k' ls - (if k' = q then 1 else 0)" for k'
      using upd[of k'] by (auto simp: q l split: if_splits)
    have "open_leases q ls \<noteq> 0" using upd[of q] by (auto simp: q l)
    moreover have act: "active_count k' g = int (open_leases k' ls)" for k'
      using assms(1) unfolding counts_ok_def by blast
    ultimately have "active_count k' g' = active_count k' g - (if k' = q then 1 else 0)" for k'
      by (auto simp: g' release_active_def Let_def active_count_def py_simps split: option.splits if_splits)
    moreover have "distinct (map fst (gv_active g'))"
      using assms(1) by (simp add: g' release_active_def Let_def counts_ok_def distinct_update distinct_delete)
    moreover have "active_count k' g' = int (open_leases k' (ls[i := l])) \<and>
        int (open_leases k' (ls[i := l])) \<le> max 0 (slots_of c (snd k'))" for k'
    proof -
      have "int (open_leases k' ls) \<le> max 0 (slots_of c (snd k'))" using assms(1) unfolding counts_ok_def by blast
      moreover have "int (open_leases k' (ls[i := l])) = int (open_leases k' ls) - (if k' = q then 1 else 0)"
        using count[of k'] \<open>open_leases q ls \<noteq> 0\<close> by auto
      ultimately show ?thesis using \<open>\<And>k'. active_count k' g' = active_count k' g - (if k' = q then 1 else 0)\<close> act[of k']
        by auto
    qed
    ultimately show ?thesis unfolding counts_ok_def by blast
  qed
qed

lemma request_counts:
  assumes "request_enter c now p verb path g = (r, g')" "counts_ok c g ls"
  shows "case r of Inl _ \<Rightarrow> counts_ok c g' ls | Inr (l2, l1) \<Rightarrow> counts_ok c g' (ls @ [(l1, False), (l2, False)])"
proof (cases "gp_public p")
  case False
  with assms(1) have "r = Inr (None, None)" "g' = g" by (auto simp: request_enter_def)
  with assms(2) show ?thesis by (simp add: counts_ok_neutral)
next
  case True
  obtain r1 g1 where adj: "adjust_ledger now p Requests (fst (window_key now Requests)) 1 (gc_requests c) g = (r1, g1)" by fastforce
  then have "gv_active g1 = gv_active g" by (auto simp: adjust_ledger_def write_usage_def Let_def split: if_splits)
  from counts_ok_cong[OF this] have ok1: "counts_ok c g1 ls" using assms(2) by blast
  obtain r2 g2 where slot: "acquire_active p RequestSlots (gc_slots c) g1 = (r2, g2)" by fastforce
  note ok2 = acquire_counts[of p RequestSlots c g1 r2 g2 ls, simplified, OF slot ok1]
  obtain r3 g3 where task: "acquire_active p ExpensiveTasks (gc_expensive c) g2 = (r3, g3)" by fastforce
  show ?thesis
  proof (cases r2)
    case (Inl x)
    with True assms ok1 ok2 adj slot show ?thesis by (auto simp: request_enter_def split: sum.splits)
  next
    case (Inr l1)
    then have ok2: "counts_ok c g2 (ls @ [(l1, False)])" using ok2 by simp
    note ok3 = acquire_counts[of p ExpensiveTasks c g2 r3 g3 "ls @ [(l1, False)]", simplified, OF task ok2]
    have undo: "counts_ok c (snd (lease_release_once (l1, False) g2)) ls"
    proof -
      obtain l g4 where out: "lease_release_once (l1, False) g2 = (l, g4)" by fastforce
      have "counts_ok c g4 ((ls @ [(l1, False)])[length ls := l])"
        by (rule release_counts[OF ok2]) (simp_all add: out)
      moreover have "snd l = True" "fst l = l1" using out by (auto simp: lease_release_once_def split: option.splits)
      ultimately show ?thesis using out by (cases l) (simp add: counts_ok_def)
    qed
    show ?thesis
    proof (cases r1)
      case (Inl x)
      with True assms(1) adj ok1 show ?thesis by (auto simp: request_enter_def)
    next
      case (Inr n)
      show ?thesis
      proof (cases "is_expensive verb path")
        case False
        with \<open>r2 = Inr l1\<close> Inr True assms(1) adj slot have "r = Inr (None, l1)" "g' = g2" by (auto simp: request_enter_def)
        with ok2 show ?thesis by (simp add: counts_ok_neutral)
      next
        case expensive: True
        show ?thesis
        proof (cases r3)
          case refused: (Inl x)
          with \<open>r2 = Inr l1\<close> Inr True assms(1) adj slot task expensive ok3
          have "r = Inl x" "g' = snd (lease_release_once (l1, False) g2)" by (auto simp: request_enter_def)
          with undo show ?thesis by simp
        next
          case granted: (Inr l2)
          with \<open>r2 = Inr l1\<close> Inr True assms(1) adj slot task expensive
          have "r = Inr (l2, l1)" "g' = g3" by (auto simp: request_enter_def)
          with granted ok3 show ?thesis by simp
        qed
      qed
    qed
  qed
qed

section \<open>Budgets\<close>

definition ledger_at :: "ledger_key \<Rightarrow> gov \<Rightarrow> int" where
  "ledger_at k g = (case map_of (gv_ledger g) k of None \<Rightarrow> 0 | Some n \<Rightarrow> n)"

definition key_of :: "reservation \<Rightarrow> ledger_key" where
  "key_of r = (gp_scope (rv_principal r), rv_metric r, rv_window r)"

definition held_for :: "ledger_key \<Rightarrow> (reservation \<times> int) list \<Rightarrow> int" where
  "held_for k hs = sum_list (map snd (filter (\<lambda>(r, h). key_of r = k) hs))"

definition within_limits :: "gov_cfg \<Rightarrow> gov \<Rightarrow> bool" where
  "within_limits c g = (\<forall>k. 0 \<le> ledger_at k g \<and> ledger_at k g \<le> max 0 (limit_of c (fst (snd k))))"

text \<open>A budget that only reservations touch.\<close>

definition reserved_only :: "metric \<Rightarrow> bool" where
  "reserved_only m = (m = UploadBytes \<or> m = LlmTokens)"

definition held_ok :: "gov_cfg \<Rightarrow> reservation \<times> int \<Rightarrow> bool" where
  "held_ok c = (\<lambda>(r, h). rv_limit r = limit_of c (rv_metric r) \<and> 0 \<le> rv_reserved r \<and> 0 \<le> h \<and>
     (\<not> rv_settled r \<or> rv_reserved r = 0 \<longrightarrow> h = charge_now r))"

definition budget_ok :: "gov_cfg \<Rightarrow> gov_system \<Rightarrow> bool" where
  "budget_ok c s = (within_limits c (gs_gov s) \<and> list_all (held_ok c) (gs_held s) \<and>
     (\<forall>k. reserved_only (fst (snd k)) \<longrightarrow> ledger_at k (gs_gov s) = held_for k (gs_held s)))"

lemma read_usage_ledger: "read_usage p m w g = ledger_at (gp_scope p, m, w) g"
  by (simp add: read_usage_def ledger_at_def)

lemma ledger_at_write: "ledger_at k (write_usage p m w n g) = (if k = (gp_scope p, m, w) then n else ledger_at k g)"
  by (simp add: ledger_at_def write_usage_def py_simps)

lemma write_usage_active [simp]: "gv_active (write_usage p m w n g) = gv_active g"
  by (simp add: write_usage_def)

lemma held_for_simps [simp]:
  "held_for k [] = 0" "held_for k (xs @ ys) = held_for k xs + held_for k ys"
  "held_for k (x # xs) = (if key_of (fst x) = k then snd x else 0) + held_for k xs"
  by (auto simp: held_for_def split: prod.splits)

lemma held_for_update:
  assumes "i < length hs" "hs ! i = (r, h)" "key_of r' = key_of r"
  shows "held_for k (hs[i := (r', h')]) = held_for k hs + (if key_of r = k then h' - h else 0)"
proof -
  have "held_for k hs = held_for k (take i hs) + (if key_of r = k then h else 0) + held_for k (drop (Suc i) hs)"
    using assms by (subst id_take_nth_drop[of i hs]) simp_all
  moreover have "held_for k (hs[i := (r', h')]) = held_for k (take i hs) + (if key_of r = k then h' else 0) + held_for k (drop (Suc i) hs)"
    using assms by (subst upd_conv_take_nth_drop) simp_all
  ultimately show ?thesis by simp
qed

text \<open>What one adjustment of the ledger does.\<close>

lemma adjust_ledger_cases:
  assumes "adjust_ledger now p m w d l g = (res, g')" "within_limits c g" "l = limit_of c m"
  shows "within_limits c g' \<and> gv_active g' = gv_active g \<and> (isl res \<longrightarrow> g' = g \<and> 0 < d \<and> gp_public p) \<and>
     (\<not> isl res \<longrightarrow> (\<forall>k. ledger_at k g' = (if k = (gp_scope p, m, w) \<and> gp_public p then max 0 (ledger_at k g + d) else ledger_at k g)))"
proof -
  have lim: "0 \<le> ledger_at (gp_scope p, m, w) g \<and> ledger_at (gp_scope p, m, w) g \<le> max 0 (limit_of c m)"
    using assms(2) unfolding within_limits_def by (metis fst_conv snd_conv)
  then have max0: "max 0 (ledger_at (gp_scope p, m, w) g) = ledger_at (gp_scope p, m, w) g" by simp
  consider "\<not> gp_public p \<or> d = 0" | "gp_public p" "d \<noteq> 0" "0 < d \<and> l < max 0 (ledger_at (gp_scope p, m, w) g + d)"
    | "gp_public p" "d \<noteq> 0" "\<not> (0 < d \<and> l < max 0 (ledger_at (gp_scope p, m, w) g + d))" by blast
  then show ?thesis
  proof cases
    case 1
    with assms max0 show ?thesis by (auto simp: adjust_ledger_def)
  next
    case 2
    with assms show ?thesis by (auto simp: adjust_ledger_def read_usage_ledger Let_def)
  next
    case 3
    then have g': "g' = write_usage p m w (max 0 (ledger_at (gp_scope p, m, w) g + d)) g" "\<not> isl res"
      using assms(1) by (auto simp: adjust_ledger_def read_usage_ledger Let_def split: if_splits)
    have "max 0 (ledger_at (gp_scope p, m, w) g + d) \<le> max 0 (limit_of c m)" using 3(3) lim assms(3) by linarith
    then have "within_limits c g'" using assms(2) by (simp add: within_limits_def g' ledger_at_write)
    with g' 3 show ?thesis by (auto simp: ledger_at_write)
  qed
qed

lemma within_limitsD: "within_limits c g \<Longrightarrow> 0 \<le> ledger_at k g \<and> ledger_at k g \<le> max 0 (limit_of c (fst (snd k)))"
  unfolding within_limits_def by blast

lemma max_adjust: "within_limits c g \<Longrightarrow> 0 \<le> d \<Longrightarrow> max 0 (ledger_at k g + d) = ledger_at k g + d"
  using within_limitsD[of c g k] by simp

lemma reserve_budget:
  assumes "reserve now p m a (limit_of c m) g = (r, g')" "within_limits c g"
  shows "within_limits c g' \<and> gv_active g' = gv_active g \<and>
     (case r of Inl _ \<Rightarrow> g' = g | Inr r \<Rightarrow> held_ok c (r, charge_now r) \<and>
        (\<forall>k. ledger_at k g' = ledger_at k g + (if key_of r = k then charge_now r else 0)))"
proof (cases "max 0 a = 0")
  case True
  with assms show ?thesis by (auto simp: reserve_def Let_def held_ok_def charge_now_def)
next
  case False
  then have a: "0 < a" "max 0 a = a" by auto
  obtain res g1 where adj: "adjust_ledger now p m (fst (window_key now m)) a (limit_of c m) g = (res, g1)" by fastforce
  note cases = adjust_ledger_cases[OF adj assms(2) refl]
  show ?thesis
  proof (cases res)
    case (Inl x)
    with adj assms(1) a cases show ?thesis by (auto simp: reserve_def Let_def)
  next
    case (Inr n)
    with adj assms(1) a have r: "r = Inr \<lparr>rv_principal = p, rv_metric = m, rv_window = fst (window_key now m),
        rv_reserved = a, rv_limit = limit_of c m, rv_settled = False\<rparr>" "g' = g1"
      by (auto simp: reserve_def Let_def)
    have "max 0 (ledger_at k g + a) = ledger_at k g + a" for k using max_adjust[OF assms(2), of a] a by simp
    with cases Inr r a show ?thesis by (auto simp: held_ok_def charge_now_def key_of_def)
  qed
qed

lemma held_le_ledger:
  assumes "budget_ok c s" "i < length (gs_held s)" "gs_held s ! i = (r, h)" "reserved_only (rv_metric r)"
  shows "h \<le> ledger_at (key_of r) (gs_gov s)"
proof -
  have nonneg: "0 \<le> held_for k hs" if "list_all (held_ok c) hs" for k hs
    using that by (induction hs) (auto simp: held_ok_def)
  have all: "list_all (held_ok c) (gs_held s)" using assms(1) by (simp add: budget_ok_def)
  have "held_for (key_of r) (gs_held s) =
      held_for (key_of r) (take i (gs_held s)) + h + held_for (key_of r) (drop (Suc i) (gs_held s))"
    using assms(2,3) by (subst id_take_nth_drop[of i "gs_held s"]) simp_all
  moreover have "list_all (held_ok c) (take i (gs_held s))" "list_all (held_ok c) (drop (Suc i) (gs_held s))"
    using all by (auto simp: list_all_iff dest: in_set_takeD in_set_dropD)
  moreover have "ledger_at (key_of r) (gs_gov s) = held_for (key_of r) (gs_held s)"
  proof -
    have "reserved_only (fst (snd (key_of r)))" using assms(4) by (simp add: key_of_def)
    then show ?thesis using assms(1) unfolding budget_ok_def by blast
  qed
  ultimately show ?thesis using nonneg by (smt (verit))
qed

lemma settle_budget:
  assumes "budget_ok c s" "i < length (gs_held s)" "gs_held s ! i = (r, h)" "settle now a r (gs_gov s) = (res, r', g)"
  shows "budget_ok c (s\<lparr>gs_gov := g, gs_held := (gs_held s)[i := (r', charge_after a r res h)]\<rparr>) \<and>
     gv_active g = gv_active (gs_gov s)"
proof -
  let ?g = "gs_gov s" and ?h' = "charge_after a r res h" and ?d = "max 0 a - rv_reserved r"
  have lim: "within_limits c ?g" and all: "list_all (held_ok c) (gs_held s)" using assms(1) by (auto simp: budget_ok_def)
  have ok: "held_ok c (r, h)" using all assms(2,3) by (metis list_all_length)
  have r': "r' = r\<lparr>rv_settled := True\<rparr>" using assms(4) by (auto simp: settle_def Let_def split: if_splits prod.splits sum.splits)
  then have key: "key_of r' = key_of r" by (simp add: key_of_def)
  have ok': "held_ok c (r', ?h')" using ok by (auto simp: r' held_ok_def charge_after_def charge_now_def)
  have ledger: "within_limits c g \<and> gv_active g = gv_active ?g \<and>
      (reserved_only (rv_metric r) \<longrightarrow> (\<forall>k. ledger_at k g = ledger_at k ?g + (if key_of r = k then ?h' - h else 0))) \<and>
      (\<forall>k. k \<noteq> key_of r \<longrightarrow> ledger_at k g = ledger_at k ?g)"
  proof (cases "rv_settled r \<or> rv_reserved r = 0 \<or> ?d = 0")
    case True
    then have "g = ?g" "\<not> isl res" using assms(4) by (auto simp: settle_def Let_def)
    moreover have "?h' = h" using True ok by (auto simp: charge_after_def held_ok_def charge_now_def)
    ultimately show ?thesis using lim by simp
  next
    case False
    obtain x g1 where adj: "adjust_ledger now (rv_principal r) (rv_metric r) (rv_window r) ?d (rv_limit r) ?g = (x, g1)" by fastforce
    with False assms(4) have g: "g = g1" "isl res = isl x" by (auto simp: settle_def Let_def split: sum.splits)
    note cases = adjust_ledger_cases[OF adj lim]
    have rl: "rv_limit r = limit_of c (rv_metric r)" using ok by (simp add: held_ok_def)
    note cases = cases[OF rl]
    have held: "h = charge_now r" using ok False by (simp add: held_ok_def)
    show ?thesis
    proof (cases "isl x \<or> \<not> gp_public (rv_principal r)")
      case True
      then have "?h' = h" using g by (auto simp: charge_after_def)
      with True cases g show ?thesis by (auto simp: key_of_def)
    next
      case False
      with held have "h = rv_reserved r" by (simp add: charge_now_def)
      have "max 0 (ledger_at (key_of r) ?g + ?d) = ledger_at (key_of r) ?g + ?d" if "reserved_only (rv_metric r)"
        using held_le_ledger[OF assms(1-3) that] \<open>h = rv_reserved r\<close> by simp
      moreover have "?h' - h = ?d" using False g \<open>h = rv_reserved r\<close> \<open>\<not> (rv_settled r \<or> rv_reserved r = 0 \<or> ?d = 0)\<close>
        by (simp add: charge_after_def)
      ultimately show ?thesis using False cases g by (auto simp: key_of_def)
    qed
  qed
  have "list_all (held_ok c) ((gs_held s)[i := (r', ?h')])"
    using all ok' assms(2) by (auto simp: list_all_length nth_list_update)
  moreover have "ledger_at k g = held_for k ((gs_held s)[i := (r', ?h')])" if m: "reserved_only (fst (snd k))" for k
  proof -
    have "ledger_at k ?g = held_for k (gs_held s)" using assms(1) m unfolding budget_ok_def by blast
    moreover have "key_of r = k \<Longrightarrow> reserved_only (rv_metric r)" using m by (auto simp: key_of_def)
    ultimately show ?thesis using ledger held_for_update[OF assms(2,3) key, of k ?h'] by auto
  qed
  ultimately show ?thesis using ledger by (simp add: budget_ok_def)
qed

section \<open>The invariant\<close>

definition gov_ok :: "gov_cfg \<Rightarrow> gov_system \<Rightarrow> bool" where
  "gov_ok c s = (counts_ok c (gs_gov s) (gs_leases s) \<and> budget_ok c s)"

lemma gov_ok_init: "gov_init s \<Longrightarrow> gov_ok c s"
  by (simp add: gov_init_def gov_ok_def counts_ok_def budget_ok_def within_limits_def ledger_at_def active_count_def)

lemma lease_ledger: "lease_release_once l g = (l', g') \<Longrightarrow> gv_ledger g' = gv_ledger g"
  by (auto simp: lease_release_once_def release_active_def Let_def split: prod.splits bool.splits option.splits if_splits)

lemma acquire_ledger: "acquire_active p m l g = (r, g') \<Longrightarrow> gv_ledger g' = gv_ledger g"
  by (auto simp: acquire_active_def Let_def split: if_splits)

text \<open>A change of the ledger under other keys, in bounds, keeps the budgets.\<close>

lemma budget_ok_other:
  assumes "budget_ok c s" "within_limits c g" "\<And>k. reserved_only (fst (snd k)) \<Longrightarrow> ledger_at k g = ledger_at k (gs_gov s)"
  shows "budget_ok c (s\<lparr>gs_gov := g\<rparr>)" "budget_ok c (s\<lparr>gs_gov := g, gs_leases := ls\<rparr>)"
  using assms unfolding budget_ok_def by auto

lemma budget_ok_same:
  assumes "budget_ok c s" "gv_ledger g = gv_ledger (gs_gov s)"
  shows "budget_ok c (s\<lparr>gs_gov := g\<rparr>)" "budget_ok c (s\<lparr>gs_gov := g, gs_leases := ls\<rparr>)"
proof -
  have "ledger_at k g = ledger_at k (gs_gov s)" for k by (simp add: ledger_at_def assms(2))
  then show "budget_ok c (s\<lparr>gs_gov := g\<rparr>)" "budget_ok c (s\<lparr>gs_gov := g, gs_leases := ls\<rparr>)"
    using assms(1) budget_ok_other[OF assms(1), of g] by (auto simp: budget_ok_def within_limits_def)
qed

lemma request_ledger:
  assumes "request_enter c now p verb path g = (r, g')" "within_limits c g"
  shows "within_limits c g' \<and> (\<forall>k. fst (snd k) \<noteq> Requests \<longrightarrow> ledger_at k g' = ledger_at k g)"
proof -
  have ledger_cong: "within_limits c g2 \<and> (\<forall>k. fst (snd k) \<noteq> Requests \<longrightarrow> ledger_at k g2 = ledger_at k g)"
    if "gv_ledger g2 = gv_ledger g1" "within_limits c g1 \<and> (\<forall>k. fst (snd k) \<noteq> Requests \<longrightarrow> ledger_at k g1 = ledger_at k g)" for g1 g2
  proof -
    have "ledger_at k g2 = ledger_at k g1" for k by (simp add: ledger_at_def that(1))
    with that(2) show ?thesis by (simp add: within_limits_def)
  qed
  show ?thesis
  proof (cases "gp_public p")
    case False
    with assms show ?thesis by (auto simp: request_enter_def)
  next
    case True
    obtain r1 g1 where adj: "adjust_ledger now p Requests (fst (window_key now Requests)) 1 (gc_requests c) g = (r1, g1)" by fastforce
    from adjust_ledger_cases[OF adj assms(2)]
    have g1: "within_limits c g1 \<and> (\<forall>k. fst (snd k) \<noteq> Requests \<longrightarrow> ledger_at k g1 = ledger_at k g)"
      by (cases "isl r1") auto
    obtain r2 g2 where slot: "acquire_active p RequestSlots (gc_slots c) g1 = (r2, g2)" by fastforce
    obtain r3 g3 where task: "acquire_active p ExpensiveTasks (gc_expensive c) g2 = (r3, g3)" by fastforce
    have eqs: "gv_ledger g2 = gv_ledger g1" "gv_ledger g3 = gv_ledger g1"
      using acquire_ledger[OF slot] acquire_ledger[OF task] by simp_all
    have out: "gv_ledger (snd (lease_release_once l g3)) = gv_ledger g1" for l
      using lease_ledger[of l g3] eqs by (metis prod.collapse)
    have "g' = g1 \<or> g' = g2 \<or> g' = g3 \<or> (\<exists>l. g' = snd (lease_release_once l g3))"
      using assms(1) True adj slot task by (auto simp: request_enter_def split: sum.splits if_splits)
    then have "gv_ledger g' = gv_ledger g1" by (elim disjE exE) (simp_all add: eqs out)
    from ledger_cong[OF this g1] show ?thesis .
  qed
qed

lemma storage_release_ok:
  assumes "release_storage_bytes c now p a g = (res, g')" "within_limits c g"
  shows "within_limits c g' \<and> gv_active g' = gv_active g \<and> (\<forall>k. fst (snd k) \<noteq> StorageBytes \<longrightarrow> ledger_at k g' = ledger_at k g)"
proof -
  have adj: "adjust_ledger now p StorageBytes Lifetime (- max 0 a) (gc_storage c) g = (res, g')"
    using assms(1) by (simp add: release_storage_bytes_def)
  have "gc_storage c = limit_of c StorageBytes" by simp
  from adjust_ledger_cases[OF adj assms(2) this] show ?thesis by (cases "isl res") simp_all
qed

lemma ledger_at_files [simp]: "ledger_at k (g\<lparr>gv_audio := a, gv_segments := b\<rparr>) = ledger_at k g"
  by (simp add: ledger_at_def)

lemma ambient_release_ledger:
  assumes "release_registered_ambient_storage p ref g = (res, g')"
  shows "\<exists>n. 0 \<le> n \<and> gv_active g' = gv_active g \<and> (\<forall>k. ledger_at k g' =
     (if k = (gp_scope p, StorageBytes, Lifetime) \<and> n \<noteq> 0 then max 0 (ledger_at k g - n) else ledger_at k g))"
proof (cases "gp_public p \<and> List.find (\<lambda>r. ar_scope r = gp_scope p \<and> ar_ref r = ref) (gv_audio g) \<noteq> None")
  case True
  then obtain r where r: "List.find (\<lambda>r. ar_scope r = gp_scope p \<and> ar_ref r = ref) (gv_audio g) = Some r" by blast
  let ?n = "if ar_charged r then max 0 (ar_size r) else 0"
  obtain as bs where "g' = (if ?n = 0 then g else write_usage p StorageBytes Lifetime
      (max 0 (read_usage p StorageBytes Lifetime g - ?n)) g)\<lparr>gv_audio := as, gv_segments := bs\<rparr>"
    using assms True r by (simp add: release_registered_ambient_storage_def Let_def) blast
  then show ?thesis by (intro exI[of _ ?n]) (auto simp: ledger_at_write read_usage_ledger)
next
  case False
  then have "g' = g" using assms by (auto simp: release_registered_ambient_storage_def Let_def split: if_splits)
  then show ?thesis by (intro exI[of _ 0]) simp
qed

lemma ambient_release_ok:
  assumes "release_registered_ambient_storage p ref g = (res, g')" "within_limits c g"
  shows "within_limits c g' \<and> gv_active g' = gv_active g \<and> (\<forall>k. fst (snd k) \<noteq> StorageBytes \<longrightarrow> ledger_at k g' = ledger_at k g)"
proof -
  obtain n where n: "0 \<le> n" "gv_active g' = gv_active g" "\<forall>k. ledger_at k g' =
      (if k = (gp_scope p, StorageBytes, Lifetime) \<and> n \<noteq> 0 then max 0 (ledger_at k g - n) else ledger_at k g)"
    using ambient_release_ledger[OF assms(1)] by blast
  have "max 0 (ledger_at k g - n) \<le> max 0 (limit_of c (fst (snd k)))" for k
    using within_limitsD[OF assms(2), of k] n(1) by linarith
  from this[of "(gp_scope p, StorageBytes, Lifetime)"] n assms(2) show ?thesis by (simp add: within_limits_def)
qed

lemma frame_keeps: "admit_frame c now p g = (res, g') \<Longrightarrow> gv_ledger g' = gv_ledger g \<and> gv_active g' = gv_active g"
  by (auto simp: admit_frame_def Let_def split: if_splits)

lemma not_reserved_only: "reserved_only m \<Longrightarrow> m \<noteq> Requests \<and> m \<noteq> StorageBytes"
  by (auto simp: reserved_only_def)

lemma gov_ok_step:
  assumes "gov_step c s t" "gov_ok c s"
  shows "gov_ok c t"
proof -
  have counts: "counts_ok c (gs_gov s) (gs_leases s)" and budget: "budget_ok c s" and lim: "within_limits c (gs_gov s)"
    using assms(2) by (auto simp: gov_ok_def budget_ok_def)
  from assms(1) show ?thesis
  proof cases
    case (request_admitted now p verb path l2 l1 g)
    with request_counts[OF request_admitted(2) counts] budget_ok_other[OF budget, of g] request_ledger[OF request_admitted(2) lim]
    show ?thesis by (auto simp: gov_ok_def dest: not_reserved_only)
  next
    case (request_refused now p verb path x g)
    with request_counts[OF request_refused(2) counts] budget_ok_other[OF budget, of g] request_ledger[OF request_refused(2) lim]
    show ?thesis by (auto simp: gov_ok_def dest: not_reserved_only)
  next
    case (socket_admitted p l g)
    then have acq: "acquire_active p Websockets (slots_of c Websockets) (gs_gov s) = (Inr l, g)" by (simp add: websocket_def)
    with acquire_counts[OF acq counts] budget_ok_same[OF budget acquire_ledger[OF acq]] socket_admitted(1)
    show ?thesis by (simp add: gov_ok_def)
  next
    case (lease_over i l g)
    with release_counts[OF counts lease_over(2,3)] budget_ok_same[OF budget lease_ledger[OF lease_over(3)]]
    show ?thesis by (simp add: gov_ok_def)
  next
    case (reserved now p m a r g)
    from reserve_budget[OF reserved(2) lim] have res: "within_limits c g" "gv_active g = gv_active (gs_gov s)" "held_ok c (r, charge_now r)"
        "\<And>k. ledger_at k g = ledger_at k (gs_gov s) + (if key_of r = k then charge_now r else 0)" by auto
    have "budget_ok c t" using budget res unfolding budget_ok_def reserved(1) by simp
    moreover have "counts_ok c g (gs_leases s)" using counts counts_ok_cong[OF res(2)] by blast
    ultimately show ?thesis by (simp add: gov_ok_def reserved(1))
  next
    case (settled i r h now a res r' g)
    from settle_budget[OF budget settled(2-4)]
    have "budget_ok c t" "gv_active g = gv_active (gs_gov s)" by (auto simp: settled(1))
    moreover from counts_ok_cong[OF this(2)] have "counts_ok c g (gs_leases s)" using counts by blast
    ultimately show ?thesis by (simp add: gov_ok_def settled(1))
  next
    case (storage_released now p a res g)
    from storage_release_ok[OF storage_released(2) lim] have g: "within_limits c g" "gv_active g = gv_active (gs_gov s)"
        "\<And>k. reserved_only (fst (snd k)) \<Longrightarrow> ledger_at k g = ledger_at k (gs_gov s)" by (auto dest: not_reserved_only)
    from counts_ok_cong[OF g(2)] counts have "counts_ok c g (gs_leases s)" by blast
    with budget_ok_other(1)[OF budget g(1,3)] show ?thesis by (simp add: gov_ok_def storage_released(1))
  next
    case (ambient_released p ref res g)
    from ambient_release_ok[OF ambient_released(2) lim] have g: "within_limits c g" "gv_active g = gv_active (gs_gov s)"
        "\<And>k. reserved_only (fst (snd k)) \<Longrightarrow> ledger_at k g = ledger_at k (gs_gov s)" by (auto dest: not_reserved_only)
    from counts_ok_cong[OF g(2)] counts have "counts_ok c g (gs_leases s)" by blast
    with budget_ok_other(1)[OF budget g(1,3)] show ?thesis by (simp add: gov_ok_def ambient_released(1))
  next
    case (frame now p res g)
    from frame_keeps[OF frame(2)] have g: "gv_ledger g = gv_ledger (gs_gov s)" "gv_active g = gv_active (gs_gov s)" by auto
    from counts_ok_cong[OF g(2)] counts have "counts_ok c g (gs_leases s)" by blast
    with budget_ok_same(1)[OF budget g(1)] show ?thesis by (simp add: gov_ok_def frame(1))
  qed
qed

interpretation governor: invariant_system gov_init "gov_step c" "gov_ok c" for c
  by unfold_locales (auto intro: gov_ok_init gov_ok_step)

lemma gov_reachable_ok: "gov_reachable c s \<Longrightarrow> gov_ok c s"
  unfolding gov_reachable_def by (blast intro: governor.reachable_inv)

text \<open>
  C5.  No slot is leaked and none is handed out beyond the limit: in every run the counter of a
  principal's running requests, expensive tasks or sockets is the number of its leases that were not
  released, and never exceeds the configured number, also when a request is refused half way or a
  lease is released twice.
\<close>

theorem slots_are_exact:
  assumes "gov_reachable c s"
  shows "active_count k (gs_gov s) = int (open_leases k (gs_leases s)) \<and>
     int (open_leases k (gs_leases s)) \<le> max 0 (slots_of c (snd k))"
  using gov_reachable_ok[OF assms] unfolding gov_ok_def counts_ok_def by blast

text \<open>
  C9.  Budgets balance: the amount used in a window stays between 0 and the limit, and the uploaded
  bytes and model tokens of a day are exactly what the reservations of that day hold: an open reservation the
  amount it reserved, a settled one the amount really used, one whose settlement was refused what it had reserved.
\<close>

theorem budgets_balance:
  assumes "gov_reachable c s"
  shows "0 \<le> ledger_at k (gs_gov s) \<and> ledger_at k (gs_gov s) \<le> max 0 (limit_of c (fst (snd k))) \<and>
     (fst (snd k) \<in> {UploadBytes, LlmTokens} \<longrightarrow> ledger_at k (gs_gov s) = held_for k (gs_held s)) \<and>
     list_all (\<lambda>(r, h). 0 \<le> h \<and> (\<not> rv_settled r \<longrightarrow> h = charge_now r)) (gs_held s)"
proof -
  have ok: "within_limits c (gs_gov s)" "list_all (held_ok c) (gs_held s)"
      "\<forall>k. reserved_only (fst (snd k)) \<longrightarrow> ledger_at k (gs_gov s) = held_for k (gs_held s)"
    using gov_reachable_ok[OF assms] by (auto simp: gov_ok_def budget_ok_def)
  have "list_all (\<lambda>(r, h). 0 \<le> h \<and> (\<not> rv_settled r \<longrightarrow> h = charge_now r)) (gs_held s)"
    using ok(2) by (rule list.pred_mono_strong) (auto simp: held_ok_def)
  with within_limitsD[OF ok(1), of k] ok(3) show ?thesis by (auto simp: reserved_only_def)
qed

section \<open>The rate of frames\<close>

text \<open>
  Frames alone, with the clock of the last call and the log of the frames admitted, newest first.  \<open>S\<close> is the set of
  scopes that send.
\<close>

record frame_system =
  fr_gov :: gov
  fr_now :: rat
  fr_log :: "(gscope \<times> rat) list"

inductive frame_step :: "gov_cfg \<Rightarrow> gscope set \<Rightarrow> frame_system \<Rightarrow> frame_system \<Rightarrow> bool" for c S where
  sent: "fr_now s \<le> now \<Longrightarrow> gp_public p \<Longrightarrow> gp_scope p \<in> S \<Longrightarrow> admit_frame c now p (fr_gov s) = (r, g) \<Longrightarrow>
     frame_step c S s \<lparr>fr_gov = g, fr_now = now, fr_log = (if isl r then fr_log s else (gp_scope p, now) # fr_log s)\<rparr>"

definition frame_init :: "frame_system \<Rightarrow> bool" where
  "frame_init s = (gv_frames (fr_gov s) = [] \<and> fr_log s = [])"

definition recent :: "rat \<Rightarrow> gscope \<Rightarrow> (gscope \<times> rat) list \<Rightarrow> rat list" where
  "recent now k lg = rev (map snd (filter (\<lambda>e. fst e = k \<and> now - 1 < snd e) lg))"

definition frames_ok :: "gscope set \<Rightarrow> frame_system \<Rightarrow> bool" where
  "frames_ok S s = (distinct (map fst (gv_frames (fr_gov s))) \<and> fst ` set (gv_frames (fr_gov s)) \<subseteq> S \<and>
     (\<forall>k. sorted (frames_for k (gv_frames (fr_gov s))) \<and> (\<forall>t \<in> set (frames_for k (gv_frames (fr_gov s))). t \<le> fr_now s) \<and>
        filter (\<lambda>t. fr_now s - 1 < t) (frames_for k (gv_frames (fr_gov s))) = recent (fr_now s) k (fr_log s)))"

lemma dropWhile_sorted: "sorted ts \<Longrightarrow> dropWhile (\<lambda>t. t \<le> a) ts = filter (\<lambda>t. a < t) (ts :: rat list)"
proof (induction ts)
  case (Cons t ts)
  then show ?case by (cases "t \<le> a") (auto simp: not_le intro!: filter_True[symmetric])
qed simp

lemma fresh_frames_keys:
  "set (map fst (fresh_frames now fs)) \<subseteq> set (map fst fs)"
  "distinct (map fst fs) \<Longrightarrow> distinct (map fst (fresh_frames now fs))"
proof -
  let ?f = "\<lambda>(k, ts). (k, dropWhile (\<lambda>t. t \<le> now - 1) ts)"
  have keys: "map fst (map ?f fs) = map fst fs" by (simp add: comp_def case_prod_beta)
  have "fst ` set (fresh_frames now fs) \<subseteq> fst ` set (map ?f fs)"
    unfolding fresh_frames_def by (rule image_mono) (rule filter_is_subset)
  then show "set (map fst (fresh_frames now fs)) \<subseteq> set (map fst fs)" using keys by (metis set_map)
  assume "distinct (map fst fs)"
  then show "distinct (map fst (fresh_frames now fs))"
    unfolding fresh_frames_def by (intro distinct_map_filter) (simp only: keys)
qed

lemma frames_for_fresh:
  assumes "distinct (map fst fs)"
  shows "frames_for k (fresh_frames now fs) = dropWhile (\<lambda>t. t \<le> now - 1) (frames_for k fs)"
  using assms
proof (induction fs)
  case (Cons f fs)
  obtain q ts where f: "f = (q, ts)" by (cases f)
  let ?ts = "dropWhile (\<lambda>t. t \<le> now - 1) ts"
  have cons: "fresh_frames now (f # fs) = (if ?ts = [] then fresh_frames now fs else (q, ?ts) # fresh_frames now fs)"
    by (simp add: fresh_frames_def f)
  show ?case
  proof (cases "k = q")
    case True
    have "q \<notin> set (map fst (fresh_frames now fs))" using Cons.prems fresh_frames_keys(1)[of now fs] by (auto simp: f)
    then have "map_of (fresh_frames now fs) q = None" by (simp add: map_of_eq_None_iff)
    with True cons show ?thesis by (cases "?ts = []") (simp_all add: frames_for_def f del: dropWhile_eq_Nil_conv)
  next
    case False
    with cons Cons show ?thesis by (simp add: frames_for_def f)
  qed
qed (simp add: fresh_frames_def frames_for_def)

lemma frames_for_delete: "frames_for k (AList.delete q fs @ [(q, ts)]) = (if k = q then ts else frames_for k fs)"
  by (auto simp: frames_for_def map_add_def py_simps split: option.splits)

lemma recent_later: "now \<le> now' \<Longrightarrow> filter (\<lambda>t. now' - 1 < t) (recent now k lg) = recent now' k lg"
  unfolding recent_def by (induction lg) auto

lemma frames_ok_step:
  assumes "frame_step c S s t" "frames_ok S s" "finite S" "int (card S) \<le> gc_streams c"
  shows "frames_ok S t \<and> (fr_log t = fr_log s \<or> (\<exists>e. fr_log t = e # fr_log s \<and>
     length (filter (\<lambda>x. fst x = fst e \<and> snd e - 1 < snd x) (fr_log s)) < nat (gc_frames c)))"
  using assms(1)
proof cases
  case (sent now p r g)
  let ?fs = "gv_frames (fr_gov s)" and ?k = "gp_scope p"
  let ?ff = "fresh_frames now ?fs"
  let ?ts = "frames_for ?k ?ff"
  have ok: "distinct (map fst ?fs)" "fst ` set ?fs \<subseteq> S" using assms(2) by (auto simp: frames_ok_def)
  have old: "sorted (frames_for k ?fs)" "\<forall>t \<in> set (frames_for k ?fs). t \<le> fr_now s"
      "filter (\<lambda>t. fr_now s - 1 < t) (frames_for k ?fs) = recent (fr_now s) k (fr_log s)" for k
    using assms(2) unfolding frames_ok_def by blast+
  have now: "frames_for k ?ff = recent now k (fr_log s)" for k
  proof -
    have "frames_for k ?ff = filter (\<lambda>t. now - 1 < t) (frames_for k ?fs)"
      using frames_for_fresh[OF ok(1)] dropWhile_sorted[OF old(1)] by simp
    also have "\<dots> = filter (\<lambda>t. now - 1 < t) (filter (\<lambda>t. fr_now s - 1 < t) (frames_for k ?fs))"
      using sent(2) by (auto simp: intro!: filter_cong)
    finally show ?thesis using old(3) recent_later[OF sent(2)] by simp
  qed
  have keys: "distinct (map fst (AList.delete ?k ?ff @ [(?k, ts)]))" "fst ` set (AList.delete ?k ?ff @ [(?k, ts)]) \<subseteq> S" for ts
  proof -
    have fst: "map fst (AList.delete ?k ?ff @ [(?k, ts)]) = removeAll ?k (map fst ?ff) @ [?k]" by (simp add: delete_keys)
    show "distinct (map fst (AList.delete ?k ?ff @ [(?k, ts)]))"
      unfolding fst using fresh_frames_keys(2)[OF ok(1)] by (simp add: distinct_removeAll)
    have "set (map fst (AList.delete ?k ?ff @ [(?k, ts)])) \<subseteq> S"
      unfolding fst using fresh_frames_keys(1)[of now ?fs] ok(2) sent(4) by auto
    then show "fst ` set (AList.delete ?k ?ff @ [(?k, ts)]) \<subseteq> S" by simp
  qed
  have mem: "\<forall>t \<in> set (frames_for k ?ff). t \<le> now" "sorted (frames_for k ?ff)" for k
  proof -
    have "frames_for k ?ff = dropWhile (\<lambda>t. t \<le> now - 1) (frames_for k ?fs)" by (rule frames_for_fresh[OF ok(1)])
    then show "\<forall>t \<in> set (frames_for k ?ff). t \<le> now" "sorted (frames_for k ?ff)"
      using old(1,2)[of k] sent(2) by (auto dest!: set_dropWhileD intro: sorted_dropWhile order_trans)
  qed
  show ?thesis
  proof (cases "gc_frames c \<le> int (length ?ts)")
    case True
    with sent(3,5) have "isl r" "gv_frames g = AList.delete ?k ?ff @ [(?k, ?ts)]" by (auto simp: admit_frame_def Let_def)
    then show ?thesis using keys mem now unfolding sent(1) frames_ok_def
      by (simp add: frames_for_delete recent_later)
  next
    case False
    let ?all = "AList.delete ?k ?ff @ [(?k, ?ts @ [now])]"
    have "length ?all = card (set (map fst ?all))" using keys(1) by (metis distinct_card length_map)
    also have "\<dots> \<le> card S" using keys(2)[of "?ts @ [now]"] by (intro card_mono assms(3)) simp
    finally have "nat (int (length ?all) - gc_streams c) = 0" using assms(4) by simp
    with False sent(3,5) have r: "\<not> isl r" "gv_frames g = ?all" by (auto simp: admit_frame_def Let_def)
    have "length (filter (\<lambda>x. fst x = ?k \<and> now - 1 < snd x) (fr_log s)) < nat (gc_frames c)"
      using False now[of ?k] by (simp add: recent_def)
    moreover have "frames_ok S t" using keys mem now unfolding sent(1) frames_ok_def
      by (auto simp: r frames_for_delete recent_later sorted_append recent_def)
    ultimately show ?thesis using r unfolding sent(1) by auto
  qed
qed

text \<open>
  Any interval of one second holds at most the configured number of frames of a scope: the window locale on the
  frame machine.  The scopes that send are at most as many as the governor remembers.
\<close>

lemma frame_run_ok:
  assumes "(frame_step c S)\<^sup>*\<^sup>* s0 s" "frame_init s0" "finite S" "int (card S) \<le> gc_streams c"
  shows "frames_ok S s"
  using assms(1)
proof (induction rule: rtranclp_induct)
  case base
  show ?case using assms(2) by (simp add: frame_init_def frames_ok_def frames_for_def recent_def)
next
  case (step y z)
  then show ?case using frames_ok_step assms(3,4) by blast
qed

definition frames_fit :: "gov_cfg \<Rightarrow> gscope set \<Rightarrow> frame_system \<Rightarrow> bool" where
  "frames_fit c S s = (frame_init s \<and> finite S \<and> int (card S) \<le> gc_streams c)"

interpretation frame_rate: rate_limited "frames_fit c S" "frame_step c S" fr_log snd "\<lambda>x. fst x = k" 1 "nat (gc_frames c)" for c S k
proof unfold_locales
  show "frames_fit c S s \<Longrightarrow> fr_log s = []" for s by (simp add: frames_fit_def frame_init_def)
next
  fix s0 s t assume "frames_fit c S s0" "(frame_step c S)\<^sup>*\<^sup>* s0 s" "frame_step c S s t"
  then have "frames_ok S t \<and> (fr_log t = fr_log s \<or> (\<exists>e. fr_log t = e # fr_log s \<and>
      length (filter (\<lambda>x. fst x = fst e \<and> snd e - 1 < snd x) (fr_log s)) < nat (gc_frames c)))"
    using frames_ok_step frame_run_ok unfolding frames_fit_def by blast
  then show "fr_log t = fr_log s \<or> (\<exists>e. fr_log t = e # fr_log s \<and>
      (fst e = k \<longrightarrow> length (filter (\<lambda>x. fst x = k \<and> snd e - 1 < snd x) (fr_log s)) < nat (gc_frames c)))"
    by blast
qed

text \<open>
  While no more scopes send than the governor remembers, no scope gets more than the configured number of
  WebSocket frames through in any second, whatever the times of the calls.
\<close>

theorem frame_rate_is_bounded:
  assumes "frame_init s0" "(frame_step c S)\<^sup>*\<^sup>* s0 s" "finite S" "int (card S) \<le> gc_streams c"
  shows "length (filter (\<lambda>(k', t). k' = k \<and> a < t \<and> t \<le> a + 1) (fr_log s)) \<le> nat (gc_frames c)"
proof -
  have "frames_fit c S s0" using assms by (simp add: frames_fit_def)
  then have "length (filter (\<lambda>x. fst x = k \<and> a < snd x \<and> snd x \<le> a + 1) (fr_log s)) \<le> nat (gc_frames c)"
    by (rule frame_rate.window_bound[OF _ assms(2)])
  then show ?thesis by (simp add: case_prod_beta')
qed

section \<open>Concrete runs\<close>

definition gov_demo_cfg :: gov_cfg where
  "gov_demo_cfg = \<lparr>gc_requests = 10, gc_slots = 2, gc_expensive = 1, gc_websockets = 1, gc_upload = 100, gc_storage = 100,
     gc_tokens = 50, gc_frames = 2, gc_streams = 4\<rparr>"

definition gov_demo_p :: gov_principal where
  "gov_demo_p = \<lparr>gp_scope = (''t'', ''o''), gp_public = True\<rparr>"

definition gov_demo0 :: gov where
  "gov_demo0 = \<lparr>gv_ledger = [], gv_active = [], gv_frames = [], gv_audio = [], gv_segments = []\<rparr>"

definition gov_demo_s0 :: gov_system where
  "gov_demo_s0 = \<lparr>gs_gov = gov_demo0, gs_leases = [], gs_held = []\<rparr>"

lemma gov_reachable_refl: "gov_init s \<Longrightarrow> gov_reachable c s"
  unfolding gov_reachable_def by blast

lemma gov_reachable_step: "gov_reachable c s \<Longrightarrow> gov_step c s t \<Longrightarrow> gov_reachable c t"
  unfolding gov_reachable_def by (meson rtranclp.rtrancl_into_rtrancl)

lemma gov_demo_init: "gov_init gov_demo_s0"
  by (simp add: gov_init_def gov_demo_s0_def gov_demo0_def)

definition gov_demo1 :: gov where
  "gov_demo1 = snd (request_enter gov_demo_cfg 0 gov_demo_p ''POST'' ''/chat/x'' gov_demo0)"

definition gov_demo_s1 :: gov_system where
  "gov_demo_s1 = gov_demo_s0\<lparr>gs_gov := gov_demo1, gs_leases :=
     [(Some ((''t'', ''o''), RequestSlots), False), (Some ((''t'', ''o''), ExpensiveTasks), False)]\<rparr>"

text \<open>A second expensive request is refused and gives its slot back.\<close>

definition gov_demo2 :: gov where
  "gov_demo2 = snd (request_enter gov_demo_cfg 0 gov_demo_p ''POST'' ''/chat'' gov_demo1)"

lemma slots_are_exact_witness:
  "active_count ((''t'', ''o''), RequestSlots) gov_demo2 = 1 \<and> open_leases ((''t'', ''o''), RequestSlots) (gs_leases gov_demo_s1) = 1"
proof -
  have in1: "request_enter gov_demo_cfg 0 gov_demo_p ''POST'' ''/chat/x'' (gs_gov gov_demo_s0) =
      (Inr (Some ((''t'', ''o''), ExpensiveTasks), Some ((''t'', ''o''), RequestSlots)), gov_demo1)"
    unfolding gov_demo1_def gov_demo_s0_def by code_simp
  have s1: "gov_reachable gov_demo_cfg gov_demo_s1"
    using gov_reachable_step[OF gov_reachable_refl[OF gov_demo_init] request_admitted[OF in1]]
    by (simp add: gov_demo_s1_def gov_demo_s0_def)
  have "isl (fst (request_enter gov_demo_cfg 0 gov_demo_p ''POST'' ''/chat'' gov_demo1))" by code_simp
  then obtain x where "request_enter gov_demo_cfg 0 gov_demo_p ''POST'' ''/chat'' (gs_gov gov_demo_s1) = (Inl x, gov_demo2)"
    unfolding gov_demo2_def gov_demo_s1_def by (auto simp: isl_def prod_eq_iff)
  from slots_are_exact[OF gov_reachable_step[OF s1 request_refused[OF this]], of "((''t'', ''o''), RequestSlots)"]
  show ?thesis by (simp add: gov_demo_s1_def)
qed

definition gov_demo_r :: reservation where
  "gov_demo_r = \<lparr>rv_principal = gov_demo_p, rv_metric = LlmTokens, rv_window = Day 0, rv_reserved = 40, rv_limit = 50, rv_settled = False\<rparr>"

lemma budgets_balance_witness:
  "(let g = snd (reserve_llm_tokens gov_demo_cfg 0 gov_demo_p 40 gov_demo0); g' = snd (snd (settle 5 30 gov_demo_r g))
    in ledger_at ((''t'', ''o''), LlmTokens, Day 0) g' = 30)"
proof -
  define g where "g = snd (reserve_llm_tokens gov_demo_cfg 0 gov_demo_p 40 gov_demo0)"
  define g' where "g' = snd (snd (settle 5 30 gov_demo_r g))"
  have "reserve 0 gov_demo_p LlmTokens 40 (limit_of gov_demo_cfg LlmTokens) (gs_gov gov_demo_s0) = (Inr gov_demo_r, g)"
    unfolding g_def gov_demo_s0_def by code_simp
  from gov_reachable_step[OF gov_reachable_refl[OF gov_demo_init] reserved[OF this]]
  have s1: "gov_reachable gov_demo_cfg (gov_demo_s0\<lparr>gs_gov := g, gs_held := [(gov_demo_r, 40)]\<rparr>)" (is "gov_reachable _ ?s1")
    by (simp add: gov_demo_s0_def charge_now_def gov_demo_r_def gov_demo_p_def)
  have "settle 5 30 gov_demo_r (gs_gov ?s1) = (Inr (), gov_demo_r\<lparr>rv_settled := True\<rparr>, g')"
    unfolding g'_def g_def by simp code_simp
  from gov_reachable_step[OF s1 settled[of 0, OF _ _ this]]
  have "gov_reachable gov_demo_cfg (gov_demo_s0\<lparr>gs_gov := g', gs_held := [(gov_demo_r\<lparr>rv_settled := True\<rparr>, 30)]\<rparr>)" (is "gov_reachable _ ?s2")
    by (simp add: charge_after_def gov_demo_r_def gov_demo_p_def)
  from budgets_balance[OF this, of "((''t'', ''o''), LlmTokens, Day 0)"]
  have "ledger_at ((''t'', ''o''), LlmTokens, Day 0) g' = 30"
    by (simp add: held_for_def key_of_def gov_demo_r_def gov_demo_p_def)
  then show ?thesis by (simp add: g_def g'_def)
qed

definition fr_demo1 :: frame_system where
  "fr_demo1 = \<lparr>fr_gov = snd (admit_frame gov_demo_cfg 1 gov_demo_p gov_demo0), fr_now = 1, fr_log = [((''t'', ''o''), 1)]\<rparr>"

lemma frame_rate_is_bounded_witness:
  "length (filter (\<lambda>(k', t). k' = (''t'', ''o'') \<and> 0 < t \<and> t \<le> 0 + 1) (fr_log fr_demo1)) \<le> 2 \<and> length (fr_log fr_demo1) = 1"
proof -
  let ?s0 = "\<lparr>fr_gov = gov_demo0, fr_now = 0, fr_log = []\<rparr>"
  have init: "frame_init ?s0" by (simp add: frame_init_def gov_demo0_def)
  have "admit_frame gov_demo_cfg 1 gov_demo_p (fr_gov ?s0) = (Inr (), fr_gov fr_demo1)" unfolding fr_demo1_def by simp code_simp
  from sent[of ?s0 1 gov_demo_p "{(''t'', ''o'')}", OF _ _ _ this]
  have "frame_step gov_demo_cfg {(''t'', ''o'')} ?s0 fr_demo1" by (simp add: fr_demo1_def gov_demo_p_def)
  then have run: "(frame_step gov_demo_cfg {(''t'', ''o'')})\<^sup>*\<^sup>* ?s0 fr_demo1" by blast
  from frame_rate_is_bounded[OF init run, of "(''t'', ''o'')" 0] show ?thesis
    by (simp add: gov_demo_cfg_def fr_demo1_def)
qed

text \<open>With more senders than remembered scopes a scope that was forgotten starts its second anew.\<close>

lemma forgotten_scope_exceeds_rate:
  "(let c = gov_demo_cfg\<lparr>gc_frames := 1, gc_streams := 1\<rparr>; q = \<lparr>gp_scope = (''t'', ''o2''), gp_public = True\<rparr>;
        g1 = snd (admit_frame c 1 gov_demo_p gov_demo0); g2 = snd (admit_frame c 1 q g1)
    in fst (admit_frame c 1 gov_demo_p g2)) = Inr ()"
  by code_simp

text \<open>A reservation whose settlement was refused keeps what it had reserved.\<close>

lemma refused_settlement_keeps_reserved:
  "(let g = snd (reserve_llm_tokens gov_demo_cfg 0 gov_demo_p 40 gov_demo0); (res, r, g') = settle 5 60 gov_demo_r g
    in (isl res, rv_settled r, ledger_at ((''t'', ''o''), LlmTokens, Day 0) g')) = (True, True, 40)"
  by code_simp

end
