(* ===== verification/Registry.thy ===== *)
theory Registry
  imports Systems "HOL-Library.Multiset"
begin

text \<open>
  The registry of runtimes per scope, \<open>ScopedRuntimeRegistry\<close> in \<open>backend/app/runtime/scoped_registry.py\<close>:
  a bounded map in the order of last use, with leases that protect an entry from eviction, and
  a list of values to be closed.  A value is the number the factory gave it; \<open>rg_next\<close> is the next one.
  Bodies under the lock are atomic.  \<open>acquire\<close> takes the lock twice; its two halves are definitions of their
  own.  Closing a value may fail; \<open>rg_closed\<close> lists the values whose close was called, \<open>rg_lost\<close> those whose
  close is never called because an earlier one failed.
\<close>

section \<open>State\<close>

record entry =
  en_value :: nat
  en_used :: rat
  en_leases :: int
  en_terminal :: bool

record 'k registry =
  rg_entries :: "('k \<times> entry) list"
  rg_pending :: "nat list"
  rg_next :: nat
  rg_closed :: "nat list"
  rg_lost :: "nat list"

record reg_cfg =
  rc_max :: nat
  rc_ttl :: rat

definition entry_at :: "'k \<Rightarrow> 'k registry \<Rightarrow> entry option" where
  "entry_at k r = map_of (rg_entries r) k"

definition queue_close :: "nat \<Rightarrow> 'k registry \<Rightarrow> 'k registry" where
  "queue_close v r = r\<lparr>rg_pending := rg_pending r @ [v]\<rparr>"

text \<open>Removing an entry and queueing its value.\<close>

definition drop_entry :: "'k \<Rightarrow> 'k registry \<Rightarrow> 'k registry" where
  "drop_entry k r =
     (case entry_at k r of
        None \<Rightarrow> r
      | Some e \<Rightarrow> queue_close (en_value e) (r\<lparr>rg_entries := AList.delete k (rg_entries r)\<rparr>))"

text \<open>\<open>_evict_one\<close>: the idle entry used least recently.\<close>

definition evict_one :: "'k registry \<Rightarrow> 'k registry option" where
  "evict_one r =
     (case List.find (\<lambda>(k, e). en_leases e = 0) (rg_entries r) of
        None \<Rightarrow> None
      | Some (k, e) \<Rightarrow> Some (drop_entry k r))"

section \<open>Operations\<close>

text \<open>\<open>None\<close> is \<open>RuntimeCapacityExceeded\<close>.\<close>

definition put_last :: "'k \<Rightarrow> entry \<Rightarrow> 'k registry \<Rightarrow> 'k registry" where
  "put_last k e r = r\<lparr>rg_entries := AList.delete k (rg_entries r) @ [(k, e)]\<rparr>"

definition get_or_create :: "reg_cfg \<Rightarrow> rat \<Rightarrow> 'k \<Rightarrow> 'k registry \<Rightarrow> nat option \<times> 'k registry" where
  "get_or_create c now k r =
     (case entry_at k r of
        Some e \<Rightarrow> (Some (en_value e), put_last k (e\<lparr>en_used := now\<rparr>) r)
      | None \<Rightarrow>
          (case (if rc_max c \<le> length (rg_entries r) then evict_one r else Some r) of
             None \<Rightarrow> (None, r)
           | Some r1 \<Rightarrow>
               (Some (rg_next r1), put_last k \<lparr>en_value = rg_next r1, en_used = now, en_leases = 0, en_terminal = False\<rparr>
                  (r1\<lparr>rg_next := rg_next r1 + 1\<rparr>))))"

definition update_entry :: "'k \<Rightarrow> entry \<Rightarrow> 'k registry \<Rightarrow> 'k registry" where
  "update_entry k e r = r\<lparr>rg_entries := AList.update k e (rg_entries r)\<rparr>"

text \<open>The second half of \<open>acquire\<close>; \<open>None\<close> is the \<open>KeyError\<close> of a missing entry.\<close>

definition count_lease :: "rat \<Rightarrow> 'k \<Rightarrow> 'k registry \<Rightarrow> 'k registry option" where
  "count_lease now k r =
     (case entry_at k r of
        None \<Rightarrow> None
      | Some e \<Rightarrow> Some (update_entry k (e\<lparr>en_leases := en_leases e + 1, en_used := now\<rparr>) r))"

definition acquire :: "reg_cfg \<Rightarrow> rat \<Rightarrow> 'k \<Rightarrow> 'k registry \<Rightarrow> nat option \<times> 'k registry" where
  "acquire c now k r =
     (case get_or_create c now k r of
        (None, r1) \<Rightarrow> (None, r1)
      | (Some v, r1) \<Rightarrow> (case count_lease now k r1 of None \<Rightarrow> (None, r1) | Some r2 \<Rightarrow> (Some v, r2)))"

definition release :: "rat \<Rightarrow> 'k \<Rightarrow> 'k registry \<Rightarrow> 'k registry" where
  "release now k r =
     (case entry_at k r of
        None \<Rightarrow> r
      | Some e \<Rightarrow>
          let e' = e\<lparr>en_leases := max 0 (en_leases e - 1), en_used := now\<rparr>; r1 = update_entry k e' r
          in if en_terminal e' \<and> en_leases e' = 0 then drop_entry k r1 else r1)"

definition mark_entry :: "'k \<Rightarrow> 'k registry \<Rightarrow> 'k registry" where
  "mark_entry k r =
     (case entry_at k r of
        None \<Rightarrow> r
      | Some e \<Rightarrow>
          let r1 = update_entry k (e\<lparr>en_terminal := True\<rparr>) r in if en_leases e = 0 then drop_entry k r1 else r1)"

definition expired :: "reg_cfg \<Rightarrow> rat \<Rightarrow> entry \<Rightarrow> bool" where
  "expired c now e = (en_leases e = 0 \<and> rc_ttl c \<le> now - en_used e)"

definition sweep_entries :: "reg_cfg \<Rightarrow> rat \<Rightarrow> 'k registry \<Rightarrow> nat \<times> 'k registry" where
  "sweep_entries c now r =
     (let out = filter (\<lambda>(k, e). expired c now e) (rg_entries r)
      in (length out, r\<lparr>rg_entries := filter (\<lambda>(k, e). \<not> expired c now e) (rg_entries r),
            rg_pending := rg_pending r @ map (\<lambda>(k, e). en_value e) out\<rparr>))"

text \<open>
  \<open>flush_closures\<close> takes the pending values and closes them in turn; \<open>ok\<close> says which close succeeds.  The
  first that fails raises, and the rest of the values taken is dropped.
\<close>

fun close_all :: "(nat \<Rightarrow> bool) \<Rightarrow> nat list \<Rightarrow> nat list \<times> nat list" where
  "close_all ok [] = ([], [])"
| "close_all ok (v # vs) = (if ok v then (case close_all ok vs of (a, b) \<Rightarrow> (v # a, b)) else ([v], vs))"

definition flush_closures :: "(nat \<Rightarrow> bool) \<Rightarrow> 'k registry \<Rightarrow> 'k registry" where
  "flush_closures ok r =
     (case close_all ok (rg_pending r) of
        (done, rest) \<Rightarrow> r\<lparr>rg_pending := [], rg_closed := rg_closed r @ done, rg_lost := rg_lost r @ rest\<rparr>)"

text \<open>Marking an entry and sweeping end by closing what they queued.\<close>

definition mark_terminal :: "(nat \<Rightarrow> bool) \<Rightarrow> 'k \<Rightarrow> 'k registry \<Rightarrow> 'k registry" where
  "mark_terminal ok k r = flush_closures ok (mark_entry k r)"

definition sweep :: "reg_cfg \<Rightarrow> (nat \<Rightarrow> bool) \<Rightarrow> rat \<Rightarrow> 'k registry \<Rightarrow> nat \<times> 'k registry" where
  "sweep c ok now r = (case sweep_entries c now r of (n, r1) \<Rightarrow> (n, flush_closures ok r1))"

definition registry_aclose :: "(nat \<Rightarrow> bool) \<Rightarrow> 'k registry \<Rightarrow> 'k registry" where
  "registry_aclose ok r =
     flush_closures ok (r\<lparr>rg_entries := [], rg_pending := map (\<lambda>(k, e). en_value e) (rg_entries r) @ rg_pending r\<rparr>)"

definition peek :: "'k \<Rightarrow> 'k registry \<Rightarrow> nat option" where
  "peek k r = map_option en_value (entry_at k r)"

definition active_leases :: "'k \<Rightarrow> 'k registry \<Rightarrow> int" where
  "active_leases k r = (case entry_at k r of None \<Rightarrow> 0 | Some e \<Rightarrow> en_leases e)"

section \<open>The running system\<close>

text \<open>
  \<open>RuntimeLease\<close>: key, value, and whether it was released.  Everything before a shutdown; the two halves of
  \<open>acquire\<close> follow each other, as they do in one event loop.
\<close>

record 'k reg_system =
  rs_reg :: "'k registry"
  rs_leases :: "('k \<times> nat \<times> bool) list"

inductive reg_step :: "reg_cfg \<Rightarrow> 'k reg_system \<Rightarrow> 'k reg_system \<Rightarrow> bool" for c where
  looked_up: "get_or_create c now k (rs_reg s) = (v, r) \<Longrightarrow> reg_step c s (s\<lparr>rs_reg := r\<rparr>)"
| leased: "acquire c now k (rs_reg s) = (Some v, r) \<Longrightarrow>
     reg_step c s (s\<lparr>rs_reg := r, rs_leases := rs_leases s @ [(k, v, False)]\<rparr>)"
| lease_refused: "acquire c now k (rs_reg s) = (None, r) \<Longrightarrow> reg_step c s (s\<lparr>rs_reg := r\<rparr>)"
| returned: "i < length (rs_leases s) \<Longrightarrow> rs_leases s ! i = (k, v, False) \<Longrightarrow>
     reg_step c s (s\<lparr>rs_reg := release now k (rs_reg s), rs_leases := (rs_leases s)[i := (k, v, True)]\<rparr>)"
| marked: "reg_step c s (s\<lparr>rs_reg := mark_terminal ok k (rs_reg s)\<rparr>)"
| swept: "sweep c ok now (rs_reg s) = (n, r) \<Longrightarrow> reg_step c s (s\<lparr>rs_reg := r\<rparr>)"
| flushed: "reg_step c s (s\<lparr>rs_reg := flush_closures ok (rs_reg s)\<rparr>)"

definition reg_init :: "'k reg_system \<Rightarrow> bool" where
  "reg_init s = (rs_reg s = \<lparr>rg_entries = [], rg_pending = [], rg_next = 0, rg_closed = [], rg_lost = []\<rparr> \<and> rs_leases s = [])"

definition reg_reachable :: "reg_cfg \<Rightarrow> 'k reg_system \<Rightarrow> bool" where
  "reg_reachable c s = (\<exists>s0. reg_init s0 \<and> (reg_step c)\<^sup>*\<^sup>* s0 s)"

section \<open>The invariant\<close>

definition values_of :: "'k registry \<Rightarrow> nat list" where
  "values_of r = map (\<lambda>(k, e). en_value e) (rg_entries r)"

definition open_on :: "'k \<Rightarrow> ('k \<times> nat \<times> bool) list \<Rightarrow> nat" where
  "open_on k ls = length (filter (\<lambda>(k', v, b). k' = k \<and> \<not> b) ls)"

text \<open>The value and the lease count of an entry that is in use.\<close>

definition in_use :: "'k \<Rightarrow> 'k registry \<Rightarrow> (nat \<times> int) option" where
  "in_use k r =
     (case entry_at k r of None \<Rightarrow> None | Some e \<Rightarrow> if en_leases e = 0 then None else Some (en_value e, en_leases e))"

text \<open>
  Every value ever made is in exactly one place and the entries stay within the bound; an entry in use counts
  its open leases, which all hold its value.
\<close>

definition places :: "'k registry \<Rightarrow> nat multiset" where
  "places r = mset (values_of r @ rg_pending r @ rg_closed r @ rg_lost r)"

definition shape_ok :: "reg_cfg \<Rightarrow> 'k registry \<Rightarrow> bool" where
  "shape_ok c r =
     (distinct (map fst (rg_entries r)) \<and> length (rg_entries r) \<le> rc_max c \<and> places r = mset [0 ..< rg_next r])"

definition key_ok :: "(nat \<times> int) option \<Rightarrow> 'k \<Rightarrow> ('k \<times> nat \<times> bool) list \<Rightarrow> bool" where
  "key_ok h k ls = (case h of
       None \<Rightarrow> open_on k ls = 0
     | Some (v, n) \<Rightarrow> n = int (open_on k ls) \<and> (\<forall>w. (k, w, False) \<in> set ls \<longrightarrow> w = v))"

definition leases_ok :: "'k reg_system \<Rightarrow> bool" where
  "leases_ok s = (\<forall>k. key_ok (in_use k (rs_reg s)) k (rs_leases s))"

definition reg_ok :: "reg_cfg \<Rightarrow> 'k reg_system \<Rightarrow> bool" where
  "reg_ok c s = (shape_ok c (rs_reg s) \<and> leases_ok s)"

section \<open>What each operation does to the entries\<close>

lemma entry_at_put_last: "entry_at k' (put_last k e r) = (if k' = k then Some e else entry_at k' r)"
  by (auto simp: entry_at_def put_last_def map_add_def AList.delete_conv' split: option.splits)

lemma entry_at_update: "entry_at k' (update_entry k e r) = (if k' = k then Some e else entry_at k' r)"
  by (simp add: entry_at_def update_entry_def AList.update_conv')

lemma entry_at_drop: "entry_at k' (drop_entry k r) = (if k' = k then None else entry_at k' r)"
  by (auto simp: entry_at_def drop_entry_def queue_close_def AList.delete_conv' split: option.splits)

lemma entry_at_flush [simp]: "entry_at k (flush_closures ok r) = entry_at k r"
  by (simp add: entry_at_def flush_closures_def split: prod.splits)

lemma entry_at_next [simp]: "entry_at k (r\<lparr>rg_next := n\<rparr>) = entry_at k r"
  by (simp add: entry_at_def)

lemma map_of_filter_distinct:
  "distinct (map fst al) \<Longrightarrow>
     map_of (filter (\<lambda>(k, e). Q e) al) k = (case map_of al k of None \<Rightarrow> None | Some e \<Rightarrow> if Q e then Some e else None)"
proof (induction al)
  case (Cons a al)
  obtain k' e where a: "a = (k', e)" by (cases a)
  have "k' \<notin> dom (map_of al)" using Cons.prems a by (auto simp: dom_map_of_conv_image_fst)
  then have "map_of al k' = None" by (auto simp: domIff)
  with Cons a show ?case by auto
qed simp

lemma entry_at_sweep:
  "distinct (map fst (rg_entries r)) \<Longrightarrow> entry_at k (snd (sweep_entries c now r)) =
     (case entry_at k r of None \<Rightarrow> None | Some e \<Rightarrow> if expired c now e then None else Some e)"
  by (simp add: entry_at_def sweep_entries_def Let_def map_of_filter_distinct split: option.splits)

lemma key_deleted: "k \<notin> fst ` set (AList.delete k al)"
  by (induction al) auto

lemma delete_mset:
  "distinct (map fst al) \<Longrightarrow> map_of al k = Some e \<Longrightarrow>
     mset (map (\<lambda>(k, e). en_value e) al) = add_mset (en_value e) (mset (map (\<lambda>(k, e). en_value e) (AList.delete k al))) \<and>
     length al = Suc (length (AList.delete k al))"
proof (induction al)
  case (Cons a al)
  obtain k' e' where a: "a = (k', e')" by (cases a)
  show ?case
  proof (cases "k' = k")
    case True
    have "k \<notin> fst ` set al" using Cons.prems(1) a True by auto
    then have "AList.delete k al = al" by (rule AList.delete_id)
    with Cons.prems a True show ?thesis by simp
  next
    case False
    with Cons a show ?thesis by auto
  qed
qed simp

lemma update_values:
  "map_of al k = Some e \<Longrightarrow> en_value e' = en_value e \<Longrightarrow>
     map (\<lambda>(k, e). en_value e) (AList.update k e' al) = map (\<lambda>(k, e). en_value e) al \<and>
     length (AList.update k e' al) = length al \<and> map fst (AList.update k e' al) = map fst al"
  by (induction al) (auto split: if_splits)

lemma shape_update:
  "shape_ok c r \<Longrightarrow> entry_at k r = Some e \<Longrightarrow> en_value e' = en_value e \<Longrightarrow> shape_ok c (update_entry k e' r)"
  using update_values[of "rg_entries r" k e e']
  by (simp add: shape_ok_def places_def values_of_def update_entry_def entry_at_def)

lemma shape_drop: "shape_ok c r \<Longrightarrow> shape_ok c (drop_entry k r)"
proof (cases "entry_at k r")
  case (Some e)
  assume r: "shape_ok c r"
  have "distinct (map fst (rg_entries r))" "map_of (rg_entries r) k = Some e"
    using r Some by (auto simp: shape_ok_def entry_at_def)
  note d = delete_mset[OF this] distinct_delete[OF this(1), of k]
  show ?thesis
    using r d Some by (simp add: shape_ok_def places_def values_of_def drop_entry_def queue_close_def)
qed (simp add: drop_entry_def)

lemma shape_put_old:
  assumes r: "shape_ok c r" and e: "entry_at k r = Some e" "en_value e' = en_value e"
  shows "shape_ok c (put_last k e' r)"
proof -
  have "distinct (map fst (rg_entries r))" "map_of (rg_entries r) k = Some e"
    using r e by (auto simp: shape_ok_def entry_at_def)
  note d = delete_mset[OF this] distinct_delete[OF this(1), of k]
  show ?thesis
    using r d e by (simp add: shape_ok_def places_def values_of_def put_last_def key_deleted)
qed

lemma shape_put_new:
  assumes r: "shape_ok c r" and k: "entry_at k r = None" and room: "length (rg_entries r) < rc_max c"
  shows "shape_ok c (put_last k \<lparr>en_value = rg_next r, en_used = u, en_leases = l, en_terminal = t\<rparr> (r\<lparr>rg_next := rg_next r + 1\<rparr>))"
proof -
  have k': "k \<notin> fst ` set (rg_entries r)" using k by (simp add: entry_at_def map_of_eq_None_iff)
  then have "AList.delete k (rg_entries r) = rg_entries r" by (rule AList.delete_id)
  with r room k' show ?thesis
    by (simp add: shape_ok_def places_def values_of_def put_last_def)
qed

lemma close_all_append: "close_all ok vs = (a, b) \<Longrightarrow> a @ b = vs"
  by (induction vs arbitrary: a b) (auto split: if_splits prod.splits)

lemma shape_flush: "shape_ok c r \<Longrightarrow> shape_ok c (flush_closures ok r)"
proof -
  assume r: "shape_ok c r"
  obtain a b where ab: "close_all ok (rg_pending r) = (a, b)" by (cases "close_all ok (rg_pending r)")
  have "mset (rg_pending r) = mset a + mset b"
    using close_all_append[OF ab] by (metis mset_append)
  with r ab show ?thesis
    by (simp add: shape_ok_def places_def values_of_def flush_closures_def ac_simps)
qed

lemma shape_sweep: "shape_ok c r \<Longrightarrow> shape_ok c (snd (sweep_entries c' now r))"
proof -
  assume r: "shape_ok c r"
  have m: "mset (map f xs) = mset (map f (filter P xs)) + mset (map f (filter (\<lambda>x. \<not> P x) xs))" for f :: "'a \<times> entry \<Rightarrow> nat" and P xs
    by (induction xs) auto
  let ?P = "\<lambda>(k, e). expired c' now e"
  have n: "(\<lambda>x. \<not> ?P x) = (\<lambda>(k, e). \<not> expired c' now e)" by auto
  have "length (filter (\<lambda>(k, e). \<not> expired c' now e) (rg_entries r)) \<le> rc_max c"
    using r by (meson length_filter_le order_trans shape_ok_def)
  with r m[of "\<lambda>(k, e). en_value e" "rg_entries r" ?P, unfolded n] show ?thesis
    by (auto simp: shape_ok_def places_def values_of_def sweep_entries_def Let_def distinct_map_filter ac_simps)
qed

text \<open>Eviction needs an idle entry, and makes room.\<close>

lemma evict_one_cases:
  assumes "evict_one r = Some r1" "distinct (map fst (rg_entries r))"
  obtains k e where "entry_at k r = Some e" "en_leases e = 0" "r1 = drop_entry k r"
    "length (rg_entries r) = Suc (length (rg_entries r1))"
proof -
  obtain k e where f: "List.find (\<lambda>(k, e). en_leases e = 0) (rg_entries r) = Some (k, e)" and r1: "r1 = drop_entry k r"
    using assms(1) by (auto simp: evict_one_def split: option.splits)
  from f have "(k, e) \<in> set (rg_entries r)" and e0: "en_leases e = 0"
    by (auto simp: find_Some_iff) (metis nth_mem)
  then have ke: "entry_at k r = Some e" using assms(2) by (simp add: entry_at_def)
  with delete_mset[OF assms(2)] have "length (rg_entries r) = Suc (length (rg_entries r1))"
    by (auto simp: r1 drop_entry_def queue_close_def entry_at_def)
  with ke e0 r1 show ?thesis by (rule that)
qed

lemma next_evict: "evict_one r = Some r1 \<Longrightarrow> rg_next r1 = rg_next r"
  by (auto simp: evict_one_def drop_entry_def queue_close_def split: option.splits prod.splits)

section \<open>Leases\<close>

lemma in_use_simps:
  "in_use k' (put_last k e r) =
     (if k' = k then if en_leases e = 0 then None else Some (en_value e, en_leases e) else in_use k' r)"
  "in_use k' (update_entry k e r) =
     (if k' = k then if en_leases e = 0 then None else Some (en_value e, en_leases e) else in_use k' r)"
  "in_use k' (drop_entry k r) = (if k' = k then None else in_use k' r)"
  "in_use k' (flush_closures ok r) = in_use k' r"
  "in_use k' (r\<lparr>rg_next := n\<rparr>) = in_use k' r"
  by (simp_all add: in_use_def entry_at_put_last entry_at_update entry_at_drop)

lemma in_use_sweep: "distinct (map fst (rg_entries r)) \<Longrightarrow> in_use k (snd (sweep_entries c now r)) = in_use k r"
  by (auto simp: in_use_def entry_at_sweep expired_def split: option.splits)

lemma in_use_mark: "in_use k' (mark_entry k r) = in_use k' r"
  by (auto simp: mark_entry_def Let_def in_use_simps split: option.splits) (auto simp: in_use_def split: option.splits)

text \<open>Looking up keeps the shape and the entries in use, and finds the value it returns.\<close>

lemma get_or_create_ok:
  assumes r: "shape_ok c r" and g: "get_or_create c now k r = (v, r1)"
  shows "shape_ok c r1" "in_use k' r1 = in_use k' r"
    "v = Some w \<Longrightarrow> \<exists>e. entry_at k r1 = Some e \<and> en_value e = w \<and>
       (case entry_at k r of None \<Rightarrow> en_leases e = 0 | Some e0 \<Rightarrow> en_leases e = en_leases e0 \<and> w = en_value e0)"
proof -
  have d: "distinct (map fst (rg_entries r))" "length (rg_entries r) \<le> rc_max c" using r by (auto simp: shape_ok_def)
  have "shape_ok c r1 \<and> in_use k' r1 = in_use k' r \<and> (v = Some w \<longrightarrow> (\<exists>e. entry_at k r1 = Some e \<and> en_value e = w \<and>
       (case entry_at k r of None \<Rightarrow> en_leases e = 0 | Some e0 \<Rightarrow> en_leases e = en_leases e0 \<and> w = en_value e0)))"
  proof (cases "entry_at k r")
    case (Some e)
    with g have "r1 = put_last k (e\<lparr>en_used := now\<rparr>) r" "v = Some (en_value e)" by (auto simp: get_or_create_def)
    with Some r show ?thesis
      by (auto simp: in_use_simps entry_at_put_last intro: shape_put_old) (auto simp: in_use_def)
  next
    case None
    consider (full) "rc_max c \<le> length (rg_entries r)" "evict_one r = None" "v = None" "r1 = r"
      | (room) r0 where "shape_ok c r0" "entry_at k r0 = None" "length (rg_entries r0) < rc_max c" "in_use k' r0 = in_use k' r"
          "v = Some (rg_next r0)"
          "r1 = put_last k \<lparr>en_value = rg_next r0, en_used = now, en_leases = 0, en_terminal = False\<rparr> (r0\<lparr>rg_next := rg_next r0 + 1\<rparr>)"
    proof (cases "rc_max c \<le> length (rg_entries r)")
      case False
      show ?thesis by (rule room[of r]) (use False None r g in \<open>auto simp: get_or_create_def\<close>)
    next
      case True
      show ?thesis
      proof (cases "evict_one r")
        case ev: None
        show ?thesis by (rule full) (use True None ev g in \<open>auto simp: get_or_create_def\<close>)
      next
        case ev: (Some r0)
        obtain k0 e where e: "entry_at k0 r = Some e" "en_leases e = 0" "r0 = drop_entry k0 r"
          "length (rg_entries r) = Suc (length (rg_entries r0))" using evict_one_cases[OF ev d(1)] .
        show ?thesis
          by (rule room[of r0])
            (use True None ev g e d r in \<open>auto simp: get_or_create_def entry_at_drop in_use_simps intro: shape_drop\<close>,
             simp add: in_use_def)
      qed
    qed
    then show ?thesis
    proof cases
      case full
      with r show ?thesis by simp
    next
      case room
      with None shape_put_new[OF room(1-3)] show ?thesis
        by (auto simp: in_use_simps entry_at_put_last) (simp_all add: in_use_def)
    qed
  qed
  then show "shape_ok c r1" "in_use k' r1 = in_use k' r" "v = Some w \<Longrightarrow> \<exists>e. entry_at k r1 = Some e \<and> en_value e = w \<and>
       (case entry_at k r of None \<Rightarrow> en_leases e = 0 | Some e0 \<Rightarrow> en_leases e = en_leases e0 \<and> w = en_value e0)" by auto
qed

text \<open>Within one event loop the second half of \<open>acquire\<close> never misses the entry.\<close>

lemma acquire_ok:
  assumes r: "shape_ok c r" and a: "acquire c now k r = (v, r2)"
  shows "shape_ok c r2"
    "v = None \<Longrightarrow> in_use k' r2 = in_use k' r"
    "v = Some w \<Longrightarrow> in_use k r2 = (case in_use k r of None \<Rightarrow> Some (w, 1) | Some (u, n) \<Rightarrow> if n + 1 = 0 then None else Some (w, n + 1))"
    "v = Some w \<Longrightarrow> in_use k r = Some (u, n) \<Longrightarrow> u = w"
    "k' \<noteq> k \<Longrightarrow> in_use k' r2 = in_use k' r"
proof -
  obtain v1 r1 where g: "get_or_create c now k r = (v1, r1)" by (cases "get_or_create c now k r")
  note gs = get_or_create_ok[OF r g]
  have "shape_ok c r2 \<and> (v = None \<longrightarrow> in_use k' r2 = in_use k' r) \<and> (v = Some w \<longrightarrow> in_use k r2 = (case in_use k r of None \<Rightarrow> Some (w, 1)
      | Some (u, n) \<Rightarrow> if n + 1 = 0 then None else Some (w, n + 1)) \<and> (in_use k r = Some (u, n) \<longrightarrow> u = w)) \<and>
      (k' \<noteq> k \<longrightarrow> in_use k' r2 = in_use k' r)"
  proof (cases v1)
    case None
    with a g gs show ?thesis by (simp add: acquire_def)
  next
    case (Some w1)
    from gs(3)[OF this] obtain e where e: "entry_at k r1 = Some e" "en_value e = w1"
      "case entry_at k r of None \<Rightarrow> en_leases e = 0 | Some e0 \<Rightarrow> en_leases e = en_leases e0 \<and> w1 = en_value e0" by blast
    have c: "count_lease now k r1 = Some (update_entry k (e\<lparr>en_leases := en_leases e + 1, en_used := now\<rparr>) r1)"
      by (simp add: count_lease_def e(1))
    have v: "v = Some w1" "r2 = update_entry k (e\<lparr>en_leases := en_leases e + 1, en_used := now\<rparr>) r1"
      using a g Some c by (auto simp: acquire_def)
    have h: "in_use k r2 = (case in_use k r of None \<Rightarrow> Some (w1, 1) | Some (u, n) \<Rightarrow> if n + 1 = 0 then None else Some (w1, n + 1))"
      using e by (auto simp: v in_use_def entry_at_update split: option.splits)
    have u: "in_use k r = Some (u, n) \<longrightarrow> u = w1"
      using e by (auto simp: in_use_def split: option.splits if_splits)
    have o: "k' \<noteq> k \<longrightarrow> in_use k' r2 = in_use k' r"
      using gs(2)[of k'] by (simp add: v in_use_simps)
    have "shape_ok c r2" unfolding v by (rule shape_update[OF gs(1) e(1)]) simp
    moreover have "v \<noteq> None" "v = Some w \<longrightarrow> w = w1" using v(1) by auto
    ultimately show ?thesis using h u o by blast
  qed
  then show "shape_ok c r2" "v = None \<Longrightarrow> in_use k' r2 = in_use k' r"
    "v = Some w \<Longrightarrow> in_use k r2 = (case in_use k r of None \<Rightarrow> Some (w, 1) | Some (u, n) \<Rightarrow> if n + 1 = 0 then None else Some (w, n + 1))"
    "v = Some w \<Longrightarrow> in_use k r = Some (u, n) \<Longrightarrow> u = w"
    "k' \<noteq> k \<Longrightarrow> in_use k' r2 = in_use k' r" by auto
qed

lemma in_use_release:
  "in_use k' (release now k r) = (if k' = k then
     case in_use k r of None \<Rightarrow> None | Some (v, n) \<Rightarrow> if n \<le> 1 then None else Some (v, n - 1)
   else in_use k' r)"
  by (auto simp: release_def Let_def in_use_simps split: option.splits)
    (auto simp: in_use_def max_def split: option.splits if_splits)

lemma shape_release: "shape_ok c r \<Longrightarrow> shape_ok c (release now k r)"
  by (auto simp: release_def Let_def split: option.splits intro!: shape_drop shape_update)

lemma shape_mark: "shape_ok c r \<Longrightarrow> shape_ok c (mark_entry k r)"
  by (auto simp: mark_entry_def Let_def split: option.splits intro!: shape_drop shape_update)

section \<open>The invariant holds\<close>

lemma open_on_snoc: "open_on k (ls @ [(k', v, False)]) = open_on k ls + (if k' = k then 1 else 0)"
  by (simp add: open_on_def)

lemma open_on_update:
  "i < length ls \<Longrightarrow> ls ! i = (k, v, False) \<Longrightarrow>
     open_on k' ls = open_on k' (ls[i := (k, v, True)]) + (if k' = k then 1 else 0)"
proof (induction ls arbitrary: i)
  case (Cons a ls)
  then show ?case by (cases i) (auto simp: open_on_def)
qed simp

lemma open_on_pos: "(k, v, False) \<in> set ls \<Longrightarrow> 0 < open_on k ls"
  by (induction ls) (auto simp: open_on_def)

lemma leases_ok_cong:
  "leases_ok s \<Longrightarrow> (\<And>k. in_use k r = in_use k (rs_reg s)) \<Longrightarrow> leases_ok (s\<lparr>rs_reg := r\<rparr>)"
  by (simp add: leases_ok_def)

lemma key_okD:
  assumes "key_ok h k ls"
  shows "h = None \<Longrightarrow> open_on k ls = 0" "h = Some (v, n) \<Longrightarrow> n = int (open_on k ls)"
    "h = Some (v, n) \<Longrightarrow> (k, w, False) \<in> set ls \<Longrightarrow> w = v"
  using assms by (auto simp: key_ok_def)

lemma key_ok_leased:
  assumes ok: "key_ok h k ls"
    and h': "h' = (case h of None \<Rightarrow> Some (v, 1) | Some (u, n) \<Rightarrow> if n + 1 = 0 then None else Some (v, n + 1))"
    and u: "\<And>u n. h = Some (u, n) \<Longrightarrow> u = v"
  shows "key_ok h' k (ls @ [(k, v, False)])"
proof (cases h)
  case None
  with ok have "open_on k ls = 0" by (simp add: key_ok_def)
  with open_on_pos[of k _ ls] None show ?thesis by (auto simp: h' key_ok_def open_on_snoc)
next
  case (Some un)
  then obtain u n where "h = Some (u, n)" by (cases un) simp
  with ok u show ?thesis by (auto simp: h' key_ok_def open_on_snoc)
qed

lemma key_ok_other: "key_ok h k' ls \<Longrightarrow> k' \<noteq> k \<Longrightarrow> key_ok h k' (ls @ [(k, v, False)])"
  by (auto simp: key_ok_def open_on_snoc split: option.splits)

lemma lease_was_open: "(x, w, False) \<in> set (ls[i := (k, v, True)]) \<Longrightarrow> (x, w, False) \<in> set ls"
  using set_update_subset_insert[of ls i "(k, v, True)"] by auto

lemma key_ok_returned:
  assumes ok: "key_ok h k' ls" and i: "i < length ls" "ls ! i = (k, v, False)"
    and h': "h' = (if k' = k then case h of None \<Rightarrow> None | Some (v, n) \<Rightarrow> if n \<le> 1 then None else Some (v, n - 1) else h)"
  shows "key_ok h' k' (ls[i := (k, v, True)])"
proof (cases "k' = k")
  case False
  with ok open_on_update[OF i, of k'] show ?thesis
    by (auto simp: h' key_ok_def dest: lease_was_open split: option.splits)
next
  case True
  have "0 < open_on k ls" using i nth_mem by (fastforce intro: open_on_pos)
  with ok True obtain u n where h: "h = Some (u, n)" "n = int (open_on k ls)" "\<And>w. (k, w, False) \<in> set ls \<Longrightarrow> w = u"
    by (auto simp: key_ok_def split: option.splits)
  with True open_on_update[OF i, of k] show ?thesis
    by (auto simp: h' key_ok_def dest: lease_was_open)
qed

lemma leases_leased:
  assumes s: "leases_ok s" and r: "shape_ok c (rs_reg s)" and a: "acquire c now k (rs_reg s) = (Some v, r)"
  shows "leases_ok (s\<lparr>rs_reg := r, rs_leases := rs_leases s @ [(k, v, False)]\<rparr>)"
proof -
  note A = acquire_ok[OF r a]
  have "key_ok (in_use k' r) k' (rs_leases s @ [(k, v, False)])" for k'
  proof (cases "k' = k")
    case False
    with s show ?thesis by (simp add: A(5) key_ok_other leases_ok_def)
  next
    case True
    have "key_ok (in_use k (rs_reg s)) k (rs_leases s)" using s by (simp add: leases_ok_def)
    then show ?thesis unfolding True by (rule key_ok_leased[OF _ A(3)[OF refl] A(4)[OF refl]])
  qed
  then show ?thesis by (simp add: leases_ok_def)
qed

lemma in_use_release_at:
  "in_use k' (release now k r) = (if k' = k then
     case in_use k' r of None \<Rightarrow> None | Some (v, n) \<Rightarrow> if n \<le> 1 then None else Some (v, n - 1)
   else in_use k' r)"
  by (simp add: in_use_release)

lemma leases_returned:
  assumes "leases_ok s" "i < length (rs_leases s)" "rs_leases s ! i = (k, v, False)"
  shows "leases_ok (s\<lparr>rs_reg := release now k (rs_reg s), rs_leases := (rs_leases s)[i := (k, v, True)]\<rparr>)"
  unfolding leases_ok_def
proof
  fix k'
  have "key_ok (in_use k' (rs_reg s)) k' (rs_leases s)" using assms(1) by (simp add: leases_ok_def)
  from key_ok_returned[OF this assms(2,3) in_use_release_at]
  show "key_ok (in_use k' (rs_reg (s\<lparr>rs_reg := release now k (rs_reg s), rs_leases := (rs_leases s)[i := (k, v, True)]\<rparr>))) k'
      (rs_leases (s\<lparr>rs_reg := release now k (rs_reg s), rs_leases := (rs_leases s)[i := (k, v, True)]\<rparr>))" by simp
qed

lemma reg_ok_init: "reg_init s \<Longrightarrow> reg_ok c s"
  by (simp add: reg_init_def reg_ok_def shape_ok_def places_def values_of_def leases_ok_def key_ok_def in_use_def entry_at_def open_on_def)

lemma reg_ok_step: "reg_step c s t \<Longrightarrow> reg_ok c s \<Longrightarrow> reg_ok c t"
proof (induction rule: reg_step.induct)
  case (looked_up now k s v r)
  then show ?case
    by (auto simp: reg_ok_def get_or_create_ok(2) intro: leases_ok_cong get_or_create_ok(1))
next
  case (leased now k s v r)
  then show ?case by (auto simp: reg_ok_def intro: leases_leased acquire_ok(1))
next
  case (lease_refused now k s r)
  then show ?case
    by (auto simp: reg_ok_def acquire_ok(2) intro: leases_ok_cong acquire_ok(1))
next
  case (returned i s k v now)
  then show ?case by (auto simp: reg_ok_def intro: leases_returned shape_release)
next
  case (marked s ok k)
  then show ?case
    by (auto simp: reg_ok_def mark_terminal_def in_use_simps in_use_mark intro: leases_ok_cong shape_flush shape_mark)
next
  case (swept ok now s n r)
  then have "r = flush_closures ok (snd (sweep_entries c now (rs_reg s)))" by (auto simp: sweep_def split: prod.splits)
  moreover have "shape_ok c (rs_reg s)" "leases_ok s" "distinct (map fst (rg_entries (rs_reg s)))"
    using swept(2) by (auto simp: reg_ok_def shape_ok_def)
  ultimately show ?case
    by (simp add: reg_ok_def in_use_simps in_use_sweep leases_ok_cong shape_flush shape_sweep)
next
  case (flushed s ok)
  then show ?case by (auto simp: reg_ok_def in_use_simps intro: leases_ok_cong shape_flush)
qed

interpretation registry: invariant_system reg_init "reg_step c" "reg_ok c" for c
  by unfold_locales (auto intro: reg_ok_init reg_ok_step)

lemma registry_reachable_ok: "reg_reachable c s \<Longrightarrow> reg_ok c s"
  unfolding reg_reachable_def by (blast intro: registry.reachable_inv)

section \<open>Properties\<close>

text \<open>
  C21. The registry is bounded and loses no runtime: at every moment every value the factory ever made is
  either the value of exactly one of at most \<open>max_entries\<close> entries, or waits once to be closed, or was closed
  once, or was given up by a closing that an earlier failure cut short; no value is closed twice.
\<close>

theorem runtimes_are_accounted_for:
  assumes "reg_reachable c s"
  shows "length (rg_entries (rs_reg s)) \<le> rc_max c \<and>
    distinct (values_of (rs_reg s) @ rg_pending (rs_reg s) @ rg_closed (rs_reg s) @ rg_lost (rs_reg s)) \<and>
    set (values_of (rs_reg s) @ rg_pending (rs_reg s) @ rg_closed (rs_reg s) @ rg_lost (rs_reg s)) = {0 ..< rg_next (rs_reg s)}"
proof -
  have "length (rg_entries (rs_reg s)) \<le> rc_max c" "places (rs_reg s) = mset [0 ..< rg_next (rs_reg s)]"
    using registry_reachable_ok[OF assms] by (auto simp: reg_ok_def shape_ok_def)
  moreover from this(2) have "distinct (values_of (rs_reg s) @ rg_pending (rs_reg s) @ rg_closed (rs_reg s) @ rg_lost (rs_reg s))"
    unfolding places_def by (metis mset_eq_imp_distinct_iff distinct_upt)
  moreover have "set (values_of (rs_reg s) @ rg_pending (rs_reg s) @ rg_closed (rs_reg s) @ rg_lost (rs_reg s)) = {0 ..< rg_next (rs_reg s)}"
    using calculation(2) unfolding places_def by (metis mset_eq_setD set_upt)
  ultimately show ?thesis by blast
qed


text \<open>A run: a second scope is refused while the only slot is leased, and evicts it afterwards.\<close>

definition slot_cfg :: reg_cfg where
  "slot_cfg = \<lparr>rc_max = 1, rc_ttl = 60\<rparr>"

definition empty_reg :: "string reg_system" where
  "empty_reg = \<lparr>rs_reg = \<lparr>rg_entries = [], rg_pending = [], rg_next = 0, rg_closed = [], rg_lost = []\<rparr>, rs_leases = []\<rparr>"

definition leased_reg :: "string reg_system" where
  "leased_reg = empty_reg\<lparr>rs_reg := snd (acquire slot_cfg 0 ''a'' (rs_reg empty_reg)), rs_leases := [(''a'', 0, False)]\<rparr>"

lemma leased_reg_reachable: "reg_reachable slot_cfg leased_reg"
proof -
  have "acquire slot_cfg 0 ''a'' (rs_reg empty_reg) = (Some 0, snd (acquire slot_cfg 0 ''a'' (rs_reg empty_reg)))" by code_simp
  from reg_step.leased[OF this] have "reg_step slot_cfg empty_reg leased_reg"
    by (simp add: leased_reg_def empty_reg_def)
  moreover have "reg_init empty_reg" by (simp add: reg_init_def empty_reg_def)
  ultimately show ?thesis unfolding reg_reachable_def by blast
qed

theorem runtimes_are_accounted_for_witness:
  "length (rg_entries (rs_reg leased_reg)) \<le> 1 \<and> values_of (rs_reg leased_reg) = [0]"
  using runtimes_are_accounted_for[OF leased_reg_reachable] by (simp add: slot_cfg_def) code_simp


text \<open>
  The lock is taken twice by \<open>acquire\<close>: called from two threads on a full registry, the second caller can
  evict the entry the first has just made, and the first fails with a \<open>KeyError\<close>.
\<close>

lemma acquire_race:
  "let r1 = snd (get_or_create slot_cfg 0 ''a'' (rs_reg empty_reg)); r2 = snd (get_or_create slot_cfg 0 ''b'' r1)
   in fst (get_or_create slot_cfg 0 ''b'' r1) = Some 1 \<and> count_lease 0 ''a'' r2 = None"
  by code_simp

text \<open>One close that fails keeps the values after it from ever being closed.\<close>

lemma failed_close_loses_rest:
  "rg_lost (flush_closures (\<lambda>v. v \<noteq> 0) \<lparr>rg_entries = ([] :: (string \<times> entry) list), rg_pending = [0, 1, 2], rg_next = 3, rg_closed = [], rg_lost = []\<rparr>) = [1, 2]"
  by code_simp

end
