(* ===== verification/Sessions.thy ===== *)
theory Sessions
  imports Systems PyText
begin

text \<open>
  Identities and sessions, \<open>SessionStore\<close> in \<open>backend/app/security/sessions.py\<close>, over the tables of the
  migrations 018, 020, 021, 029 and 040.  Times are seconds; a transaction reads the clock once.  Tokens are
  kept as hashes; the hash is a field of the configuration, \<open>cfg_hash\<close>.  An identity is the triple
  of tenant, user and device that the composite keys repeat.  Unique indexes and foreign keys raise
  \<open>Constraint\<close>, which stands for \<open>sqlite3.IntegrityError\<close>; a transaction that raises is rolled back.
\<close>

section \<open>Tables\<close>

type_synonym identity = "string \<times> string \<times> string"
type_synonym account = "string \<times> string"

abbreviation account_of :: "identity \<Rightarrow> account" where
  "account_of w \<equiv> (fst w, fst (snd w))"

record tenant_row =
  tnt_id :: string
  tnt_active :: bool

record user_row =
  usr_key :: account
  usr_active :: bool

record device_row =
  dvc_who :: identity
  dvc_name :: "string option"
  dvc_created :: rat
  dvc_seen :: rat
  dvc_claimed :: "rat option"
  dvc_revoked :: "rat option"

record family_row =
  fam_id :: string
  fam_who :: identity
  fam_created :: rat
  fam_renewed :: rat
  fam_generation :: nat
  fam_revoked :: "rat option"

record credential_row =
  crd_id :: string
  crd_hash :: string
  crd_family :: string
  crd_who :: identity
  crd_issued :: rat
  crd_expires :: rat
  crd_used :: "rat option"
  crd_revoked :: "rat option"
  crd_rotated :: "string option"

record enrollment_row =
  enr_id :: string
  enr_secret :: string
  enr_peer :: string
  enr_family :: string
  enr_who :: identity
  enr_created :: rat

record admission_row =
  adm_id :: nat
  adm_enrollment :: string
  adm_peer :: string
  adm_at :: rat

record session_row =
  ses_id :: string
  ses_hash :: string
  ses_who :: identity
  ses_issued :: rat
  ses_expires :: rat
  ses_revoked :: "rat option"
  ses_family :: string
  ses_generation :: nat
  ses_from :: "string option"

record ticket_row =
  tkt_id :: string
  tkt_hash :: string
  tkt_session :: string
  tkt_who :: identity
  tkt_type :: string
  tkt_resource :: string
  tkt_issued :: rat
  tkt_expires :: rat
  tkt_revoked :: "rat option"

text \<open>The columns of \<open>sync_devices\<close> that a sync token is resolved with.\<close>

record sync_row =
  syn_who :: identity
  syn_hash :: string
  syn_seen :: rat
  syn_revoked :: "rat option"

text \<open>
  \<open>idb_resources\<close> lists the owner of every row of the tables in \<open>_USER_RESOURCE_TABLES\<close>, \<open>idb_leases\<close> and
  \<open>idb_ledger\<close> those of the execution leases and of the quota ledger, \<open>idb_pairings\<close> the device each row
  of \<open>device_pairings\<close> refers to.
\<close>

record idb =
  idb_tenants :: "tenant_row list"
  idb_users :: "user_row list"
  idb_devices :: "device_row list"
  idb_families :: "family_row list"
  idb_credentials :: "credential_row list"
  idb_enrollments :: "enrollment_row list"
  idb_admissions :: "admission_row list"
  idb_next :: nat
  idb_sessions :: "session_row list"
  idb_tickets :: "ticket_row list"
  idb_syncs :: "sync_row list"
  idb_pairings :: "identity list"
  idb_resources :: "account list"
  idb_leases :: "account list"
  idb_ledger :: "account list"

datatype session_error =
    Session_invalid | Session_expired | Session_revoked
  | Credential_invalid | Credential_expired | Credential_revoked
  | Already_claimed | Already_enrolled
  | Admission_limit string int
  | Ticket_refused | Bad_value | Constraint

section \<open>Configuration, identities and fresh values\<close>

record admission_policy =
  pol_window :: rat
  pol_peer_window :: nat
  pol_global_window :: nat
  pol_peer_day :: nat
  pol_global_day :: nat
  pol_active_max :: nat
  pol_batch :: nat

definition admission_policy_ok :: "admission_policy \<Rightarrow> bool" where
  "admission_policy_ok p = (0 < pol_window p \<and> 1 \<le> pol_peer_window p \<and> 1 \<le> pol_global_window p \<and> 1 \<le> pol_peer_day p \<and>
     1 \<le> pol_global_day p \<and> 1 \<le> pol_active_max p \<and> 1 \<le> pol_batch p)"

record session_cfg =
  cfg_ttl :: rat
  cfg_credential_ttl :: rat
  cfg_policy :: admission_policy
  cfg_hash :: "string \<Rightarrow> string"

definition session_cfg_ok :: "session_cfg \<Rightarrow> bool" where
  "session_cfg_ok c = (0 < cfg_ttl c \<and> cfg_ttl c \<le> 3600 \<and> 0 < cfg_credential_ttl c \<and> admission_policy_ok (cfg_policy c))"

definition binding_hash :: "session_cfg \<Rightarrow> string \<Rightarrow> string \<Rightarrow> string" where
  "binding_hash c v domain = cfg_hash c (domain @ [CHR 0x00] @ v)"

record principal =
  pri_who :: identity
  pri_session :: string
  pri_public :: bool
  pri_family :: "string option"

definition local_principal :: principal where
  "local_principal = \<lparr>pri_who = (''legacy-local'', ''legacy-local'', ''legacy-local''), pri_session = ''local-fixed'',
     pri_public = False, pri_family = None\<rparr>"

record issued_session =
  iss_token :: string
  iss_principal :: principal
  iss_expires :: rat

record issued_identity =
  ide_session :: issued_session
  ide_credential :: string
  ide_credential_id :: string
  ide_expires :: rat

text \<open>The clock and the identifiers and secrets that a call would draw, \<open>_new_id\<close> and \<open>_new_secret\<close>.\<close>

record session_env =
  env_now :: rat
  new_tenant :: string
  new_owner :: string
  new_device :: string
  new_family :: string
  new_enrollment :: string
  new_secret :: string
  new_credential :: string
  new_session :: string
  new_token :: string
  new_ticket :: string

text \<open>\<open>ttl or default\<close>: a zero duration is false in Python.\<close>

definition ttl_or :: "rat option \<Rightarrow> rat \<Rightarrow> rat" where
  "ttl_or t d = (case t of None \<Rightarrow> d | Some x \<Rightarrow> if x = 0 then d else x)"

definition ttl_ok :: "rat \<Rightarrow> bool" where
  "ttl_ok t = (0 < t \<and> t \<le> 3600)"

section \<open>Lookups\<close>

definition family_at :: "string \<Rightarrow> identity \<Rightarrow> idb \<Rightarrow> family_row option" where
  "family_at f w db = List.find (\<lambda>r. fam_id r = f \<and> fam_who r = w) (idb_families db)"

definition device_at :: "identity \<Rightarrow> idb \<Rightarrow> device_row option" where
  "device_at w db = List.find (\<lambda>r. dvc_who r = w) (idb_devices db)"

definition user_at :: "account \<Rightarrow> idb \<Rightarrow> user_row option" where
  "user_at a db = List.find (\<lambda>r. usr_key r = a) (idb_users db)"

definition tenant_at :: "string \<Rightarrow> idb \<Rightarrow> tenant_row option" where
  "tenant_at t db = List.find (\<lambda>r. tnt_id r = t) (idb_tenants db)"

text \<open>The joins of the validating queries: family, device, user and tenant of a row.\<close>

definition joined :: "string \<Rightarrow> identity \<Rightarrow> idb \<Rightarrow> (family_row \<times> device_row \<times> user_row \<times> tenant_row) option" where
  "joined f w db =
     (case (family_at f w db, device_at w db, user_at (account_of w) db, tenant_at (fst w) db) of
        (Some fr, Some dr, Some ur, Some tr) \<Rightarrow> Some (fr, dr, ur, tr)
      | _ \<Rightarrow> None)"

definition live :: "family_row \<times> device_row \<times> user_row \<times> tenant_row \<Rightarrow> bool" where
  "live j = (case j of (f, d, u, t) \<Rightarrow> fam_revoked f = None \<and> dvc_revoked d = None \<and> usr_active u \<and> tnt_active t)"

section \<open>Rows written\<close>

definition insert_session ::
    "session_cfg \<Rightarrow> session_env \<Rightarrow> identity \<Rightarrow> string \<Rightarrow> nat \<Rightarrow> rat \<Rightarrow> string option \<Rightarrow> idb \<Rightarrow>
       session_error + issued_session \<times> idb" where
  "insert_session c e w f g ttl from db =
     (let h = cfg_hash c (new_token e);
          row = \<lparr>ses_id = new_session e, ses_hash = h, ses_who = w, ses_issued = env_now e, ses_expires = env_now e + ttl,
            ses_revoked = None, ses_family = f, ses_generation = g, ses_from = from\<rparr>
      in if list_ex (\<lambda>r. ses_id r = new_session e \<or> ses_hash r = h \<or> (ses_family r = f \<and> ses_revoked r = None)) (idb_sessions db) \<or>
            family_at f w db = None \<or> device_at w db = None \<or>
            (case from of None \<Rightarrow> False | Some i \<Rightarrow> \<not> list_ex (\<lambda>r. ses_id r = i) (idb_sessions db))
         then Inl Constraint
         else Inr (\<lparr>iss_token = new_token e,
                iss_principal = \<lparr>pri_who = w, pri_session = new_session e, pri_public = True, pri_family = Some f\<rparr>,
                iss_expires = env_now e + ttl\<rparr>,
              db\<lparr>idb_sessions := idb_sessions db @ [row]\<rparr>))"

definition put_credential :: "credential_row \<Rightarrow> idb \<Rightarrow> session_error + idb" where
  "put_credential row db =
     (if list_ex (\<lambda>r. crd_id r = crd_id row \<or> crd_hash r = crd_hash row \<or> (crd_family r = crd_family row \<and> crd_revoked r = None))
           (idb_credentials db) \<or>
         family_at (crd_family row) (crd_who row) db = None \<or> device_at (crd_who row) db = None
      then Inl Constraint else Inr (db\<lparr>idb_credentials := idb_credentials db @ [row]\<rparr>))"

definition insert_credential ::
    "session_cfg \<Rightarrow> session_env \<Rightarrow> identity \<Rightarrow> string \<Rightarrow> rat option \<Rightarrow> string option \<Rightarrow> idb \<Rightarrow>
       session_error + (string \<times> string \<times> rat) \<times> idb" where
  "insert_credential c e w f ttl secret db =
     (let cred = or_str secret (new_secret e); expires = env_now e + ttl_or ttl (cfg_credential_ttl c)
      in bindE (put_credential \<lparr>crd_id = new_credential e, crd_hash = cfg_hash c cred, crd_family = f, crd_who = w,
             crd_issued = env_now e, crd_expires = expires, crd_used = None, crd_revoked = None, crd_rotated = None\<rparr> db)
           (\<lambda>db1. Inr ((cred, new_credential e, expires), db1)))"

definition insert_tenant :: "string \<Rightarrow> idb \<Rightarrow> session_error + idb" where
  "insert_tenant t db =
     (if tenant_at t db \<noteq> None then Inl Constraint
      else Inr (db\<lparr>idb_tenants := idb_tenants db @ [\<lparr>tnt_id = t, tnt_active = True\<rparr>]\<rparr>))"

definition insert_user :: "account \<Rightarrow> idb \<Rightarrow> session_error + idb" where
  "insert_user a db =
     (if user_at a db \<noteq> None \<or> tenant_at (fst a) db = None then Inl Constraint
      else Inr (db\<lparr>idb_users := idb_users db @ [\<lparr>usr_key = a, usr_active = True\<rparr>]\<rparr>))"

definition insert_device :: "identity \<Rightarrow> string option \<Rightarrow> rat \<Rightarrow> idb \<Rightarrow> session_error + idb" where
  "insert_device w name now db =
     (if device_at w db \<noteq> None \<or> user_at (account_of w) db = None then Inl Constraint
      else Inr (db\<lparr>idb_devices := idb_devices db @ [\<lparr>dvc_who = w, dvc_name = name, dvc_created = now, dvc_seen = now,
             dvc_claimed = None, dvc_revoked = None\<rparr>]\<rparr>))"

definition insert_family :: "string \<Rightarrow> identity \<Rightarrow> rat \<Rightarrow> idb \<Rightarrow> session_error + idb" where
  "insert_family f w now db =
     (if list_ex (\<lambda>r. fam_id r = f) (idb_families db) \<or> device_at w db = None then Inl Constraint
      else Inr (db\<lparr>idb_families := idb_families db @ [\<lparr>fam_id = f, fam_who = w, fam_created = now, fam_renewed = now,
             fam_generation = 0, fam_revoked = None\<rparr>]\<rparr>))"

definition insert_enrollment :: "enrollment_row \<Rightarrow> idb \<Rightarrow> session_error + idb" where
  "insert_enrollment row db =
     (if list_ex (\<lambda>r. enr_id r = enr_id row) (idb_enrollments db) \<or> family_at (enr_family row) (enr_who row) db = None
      then Inl Constraint else Inr (db\<lparr>idb_enrollments := idb_enrollments db @ [row]\<rparr>))"

text \<open>
  Deleting sessions deletes their tickets (\<open>ON DELETE CASCADE\<close>) and clears the reference of the sessions renewed
  from them (\<open>ON DELETE SET NULL\<close>).
\<close>

definition delete_sessions :: "(session_row \<Rightarrow> bool) \<Rightarrow> idb \<Rightarrow> idb" where
  "delete_sessions p db =
     (let gone = map ses_id (filter p (idb_sessions db))
      in db\<lparr>idb_tickets := filter (\<lambda>r. tkt_session r \<notin> set gone) (idb_tickets db),
           idb_sessions := update_where (\<lambda>r. \<exists>i\<in>set gone. ses_from r = Some i) (\<lambda>r. r\<lparr>ses_from := None\<rparr>)
             (filter (\<lambda>r. \<not> p r) (idb_sessions db))\<rparr>)"

definition revoke_sessions :: "rat \<Rightarrow> (session_row \<Rightarrow> bool) \<Rightarrow> idb \<Rightarrow> idb" where
  "revoke_sessions now p db =
     db\<lparr>idb_sessions := update_where (\<lambda>r. p r \<and> ses_revoked r = None) (\<lambda>r. r\<lparr>ses_revoked := Some now\<rparr>) (idb_sessions db)\<rparr>"

definition revoke_families :: "rat \<Rightarrow> (family_row \<Rightarrow> bool) \<Rightarrow> idb \<Rightarrow> idb" where
  "revoke_families now p db =
     db\<lparr>idb_families := update_where (\<lambda>r. p r \<and> fam_revoked r = None) (\<lambda>r. r\<lparr>fam_revoked := Some now\<rparr>) (idb_families db)\<rparr>"

definition revoke_credentials :: "rat \<Rightarrow> (credential_row \<Rightarrow> bool) \<Rightarrow> idb \<Rightarrow> idb" where
  "revoke_credentials now p db =
     db\<lparr>idb_credentials := update_where (\<lambda>r. p r \<and> crd_revoked r = None) (\<lambda>r. r\<lparr>crd_revoked := Some now\<rparr>) (idb_credentials db)\<rparr>"

definition touch_device :: "rat \<Rightarrow> identity \<Rightarrow> idb \<Rightarrow> idb" where
  "touch_device now w db =
     db\<lparr>idb_devices := update_where (\<lambda>r. dvc_who r = w) (\<lambda>r. r\<lparr>dvc_seen := now\<rparr>) (idb_devices db)\<rparr>"

definition next_generation :: "rat \<Rightarrow> nat \<Rightarrow> (family_row \<Rightarrow> bool) \<Rightarrow> idb \<Rightarrow> idb" where
  "next_generation now g p db =
     db\<lparr>idb_families := update_where p (\<lambda>r. r\<lparr>fam_generation := g, fam_renewed := now\<rparr>) (idb_families db)\<rparr>"

section \<open>Admission of new enrollments\<close>

text \<open>An enrollment is alive while a credential or a session of its family is.\<close>

definition enrollment_alive :: "rat \<Rightarrow> idb \<Rightarrow> enrollment_row \<Rightarrow> bool" where
  "enrollment_alive now db en =
     (list_ex (\<lambda>r. crd_family r = enr_family en \<and> crd_who r = enr_who en \<and> crd_revoked r = None \<and> now < crd_expires r)
        (idb_credentials db) \<or>
      list_ex (\<lambda>r. ses_family r = enr_family en \<and> ses_who r = enr_who en \<and> ses_revoked r = None \<and> now < ses_expires r)
        (idb_sessions db))"

definition active_enrollment_count :: "rat \<Rightarrow> idb \<Rightarrow> nat" where
  "active_enrollment_count now db = length (filter (enrollment_alive now db) (idb_enrollments db))"

definition in_window :: "rat \<Rightarrow> rat \<Rightarrow> string option \<Rightarrow> admission_row \<Rightarrow> bool" where
  "in_window now dur peer r = ((case peer of None \<Rightarrow> True | Some p \<Rightarrow> adm_peer r = p) \<and> now - dur < adm_at r)"

definition check_admission_window ::
    "rat \<Rightarrow> rat \<Rightarrow> nat \<Rightarrow> string \<Rightarrow> string option \<Rightarrow> idb \<Rightarrow> session_error + unit" where
  "check_admission_window now dur limit reason peer db =
     (let times = map adm_at (filter (in_window now dur peer) (idb_admissions db));
          oldest = (case times of [] \<Rightarrow> now - dur | t # ts \<Rightarrow> fold min ts t)
      in if length times < limit then Inr () else Inl (Admission_limit reason (max 1 \<lceil>max 1 (oldest + dur - now)\<rceil>)))"

definition user_has_resources :: "account \<Rightarrow> idb \<Rightarrow> bool" where
  "user_has_resources a db = (a \<in> set (idb_resources db))"

text \<open>One orphan removed; a device that is still referred to raises.\<close>

definition remove_account :: "account \<Rightarrow> idb \<Rightarrow> idb" where
  "remove_account a db =
     (let users = filter (\<lambda>r. usr_key r \<noteq> a) (idb_users db)
      in db\<lparr>idb_leases := filter (\<lambda>k. k \<noteq> a) (idb_leases db), idb_ledger := filter (\<lambda>k. k \<noteq> a) (idb_ledger db),
           idb_users := users,
           idb_tenants := filter (\<lambda>r. \<not> (tnt_id r = fst a \<and> \<not> list_ex (\<lambda>u. fst (usr_key u) = tnt_id r) users)) (idb_tenants db)\<rparr>)"

definition device_in_use :: "identity \<Rightarrow> idb \<Rightarrow> bool" where
  "device_in_use w db =
     (list_ex (\<lambda>r. fam_who r = w) (idb_families db) \<or> list_ex (\<lambda>r. crd_who r = w) (idb_credentials db) \<or>
      list_ex (\<lambda>r. ses_who r = w) (idb_sessions db) \<or> list_ex (\<lambda>r. syn_who r = w) (idb_syncs db) \<or> w \<in> set (idb_pairings db))"

definition remove_orphan :: "enrollment_row \<Rightarrow> idb \<Rightarrow> session_error + idb" where
  "remove_orphan en db =
     (let f = enr_family en; w = enr_who en;
          db1 = delete_sessions (\<lambda>r. ses_family r = f) db;
          gone = map crd_id (filter (\<lambda>r. crd_family r = f) (idb_credentials db1));
          kept = filter (\<lambda>r. crd_family r \<noteq> f) (idb_credentials db1);
          db2 = db1\<lparr>idb_credentials := kept, idb_enrollments := filter (\<lambda>r. enr_id r \<noteq> enr_id en) (idb_enrollments db1)\<rparr>;
          db3 = db2\<lparr>idb_families := filter (\<lambda>r. fam_id r \<noteq> f) (idb_families db2)\<rparr>;
          db4 = db3\<lparr>idb_devices := filter (\<lambda>r. dvc_who r \<noteq> w) (idb_devices db3)\<rparr>
      in bindE (guardE (\<not> list_ex (\<lambda>r. \<exists>i\<in>set gone. crd_rotated r = Some i) kept) Constraint) (\<lambda>_.
         bindE (guardE (\<not> list_ex (\<lambda>r. enr_family r = f) (idb_enrollments db2)) Constraint) (\<lambda>_.
         bindE (guardE (\<not> device_in_use w db3) Constraint) (\<lambda>_.
         Inr (if list_ex (\<lambda>r. account_of (dvc_who r) = account_of w) (idb_devices db4) then db4
              else remove_account (account_of w) db4)))))"

fun remove_orphans :: "nat \<Rightarrow> enrollment_row list \<Rightarrow> nat \<Rightarrow> idb \<Rightarrow> session_error + nat \<times> idb" where
  "remove_orphans limit [] n db = Inr (n, db)"
| "remove_orphans limit (en # ens) n db =
     (if limit \<le> n then Inr (n, db)
      else if user_has_resources (account_of (enr_who en)) db then remove_orphans limit ens n db
      else bindE (remove_orphan en db) (\<lambda>db1. remove_orphans limit ens (n + 1) db1))"

definition cleanup_orphaned :: "admission_policy \<Rightarrow> rat \<Rightarrow> idb \<Rightarrow> session_error + nat \<times> idb" where
  "cleanup_orphaned p now db =
     remove_orphans (pol_batch p)
       (take (pol_batch p * 10) (sort_key enr_created (filter (\<lambda>en. \<not> enrollment_alive now db en) (idb_enrollments db)))) 0 db"

definition prune_admissions :: "admission_policy \<Rightarrow> rat \<Rightarrow> idb \<Rightarrow> idb" where
  "prune_admissions p now db =
     db\<lparr>idb_admissions := filter (\<lambda>r. \<not> adm_at r < now - max (pol_window p) 86400) (idb_admissions db)\<rparr>"

definition cleanup_orphaned_enrollments ::
    "session_cfg \<Rightarrow> session_env \<Rightarrow> admission_policy option \<Rightarrow> idb \<Rightarrow> session_error + nat \<times> idb" where
  "cleanup_orphaned_enrollments c e p db =
     (let pol = (case p of None \<Rightarrow> cfg_policy c | Some q \<Rightarrow> q)
      in bindE (cleanup_orphaned pol (env_now e) db) (\<lambda>(n, db1). Inr (n, prune_admissions pol (env_now e) db1)))"

definition add_admission :: "string \<Rightarrow> string \<Rightarrow> rat \<Rightarrow> idb \<Rightarrow> idb" where
  "add_admission eh ph now db =
     db\<lparr>idb_admissions := idb_admissions db @ [\<lparr>adm_id = idb_next db, adm_enrollment = eh, adm_peer = ph, adm_at = now\<rparr>],
       idb_next := idb_next db + 1\<rparr>"

definition admit_new_enrollment :: "session_env \<Rightarrow> string \<Rightarrow> string \<Rightarrow> admission_policy \<Rightarrow> idb \<Rightarrow> session_error + idb" where
  "admit_new_enrollment e eh ph p db0 =
     (let now = env_now e in
      bindE (cleanup_orphaned p now db0) (\<lambda>(_, db1).
      let db = prune_admissions p now db1 in
      bindE (check_admission_window now (pol_window p) (pol_peer_window p) ''peer_window'' (Some ph) db) (\<lambda>_.
      bindE (check_admission_window now (pol_window p) (pol_global_window p) ''global_window'' None db) (\<lambda>_.
      bindE (check_admission_window now 86400 (pol_peer_day p) ''peer_day'' (Some ph) db) (\<lambda>_.
      bindE (check_admission_window now 86400 (pol_global_day p) ''global_day'' None db) (\<lambda>_.
      bindE (guardE (active_enrollment_count now db < pol_active_max p)
               (Admission_limit ''total_active'' (max 1 \<lceil>pol_window p\<rceil>))) (\<lambda>_.
      Inr (add_admission eh ph now db))))))))"

section \<open>Credentials and renewal\<close>

text \<open>\<open>_credential_row_tx\<close> and \<open>_assert_credential_row\<close>: the credential and the generation of its family.\<close>

definition assert_credential_row ::
    "(credential_row \<times> family_row \<times> device_row \<times> user_row \<times> tenant_row) option \<Rightarrow> rat \<Rightarrow> session_error + credential_row \<times> nat" where
  "assert_credential_row row now =
     (case row of
        None \<Rightarrow> Inl Credential_invalid
      | Some (r, j) \<Rightarrow>
          if crd_revoked r \<noteq> None \<or> \<not> live j then Inl Credential_revoked
          else if crd_expires r \<le> now then Inl Credential_expired
          else Inr (r, fam_generation (fst j)))"

definition find_credential :: "session_cfg \<Rightarrow> rat \<Rightarrow> string \<Rightarrow> idb \<Rightarrow> session_error + credential_row \<times> nat" where
  "find_credential c now cred db =
     (if py_strip cred = [] then Inl Credential_invalid
      else assert_credential_row
        (case List.find (\<lambda>r. crd_hash r = cfg_hash c cred) (idb_credentials db) of
           None \<Rightarrow> None
         | Some r \<Rightarrow> map_option (\<lambda>j. (r, j)) (joined (crd_family r) (crd_who r) db)) now)"

definition renew_credential_row ::
    "session_cfg \<Rightarrow> session_env \<Rightarrow> credential_row \<times> nat \<Rightarrow> rat \<Rightarrow> idb \<Rightarrow> session_error + issued_session \<times> idb" where
  "renew_credential_row c e row ttl db =
     (let r = fst row; f = crd_family r; now = env_now e; g = snd row + 1;
          previous = order_first (\<lambda>s. - int (ses_generation s)) (\<lambda>s. ses_family s = f \<and> ses_revoked s = None) (idb_sessions db);
          db1 = revoke_sessions now (\<lambda>s. ses_family s = f) db;
          db2 = next_generation now g (\<lambda>x. fam_id x = f \<and> fam_revoked x = None) db1;
          db3 = db2\<lparr>idb_credentials := update_where (\<lambda>x. crd_id x = crd_id r) (\<lambda>x. x\<lparr>crd_used := Some now\<rparr>) (idb_credentials db2)\<rparr>;
          db4 = touch_device now (crd_who r) db3
      in insert_session c e (crd_who r) f g ttl (map_option ses_id previous) db4)"

definition renew_public_session ::
    "session_cfg \<Rightarrow> session_env \<Rightarrow> string \<Rightarrow> rat option \<Rightarrow> idb \<Rightarrow> session_error + issued_session \<times> idb" where
  "renew_public_session c e cred ttl db =
     (let t = ttl_or ttl (cfg_ttl c)
      in bindE (guardE (ttl_ok t) Bad_value) (\<lambda>_.
         bindE (find_credential c (env_now e) cred db) (\<lambda>row. renew_credential_row c e row t db)))"

section \<open>Enrollment\<close>

text \<open>The rows of a new device: family, credential, enrollment and first session.\<close>

definition enroll_rows ::
    "session_cfg \<Rightarrow> session_env \<Rightarrow> identity \<Rightarrow> string option \<Rightarrow> string \<Rightarrow> string \<Rightarrow> string \<Rightarrow> rat \<Rightarrow> idb \<Rightarrow>
       session_error + issued_identity \<times> idb" where
  "enroll_rows c e w name eh ph cred ttl db =
     bindE (insert_device w name (env_now e) db) (\<lambda>db1.
     bindE (insert_family (new_family e) w (env_now e) db1) (\<lambda>db2.
     bindE (insert_credential c e w (new_family e) None (Some cred) db2) (\<lambda>((cr, cid, cexp), db3).
     bindE (insert_enrollment \<lparr>enr_id = eh, enr_secret = cfg_hash c cred, enr_peer = ph, enr_family = new_family e,
              enr_who = w, enr_created = env_now e\<rparr> db3) (\<lambda>db4.
     bindE (insert_session c e w (new_family e) 0 ttl None db4) (\<lambda>(s, db5).
     Inr (\<lparr>ide_session = s, ide_credential = cr, ide_credential_id = cid, ide_expires = cexp\<rparr>, db5))))))"

record enroll_request =
  erq_enrollment :: "string option"
  erq_secret :: "string option"
  erq_peer :: string
  erq_name :: "string option"
  erq_tenant :: "string option"
  erq_device :: "string option"
  erq_user :: "string option"
  erq_ttl :: "rat option"
  erq_policy :: "admission_policy option"

definition find_enrollment :: "string \<Rightarrow> idb \<Rightarrow> enrollment_row option" where
  "find_enrollment eh db = List.find (\<lambda>r. enr_id r = eh) (idb_enrollments db)"

definition enroll_public_device ::
    "session_cfg \<Rightarrow> session_env \<Rightarrow> enroll_request \<Rightarrow> idb \<Rightarrow> session_error + issued_identity \<times> idb" where
  "enroll_public_device c e q db =
     (let t = ttl_or (erq_ttl q) (cfg_ttl c); enrollment = or_str (erq_enrollment q) (new_enrollment e);
          cred = or_str (erq_secret q) (new_secret e);
          eh = binding_hash c enrollment ''enrollment-id''; ch = cfg_hash c cred; ph = binding_hash c (erq_peer q) ''enrollment-peer'';
          w = (or_str (erq_tenant q) (new_tenant e), or_str (erq_user q) (new_owner e), or_str (erq_device q) (new_device e));
          pol = (case erq_policy q of None \<Rightarrow> cfg_policy c | Some p \<Rightarrow> p)
      in bindE (guardE (ttl_ok t) Bad_value) (\<lambda>_.
         bindE (guardE (\<not> (length enrollment < 32 \<or> length cred < 32)) Bad_value) (\<lambda>_.
         case find_enrollment eh db of
           Some en \<Rightarrow>
             bindE (guardE (enr_secret en = ch) Already_enrolled) (\<lambda>_.
             bindE (find_credential c (env_now e) cred db) (\<lambda>row.
             bindE (guardE (crd_family (fst row) = enr_family en \<and> crd_who (fst row) = enr_who en) Credential_invalid) (\<lambda>_.
             bindE (renew_credential_row c e row t db) (\<lambda>(s, db1).
             Inr (\<lparr>ide_session = s, ide_credential = cred, ide_credential_id = crd_id (fst row), ide_expires = crd_expires (fst row)\<rparr>,
                  db1\<lparr>idb_enrollments := update_where (\<lambda>r. enr_id r = eh) (\<lambda>r. r\<lparr>enr_peer := ph\<rparr>) (idb_enrollments db1)\<rparr>)))))
         | None \<Rightarrow>
             bindE (admit_new_enrollment e eh ph pol db) (\<lambda>db1.
             bindE (insert_tenant (fst w) db1) (\<lambda>db2.
             bindE (insert_user (account_of w) db2) (\<lambda>db3.
             enroll_rows c e w (erq_name q) eh ph cred t db3))))))"

definition issue_public_session ::
    "session_cfg \<Rightarrow> session_env \<Rightarrow> string option \<Rightarrow> string option \<Rightarrow> string option \<Rightarrow> rat option \<Rightarrow> idb \<Rightarrow>
       session_error + issued_session \<times> idb" where
  "issue_public_session c e tenant device owner ttl db =
     bindE (enroll_public_device c e \<lparr>erq_enrollment = None, erq_secret = None, erq_peer = ''internal'', erq_name = None,
         erq_tenant = tenant, erq_device = device, erq_user = owner, erq_ttl = ttl, erq_policy = None\<rparr> db)
       (\<lambda>(i, db1). Inr (ide_session i, db1))"

text \<open>The scope check of the calls that are authorised by a credential.\<close>

definition owns_credential :: "principal \<Rightarrow> credential_row \<Rightarrow> bool" where
  "owns_credential p r = (Some (crd_family r) = pri_family p \<and> crd_who r = pri_who p)"

definition has_family :: "principal \<Rightarrow> bool" where
  "has_family p = (pri_public p \<and> truthy_str (pri_family p))"

definition enroll_additional_device ::
    "session_cfg \<Rightarrow> session_env \<Rightarrow> principal \<Rightarrow> string \<Rightarrow> string \<Rightarrow> string \<Rightarrow> string \<Rightarrow> string option \<Rightarrow> rat option \<Rightarrow>
       admission_policy option \<Rightarrow> idb \<Rightarrow> session_error + issued_identity \<times> idb" where
  "enroll_additional_device c e p current enrollment secret peer name ttl policy db =
     (let t = ttl_or ttl (cfg_ttl c); eh = binding_hash c enrollment ''enrollment-id'';
          ph = binding_hash c peer ''enrollment-peer''; pol = (case policy of None \<Rightarrow> cfg_policy c | Some q \<Rightarrow> q);
          w = (fst (pri_who p), fst (snd (pri_who p)), new_device e)
      in bindE (guardE (has_family p) Credential_invalid) (\<lambda>_.
         bindE (guardE (ttl_ok t) Bad_value) (\<lambda>_.
         bindE (guardE (\<not> (length enrollment < 32 \<or> length secret < 32)) Bad_value) (\<lambda>_.
         bindE (find_credential c (env_now e) current db) (\<lambda>auth.
         bindE (guardE (owns_credential p (fst auth)) Credential_invalid) (\<lambda>_.
         case find_enrollment eh db of
           Some en \<Rightarrow>
             bindE (guardE (enr_secret en = cfg_hash c secret) Already_enrolled) (\<lambda>_.
             bindE (guardE (account_of (enr_who en) = account_of (pri_who p)) Already_enrolled) (\<lambda>_.
             bindE (find_credential c (env_now e) secret db) (\<lambda>row.
             bindE (renew_credential_row c e row t db) (\<lambda>(s, db1).
             Inr (\<lparr>ide_session = s, ide_credential = secret, ide_credential_id = crd_id (fst row), ide_expires = crd_expires (fst row)\<rparr>, db1)))))
         | None \<Rightarrow>
             bindE (admit_new_enrollment e eh ph pol db) (\<lambda>db1. enroll_rows c e w name eh ph secret t db1)))))))"

section \<open>Rotation and the claim of a legacy identity\<close>

definition rotate_device_credential ::
    "session_cfg \<Rightarrow> session_env \<Rightarrow> principal \<Rightarrow> string \<Rightarrow> string \<Rightarrow> idb \<Rightarrow> session_error + (string \<times> rat) \<times> idb" where
  "rotate_device_credential c e p current new db =
     (let now = env_now e; f = (case pri_family p of None \<Rightarrow> [] | Some x \<Rightarrow> x); expires = now + cfg_credential_ttl c
      in bindE (guardE (has_family p) Credential_invalid) (\<lambda>_.
         bindE (guardE (\<not> (length new < 32 \<or> cfg_hash c current = cfg_hash c new)) Credential_invalid) (\<lambda>_.
         bindE (find_credential c now current db) (\<lambda>old.
         bindE (guardE (owns_credential p (fst old)) Credential_invalid) (\<lambda>_.
         let db1 = revoke_credentials now (\<lambda>r. crd_id r = crd_id (fst old)) db
         in bindE (put_credential \<lparr>crd_id = new_credential e, crd_hash = cfg_hash c new, crd_family = f, crd_who = pri_who p,
                crd_issued = now, crd_expires = expires, crd_used = None, crd_revoked = None, crd_rotated = None\<rparr> db1) (\<lambda>db2.
            Inr ((new_credential e, expires),
              db2\<lparr>idb_credentials := update_where (\<lambda>r. crd_id r = crd_id (fst old))
                    (\<lambda>r. r\<lparr>crd_rotated := Some (new_credential e)\<rparr>) (idb_credentials db2),
                  idb_enrollments := update_where (\<lambda>r. enr_family r = f \<and> enr_who r = pri_who p)
                    (\<lambda>r. r\<lparr>enr_secret := cfg_hash c new\<rparr>) (idb_enrollments db2)\<rparr>)))))))"

text \<open>The joins of the claim do not read users and tenants.\<close>

definition claim_row :: "principal \<Rightarrow> idb \<Rightarrow> (rat option \<times> nat) option" where
  "claim_row p db =
     (case List.find (\<lambda>s. ses_id s = pri_session p \<and> ses_who s = pri_who p \<and> ses_revoked s = None) (idb_sessions db) of
        None \<Rightarrow> None
      | Some s \<Rightarrow>
          (case (family_at (ses_family s) (ses_who s) db, device_at (ses_who s) db) of
             (Some f, Some d) \<Rightarrow> if fam_revoked f = None then Some (dvc_claimed d, fam_generation f) else None
           | _ \<Rightarrow> None))"

definition claim_legacy_identity ::
    "session_cfg \<Rightarrow> session_env \<Rightarrow> principal \<Rightarrow> idb \<Rightarrow> session_error + issued_identity \<times> idb" where
  "claim_legacy_identity c e p db =
     (let now = env_now e; f = (case pri_family p of None \<Rightarrow> [] | Some x \<Rightarrow> x)
      in bindE (guardE (has_family p) Session_invalid) (\<lambda>_.
         case claim_row p db of
           None \<Rightarrow> Inl Session_invalid
         | Some (claimed, g) \<Rightarrow>
             bindE (guardE (claimed = None \<and> \<not> list_ex (\<lambda>r. crd_family r = f) (idb_credentials db)) Already_claimed) (\<lambda>_.
             bindE (insert_credential c e (pri_who p) f None None db) (\<lambda>((cred, cid, cexp), db1).
             let db2 = db1\<lparr>idb_devices := update_where (\<lambda>r. dvc_who r = pri_who p)
                   (\<lambda>r. r\<lparr>dvc_claimed := Some now, dvc_seen := now\<rparr>) (idb_devices db1)\<rparr>;
                 db3 = revoke_sessions now (\<lambda>s. ses_family s = f) db2;
                 db4 = next_generation now (g + 1) (\<lambda>x. fam_id x = f) db3
             in bindE (insert_session c e (pri_who p) f (g + 1) (cfg_ttl c) (Some (pri_session p)) db4) (\<lambda>(s, db5).
                Inr (\<lparr>ide_session = s, ide_credential = cred, ide_credential_id = cid, ide_expires = cexp\<rparr>, db5))))))"

section \<open>Validation\<close>

definition principal_of :: "session_row \<Rightarrow> principal" where
  "principal_of s = \<lparr>pri_who = ses_who s, pri_session = ses_id s, pri_public = True, pri_family = Some (ses_family s)\<rparr>"

definition validate_public_token :: "session_cfg \<Rightarrow> rat \<Rightarrow> string \<Rightarrow> idb \<Rightarrow> session_error + principal" where
  "validate_public_token c now token db =
     (if py_strip token = [] then Inl Session_invalid
      else case List.find (\<lambda>s. ses_hash s = cfg_hash c token) (idb_sessions db) of
        None \<Rightarrow> Inl Session_invalid
      | Some s \<Rightarrow>
          (case joined (ses_family s) (ses_who s) db of
             None \<Rightarrow> Inl Session_invalid
           | Some j \<Rightarrow>
               if ses_revoked s \<noteq> None \<or> \<not> live j then Inl Session_revoked
               else if ses_expires s \<le> now then Inl Session_expired
               else Inr (principal_of s)))"

definition validate_sync_token :: "session_cfg \<Rightarrow> rat \<Rightarrow> string \<Rightarrow> idb \<Rightarrow> session_error + principal \<times> idb" where
  "validate_sync_token c now token db =
     (if py_strip token = [] then Inl Credential_invalid
      else case List.find (\<lambda>s. syn_hash s = cfg_hash c token) (idb_syncs db) of
        None \<Rightarrow> Inl Credential_invalid
      | Some s \<Rightarrow>
          (case (device_at (syn_who s) db, user_at (account_of (syn_who s)) db, tenant_at (fst (syn_who s)) db) of
             (Some d, Some u, Some t) \<Rightarrow>
               if syn_revoked s \<noteq> None \<or> dvc_revoked d \<noteq> None \<or> \<not> usr_active u \<or> \<not> tnt_active t then Inl Credential_revoked
               else Inr (\<lparr>pri_who = syn_who s, pri_session = ''sync:'' @ snd (snd (syn_who s)), pri_public = True, pri_family = None\<rparr>,
                 db\<lparr>idb_syncs := update_where (\<lambda>r. syn_who r = syn_who s) (\<lambda>r. r\<lparr>syn_seen := now\<rparr>) (idb_syncs db)\<rparr>)
           | _ \<Rightarrow> Inl Credential_invalid))"

definition assert_active_principal :: "rat \<Rightarrow> principal \<Rightarrow> idb \<Rightarrow> session_error + unit" where
  "assert_active_principal now p db =
     (if \<not> has_family p then Inr ()
      else case List.find (\<lambda>s. ses_id s = pri_session p \<and> ses_who s = pri_who p \<and> Some (ses_family s) = pri_family p) (idb_sessions db) of
        None \<Rightarrow> Inl Session_invalid
      | Some s \<Rightarrow>
          (case joined (ses_family s) (ses_who s) db of
             None \<Rightarrow> Inl Session_invalid
           | Some j \<Rightarrow>
               if ses_revoked s \<noteq> None \<or> \<not> live j \<or> ses_generation s \<noteq> fam_generation (fst j) then Inl Session_revoked
               else if ses_expires s \<le> now then Inl Session_expired
               else Inr ()))"

definition resolve_principal :: "session_cfg \<Rightarrow> rat \<Rightarrow> bool \<Rightarrow> string option \<Rightarrow> idb \<Rightarrow> session_error + principal" where
  "resolve_principal c now public token db =
     (if \<not> public then Inr local_principal else validate_public_token c now (or_str token []) db)"

section \<open>Revocation and cleanup\<close>

definition revoke_session :: "rat \<Rightarrow> string \<Rightarrow> idb \<Rightarrow> bool \<times> idb" where
  "revoke_session now sid db =
     (rowcount (\<lambda>s. ses_id s = sid \<and> ses_revoked s = None) (idb_sessions db) \<noteq> 0, revoke_sessions now (\<lambda>s. ses_id s = sid) db)"

definition revoke_session_family :: "rat \<Rightarrow> principal \<Rightarrow> idb \<Rightarrow> bool \<times> idb" where
  "revoke_session_family now p db =
     (if \<not> has_family p then (False, db)
      else let f = (case pri_family p of None \<Rightarrow> [] | Some x \<Rightarrow> x);
               hit = (\<lambda>r. fam_id r = f \<and> fam_who r = pri_who p)
           in (rowcount (\<lambda>r. hit r \<and> fam_revoked r = None) (idb_families db) \<noteq> 0,
               revoke_credentials now (\<lambda>r. crd_family r = f)
                 (revoke_sessions now (\<lambda>s. ses_family s = f) (revoke_families now hit db))))"

definition revoke_principal_device :: "session_cfg \<Rightarrow> rat \<Rightarrow> principal \<Rightarrow> string \<Rightarrow> idb \<Rightarrow> session_error + bool \<times> idb" where
  "revoke_principal_device c now p current db =
     (if \<not> pri_public p then Inr (False, db)
      else bindE (find_credential c now current db) (\<lambda>row.
           bindE (guardE (owns_credential p (fst row)) Credential_invalid) (\<lambda>_.
           let w = pri_who p;
               db1 = db\<lparr>idb_devices := update_where (\<lambda>r. dvc_who r = w \<and> dvc_revoked r = None)
                 (\<lambda>r. r\<lparr>dvc_revoked := Some now\<rparr>) (idb_devices db)\<rparr>
           in Inr (rowcount (\<lambda>r. dvc_who r = w \<and> dvc_revoked r = None) (idb_devices db) \<noteq> 0,
                revoke_credentials now (\<lambda>r. crd_who r = w)
                  (revoke_sessions now (\<lambda>s. ses_who s = w) (revoke_families now (\<lambda>r. fam_who r = w) db1))))))"

definition session_dead :: "rat \<Rightarrow> session_row \<Rightarrow> bool" where
  "session_dead now s = (ses_expires s \<le> now \<or> ses_revoked s \<noteq> None)"

definition ticket_dead :: "rat \<Rightarrow> idb \<Rightarrow> ticket_row \<Rightarrow> bool" where
  "ticket_dead now db r =
     (tkt_expires r \<le> now \<or> tkt_revoked r \<noteq> None \<or>
      list_ex (\<lambda>s. session_dead now s \<and> ses_id s = tkt_session r) (idb_sessions db))"

definition cleanup_expired_sessions :: "rat \<Rightarrow> idb \<Rightarrow> (nat \<times> nat) \<times> idb" where
  "cleanup_expired_sessions now db =
     ((rowcount (ticket_dead now db) (idb_tickets db), rowcount (session_dead now) (idb_sessions db)),
      delete_sessions (session_dead now) (db\<lparr>idb_tickets := filter (\<lambda>r. \<not> ticket_dead now db r) (idb_tickets db)\<rparr>))"

section \<open>Resource tickets\<close>

definition issue_resource_ticket_tx ::
    "session_cfg \<Rightarrow> session_env \<Rightarrow> principal \<Rightarrow> string \<Rightarrow> string \<Rightarrow> rat \<Rightarrow> idb \<Rightarrow> session_error + (string \<times> string \<times> rat) \<times> idb" where
  "issue_resource_ticket_tx c e p rtype rid ttl db =
     (let now = env_now e;
          source = List.find (\<lambda>s. ses_id s = pri_session p \<and> ses_who s = pri_who p \<and> ses_revoked s = None \<and> now < ses_expires s)
            (idb_sessions db)
      in bindE (guardE (pri_public p) Bad_value) (\<lambda>_.
         bindE (guardE (rtype = ''meeting'' \<or> rtype = ''artifact'') Bad_value) (\<lambda>_.
         bindE (guardE (py_strip rid \<noteq> [] \<and> ttl_ok ttl) Bad_value) (\<lambda>_.
         case source of
           None \<Rightarrow> Inl Ticket_refused
         | Some s \<Rightarrow>
             (case family_at (ses_family s) (ses_who s) db of
                None \<Rightarrow> Inl Ticket_refused
              | Some f \<Rightarrow>
                  if fam_revoked f \<noteq> None then Inl Ticket_refused
                  else if list_ex (\<lambda>r. tkt_id r = new_ticket e \<or> tkt_hash r = cfg_hash c (new_token e)) (idb_tickets db)
                  then Inl Constraint
                  else Inr ((new_token e, new_ticket e, now + ttl),
                    db\<lparr>idb_tickets := idb_tickets db @ [\<lparr>tkt_id = new_ticket e, tkt_hash = cfg_hash c (new_token e),
                      tkt_session = ses_id s, tkt_who = ses_who s, tkt_type = rtype, tkt_resource = rid,
                      tkt_issued = now, tkt_expires = now + ttl, tkt_revoked = None\<rparr>]\<rparr>))))))"

definition issue_resource_ticket ::
    "session_cfg \<Rightarrow> session_env \<Rightarrow> principal \<Rightarrow> string \<Rightarrow> string \<Rightarrow> rat \<Rightarrow> idb \<Rightarrow> session_error + string \<times> idb" where
  "issue_resource_ticket c e p rtype rid ttl db =
     bindE (guardE (pri_public p) Bad_value) (\<lambda>_.
     bindE (issue_resource_ticket_tx c e p rtype rid ttl db) (\<lambda>((token, _, _), db1). Inr (token, db1)))"

definition validate_resource_ticket ::
    "session_cfg \<Rightarrow> rat \<Rightarrow> string \<Rightarrow> string \<Rightarrow> string \<Rightarrow> idb \<Rightarrow> session_error + principal" where
  "validate_resource_ticket c now token rtype rid db =
     (if token = [] then Inl Ticket_refused
      else case List.find (\<lambda>r. tkt_hash r = cfg_hash c token \<and> tkt_type r = rtype \<and> tkt_resource r = rid) (idb_tickets db) of
        None \<Rightarrow> Inl Ticket_refused
      | Some r \<Rightarrow>
          (case List.find (\<lambda>s. ses_id s = tkt_session r \<and> ses_who s = tkt_who r) (idb_sessions db) of
             None \<Rightarrow> Inl Ticket_refused
           | Some s \<Rightarrow>
               (case joined (ses_family s) (ses_who s) db of
                  None \<Rightarrow> Inl Ticket_refused
                | Some j \<Rightarrow>
                    if tkt_revoked r \<noteq> None \<or> ses_revoked s \<noteq> None \<or> \<not> live j then Inl Ticket_refused
                    else if tkt_expires r \<le> now \<or> ses_expires s \<le> now then Inl Ticket_refused
                    else Inr (principal_of s))))"

section \<open>What the hub writes into the same tables\<close>

text \<open>
  \<open>create_pairing\<close> of \<open>sync_hub/store.py\<close> makes the principal's rows and refers to its device; \<open>claim_pairing\<close>
  makes a device with a sync token; \<open>revoke_device\<close> ends the token.  Theory \<open>SyncHub\<close> has the whole calls.
\<close>

definition or_ignore :: "(idb \<Rightarrow> session_error + idb) \<Rightarrow> idb \<Rightarrow> idb" where
  "or_ignore f db = (case f db of Inl _ \<Rightarrow> db | Inr db1 \<Rightarrow> db1)"

definition ensure_principal_device :: "rat \<Rightarrow> identity \<Rightarrow> idb \<Rightarrow> idb" where
  "ensure_principal_device now w db =
     or_ignore (insert_device w None now) (or_ignore (insert_user (account_of w)) (or_ignore (insert_tenant (fst w)) db))"

definition pairing_rows :: "rat \<Rightarrow> identity \<Rightarrow> idb \<Rightarrow> idb" where
  "pairing_rows now w db = (let db1 = ensure_principal_device now w db in db1\<lparr>idb_pairings := idb_pairings db1 @ [w]\<rparr>)"

definition claimed_rows :: "rat \<Rightarrow> identity \<Rightarrow> string \<Rightarrow> string \<Rightarrow> idb \<Rightarrow> session_error + idb" where
  "claimed_rows now w name h db =
     bindE (insert_device w (Some name) now db) (\<lambda>db1.
     bindE (guardE (\<not> list_ex (\<lambda>r. syn_who r = w \<or> syn_hash r = h) (idb_syncs db1)) Constraint) (\<lambda>_.
     Inr (db1\<lparr>idb_syncs := idb_syncs db1 @ [\<lparr>syn_who = w, syn_hash = h, syn_seen = now, syn_revoked = None\<rparr>]\<rparr>)))"

definition revoked_rows :: "rat \<Rightarrow> identity \<Rightarrow> idb \<Rightarrow> idb" where
  "revoked_rows now w db =
     db\<lparr>idb_syncs := update_where (\<lambda>r. syn_who r = w)
       (\<lambda>r. r\<lparr>syn_revoked := (case syn_revoked r of None \<Rightarrow> Some now | Some x \<Rightarrow> Some x), syn_seen := now\<rparr>) (idb_syncs db)\<rparr>"

end
