(* ===== verification/SessionsCorrect.thy ===== *)
theory SessionsCorrect
  imports Sessions
begin

text \<open>
  What the transactions of \<open>SessionStore\<close> keep: the keys are unique, every reference has its row, a session that
  is not revoked has the generation of its family and is the only one of it.  And how they move: a bearer that is
  refused stays refused, generations only grow, and a new bearer belongs to a new family or a new generation.
\<close>

section \<open>The invariant\<close>

definition keys_ok :: "idb \<Rightarrow> bool" where
  "keys_ok db =
     (distinct (map ses_id (idb_sessions db)) \<and> distinct (map ses_hash (idb_sessions db)) \<and>
      distinct (map fam_id (idb_families db)) \<and> distinct (map dvc_who (idb_devices db)) \<and>
      distinct (map usr_key (idb_users db)) \<and> distinct (map tnt_id (idb_tenants db)))"

definition refs_ok :: "idb \<Rightarrow> bool" where
  "refs_ok db =
     ((\<forall>f\<in>set (idb_families db). fam_who f \<in> dvc_who ` set (idb_devices db)) \<and>
      (\<forall>d\<in>set (idb_devices db). account_of (dvc_who d) \<in> usr_key ` set (idb_users db)) \<and>
      (\<forall>u\<in>set (idb_users db). fst (usr_key u) \<in> tnt_id ` set (idb_tenants db)))"

definition in_family :: "session_row \<Rightarrow> family_row \<Rightarrow> bool" where
  "in_family s f = (fam_id f = ses_family s \<and> fam_who f = ses_who s \<and> ses_generation s \<le> fam_generation f \<and>
     (ses_revoked s = None \<longrightarrow> ses_generation s = fam_generation f))"

definition gens_ok :: "idb \<Rightarrow> bool" where
  "gens_ok db =
     ((\<forall>s\<in>set (idb_sessions db). \<exists>f\<in>set (idb_families db). in_family s f) \<and>
      (\<forall>s\<in>set (idb_sessions db). \<forall>s'\<in>set (idb_sessions db).
         ses_revoked s = None \<longrightarrow> ses_revoked s' = None \<longrightarrow> ses_family s = ses_family s' \<longrightarrow> s = s'))"

definition idb_ok :: "idb \<Rightarrow> bool" where
  "idb_ok db = (keys_ok db \<and> refs_ok db \<and> gens_ok db)"

section \<open>Lookups under unique keys\<close>

lemma find_key:
  "distinct (map k xs) \<Longrightarrow> List.find (\<lambda>r. k r = a) xs = Some r \<longleftrightarrow> r \<in> set xs \<and> k r = a"
  by (induction xs) (auto split: if_splits)

lemma find_key_cond:
  "distinct (map k xs) \<Longrightarrow> List.find (\<lambda>r. k r = a \<and> P r) xs = Some r \<longleftrightarrow> r \<in> set xs \<and> k r = a \<and> P r"
  by (induction xs) (auto split: if_splits)

lemma row_eq: "distinct (map k xs) \<Longrightarrow> a \<in> set xs \<Longrightarrow> b \<in> set xs \<Longrightarrow> k a = k b \<Longrightarrow> a = b"
  by (auto simp: distinct_map dest: inj_onD)

lemma find_NoneI: "List.find P xs = None \<longleftrightarrow> (\<forall>x\<in>set xs. \<not> P x)"
  by (induction xs) auto

lemma keys_okD:
  assumes "idb_ok db"
  shows "distinct (map ses_id (idb_sessions db))" "distinct (map ses_hash (idb_sessions db))"
    "distinct (map fam_id (idb_families db))" "distinct (map dvc_who (idb_devices db))"
    "distinct (map usr_key (idb_users db))" "distinct (map tnt_id (idb_tenants db))"
  using assms by (auto simp: idb_ok_def keys_ok_def)

lemma refs_okD:
  assumes "idb_ok db"
  shows "f \<in> set (idb_families db) \<Longrightarrow> fam_who f \<in> dvc_who ` set (idb_devices db)"
    "d \<in> set (idb_devices db) \<Longrightarrow> account_of (dvc_who d) \<in> usr_key ` set (idb_users db)"
    "u \<in> set (idb_users db) \<Longrightarrow> fst (usr_key u) \<in> tnt_id ` set (idb_tenants db)"
  using assms by (simp_all add: idb_ok_def refs_ok_def)

lemma joined_iff:
  "joined f w db = Some (fr, dr, ur, tr) \<longleftrightarrow>
     family_at f w db = Some fr \<and> device_at w db = Some dr \<and> user_at (account_of w) db = Some ur \<and> tenant_at (fst w) db = Some tr"
  by (auto simp: joined_def split: option.splits)

lemma joined_Some:
  assumes "idb_ok db"
  shows "joined f w db = Some (fr, dr, ur, tr) \<longleftrightarrow>
    fr \<in> set (idb_families db) \<and> fam_id fr = f \<and> fam_who fr = w \<and> dr \<in> set (idb_devices db) \<and> dvc_who dr = w \<and>
    ur \<in> set (idb_users db) \<and> usr_key ur = account_of w \<and> tr \<in> set (idb_tenants db) \<and> tnt_id tr = fst w"
  unfolding joined_iff family_at_def device_at_def user_at_def tenant_at_def
  using keys_okD[OF assms] by (simp add: find_key find_key_cond)

section \<open>Accepted bearers\<close>

definition accepts :: "rat \<Rightarrow> string \<Rightarrow> string \<Rightarrow> nat \<Rightarrow> idb \<Rightarrow> bool" where
  "accepts now h f g db = (\<exists>s\<in>set (idb_sessions db).
     ses_hash s = h \<and> ses_family s = f \<and> ses_generation s = g \<and> ses_revoked s = None \<and> now < ses_expires s \<and>
     (\<exists>fr\<in>set (idb_families db). fam_id fr = f \<and> fam_who fr = ses_who s \<and> fam_revoked fr = None) \<and>
     (\<exists>d\<in>set (idb_devices db). dvc_who d = ses_who s \<and> dvc_revoked d = None) \<and>
     (\<exists>u\<in>set (idb_users db). usr_key u = account_of (ses_who s) \<and> usr_active u) \<and>
     (\<exists>t\<in>set (idb_tenants db). tnt_id t = fst (ses_who s) \<and> tnt_active t))"

lemma accepts_mono: "accepts now h f g db \<Longrightarrow> now' \<le> now \<Longrightarrow> accepts now' h f g db"
  unfolding accepts_def by (blast intro: le_less_trans)

text \<open>Every session has the rows its validation joins.\<close>

lemma session_rows:
  assumes ok: "idb_ok db" and s: "s \<in> set (idb_sessions db)"
  obtains fr dr ur tr where "joined (ses_family s) (ses_who s) db = Some (fr, dr, ur, tr)" "in_family s fr"
proof -
  from ok s obtain fr where fr: "fr \<in> set (idb_families db)" "in_family s fr" by (auto simp: idb_ok_def gens_ok_def)
  have w: "fam_who fr = ses_who s" using fr(2) by (simp add: in_family_def)
  obtain dr where dr: "dr \<in> set (idb_devices db)" "dvc_who dr = ses_who s"
    using refs_okD(1)[OF ok fr(1)] w by auto
  obtain ur where ur: "ur \<in> set (idb_users db)" "usr_key ur = account_of (ses_who s)"
    using refs_okD(2)[OF ok dr(1)] dr(2) by auto
  obtain tr where tr: "tr \<in> set (idb_tenants db)" "tnt_id tr = fst (ses_who s)"
    using refs_okD(3)[OF ok ur(1)] ur(2) by auto
  have "joined (ses_family s) (ses_who s) db = Some (fr, dr, ur, tr)"
    unfolding joined_Some[OF ok] using fr dr ur tr by (simp add: in_family_def)
  then show ?thesis using fr(2) by (rule that)
qed

lemma accepted_iff:
  assumes ok: "idb_ok db"
  shows "accepts now h f g db \<longleftrightarrow> (\<exists>s\<in>set (idb_sessions db). ses_hash s = h \<and> ses_family s = f \<and> ses_generation s = g \<and>
     ses_revoked s = None \<and> now < ses_expires s \<and> (\<exists>j. joined f (ses_who s) db = Some j \<and> live j))"
    (is "?L \<longleftrightarrow> ?R")
proof
  assume ?L
  then obtain s fr d u t where "s \<in> set (idb_sessions db)" "ses_hash s = h" "ses_family s = f" "ses_generation s = g"
    "ses_revoked s = None" "now < ses_expires s"
    "fr \<in> set (idb_families db)" "fam_id fr = f" "fam_who fr = ses_who s" "fam_revoked fr = None"
    "d \<in> set (idb_devices db)" "dvc_who d = ses_who s" "dvc_revoked d = None"
    "u \<in> set (idb_users db)" "usr_key u = account_of (ses_who s)" "usr_active u"
    "t \<in> set (idb_tenants db)" "tnt_id t = fst (ses_who s)" "tnt_active t"
    unfolding accepts_def by blast
  moreover from this have "joined f (ses_who s) db = Some (fr, d, u, t)" by (simp add: joined_Some[OF ok])
  moreover have "live (fr, d, u, t)" using calculation by (simp add: live_def)
  ultimately show ?R by blast
next
  assume ?R
  then obtain s fr d u t where "s \<in> set (idb_sessions db)" "ses_hash s = h" "ses_family s = f" "ses_generation s = g"
    "ses_revoked s = None" "now < ses_expires s" "joined f (ses_who s) db = Some (fr, d, u, t)" "live (fr, d, u, t)"
    by auto
  then show ?L unfolding accepts_def joined_Some[OF ok] live_def by auto
qed

lemma validate_iff:
  assumes ok: "idb_ok db"
  shows "\<not> isl (validate_public_token c now token db) \<longleftrightarrow> py_strip token \<noteq> [] \<and> (\<exists>f g. accepts now (cfg_hash c token) f g db)"
proof (cases "List.find (\<lambda>s. ses_hash s = cfg_hash c token) (idb_sessions db)")
  case None
  then have "\<not> accepts now (cfg_hash c token) f g db" for f g by (auto simp: accepts_def find_NoneI)
  with None show ?thesis by (simp add: validate_public_token_def)
next
  case (Some s)
  then have s: "s \<in> set (idb_sessions db)" "ses_hash s = cfg_hash c token"
    by (simp_all add: find_key[OF keys_okD(2)[OF ok]])
  have u: "s' = s" if "s' \<in> set (idb_sessions db)" "ses_hash s' = cfg_hash c token" for s'
    by (rule row_eq[OF keys_okD(2)[OF ok]]) (simp_all add: that s)
  obtain fr dr ur tr where j: "joined (ses_family s) (ses_who s) db = Some (fr, dr, ur, tr)"
    using session_rows[OF ok s(1)] .
  have "(\<exists>f g. accepts now (cfg_hash c token) f g db) \<longleftrightarrow>
      ses_revoked s = None \<and> now < ses_expires s \<and> live (fr, dr, ur, tr)"
    unfolding accepted_iff[OF ok] using s j u by (metis option.inject)
  with Some j show ?thesis by (auto simp: validate_public_token_def)
qed

section \<open>Movement\<close>

text \<open>The relation that a transaction with the fresh token hash \<open>h\<close> and the fresh family \<open>fm\<close> stays in.\<close>

definition moves :: "string \<Rightarrow> string \<Rightarrow> idb \<Rightarrow> idb \<Rightarrow> bool" where
  "moves h fm db db' =
     ((\<forall>now h' f g. h' \<noteq> h \<longrightarrow> accepts now h' f g db' \<longrightarrow> accepts now h' f g db) \<and>
      (\<forall>f'\<in>set (idb_families db'). fam_id f' = fm \<or>
         (\<exists>f\<in>set (idb_families db). fam_id f = fam_id f' \<and> fam_generation f \<le> fam_generation f')) \<and>
      (\<forall>s'\<in>set (idb_sessions db').
         (\<exists>s\<in>set (idb_sessions db). ses_hash s = ses_hash s' \<and> ses_family s = ses_family s' \<and> ses_generation s = ses_generation s') \<or>
         (ses_hash s' = h \<and> (ses_family s' = fm \<or>
            (\<exists>f\<in>set (idb_families db). fam_id f = ses_family s' \<and> fam_generation f < ses_generation s')))))"

lemma movesD:
  assumes "moves h fm db db'"
  shows "h' \<noteq> h \<Longrightarrow> accepts now h' f g db' \<Longrightarrow> accepts now h' f g db"
    "f' \<in> set (idb_families db') \<Longrightarrow> fam_id f' = fm \<or>
       (\<exists>f\<in>set (idb_families db). fam_id f = fam_id f' \<and> fam_generation f \<le> fam_generation f')"
    "s' \<in> set (idb_sessions db') \<Longrightarrow>
       (\<exists>s\<in>set (idb_sessions db). ses_hash s = ses_hash s' \<and> ses_family s = ses_family s' \<and> ses_generation s = ses_generation s') \<or>
       (ses_hash s' = h \<and> (ses_family s' = fm \<or>
          (\<exists>f\<in>set (idb_families db). fam_id f = ses_family s' \<and> fam_generation f < ses_generation s')))"
  using assms unfolding moves_def by blast+

lemma moves_refl [intro]: "moves h fm db db"
  unfolding moves_def by blast

lemma moves_trans:
  assumes 1: "moves h fm a b" and 2: "moves h fm b c"
  shows "moves h fm a c"
  unfolding moves_def
proof (intro conjI allI ballI impI)
  fix now h' f g
  assume "h' \<noteq> h" "accepts now h' f g c"
  then show "accepts now h' f g a" using movesD(1)[OF 1] movesD(1)[OF 2] by blast
next
  fix f' assume "f' \<in> set (idb_families c)"
  then show "fam_id f' = fm \<or> (\<exists>f\<in>set (idb_families a). fam_id f = fam_id f' \<and> fam_generation f \<le> fam_generation f')"
    using movesD(2)[OF 2] movesD(2)[OF 1] by (metis order_trans)
next
  fix s' assume "s' \<in> set (idb_sessions c)"
  from movesD(3)[OF 2 this]
  show "(\<exists>s\<in>set (idb_sessions a). ses_hash s = ses_hash s' \<and> ses_family s = ses_family s' \<and> ses_generation s = ses_generation s') \<or>
     (ses_hash s' = h \<and> (ses_family s' = fm \<or>
        (\<exists>f\<in>set (idb_families a). fam_id f = ses_family s' \<and> fam_generation f < ses_generation s')))"
  proof (elim disjE bexE conjE)
    fix s assume "s \<in> set (idb_sessions b)" "ses_hash s = ses_hash s'" "ses_family s = ses_family s'" "ses_generation s = ses_generation s'"
    with movesD(3)[OF 1] show ?thesis by metis
  next
    assume "ses_hash s' = h" "ses_family s' = fm"
    then show ?thesis by simp
  next
    fix f assume h: "ses_hash s' = h" and f: "f \<in> set (idb_families b)" "fam_id f = ses_family s'" "fam_generation f < ses_generation s'"
    from movesD(2)[OF 1 f(1)] f(2,3) h show ?thesis by (metis order_le_less_trans)
  qed
qed

text \<open>A transaction that only removes, revokes, or renumbers upwards.\<close>

definition narrows :: "idb \<Rightarrow> idb \<Rightarrow> bool" where
  "narrows db db' =
     ((\<forall>s'\<in>set (idb_sessions db'). \<exists>s\<in>set (idb_sessions db). ses_hash s = ses_hash s' \<and> ses_family s = ses_family s' \<and>
         ses_generation s = ses_generation s' \<and> ses_who s = ses_who s' \<and> ses_expires s = ses_expires s' \<and>
         (ses_revoked s' = None \<longrightarrow> ses_revoked s = None)) \<and>
      (\<forall>f'\<in>set (idb_families db'). \<exists>f\<in>set (idb_families db). fam_id f = fam_id f' \<and> fam_who f = fam_who f' \<and>
         fam_generation f \<le> fam_generation f' \<and> (fam_revoked f' = None \<longrightarrow> fam_revoked f = None)) \<and>
      (\<forall>d'\<in>set (idb_devices db'). \<exists>d\<in>set (idb_devices db). dvc_who d = dvc_who d' \<and> (dvc_revoked d' = None \<longrightarrow> dvc_revoked d = None)) \<and>
      set (idb_users db') \<subseteq> set (idb_users db) \<and> set (idb_tenants db') \<subseteq> set (idb_tenants db))"

lemma accepts_narrow:
  assumes n: "narrows db db'" and a: "accepts now h f g db'"
  shows "accepts now h f g db"
proof -
  obtain s' f' d' u' t' where s': "s' \<in> set (idb_sessions db')" "ses_hash s' = h" "ses_family s' = f" "ses_generation s' = g"
      "ses_revoked s' = None" "now < ses_expires s'"
    and f': "f' \<in> set (idb_families db')" "fam_id f' = f" "fam_who f' = ses_who s'" "fam_revoked f' = None"
    and d': "d' \<in> set (idb_devices db')" "dvc_who d' = ses_who s'" "dvc_revoked d' = None"
    and u': "u' \<in> set (idb_users db')" "usr_key u' = account_of (ses_who s')" "usr_active u'"
    and t': "t' \<in> set (idb_tenants db')" "tnt_id t' = fst (ses_who s')" "tnt_active t'"
    using a unfolding accepts_def by blast
  obtain s where "s \<in> set (idb_sessions db)" "ses_hash s = h" "ses_family s = f" "ses_generation s = g"
      "ses_revoked s = None" "now < ses_expires s" "ses_who s = ses_who s'"
    using n s' unfolding narrows_def by metis
  moreover obtain fr where "fr \<in> set (idb_families db)" "fam_id fr = f" "fam_who fr = ses_who s'" "fam_revoked fr = None"
    using n f' unfolding narrows_def by metis
  moreover obtain d where "d \<in> set (idb_devices db)" "dvc_who d = ses_who s'" "dvc_revoked d = None"
    using n d' unfolding narrows_def by metis
  moreover have "u' \<in> set (idb_users db)" "t' \<in> set (idb_tenants db)" using n u'(1) t'(1) unfolding narrows_def by auto
  ultimately show ?thesis using u' t' unfolding accepts_def by metis
qed

lemma narrows_moves: "narrows db db' \<Longrightarrow> moves h fm db db'"
  unfolding moves_def by (intro conjI allI ballI impI) (auto intro: accepts_narrow, auto simp: narrows_def)

lemma narrows_refl [intro]: "narrows db db"
  unfolding narrows_def by blast

lemma narrows_trans:
  assumes "narrows a b" "narrows b c"
  shows "narrows a c"
  using assms unfolding narrows_def
  by (intro conjI ballI) (metis, metis order_trans, metis, blast, blast)

lemma in_update_where: "x \<in> set (update_where p f rs) \<longleftrightarrow> (\<exists>r\<in>set rs. x = (if p r then f r else r))"
  by (auto simp: update_where_def)

lemma update_where_source:
  "x \<in> set (update_where p f rs) \<Longrightarrow> (\<And>r. r \<in> set rs \<Longrightarrow> R r (if p r then f r else r)) \<Longrightarrow> \<exists>r\<in>set rs. R r x"
  unfolding in_update_where by metis

lemma map_update_where: "(\<And>r. k (f r) = k r) \<Longrightarrow> map k (update_where p f rs) = map k rs"
  by (auto simp: update_where_def)

section \<open>The writes keep the invariant and move\<close>

definition keeps :: "string \<Rightarrow> string \<Rightarrow> idb \<Rightarrow> idb \<Rightarrow> bool" where
  "keeps h fm db db' = (idb_ok db \<longrightarrow> idb_ok db' \<and> moves h fm db db')"

lemma keeps_refl [intro]: "keeps h fm db db"
  by (auto simp: keeps_def)

lemma keeps_trans: "keeps h fm a b \<Longrightarrow> keeps h fm b c \<Longrightarrow> keeps h fm a c"
  unfolding keeps_def by (blast intro: moves_trans)

lemma keepsI: "(idb_ok db \<Longrightarrow> idb_ok db') \<Longrightarrow> (idb_ok db \<Longrightarrow> moves h fm db db') \<Longrightarrow> keeps h fm db db'"
  by (simp add: keeps_def)

text \<open>Writes to other tables.\<close>

definition same_rows :: "idb \<Rightarrow> idb \<Rightarrow> bool" where
  "same_rows db db' = (idb_sessions db' = idb_sessions db \<and> idb_families db' = idb_families db \<and>
     idb_devices db' = idb_devices db \<and> idb_users db' = idb_users db \<and> idb_tenants db' = idb_tenants db)"

lemma keeps_same: "same_rows db db' \<Longrightarrow> keeps h fm db db'"
  by (rule keepsI)
    (auto simp: same_rows_def idb_ok_def keys_ok_def refs_ok_def gens_ok_def narrows_def intro!: narrows_moves)

lemma same_rows_writes:
  "same_rows db (revoke_credentials now cp db)"
  "same_rows db (prune_admissions pol now db)"
  "same_rows db (add_admission eh ph now db)"
  "same_rows db (db\<lparr>idb_credentials := cs\<rparr>)"
  "same_rows db (db\<lparr>idb_enrollments := es\<rparr>)"
  "same_rows db (db\<lparr>idb_tickets := ts\<rparr>)"
  "same_rows db (db\<lparr>idb_syncs := ss\<rparr>)"
  "same_rows db (db\<lparr>idb_pairings := ps\<rparr>)"
  by (simp_all add: same_rows_def revoke_credentials_def prune_admissions_def add_admission_def)

lemmas keeps_writes = same_rows_writes[THEN keeps_same]

lemma gens_okD:
  assumes "idb_ok db"
  shows "s \<in> set (idb_sessions db) \<Longrightarrow> \<exists>f\<in>set (idb_families db). in_family s f"
    "s \<in> set (idb_sessions db) \<Longrightarrow> s' \<in> set (idb_sessions db) \<Longrightarrow> ses_revoked s = None \<Longrightarrow> ses_revoked s' = None \<Longrightarrow>
       ses_family s = ses_family s' \<Longrightarrow> s = s'"
  using assms by (auto simp: idb_ok_def gens_ok_def)

lemma narrows_revoke_sessions: "narrows db (revoke_sessions now p db)"
  unfolding narrows_def revoke_sessions_def by (auto simp: in_update_where split: if_splits) blast+

lemma ok_revoke_sessions:
  assumes ok: "idb_ok db"
  shows "idb_ok (revoke_sessions now p db)"
proof -
  have "gens_ok (revoke_sessions now p db)"
    unfolding gens_ok_def revoke_sessions_def
    using gens_okD[OF ok] by (fastforce simp: in_update_where in_family_def split: if_splits)
  then show ?thesis using ok
    by (auto simp: idb_ok_def keys_ok_def refs_ok_def revoke_sessions_def map_update_where)
qed

lemma keeps_revoke_sessions: "keeps h fm db (revoke_sessions now p db)"
  by (rule keepsI) (auto intro: ok_revoke_sessions narrows_moves narrows_revoke_sessions)

text \<open>Families renumbered or revoked: keys stay, and numbers move only where no session is open.\<close>

lemma keeps_family_update:
  assumes same: "\<And>r. fam_id (f r) = fam_id r \<and> fam_who (f r) = fam_who r \<and> (fam_revoked (f r) = None \<longrightarrow> fam_revoked r = None)"
    and up: "\<And>r s. idb_ok db \<Longrightarrow> r \<in> set (idb_families db) \<Longrightarrow> p r \<Longrightarrow> fam_generation r \<le> fam_generation (f r) \<and>
      (s \<in> set (idb_sessions db) \<longrightarrow> ses_family s = fam_id r \<longrightarrow> ses_revoked s = None \<longrightarrow> fam_generation (f r) = fam_generation r)"
  shows "keeps h fm db (db\<lparr>idb_families := update_where p f (idb_families db)\<rparr>)"
proof (rule keepsI)
  assume ok: "idb_ok db"
  let ?db' = "db\<lparr>idb_families := update_where p f (idb_families db)\<rparr>"
  have "keys_ok ?db'" using ok same by (simp add: idb_ok_def keys_ok_def map_update_where)
  moreover have "refs_ok ?db'" using ok same by (auto simp: idb_ok_def refs_ok_def in_update_where split: if_splits)
  moreover have "\<exists>x\<in>set (idb_families ?db'). in_family s x" if s: "s \<in> set (idb_sessions db)" for s
  proof -
    obtain r where r: "r \<in> set (idb_families db)" "in_family s r" using gens_okD(1)[OF ok s] by blast
    let ?r = "if p r then f r else r"
    have "in_family s ?r" using r same[of r] up[OF ok r(1), of s] s by (auto simp: in_family_def)
    moreover have "?r \<in> set (idb_families ?db')" using r(1) by (auto simp: in_update_where)
    ultimately show ?thesis by blast
  qed
  ultimately show "idb_ok ?db'" using ok by (simp add: idb_ok_def gens_ok_def)
  have "\<exists>x\<in>set (idb_families db). fam_id x = fam_id f' \<and> fam_who x = fam_who f' \<and> fam_generation x \<le> fam_generation f' \<and>
      (fam_revoked f' = None \<longrightarrow> fam_revoked x = None)" if "f' \<in> set (idb_families ?db')" for f'
  proof (rule update_where_source)
    show "f' \<in> set (update_where p f (idb_families db))" using that by simp
  qed (use same up[OF ok] in auto)
  then show "moves h fm db ?db'" by (intro narrows_moves) (auto simp: narrows_def)
qed

lemma keeps_revoke_families: "keeps h fm db (revoke_families now p db)"
  unfolding revoke_families_def by (rule keeps_family_update) simp_all

lemma keeps_next_generation:
  assumes "\<And>r s. idb_ok db \<Longrightarrow> r \<in> set (idb_families db) \<Longrightarrow> p r \<Longrightarrow> fam_generation r \<le> g \<and>
    (s \<in> set (idb_sessions db) \<longrightarrow> ses_family s = fam_id r \<longrightarrow> ses_revoked s \<noteq> None)"
  shows "keeps h fm db (next_generation now g p db)"
  unfolding next_generation_def by (rule keeps_family_update) (use assms in \<open>auto, blast+\<close>)

lemma keeps_device_update:
  assumes "\<And>r. dvc_who (f r) = dvc_who r \<and> (dvc_revoked (f r) = None \<longrightarrow> dvc_revoked r = None)"
  shows "keeps h fm db (db\<lparr>idb_devices := update_where p f (idb_devices db)\<rparr>)"
proof (rule keepsI)
  assume ok: "idb_ok db"
  let ?db' = "db\<lparr>idb_devices := update_where p f (idb_devices db)\<rparr>"
  have w: "map dvc_who (idb_devices ?db') = map dvc_who (idb_devices db)" using assms by (simp add: map_update_where)
  then have i: "dvc_who ` set (idb_devices ?db') = dvc_who ` set (idb_devices db)" by (metis set_map)
  have "\<forall>d\<in>set (idb_devices ?db'). account_of (dvc_who d) \<in> usr_key ` set (idb_users db)"
    using refs_okD(2)[OF ok] i by (metis (no_types, lifting) imageE imageI)
  then show "idb_ok ?db'" using ok w i by (simp add: idb_ok_def keys_ok_def refs_ok_def gens_ok_def)
  have "\<exists>d\<in>set (idb_devices db). dvc_who d = dvc_who d' \<and> (dvc_revoked d' = None \<longrightarrow> dvc_revoked d = None)"
    if "d' \<in> set (idb_devices ?db')" for d'
  proof (rule update_where_source)
    show "d' \<in> set (update_where p f (idb_devices db))" using that by simp
  qed (use assms in auto)
  then show "moves h fm db ?db'" by (intro narrows_moves) (auto simp: narrows_def)
qed

lemma keeps_touch_device: "keeps h fm db (touch_device now w db)"
  unfolding touch_device_def by (rule keeps_device_update) simp

lemma in_delete_sessions:
  "s' \<in> set (idb_sessions (delete_sessions p db)) \<Longrightarrow>
     \<exists>s\<in>set (idb_sessions db). \<not> p s \<and> (s' = s \<or> s' = s\<lparr>ses_from := None\<rparr>)"
  by (auto simp: delete_sessions_def Let_def in_update_where split: if_splits)

lemma delete_sessions_rows [simp]:
  "idb_families (delete_sessions p db) = idb_families db" "idb_devices (delete_sessions p db) = idb_devices db"
  "idb_users (delete_sessions p db) = idb_users db" "idb_tenants (delete_sessions p db) = idb_tenants db"
  "idb_credentials (delete_sessions p db) = idb_credentials db" "idb_enrollments (delete_sessions p db) = idb_enrollments db"
  "idb_admissions (delete_sessions p db) = idb_admissions db" "idb_next (delete_sessions p db) = idb_next db"
  by (simp_all add: delete_sessions_def Let_def)

lemma ok_delete_sessions:
  assumes ok: "idb_ok db"
  shows "idb_ok (delete_sessions p db)"
proof -
  let ?db' = "delete_sessions p db"
  have k: "map k (idb_sessions ?db') = map k (filter (\<lambda>r. \<not> p r) (idb_sessions db))"
    if "\<And>r. k (r\<lparr>ses_from := None\<rparr>) = k r" for k :: "session_row \<Rightarrow> string"
    using that by (simp add: delete_sessions_def Let_def map_update_where)
  have "keys_ok ?db'"
    using keys_okD[OF ok] by (simp add: keys_ok_def k distinct_map_filter)
  moreover have "refs_ok ?db'" using ok by (simp add: idb_ok_def refs_ok_def)
  moreover have "\<exists>f\<in>set (idb_families ?db'). in_family s f" if "s \<in> set (idb_sessions ?db')" for s
    using in_delete_sessions[OF that] gens_okD(1)[OF ok] by (fastforce simp: in_family_def)
  moreover have "s = s'" if s: "s \<in> set (idb_sessions ?db')" "s' \<in> set (idb_sessions ?db')"
    and r: "ses_revoked s = None" "ses_revoked s' = None" "ses_family s = ses_family s'" for s s'
  proof (rule row_eq[OF _ s, where k = ses_id])
    show "distinct (map ses_id (idb_sessions ?db'))" using \<open>keys_ok ?db'\<close> by (simp add: keys_ok_def)
    obtain a where a: "a \<in> set (idb_sessions db)" "s = a \<or> s = a\<lparr>ses_from := None\<rparr>" using in_delete_sessions[OF s(1)] by blast
    obtain b where b: "b \<in> set (idb_sessions db)" "s' = b \<or> s' = b\<lparr>ses_from := None\<rparr>" using in_delete_sessions[OF s(2)] by blast
    have "a = b" by (rule gens_okD(2)[OF ok a(1) b(1)]) (use a(2) b(2) r in auto)
    then show "ses_id s = ses_id s'" using a(2) b(2) by auto
  qed
  ultimately show ?thesis unfolding idb_ok_def gens_ok_def by blast
qed

lemma narrows_delete_sessions: "narrows db (delete_sessions p db)"
  unfolding narrows_def by (auto dest!: in_delete_sessions)

lemma keeps_delete_sessions: "keeps h fm db (delete_sessions p db)"
  by (rule keepsI) (auto intro: ok_delete_sessions narrows_moves narrows_delete_sessions)

section \<open>Removing orphans\<close>

lemma ok_remove_account:
  assumes ok: "idb_ok db" and free: "\<not> list_ex (\<lambda>r. account_of (dvc_who r) = a) (idb_devices db)"
  shows "idb_ok (remove_account a db)"
proof -
  have "\<exists>u\<in>set (idb_users db). usr_key u = account_of (dvc_who d) \<and> usr_key u \<noteq> a" if "d \<in> set (idb_devices db)" for d
    using refs_okD(2)[OF ok that] that free by (auto simp: list_ex_iff image_iff)
  moreover have "\<exists>t\<in>set (idb_tenants db). tnt_id t = fst (usr_key u)" if "u \<in> set (idb_users db)" for u
    using refs_okD(3)[OF ok that] by auto
  ultimately have "refs_ok (remove_account a db)"
    using refs_okD(1)[OF ok] by (fastforce simp: refs_ok_def remove_account_def Let_def list_ex_iff image_iff)
  then show ?thesis
    using ok by (simp add: idb_ok_def keys_ok_def gens_ok_def remove_account_def Let_def distinct_map_filter)
qed

lemma keeps_remove_account:
  "\<not> list_ex (\<lambda>r. account_of (dvc_who r) = a) (idb_devices db) \<Longrightarrow> keeps h fm db (remove_account a db)"
  by (rule keepsI, erule (1) ok_remove_account[rotated])
    (auto intro!: narrows_moves simp: narrows_def remove_account_def Let_def)

text \<open>A family without sessions, and a device that no family uses, may go.\<close>

lemma keeps_drop_family:
  assumes "\<And>s. idb_ok db \<Longrightarrow> s \<in> set (idb_sessions db) \<Longrightarrow> ses_family s \<noteq> f"
  shows "keeps h fm db (db\<lparr>idb_families := filter (\<lambda>r. fam_id r \<noteq> f) (idb_families db)\<rparr>)"
proof (rule keepsI)
  assume ok: "idb_ok db"
  have "\<exists>x\<in>set (filter (\<lambda>r. fam_id r \<noteq> f) (idb_families db)). in_family s x" if s: "s \<in> set (idb_sessions db)" for s
    using gens_okD(1)[OF ok s] assms[OF ok s] by (auto simp: in_family_def)
  then show "idb_ok (db\<lparr>idb_families := filter (\<lambda>r. fam_id r \<noteq> f) (idb_families db)\<rparr>)"
    using ok by (simp add: idb_ok_def keys_ok_def refs_ok_def gens_ok_def distinct_map_filter)
  show "moves h fm db (db\<lparr>idb_families := filter (\<lambda>r. fam_id r \<noteq> f) (idb_families db)\<rparr>)"
    by (intro narrows_moves) (auto simp: narrows_def)
qed

lemma keeps_drop_device:
  assumes "\<not> list_ex (\<lambda>r. fam_who r = w) (idb_families db)"
  shows "keeps h fm db (db\<lparr>idb_devices := filter (\<lambda>r. dvc_who r \<noteq> w) (idb_devices db)\<rparr>)"
proof (rule keepsI)
  assume ok: "idb_ok db"
  have "\<exists>d\<in>set (filter (\<lambda>r. dvc_who r \<noteq> w) (idb_devices db)). fam_who f = dvc_who d" if f: "f \<in> set (idb_families db)" for f
    using refs_okD(1)[OF ok f] assms f by (auto simp: list_ex_iff)
  then show "idb_ok (db\<lparr>idb_devices := filter (\<lambda>r. dvc_who r \<noteq> w) (idb_devices db)\<rparr>)"
    using ok by (auto simp: idb_ok_def keys_ok_def refs_ok_def gens_ok_def distinct_map_filter image_iff)
  show "moves h fm db (db\<lparr>idb_devices := filter (\<lambda>r. dvc_who r \<noteq> w) (idb_devices db)\<rparr>)"
    by (intro narrows_moves) (auto simp: narrows_def)
qed

lemma keeps_remove_orphan:
  assumes "remove_orphan en db = Inr db'"
  shows "keeps h fm db db'"
proof -
  let ?f = "enr_family en" and ?w = "enr_who en"
  let ?d1 = "delete_sessions (\<lambda>r. ses_family r = ?f) db"
  let ?d2 = "?d1\<lparr>idb_credentials := filter (\<lambda>r. crd_family r \<noteq> ?f) (idb_credentials ?d1),
    idb_enrollments := filter (\<lambda>r. enr_id r \<noteq> enr_id en) (idb_enrollments ?d1)\<rparr>"
  let ?d3 = "?d2\<lparr>idb_families := filter (\<lambda>r. fam_id r \<noteq> ?f) (idb_families ?d2)\<rparr>"
  let ?d4 = "?d3\<lparr>idb_devices := filter (\<lambda>r. dvc_who r \<noteq> ?w) (idb_devices ?d3)\<rparr>"
  have use: "\<not> device_in_use ?w ?d3"
    and out: "db' = (if list_ex (\<lambda>r. account_of (dvc_who r) = account_of ?w) (idb_devices ?d4) then ?d4
      else remove_account (account_of ?w) ?d4)"
    using assms by (auto simp: remove_orphan_def Let_def bindE_Inr_iff)
  have "keeps h fm db ?d1" by (rule keeps_delete_sessions)
  moreover have "keeps h fm ?d1 ?d2" by (rule keeps_same) (simp add: same_rows_def)
  moreover have "keeps h fm ?d2 ?d3"
    by (rule keeps_drop_family) (auto dest!: in_delete_sessions)
  moreover have "keeps h fm ?d3 ?d4"
    by (rule keeps_drop_device) (use use in \<open>simp add: device_in_use_def\<close>)
  moreover have "keeps h fm ?d4 db'" unfolding out by (auto intro: keeps_remove_account)
  ultimately show ?thesis by (blast intro: keeps_trans)
qed

lemma keeps_remove_orphans:
  "remove_orphans limit ens n db = Inr (m, db') \<Longrightarrow> keeps h fm db db'"
  by (induction limit ens n db arbitrary: m db' rule: remove_orphans.induct)
    (auto simp: bindE_Inr_iff split: if_splits intro: keeps_trans keeps_remove_orphan)

lemma keeps_cleanup: "cleanup_orphaned pol now db = Inr (n, db') \<Longrightarrow> keeps h fm db db'"
  unfolding cleanup_orphaned_def by (rule keeps_remove_orphans)

section \<open>Inserts\<close>

lemma moves_grow:
  assumes ok: "idb_ok db" and s: "idb_sessions db' = idb_sessions db"
    and f: "\<And>f. f \<in> set (idb_families db') \<Longrightarrow> f \<in> set (idb_families db) \<or> (fam_id f = fm \<and> fm \<notin> fam_id ` set (idb_families db))"
    and d: "\<And>d. d \<in> set (idb_devices db') \<Longrightarrow> d \<in> set (idb_devices db) \<or> dvc_who d \<notin> dvc_who ` set (idb_devices db)"
    and u: "\<And>u. u \<in> set (idb_users db') \<Longrightarrow> u \<in> set (idb_users db) \<or> usr_key u \<notin> usr_key ` set (idb_users db)"
    and t: "\<And>t. t \<in> set (idb_tenants db') \<Longrightarrow> t \<in> set (idb_tenants db) \<or> tnt_id t \<notin> tnt_id ` set (idb_tenants db)"
  shows "moves h fm db db'"
proof -
  have "accepts now h' fa g db" if "accepts now h' fa g db'" for now h' fa g
  proof -
    from that obtain s fr dr ur tr where s1: "s \<in> set (idb_sessions db)" "ses_hash s = h'" "ses_family s = fa"
        "ses_generation s = g" "ses_revoked s = None" "now < ses_expires s"
      and r: "fr \<in> set (idb_families db')" "fam_id fr = fa" "fam_who fr = ses_who s" "fam_revoked fr = None"
        "dr \<in> set (idb_devices db')" "dvc_who dr = ses_who s" "dvc_revoked dr = None"
        "ur \<in> set (idb_users db')" "usr_key ur = account_of (ses_who s)" "usr_active ur"
        "tr \<in> set (idb_tenants db')" "tnt_id tr = fst (ses_who s)" "tnt_active tr"
      unfolding accepts_def s by blast
    obtain f0 d0 u0 t0 where "joined (ses_family s) (ses_who s) db = Some (f0, d0, u0, t0)" using session_rows[OF ok s1(1)] .
    note j = this[unfolded joined_Some[OF ok]]
    have "fr \<in> set (idb_families db)" using f[OF r(1)] r(2) s1(3) j by (metis imageI)
    moreover have "dr \<in> set (idb_devices db)" using d[OF r(5)] r(6) j by (metis imageI)
    moreover have "ur \<in> set (idb_users db)" using u[OF r(8)] r(9) j by (metis imageI)
    moreover have "tr \<in> set (idb_tenants db)" using t[OF r(11)] r(12) j by (metis imageI)
    ultimately show ?thesis using s1 r unfolding accepts_def by blast
  qed
  then show ?thesis unfolding moves_def s using f by blast
qed

lemma at_None:
  "tenant_at t db = None \<longleftrightarrow> t \<notin> tnt_id ` set (idb_tenants db)"
  "user_at a db = None \<longleftrightarrow> a \<notin> usr_key ` set (idb_users db)"
  "device_at w db = None \<longleftrightarrow> w \<notin> dvc_who ` set (idb_devices db)"
  "family_at f w db = None \<longleftrightarrow> \<not> (\<exists>r\<in>set (idb_families db). fam_id r = f \<and> fam_who r = w)"
  by (auto simp: tenant_at_def user_at_def device_at_def family_at_def find_NoneI)

lemma keeps_insert_tenant:
  assumes i: "insert_tenant t db = Inr db'"
  shows "keeps h fm db db'"
proof (rule keepsI)
  assume ok: "idb_ok db"
  show "idb_ok db'"
    using ok i by (auto simp: insert_tenant_def at_None idb_ok_def keys_ok_def refs_ok_def gens_ok_def split: if_splits)
  show "moves h fm db db'"
    by (rule moves_grow[OF ok]) (use i in \<open>auto simp: insert_tenant_def at_None split: if_splits\<close>)
qed

lemma keeps_insert_user:
  assumes i: "insert_user a db = Inr db'"
  shows "keeps h fm db db'"
proof (rule keepsI)
  assume ok: "idb_ok db"
  show "idb_ok db'"
    using ok i by (auto simp: insert_user_def at_None idb_ok_def keys_ok_def refs_ok_def gens_ok_def split: if_splits)
  show "moves h fm db db'"
    by (rule moves_grow[OF ok]) (use i in \<open>auto simp: insert_user_def at_None split: if_splits\<close>)
qed

lemma keeps_insert_device:
  assumes i: "insert_device w name now db = Inr db'"
  shows "keeps h fm db db'"
proof (rule keepsI)
  assume ok: "idb_ok db"
  show "idb_ok db'"
    using ok i by (auto simp: insert_device_def at_None idb_ok_def keys_ok_def refs_ok_def gens_ok_def split: if_splits)
  show "moves h fm db db'"
    by (rule moves_grow[OF ok]) (use i in \<open>auto simp: insert_device_def at_None split: if_splits\<close>)
qed

lemma keeps_insert_family:
  assumes i: "insert_family fm w now db = Inr db'"
  shows "keeps h fm db db'"
proof (rule keepsI)
  assume ok: "idb_ok db"
  show "idb_ok db'"
    using ok i by (auto simp: insert_family_def at_None idb_ok_def keys_ok_def refs_ok_def gens_ok_def list_ex_iff split: if_splits)
  show "moves h fm db db'"
    by (rule moves_grow[OF ok]) (use i in \<open>auto simp: insert_family_def at_None list_ex_iff split: if_splits\<close>)
qed

text \<open>What inserting the other rows adds.\<close>

lemma insert_family_Inr:
  assumes "insert_family f w now db = Inr db'"
  obtains row where "idb_families db' = idb_families db @ [row]" "fam_generation row = 0"
    "\<forall>r\<in>set (idb_families db). fam_id r \<noteq> f"
proof
  show "idb_families db' = idb_families db @ [\<lparr>fam_id = f, fam_who = w, fam_created = now, fam_renewed = now,
      fam_generation = 0, fam_revoked = None\<rparr>]" "\<forall>r\<in>set (idb_families db). fam_id r \<noteq> f"
    using assms by (auto simp: insert_family_def list_ex_iff split: if_splits)
qed simp

lemma same_rows_credential: "put_credential row db = Inr db' \<Longrightarrow> same_rows db db'"
  by (auto simp: put_credential_def same_rows_def split: if_splits)

lemma same_rows_insert_credential: "insert_credential c e w f ttl secret db = Inr (x, db') \<Longrightarrow> same_rows db db'"
  by (auto simp: insert_credential_def Let_def bindE_Inr_iff intro: same_rows_credential)

lemma same_rows_enrollment: "insert_enrollment row db = Inr db' \<Longrightarrow> same_rows db db'"
  by (auto simp: insert_enrollment_def same_rows_def split: if_splits)

text \<open>What inserting a session adds.\<close>

lemma insert_session_Inr:
  assumes "insert_session c e w f g ttl from db = Inr (s, db')"
  obtains row where "db' = db\<lparr>idb_sessions := idb_sessions db @ [row]\<rparr>" "ses_id row = new_session e"
    "ses_hash row = cfg_hash c (new_token e)" "ses_who row = w" "ses_family row = f" "ses_generation row = g"
    "ses_revoked row = None" "ses_expires row = env_now e + ttl"
    "\<And>r. r \<in> set (idb_sessions db) \<Longrightarrow> ses_id r \<noteq> new_session e \<and> ses_hash r \<noteq> cfg_hash c (new_token e) \<and>
       (ses_family r = f \<longrightarrow> ses_revoked r \<noteq> None)"
    "\<exists>fr\<in>set (idb_families db). fam_id fr = f \<and> fam_who fr = w"
    "s = \<lparr>iss_token = new_token e,
       iss_principal = \<lparr>pri_who = w, pri_session = new_session e, pri_public = True, pri_family = Some f\<rparr>,
       iss_expires = env_now e + ttl\<rparr>"
proof
  show "db' = db\<lparr>idb_sessions := idb_sessions db @ [\<lparr>ses_id = new_session e, ses_hash = cfg_hash c (new_token e), ses_who = w,
      ses_issued = env_now e, ses_expires = env_now e + ttl, ses_revoked = None, ses_family = f, ses_generation = g, ses_from = from\<rparr>]\<rparr>"
    "\<exists>fr\<in>set (idb_families db). fam_id fr = f \<and> fam_who fr = w"
    "s = \<lparr>iss_token = new_token e,
       iss_principal = \<lparr>pri_who = w, pri_session = new_session e, pri_public = True, pri_family = Some f\<rparr>,
       iss_expires = env_now e + ttl\<rparr>"
    using assms by (auto simp: insert_session_def Let_def at_None split: if_splits)
  show "ses_id r \<noteq> new_session e \<and> ses_hash r \<noteq> cfg_hash c (new_token e) \<and> (ses_family r = f \<longrightarrow> ses_revoked r \<noteq> None)"
    if "r \<in> set (idb_sessions db)" for r
    using assms that by (auto simp: insert_session_def Let_def list_ex_iff split: if_splits)
qed simp_all

lemma keeps_insert_session:
  assumes k: "keeps (cfg_hash c (new_token e)) fm db0 db"
    and ins: "insert_session c e w f g ttl from db = Inr (s, db')"
    and new: "idb_ok db0 \<Longrightarrow> f = fm \<or> (\<exists>fr\<in>set (idb_families db0). fam_id fr = f \<and> fam_generation fr < g)"
    and gen: "\<And>fr. idb_ok db0 \<Longrightarrow> fr \<in> set (idb_families db) \<Longrightarrow> fam_id fr = f \<Longrightarrow> fam_generation fr = g"
  shows "keeps (cfg_hash c (new_token e)) fm db0 db'"
proof (rule keepsI)
  let ?h = "cfg_hash c (new_token e)"
  obtain row where row: "db' = db\<lparr>idb_sessions := idb_sessions db @ [row]\<rparr>" "ses_id row = new_session e" "ses_hash row = ?h"
      "ses_who row = w" "ses_family row = f" "ses_generation row = g" "ses_revoked row = None"
    and old: "\<And>r. r \<in> set (idb_sessions db) \<Longrightarrow> ses_id r \<noteq> new_session e \<and> ses_hash r \<noteq> ?h \<and> (ses_family r = f \<longrightarrow> ses_revoked r \<noteq> None)"
    and fam: "\<exists>fr\<in>set (idb_families db). fam_id fr = f \<and> fam_who fr = w"
    using insert_session_Inr[OF ins] by metis
  assume ok0: "idb_ok db0"
  with k have ok: "idb_ok db" and m: "moves ?h fm db0 db" by (auto simp: keeps_def)
  have "new_session e \<notin> ses_id ` set (idb_sessions db)" "?h \<notin> ses_hash ` set (idb_sessions db)" by (auto dest: old)
  then have "keys_ok db'" using keys_okD[OF ok] row by (simp add: keys_ok_def)
  moreover have "refs_ok db'" using ok row(1) by (simp add: idb_ok_def refs_ok_def)
  moreover have "\<exists>x\<in>set (idb_families db). in_family row x" using fam gen[OF ok0] row by (auto simp: in_family_def)
  moreover have F: "False" if "r \<in> set (idb_sessions db)" "ses_revoked r = None" "ses_family r = ses_family row" for r
    using old[OF that(1)] that(2,3) row(5) by simp
  moreover have "a = b" if ab: "a \<in> set (idb_sessions db')" "b \<in> set (idb_sessions db')"
      and u: "ses_revoked a = None" "ses_revoked b = None" "ses_family a = ses_family b" for a b
  proof (cases "a = row \<or> b = row")
    case True
    then show ?thesis using ab u F[of a] F[of b] by (auto simp: row(1))
  next
    case False
    then have "a \<in> set (idb_sessions db)" "b \<in> set (idb_sessions db)" using ab by (simp_all add: row(1))
    then show ?thesis by (rule gens_okD(2)[OF ok]) (rule u)+
  qed
  moreover have "\<exists>f\<in>set (idb_families db'). in_family a f" if "a \<in> set (idb_sessions db')" for a
  proof (cases "a = row")
    case True
    then show ?thesis using calculation(3) by (simp add: row(1))
  next
    case False
    then have "a \<in> set (idb_sessions db)" using that by (simp add: row(1))
    then show ?thesis using gens_okD(1)[OF ok] by (simp add: row(1))
  qed
  ultimately show "idb_ok db'" unfolding idb_ok_def gens_ok_def by blast
  have a: "accepts now h' f' g' db" if "h' \<noteq> ?h" "accepts now h' f' g' db'" for now h' f' g'
    using that row unfolding accepts_def by auto
  show "moves ?h fm db0 db'"
    unfolding moves_def
  proof (intro conjI allI ballI impI)
    fix now h' f' g' assume "h' \<noteq> ?h" "accepts now h' f' g' db'"
    then show "accepts now h' f' g' db0" using movesD(1)[OF m] a by blast
  next
    fix f' assume "f' \<in> set (idb_families db')"
    then show "fam_id f' = fm \<or> (\<exists>f\<in>set (idb_families db0). fam_id f = fam_id f' \<and> fam_generation f \<le> fam_generation f')"
      using movesD(2)[OF m] row(1) by simp
  next
    fix s' assume "s' \<in> set (idb_sessions db')"
    then consider "s' \<in> set (idb_sessions db)" | "s' = row" using row(1) by auto
    then show "(\<exists>s\<in>set (idb_sessions db0). ses_hash s = ses_hash s' \<and> ses_family s = ses_family s' \<and> ses_generation s = ses_generation s') \<or>
       ses_hash s' = ?h \<and> (ses_family s' = fm \<or> (\<exists>f\<in>set (idb_families db0). fam_id f = ses_family s' \<and> fam_generation f < ses_generation s'))"
      by cases (use movesD(3)[OF m] row new[OF ok0] in auto)
  qed
qed

section \<open>The operations\<close>

lemma find_credential_row:
  assumes ok: "idb_ok db" and f: "find_credential c now cred db = Inr (r, g)"
  shows "r \<in> set (idb_credentials db)" "crd_hash r = cfg_hash c cred" "crd_revoked r = None" "now < crd_expires r"
    "\<exists>j. joined (crd_family r) (crd_who r) db = Some j \<and> live j \<and> fam_generation (fst j) = g"
proof -
  obtain r0 j where r: "List.find (\<lambda>r. crd_hash r = cfg_hash c cred) (idb_credentials db) = Some r0"
      "joined (crd_family r0) (crd_who r0) db = Some j" "live j" "crd_revoked r0 = None" "now < crd_expires r0"
      "r0 = r" "fam_generation (fst j) = g"
    using f by (auto simp: find_credential_def assert_credential_row_def split: if_splits option.splits)
  then show "r \<in> set (idb_credentials db)" "crd_hash r = cfg_hash c cred" "crd_revoked r = None" "now < crd_expires r"
    "\<exists>j. joined (crd_family r) (crd_who r) db = Some j \<and> live j \<and> fam_generation (fst j) = g"
    by (auto simp: find_Some_iff)
qed

lemma find_credential_family:
  assumes ok: "idb_ok db" and f: "find_credential c now cred db = Inr row"
  obtains fr where "fr \<in> set (idb_families db)" "fam_id fr = crd_family (fst row)" "fam_who fr = crd_who (fst row)"
    "fam_generation fr = snd row" "fam_revoked fr = None"
proof -
  obtain r g where row: "row = (r, g)" by (cases row)
  obtain j where "joined (crd_family r) (crd_who r) db = Some j" "live j" "fam_generation (fst j) = g"
    using find_credential_row(5)[OF ok f[unfolded row]] by blast
  then show ?thesis using that by (cases j) (auto simp: row live_def joined_Some[OF ok])
qed

lemma revoked_sessions_gone:
  assumes "s \<in> set (idb_sessions (revoke_sessions now p db))" "ses_revoked s = None"
  shows "s \<in> set (idb_sessions db) \<and> \<not> p s"
proof -
  obtain r where "r \<in> set (idb_sessions db)" "s = (if p r \<and> ses_revoked r = None then r\<lparr>ses_revoked := Some now\<rparr> else r)"
    using assms(1) by (auto simp: revoke_sessions_def in_update_where)
  with assms(2) show ?thesis by (auto split: if_splits)
qed

text \<open>Closing the sessions of a family and numbering it up, the steps before a renewed session.\<close>

lemma keeps_close_and_number:
  assumes "\<And>r. idb_ok db \<Longrightarrow> r \<in> set (idb_families db) \<Longrightarrow> q r \<Longrightarrow> fam_id r = f \<and> fam_generation r \<le> g"
  shows "keeps h fm db (next_generation now g q (revoke_sessions now (\<lambda>s. ses_family s = f) db))"
proof (cases "idb_ok db")
  case False
  then show ?thesis by (simp add: keeps_def)
next
  case True
  show ?thesis
  proof (rule keeps_trans[OF keeps_revoke_sessions keeps_next_generation])
    fix r s assume r: "r \<in> set (idb_families (revoke_sessions now (\<lambda>s. ses_family s = f) db))" "q r"
    then have "fam_id r = f" "fam_generation r \<le> g" using assms[OF True] by (auto simp: revoke_sessions_def)
    then show "fam_generation r \<le> g \<and> (s \<in> set (idb_sessions (revoke_sessions now (\<lambda>s. ses_family s = f) db)) \<longrightarrow>
        ses_family s = fam_id r \<longrightarrow> ses_revoked s \<noteq> None)"
      by (auto dest: revoked_sessions_gone)
  qed
qed

lemma keeps_renew:
  assumes ok: "idb_ok db" and row: "find_credential c (env_now e) cred db = Inr row"
    and r: "renew_credential_row c e row ttl db = Inr (s, db')"
  shows "keeps (cfg_hash c (new_token e)) fm db db'"
proof -
  let ?f = "crd_family (fst row)" and ?now = "env_now e" and ?g = "snd row + 1"
  obtain fr where fr: "fr \<in> set (idb_families db)" "fam_id fr = ?f" "fam_generation fr = snd row" "fam_revoked fr = None"
    using find_credential_family[OF ok row] by metis
  have only: "x = fr" if "x \<in> set (idb_families db)" "fam_id x = ?f" for x
    using row_eq[OF keys_okD(3)[OF ok] that(1) fr(1)] that fr by simp
  let ?q = "\<lambda>x. fam_id x = ?f \<and> fam_revoked x = None"
  let ?d2 = "next_generation ?now ?g ?q (revoke_sessions ?now (\<lambda>s. ses_family s = ?f) db)"
  let ?d3 = "?d2\<lparr>idb_credentials := update_where (\<lambda>x. crd_id x = crd_id (fst row)) (\<lambda>x. x\<lparr>crd_used := Some ?now\<rparr>) (idb_credentials ?d2)\<rparr>"
  let ?d4 = "touch_device ?now (crd_who (fst row)) ?d3"
  have "keeps (cfg_hash c (new_token e)) fm db ?d2"
    by (rule keeps_close_and_number) (use only fr in auto)
  then have k: "keeps (cfg_hash c (new_token e)) fm db ?d4"
    by (rule keeps_trans) (rule keeps_trans[OF keeps_writes(4) keeps_touch_device])
  obtain prev where ins: "insert_session c e (crd_who (fst row)) ?f ?g ttl prev ?d4 = Inr (s, db')"
    using r unfolding renew_credential_row_def Let_def by blast
  show ?thesis
  proof (rule keeps_insert_session[OF k ins])
    show "?f = fm \<or> (\<exists>fr\<in>set (idb_families db). fam_id fr = ?f \<and> fam_generation fr < ?g)" using fr by auto
    fix x assume x: "x \<in> set (idb_families ?d4)" "fam_id x = ?f"
    then obtain r where "r \<in> set (idb_families db)" "x = (if ?q r then r\<lparr>fam_generation := ?g, fam_renewed := ?now\<rparr> else r)"
      by (auto simp: touch_device_def next_generation_def revoke_sessions_def in_update_where)
    then show "fam_generation x = ?g" using only[of r] fr x(2) by (auto split: if_splits)
  qed
qed

lemma keeps_enroll_rows:
  assumes r: "enroll_rows c e w name eh ph cred ttl db = Inr (x, db')" and fm: "fm = new_family e"
  shows "keeps (cfg_hash c (new_token e)) fm db db'"
proof -
  let ?h = "cfg_hash c (new_token e)"
  obtain d1 d2 d3 d4 cr s where d: "insert_device w name (env_now e) db = Inr d1" "insert_family fm w (env_now e) d1 = Inr d2"
      "insert_credential c e w fm None (Some cred) d2 = Inr (cr, d3)" "insert_session c e w fm 0 ttl None d4 = Inr (s, db')"
    and en: "\<exists>row. insert_enrollment row d3 = Inr d4"
    using r unfolding enroll_rows_def fm by (auto simp: bindE_Inr_iff split_beta) blast
  have s: "same_rows d2 d3" "same_rows d3 d4"
    using same_rows_insert_credential[OF d(3)] en same_rows_enrollment by auto
  have "keeps ?h fm db d4"
    by (rule keeps_trans[OF keeps_insert_device[OF d(1)] keeps_trans[OF keeps_insert_family[OF d(2)]
      keeps_trans[OF s[THEN keeps_same]]]])
  from this d(4) show ?thesis
  proof (rule keeps_insert_session)
    show "fm = fm \<or> (\<exists>fr\<in>set (idb_families db). fam_id fr = fm \<and> fam_generation fr < 0)" by simp
    fix x assume "x \<in> set (idb_families d4)" "fam_id x = fm"
    moreover obtain row where "idb_families d2 = idb_families d1 @ [row]" "fam_generation row = 0"
        "\<forall>r\<in>set (idb_families d1). fam_id r \<noteq> fm"
      by (rule insert_family_Inr[OF d(2)])
    ultimately show "fam_generation x = 0" using s by (auto simp: same_rows_def)
  qed
qed

lemma keeps_admit: "admit_new_enrollment e eh ph pol db = Inr db' \<Longrightarrow> keeps h fm db db'"
  by (auto simp: admit_new_enrollment_def Let_def bindE_Inr_iff
    intro!: keeps_trans[OF keeps_cleanup keeps_trans[OF keeps_writes(2) keeps_writes(3)]])

lemma keeps_enroll_public:
  assumes r: "enroll_public_device c e q db = Inr (x, db')"
  shows "keeps (cfg_hash c (new_token e)) (new_family e) db db'"
proof (cases "idb_ok db")
  case False
  then show ?thesis by (simp add: keeps_def)
next
  case ok: True
  let ?eh = "binding_hash c (or_str (erq_enrollment q) (new_enrollment e)) ''enrollment-id''"
  show ?thesis
  proof (cases "find_enrollment ?eh db")
    case None
    with r obtain d1 d2 d3 eh ph pol t a w name cred ttl where
      "admit_new_enrollment e eh ph pol db = Inr d1" "insert_tenant t d1 = Inr d2" "insert_user a d2 = Inr d3"
      "enroll_rows c e w name eh ph cred ttl d3 = Inr (x, db')"
      by (auto simp: enroll_public_device_def Let_def bindE_Inr_iff)
    then show ?thesis
      by (blast intro: keeps_trans keeps_admit keeps_insert_tenant keeps_insert_user keeps_enroll_rows)
  next
    case (Some en)
    with r obtain row s d1 ttl es cred where
      "find_credential c (env_now e) cred db = Inr row" "renew_credential_row c e row ttl db = Inr (s, d1)"
      "db' = d1\<lparr>idb_enrollments := es\<rparr>"
      by (auto simp: enroll_public_device_def Let_def bindE_Inr_iff split_beta)
    then show ?thesis by (blast intro: keeps_trans[OF keeps_renew[OF ok] keeps_writes(5)])
  qed
qed

lemma keeps_enroll_additional:
  assumes r: "enroll_additional_device c e p cur en sec peer name ttl policy db = Inr (x, db')"
  shows "keeps (cfg_hash c (new_token e)) (new_family e) db db'"
proof (cases "idb_ok db")
  case False
  then show ?thesis by (simp add: keeps_def)
next
  case ok: True
  show ?thesis
  proof (cases "find_enrollment (binding_hash c en ''enrollment-id'') db")
    case None
    with r obtain d1 eh ph pol w t where "admit_new_enrollment e eh ph pol db = Inr d1"
      "enroll_rows c e w name eh ph sec t d1 = Inr (x, db')"
      by (auto simp: enroll_additional_device_def Let_def bindE_Inr_iff)
    then show ?thesis by (blast intro: keeps_trans keeps_admit keeps_enroll_rows)
  next
    case (Some er)
    with r obtain row s t where "find_credential c (env_now e) sec db = Inr row" "renew_credential_row c e row t db = Inr (s, db')"
      by (auto simp: enroll_additional_device_def Let_def bindE_Inr_iff split_beta)
    then show ?thesis by (rule keeps_renew[OF ok])
  qed
qed

lemma keeps_renew_public:
  "renew_public_session c e cred ttl db = Inr (x, db') \<Longrightarrow> keeps (cfg_hash c (new_token e)) fm db db'"
  by (cases "idb_ok db") (auto simp: renew_public_session_def Let_def bindE_Inr_iff keeps_def[of _ _ db] 
      dest: keeps_renew[unfolded keeps_def])

lemma same_rows_trans: "same_rows a b \<Longrightarrow> same_rows b c \<Longrightarrow> same_rows a c"
  by (simp add: same_rows_def)

lemma keeps_rotate: "rotate_device_credential c e p cur new db = Inr (x, db') \<Longrightarrow> keeps h fm db db'"
proof -
  assume r: "rotate_device_credential c e p cur new db = Inr (x, db')"
  then obtain d1 cs es row where "put_credential row (revoke_credentials (env_now e) cs db) = Inr d1"
      "same_rows d1 db'"
    by (auto simp: rotate_device_credential_def Let_def bindE_Inr_iff same_rows_def)
  then have "same_rows db db'"
    by (blast intro: same_rows_trans same_rows_credential same_rows_writes)
  then show ?thesis by (rule keeps_same)
qed

text \<open>A principal whose family is that of its session, as the store resolves it from a token.\<close>

definition genuine :: "principal \<Rightarrow> idb \<Rightarrow> bool" where
  "genuine p db = (\<forall>s\<in>set (idb_sessions db). ses_id s = pri_session p \<longrightarrow> pri_family p = Some (ses_family s))"

lemma keeps_claim:
  assumes r: "claim_legacy_identity c e p db = Inr (x, db')" and p: "genuine p db"
  shows "keeps (cfg_hash c (new_token e)) fm db db'"
proof (cases "idb_ok db")
  case False
  then show ?thesis by (simp add: keeps_def)
next
  case ok: True
  let ?h = "cfg_hash c (new_token e)" and ?now = "env_now e"
  obtain cl g f cr d1 s where row: "claim_row p db = Some (cl, g)"
    and cred: "insert_credential c e (pri_who p) f None None db = Inr (cr, d1)"
    and f: "f = (case pri_family p of None \<Rightarrow> [] | Some x \<Rightarrow> x)"
    and ins: "insert_session c e (pri_who p) f (g + 1) (cfg_ttl c) (Some (pri_session p))
      (next_generation ?now (g + 1) (\<lambda>x. fam_id x = f) (revoke_sessions ?now (\<lambda>s. ses_family s = f)
        (d1\<lparr>idb_devices := update_where (\<lambda>r. dvc_who r = pri_who p) (\<lambda>r. r\<lparr>dvc_claimed := Some ?now, dvc_seen := ?now\<rparr>) (idb_devices d1)\<rparr>)))
      = Inr (s, db')"
    using r by (auto simp: claim_legacy_identity_def Let_def bindE_Inr_iff split: option.splits)
  obtain ss fr where ss: "ss \<in> set (idb_sessions db)" "ses_id ss = pri_session p"
      "family_at (ses_family ss) (ses_who ss) db = Some fr" "fam_generation fr = g"
    using row by (auto simp: claim_row_def find_key_cond[OF keys_okD(1)[OF ok]] split: option.splits if_splits)
  have f': "ses_family ss = f" using p ss(1,2) by (simp add: genuine_def f)
  have fr: "fr \<in> set (idb_families db)" "fam_id fr = f" "fam_generation fr = g"
    using ss(3,4) f' by (simp_all add: family_at_def find_key_cond[OF keys_okD(3)[OF ok]])
  have only: "x = fr" if "x \<in> set (idb_families db)" "fam_id x = f" for x
    using row_eq[OF keys_okD(3)[OF ok] that(1) fr(1)] that fr by simp
  have s1: "same_rows db d1" by (rule same_rows_insert_credential[OF cred])
  let ?d2 = "d1\<lparr>idb_devices := update_where (\<lambda>r. dvc_who r = pri_who p) (\<lambda>r. r\<lparr>dvc_claimed := Some ?now, dvc_seen := ?now\<rparr>) (idb_devices d1)\<rparr>"
  let ?d4 = "next_generation ?now (g + 1) (\<lambda>x. fam_id x = f) (revoke_sessions ?now (\<lambda>s. ses_family s = f) ?d2)"
  have fams: "idb_families ?d2 = idb_families db" using s1 by (simp add: same_rows_def)
  have "keeps ?h fm db ?d2"
    by (rule keeps_trans[OF keeps_same[OF s1] keeps_device_update]) simp
  moreover have "keeps ?h fm ?d2 ?d4"
    by (rule keeps_close_and_number) (use only fr fams in auto)
  ultimately have k: "keeps ?h fm db ?d4" by (rule keeps_trans)
  from k ins show ?thesis
  proof (rule keeps_insert_session)
    show "f = fm \<or> (\<exists>fr\<in>set (idb_families db). fam_id fr = f \<and> fam_generation fr < g + 1)" using fr by auto
    fix x assume x: "x \<in> set (idb_families ?d4)" "fam_id x = f"
    then obtain r where "r \<in> set (idb_families db)" "x = (if fam_id r = f then r\<lparr>fam_generation := Suc g, fam_renewed := ?now\<rparr> else r)"
      using fams by (auto simp: next_generation_def revoke_sessions_def in_update_where)
    then show "fam_generation x = g + 1" using x(2) by (auto split: if_splits)
  qed
qed

lemma keeps_revocations:
  "revoke_session now sid db = (b, db') \<Longrightarrow> keeps h fm db db'"
  "revoke_session_family now p db = (b, db') \<Longrightarrow> keeps h fm db db'"
  "revoke_principal_device c now p cur db = Inr (b, db') \<Longrightarrow> keeps h fm db db'"
proof -
  show "revoke_session now sid db = (b, db') \<Longrightarrow> keeps h fm db db'"
    unfolding revoke_session_def by (auto intro: keeps_revoke_sessions)
  show "revoke_session_family now p db = (b, db') \<Longrightarrow> keeps h fm db db'"
    unfolding revoke_session_family_def Let_def
    by (auto split: if_splits intro!: keeps_trans[OF keeps_revoke_families keeps_trans[OF keeps_revoke_sessions keeps_writes(1)]])
  assume r: "revoke_principal_device c now p cur db = Inr (b, db')"
  let ?d1 = "db\<lparr>idb_devices := update_where (\<lambda>r. dvc_who r = pri_who p \<and> dvc_revoked r = None) (\<lambda>r. r\<lparr>dvc_revoked := Some now\<rparr>) (idb_devices db)\<rparr>"
  from r consider "db' = db" | "db' = revoke_credentials now (\<lambda>r. crd_who r = pri_who p)
      (revoke_sessions now (\<lambda>s. ses_who s = pri_who p) (revoke_families now (\<lambda>r. fam_who r = pri_who p) ?d1))"
    by (auto simp: revoke_principal_device_def Let_def bindE_Inr_iff split: if_splits)
  then show "keeps h fm db db'"
  proof cases
    case 2
    have "keeps h fm db ?d1" by (rule keeps_device_update) simp
    then show ?thesis unfolding 2
      by (rule keeps_trans) (rule keeps_trans[OF keeps_revoke_families keeps_trans[OF keeps_revoke_sessions keeps_writes(1)]])
  qed (simp add: keeps_refl)
qed

lemma keeps_cleanup_expired: "cleanup_expired_sessions now db = (x, db') \<Longrightarrow> keeps h fm db db'"
  by (auto simp: cleanup_expired_sessions_def intro: keeps_trans[OF keeps_writes(6) keeps_delete_sessions])

lemma keeps_cleanup_orphaned: "cleanup_orphaned_enrollments c e pol db = Inr (x, db') \<Longrightarrow> keeps h fm db db'"
  by (auto simp: cleanup_orphaned_enrollments_def Let_def bindE_Inr_iff
      intro: keeps_trans[OF keeps_cleanup keeps_writes(2)])

lemma keeps_ticket: "issue_resource_ticket c e p rt rid ttl db = Inr (x, db') \<Longrightarrow> keeps h fm db db'"
  by (rule keeps_same)
    (auto simp: issue_resource_ticket_def issue_resource_ticket_tx_def Let_def bindE_Inr_iff same_rows_def split: option.splits if_splits)

lemma keeps_sync: "validate_sync_token c now tok db = Inr (x, db') \<Longrightarrow> keeps h fm db db'"
  by (rule keeps_same) (auto simp: validate_sync_token_def same_rows_def split: option.splits if_splits)

lemma keeps_or_ignore: "(\<And>db'. f db = Inr db' \<Longrightarrow> keeps h fm db db') \<Longrightarrow> keeps h fm db (or_ignore f db)"
  by (auto simp: or_ignore_def split: sum.splits)

lemma keeps_hub:
  "keeps h fm db (pairing_rows now w db)"
  "claimed_rows now w name sh db = Inr db' \<Longrightarrow> keeps h fm db db'"
  "keeps h fm db (revoked_rows now w db)"
proof -
  show "keeps h fm db (pairing_rows now w db)"
    unfolding pairing_rows_def ensure_principal_device_def Let_def
    by (rule keeps_trans[OF keeps_trans[OF keeps_trans] keeps_writes(8)];
        rule keeps_or_ignore, rule keeps_insert_tenant keeps_insert_user keeps_insert_device, assumption)
  show "claimed_rows now w name sh db = Inr db' \<Longrightarrow> keeps h fm db db'"
    by (auto simp: claimed_rows_def bindE_Inr_iff intro: keeps_trans[OF keeps_insert_device keeps_writes(7)])
  show "keeps h fm db (revoked_rows now w db)" unfolding revoked_rows_def by (rule keeps_writes)
qed

end
