(* ===== verification/SessionsSystem.thy ===== *)
theory SessionsSystem
  imports SessionsCorrect
begin

text \<open>
  The store in use: every call of \<open>SessionStore\<close>, and of the hub on the same tables, in any order, with a clock
  that does not run backwards and secrets and families that were not used before.  Beside the database the state
  remembers every bearer ever issued, as its hash, family and generation, and every admission, newest first.
  The store is an instance of two interfaces: a fenced store, whose tokens once lost stay lost, and a log with
  sliding windows.
\<close>

section \<open>Calls\<close>

inductive session_call :: "session_cfg \<Rightarrow> session_env \<Rightarrow> idb \<Rightarrow> idb \<Rightarrow> bool" for c e where
  enrolled: "erq_policy q = None \<Longrightarrow> enroll_public_device c e q db = Inr (i, db') \<Longrightarrow> session_call c e db db'"
| enrolled_device: "enroll_additional_device c e p cur en sec peer name ttl None db = Inr (i, db') \<Longrightarrow> session_call c e db db'"
| renewed: "renew_public_session c e cred ttl db = Inr (s, db') \<Longrightarrow> session_call c e db db'"
| rotated: "rotate_device_credential c e p cur new db = Inr (x, db') \<Longrightarrow> session_call c e db db'"
| claimed: "genuine p db \<Longrightarrow> claim_legacy_identity c e p db = Inr (i, db') \<Longrightarrow> session_call c e db db'"
| session_revoked: "revoke_session (env_now e) sid db = (b, db') \<Longrightarrow> session_call c e db db'"
| family_revoked: "revoke_session_family (env_now e) p db = (b, db') \<Longrightarrow> session_call c e db db'"
| device_revoked: "revoke_principal_device c (env_now e) p cur db = Inr (b, db') \<Longrightarrow> session_call c e db db'"
| expired_removed: "cleanup_expired_sessions (env_now e) db = (n, db') \<Longrightarrow> session_call c e db db'"
| orphans_removed: "cleanup_orphaned_enrollments c e None db = Inr (k, db') \<Longrightarrow> session_call c e db db'"
| ticket_issued: "issue_resource_ticket c e p rt rid ttl db = Inr (t, db') \<Longrightarrow> session_call c e db db'"
| sync_resolved: "validate_sync_token c (env_now e) tok db = Inr (p, db') \<Longrightarrow> session_call c e db db'"
| hub_paired: "session_call c e db (pairing_rows (env_now e) w db)"
| hub_claimed: "claimed_rows (env_now e) w name sh db = Inr db' \<Longrightarrow> session_call c e db db'"
| hub_revoked: "session_call c e db (revoked_rows (env_now e) w db)"
| elsewhere: "session_call c e db (db\<lparr>idb_resources := rs, idb_leases := ls, idb_ledger := qs\<rparr>)"

lemma session_call_keeps:
  "session_call c e db db' \<Longrightarrow> keeps (cfg_hash c (new_token e)) (new_family e) db db'"
  by (induction rule: session_call.induct)
    (auto intro: keeps_enroll_public keeps_enroll_additional keeps_renew_public keeps_rotate keeps_claim keeps_revocations
      keeps_cleanup_expired keeps_cleanup_orphaned keeps_ticket keeps_sync keeps_hub keeps_same simp: same_rows_def)

section \<open>What calls do to the admissions\<close>

definition same_admissions :: "idb \<Rightarrow> idb \<Rightarrow> bool" where
  "same_admissions db db' = (idb_admissions db' = idb_admissions db \<and> idb_next db' = idb_next db)"

definition windows_free :: "admission_policy \<Rightarrow> rat \<Rightarrow> string \<Rightarrow> idb \<Rightarrow> bool" where
  "windows_free p now ph db =
     (length (filter (in_window now (pol_window p) (Some ph)) (idb_admissions db)) < pol_peer_window p \<and>
      length (filter (in_window now (pol_window p) None) (idb_admissions db)) < pol_global_window p \<and>
      length (filter (in_window now 86400 (Some ph)) (idb_admissions db)) < pol_peer_day p \<and>
      length (filter (in_window now 86400 None) (idb_admissions db)) < pol_global_day p)"

definition admits :: "admission_policy \<Rightarrow> rat \<Rightarrow> idb \<Rightarrow> idb \<Rightarrow> bool" where
  "admits p now db db' =
     (same_admissions db db' \<or> same_admissions (prune_admissions p now db) db' \<or>
      (\<exists>eh ph. windows_free p now ph (prune_admissions p now db) \<and>
         same_admissions (add_admission eh ph now (prune_admissions p now db)) db'))"

lemma same_admissions_refl [intro, simp]: "same_admissions db db"
  by (simp add: same_admissions_def)

lemma same_admissions_trans: "same_admissions a b \<Longrightarrow> same_admissions b c \<Longrightarrow> same_admissions a c"
  by (simp add: same_admissions_def)

lemma same_admissions_writes [simp]:
  "same_admissions db (revoke_credentials now cp db)" "same_admissions db (revoke_sessions now sp db)"
  "same_admissions db (revoke_families now fp db)" "same_admissions db (touch_device now w db)"
  "same_admissions db (next_generation now g gp db)" "same_admissions db (delete_sessions dp db)"
  "same_admissions db (remove_account a db)"
  by (simp_all add: same_admissions_def revoke_credentials_def revoke_sessions_def revoke_families_def touch_device_def
      next_generation_def delete_sessions_def remove_account_def Let_def)

lemma same_admissions_inserts:
  "insert_session c e w f g ttl prev db = Inr (s, db') \<Longrightarrow> same_admissions db db'"
  "put_credential row db = Inr db' \<Longrightarrow> same_admissions db db'"
  "insert_tenant t db = Inr db' \<Longrightarrow> same_admissions db db'"
  "insert_user a db = Inr db' \<Longrightarrow> same_admissions db db'"
  "insert_device w name now db = Inr db' \<Longrightarrow> same_admissions db db'"
  "insert_family f w now db = Inr db' \<Longrightarrow> same_admissions db db'"
  "insert_enrollment en db = Inr db' \<Longrightarrow> same_admissions db db'"
  by (auto simp: same_admissions_def insert_session_def put_credential_def insert_tenant_def insert_user_def insert_device_def
      insert_family_def insert_enrollment_def Let_def split: if_splits)

lemma same_admissions_insert_credential:
  "insert_credential c e w f ttl sec db = Inr (x, db') \<Longrightarrow> same_admissions db db'"
  by (auto simp: insert_credential_def Let_def bindE_Inr_iff intro: same_admissions_inserts)

lemma same_admissions_renew:
  assumes "renew_credential_row c e row ttl db = Inr (s, db')"
  shows "same_admissions db db'"
  using same_admissions_inserts(1)[OF assms[unfolded renew_credential_row_def Let_def]]
  by (simp add: same_admissions_def touch_device_def next_generation_def revoke_sessions_def)

lemma same_admissions_enroll_rows: "enroll_rows c e w name eh ph cred ttl db = Inr (x, db') \<Longrightarrow> same_admissions db db'"
  unfolding enroll_rows_def
  by (auto simp: bindE_Inr_iff split_beta intro: same_admissions_trans dest!: same_admissions_inserts same_admissions_insert_credential)
    (auto simp: same_admissions_def)

lemma same_admissions_remove_orphan: "remove_orphan en db = Inr db' \<Longrightarrow> same_admissions db db'"
  by (auto simp: remove_orphan_def Let_def bindE_Inr_iff same_admissions_def remove_account_def split: if_splits)

lemma same_admissions_remove_orphans: "remove_orphans limit ens n db = Inr (m, db') \<Longrightarrow> same_admissions db db'"
  by (induction limit ens n db arbitrary: m db' rule: remove_orphans.induct)
    (auto simp: bindE_Inr_iff split: if_splits intro: same_admissions_trans same_admissions_remove_orphan)

lemma same_admissions_cleanup: "cleanup_orphaned pol now db = Inr (n, db') \<Longrightarrow> same_admissions db db'"
  unfolding cleanup_orphaned_def by (rule same_admissions_remove_orphans)

lemma check_window_iff:
  "check_admission_window now dur limit reason peer db = Inr u \<longleftrightarrow>
     length (filter (in_window now dur peer) (idb_admissions db)) < limit"
  by (auto simp: check_admission_window_def Let_def)

lemma in_window_same: "same_admissions a b \<Longrightarrow> same_admissions (prune_admissions p now a) (prune_admissions p now b) \<and>
    windows_free p now ph (prune_admissions p now a) = windows_free p now ph (prune_admissions p now b) \<and>
    same_admissions (add_admission eh ph now (prune_admissions p now a)) (add_admission eh ph now (prune_admissions p now b))"
  by (simp add: same_admissions_def prune_admissions_def add_admission_def windows_free_def)

lemma admit_admits:
  assumes "admit_new_enrollment e eh ph p db = Inr db1" "same_admissions db1 db'"
  shows "admits p (env_now e) db db'"
proof -
  let ?now = "env_now e"
  obtain n d0 where cl: "cleanup_orphaned p ?now db = Inr (n, d0)"
    and w: "windows_free p ?now ph (prune_admissions p ?now d0)"
    and out: "db1 = add_admission eh ph ?now (prune_admissions p ?now d0)"
    using assms(1) by (auto simp: admit_new_enrollment_def Let_def bindE_Inr_iff check_window_iff windows_free_def)
  note s = in_window_same[OF same_admissions_cleanup[OF cl], of p ?now ph eh]
  have "windows_free p ?now ph (prune_admissions p ?now db)" using s w by simp
  moreover have "same_admissions (add_admission eh ph ?now (prune_admissions p ?now db)) db'"
    using s assms(2) unfolding out by (blast intro: same_admissions_trans)
  ultimately show ?thesis unfolding admits_def by blast
qed

lemma same_admits: "same_admissions db db' \<Longrightarrow> admits p now db db'"
  by (simp add: admits_def)

lemma admits_enroll_public:
  assumes r: "enroll_public_device c e q db = Inr (x, db')" and q: "erq_policy q = None"
  shows "admits (cfg_policy c) (env_now e) db db'"
proof (cases "find_enrollment (binding_hash c (or_str (erq_enrollment q) (new_enrollment e)) ''enrollment-id'') db")
  case None
  with r q obtain d1 d2 d3 eh ph t a w name cred ttl where
    d: "admit_new_enrollment e eh ph (cfg_policy c) db = Inr d1" "insert_tenant t d1 = Inr d2" "insert_user a d2 = Inr d3"
    "enroll_rows c e w name eh ph cred ttl d3 = Inr (x, db')"
    by (auto simp: enroll_public_device_def Let_def bindE_Inr_iff)
  from d(2-4) have "same_admissions d1 db'"
    by (blast intro: same_admissions_trans same_admissions_inserts same_admissions_enroll_rows)
  with d(1) show ?thesis by (rule admit_admits)
next
  case (Some en)
  with r obtain row s d1 ttl es where "renew_credential_row c e row ttl db = Inr (s, d1)" "db' = d1\<lparr>idb_enrollments := es\<rparr>"
    by (auto simp: enroll_public_device_def Let_def bindE_Inr_iff split_beta)
  with same_admissions_renew[OF this(1)] show ?thesis by (intro same_admits) (simp add: same_admissions_def)
qed

lemma admits_enroll_additional:
  assumes r: "enroll_additional_device c e p cur en sec peer name ttl None db = Inr (x, db')"
  shows "admits (cfg_policy c) (env_now e) db db'"
proof (cases "find_enrollment (binding_hash c en ''enrollment-id'') db")
  case None
  with r obtain d1 eh ph w t where "admit_new_enrollment e eh ph (cfg_policy c) db = Inr d1"
    "enroll_rows c e w name eh ph sec t d1 = Inr (x, db')"
    by (auto simp: enroll_additional_device_def Let_def bindE_Inr_iff)
  then show ?thesis by (blast intro: admit_admits same_admissions_enroll_rows)
next
  case (Some er)
  with r obtain row s t where "renew_credential_row c e row t db = Inr (s, db')"
    by (auto simp: enroll_additional_device_def Let_def bindE_Inr_iff split_beta)
  then show ?thesis by (blast intro: same_admits same_admissions_renew)
qed

lemma same_admissions_calls:
  "renew_public_session c e cred ttl db = Inr (s, db') \<Longrightarrow> same_admissions db db'"
  "revoke_session now sid db = (b, db') \<Longrightarrow> same_admissions db db'"
  "revoke_session_family now p db = (b, db') \<Longrightarrow> same_admissions db db'"
  "revoke_principal_device c now p cur db = Inr (b, db') \<Longrightarrow> same_admissions db db'"
  "cleanup_expired_sessions now db = (n, db') \<Longrightarrow> same_admissions db db'"
  "issue_resource_ticket c e p rt rid ttl' db = Inr (t, db') \<Longrightarrow> same_admissions db db'"
  "validate_sync_token c now tok db = Inr (q, db') \<Longrightarrow> same_admissions db db'"
proof -
  show "renew_public_session c e cred ttl db = Inr (s, db') \<Longrightarrow> same_admissions db db'"
    by (auto simp: renew_public_session_def Let_def bindE_Inr_iff intro: same_admissions_renew)
  show "revoke_session now sid db = (b, db') \<Longrightarrow> same_admissions db db'"
    by (auto simp: revoke_session_def)
  show "revoke_session_family now p db = (b, db') \<Longrightarrow> same_admissions db db'"
    by (auto simp: revoke_session_family_def Let_def same_admissions_def revoke_credentials_def revoke_sessions_def
        revoke_families_def split: if_splits)
  show "revoke_principal_device c now p cur db = Inr (b, db') \<Longrightarrow> same_admissions db db'"
    by (auto simp: revoke_principal_device_def Let_def bindE_Inr_iff same_admissions_def revoke_credentials_def revoke_sessions_def
        revoke_families_def split: if_splits)
  show "cleanup_expired_sessions now db = (n, db') \<Longrightarrow> same_admissions db db'"
    by (auto simp: cleanup_expired_sessions_def same_admissions_def)
  show "issue_resource_ticket c e p rt rid ttl' db = Inr (t, db') \<Longrightarrow> same_admissions db db'"
    by (auto simp: issue_resource_ticket_def issue_resource_ticket_tx_def Let_def bindE_Inr_iff same_admissions_def
        split: option.splits if_splits)
  show "validate_sync_token c now tok db = Inr (q, db') \<Longrightarrow> same_admissions db db'"
    by (auto simp: validate_sync_token_def same_admissions_def split: option.splits if_splits)
qed

lemma same_admissions_rotate: "rotate_device_credential c e p cur new db = Inr (x, db') \<Longrightarrow> same_admissions db db'"
  by (auto simp: rotate_device_credential_def Let_def bindE_Inr_iff dest!: same_admissions_inserts(2))
    (auto simp: same_admissions_def revoke_credentials_def)

lemma same_admissions_claim: "claim_legacy_identity c e p db = Inr (x, db') \<Longrightarrow> same_admissions db db'"
  by (auto simp: claim_legacy_identity_def Let_def bindE_Inr_iff split: option.splits
      dest!: same_admissions_inserts(1) same_admissions_insert_credential)
    (auto simp: same_admissions_def next_generation_def revoke_sessions_def)

lemma same_admissions_or_ignore:
  "(\<And>db'. f db = Inr db' \<Longrightarrow> same_admissions db db') \<Longrightarrow> same_admissions db (or_ignore f db)"
  by (auto simp: or_ignore_def split: sum.splits)

lemma same_admissions_hub:
  "same_admissions db (pairing_rows now w db)"
  "claimed_rows now w name sh db = Inr db' \<Longrightarrow> same_admissions db db'"
  "same_admissions db (revoked_rows now w db)"
proof -
  have "same_admissions db (ensure_principal_device now w db)"
    unfolding ensure_principal_device_def
    by (rule same_admissions_trans[OF same_admissions_trans]; rule same_admissions_or_ignore, erule same_admissions_inserts)
  then show "same_admissions db (pairing_rows now w db)" by (simp add: pairing_rows_def Let_def same_admissions_def)
  show "claimed_rows now w name sh db = Inr db' \<Longrightarrow> same_admissions db db'"
    by (auto simp: claimed_rows_def bindE_Inr_iff dest!: same_admissions_inserts(5)) (auto simp: same_admissions_def)
  show "same_admissions db (revoked_rows now w db)" by (simp add: revoked_rows_def same_admissions_def)
qed

lemma admits_cleanup_orphaned:
  assumes "cleanup_orphaned_enrollments c e None db = Inr (k, db')"
  shows "admits (cfg_policy c) (env_now e) db db'"
proof -
  obtain n d1 where "cleanup_orphaned (cfg_policy c) (env_now e) db = Inr (n, d1)"
    "db' = prune_admissions (cfg_policy c) (env_now e) d1"
    using assms by (auto simp: cleanup_orphaned_enrollments_def Let_def bindE_Inr_iff)
  then show ?thesis using in_window_same[OF same_admissions_cleanup] unfolding admits_def by blast
qed

lemma session_call_admits: "session_call c e db db' \<Longrightarrow> admits (cfg_policy c) (env_now e) db db'"
  by (induction rule: session_call.induct)
    (auto intro: admits_enroll_public admits_enroll_additional admits_cleanup_orphaned same_admits same_admissions_calls
      same_admissions_rotate same_admissions_claim same_admissions_hub simp: same_admissions_def)

section \<open>The system\<close>

type_synonym bearer = "string \<times> string \<times> nat"

definition bearers_in :: "idb \<Rightarrow> bearer set" where
  "bearers_in db = (\<lambda>s. (ses_hash s, ses_family s, ses_generation s)) ` set (idb_sessions db)"

record session_system =
  sys_db :: idb
  sys_clock :: rat
  sys_issued :: "bearer set"
  sys_log :: "admission_row list"

definition fresh_values :: "session_cfg \<Rightarrow> session_env \<Rightarrow> session_system \<Rightarrow> bool" where
  "fresh_values c e s =
     ((\<forall>k\<in>sys_issued s. fst k \<noteq> cfg_hash c (new_token e) \<and> fst (snd k) \<noteq> new_family e) \<and>
      new_family e \<notin> fam_id ` set (idb_families (sys_db s)))"

text \<open>An admission is new when its number is not below the next number before the call.\<close>

definition after_call :: "idb \<Rightarrow> rat \<Rightarrow> session_system \<Rightarrow> session_system" where
  "after_call db' now s =
     \<lparr>sys_db = db', sys_clock = now, sys_issued = sys_issued s \<union> bearers_in db',
      sys_log = rev (filter (\<lambda>r. idb_next (sys_db s) \<le> adm_id r) (idb_admissions db')) @ sys_log s\<rparr>"

inductive session_step :: "session_cfg \<Rightarrow> session_system \<Rightarrow> session_system \<Rightarrow> bool" for c where
  called: "session_call c e (sys_db s) db' \<Longrightarrow> fresh_values c e s \<Longrightarrow> sys_clock s \<le> env_now e \<Longrightarrow>
     session_step c s (after_call db' (env_now e) s)"
| waited: "sys_clock s \<le> now \<Longrightarrow> session_step c s (s\<lparr>sys_clock := now\<rparr>)"

text \<open>
  At the start the database is the one the migrations leave: consistent, with the bearers of earlier versions in
  families of their own, and without admissions.
\<close>

definition session_init :: "session_system \<Rightarrow> bool" where
  "session_init s =
     (idb_ok (sys_db s) \<and> distinct (map (\<lambda>r. (ses_family r, ses_generation r)) (idb_sessions (sys_db s))) \<and>
      idb_admissions (sys_db s) = [] \<and> sys_issued s = bearers_in (sys_db s) \<and> sys_log s = [])"

definition session_reachable :: "session_cfg \<Rightarrow> session_system \<Rightarrow> bool" where
  "session_reachable c s = (\<exists>s0. session_init s0 \<and> (session_step c)\<^sup>*\<^sup>* s0 s)"

text \<open>The database is consistent, and what was ever issued stays ordered within its family.\<close>

definition bearers_ok :: "session_system \<Rightarrow> bool" where
  "bearers_ok s =
     (bearers_in (sys_db s) \<subseteq> sys_issued s \<and>
      (\<forall>k\<in>sys_issued s. \<forall>f\<in>set (idb_families (sys_db s)). fam_id f = fst (snd k) \<longrightarrow> snd (snd k) \<le> fam_generation f) \<and>
      (\<forall>k\<in>sys_issued s. \<forall>k'\<in>sys_issued s. snd k = snd k' \<longrightarrow> fst k = fst k') \<and>
      (\<forall>k\<in>sys_issued s. \<forall>k'\<in>sys_issued s. fst k = fst k' \<longrightarrow> k = k'))"

text \<open>Every admission younger than both windows is still in the table.\<close>

definition kept_admissions :: "admission_policy \<Rightarrow> session_system \<Rightarrow> bool" where
  "kept_admissions p s =
     (let recent = (\<lambda>r. sys_clock s - max (pol_window p) 86400 \<le> adm_at r); db = sys_db s
      in filter recent (rev (idb_admissions db)) = filter recent (sys_log s) \<and>
         (\<forall>r\<in>set (idb_admissions db). adm_id r < idb_next db))"

definition session_ok :: "session_cfg \<Rightarrow> session_system \<Rightarrow> bool" where
  "session_ok c s = (idb_ok (sys_db s) \<and> bearers_ok s \<and> kept_admissions (cfg_policy c) s)"

section \<open>The invariant holds\<close>

lemma recent_rows_later:
  "a \<le> b \<Longrightarrow> filter (\<lambda>r. b - k \<le> adm_at r) (filter (\<lambda>r. a - k \<le> adm_at r) xs) = filter (\<lambda>r. b - k \<le> adm_at r) xs"
  for a b k :: rat
  by (induction xs) auto

lemma kept_later:
  assumes "kept_admissions p s" "sys_clock s \<le> now"
  shows "filter (\<lambda>r. now - max (pol_window p) 86400 \<le> adm_at r) (rev (idb_admissions (sys_db s))) =
    filter (\<lambda>r. now - max (pol_window p) 86400 \<le> adm_at r) (sys_log s)"
proof -
  have "filter (\<lambda>r. sys_clock s - max (pol_window p) 86400 \<le> adm_at r) (rev (idb_admissions (sys_db s))) =
      filter (\<lambda>r. sys_clock s - max (pol_window p) 86400 \<le> adm_at r) (sys_log s)"
    using assms(1) by (simp add: kept_admissions_def Let_def)
  then show ?thesis using recent_rows_later[OF assms(2)] by metis
qed

lemma pruned_rows:
  "rev (idb_admissions (prune_admissions p now db)) =
     filter (\<lambda>r. now - max (pol_window p) 86400 \<le> adm_at r) (rev (idb_admissions db))"
  by (simp add: prune_admissions_def rev_filter not_less)

lemma new_rows_none: "\<forall>r\<in>set rs. adm_id r < n \<Longrightarrow> filter (\<lambda>r. n \<le> adm_id r) rs = []"
  by (induction rs) auto

lemma in_prune: "r \<in> set (idb_admissions (prune_admissions p now db)) \<Longrightarrow> r \<in> set (idb_admissions db)"
  by (simp add: prune_admissions_def)

text \<open>What a call adds to the log: nothing, or one admission that found its windows free.\<close>

lemma log_after:
  assumes k: "kept_admissions p s" and a: "admits p now (sys_db s) db'"
  shows "sys_log (after_call db' now s) = sys_log s \<and>
      (same_admissions (sys_db s) db' \<or> same_admissions (prune_admissions p now (sys_db s)) db') \<or>
    (\<exists>r. sys_log (after_call db' now s) = r # sys_log s \<and> adm_at r = now \<and> adm_id r = idb_next (sys_db s) \<and>
       windows_free p now (adm_peer r) (prune_admissions p now (sys_db s)) \<and>
       idb_admissions db' = idb_admissions (prune_admissions p now (sys_db s)) @ [r] \<and> idb_next db' = idb_next (sys_db s) + 1)"
proof -
  have ids: "\<forall>r\<in>set (idb_admissions (sys_db s)). adm_id r < idb_next (sys_db s)"
    using k by (simp add: kept_admissions_def Let_def)
  then have ids': "\<forall>r\<in>set (idb_admissions (prune_admissions p now (sys_db s))). adm_id r < idb_next (sys_db s)"
    by (auto dest: in_prune)
  note none = new_rows_none[OF ids] new_rows_none[OF ids']
  from a show ?thesis
    unfolding admits_def
  proof (elim disjE exE conjE)
    assume "same_admissions (sys_db s) db'"
    with none(1) show ?thesis by (simp add: after_call_def same_admissions_def)
  next
    assume "same_admissions (prune_admissions p now (sys_db s)) db'"
    with none(2) show ?thesis by (simp add: after_call_def same_admissions_def)
  next
    fix eh ph
    assume "windows_free p now ph (prune_admissions p now (sys_db s))"
      "same_admissions (add_admission eh ph now (prune_admissions p now (sys_db s))) db'"
    with none(2) show ?thesis
      by (intro disjI2 exI[of _ "\<lparr>adm_id = idb_next (sys_db s), adm_enrollment = eh, adm_peer = ph, adm_at = now\<rparr>"])
        (simp add: after_call_def same_admissions_def add_admission_def prune_admissions_def)
  qed
qed

lemma kept_after:
  assumes k: "kept_admissions p s" and now: "sys_clock s \<le> now" and a: "admits p now (sys_db s) db'"
  shows "kept_admissions p (after_call db' now s)"
proof -
  have ids: "\<forall>r\<in>set (idb_admissions (sys_db s)). adm_id r < idb_next (sys_db s)"
    using k by (simp add: kept_admissions_def Let_def)
  let ?R = "\<lambda>r. now - max (pol_window p) 86400 \<le> adm_at r"
  have old: "filter ?R (rev (idb_admissions (sys_db s))) = filter ?R (sys_log s)" by (rule kept_later[OF k now])
  have c: "sys_clock (after_call db' now s) = now" "sys_db (after_call db' now s) = db'" by (simp_all add: after_call_def)
  from log_after[OF k a] show ?thesis
  proof (elim disjE conjE exE)
    assume l: "sys_log (after_call db' now s) = sys_log s" and s: "same_admissions (sys_db s) db'"
    then show ?thesis using old ids by (simp add: kept_admissions_def Let_def c same_admissions_def)
  next
    assume l: "sys_log (after_call db' now s) = sys_log s" and s: "same_admissions (prune_admissions p now (sys_db s)) db'"
    then have "rev (idb_admissions db') = filter ?R (rev (idb_admissions (sys_db s)))"
      by (simp add: same_admissions_def pruned_rows)
    moreover have "\<forall>r\<in>set (idb_admissions db'). adm_id r < idb_next db'"
      using s ids by (auto simp: same_admissions_def prune_admissions_def)
    ultimately show ?thesis using old by (simp add: kept_admissions_def Let_def c l)
  next
    fix r
    assume r: "sys_log (after_call db' now s) = r # sys_log s" "adm_at r = now" "adm_id r = idb_next (sys_db s)"
      "idb_admissions db' = idb_admissions (prune_admissions p now (sys_db s)) @ [r]" "idb_next db' = idb_next (sys_db s) + 1"
    have "rev (idb_admissions db') = r # filter ?R (rev (idb_admissions (sys_db s)))" using r(4) by (simp add: pruned_rows)
    moreover have "?R r" using r(2) by simp
    moreover have "\<forall>x\<in>set (idb_admissions db'). adm_id x < idb_next db'"
      using r ids by (auto dest!: in_prune)
    ultimately show ?thesis using old r(1) by (simp add: kept_admissions_def Let_def c)
  qed
qed

text \<open>A bearer that a call adds is the fresh one, above every earlier one of its family.\<close>

lemma bearers_after:
  assumes ok: "idb_ok (sys_db s)" and b: "bearers_ok s" and fr: "fresh_values c e s"
    and k: "keeps (cfg_hash c (new_token e)) (new_family e) (sys_db s) db'"
  shows "bearers_ok (after_call db' now s)"
proof -
  let ?h = "cfg_hash c (new_token e)" and ?fm = "new_family e" and ?db = "sys_db s"
  from k ok have ok': "idb_ok db'" and m: "moves ?h ?fm ?db db'" by (auto simp: keeps_def)
  have b1: "bearers_in ?db \<subseteq> sys_issued s"
    and B2: "\<And>k fr. k \<in> sys_issued s \<Longrightarrow> fr \<in> set (idb_families ?db) \<Longrightarrow> fam_id fr = fst (snd k) \<Longrightarrow> snd (snd k) \<le> fam_generation fr"
    and B3: "\<And>k k'. k \<in> sys_issued s \<Longrightarrow> k' \<in> sys_issued s \<Longrightarrow> snd k = snd k' \<Longrightarrow> fst k = fst k'"
    and b4: "\<And>k k'. k \<in> sys_issued s \<Longrightarrow> k' \<in> sys_issued s \<Longrightarrow> fst k = fst k' \<Longrightarrow> k = k'"
    using b unfolding bearers_ok_def by blast+
  have b2: "g \<le> fam_generation fr" if "(h, f, g) \<in> sys_issued s" "fr \<in> set (idb_families ?db)" "fam_id fr = f" for h f g fr
    using B2[OF that(1,2)] that(3) by simp
  have b3: "h = h'" if "(h, f, g) \<in> sys_issued s" "(h', f, g) \<in> sys_issued s" for h h' f g
    using B3[OF that] by simp
  have f1: "(h, f, g) \<in> sys_issued s \<Longrightarrow> h \<noteq> ?h \<and> f \<noteq> ?fm" for h f g
    using fr unfolding fresh_values_def by fastforce
  have new: "(h, f, g) \<in> bearers_in db' \<Longrightarrow> (h, f, g) \<in> sys_issued s \<or>
      (h = ?h \<and> (f = ?fm \<or> (\<exists>x\<in>set (idb_families ?db). fam_id x = f \<and> fam_generation x < g)))" for h f g
    using movesD(3)[OF m] b1 unfolding bearers_in_def by (fastforce simp: image_iff)
  have one: "(?h, f, g) \<in> bearers_in db' \<Longrightarrow> (?h, f', g') \<in> bearers_in db' \<Longrightarrow> f = f' \<and> g = g'" for f g f' g'
    unfolding bearers_in_def using row_eq[OF keys_okD(2)[OF ok']] by fastforce
  have top: "g \<le> fam_generation x"
    if k: "(h, f, g) \<in> sys_issued s \<union> bearers_in db'" and x: "x \<in> set (idb_families db')" "fam_id x = f" for h f g x
  proof (cases "(h, f, g) \<in> sys_issued s")
    case True
    then have "f \<noteq> ?fm" using f1 by blast
    then obtain y where y: "y \<in> set (idb_families ?db)" "fam_id y = f" "fam_generation y \<le> fam_generation x"
      using movesD(2)[OF m x(1)] x(2) by auto
    show ?thesis using b2[OF True y(1,2)] y(3) by simp
  next
    case False
    then obtain r where r: "r \<in> set (idb_sessions db')" "ses_family r = f" "ses_generation r = g"
      using k by (auto simp: bearers_in_def)
    then obtain y where y: "y \<in> set (idb_families db')" "fam_id y = f" "g \<le> fam_generation y"
      using gens_okD(1)[OF ok' r(1)] by (auto simp: in_family_def)
    have "y = x" by (rule row_eq[OF keys_okD(3)[OF ok'] y(1) x(1)]) (simp add: y(2) x(2))
    then show ?thesis using y(3) by simp
  qed
  have uniq: "h = h'" if "(h, f, g) \<in> sys_issued s \<union> bearers_in db'" "(h', f, g) \<in> sys_issued s \<union> bearers_in db'" for h h' f g
  proof -
    have below: False if "(h, f, g) \<in> sys_issued s" "f = ?fm \<or> (\<exists>x\<in>set (idb_families ?db). fam_id x = f \<and> fam_generation x < g)" for h
      using that f1 b2 by fastforce
    from that consider "(h, f, g) \<in> sys_issued s" "(h', f, g) \<in> sys_issued s"
      | "h = ?h" "h' = ?h"
      using new below by blast
    then show ?thesis by cases (auto dest: b3)
  qed
  have "snd (snd k) \<le> fam_generation x" if "k \<in> sys_issued s \<union> bearers_in db'" "x \<in> set (idb_families db')" "fam_id x = fst (snd k)" for k x
    using top[of "fst k" "fst (snd k)" "snd (snd k)" x] that by simp
  moreover have "fst k = fst k'" if "k \<in> sys_issued s \<union> bearers_in db'" "k' \<in> sys_issued s \<union> bearers_in db'" "snd k = snd k'" for k k'
    using uniq[of "fst k" "fst (snd k)" "snd (snd k)" "fst k'"] that by (cases k; cases k') simp
  moreover have "k = k'" if k: "k \<in> sys_issued s \<union> bearers_in db'" "k' \<in> sys_issued s \<union> bearers_in db'" "fst k = fst k'" for k k'
  proof -
    have "k \<in> sys_issued s \<or> k \<in> bearers_in db' \<and> fst k = ?h" "k' \<in> sys_issued s \<or> k' \<in> bearers_in db' \<and> fst k' = ?h"
      using k(1,2) new[of "fst k" "fst (snd k)" "snd (snd k)"] new[of "fst k'" "fst (snd k')" "snd (snd k')"] by auto
    moreover have "fst x \<noteq> ?h" if "x \<in> sys_issued s" for x using f1[of "fst x" "fst (snd x)" "snd (snd x)"] that by simp
    ultimately consider "k \<in> sys_issued s" "k' \<in> sys_issued s" | "k \<in> bearers_in db'" "k' \<in> bearers_in db'" "fst k = ?h" "fst k' = ?h"
      using k(3) by metis
    then show ?thesis
    proof cases
      case 1
      then show ?thesis using k(3) by (rule b4)
    next
      case 2
      then show ?thesis using one[of "fst (snd k)" "snd (snd k)" "fst (snd k')" "snd (snd k')"] by (cases k; cases k') simp
    qed
  qed
  ultimately show ?thesis
    unfolding bearers_ok_def after_call_def session_system.simps by blast
qed

lemma session_ok_init: "session_init s \<Longrightarrow> session_ok c s"
proof -
  assume s: "session_init s"
  then have ok: "idb_ok (sys_db s)" by (simp add: session_init_def)
  have d: "distinct (map (\<lambda>r. (ses_family r, ses_generation r)) (idb_sessions (sys_db s)))" using s by (simp add: session_init_def)
  have "ses_generation r \<le> fam_generation f" if "r \<in> set (idb_sessions (sys_db s))" "f \<in> set (idb_families (sys_db s))"
      "fam_id f = ses_family r" for r f
    using gens_okD(1)[OF ok that(1)] row_eq[OF keys_okD(3)[OF ok] _ that(2)] that(3) by (auto simp: in_family_def)
  then have "\<forall>k\<in>bearers_in (sys_db s). \<forall>f\<in>set (idb_families (sys_db s)). fam_id f = fst (snd k) \<longrightarrow> snd (snd k) \<le> fam_generation f"
    unfolding bearers_in_def by auto
  moreover have "ses_hash r = ses_hash r'" if "r \<in> set (idb_sessions (sys_db s))" "r' \<in> set (idb_sessions (sys_db s))"
      "ses_family r = ses_family r'" "ses_generation r = ses_generation r'" for r r'
  proof -
    have "r = r'" by (rule row_eq[OF d that(1,2)]) (simp add: that(3,4))
    then show ?thesis by simp
  qed
  then have "fst k = fst k'" if "k \<in> bearers_in (sys_db s)" "k' \<in> bearers_in (sys_db s)" "snd k = snd k'" for k k'
    using that unfolding bearers_in_def by (metis (no_types, lifting) fst_conv imageE snd_conv)
  moreover have "k = k'" if k: "k \<in> bearers_in (sys_db s)" "k' \<in> bearers_in (sys_db s)" "fst k = fst k'" for k k'
  proof -
    obtain r r' where r: "r \<in> set (idb_sessions (sys_db s))" "r' \<in> set (idb_sessions (sys_db s))"
      "k = (ses_hash r, ses_family r, ses_generation r)" "k' = (ses_hash r', ses_family r', ses_generation r')"
      using k(1,2) unfolding bearers_in_def by blast
    have "r = r'" by (rule row_eq[OF keys_okD(2)[OF ok] r(1,2)]) (use k(3) r(3,4) in simp)
    then show ?thesis by (simp add: r(3,4))
  qed
  moreover have i: "sys_issued s = bearers_in (sys_db s)" "idb_admissions (sys_db s) = []" "sys_log s = []"
    using s by (simp_all add: session_init_def)
  ultimately have "bearers_ok s" unfolding bearers_ok_def i(1) by blast
  then show ?thesis using ok i(2,3) by (simp add: session_ok_def kept_admissions_def)
qed

lemma session_okD:
  assumes "session_ok c s"
  shows "idb_ok (sys_db s)" "bearers_ok s" "kept_admissions (cfg_policy c) s"
  using assms unfolding session_ok_def by blast+

lemma session_ok_step:
  assumes "session_ok c s" "session_step c s t"
  shows "session_ok c t"
  using assms(2)
proof cases
  case (called e db')
  have k: "keeps (cfg_hash c (new_token e)) (new_family e) (sys_db s) db'" by (rule session_call_keeps[OF called(2)])
  then have "idb_ok db'" using assms(1) by (simp add: keeps_def session_ok_def)
  moreover have "bearers_ok t" unfolding called(1)
    using assms(1) by (intro bearers_after[OF _ _ called(3) k]) (simp_all add: session_ok_def)
  moreover have "kept_admissions (cfg_policy c) t" unfolding called(1)
    using assms(1) by (intro kept_after[OF _ called(4) session_call_admits[OF called(2)]]) (simp add: session_ok_def)
  ultimately show ?thesis unfolding called(1) by (simp add: session_ok_def after_call_def)
next
  case (waited now)
  have "kept_admissions (cfg_policy c) s" using assms(1) by (simp add: session_ok_def)
  note k = this kept_later[OF this waited(2)]
  have ids: "\<forall>r\<in>set (idb_admissions (sys_db s)). adm_id r < idb_next (sys_db s)"
    using k(1) by (simp add: kept_admissions_def Let_def)
  have t: "sys_db t = sys_db s" "sys_log t = sys_log s" "sys_clock t = now" unfolding waited(1) by simp_all
  have "kept_admissions (cfg_policy c) t"
    unfolding kept_admissions_def Let_def t using k(2) ids by (rule conjI)
  moreover have i: "sys_issued t = sys_issued s" unfolding waited(1) by simp
  have "bearers_ok t" using session_okD(2)[OF assms(1)] unfolding bearers_ok_def t i .
  moreover have "idb_ok (sys_db t)" using session_okD(1)[OF assms(1)] unfolding t .
  ultimately show ?thesis by (simp add: session_ok_def)
qed

interpretation session_store: invariant_system session_init "session_step c" "session_ok c" for c
  by unfold_locales (auto intro: session_ok_init session_ok_step)

lemma session_reachable_ok: "session_reachable c s \<Longrightarrow> session_ok c s"
  unfolding session_reachable_def by (blast intro: session_store.reachable_inv)

section \<open>Bearers as fenced leases\<close>

text \<open>
  A bearer is a lease on its family, its generation is the fence, its hash the holder; it is owned while the store
  accepts it.
\<close>

definition bearer_accepted :: "session_system \<Rightarrow> bearer \<Rightarrow> bool" where
  "bearer_accepted s k = accepts (sys_clock s) (fst k) (fst (snd k)) (snd (snd k)) (sys_db s)"

lemma accepted_generation:
  assumes ok: "idb_ok db" and a: "accepts now h f g db" "accepts now h' f g' db"
  shows "g = g'"
proof -
  obtain s where s: "s \<in> set (idb_sessions db)" "ses_family s = f" "ses_generation s = g" "ses_revoked s = None"
    using a(1) unfolding accepts_def by blast
  obtain s' where s': "s' \<in> set (idb_sessions db)" "ses_family s' = f" "ses_generation s' = g'" "ses_revoked s' = None"
    using a(2) unfolding accepts_def by blast
  have "s = s'" by (rule gens_okD(2)[OF ok s(1) s'(1) s(4) s'(4)]) (simp add: s(2) s'(2))
  then show ?thesis using s(3) s'(3) by simp
qed

lemma accepted_step:
  assumes ok: "session_ok c s" and st: "session_step c s t" and k: "k \<in> sys_issued s" and a: "bearer_accepted t k"
  shows "bearer_accepted s k"
  using st
proof cases
  case (called e db')
  have "keeps (cfg_hash c (new_token e)) (new_family e) (sys_db s) db'" by (rule session_call_keeps[OF called(2)])
  then have m: "moves (cfg_hash c (new_token e)) (new_family e) (sys_db s) db'" using ok by (simp add: keeps_def session_ok_def)
  have "fst k \<noteq> cfg_hash c (new_token e)" using called(3) k by (auto simp: fresh_values_def)
  moreover have "accepts (env_now e) (fst k) (fst (snd k)) (snd (snd k)) db'"
    using a unfolding called(1) by (simp add: bearer_accepted_def after_call_def)
  ultimately have "accepts (env_now e) (fst k) (fst (snd k)) (snd (snd k)) (sys_db s)" by (rule movesD(1)[OF m])
  then show ?thesis unfolding bearer_accepted_def by (rule accepts_mono) (rule called(4))
next
  case (waited now)
  have "accepts now (fst k) (fst (snd k)) (snd (snd k)) (sys_db s)"
    using a unfolding waited(1) by (simp add: bearer_accepted_def)
  then show ?thesis unfolding bearer_accepted_def by (rule accepts_mono) (rule waited(2))
qed

lemma issued_grows: "session_step c s t \<Longrightarrow> sys_issued s \<subseteq> sys_issued t"
  by (auto simp: after_call_def elim: session_step.cases)

interpretation bearers: fenced_store session_init "session_step c" "session_ok c" sys_issued bearer_accepted
    "\<lambda>k. fst (snd k)" "\<lambda>k. int (snd (snd k))" fst for c
proof unfold_locales
  show "session_step c s t \<Longrightarrow> sys_issued s \<subseteq> sys_issued t" for s t by (rule issued_grows)
  show "fst a = fst b" if s: "session_ok c s" "a \<in> sys_issued s" "b \<in> sys_issued s" and eq: "fst (snd a) = fst (snd b)"
      "int (snd (snd a)) = int (snd (snd b))" for s a b
  proof -
    have "snd a = snd b" using eq by (simp add: prod_eq_iff)
    then show ?thesis using s unfolding session_ok_def bearers_ok_def by blast
  qed
  show "int (snd (snd a)) = int (snd (snd b))" if "session_ok c s" "fst (snd a) = fst (snd b)" "bearer_accepted s a" "bearer_accepted s b" for s a b
    using accepted_generation[of "sys_db s"] that by (metis bearer_accepted_def session_ok_def)
  show "\<not> bearer_accepted t a" if "session_ok c s" "session_step c s t" "a \<in> sys_issued s" "\<not> bearer_accepted s a" for s t a
    using accepted_step that by blast
qed

lemma accepted_bearer_validates:
  assumes ok: "session_ok c s" and k: "fst k = cfg_hash c token" "bearer_accepted s k" "py_strip token \<noteq> []"
  shows "\<not> isl (validate_public_token c (sys_clock s) token (sys_db s))"
proof -
  have "idb_ok (sys_db s)" using ok by (simp add: session_ok_def)
  moreover have "\<exists>f g. accepts (sys_clock s) (cfg_hash c token) f g (sys_db s)"
    using k(1,2) unfolding bearer_accepted_def by auto
  ultimately show ?thesis using k(3) by (simp add: validate_iff)
qed

text \<open>A token the store accepts is one it issued.\<close>

lemma accepted_token:
  assumes ok: "session_ok c s" and v: "\<not> isl (validate_public_token c (sys_clock s) token (sys_db s))"
  obtains k where "k \<in> sys_issued s" "fst k = cfg_hash c token" "bearer_accepted s k"
proof -
  have "idb_ok (sys_db s)" using ok by (simp add: session_ok_def)
  then obtain f g where a: "accepts (sys_clock s) (cfg_hash c token) f g (sys_db s)" using v validate_iff by blast
  then have "(cfg_hash c token, f, g) \<in> bearers_in (sys_db s)" unfolding accepts_def bearers_in_def by (force simp: image_iff)
  then have "(cfg_hash c token, f, g) \<in> sys_issued s" using ok unfolding session_ok_def bearers_ok_def by blast
  then show ?thesis using a that[of "(cfg_hash c token, f, g)"] by (simp add: bearer_accepted_def)
qed

section \<open>Admissions as a log with windows\<close>

lemma length_in_window:
  assumes "kept_admissions p s" "sys_clock s \<le> now" "dur \<le> max (pol_window p) 86400"
  shows "length (filter (in_window now dur peer) (idb_admissions (prune_admissions p now (sys_db s)))) =
    length (filter (in_window now dur peer) (sys_log s))"
proof -
  let ?R = "\<lambda>r. now - max (pol_window p) 86400 \<le> adm_at r"
  have w: "filter (in_window now dur peer) xs = filter (in_window now dur peer) (filter ?R xs)" for xs
  proof -
    have "in_window now dur peer r \<longrightarrow> ?R r" for r using assms(3) by (auto simp: in_window_def)
    then show ?thesis by (induction xs) auto
  qed
  have "length (filter (in_window now dur peer) (idb_admissions (prune_admissions p now (sys_db s)))) =
      length (filter (in_window now dur peer) (rev (idb_admissions (prune_admissions p now (sys_db s)))))"
    by (simp add: rev_filter[symmetric])
  also have "\<dots> = length (filter (in_window now dur peer) (filter ?R (sys_log s)))"
    by (simp only: pruned_rows kept_later[OF assms(1,2)])
  finally show ?thesis by (simp only: w[symmetric])
qed

text \<open>One step of the log, for each of the four windows.\<close>

lemma log_step:
  assumes ok: "session_ok c s" and st: "session_step c s t" and p: "pol = cfg_policy c"
  shows "sys_log t = sys_log s \<or> (\<exists>r. sys_log t = r # sys_log s \<and>
     length (filter (in_window (adm_at r) (pol_window pol) (Some (adm_peer r))) (sys_log s)) < pol_peer_window pol \<and>
     length (filter (in_window (adm_at r) (pol_window pol) None) (sys_log s)) < pol_global_window pol \<and>
     length (filter (in_window (adm_at r) 86400 (Some (adm_peer r))) (sys_log s)) < pol_peer_day pol \<and>
     length (filter (in_window (adm_at r) 86400 None) (sys_log s)) < pol_global_day pol)"
  using st
proof cases
  case (called e db')
  have k: "kept_admissions pol s" using ok by (simp add: session_ok_def p)
  have "admits pol (env_now e) (sys_db s) db'" unfolding p by (rule session_call_admits[OF called(2)])
  from log_after[OF k this] show ?thesis
  proof (elim disjE exE conjE)
    fix r assume r: "sys_log (after_call db' (env_now e) s) = r # sys_log s" "adm_at r = env_now e"
      and w: "windows_free pol (env_now e) (adm_peer r) (prune_admissions pol (env_now e) (sys_db s))"
    have "pol_window pol \<le> max (pol_window pol) 86400" "86400 \<le> max (pol_window pol) 86400" by simp_all
    note len = this[THEN length_in_window[OF k called(4)]]
    show ?thesis unfolding called(1)
      using r(1) w[unfolded windows_free_def len, folded r(2)] by (intro disjI2 exI[of _ r]) simp
  qed (simp_all add: called(1))
qed simp

end
