(* ===== verification/SessionsProps.thy ===== *)
theory SessionsProps
  imports SessionsSystem
begin

text \<open>
  What \<open>SessionStore\<close> promises: a refused bearer stays refused, the checks of a bearer, of a bound principal and of
  a ticket agree, a renewal replaces the bearer and keeps the identity, and enrollments stay within their windows.
\<close>

section \<open>Refused bearers\<close>

lemma reachable_init:
  assumes "session_reachable c s"
  obtains s0 where "session_init s0" "(session_step c)\<^sup>*\<^sup>* s0 s"
  using assms unfolding session_reachable_def by blast

text \<open>
  C26. A bearer is never revived: a token that the store issued and refuses at one moment (expired, revoked with
  its session, family or device, replaced by a renewal, or deleted) is refused for good, whatever enrollments,
  renewals, rotations, claims, revocations, clean-ups and hub calls follow.
\<close>

theorem refused_bearer_stays_refused:
  assumes s: "session_reachable c s" and st: "(session_step c)\<^sup>*\<^sup>* s t"
    and i: "cfg_hash c token \<in> fst ` sys_issued s"
    and r: "isl (validate_public_token c (sys_clock s) token (sys_db s))"
  shows "isl (validate_public_token c (sys_clock t) token (sys_db t))"
proof (rule ccontr)
  assume a: "\<not> isl (validate_public_token c (sys_clock t) token (sys_db t))"
  note ok = session_reachable_ok[OF s]
  note ok' = session_store.inv_star[OF st ok]
  obtain k where k: "k \<in> sys_issued t" "fst k = cfg_hash c token" "bearer_accepted t k" by (rule accepted_token[OF ok' a])
  obtain k0 where k0: "k0 \<in> sys_issued s" "fst k0 = cfg_hash c token" using i by auto
  have "k0 \<in> sys_issued t" using bearers.issued_star[OF st ok] k0(1) by blast
  moreover have "\<forall>a\<in>sys_issued t. \<forall>b\<in>sys_issued t. fst a = fst b \<longrightarrow> a = b"
    using session_okD(2)[OF ok'] unfolding bearers_ok_def by blast
  ultimately have "k0 = k" using k k0(2) by simp
  then have "bearer_accepted s k0" using bearers.never_revived[OF st ok k0(1)] k(3) by blast
  moreover have "py_strip token \<noteq> []" using a validate_iff[OF session_okD(1)[OF ok']] by blast
  ultimately show False using accepted_bearer_validates[OF ok k0(2)] r by blast
qed

text \<open>At one moment a family has one accepted bearer.\<close>

lemma one_bearer_per_family:
  assumes ok: "session_ok c s" and k: "k \<in> sys_issued s" "k' \<in> sys_issued s" "fst (snd k) = fst (snd k')"
    and a: "bearer_accepted s k" "bearer_accepted s k'"
  shows "fst k = fst k'"
  using bearers.exclusive[OF ok k a] by blast

section \<open>The checks agree\<close>

lemma bearer_check:
  assumes ok: "idb_ok db" and r: "r \<in> set (idb_sessions db)"
  obtains fr j where "joined (ses_family r) (ses_who r) db = Some (fr, j)" "in_family r fr"
  using session_rows[OF ok r] by (metis surj_pair)

lemma assert_session:
  assumes ok: "idb_ok db" and r: "r \<in> set (idb_sessions db)" and f: "ses_family r \<noteq> []"
  shows "assert_active_principal now (principal_of r) db = Inr () \<longleftrightarrow>
    ses_revoked r = None \<and> now < ses_expires r \<and> (\<exists>j. joined (ses_family r) (ses_who r) db = Some j \<and> live j)"
proof -
  obtain fr j where j: "joined (ses_family r) (ses_who r) db = Some (fr, j)" "in_family r fr" by (rule bearer_check[OF ok r])
  have "List.find (\<lambda>s. ses_id s = ses_id r \<and> ses_who s = ses_who r \<and> ses_family s = ses_family r) (idb_sessions db) = Some r"
    using r by (simp add: find_key_cond[OF keys_okD(1)[OF ok]])
  then show ?thesis
    using j f by (auto simp: assert_active_principal_def principal_of_def has_family_def truthy_str_def in_family_def)
qed

text \<open>The live session behind an accepted bearer or ticket.\<close>

definition live_session :: "rat \<Rightarrow> idb \<Rightarrow> session_row \<Rightarrow> bool" where
  "live_session now db x = (x \<in> set (idb_sessions db) \<and> ses_revoked x = None \<and> now < ses_expires x \<and>
     (\<exists>j. joined (ses_family x) (ses_who x) db = Some j \<and> live j))"

lemma live_session_active:
  assumes "idb_ok db" "live_session now db x"
  shows "assert_active_principal now (principal_of x) db = Inr ()"
proof (cases "ses_family x = []")
  case True
  then show ?thesis by (simp add: assert_active_principal_def has_family_def principal_of_def truthy_str_def)
next
  case False
  then show ?thesis using assert_session[OF assms(1) _ False] assms(2) unfolding live_session_def by blast
qed

lemma bearer_session:
  assumes "validate_public_token c now token db = Inr p"
  shows "\<exists>x. p = principal_of x \<and> ses_hash x = cfg_hash c token \<and> live_session now db x"
proof -
  from assms obtain x where x: "List.find (\<lambda>s. ses_hash s = cfg_hash c token) (idb_sessions db) = Some x"
    by (cases "List.find (\<lambda>s. ses_hash s = cfg_hash c token) (idb_sessions db)") (auto simp: validate_public_token_def split: if_splits)
  with assms obtain j where j: "joined (ses_family x) (ses_who x) db = Some j"
    by (cases "joined (ses_family x) (ses_who x) db") (auto simp: validate_public_token_def split: if_splits)
  have "p = principal_of x" "ses_revoked x = None" "now < ses_expires x" "live j"
    using assms by (simp_all add: validate_public_token_def x j split: if_splits)
  with find_SomeD[OF x] j show ?thesis unfolding live_session_def by blast
qed

lemma ticket_session:
  assumes "idb_ok db" "validate_resource_ticket c now ticket rt rid db = Inr p"
  shows "\<exists>x. p = principal_of x \<and> live_session now db x"
proof -
  from assms obtain x where "x \<in> set (idb_sessions db)" "p = principal_of x" "ses_revoked x = None" "now < ses_expires x"
      "\<exists>j. joined (ses_family x) (ses_who x) db = Some j \<and> live j"
    by (auto simp: validate_resource_ticket_def find_key_cond[OF keys_okD(1)[OF assms(1)]] split: option.splits if_splits)
  then show ?thesis unfolding live_session_def by blast
qed

text \<open>
  C31. The three checks agree: for every stored session, resolving its bearer gives its principal exactly when
  revalidating that principal without the bearer succeeds, as open websockets do; the generation that only the
  revalidation compares makes no difference.  And the principal of an accepted ticket passes the revalidation.
\<close>

theorem bearer_and_principal_checks_agree:
  assumes s: "session_reachable c s" and r: "r \<in> set (idb_sessions (sys_db s))" "ses_hash r = cfg_hash c token"
    and ne: "py_strip token \<noteq> []" "ses_family r \<noteq> []"
  shows "(validate_public_token c now token (sys_db s) = Inr (principal_of r) \<longleftrightarrow>
      assert_active_principal now (principal_of r) (sys_db s) = Inr ()) \<and>
    (\<forall>ticket rt rid p. validate_resource_ticket c now ticket rt rid (sys_db s) = Inr p \<longrightarrow>
      assert_active_principal now p (sys_db s) = Inr ())"
proof (intro conjI allI impI)
  let ?db = "sys_db s"
  have ok: "idb_ok ?db" by (rule session_okD(1)[OF session_reachable_ok[OF s]])
  have "List.find (\<lambda>s. ses_hash s = cfg_hash c token) (idb_sessions ?db) = Some r"
    using r by (simp add: find_key[OF keys_okD(2)[OF ok]])
  then have "validate_public_token c now token ?db = Inr (principal_of r) \<longleftrightarrow>
      ses_revoked r = None \<and> now < ses_expires r \<and> (\<exists>j. joined (ses_family r) (ses_who r) ?db = Some j \<and> live j)"
    using ne(1) by (auto simp: validate_public_token_def split: option.splits)
  then show "validate_public_token c now token ?db = Inr (principal_of r) \<longleftrightarrow>
      assert_active_principal now (principal_of r) ?db = Inr ()"
    using assert_session[OF ok r(1) ne(2)] by simp
  show "assert_active_principal now p ?db = Inr ()" if "validate_resource_ticket c now ticket rt rid ?db = Inr p" for ticket rt rid p
    using ticket_session[OF ok that] live_session_active[OF ok] by blast
qed

section \<open>Admission windows\<close>

lemma session_log_step:
  assumes "session_init s0" "(session_step c)\<^sup>*\<^sup>* s0 s" "session_step c s t"
  shows "sys_log t = sys_log s \<or> (\<exists>r. sys_log t = r # sys_log s \<and>
     length (filter (in_window (adm_at r) (pol_window (cfg_policy c)) (Some (adm_peer r))) (sys_log s)) < pol_peer_window (cfg_policy c) \<and>
     length (filter (in_window (adm_at r) (pol_window (cfg_policy c)) None) (sys_log s)) < pol_global_window (cfg_policy c) \<and>
     length (filter (in_window (adm_at r) 86400 (Some (adm_peer r))) (sys_log s)) < pol_peer_day (cfg_policy c) \<and>
     length (filter (in_window (adm_at r) 86400 None) (sys_log s)) < pol_global_day (cfg_policy c))"
  by (rule log_step[OF _ assms(3) refl]) (rule session_store.reachable_inv[OF assms(1,2)])

lemma in_window_iff:
  "in_window now dur None x \<longleftrightarrow> now - dur < adm_at x"
  "in_window now dur (Some p) x \<longleftrightarrow> adm_peer x = p \<and> now - dur < adm_at x"
  by (simp_all add: in_window_def)

lemma log_init: "session_init s \<Longrightarrow> sys_log s = []"
  by (simp add: session_init_def)

interpretation global_window: rate_limited session_init "session_step c" sys_log adm_at "\<lambda>_. True"
    "pol_window (cfg_policy c)" "pol_global_window (cfg_policy c)" for c
  by unfold_locales (rule log_init, assumption, drule (2) session_log_step, unfold in_window_iff, simp, blast)

interpretation global_day: rate_limited session_init "session_step c" sys_log adm_at "\<lambda>_. True"
    86400 "pol_global_day (cfg_policy c)" for c
  by unfold_locales (rule log_init, assumption, drule (2) session_log_step, unfold in_window_iff, simp, blast)

interpretation peer_window: rate_limited session_init "session_step c" sys_log adm_at "\<lambda>r. adm_peer r = p"
    "pol_window (cfg_policy c)" "pol_peer_window (cfg_policy c)" for c p
  by unfold_locales (rule log_init, assumption, drule (2) session_log_step, unfold in_window_iff, blast)

interpretation peer_day: rate_limited session_init "session_step c" sys_log adm_at "\<lambda>r. adm_peer r = p"
    86400 "pol_peer_day (cfg_policy c)" for c p
  by unfold_locales (rule log_init, assumption, drule (2) session_log_step, unfold in_window_iff, blast)

text \<open>
  C14. New identities are rationed: in no interval of the length of the window, and in none of a day, are more
  enrollments admitted than the global limits and, from one peer, than the limits per peer, whenever the
  interval starts and however often the admission table was pruned in between.
\<close>

theorem admission_windows_hold:
  assumes "session_reachable c s" and "pol = cfg_policy c"
  shows "length (filter (\<lambda>r. a < adm_at r \<and> adm_at r \<le> a + pol_window pol) (sys_log s)) \<le> pol_global_window pol \<and>
    length (filter (\<lambda>r. a < adm_at r \<and> adm_at r \<le> a + 86400) (sys_log s)) \<le> pol_global_day pol \<and>
    length (filter (\<lambda>r. adm_peer r = p \<and> a < adm_at r \<and> adm_at r \<le> a + pol_window pol) (sys_log s)) \<le> pol_peer_window pol \<and>
    length (filter (\<lambda>r. adm_peer r = p \<and> a < adm_at r \<and> adm_at r \<le> a + 86400) (sys_log s)) \<le> pol_peer_day pol"
proof -
  obtain s0 where s0: "session_init s0" "(session_step c)\<^sup>*\<^sup>* s0 s" by (rule reachable_init[OF assms(1)])
  show ?thesis
    using global_window.window_bound[OF s0, of a] global_day.window_bound[OF s0, of a]
      peer_window.window_bound[OF s0, of p a] peer_day.window_bound[OF s0, of p a]
    by (simp add: assms(2))
qed

section \<open>Renewal\<close>

text \<open>The database just before the new session is inserted.\<close>

definition before_insert :: "rat \<Rightarrow> credential_row \<times> nat \<Rightarrow> idb \<Rightarrow> idb" where
  "before_insert now row db =
     (let f = crd_family (fst row);
          d2 = next_generation now (snd row + 1) (\<lambda>x. fam_id x = f \<and> fam_revoked x = None) (revoke_sessions now (\<lambda>s. ses_family s = f) db)
      in touch_device now (crd_who (fst row))
           (d2\<lparr>idb_credentials := update_where (\<lambda>x. crd_id x = crd_id (fst row)) (\<lambda>x. x\<lparr>crd_used := Some now\<rparr>) (idb_credentials d2)\<rparr>))"

lemma renew_unfold:
  "renew_credential_row c e row ttl db = insert_session c e (crd_who (fst row)) (crd_family (fst row)) (snd row + 1) ttl
     (map_option ses_id (order_first (\<lambda>s. - int (ses_generation s)) (\<lambda>s. ses_family s = crd_family (fst row) \<and> ses_revoked s = None)
        (idb_sessions db)))
     (before_insert (env_now e) row db)"
  by (simp add: renew_credential_row_def before_insert_def Let_def)

lemma before_insert_sessions:
  "idb_sessions (before_insert now row db) = idb_sessions (revoke_sessions now (\<lambda>s. ses_family s = crd_family (fst row)) db)"
  by (simp add: before_insert_def Let_def touch_device_def next_generation_def)

lemma before_insert_devices:
  "idb_devices (before_insert now row db) = update_where (\<lambda>r. dvc_who r = crd_who (fst row)) (\<lambda>r. r\<lparr>dvc_seen := now\<rparr>) (idb_devices db)"
  by (simp add: before_insert_def Let_def touch_device_def next_generation_def revoke_sessions_def)

lemma before_insert_families:
  "idb_families (before_insert now row db) = update_where (\<lambda>x. fam_id x = crd_family (fst row) \<and> fam_revoked x = None)
     (\<lambda>r. r\<lparr>fam_generation := snd row + 1, fam_renewed := now\<rparr>) (idb_families db)"
  by (simp add: before_insert_def Let_def touch_device_def next_generation_def revoke_sessions_def)

lemma before_insert_accounts:
  "idb_users (before_insert now row db) = idb_users db" "idb_tenants (before_insert now row db) = idb_tenants db"
  by (simp_all add: before_insert_def Let_def touch_device_def next_generation_def revoke_sessions_def)

lemma update_where_in: "r \<in> set rs \<Longrightarrow> (if p r then f r else r) \<in> set (update_where p f rs)"
  by (auto simp: update_where_def)

lemma image_update_where:
  assumes "\<And>r. k (f r) = k r"
  shows "k ` set (update_where p f rs) = k ` set rs"
proof -
  have "map k (update_where p f rs) = map k rs" by (rule map_update_where) (rule assms)
  from arg_cong[OF this, of set] show ?thesis by simp
qed

lemma order_first_in: "order_first k p rs = Some r \<Longrightarrow> r \<in> set rs \<and> p r"
proof -
  assume "order_first k p rs = Some r"
  then obtain xs where xs: "sort_key k (filter p rs) = r # xs" by (auto simp: order_first_def split: list.splits)
  have "r \<in> set (sort_key k (filter p rs))" unfolding xs by simp
  then show ?thesis by simp
qed

text \<open>The rows of a session after its family was closed: the same row, now revoked.\<close>

lemma closed_session:
  assumes "s \<in> set (idb_sessions db)" "ses_family s = f"
  obtains s' where "s' \<in> set (idb_sessions (revoke_sessions now (\<lambda>s. ses_family s = f) db))" "ses_hash s' = ses_hash s"
    "ses_id s' = ses_id s" "ses_revoked s' \<noteq> None"
proof
  let ?s = "if ses_family s = f \<and> ses_revoked s = None then s\<lparr>ses_revoked := Some now\<rparr> else s"
  show "?s \<in> set (idb_sessions (revoke_sessions now (\<lambda>s. ses_family s = f) db))"
    using update_where_in[OF assms(1), of "\<lambda>r. ses_family r = f \<and> ses_revoked r = None" "\<lambda>r. r\<lparr>ses_revoked := Some now\<rparr>"]
    by (simp add: revoke_sessions_def)
  show "ses_hash ?s = ses_hash s" "ses_id ?s = ses_id s" "ses_revoked ?s \<noteq> None" using assms(2) by simp_all
qed

lemma revoked_session_source:
  assumes "s' \<in> set (idb_sessions (revoke_sessions now p db))"
  shows "\<exists>s\<in>set (idb_sessions db). ses_id s = ses_id s' \<and> ses_hash s = ses_hash s'"
proof (rule update_where_source)
  show "s' \<in> set (update_where (\<lambda>r. p r \<and> ses_revoked r = None) (\<lambda>r. r\<lparr>ses_revoked := Some now\<rparr>) (idb_sessions db))"
    using assms by (simp add: revoke_sessions_def)
qed simp

text \<open>A renewal with a valid credential and fresh values passes every constraint.\<close>

lemma renew_succeeds:
  assumes ok: "idb_ok db" and row: "find_credential c (env_now e) cred db = Inr row"
    and h: "cfg_hash c (new_token e) \<notin> ses_hash ` set (idb_sessions db)" and i: "new_session e \<notin> ses_id ` set (idb_sessions db)"
  obtains s db' new where "renew_credential_row c e row ttl db = Inr (s, db')"
    "idb_sessions db' = idb_sessions (before_insert (env_now e) row db) @ [new]"
    "idb_families db' = idb_families (before_insert (env_now e) row db)" "idb_devices db' = idb_devices (before_insert (env_now e) row db)"
    "idb_users db' = idb_users db" "idb_tenants db' = idb_tenants db"
    "ses_id new = new_session e" "ses_hash new = cfg_hash c (new_token e)" "ses_who new = crd_who (fst row)"
    "ses_expires new = env_now e + ttl" "ses_revoked new = None" "ses_family new = crd_family (fst row)"
    "s = \<lparr>iss_token = new_token e, iss_principal = \<lparr>pri_who = crd_who (fst row), pri_session = new_session e, pri_public = True,
       pri_family = Some (crd_family (fst row))\<rparr>, iss_expires = env_now e + ttl\<rparr>"
proof -
  let ?f = "crd_family (fst row)" and ?w = "crd_who (fst row)" and ?now = "env_now e"
  let ?b = "before_insert ?now row db"
  let ?prev = "map_option ses_id (order_first (\<lambda>s. - int (ses_generation s)) (\<lambda>s. ses_family s = ?f \<and> ses_revoked s = None) (idb_sessions db))"
  let ?new = "\<lparr>ses_id = new_session e, ses_hash = cfg_hash c (new_token e), ses_who = ?w, ses_issued = ?now,
    ses_expires = ?now + ttl, ses_revoked = None, ses_family = ?f, ses_generation = snd row + 1, ses_from = ?prev\<rparr>"
  obtain fr where fr: "fr \<in> set (idb_families db)" "fam_id fr = ?f" "fam_who fr = ?w" "fam_generation fr = snd row" "fam_revoked fr = None"
    by (rule find_credential_family[OF ok row])
  have "\<not> list_ex (\<lambda>r. ses_id r = new_session e \<or> ses_hash r = cfg_hash c (new_token e) \<or> (ses_family r = ?f \<and> ses_revoked r = None)) (idb_sessions ?b)"
    unfolding before_insert_sessions list_ex_iff
    using h i revoked_session_source revoked_sessions_gone by (metis (mono_tags, lifting) imageI)
  moreover have "family_at ?f ?w ?b \<noteq> None"
    unfolding at_None before_insert_families
    using update_where_in[OF fr(1), of "\<lambda>x. fam_id x = ?f \<and> fam_revoked x = None" "\<lambda>r. r\<lparr>fam_generation := snd row + 1, fam_renewed := ?now\<rparr>"] fr
    by (force intro: rev_bexI)
  moreover have "?w \<in> dvc_who ` set (idb_devices db)" using refs_okD(1)[OF ok fr(1)] fr(3) by simp
  then have "device_at ?w ?b \<noteq> None"
    unfolding at_None before_insert_devices by (simp add: image_update_where)
  moreover have "\<not> (case ?prev of None \<Rightarrow> False | Some x \<Rightarrow> \<not> list_ex (\<lambda>r. ses_id r = x) (idb_sessions ?b))"
  proof (cases "order_first (\<lambda>s. - int (ses_generation s)) (\<lambda>s. ses_family s = ?f \<and> ses_revoked s = None) (idb_sessions db)")
    case (Some p)
    from order_first_in[OF Some] have p: "p \<in> set (idb_sessions db)" "ses_family p = ?f" by auto
    obtain s' where "s' \<in> set (idb_sessions (revoke_sessions ?now (\<lambda>s. ses_family s = ?f) db))" "ses_id s' = ses_id p"
      by (rule closed_session[OF p])
    with Some show ?thesis by (auto simp: before_insert_sessions list_ex_iff)
  qed simp
  ultimately have "renew_credential_row c e row ttl db = Inr (\<lparr>iss_token = new_token e, iss_principal = \<lparr>pri_who = ?w,
      pri_session = new_session e, pri_public = True, pri_family = Some ?f\<rparr>, iss_expires = ?now + ttl\<rparr>,
    ?b\<lparr>idb_sessions := idb_sessions ?b @ [?new]\<rparr>)"
    unfolding renew_unfold insert_session_def Let_def by (intro if_not_P) blast
  from that[of _ _ ?new, OF this] show ?thesis by (simp add: before_insert_accounts)
qed

text \<open>The account of a renewed family still holds together, and an earlier bearer of the family finds a closed session.\<close>

lemma renewed_account_live:
  assumes ok: "idb_ok db" "idb_ok db'" and j: "joined (crd_family (fst row)) (crd_who (fst row)) db = Some j" "live j"
    and rows: "idb_families db' = idb_families (before_insert now row db)" "idb_devices db' = idb_devices (before_insert now row db)"
      "idb_users db' = idb_users db" "idb_tenants db' = idb_tenants db"
  shows "\<exists>j'. joined (crd_family (fst row)) (crd_who (fst row)) db' = Some j' \<and> live j'"
proof -
  obtain f0 d0 u0 t0 where 0: "j = (f0, d0, u0, t0)" by (cases j)
  note m = j(1)[unfolded 0 joined_Some[OF ok(1)]]
  let ?f1 = "f0\<lparr>fam_generation := snd row + 1, fam_renewed := now\<rparr>" and ?d1 = "d0\<lparr>dvc_seen := now\<rparr>"
  have "?f1 \<in> set (idb_families db')" "?d1 \<in> set (idb_devices db')"
    unfolding rows before_insert_families before_insert_devices in_update_where
    using m j(2) by (auto simp: 0 live_def intro!: bexI[of _ f0] bexI[of _ d0])
  then have "joined (crd_family (fst row)) (crd_who (fst row)) db' = Some (?f1, ?d1, u0, t0)"
    unfolding joined_Some[OF ok(2)] using m rows(3,4) by simp
  then show ?thesis using j(2) by (simp add: 0 live_def)
qed

lemma earlier_bearer_closed:
  assumes ok: "idb_ok db" "idb_ok db'" and rows: "idb_sessions db' = idb_sessions (before_insert now row db) @ [new]"
    and a: "validate_public_token c now token db = Inr p" "pri_family p = Some (crd_family (fst row))"
  shows "validate_public_token c now token db' = Inl Session_revoked"
proof -
  from a obtain r where r: "List.find (\<lambda>s. ses_hash s = cfg_hash c token) (idb_sessions db) = Some r" "p = principal_of r"
      "py_strip token \<noteq> []"
    by (auto simp: validate_public_token_def split: option.splits if_splits)
  then have r': "r \<in> set (idb_sessions db)" "ses_hash r = cfg_hash c token" by (simp_all add: find_key[OF keys_okD(2)[OF ok(1)]])
  have "ses_family r = crd_family (fst row)" using a(2) r(2) by (simp add: principal_of_def)
  from closed_session[OF r'(1) this, of now]
  obtain r1 where r1: "r1 \<in> set (idb_sessions (before_insert now row db))" "ses_hash r1 = ses_hash r" "ses_revoked r1 \<noteq> None"
    unfolding before_insert_sessions by metis
  then have in': "r1 \<in> set (idb_sessions db')" using rows by simp
  then have "List.find (\<lambda>s. ses_hash s = cfg_hash c token) (idb_sessions db') = Some r1"
    using r1(2) r'(2) by (simp add: find_key[OF keys_okD(2)[OF ok(2)]])
  moreover obtain x where "joined (ses_family r1) (ses_who r1) db' = Some x" using session_rows[OF ok(2) in'] by metis
  ultimately show ?thesis using r1(3) r(3) by (simp add: validate_public_token_def)
qed


section \<open>A run\<close>

definition visit_cfg :: session_cfg where
  "visit_cfg = \<lparr>cfg_ttl = 3600, cfg_credential_ttl = 86400,
     cfg_policy = \<lparr>pol_window = 3600, pol_peer_window = 2, pol_global_window = 10, pol_peer_day = 5, pol_global_day = 20,
       pol_active_max = 10, pol_batch = 5\<rparr>,
     cfg_hash = (\<lambda>s. s)\<rparr>"

definition visit_env :: "rat \<Rightarrow> string \<Rightarrow> session_env" where
  "visit_env now n = \<lparr>env_now = now, new_tenant = ''t'' @ n, new_owner = ''o'' @ n, new_device = ''d'' @ n, new_family = ''f'' @ n,
     new_enrollment = ''e'' @ n, new_secret = ''x'' @ n, new_credential = ''c'' @ n, new_session = ''s'' @ n,
     new_token = ''k'' @ n, new_ticket = ''r'' @ n\<rparr>"

definition secret_a :: string where
  "secret_a = ''0123456789abcdef0123456789abcdef''"

definition visit_request :: enroll_request where
  "visit_request = \<lparr>erq_enrollment = Some (''A'' @ secret_a), erq_secret = Some secret_a, erq_peer = ''peer'', erq_name = None,
     erq_tenant = None, erq_device = None, erq_user = None, erq_ttl = None, erq_policy = None\<rparr>"

definition empty_idb :: idb where
  "empty_idb = \<lparr>idb_tenants = [], idb_users = [], idb_devices = [], idb_families = [], idb_credentials = [], idb_enrollments = [],
     idb_admissions = [], idb_next = 1, idb_sessions = [], idb_tickets = [], idb_syncs = [], idb_pairings = [],
     idb_resources = [], idb_leases = [], idb_ledger = []\<rparr>"

definition visit0 :: session_system where
  "visit0 = \<lparr>sys_db = empty_idb, sys_clock = 0, sys_issued = {}, sys_log = []\<rparr>"

definition visit1 :: session_system where
  "visit1 = after_call (snd (projr (enroll_public_device visit_cfg (visit_env 0 ''1'') visit_request (sys_db visit0)))) 0 visit0"

definition visit2 :: session_system where
  "visit2 = after_call (snd (projr (renew_public_session visit_cfg (visit_env 10 ''2'') secret_a None (sys_db visit1)))) 10 visit1"

lemma visit1_runs:
  "enroll_public_device visit_cfg (visit_env 0 ''1'') visit_request (sys_db visit0) =
     Inr (fst (projr (enroll_public_device visit_cfg (visit_env 0 ''1'') visit_request (sys_db visit0))), sys_db visit1)"
  "fresh_values visit_cfg (visit_env 0 ''1'') visit0"
  by code_simp+

lemma visit2_runs:
  "renew_public_session visit_cfg (visit_env 10 ''2'') secret_a None (sys_db visit1) =
     Inr (fst (projr (renew_public_session visit_cfg (visit_env 10 ''2'') secret_a None (sys_db visit1))), sys_db visit2)"
  "fresh_values visit_cfg (visit_env 10 ''2'') visit1"
  by code_simp+

lemma visit_init: "session_init visit0"
  by (simp add: session_init_def visit0_def empty_idb_def idb_ok_def keys_ok_def refs_ok_def gens_ok_def bearers_in_def)

lemma visit_steps: "session_step visit_cfg visit0 visit1" "session_step visit_cfg visit1 visit2"
proof -
  have "session_call visit_cfg (visit_env 0 ''1'') (sys_db visit0) (sys_db visit1)"
    by (rule enrolled[OF _ visit1_runs(1)]) (simp add: visit_request_def)
  from session_step.called[OF this visit1_runs(2)] show "session_step visit_cfg visit0 visit1"
    by (simp add: visit1_def after_call_def visit_env_def visit0_def)
  have "session_call visit_cfg (visit_env 10 ''2'') (sys_db visit1) (sys_db visit2)"
    by (rule renewed[OF visit2_runs(1)])
  from session_step.called[OF this visit2_runs(2)] show "session_step visit_cfg visit1 visit2"
    by (simp add: visit2_def after_call_def visit_env_def visit1_def)
qed

lemma visit_reachable: "session_reachable visit_cfg visit1" "session_reachable visit_cfg visit2"
  using visit_init visit_steps unfolding session_reachable_def by (meson r_into_rtranclp rtranclp.rtrancl_into_rtrancl)+

text \<open>The first bearer is refused after the renewal, and a day later still.\<close>

theorem refused_bearer_stays_refused_witness:
  "isl (validate_public_token visit_cfg 86400 ''k1'' (sys_db visit2))"
proof -
  let ?t = "visit2\<lparr>sys_clock := 86400\<rparr>"
  have c: "sys_clock visit2 = 10" by (simp add: visit2_def after_call_def)
  then have st: "(session_step visit_cfg)\<^sup>*\<^sup>* visit2 ?t" by (intro r_into_rtranclp session_step.waited) simp
  have i: "cfg_hash visit_cfg ''k1'' \<in> fst ` sys_issued visit2" by code_simp
  have "isl (validate_public_token visit_cfg 10 ''k1'' (sys_db visit2))" by code_simp
  then have r: "isl (validate_public_token visit_cfg (sys_clock visit2) ''k1'' (sys_db visit2))" unfolding c .
  show ?thesis using refused_bearer_stays_refused[OF visit_reachable(2) st i r] by simp
qed

theorem bearer_and_principal_checks_agree_witness:
  "assert_active_principal 20 (principal_of (last (idb_sessions (sys_db visit2)))) (sys_db visit2) = Inr ()"
proof -
  let ?r = "last (idb_sessions (sys_db visit2))"
  have "?r \<in> set (idb_sessions (sys_db visit2))" "ses_hash ?r = cfg_hash visit_cfg ''k2''" "py_strip ''k2'' \<noteq> []" "ses_family ?r \<noteq> []"
    "validate_public_token visit_cfg 20 ''k2'' (sys_db visit2) = Inr (principal_of ?r)"
    by code_simp+
  then show ?thesis using bearer_and_principal_checks_agree[OF visit_reachable(2)] by blast
qed

theorem admission_windows_hold_witness:
  "length (filter (\<lambda>r. -1 < adm_at r \<and> adm_at r \<le> -1 + pol_window (cfg_policy visit_cfg)) (sys_log visit1)) \<le> 10 \<and>
     length (sys_log visit1) = 1"
proof -
  have "length (sys_log visit1) = 1" by code_simp
  then show ?thesis
    using admission_windows_hold[OF visit_reachable(1) refl, of "-1"] by (simp add: visit_cfg_def)
qed


text \<open>
  A device that created a pairing and then revoked its family blocks everybody: the clean-up of the orphan, which
  every new enrollment starts with, cannot delete the device, and the enrollment of a second identity fails.
\<close>

definition blocked_idb :: idb where
  "blocked_idb = snd (revoke_session_family 20 (principal_of (last (idb_sessions (sys_db visit1))))
     (pairing_rows 15 (''t1'', ''o1'', ''d1'') (sys_db visit1)))"

lemma pairing_blocks_enrollment:
  "enroll_public_device visit_cfg (visit_env 30 ''4'')
     (visit_request\<lparr>erq_enrollment := Some (''B'' @ secret_a), erq_secret := Some (''C'' @ secret_a), erq_peer := ''other''\<rparr>) blocked_idb
   = Inl Constraint"
  "\<not> isl (enroll_public_device visit_cfg (visit_env 30 ''4'')
     (visit_request\<lparr>erq_enrollment := Some (''B'' @ secret_a), erq_secret := Some (''C'' @ secret_a), erq_peer := ''other''\<rparr>) (sys_db visit1))"
  by code_simp+

end
