(* ===== verification/PathLex.thy ===== *)
theory PathLex
  imports PyText "HOL-Library.Sublist"
begin

text \<open>
  Python's lexical path functions on UTF-8 strings: \<open>str.split\<close> and \<open>join\<close> with a one-character separator,
  \<open>posixpath.normpath\<close>, \<open>ntpath.splitdrive\<close> and \<open>ntpath.normpath\<close> (the library's own Python definitions).
  The lemmas read a normalised path as the list of its names: splitting undoes joining, a string prefix that
  ends with the separator is a proper prefix of the names, and normalising an absolute path is walking from
  the root (\<open>walk_from\<close>), where \<open>..\<close> goes to the parent.
\<close>

abbreviation slash :: char where "slash \<equiv> CHR 0x2F"
abbreviation bslash :: char where "bslash \<equiv> CHR 0x5C"

section \<open>Splitting and joining\<close>

fun split_on :: "char \<Rightarrow> string \<Rightarrow> string list" where
  "split_on c [] = [[]]"
| "split_on c (x # xs) =
     (if x = c then [] # split_on c xs
      else case split_on c xs of [] \<Rightarrow> [[x]] | y # ys \<Rightarrow> (x # y) # ys)"

fun join :: "char \<Rightarrow> string list \<Rightarrow> string" where
  "join c [] = []"
| "join c [x] = x"
| "join c (x # y # ys) = x @ c # join c (y # ys)"

definition replace_char :: "char \<Rightarrow> char \<Rightarrow> string \<Rightarrow> string" where
  "replace_char a b s = map (\<lambda>c. if c = a then b else c) s"

lemma split_on_ne [simp]: "split_on c s \<noteq> []"
  by (induction s) (auto split: list.splits)

lemma split_on_Cons:
  "x \<noteq> c \<Longrightarrow> split_on c (x # xs) = (x # hd (split_on c xs)) # tl (split_on c xs)"
  by (cases "split_on c xs") auto

lemma split_on_free [simp]: "c \<notin> set s \<Longrightarrow> split_on c s = [s]"
  by (induction s) auto

lemma split_on_append: "split_on c (a @ c # b) = split_on c a @ split_on c b"
  by (induction a) (auto split: list.splits simp: Cons_eq_append_conv)

lemma split_on_parts: "x \<in> set (split_on c s) \<Longrightarrow> c \<notin> set x"
proof (induction s arbitrary: x)
  case (Cons a s)
  obtain y ys where "split_on c s = y # ys" by (cases "split_on c s") auto
  with Cons show ?case by (auto split: if_splits)
qed simp

lemma join_Cons: "xs \<noteq> [] \<Longrightarrow> join c (x # xs) = x @ c # join c xs"
  by (cases xs) auto

lemma join_split [simp]: "join c (split_on c s) = s"
proof (induction s)
  case (Cons a s)
  obtain y ys where ys: "split_on c s = y # ys" by (cases "split_on c s") auto
  show ?case
  proof (cases "a = c")
    case True
    then show ?thesis using Cons.IH by (simp add: join_Cons)
  next
    case False
    with ys Cons.IH show ?thesis by (cases ys) auto
  qed
qed simp

lemma split_join: "xs \<noteq> [] \<Longrightarrow> (\<And>x. x \<in> set xs \<Longrightarrow> c \<notin> set x) \<Longrightarrow> split_on c (join c xs) = xs"
  by (induction c xs rule: join.induct) (simp_all add: split_on_append)

lemma set_join: "x \<in> set xs \<Longrightarrow> set x \<subseteq> set (join c xs)"
  by (induction c xs rule: join.induct) auto

lemma join_free: "(\<And>x. x \<in> set xs \<Longrightarrow> a \<notin> set x) \<Longrightarrow> a \<noteq> c \<Longrightarrow> a \<notin> set (join c xs)"
  by (induction c xs rule: join.induct) auto

lemma split_on_inj: "split_on c a = split_on c b \<longleftrightarrow> a = b"
  by (metis join_split)

lemma join_append: "xs \<noteq> [] \<Longrightarrow> ys \<noteq> [] \<Longrightarrow> join c (xs @ ys) = join c xs @ c # join c ys"
  by (induction xs rule: join.induct) (auto simp: join_Cons)

text \<open>A prefix up to a separator is a proper prefix of the parts.\<close>

lemma prefix_sep_iff: "prefix (a @ [c]) s \<longleftrightarrow> strict_prefix (split_on c a) (split_on c s)"
proof
  assume "prefix (a @ [c]) s"
  then obtain b where "s = a @ c # b" by (auto elim: prefixE)
  then show "strict_prefix (split_on c a) (split_on c s)"
    by (auto simp: split_on_append strict_prefix_def)
next
  assume "strict_prefix (split_on c a) (split_on c s)"
  then obtain zs where zs: "split_on c s = split_on c a @ zs" "zs \<noteq> []"
    by (auto simp: strict_prefix_def prefix_def)
  then have "s = a @ c # join c zs" by (metis join_append join_split split_on_ne)
  then show "prefix (a @ [c]) s" by simp
qed

lemma replace_char_id: "a \<notin> set s \<Longrightarrow> replace_char a b s = s"
  by (auto simp: replace_char_def intro!: map_idI)

lemma replace_char_free [simp]: "a \<noteq> b \<Longrightarrow> a \<notin> set (replace_char a b s)"
  by (auto simp: replace_char_def)

lemma replace_char_append: "replace_char a b (s @ t) = replace_char a b s @ replace_char a b t"
  by (simp add: replace_char_def)

lemma length_replace_char [simp]: "length (replace_char a b s) = length s"
  by (simp add: replace_char_def)

section \<open>Normalising\<close>

text \<open>The loop of both \<open>normpath\<close> functions over the components; \<open>rooted\<close> tells whether \<open>..\<close> stops at the root.\<close>

fun norm_comps :: "bool \<Rightarrow> string list \<Rightarrow> string list \<Rightarrow> string list" where
  "norm_comps rooted new [] = new"
| "norm_comps rooted new (c # cs) = norm_comps rooted
     (if c = '''' \<or> c = ''.'' then new
      else if c \<noteq> ''..'' \<or> (\<not> rooted \<and> new = []) \<or> (new \<noteq> [] \<and> last new = ''..'') then new @ [c]
      else butlast new) cs"

definition posix_normpath :: "string \<Rightarrow> string" where
  "posix_normpath path =
     (let slashes = (if \<not> prefix [slash] path then 0
                     else if prefix [slash, slash] path \<and> \<not> prefix [slash, slash, slash] path then 2 else 1 :: nat);
          r = replicate slashes slash @ join slash (norm_comps (slashes \<noteq> 0) [] (split_on slash path))
      in if r = '''' then ''.'' else r)"

definition win_seps :: "string \<Rightarrow> string" where
  "win_seps s = replace_char slash bslash s"

definition find_char :: "char \<Rightarrow> nat \<Rightarrow> string \<Rightarrow> nat option" where
  "find_char c n s = (let m = length (takeWhile (\<lambda>x. x \<noteq> c) (drop n s)) in
     if n + m < length s then Some (n + m) else None)"

definition ascii_upper :: "string \<Rightarrow> string" where
  "ascii_upper s = map (\<lambda>c. if 97 \<le> (of_char c :: nat) \<and> (of_char c :: nat) \<le> 122 then char_of (of_char c - 32 :: nat) else c) s"

definition unc_device :: "string \<Rightarrow> bool" where
  "unc_device n = (take 4 n = [bslash, bslash, CHR ''?'', bslash] \<and> ascii_upper (take 3 (drop 4 n)) = ''UNC'' \<and>
     take 1 (drop 7 n) = [bslash])"

definition nt_splitdrive :: "string \<Rightarrow> string \<times> string" where
  "nt_splitdrive p =
     (let n = win_seps p; f = length (utf8_take 1 n) in
      if prefix [bslash, bslash] n then
        (let start = (if unc_device n then 8 else 2) in
         case find_char bslash start n of
           None \<Rightarrow> (p, [])
         | Some i \<Rightarrow> (case find_char bslash (Suc i) n of None \<Rightarrow> (p, []) | Some j \<Rightarrow> (take j p, drop j p)))
      else if 0 < f \<and> take 1 (drop f n) = '':'' then (take (Suc f) p, drop (Suc f) p)
      else ([], p))"

definition nt_normpath :: "string \<Rightarrow> string" where
  "nt_normpath p =
     (let (drv, rest) = nt_splitdrive (win_seps p);
          pre = (if prefix [bslash] rest then drv @ [bslash] else drv);
          comps = norm_comps (suffix [bslash] pre) [] (split_on bslash (dropWhile ((=) bslash) rest))
      in if pre = [] \<and> comps = [] then ''.'' else pre @ join bslash comps)"

text \<open>The reference: a walk through directories, from \<open>here\<close>, along the names of the path.\<close>

fun walk_from :: "string list \<Rightarrow> string list \<Rightarrow> string list" where
  "walk_from here [] = here"
| "walk_from here (n # ns) = walk_from
     (if n = '''' \<or> n = ''.'' then here else if n = ''..'' then butlast here else here @ [n]) ns"


definition plain_name :: "string \<Rightarrow> bool" where
  "plain_name n = (n \<noteq> '''' \<and> n \<noteq> ''.'' \<and> n \<noteq> ''..'')"

lemma plain_name_iff: "plain_name n \<longleftrightarrow> n \<noteq> '''' \<and> n \<noteq> ''.'' \<and> n \<noteq> ''..''"
  by (simp add: plain_name_def)

lemma norm_comps_walk: "list_all plain_name new \<Longrightarrow> norm_comps True new cs = walk_from new cs"
proof (induction cs arbitrary: new)
  case (Cons c cs)
  have "list_all plain_name (butlast new)" using Cons.prems by (auto simp: list_all_iff dest: in_set_butlastD)
  moreover have "new \<noteq> [] \<Longrightarrow> last new \<noteq> ''..''"
    using Cons.prems by (auto simp: list_all_iff plain_name_def dest: last_in_set)
  moreover have "list_all plain_name (new @ [c])" if "c \<noteq> ''''" "c \<noteq> ''.''" "c \<noteq> ''..''"
    using that Cons.prems by (auto simp: list_all_iff plain_name_iff)
  ultimately show ?case using Cons.IH Cons.prems by auto
qed simp

lemma walk_from_plain: "list_all plain_name here \<Longrightarrow> list_all plain_name (walk_from here ns)"
proof (induction ns arbitrary: here)
  case (Cons n ns)
  have "list_all plain_name (butlast here)" using Cons.prems by (auto simp: list_all_iff dest: in_set_butlastD)
  moreover have "list_all plain_name (here @ [n])" if "n \<noteq> ''''" "n \<noteq> ''.''" "n \<noteq> ''..''"
    using that Cons.prems by (auto simp: list_all_iff plain_name_iff)
  ultimately show ?case using Cons by auto
qed simp

lemma walk_from_set: "set (walk_from here ns) \<subseteq> set here \<union> set ns"
proof (induction ns arbitrary: here)
  case (Cons n ns)
  then show ?case by (auto dest!: in_set_butlastD subsetD[OF Cons.IH] split: if_splits)
qed simp

lemma walk_from_names: "list_all plain_name ns \<Longrightarrow> walk_from here ns = here @ ns"
  by (induction ns arbitrary: here) (auto simp: plain_name_def)

lemma walk_from_append: "walk_from here (xs @ ys) = walk_from (walk_from here xs) ys"
  by (induction xs arbitrary: here) auto

lemma walk_from_blank [simp]: "walk_from here [[]] = here"
  by simp

section \<open>Absolute POSIX paths\<close>

text \<open>The directory names that an absolute path leads through.\<close>

definition posix_names :: "string \<Rightarrow> string list" where
  "posix_names p = walk_from [] (split_on slash p)"

lemma posix_names_plain: "list_all plain_name (posix_names p)"
  unfolding posix_names_def by (rule walk_from_plain) simp

lemma posix_names_free: "x \<in> set (posix_names p) \<Longrightarrow> slash \<notin> set x"
  using walk_from_set[of "[]" "split_on slash p"] by (auto simp: posix_names_def dest: split_on_parts)

lemma posix_normpath_abs:
  assumes "prefix [slash] p" "\<not> prefix [slash, slash] p"
  shows "posix_normpath p = slash # join slash (posix_names p)"
  using assms by (simp add: posix_normpath_def posix_names_def norm_comps_walk)

lemma posix_names_join:
  assumes "list_all plain_name xs" "\<And>x. x \<in> set xs \<Longrightarrow> slash \<notin> set x"
  shows "posix_names (slash # join slash xs) = xs"
  using assms by (cases "xs = []") (simp_all add: posix_names_def split_join walk_from_names)

lemma join_not_slash:
  assumes "list_all plain_name xs" "\<And>x. x \<in> set xs \<Longrightarrow> slash \<notin> set x"
  shows "\<not> prefix [slash] (join slash xs)"
proof (cases xs)
  case (Cons x ys)
  then have "x \<noteq> []" "slash \<notin> set x" using assms by (auto simp: plain_name_iff)
  then obtain c cs where "x = c # cs" "c \<noteq> slash" by (cases x) auto
  with Cons show ?thesis by (cases ys) auto
qed simp

lemma posix_normpath_idem:
  assumes "prefix [slash] p" "\<not> prefix [slash, slash] p"
  defines "q \<equiv> posix_normpath p"
  shows "prefix [slash] q" "\<not> prefix [slash, slash] q" "posix_names q = posix_names p" "posix_normpath q = q"
proof -
  have q: "q = slash # join slash (posix_names p)" using assms by (simp add: posix_normpath_abs)
  show "prefix [slash] q" by (simp add: q)
  show nd: "\<not> prefix [slash, slash] q"
    using join_not_slash[of "posix_names p"] posix_names_plain posix_names_free by (auto simp: q)
  show pn: "posix_names q = posix_names p"
    unfolding q by (rule posix_names_join) (use posix_names_plain posix_names_free in auto)
  show "posix_normpath q = q"
    using \<open>prefix [slash] q\<close> nd pn by (simp add: posix_normpath_abs) (simp add: q)
qed

text \<open>
  Comparing normalised strings with a separator at the end compares the names: the root directory itself
  already ends with one.
\<close>

lemma posix_below_iff:
  assumes "list_all plain_name rs" "list_all plain_name cs"
    and "\<And>x. x \<in> set rs \<Longrightarrow> slash \<notin> set x" "\<And>x. x \<in> set cs \<Longrightarrow> slash \<notin> set x"
  defines "r \<equiv> slash # join slash rs" and "c \<equiv> slash # join slash cs"
  shows "(c = r \<or> prefix (if suffix [slash] r then r else r @ [slash]) c) \<longleftrightarrow> prefix rs cs"
proof (cases "rs = []")
  case True
  then show ?thesis by (simp add: r_def c_def suffix_def)
next
  case False
  have sr: "split_on slash r = [] # rs" using False assms by (simp add: r_def split_join)
  have ne: "\<not> suffix [slash] r"
  proof
    assume "suffix [slash] r"
    then obtain t where "r = t @ slash # []" by (auto elim: suffixE)
    then have "split_on slash r = split_on slash t @ [[]]" using split_on_append[of slash t "[]"] by simp
    with sr have "[] # rs = split_on slash t @ [[]]" by simp
    then have "last rs = []" using False by (metis last_ConsR last_snoc)
    moreover have "last rs \<in> set rs" using False by simp
    ultimately show False using assms(1) by (auto simp: list_all_iff plain_name_def)
  qed
  show ?thesis
  proof (cases "cs = []")
    case True
    then show ?thesis using False ne sr prefix_sep_iff[of r slash c] by (auto simp: c_def r_def)
  next
    case cs: False
    have sc: "split_on slash c = [] # cs" using cs assms by (simp add: c_def split_join)
    have "c = r \<longleftrightarrow> cs = rs" using sc sr by (metis list.inject split_on_inj)
    then show ?thesis using ne prefix_sep_iff[of r slash c] by (auto simp: sr sc strict_prefix_def)
  qed
qed


section \<open>Windows paths with a drive\<close>

lemma find_char_Some_iff:
  "find_char c n s = Some i \<longleftrightarrow> n \<le> i \<and> i < length s \<and> s ! i = c \<and> (\<forall>m. n \<le> m \<and> m < i \<longrightarrow> s ! m \<noteq> c)"
proof
  let ?m = "length (takeWhile (\<lambda>x. x \<noteq> c) (drop n s))"
  {
    assume "find_char c n s = Some i"
    then have i: "i = n + ?m" "i < length s" by (auto simp: find_char_def Let_def split: if_splits)
    then have lt: "?m < length (drop n s)" by simp
    have "drop n s ! ?m = c" using nth_length_takeWhile[OF lt] by simp
    moreover have "s ! k \<noteq> c" if "n \<le> k" "k < i" for k
    proof -
      have kl: "k - n < ?m" using that i by simp
      have "takeWhile (\<lambda>x. x \<noteq> c) (drop n s) ! (k - n) = drop n s ! (k - n)" by (rule takeWhile_nth) (rule kl)
      also have "\<dots> = s ! k" using that i by simp
      finally show ?thesis using nth_mem[OF kl] by (metis set_takeWhileD)
    qed
    ultimately show "n \<le> i \<and> i < length s \<and> s ! i = c \<and> (\<forall>m. n \<le> m \<and> m < i \<longrightarrow> s ! m \<noteq> c)"
      using i by auto
  next
    assume i: "n \<le> i \<and> i < length s \<and> s ! i = c \<and> (\<forall>m. n \<le> m \<and> m < i \<longrightarrow> s ! m \<noteq> c)"
    have "takeWhile (\<lambda>x. x \<noteq> c) (drop n s) = take (i - n) (drop n s)"
      by (rule takeWhile_eq_take_P_nth) (use i in auto)
    moreover have "i - n \<le> length s - n" using i by linarith
    ultimately have "?m = i - n" by (simp add: min_def)
    with i show "find_char c n s = Some i" by (simp add: find_char_def Let_def)
  }
qed

lemma find_char_take:
  assumes "find_char c n s = Some i" "i < j" "j \<le> length s"
  shows "find_char c n (take j s @ r) = Some i"
  using assms by (auto simp: find_char_Some_iff nth_append)

lemma utf8_take_upto:
  "\<not> utf8_cont c \<Longrightarrow> utf8_take k s = u \<Longrightarrow> s = u @ c # r \<Longrightarrow> utf8_take k (u @ c # y) = u"
proof (induction k s arbitrary: u rule: utf8_take.induct)
  case (2 n ca cs)
  then show ?case by (cases u) (auto split: if_splits)
qed simp

lemma utf8_take_prefix: "prefix (utf8_take k s) s"
  by (induction k s rule: utf8_take.induct) auto

lemma win_seps_idem [simp]: "win_seps (win_seps s) = win_seps s"
  by (simp add: win_seps_def replace_char_id)

lemma length_win_seps [simp]: "length (win_seps s) = length s"
  by (simp add: win_seps_def)

lemma win_seps_append: "win_seps (s @ t) = win_seps s @ win_seps t"
  by (simp add: win_seps_def replace_char_append)

lemma win_seps_take: "win_seps (take k s) = take k (win_seps s)"
  by (simp add: win_seps_def replace_char_def take_map)

lemma win_seps_drop: "win_seps (drop k s) = drop k (win_seps s)"
  by (simp add: win_seps_def replace_char_def drop_map)

lemma slash_win_seps [simp]: "slash \<notin> set (win_seps s)"
  by (simp add: win_seps_def)

lemma win_seps_id: "slash \<notin> set s \<Longrightarrow> win_seps s = s"
  by (simp add: win_seps_def replace_char_id)

lemma nt_splitdrive_win_seps: "nt_splitdrive (win_seps p) = map_prod win_seps win_seps (nt_splitdrive p)"
  by (auto simp: nt_splitdrive_def Let_def win_seps_take win_seps_drop split: option.splits)
   (simp_all add: win_seps_def replace_char_def)

lemma nt_splitdrive_append: "nt_splitdrive p = (d, t) \<Longrightarrow> p = d @ t"
  by (auto simp: nt_splitdrive_def Let_def split: if_splits option.splits)

text \<open>The drive of a path stays the drive when the rest is replaced.\<close>

lemma unc_device_question: "unc_device n \<Longrightarrow> n ! 2 = CHR ''?'' \<and> 2 < length n"
proof -
  assume "unc_device n"
  then have t: "take 4 n = [bslash, bslash, CHR ''?'', bslash]" by (simp add: unc_device_def)
  have "length (take 4 n) = 4" unfolding t by simp
  moreover have "take 4 n ! 2 = CHR ''?''" using t by simp
  ultimately show ?thesis by auto
qed

lemma nt_splitdrive_replace:
  assumes "nt_splitdrive n = (d, t)" "d \<noteq> []" "t \<noteq> []" "win_seps n = n" "CHR ''?'' \<notin> set n" "slash \<notin> set x"
  shows "nt_splitdrive (d @ bslash # x) = (d, bslash # x)"
proof -
  let ?q = "d @ bslash # x"
  have n: "n = d @ t" using assms(1) by (rule nt_splitdrive_append)
  have nd: "slash \<notin> set d" using assms(4) n slash_win_seps by (metis Un_iff set_append)
  have q: "win_seps ?q = ?q" by (rule win_seps_id) (use nd assms(6) in auto)
  have qd: "CHR ''?'' \<notin> set d" using assms(5) n by simp
  show ?thesis
  proof (cases "prefix [bslash, bslash] n")
    case True
    have "\<not> unc_device n" using unc_device_question[of n] assms(5) by (metis nth_mem)
    then obtain i j where ij: "find_char bslash 2 n = Some i" "find_char bslash (Suc i) n = Some j" "d = take j n"
      using assms True by (auto simp: nt_splitdrive_def Let_def split: option.splits)
    have b: "2 \<le> i" "i < j" "j < length n" using ij(1,2) by (auto simp: find_char_Some_iff)
    have ld: "length d = j" using b ij(3) by simp
    have "find_char bslash 2 ?q = Some i" using find_char_take[OF ij(1)] b ij(3) by simp
    moreover have "find_char bslash (Suc i) ?q = Some j"
      using ij b by (auto simp: find_char_Some_iff nth_append)
    moreover have "prefix [bslash, bslash] d"
      using True b ij(3) by (auto simp: prefix_def take_Cons' split: if_splits)
    then have "prefix [bslash, bslash] ?q" by (rule prefix_prefix)
    moreover have "\<not> unc_device ?q"
    proof
      assume "unc_device ?q"
      then have "?q ! 2 = CHR ''?''" by (simp add: unc_device_question)
      then have "d ! 2 = CHR ''?''" using ld b by (simp add: nth_append)
      with qd ld b show False by (metis nth_mem order_le_less_trans)
    qed
    ultimately show ?thesis using q ld by (simp add: nt_splitdrive_def Let_def)
  next
    case False
    let ?f = "length (utf8_take 1 n)"
    have f: "0 < ?f" "take 1 (drop ?f n) = '':''" "d = take (Suc ?f) n"
      using assms False by (auto simp: nt_splitdrive_def Let_def split: if_splits)
    obtain r where r: "n = utf8_take 1 n @ CHR '':'' # r"
    proof -
      obtain zs where zs: "n = utf8_take 1 n @ zs" using utf8_take_prefix[of 1 n] by (auto elim: prefixE)
      then have "drop ?f n = zs" by (metis append_eq_conv_conj)
      with f(2) have "take 1 zs = '':''" by simp
      then obtain r where "zs = CHR '':'' # r" by (cases zs) auto
      with zs that show ?thesis by blast
    qed
    have d: "d = utf8_take 1 n @ '':''" by (subst f(3), subst (2) r) simp
    have "utf8_take 1 (utf8_take 1 n @ CHR '':'' # bslash # x) = utf8_take 1 n"
      by (rule utf8_take_upto[OF _ refl r]) (simp add: utf8_cont_def)
    then have u: "utf8_take 1 ?q = utf8_take 1 n" by (simp add: d)
    have "\<not> prefix [bslash, bslash] ?q"
    proof
      assume "prefix [bslash, bslash] ?q"
      moreover have "prefix d ?q" by simp
      moreover have "length [bslash, bslash] \<le> length d" using f(1) unfolding d by (simp add: Suc_le_eq)
      ultimately have "prefix [bslash, bslash] d" by (rule prefix_length_prefix)
      then show False using False n by (simp add: prefix_prefix)
    qed
    moreover have "take (Suc ?f) ?q = d" "drop (Suc ?f) ?q = bslash # x" by (simp_all add: d)
    moreover have "take 1 (drop ?f ?q) = '':''" by (simp add: d)
    ultimately show ?thesis using f(1) unfolding nt_splitdrive_def Let_def q u by (simp only: if_False if_True simp_thms)
  qed
qed


text \<open>A rooted Windows path is its drive and the names behind it.\<close>

definition nt_names :: "string \<Rightarrow> string list" where
  "nt_names t = walk_from [] (split_on bslash (dropWhile ((=) bslash) (win_seps t)))"

lemma nt_names_plain: "list_all plain_name (nt_names t)"
  unfolding nt_names_def by (rule walk_from_plain) simp

lemma nt_names_free:
  assumes "x \<in> set (nt_names t)"
  shows "bslash \<notin> set x" "slash \<notin> set x"
proof -
  let ?u = "dropWhile ((=) bslash) (win_seps t)"
  have x: "x \<in> set (split_on bslash ?u)"
    using assms walk_from_set[of "[]" "split_on bslash ?u"] by (auto simp: nt_names_def)
  show "bslash \<notin> set x" using x by (rule split_on_parts)
  have "set x \<subseteq> set (join bslash (split_on bslash ?u))" using x by (rule set_join)
  also have "\<dots> \<subseteq> set (win_seps t)" by (auto dest: set_dropWhileD)
  finally show "slash \<notin> set x" using slash_win_seps[of t] by blast
qed

lemma nt_normpath_abs:
  assumes "nt_splitdrive p = (d, t)" "prefix [bslash] (win_seps t)"
  shows "nt_normpath p = win_seps d @ bslash # join bslash (nt_names t)"
  using assms by (simp add: nt_normpath_def nt_splitdrive_win_seps norm_comps_walk nt_names_def suffix_def)


lemma join_no_lead:
  assumes "list_all plain_name xs" "\<And>x. x \<in> set xs \<Longrightarrow> bslash \<notin> set x"
  shows "dropWhile ((=) bslash) (join bslash xs) = join bslash xs"
proof (cases xs)
  case (Cons x ys)
  then have "x \<noteq> []" "bslash \<notin> set x" using assms by (auto simp: plain_name_iff)
  then obtain c cs where "x = c # cs" "c \<noteq> bslash" by (cases x) auto
  with Cons show ?thesis by (cases ys) auto
qed simp

lemma nt_names_join:
  assumes "list_all plain_name xs" "\<And>x. x \<in> set xs \<Longrightarrow> bslash \<notin> set x" "\<And>x. x \<in> set xs \<Longrightarrow> slash \<notin> set x"
  shows "nt_names (bslash # join bslash xs) = xs"
proof -
  have "slash \<notin> set (join bslash xs)" by (rule join_free) (use assms(3) in auto)
  then have "win_seps (bslash # join bslash xs) = bslash # join bslash xs" by (intro win_seps_id) auto
  then show ?thesis
    using assms by (cases "xs = []") (simp_all add: nt_names_def join_no_lead split_join walk_from_names)
qed

lemma nt_normpath_slash_free: "slash \<notin> set (nt_normpath p)"
proof -
  obtain d t where dt: "nt_splitdrive (win_seps p) = (d, t)" by (cases "nt_splitdrive (win_seps p)")
  then have p: "win_seps p = d @ t" by (rule nt_splitdrive_append)
  then have sd: "slash \<notin> set d" "slash \<notin> set t" using slash_win_seps[of p] by auto
  let ?cs = "split_on bslash (dropWhile ((=) bslash) t)"
  have free: "slash \<notin> set x" if "x \<in> set ?cs" for x
  proof -
    have "set x \<subseteq> set (join bslash ?cs)" using that by (rule set_join)
    also have "\<dots> \<subseteq> set t" by (auto dest: set_dropWhileD)
    finally show ?thesis using sd by blast
  qed
  have sub: "set (norm_comps b new cs) \<subseteq> set new \<union> set cs" for b new cs
    by (induction b new cs rule: norm_comps.induct) (auto dest: in_set_butlastD split: if_splits)
  have "slash \<notin> set (join bslash (norm_comps b [] ?cs))" for b
  proof (rule join_free)
    fix x assume "x \<in> set (norm_comps b [] ?cs)"
    then have "x \<in> set ?cs" using sub[of b "[]" ?cs] by auto
    then show "slash \<notin> set x" by (rule free)
  qed simp
  with sd(1) show ?thesis unfolding nt_normpath_def dt Let_def prod.case by (simp split: if_splits)
qed

lemma nt_normpath_idem:
  assumes "nt_splitdrive p = (d, t)" "d \<noteq> []" "prefix [bslash] (win_seps t)" "CHR ''?'' \<notin> set p"
  defines "q \<equiv> nt_normpath p"
  shows "nt_splitdrive q = (win_seps d, bslash # join bslash (nt_names t))" "nt_normpath q = q"
proof -
  have q: "q = win_seps d @ bslash # join bslash (nt_names t)" using assms by (simp add: nt_normpath_abs)
  have n: "nt_splitdrive (win_seps p) = (win_seps d, win_seps t)" using assms(1) by (simp add: nt_splitdrive_win_seps)
  have qm: "CHR ''?'' \<notin> set (win_seps p)" using assms(4) by (auto simp: win_seps_def replace_char_def)
  have sf: "slash \<notin> set (join bslash (nt_names t))" using nt_normpath_slash_free[of p] q by (simp add: q_def)
  show s: "nt_splitdrive q = (win_seps d, bslash # join bslash (nt_names t))"
    unfolding q using n by (rule nt_splitdrive_replace) (use assms(2,3) qm sf in \<open>auto simp: win_seps_def replace_char_def\<close>)
  have w: "win_seps (bslash # join bslash (nt_names t)) = bslash # join bslash (nt_names t)"
    by (rule win_seps_id) (use sf in auto)
  have "nt_names (bslash # join bslash (nt_names t)) = nt_names t"
    by (rule nt_names_join) (use nt_names_plain nt_names_free in auto)
  with nt_normpath_abs[OF s] w show "nt_normpath q = q" by (simp add: q)
qed

end
