(* ===== verification/CapPolicy.thy ===== *)
theory CapPolicy
  imports PathLex "HOL-Library.Product_Lexorder"
begin

text \<open>
  \<open>agent_capabilities/policy.py\<close>: the normal forms of what an agent may be granted (paths, commands, network
  targets, skills) and the decision whether a normalised request lies inside a normalised scope.

  A normaliser returns its value or an exception; the text of an error is left out.  Scopes and requests come
  as objects of the module or as JSON (\<open>cap_arg\<close>).  What depends on tables that change with the version of
  Python (letter case, IDNA, the registries of IP addresses), on digests and on the printing of values is the
  record \<open>pylib\<close>.
\<close>

section \<open>Python values\<close>

datatype reason_code = ReasonAllowed | UnknownCapability | InvalidInput | AmbiguousInput | ConflictingScope
  | StaleRevision | ExpiredRevision | FreshnessUnverified | PathOutsideRoot | CommandNotAuthorized
  | NetworkNotAuthorized | SchemeNotAllowed | SsrfBlocked | RedirectNotAuthorized | SkillNotAuthorized
  | ProvenanceRequired

datatype cap_error = PolicyInputError reason_code | PyTypeError | PyKeyError | PyValueError | PyOverflowError
  | PyAssertionError

datatype py_time = Naive int | Aware int int

record ip_addr =
  ip_text :: string
  ip_global :: bool
  ip_inward :: bool

record pylib =
  pl_lower :: "string \<Rightarrow> string"
  pl_casefold :: "string \<Rightarrow> string"
  pl_idna :: "string \<Rightarrow> string option"
  pl_ip :: "json \<Rightarrow> ip_addr option"
  pl_str :: "json \<Rightarrow> string"
  pl_iso_parse :: "string \<Rightarrow> py_time option"
  pl_iso :: "int \<Rightarrow> string"
  pl_dumps :: "bool \<Rightarrow> json \<Rightarrow> string"
  pl_sha256 :: "string \<Rightarrow> string"
  pl_trim :: "string \<Rightarrow> string"
  pl_fnmatch :: "string \<Rightarrow> string \<Rightarrow> bool"

text \<open>
  \<open>pl_ip\<close> is \<open>ipaddress.ip_address\<close> (\<open>None\<close>: \<open>ValueError\<close>); \<open>ip_inward\<close> is the disjunction of \<open>is_private\<close>,
  \<open>is_loopback\<close>, \<open>is_link_local\<close>, \<open>is_reserved\<close>, \<open>is_unspecified\<close> and \<open>is_multicast\<close>.  An aware time is its
  local clock and its offset in microseconds, counted from the first instant of year 1.  \<open>pl_trim\<close> is
  pydantic's \<open>str_strip_whitespace\<close>, \<open>pl_sha256\<close> the hexadecimal digest, \<open>pl_dumps\<close> is \<open>json.dumps\<close>
  with its flag \<open>ensure_ascii\<close>, \<open>pl_fnmatch\<close> is \<open>fnmatch.fnmatchcase\<close>.
\<close>

fun mapE :: "('a \<Rightarrow> 'e + 'b) \<Rightarrow> 'a list \<Rightarrow> 'e + 'b list" where
  "mapE f [] = Inr []"
| "mapE f (x # xs) = bindE (f x) (\<lambda>y. bindE (mapE f xs) (\<lambda>ys. Inr (y # ys)))"

lemma mapE_Inr_iff: "mapE f xs = Inr ys \<longleftrightarrow> list_all2 (\<lambda>x y. f x = Inr y) xs ys"
  by (induction xs arbitrary: ys) (auto simp: bindE_Inr_iff list_all2_Cons1)

lemma mapE_mem: "mapE f xs = Inr ys \<Longrightarrow> y \<in> set ys \<Longrightarrow> \<exists>x \<in> set xs. f x = Inr y"
  by (induction xs arbitrary: ys) (auto simp: bindE_Inr_iff)

lemma mapE_map_Inr: "(\<And>x. x \<in> set xs \<Longrightarrow> f x = Inr (g x)) \<Longrightarrow> mapE f xs = Inr (map g xs)"
  by (induction xs) auto

definition to_str :: "pylib \<Rightarrow> json \<Rightarrow> string" where
  "to_str L v = (case v of JStr s \<Rightarrow> s | JNull \<Rightarrow> ''None'' | JBool b \<Rightarrow> (if b then ''True'' else ''False'') | _ \<Rightarrow> pl_str L v)"

definition dget_or :: "jdict \<Rightarrow> string \<Rightarrow> json \<Rightarrow> json" where
  "dget_or d k v = (case map_of d k of None \<Rightarrow> v | Some w \<Rightarrow> w)"

text \<open>The characters of a string, and \<open>iter(value)\<close>.\<close>

fun utf8_chars :: "string \<Rightarrow> string list" where
  "utf8_chars [] = []"
| "utf8_chars (c # cs) = (case utf8_chars cs of
     g # gs \<Rightarrow> if utf8_cont (hd g) then (c # g) # gs else [c] # g # gs
   | [] \<Rightarrow> [[c]])"

definition py_iter :: "json \<Rightarrow> cap_error + json list" where
  "py_iter v = (case v of
     JArr xs \<Rightarrow> Inr xs
   | JStr s \<Rightarrow> Inr (map JStr (utf8_chars s))
   | JObj kvs \<Rightarrow> Inr (map (JStr \<circ> fst) kvs)
   | _ \<Rightarrow> Inl PyTypeError)"

definition has_space :: "string \<Rightarrow> bool" where
  "has_space s = list_ex (\<lambda>n. head_of space_chars (drop n s) \<noteq> None) [0..<length s]"

definition any_of :: "string \<Rightarrow> string \<Rightarrow> bool" where
  "any_of cs s = list_ex (\<lambda>c. c \<in> set cs) s"

lemma any_of_iff: "any_of cs s \<longleftrightarrow> (\<exists>c \<in> set s. c \<in> set cs)"
  by (simp add: any_of_def list_ex_iff)

section \<open>Scopes, requests and decisions\<close>

datatype capability = PathRead | PathWrite | PathDelete | CommandExecute | NetworkConnect | SkillUse
  | ArtifactPublish | SecretHandleUse

fun cap_value :: "capability \<Rightarrow> string" where
  "cap_value PathRead = ''path.read''"
| "cap_value PathWrite = ''path.write''"
| "cap_value PathDelete = ''path.delete''"
| "cap_value CommandExecute = ''command.execute''"
| "cap_value NetworkConnect = ''network.connect''"
| "cap_value SkillUse = ''skill.use''"
| "cap_value ArtifactPublish = ''artifact.publish''"
| "cap_value SecretHandleUse = ''secret.handle.use''"

definition all_capabilities :: "capability list" where
  "all_capabilities = [PathRead, PathWrite, PathDelete, CommandExecute, NetworkConnect, SkillUse, ArtifactPublish,
     SecretHandleUse]"

datatype decision_status = StAllow | StDeny | StHostVerification

record path_root =
  pr_platform :: string
  pr_root :: string
  pr_case :: bool

record path_scope =
  ps_roots :: "path_root list"

record path_request =
  pq_platform :: string
  pq_path :: string

record command_scope =
  co_platform :: string
  co_argv :: "string list"
  co_cwd :: string
  co_env :: "string list"

record network_target =
  tg_scheme :: string
  tg_host :: string
  tg_port :: int
  tg_ips :: "string list"
  tg_verify :: bool

record network_scope =
  ns_target :: network_target
  ns_redirects :: "network_target list"

record network_request =
  nq_target :: network_target
  nq_redirects :: "network_target list"

record skill_scope =
  sk_identity :: string
  sk_version :: string
  sk_provenance :: string

datatype cap_scope = ScPath path_scope | ScCommand command_scope | ScNetwork network_scope | ScSkill skill_scope

datatype cap_request = RqPath path_request | RqCommand command_scope | RqNetwork network_request | RqSkill skill_scope

datatype cap_arg = AJson json | APath path_scope | APathRequest path_request | ACommand command_scope
  | ANetScope network_scope | ANetRequest network_request | ASkill skill_scope

record decision =
  dc_status :: decision_status
  dc_reason :: reason_code
  dc_capability :: "string option"
  dc_normalized :: "cap_request option"

definition allow :: "string \<Rightarrow> cap_request \<Rightarrow> decision" where
  "allow c r = \<lparr>dc_status = StAllow, dc_reason = ReasonAllowed, dc_capability = Some c, dc_normalized = Some r\<rparr>"

definition deny :: "string option \<Rightarrow> reason_code \<Rightarrow> decision" where
  "deny c reason = \<lparr>dc_status = StDeny, dc_reason = reason, dc_capability = c, dc_normalized = None\<rparr>"

definition canonical_capability :: "pylib \<Rightarrow> string \<Rightarrow> cap_error + capability" where
  "canonical_capability L v =
     (if py_strip v = [] then Inl (PolicyInputError UnknownCapability)
      else case List.find (\<lambda>c. cap_value c = pl_lower L (py_strip v)) all_capabilities of
             None \<Rightarrow> Inl (PolicyInputError UnknownCapability)
           | Some c \<Rightarrow> Inr c)"


section \<open>Paths\<close>

definition check_platform :: "json \<Rightarrow> cap_error + string" where
  "check_platform v = (case v of
     JStr s \<Rightarrow> if s = ''posix'' \<or> s = ''windows'' then Inr s else Inl (PolicyInputError AmbiguousInput)
   | JArr _ \<Rightarrow> Inl PyTypeError
   | JObj _ \<Rightarrow> Inl PyTypeError
   | _ \<Rightarrow> Inl (PolicyInputError AmbiguousInput))"

definition control_breaks :: string where
  "control_breaks = [CHR 0x0A, CHR 0x0D, CHR 0x00]"

definition validate_path_text :: "json \<Rightarrow> cap_error + string" where
  "validate_path_text v = (case v of
     JStr s \<Rightarrow> if s = [] \<or> any_of control_breaks s then Inl (PolicyInputError InvalidInput) else Inr s
   | _ \<Rightarrow> Inl (PolicyInputError InvalidInput))"

definition posix_root :: "string \<Rightarrow> cap_error + path_root" where
  "posix_root r =
     (if \<not> prefix [slash] r \<or> prefix [slash, slash] r \<or> bslash \<in> set r then Inl (PolicyInputError AmbiguousInput)
      else let q = posix_normpath r in
        if \<not> prefix [slash] q then Inl (PolicyInputError AmbiguousInput)
        else Inr \<lparr>pr_platform = ''posix'', pr_root = q, pr_case = True\<rparr>)"

definition windows_root :: "string \<Rightarrow> cap_error + path_root" where
  "windows_root r =
     (if prefix [bslash, bslash, CHR ''?'', bslash] r \<or> prefix [bslash, bslash, CHR ''.'', bslash] r
      then Inl (PolicyInputError AmbiguousInput)
      else let (drive, tail) = nt_splitdrive r in
        if drive = [] \<or> \<not> (prefix [bslash] tail \<or> prefix [slash] tail) then Inl (PolicyInputError AmbiguousInput)
        else let q = win_seps (nt_normpath r) in
          if prefix [bslash, bslash] q \<and> length (filter (\<lambda>p. p \<noteq> []) (split_on bslash (drop 2 q))) < 2
          then Inl (PolicyInputError AmbiguousInput)
          else Inr \<lparr>pr_platform = ''windows'', pr_root = q, pr_case = False\<rparr>)"

definition normalize_path_root :: "json \<Rightarrow> json \<Rightarrow> cap_error + path_root" where
  "normalize_path_root rv platform =
     bindE (check_platform platform) (\<lambda>p.
     bindE (validate_path_text rv) (\<lambda>r.
     if any_of ''~$%*?[]'' r then Inl (PolicyInputError AmbiguousInput)
     else if p = ''posix'' then posix_root r else windows_root r))"

definition normalize_path_request :: "json \<Rightarrow> json \<Rightarrow> cap_error + path_request" where
  "normalize_path_request path platform =
     bindE (normalize_path_root path platform) (\<lambda>r. Inr \<lparr>pq_platform = pr_platform r, pq_path = pr_root r\<rparr>)"

definition normalize_root_value :: "pylib \<Rightarrow> path_root + json \<Rightarrow> cap_error + path_root" where
  "normalize_root_value L v = (case v of
     Inl r \<Rightarrow> normalize_path_root (JStr (pr_root r)) (JStr (pr_platform r))
   | Inr (JObj d) \<Rightarrow>
       (case map_of d ''root'' of None \<Rightarrow> Inl PyKeyError | Some r \<Rightarrow>
        case map_of d ''platform'' of None \<Rightarrow> Inl PyKeyError | Some p \<Rightarrow>
          normalize_path_root (JStr (to_str L r)) (JStr (to_str L p)))
   | Inr _ \<Rightarrow> Inl (PolicyInputError InvalidInput))"

definition root_values :: "cap_arg \<Rightarrow> cap_error + (path_root + json) list" where
  "root_values a = (case a of
     APath s \<Rightarrow> Inr (map Inl (ps_roots s))
   | AJson (JObj d) \<Rightarrow>
       (let v = (case map_of d ''roots'' of
                   Some v \<Rightarrow> v
                 | None \<Rightarrow> (case map_of d ''root'' of
                     Some r \<Rightarrow> JArr [JObj [(''root'', r), (''platform'', dget d ''platform'')]]
                   | None \<Rightarrow> JNull))
        in case v of
             JStr _ \<Rightarrow> Inr [Inr v]
           | JNull \<Rightarrow> Inr [Inr v]
           | _ \<Rightarrow> bindE (py_iter v) (\<lambda>xs. Inr (map Inr xs)))
   | _ \<Rightarrow> Inl (PolicyInputError InvalidInput))"

definition normalize_path_scope :: "pylib \<Rightarrow> cap_arg \<Rightarrow> cap_error + path_scope" where
  "normalize_path_scope L a =
     bindE (root_values a) (\<lambda>vs.
     bindE (mapE (normalize_root_value L) vs) (\<lambda>roots.
     if roots = [] then Inl (PolicyInputError InvalidInput)
     else Inr \<lparr>ps_roots = sort_key (\<lambda>r. (pr_platform r, pr_root r)) (remdups roots)\<rparr>))"

definition path_is_within_root :: "pylib \<Rightarrow> path_root \<Rightarrow> path_request \<Rightarrow> bool" where
  "path_is_within_root L rt q =
     (if pq_platform q \<noteq> pr_platform rt then False
      else let fold_case = (\<lambda>s. if pr_case rt then s else pl_casefold L s);
               candidate = fold_case (pq_path q); anchor = fold_case (pr_root rt) in
        if candidate = anchor then True
        else prefix (if suffix [slash] anchor \<or> suffix [bslash] anchor then anchor
                     else anchor @ [if pr_platform rt = ''windows'' then bslash else slash]) candidate)"

text \<open>The same function called with the text of a path.\<close>

definition path_text_is_within_root :: "pylib \<Rightarrow> path_root \<Rightarrow> string \<Rightarrow> cap_error + bool" where
  "path_text_is_within_root L rt s =
     bindE (normalize_path_request (JStr s) (JStr (pr_platform rt))) (\<lambda>q. Inr (path_is_within_root L rt q))"

section \<open>Commands\<close>

definition is_jstr :: "json \<Rightarrow> bool" where
  "is_jstr v = (case v of JStr _ \<Rightarrow> True | _ \<Rightarrow> False)"

definition jstr :: "json \<Rightarrow> string" where
  "jstr v = (case v of JStr s \<Rightarrow> s | _ \<Rightarrow> [])"

definition unhashable :: "json \<Rightarrow> bool" where
  "unhashable v = (case v of JArr _ \<Rightarrow> True | JObj _ \<Rightarrow> True | _ \<Rightarrow> False)"

definition is_number :: "json \<Rightarrow> bool" where
  "is_number v = (case v of JNum _ \<Rightarrow> True | JBool _ \<Rightarrow> True | _ \<Rightarrow> False)"

definition env_name_ok :: "string \<Rightarrow> bool" where
  "env_name_ok s = (s \<noteq> [] \<and> (alpha_char (hd s) \<or> hd s = CHR ''_'') \<and>
     list_all (\<lambda>c. alpha_char c \<or> c = CHR ''_'' \<or> digit_char c) s)"

text \<open>
  \<open>sorted(set(env_names))\<close> and the check of the names: values that cannot be hashed or compared are a
  \<open>TypeError\<close>, others that are not strings fail the check.
\<close>

definition sorted_env_names :: "json list \<Rightarrow> cap_error + string list" where
  "sorted_env_names xs =
     (if list_ex unhashable xs then Inl PyTypeError
      else if list_all is_jstr xs then
        (let names = sort (remdups (map jstr xs)) in
         if list_all env_name_ok names then Inr names else Inl (PolicyInputError InvalidInput))
      else if length (remdups xs) \<le> 1 \<or> list_all is_number xs then Inl (PolicyInputError InvalidInput)
      else Inl PyTypeError)"

definition normalize_command_scope :: "json \<Rightarrow> json \<Rightarrow> json \<Rightarrow> json \<Rightarrow> cap_error + command_scope" where
  "normalize_command_scope argv cwd env_names platform =
     bindE (check_platform platform) (\<lambda>p.
     if is_jstr argv then Inl (PolicyInputError AmbiguousInput)
     else bindE (py_iter argv) (\<lambda>xs.
       if xs = [] \<or> list_ex (\<lambda>v. \<not> is_jstr v \<or> jstr v = [] \<or> any_of control_breaks (jstr v)) xs
       then Inl (PolicyInputError InvalidInput)
       else if any_of ''*?[]'' (jstr (hd xs)) \<or> has_space (jstr (hd xs)) then Inl (PolicyInputError AmbiguousInput)
       else bindE (normalize_path_request cwd (JStr p)) (\<lambda>q.
         bindE (py_iter env_names) (\<lambda>es.
         bindE (sorted_env_names es) (\<lambda>names.
         Inr \<lparr>co_platform = p, co_argv = map jstr xs, co_cwd = pq_path q, co_env = names\<rparr>)))))"

definition normalize_command_object :: "command_scope \<Rightarrow> cap_error + command_scope" where
  "normalize_command_object c = normalize_command_scope (JArr (map JStr (co_argv c))) (JStr (co_cwd c))
     (JArr (map JStr (co_env c))) (JStr (co_platform c))"

definition command_is_authorized :: "command_scope \<Rightarrow> command_scope \<Rightarrow> bool" where
  "command_is_authorized authority request =
     (co_platform authority = co_platform request \<and> co_argv authority = co_argv request \<and>
      co_cwd authority = co_cwd request \<and> set (co_env request) \<subseteq> set (co_env authority))"


section \<open>Network targets\<close>

definition normalize_verified_ips :: "pylib \<Rightarrow> json \<Rightarrow> cap_error + string list" where
  "normalize_verified_ips L v =
     (if is_jstr v then Inl (PolicyInputError AmbiguousInput)
      else bindE (py_iter v) (\<lambda>xs.
        bindE (mapE (\<lambda>x. case pl_ip L x of
                 None \<Rightarrow> Inl (PolicyInputError AmbiguousInput)
               | Some a \<Rightarrow> if \<not> ip_global a then Inl (PolicyInputError SsrfBlocked) else Inr (ip_text a)) xs) (\<lambda>ips.
        Inr (sort (remdups ips)))))"

definition strip_brackets :: "string \<Rightarrow> string" where
  "strip_brackets h = (if prefix ''['' h \<and> suffix '']'' h then butlast (tl h) else h)"

definition strip_dot :: "string \<Rightarrow> string" where
  "strip_dot h = (if suffix ''.'' h then butlast h else h)"

definition normalize_host :: "pylib \<Rightarrow> string \<Rightarrow> cap_error + string" where
  "normalize_host L host =
     (if host = [] \<or> has_space host \<or> any_of ''/?#@'' host then Inl (PolicyInputError AmbiguousInput)
      else let h = strip_dot (strip_brackets host) in
        case pl_ip L (JStr h) of
          Some a \<Rightarrow> Inr (ip_text a)
        | None \<Rightarrow> (case pl_idna L h of
            Some t \<Rightarrow> Inr (pl_lower L t)
          | None \<Rightarrow> Inl (PolicyInputError AmbiguousInput)))"

definition normalize_port :: "string \<Rightarrow> json \<Rightarrow> cap_error + int" where
  "normalize_port scheme port =
     (case port of
        JNull \<Rightarrow> Inr (if scheme = ''https'' then 443 else 80)
      | JNum r \<Rightarrow> if r = of_int (floor r) \<and> 1 \<le> floor r \<and> floor r \<le> 65535 then Inr (floor r)
                  else Inl (PolicyInputError InvalidInput)
      | _ \<Rightarrow> Inl (PolicyInputError InvalidInput))"

definition local_hostname :: "string \<Rightarrow> bool" where
  "local_hostname h = (h \<in> {''localhost'', ''localhost.localdomain''} \<or>
     suffix ''.local'' h \<or> suffix ''.internal'' h \<or> suffix ''.localhost'' h)"

definition normalize_network_target :: "pylib \<Rightarrow> string \<Rightarrow> string \<Rightarrow> json \<Rightarrow> json \<Rightarrow> cap_error + network_target" where
  "normalize_network_target L scheme host port verified_ips =
     (let s = pl_lower L (py_strip scheme) in
      if s \<noteq> ''http'' \<and> s \<noteq> ''https'' then Inl (PolicyInputError SchemeNotAllowed)
      else bindE (normalize_host L host) (\<lambda>h.
        bindE (normalize_verified_ips L verified_ips) (\<lambda>ips.
        bindE (case pl_ip L (JStr h) of
                 Some a \<Rightarrow> if \<not> ip_global a then Inl (PolicyInputError SsrfBlocked) else Inr False
               | None \<Rightarrow> if local_hostname h then Inl (PolicyInputError SsrfBlocked) else Inr (ips = [])) (\<lambda>verify.
        bindE (normalize_port s port) (\<lambda>p.
        Inr \<lparr>tg_scheme = s, tg_host = h, tg_port = p, tg_ips = ips, tg_verify = verify\<rparr>)))))"

definition normalize_target_object :: "pylib \<Rightarrow> network_target \<Rightarrow> cap_error + network_target" where
  "normalize_target_object L t = normalize_network_target L (tg_scheme t) (tg_host t) (JNum (of_int (tg_port t)))
     (JArr (map JStr (tg_ips t)))"

definition normalize_network_value :: "pylib \<Rightarrow> json \<Rightarrow> cap_error + network_target" where
  "normalize_network_value L v = (case v of
     JObj d \<Rightarrow> normalize_network_target L (to_str L (dget_or d ''scheme'' (JStr [])))
                 (to_str L (dget_or d ''host'' (JStr []))) (dget d ''port'') (dget_or d ''verified_ips'' (JArr []))
   | _ \<Rightarrow> Inl (PolicyInputError InvalidInput))"

definition network_parts :: "pylib \<Rightarrow> jdict \<Rightarrow> string \<Rightarrow> cap_error + network_target \<times> network_target list" where
  "network_parts L d redirects =
     bindE (normalize_network_value L (dget_or d ''target'' (JObj d))) (\<lambda>t.
     bindE (py_iter (dget_or d redirects (JArr []))) (\<lambda>xs.
     bindE (mapE (normalize_network_value L) xs) (\<lambda>ts. Inr (t, ts))))"

definition network_object_parts ::
    "pylib \<Rightarrow> network_target \<Rightarrow> network_target list \<Rightarrow> cap_error + network_target \<times> network_target list" where
  "network_object_parts L t ts =
     bindE (normalize_target_object L t) (\<lambda>u. bindE (mapE (normalize_target_object L) ts) (\<lambda>us. Inr (u, us)))"

definition normalize_network_scope :: "pylib \<Rightarrow> cap_arg \<Rightarrow> cap_error + network_scope" where
  "normalize_network_scope L a =
     bindE (case a of
       ANetScope s \<Rightarrow> network_object_parts L (ns_target s) (ns_redirects s)
     | AJson (JObj d) \<Rightarrow> network_parts L d ''allowed_redirects''
     | _ \<Rightarrow> Inl (PolicyInputError InvalidInput))
     (\<lambda>(t, ts). Inr \<lparr>ns_target = t, ns_redirects = ts\<rparr>)"

definition normalize_network_request :: "pylib \<Rightarrow> cap_arg \<Rightarrow> cap_error + network_request" where
  "normalize_network_request L a =
     bindE (case a of
       ANetRequest r \<Rightarrow> network_object_parts L (nq_target r) (nq_redirects r)
     | AJson (JObj d) \<Rightarrow> network_parts L d ''redirects''
     | _ \<Rightarrow> Inl (PolicyInputError InvalidInput))
     (\<lambda>(t, ts). Inr \<lparr>nq_target = t, nq_redirects = ts\<rparr>)"

definition network_is_authorized :: "network_scope \<Rightarrow> network_request \<Rightarrow> decision" where
  "network_is_authorized authority request =
     (let answer = (\<lambda>st reason. \<lparr>dc_status = st, dc_reason = reason, dc_capability = Some ''network.connect'',
                                 dc_normalized = Some (RqNetwork request)\<rparr>) in
      if tg_verify (nq_target request) then answer StHostVerification AmbiguousInput
      else if ns_target authority \<noteq> nq_target request then answer StDeny NetworkNotAuthorized
      else if nq_redirects request \<noteq> [] \<and> ns_redirects authority = [] then answer StDeny RedirectNotAuthorized
      else if list_ex (\<lambda>t. t \<notin> set (ns_redirects authority)) (nq_redirects request)
      then answer StDeny RedirectNotAuthorized
      else answer StAllow ReasonAllowed)"

section \<open>Skills\<close>

definition semver_number :: "string \<Rightarrow> bool" where
  "semver_number s = (s = ''0'' \<or> isdigit s \<and> hd s \<noteq> CHR ''0'')"

definition semver_label :: "string \<Rightarrow> bool" where
  "semver_label s = (s \<noteq> [] \<and> list_all (\<lambda>c. alpha_char c \<or> digit_char c \<or> c = CHR ''-'') s)"

definition semver_labels :: "string option \<Rightarrow> bool" where
  "semver_labels t = (case t of None \<Rightarrow> True | Some s \<Rightarrow> list_all semver_label (split_on CHR ''.'' s))"

definition cut_at :: "char \<Rightarrow> string \<Rightarrow> string \<times> string option" where
  "cut_at c s = (case dropWhile (\<lambda>x. x \<noteq> c) s of [] \<Rightarrow> (s, None) | _ # t \<Rightarrow> (takeWhile (\<lambda>x. x \<noteq> c) s, Some t))"

text \<open>The pattern of a version: three numbers, then labels after the first \<open>-\<close>, then labels after the first \<open>+\<close>.\<close>

definition semver_ok :: "string \<Rightarrow> bool" where
  "semver_ok v =
     (let (main, build) = cut_at CHR ''+'' v; (core, pre) = cut_at CHR ''-'' main; ns = split_on CHR ''.'' core
      in length ns = 3 \<and> list_all semver_number ns \<and> semver_labels pre \<and> semver_labels build)"

definition normalize_skill_scope :: "cap_arg \<Rightarrow> cap_error + skill_scope" where
  "normalize_skill_scope a =
     bindE (case a of
       ASkill s \<Rightarrow> Inr (JStr (sk_identity s), JStr (sk_version s), JStr (sk_provenance s))
     | AJson (JObj d) \<Rightarrow> Inr (dget d ''identity'', dget d ''version'', dget_or d ''provenance'' (JStr []))
     | _ \<Rightarrow> Inl (PolicyInputError InvalidInput))
     (\<lambda>(i, v, p).
       if \<not> is_jstr i \<or> jstr i = [] \<or> has_space (jstr i) \<or> any_of [bslash, CHR 0x00] (jstr i)
       then Inl (PolicyInputError AmbiguousInput)
       else if \<not> is_jstr v \<or> \<not> semver_ok (jstr v) then Inl (PolicyInputError AmbiguousInput)
       else if \<not> is_jstr p \<or> jstr p = [] \<or> any_of control_breaks (jstr p) then Inl (PolicyInputError ProvenanceRequired)
       else Inr \<lparr>sk_identity = jstr i, sk_version = jstr v, sk_provenance = jstr p\<rparr>)"

definition skill_is_authorized :: "skill_scope \<Rightarrow> skill_scope \<Rightarrow> decision" where
  "skill_is_authorized authority request =
     (if authority \<noteq> request
      then \<lparr>dc_status = StDeny, dc_reason = SkillNotAuthorized, dc_capability = Some ''skill.use'',
            dc_normalized = Some (RqSkill request)\<rparr>
      else \<lparr>dc_status = StAllow, dc_reason = ReasonAllowed, dc_capability = Some ''skill.use'',
            dc_normalized = Some (RqSkill request)\<rparr>)"

section \<open>Times\<close>

definition time_limit :: int where
  "time_limit = 315537897600000000"

definition to_utc :: "int \<Rightarrow> int \<Rightarrow> cap_error + int" where
  "to_utc local_time offset =
     (let t = local_time - offset in if 0 \<le> t \<and> t < time_limit then Inr t else Inl PyOverflowError)"

definition parse_aware :: "pylib \<Rightarrow> json \<Rightarrow> cap_error + int" where
  "parse_aware L v = (case v of
     JStr s \<Rightarrow> (case pl_iso_parse L (concat (map (\<lambda>c. if c = CHR ''Z'' then ''+00:00'' else [c]) s)) of
                 None \<Rightarrow> Inl (PolicyInputError InvalidInput)
               | Some (Naive _) \<Rightarrow> Inl (PolicyInputError AmbiguousInput)
               | Some (Aware t offset) \<Rightarrow> to_utc t offset)
   | _ \<Rightarrow> Inl (PolicyInputError AmbiguousInput))"


section \<open>Permission facts\<close>

record cap_fact =
  fa_capability :: string
  fa_scope :: cap_arg
  fa_effect :: string

record perm_facts =
  pf_revision :: int
  pf_capabilities :: "cap_fact list"
  pf_issued_at :: "int option"
  pf_expires_at :: "int option"
  pf_stale :: bool

datatype facts_arg = FactsObject perm_facts | FactsJson json

text \<open>A Python for runs: ASCII letters only, no address is known, a digest is the text itself.\<close>

definition ascii_lib :: pylib where
  "ascii_lib = \<lparr>pl_lower = map (\<lambda>c. if 65 \<le> (of_char c :: nat) \<and> (of_char c :: nat) \<le> 90 then char_of (of_char c + 32 :: nat) else c),
     pl_casefold = map (\<lambda>c. if 65 \<le> (of_char c :: nat) \<and> (of_char c :: nat) \<le> 90 then char_of (of_char c + 32 :: nat) else c),
     pl_idna = Some, pl_ip = (\<lambda>_. None), pl_str = (\<lambda>_. []), pl_iso_parse = (\<lambda>_. None), pl_iso = (\<lambda>_. []),
     pl_dumps = (\<lambda>_ _. []), pl_sha256 = id, pl_trim = py_strip, pl_fnmatch = (=)\<rparr>"

end
