(* ===== verification/CapCatalog.thy ===== *)
theory CapCatalog
  imports CapPolicy
begin

text \<open>
  \<open>agent_capabilities/types.py\<close> and \<open>agent_capabilities/catalog.py\<close>: the immutable grant of a task, its
  binding to workspace roots that a host has observed, and the decision about one request.  The limits,
  artifact, secret and budget sections of a grant, which no operation here reads, are left out.
\<close>

section \<open>Grants and requests\<close>

record workspace_identity =
  wi_workspace :: string
  wi_identity :: string

datatype right = RightRead | RightWrite | RightCreate | RightDelete

record workspace_root =
  wc_root_id :: string
  wc_path :: string
  wc_identity :: string
  wc_rights :: "right list"

record verified_root =
  vr_root_id :: string
  vr_path :: string
  vr_observed :: string
  vr_reparse :: string
  vr_safe :: bool

record workspace_evidence =
  vb_workspace :: string
  vb_identity :: string
  vb_roots :: "verified_root list"

datatype command_mode = CommandsDenied | CommandsInWorkspace | CommandsExplicit
datatype list_mode = ListDenied | Allowlist

record command_policy =
  cp_mode :: command_mode
  cp_executables :: "string list"
  cp_denied :: "string list"
  cp_env :: "string list"

record network_policy =
  np_mode :: list_mode
  np_hosts :: "string list"
  np_schemes :: "string list"
  np_ports :: "int list"
  np_private :: bool

record skill_policy =
  sp_mode :: list_mode
  sp_identities :: "string list"
  sp_versions :: "string list"

record grant =
  gr_id :: string
  gr_revision :: int
  gr_policy_revision :: int
  gr_task :: string
  gr_operation :: string
  gr_workspace :: workspace_identity
  gr_issued :: int
  gr_expires :: int
  gr_roots :: "workspace_root list"
  gr_command :: command_policy
  gr_network :: network_policy
  gr_skills :: skill_policy

record invocation_binding =
  ib_task :: string
  ib_operation :: string
  ib_workspace :: workspace_identity
  ib_policy_revision :: int

record path_target =
  pt_path :: string
  pt_root_id :: string
  pt_verified :: bool
  pt_observed :: "string option"

record command_target =
  ct_argv :: "string list"
  ct_cwd :: string
  ct_env :: "string list"
  ct_shell :: bool
  ct_verified :: bool

datatype net_target = NetTarget (nr_scheme: string) (nr_host: string) (nr_port: int)
  (nr_addresses: "string list option") (nr_redirect: "net_target option")

record skill_target =
  sr_identity :: string
  sr_version :: string

record cap_invocation_request =
  rq_capability :: string
  rq_binding :: invocation_binding
  rq_path :: "path_target option"
  rq_command :: "command_target option"
  rq_network :: "net_target option"
  rq_skill :: "skill_target option"

datatype deny_code = CodeAllowed | GrantMissing | GrantExpired | GrantRevoked | RevisionMismatch | GrantStale
  | BindingMismatch | CapabilityUnknown | ScopeConflict | CapabilityDenied | ToolNotRegistered
  | OutsideWorkspace | PathIdentityChanged | PathAmbiguous | CommandDenied | NetworkDenied | SkillDenied
  | BudgetExceeded | HostVerificationRequired

record cap_decision =
  cd_allowed :: bool
  cd_code :: deny_code
  cd_capability :: string
  cd_task :: string
  cd_operation :: string
  cd_workspace :: workspace_identity
  cd_grant_id :: "string option"
  cd_grant_revision :: "int option"
  cd_policy_revision :: int
  cd_host :: bool

section \<open>Validation of a grant\<close>

definition ident_ok :: "nat \<Rightarrow> string \<Rightarrow> bool" where
  "ident_ok n s = (s \<noteq> [] \<and> utf8_length s \<le> n \<and> CHR 0x00 \<notin> set s)"

definition names_ok :: "string list \<Rightarrow> bool" where
  "names_ok xs = list_all (\<lambda>s. s \<noteq> [] \<and> CHR 0x00 \<notin> set s) xs"

definition make_root :: "pylib \<Rightarrow> workspace_root \<Rightarrow> cap_error + workspace_root" where
  "make_root L r =
     (let s = r\<lparr>wc_root_id := pl_trim L (wc_root_id r), wc_path := pl_trim L (wc_path r),
                wc_identity := pl_trim L (wc_identity r)\<rparr>
      in if ident_ok 256 (wc_root_id s) \<and> ident_ok 4096 (wc_path s) \<and> ident_ok 256 (wc_identity s)
         then Inr s else Inl PyValueError)"

definition make_command :: "pylib \<Rightarrow> command_policy \<Rightarrow> cap_error + command_policy" where
  "make_command L c =
     (if names_ok (cp_executables c) \<and> names_ok (cp_denied c) \<and> names_ok (cp_env c)
      then Inr (c\<lparr>cp_executables := map (pl_trim L) (cp_executables c), cp_denied := map (pl_trim L) (cp_denied c),
                  cp_env := map (pl_trim L) (cp_env c)\<rparr>)
      else Inl PyValueError)"

definition make_network :: "pylib \<Rightarrow> network_policy \<Rightarrow> cap_error + network_policy" where
  "make_network L n =
     (if names_ok (np_hosts n) \<and> list_all (\<lambda>s. s \<in> {''http'', ''https''}) (np_schemes n) \<and>
         list_all (\<lambda>p. 1 \<le> p \<and> p \<le> 65535) (np_ports n)
      then Inr (n\<lparr>np_hosts := map (pl_trim L) (np_hosts n), np_ports := sort (remdups (np_ports n))\<rparr>)
      else Inl PyValueError)"

definition make_skills :: "pylib \<Rightarrow> skill_policy \<Rightarrow> cap_error + skill_policy" where
  "make_skills L s =
     (if names_ok (sp_identities s) \<and> names_ok (sp_versions s)
      then Inr (s\<lparr>sp_identities := map (pl_trim L) (sp_identities s), sp_versions := map (pl_trim L) (sp_versions s)\<rparr>)
      else Inl PyValueError)"

text \<open>
  \<open>GrantInput(...)\<close> and \<open>GrantSnapshot.model_validate\<close>: text is stripped, then checked; a violation is
  pydantic's \<open>ValidationError\<close>, a \<open>ValueError\<close>.
\<close>

definition freeze_grant :: "pylib \<Rightarrow> grant \<Rightarrow> cap_error + grant" where
  "freeze_grant L g =
     bindE (mapE (make_root L) (gr_roots g)) (\<lambda>roots.
     bindE (make_command L (gr_command g)) (\<lambda>c.
     bindE (make_network L (gr_network g)) (\<lambda>n.
     bindE (make_skills L (gr_skills g)) (\<lambda>s.
     let t = pl_trim L;
         w = \<lparr>wi_workspace = t (wi_workspace (gr_workspace g)), wi_identity = t (wi_identity (gr_workspace g))\<rparr>;
         h = g\<lparr>gr_id := t (gr_id g), gr_task := t (gr_task g), gr_operation := t (gr_operation g), gr_workspace := w,
               gr_roots := roots, gr_command := c, gr_network := n, gr_skills := s\<rparr>
     in if ident_ok 256 (gr_id h) \<and> ident_ok 256 (gr_task h) \<and> ident_ok 256 (gr_operation h) \<and>
           ident_ok 256 (wi_workspace w) \<and> ident_ok 256 (wi_identity w) \<and> 1 \<le> gr_revision h \<and>
           1 \<le> gr_policy_revision h \<and> gr_issued h < gr_expires h
        then Inr h else Inl PyValueError))))"

section \<open>Binding to observed roots\<close>

definition unbound_identities :: "string list" where
  "unbound_identities = [''policy-facts'', ''host-verification-required'']"

definition root_key :: "workspace_root \<Rightarrow> string \<times> string" where
  "root_key r = (wc_root_id r, wc_path r)"

definition observed_key :: "verified_root \<Rightarrow> string \<times> string" where
  "observed_key r = (vr_root_id r, vr_path r)"

text \<open>A dictionary comprehension: later values win, the place of the first stays.\<close>

definition dict_by :: "('a \<Rightarrow> 'k) \<Rightarrow> 'a list \<Rightarrow> ('k \<times> 'a) list" where
  "dict_by key xs = fold (\<lambda>x. AList.update (key x) x) xs []"

definition bind_root :: "pylib \<Rightarrow> ((string \<times> string) \<times> verified_root) list \<Rightarrow> (string \<times> string) \<times> workspace_root \<Rightarrow>
    cap_error + workspace_root" where
  "bind_root L observed kr =
     (case map_of observed (fst kr) of
        None \<Rightarrow> Inl PyKeyError
      | Some v \<Rightarrow>
          if \<not> vr_safe v then Inl PyValueError
          else if vr_observed v \<noteq> vr_reparse v then Inl PyValueError
          else if vr_observed v = [] \<or> vr_observed v \<in> set unbound_identities then Inl PyValueError
          else make_root L \<lparr>wc_root_id = wc_root_id (snd kr), wc_path = wc_path (snd kr), wc_identity = vr_observed v,
                            wc_rights = wc_rights (snd kr)\<rparr>)"

definition evidence_text :: "pylib \<Rightarrow> grant \<Rightarrow> workspace_evidence \<Rightarrow> string" where
  "evidence_text L g e = pl_dumps L False (JObj [
     (''grant_id'', JStr (gr_id g)),
     (''roots'', JArr (map (\<lambda>r. JObj [(''canonical_path'', JStr (vr_path r)), (''observed_identity'', JStr (vr_observed r)),
        (''reparse_identity'', JStr (vr_reparse r)), (''root_id'', JStr (vr_root_id r))]) (vb_roots e))),
     (''workspace_id'', JStr (vb_workspace e)),
     (''workspace_identity'', JStr (vb_identity e))])"

definition bind_verified_workspace :: "pylib \<Rightarrow> grant \<Rightarrow> workspace_evidence \<Rightarrow> cap_error + grant" where
  "bind_verified_workspace L g e =
     (if wi_identity (gr_workspace g) \<notin> set unbound_identities then Inl PyValueError
      else if vb_workspace e \<noteq> wi_workspace (gr_workspace g) then Inl PyValueError
      else if vb_identity e = [] \<or> vb_identity e \<in> set unbound_identities then Inl PyValueError
      else let expected = dict_by root_key (gr_roots g); observed = dict_by observed_key (vb_roots e) in
        if length observed \<noteq> length (vb_roots e) \<or> set (map fst expected) \<noteq> set (map fst observed) then Inl PyValueError
        else if list_ex (\<lambda>r. wc_identity r \<noteq> ''host-verification-required'') (gr_roots g) then Inl PyValueError
        else bindE (mapE (bind_root L observed) expected) (\<lambda>roots.
          let sfx = '':verified:'' @ pl_sha256 L (evidence_text L g e) in
          freeze_grant L (g\<lparr>gr_id := utf8_take (256 - utf8_length sfx) (gr_id g) @ sfx,
                            gr_workspace := \<lparr>wi_workspace = vb_workspace e, wi_identity = vb_identity e\<rparr>,
                            gr_roots := roots\<rparr>)))"


section \<open>Lexical containment\<close>

definition has_parent_segment :: "string \<Rightarrow> bool" where
  "has_parent_segment v = (''..'' \<in> set (split_on slash (replace_char bslash slash v)))"

definition drive_prefix :: "string \<Rightarrow> bool" where
  "drive_prefix v = (case v of c # d # e # _ \<Rightarrow> alpha_char c \<and> d = CHR '':'' \<and> e = slash | _ \<Rightarrow> False)"

definition path_anchor :: "string \<Rightarrow> string \<times> string" where
  "path_anchor v =
     (if prefix [slash, slash] v then ([slash, slash], drop 2 v)
      else if drive_prefix v then (take 3 v, drop 3 v)
      else if prefix [slash] v then ([slash], drop 1 v)
      else ([], v))"

definition normalise_path :: "string \<Rightarrow> string" where
  "normalise_path v =
     (let (pre, rest) = path_anchor (replace_char bslash slash v) in
      pre @ join slash (filter (\<lambda>p. p \<noteq> '''' \<and> p \<noteq> ''.'') (split_on slash rest)))"

definition rstrip_char :: "char \<Rightarrow> string \<Rightarrow> string" where
  "rstrip_char c s = rev (dropWhile ((=) c) (rev s))"

definition or_slash :: "string \<Rightarrow> string" where
  "or_slash s = (if s = [] then [slash] else s)"

definition windows_path :: "string \<Rightarrow> bool" where
  "windows_path v = (drive_prefix v \<or> prefix [slash, slash] v)"

definition is_lexically_within :: "pylib \<Rightarrow> string \<Rightarrow> string \<Rightarrow> bool" where
  "is_lexically_within L rt target =
     (let r = or_slash (rstrip_char slash (normalise_path rt)); t = or_slash (rstrip_char slash (normalise_path target));
          fold_case = (if windows_path r \<or> windows_path t then pl_casefold L else (\<lambda>s. s));
          r' = fold_case r; t' = fold_case t
      in t' = r' \<or> prefix (r' @ [slash]) t')"

definition normalise_host :: "pylib \<Rightarrow> string \<Rightarrow> string" where
  "normalise_host L v =
     (let host = pl_lower L (rstrip_char CHR ''.'' (py_strip v)) in
      case pl_idna L host of None \<Rightarrow> host | Some t \<Rightarrow> t)"

definition is_private_address :: "pylib \<Rightarrow> string \<Rightarrow> bool" where
  "is_private_address L v = (case pl_ip L (JStr v) of None \<Rightarrow> True | Some a \<Rightarrow> ip_inward a)"

section \<open>Decisions\<close>

definition cap_answer :: "cap_invocation_request \<Rightarrow> deny_code \<Rightarrow> grant option \<Rightarrow> bool \<Rightarrow> cap_decision" where
  "cap_answer q code g host =
     \<lparr>cd_allowed = (code = CodeAllowed), cd_code = code, cd_capability = rq_capability q,
      cd_task = ib_task (rq_binding q), cd_operation = ib_operation (rq_binding q),
      cd_workspace = ib_workspace (rq_binding q), cd_grant_id = map_option gr_id g,
      cd_grant_revision = map_option gr_revision g,
      cd_policy_revision = (case g of None \<Rightarrow> ib_policy_revision (rq_binding q) | Some x \<Rightarrow> gr_policy_revision x),
      cd_host = host\<rparr>"

definition evaluate_path :: "pylib \<Rightarrow> grant \<Rightarrow> path_target option \<Rightarrow> right \<Rightarrow> deny_code" where
  "evaluate_path L g target need =
     (case target of
        None \<Rightarrow> CapabilityDenied
      | Some t \<Rightarrow>
          (case List.find (\<lambda>r. wc_root_id r = pt_root_id t) (gr_roots g) of
             None \<Rightarrow> OutsideWorkspace
           | Some r \<Rightarrow>
               if need \<notin> set (wc_rights r) then OutsideWorkspace
               else if has_parent_segment (pt_path t) \<or> CHR 0x00 \<in> set (pt_path t) then PathAmbiguous
               else if \<not> is_lexically_within L (wc_path r) (pt_path t) then OutsideWorkspace
               else if \<not> pt_verified t \<or> pt_observed t = None then HostVerificationRequired
               else if pt_observed t \<noteq> Some (wc_identity r) then PathIdentityChanged
               else CodeAllowed))"

definition evaluate_command :: "pylib \<Rightarrow> grant \<Rightarrow> command_target option \<Rightarrow> deny_code" where
  "evaluate_command L g target =
     (let p = gr_command g in
      case target of
        None \<Rightarrow> CommandDenied
      | Some t \<Rightarrow>
          if cp_mode p = CommandsDenied \<or> ct_shell t \<or> ct_argv t = [] then CommandDenied
          else if list_ex (\<lambda>n. n \<notin> set (cp_env p)) (ct_env t) then CommandDenied
          else if list_ex (\<lambda>a. list_ex (pl_fnmatch L a) (cp_denied p)) (ct_argv t) then CommandDenied
          else if cp_mode p = CommandsExplicit \<and> hd (ct_argv t) \<notin> set (cp_executables p) then CommandDenied
          else if cp_mode p = CommandsInWorkspace \<and>
                  \<not> list_ex (\<lambda>r. is_lexically_within L (wc_path r) (ct_cwd t)) (gr_roots g) then CommandDenied
          else if \<not> ct_verified t then HostVerificationRequired
          else CodeAllowed)"

definition host_listed :: "pylib \<Rightarrow> network_policy \<Rightarrow> net_target \<Rightarrow> bool" where
  "host_listed L p t =
     (normalise_host L (nr_host t) \<in> set (map (normalise_host L) (np_hosts p)) \<and>
      pl_lower L (nr_scheme t) \<in> set (np_schemes p) \<and> nr_port t \<in> set (np_ports p))"

definition evaluate_network :: "pylib \<Rightarrow> grant \<Rightarrow> net_target option \<Rightarrow> deny_code" where
  "evaluate_network L g target =
     (let p = gr_network g in
      case target of
        None \<Rightarrow> NetworkDenied
      | Some t \<Rightarrow>
          if np_mode p = ListDenied \<or> \<not> host_listed L p t then NetworkDenied
          else (case nr_addresses t of
              None \<Rightarrow> HostVerificationRequired
            | Some addresses \<Rightarrow>
                if \<not> np_private p \<and> list_ex (is_private_address L) addresses then NetworkDenied
                else (case nr_redirect t of
                    None \<Rightarrow> CodeAllowed
                  | Some d \<Rightarrow> if host_listed L p d then HostVerificationRequired else NetworkDenied)))"

definition evaluate_skill :: "grant \<Rightarrow> skill_target option \<Rightarrow> deny_code" where
  "evaluate_skill g target =
     (let p = gr_skills g in
      case target of
        None \<Rightarrow> SkillDenied
      | Some t \<Rightarrow>
          if sp_mode p = ListDenied \<or> sr_identity t \<notin> set (sp_identities p) \<or> sr_version t \<notin> set (sp_versions p)
          then SkillDenied else CodeAllowed)"

definition cap_of_name :: "string \<Rightarrow> capability option" where
  "cap_of_name s = List.find (\<lambda>c. cap_value c = s) all_capabilities"

text \<open>\<open>now\<close> is the instant given, \<open>clock\<close> the one read when none is given.\<close>

definition evaluate_capability ::
    "pylib \<Rightarrow> int \<Rightarrow> grant option \<Rightarrow> cap_invocation_request \<Rightarrow> int option \<Rightarrow> int option \<Rightarrow> cap_decision" where
  "evaluate_capability L clock grant_arg q now active_policy_revision =
     (case cap_of_name (rq_capability q) of
        None \<Rightarrow> cap_answer q CapabilityUnknown None False
      | Some c \<Rightarrow>
        (case grant_arg of
           None \<Rightarrow> cap_answer q GrantMissing None False
         | Some g \<Rightarrow>
           (let b = rq_binding q; answer = (\<lambda>code. cap_answer q code (Some g) (code = HostVerificationRequired)) in
            if gr_task g \<noteq> ib_task b \<or> gr_operation g \<noteq> ib_operation b then answer BindingMismatch
            else if gr_workspace g \<noteq> ib_workspace b then answer BindingMismatch
            else if gr_policy_revision g \<noteq> ib_policy_revision b then answer RevisionMismatch
            else if active_policy_revision \<noteq> None \<and> active_policy_revision \<noteq> Some (gr_policy_revision g)
            then answer GrantStale
            else if gr_expires g \<le> (case now of None \<Rightarrow> clock | Some t \<Rightarrow> t) then answer GrantExpired
            else answer (case c of
                PathRead \<Rightarrow> evaluate_path L g (rq_path q) RightRead
              | PathWrite \<Rightarrow> evaluate_path L g (rq_path q) RightWrite
              | PathDelete \<Rightarrow> evaluate_path L g (rq_path q) RightDelete
              | CommandExecute \<Rightarrow> evaluate_command L g (rq_command q)
              | NetworkConnect \<Rightarrow> evaluate_network L g (rq_network q)
              | SkillUse \<Rightarrow> evaluate_skill g (rq_skill q)
              | _ \<Rightarrow> CapabilityDenied))))"

end
