(* ===== verification/CapCompiler.thy ===== *)
theory CapCompiler
  imports CapCatalog
begin

text \<open>
  \<open>agent_capabilities/compiler.py\<close>: permission facts are normalised, checked for freshness and for allow and
  deny scopes that overlap, and become an ordered list of rules and a public grant; \<open>decide\<close> answers one
  request from the rules.  An exception that the code catches is an outcome, one that it does not catch
  leaves the function as \<open>Inl\<close>.
\<close>

section \<open>Rules\<close>

record compiled =
  cc_capability :: capability
  cc_effect :: string
  cc_scope :: cap_scope

record compile_result =
  cr_decision :: decision
  cr_grant :: "grant option"
  cr_rules :: "compiled list"

definition result_allowed :: "compile_result \<Rightarrow> bool" where
  "result_allowed r = (dc_status (cr_decision r) = StAllow \<and> cr_grant r \<noteq> None)"

definition failure :: "reason_code \<Rightarrow> compile_result" where
  "failure reason = \<lparr>cr_decision = deny None reason, cr_grant = None, cr_rules = []\<rparr>"

definition normalize_scope :: "pylib \<Rightarrow> capability \<Rightarrow> cap_arg \<Rightarrow> cap_error + cap_scope" where
  "normalize_scope L c a = (case c of
     PathRead \<Rightarrow> bindE (normalize_path_scope L a) (Inr \<circ> ScPath)
   | PathWrite \<Rightarrow> bindE (normalize_path_scope L a) (Inr \<circ> ScPath)
   | CommandExecute \<Rightarrow> bindE (case a of
         ACommand s \<Rightarrow> normalize_command_object s
       | AJson (JObj d) \<Rightarrow> normalize_command_scope (dget_or d ''argv'' (JArr [])) (dget_or d ''cwd'' (JStr []))
           (dget_or d ''env_names'' (JArr [])) (dget_or d ''platform'' (JStr []))
       | _ \<Rightarrow> Inl (PolicyInputError InvalidInput)) (Inr \<circ> ScCommand)
   | NetworkConnect \<Rightarrow> bindE (normalize_network_scope L a) (Inr \<circ> ScNetwork)
   | SkillUse \<Rightarrow> bindE (normalize_skill_scope a) (Inr \<circ> ScSkill)
   | _ \<Rightarrow> Inl (PolicyInputError UnknownCapability))"

definition normalize_request :: "pylib \<Rightarrow> capability \<Rightarrow> cap_arg \<Rightarrow> cap_error + cap_request" where
  "normalize_request L c a =
     (let path = (case a of
            AJson (JObj d) \<Rightarrow> bindE (normalize_path_request (dget_or d ''path'' (JStr [])) (dget_or d ''platform'' (JStr [])))
              (Inr \<circ> RqPath)
          | _ \<Rightarrow> Inl (PolicyInputError InvalidInput))
      in case c of
     PathRead \<Rightarrow> path
   | PathWrite \<Rightarrow> path
   | CommandExecute \<Rightarrow> bindE (case a of
         ACommand s \<Rightarrow> normalize_command_object s
       | AJson (JObj d) \<Rightarrow> normalize_command_scope (dget_or d ''argv'' (JArr [])) (dget_or d ''cwd'' (JStr []))
           (dget_or d ''env_names'' (JArr [])) (dget_or d ''platform'' (JStr []))
       | _ \<Rightarrow> Inl (PolicyInputError InvalidInput)) (Inr \<circ> RqCommand)
   | NetworkConnect \<Rightarrow> bindE (normalize_network_request L a) (Inr \<circ> RqNetwork)
   | SkillUse \<Rightarrow> bindE (normalize_skill_scope a) (Inr \<circ> RqSkill)
   | _ \<Rightarrow> Inl (PolicyInputError UnknownCapability))"

definition evaluate_path_rule :: "pylib \<Rightarrow> capability \<Rightarrow> cap_scope \<Rightarrow> cap_request \<Rightarrow> cap_error + decision" where
  "evaluate_path_rule L c sc rq = (case (sc, rq) of
     (ScPath s, RqPath q) \<Rightarrow>
       Inr (if list_ex (\<lambda>r. path_is_within_root L r q) (ps_roots s) then allow (cap_value c) rq
            else deny (Some (cap_value c)) PathOutsideRoot)
   | _ \<Rightarrow> Inl PyAssertionError)"

definition evaluate_rule :: "pylib \<Rightarrow> capability \<Rightarrow> cap_scope \<Rightarrow> cap_request \<Rightarrow> cap_error + decision" where
  "evaluate_rule L c sc rq = (case c of
     PathRead \<Rightarrow> evaluate_path_rule L c sc rq
   | PathWrite \<Rightarrow> evaluate_path_rule L c sc rq
   | CommandExecute \<Rightarrow> (case (sc, rq) of
         (ScCommand s, RqCommand q) \<Rightarrow>
           Inr (if command_is_authorized s q then allow (cap_value c) rq
                else deny (Some (cap_value c)) CommandNotAuthorized)
       | _ \<Rightarrow> Inl PyAssertionError)
   | NetworkConnect \<Rightarrow> (case (sc, rq) of
         (ScNetwork s, RqNetwork q) \<Rightarrow> Inr (network_is_authorized s q)
       | _ \<Rightarrow> Inl PyAssertionError)
   | SkillUse \<Rightarrow> (case (sc, rq) of
         (ScSkill s, RqSkill q) \<Rightarrow> Inr (skill_is_authorized s q)
       | _ \<Rightarrow> Inl PyAssertionError)
   | _ \<Rightarrow> Inr (deny (Some (cap_value c)) UnknownCapability))"

definition scope_matches :: "pylib \<Rightarrow> capability \<Rightarrow> cap_scope \<Rightarrow> cap_request \<Rightarrow> cap_error + bool" where
  "scope_matches L c sc rq = bindE (evaluate_rule L c sc rq) (\<lambda>d. Inr (dc_status d = StAllow))"

section \<open>Conflicts\<close>

fun anyE :: "('a \<Rightarrow> 'e + bool) \<Rightarrow> 'a list \<Rightarrow> 'e + bool" where
  "anyE f [] = Inr False"
| "anyE f (x # xs) = bindE (f x) (\<lambda>b. if b then Inr True else anyE f xs)"

lemma anyE_False: "anyE f xs = Inr False \<longleftrightarrow> (\<forall>x \<in> set xs. f x = Inr False)"
  by (induction xs) (auto simp: bindE_Inr_iff)

definition paths_overlap :: "pylib \<Rightarrow> path_root \<Rightarrow> path_root \<Rightarrow> cap_error + bool" where
  "paths_overlap L a b = bindE (path_text_is_within_root L a (pr_root b))
     (\<lambda>w. if w then Inr True else path_text_is_within_root L b (pr_root a))"

definition commands_overlap :: "command_scope \<Rightarrow> command_scope \<Rightarrow> bool" where
  "commands_overlap a b =
     (co_platform a = co_platform b \<and> co_argv a = co_argv b \<and> co_cwd a = co_cwd b \<and>
      (set (co_env a) \<inter> set (co_env b) \<noteq> {} \<or> co_env a = [] \<or> co_env b = []))"

definition path_scopes_overlap :: "pylib \<Rightarrow> cap_scope \<Rightarrow> cap_scope \<Rightarrow> cap_error + bool" where
  "path_scopes_overlap L x y = (case (x, y) of
     (ScPath a, ScPath b) \<Rightarrow> anyE (\<lambda>(r, s). paths_overlap L r s) (List.product (ps_roots a) (ps_roots b))
   | _ \<Rightarrow> Inl PyAssertionError)"

definition scopes_overlap :: "pylib \<Rightarrow> capability \<Rightarrow> cap_scope \<Rightarrow> cap_scope \<Rightarrow> cap_error + bool" where
  "scopes_overlap L c x y = (case c of
     PathRead \<Rightarrow> path_scopes_overlap L x y
   | PathWrite \<Rightarrow> path_scopes_overlap L x y
   | CommandExecute \<Rightarrow> (case (x, y) of (ScCommand a, ScCommand b) \<Rightarrow> Inr (commands_overlap a b) | _ \<Rightarrow> Inl PyAssertionError)
   | NetworkConnect \<Rightarrow> (case (x, y) of (ScNetwork a, ScNetwork b) \<Rightarrow> Inr (ns_target a = ns_target b) | _ \<Rightarrow> Inl PyAssertionError)
   | SkillUse \<Rightarrow> (case (x, y) of
         (ScSkill a, ScSkill b) \<Rightarrow> Inr (sk_identity a = sk_identity b \<and> sk_version a = sk_version b)
       | _ \<Rightarrow> Inl PyAssertionError)
   | _ \<Rightarrow> Inr True)"

fun find_conflict :: "pylib \<Rightarrow> compiled list \<Rightarrow> cap_error + bool" where
  "find_conflict L [] = Inr False"
| "find_conflict L (x # ys) =
     bindE (anyE (\<lambda>y. if cc_capability x \<noteq> cc_capability y \<or> cc_effect x = cc_effect y then Inr False
                     else scopes_overlap L (cc_capability x) (cc_scope x) (cc_scope y)) ys)
       (\<lambda>b. if b then Inr True else find_conflict L ys)"

section \<open>The public grant\<close>

definition canonical_target :: "pylib \<Rightarrow> network_target \<Rightarrow> string" where
  "canonical_target L t = pl_dumps L True (JArr [JStr (tg_scheme t), JStr (tg_host t), JNum (of_int (tg_port t)),
     JArr (map JStr (tg_ips t))])"

definition canonical_scope :: "pylib \<Rightarrow> cap_scope \<Rightarrow> string" where
  "canonical_scope L sc = pl_dumps L True (case sc of
     ScPath s \<Rightarrow> JObj [(''roots'', JArr (map (\<lambda>r. JArr [JStr (pr_platform r), JStr (pr_root r)]) (ps_roots s)))]
   | ScCommand s \<Rightarrow> JObj [(''platform'', JStr (co_platform s)), (''argv'', JArr (map JStr (co_argv s))),
       (''cwd'', JStr (co_cwd s)), (''env_names'', JArr (map JStr (co_env s)))]
   | ScNetwork s \<Rightarrow> JObj [(''target'', JStr (canonical_target L (ns_target s))),
       (''redirects'', JArr (map (JStr \<circ> canonical_target L) (ns_redirects s)))]
   | ScSkill s \<Rightarrow> JArr [JStr (sk_identity s), JStr (sk_version s), JStr (sk_provenance s)])"

definition grant_id :: "pylib \<Rightarrow> perm_facts \<Rightarrow> string \<Rightarrow> compiled list \<Rightarrow> string" where
  "grant_id L f task_id rules = ''grant_'' @ take 32 (pl_sha256 L (pl_dumps L True (JObj [
     (''capabilities'', JArr (map (\<lambda>i. JArr [JStr (cap_value (cc_capability i)), JStr (cc_effect i),
        JStr (canonical_scope L (cc_scope i))]) rules)),
     (''expires_at'', case pf_expires_at f of None \<Rightarrow> JNull | Some t \<Rightarrow> JStr (pl_iso L t)),
     (''revision'', JNum (of_int (pf_revision f))),
     (''schema_version'', JNum 1),
     (''task_id'', JStr task_id)])))"

definition allow_scopes :: "compiled list \<Rightarrow> (capability \<times> cap_scope) list" where
  "allow_scopes rules = map (\<lambda>i. (cc_capability i, cc_scope i)) (filter (\<lambda>i. cc_effect i = ''allow'') rules)"

definition root_rights :: "compiled list \<Rightarrow> ((string \<times> string) \<times> right) list" where
  "root_rights rules = concat (map (\<lambda>(c, sc). case sc of
       ScPath s \<Rightarrow> map (\<lambda>r. ((pr_platform r, pr_root r), if c = PathRead then RightRead else RightWrite)) (ps_roots s)
     | _ \<Rightarrow> []) (allow_scopes rules))"

definition allow_commands :: "compiled list \<Rightarrow> command_scope list" where
  "allow_commands rules = List.map_filter (\<lambda>(c, sc). case sc of ScCommand s \<Rightarrow> Some s | _ \<Rightarrow> None) (allow_scopes rules)"

definition allow_networks :: "compiled list \<Rightarrow> network_scope list" where
  "allow_networks rules = List.map_filter (\<lambda>(c, sc). case sc of ScNetwork s \<Rightarrow> Some s | _ \<Rightarrow> None) (allow_scopes rules)"

definition allow_skills :: "compiled list \<Rightarrow> skill_scope list" where
  "allow_skills rules = List.map_filter (\<lambda>(c, sc). case sc of ScSkill s \<Rightarrow> Some s | _ \<Rightarrow> None) (allow_scopes rules)"

definition sorted_set :: "'a::linorder list \<Rightarrow> 'a list" where
  "sorted_set xs = sort (remdups xs)"

lemma set_sorted_set [simp]: "set (sorted_set xs) = set xs"
  by (simp add: sorted_set_def)

definition workspace_roots :: "pylib \<Rightarrow> compiled list \<Rightarrow> workspace_root list" where
  "workspace_roots L rules =
     map (\<lambda>k. \<lparr>wc_root_id = ''root_'' @ take 16 (pl_sha256 L (fst k @ '':'' @ snd k)), wc_path = snd k,
               wc_identity = ''host-verification-required'',
               wc_rights = filter (\<lambda>r. (k, r) \<in> set (root_rights rules)) [RightRead, RightWrite]\<rparr>)
       (sorted_set (map fst (root_rights rules)))"

definition epoch :: int where
  "epoch = 62135596800000000"

definition public_grant :: "pylib \<Rightarrow> perm_facts \<Rightarrow> string \<Rightarrow> compiled list \<Rightarrow> cap_error + grant" where
  "public_grant L f task_id rules =
     (let executables = sorted_set (map (hd \<circ> co_argv) (allow_commands rules));
          hosts = sorted_set (map (tg_host \<circ> ns_target) (allow_networks rules));
          identities = sorted_set (map sk_identity (allow_skills rules))
      in freeze_grant L
        \<lparr>gr_id = grant_id L f task_id rules, gr_revision = pf_revision f, gr_policy_revision = pf_revision f,
         gr_task = task_id, gr_operation = task_id @ '':capability-policy'',
         gr_workspace = \<lparr>wi_workspace = task_id, wi_identity = ''policy-facts''\<rparr>,
         gr_issued = (case pf_issued_at f of None \<Rightarrow> epoch | Some t \<Rightarrow> t),
         gr_expires = (case pf_expires_at f of None \<Rightarrow> time_limit - 1 | Some t \<Rightarrow> t),
         gr_roots = workspace_roots L rules,
         gr_command = \<lparr>cp_mode = (if executables = [] then CommandsDenied else CommandsExplicit),
            cp_executables = executables, cp_denied = [],
            cp_env = sorted_set (concat (map co_env (allow_commands rules)))\<rparr>,
         gr_network = \<lparr>np_mode = (if hosts = [] then ListDenied else Allowlist), np_hosts = hosts,
            np_schemes = sorted_set (map (tg_scheme \<circ> ns_target) (allow_networks rules)),
            np_ports = sorted_set (map (tg_port \<circ> ns_target) (allow_networks rules)), np_private = False\<rparr>,
         gr_skills = \<lparr>sp_mode = (if identities = [] then ListDenied else Allowlist), sp_identities = identities,
            sp_versions = sorted_set (map sk_version (allow_skills rules))\<rparr>\<rparr>)"


section \<open>Compiling\<close>

definition json_int :: "json \<Rightarrow> cap_error + int" where
  "json_int v = (case v of
     JNum r \<Rightarrow> Inr (if 0 \<le> r then floor r else ceiling r)
   | JBool b \<Rightarrow> Inr (if b then 1 else 0)
   | JStr s \<Rightarrow> (case int_of_str s of None \<Rightarrow> Inl PyValueError | Some n \<Rightarrow> Inr n)
   | _ \<Rightarrow> Inl PyTypeError)"

definition fact_of_json :: "pylib \<Rightarrow> json \<Rightarrow> cap_error + cap_fact" where
  "fact_of_json L v = (case v of
     JObj d \<Rightarrow> Inr \<lparr>fa_capability = to_str L (dget_or d ''capability'' (JStr [])),
                    fa_scope = AJson (dget_or d ''scope'' (JObj [])),
                    fa_effect = to_str L (dget_or d ''effect'' (JStr ''allow''))\<rparr>
   | _ \<Rightarrow> Inl (PolicyInputError InvalidInput))"

definition optional_time :: "pylib \<Rightarrow> json \<Rightarrow> cap_error + int option" where
  "optional_time L v = (if v = JNull then Inr None else bindE (parse_aware L v) (Inr \<circ> Some))"

definition normalize_facts :: "pylib \<Rightarrow> facts_arg \<Rightarrow> cap_error + perm_facts" where
  "normalize_facts L a = (case a of
     FactsObject f \<Rightarrow> Inr f
   | FactsJson (JObj d) \<Rightarrow>
       bindE (py_iter (dget_or d ''capabilities'' (dget_or d ''facts'' (JArr [])))) (\<lambda>raw.
       bindE (mapE (fact_of_json L) raw) (\<lambda>facts.
       bindE (json_int (dget_or d ''revision'' (JNum 0))) (\<lambda>revision.
       bindE (optional_time L (dget d ''issued_at'')) (\<lambda>issued.
       bindE (optional_time L (dget d ''expires_at'')) (\<lambda>expires.
       Inr \<lparr>pf_revision = revision, pf_capabilities = facts, pf_issued_at = issued, pf_expires_at = expires,
            pf_stale = truthy (dget_or d ''stale'' (JBool False))\<rparr>)))))
   | _ \<Rightarrow> Inl (PolicyInputError InvalidInput))"

definition normalize_now :: "py_time \<Rightarrow> cap_error + int" where
  "normalize_now now = (case now of Naive _ \<Rightarrow> Inl (PolicyInputError AmbiguousInput) | Aware t offset \<Rightarrow> to_utc t offset)"

definition normalize_effect :: "string \<Rightarrow> cap_error + string" where
  "normalize_effect e = (if e = ''allow'' \<or> e = ''deny'' then Inr e else Inl (PolicyInputError ConflictingScope))"

definition network_needs_verification :: "cap_scope \<Rightarrow> bool" where
  "network_needs_verification sc = (case sc of
     ScNetwork s \<Rightarrow> tg_verify (ns_target s) \<or> list_ex tg_verify (ns_redirects s)
   | _ \<Rightarrow> False)"

text \<open>The loop over the facts; \<open>None\<close> when a network scope still needs evidence from the host.\<close>

fun compile_facts :: "pylib \<Rightarrow> capability list option \<Rightarrow> cap_fact list \<Rightarrow> cap_error + compiled list option" where
  "compile_facts L required [] = Inr (Some [])"
| "compile_facts L required (f # fs) =
     bindE (canonical_capability L (fa_capability f)) (\<lambda>c.
     if (case required of None \<Rightarrow> False | Some cs \<Rightarrow> c \<notin> set cs) then compile_facts L required fs
     else bindE (normalize_scope L c (fa_scope f)) (\<lambda>sc.
       bindE (normalize_effect (fa_effect f)) (\<lambda>e.
       if c = NetworkConnect \<and> network_needs_verification sc then Inr None
       else bindE (compile_facts L required fs) (\<lambda>rest.
         Inr (map_option ((#) \<lparr>cc_capability = c, cc_effect = e, cc_scope = sc\<rparr>) rest)))))"

definition normalize_requested :: "pylib \<Rightarrow> string list option \<Rightarrow> cap_error + capability list option" where
  "normalize_requested L r = (case r of None \<Rightarrow> Inr None | Some xs \<Rightarrow> bindE (mapE (canonical_capability L) xs) (Inr \<circ> Some))"

definition rule_key :: "pylib \<Rightarrow> compiled \<Rightarrow> string \<times> string \<times> string" where
  "rule_key L i = (cap_value (cc_capability i), cc_effect i, canonical_scope L (cc_scope i))"

definition freshness :: "perm_facts \<Rightarrow> int option \<Rightarrow> py_time option \<Rightarrow> cap_error + reason_code option" where
  "freshness f expected now =
     (if pf_revision f \<le> 0 then Inr (Some StaleRevision)
      else if expected \<noteq> None \<and> expected \<noteq> Some (pf_revision f) then Inr (Some StaleRevision)
      else if pf_stale f then Inr (Some StaleRevision)
      else case pf_expires_at f of
          None \<Rightarrow> Inr None
        | Some e \<Rightarrow> (case now of
            None \<Rightarrow> Inr (Some FreshnessUnverified)
          | Some t \<Rightarrow> bindE (normalize_now t) (\<lambda>n. Inr (if e \<le> n then Some ExpiredRevision else None))))"

definition compile_rules ::
    "pylib \<Rightarrow> perm_facts \<Rightarrow> string \<Rightarrow> string list option \<Rightarrow> cap_error + compile_result" where
  "compile_rules L f task_id requested =
     bindE (normalize_requested L requested) (\<lambda>required.
     bindE (compile_facts L required (pf_capabilities f)) (\<lambda>found.
     case found of
       None \<Rightarrow> Inr \<lparr>cr_decision = \<lparr>dc_status = StHostVerification, dc_reason = AmbiguousInput,
                    dc_capability = Some ''network.connect'', dc_normalized = None\<rparr>, cr_grant = None, cr_rules = []\<rparr>
     | Some compiled \<Rightarrow>
         bindE (find_conflict L compiled) (\<lambda>conflict.
         if conflict then Inr (failure ConflictingScope)
         else let rules = sort_key (rule_key L) compiled in
           bindE (public_grant L f task_id rules) (\<lambda>g.
           Inr \<lparr>cr_decision = \<lparr>dc_status = StAllow, dc_reason = ReasonAllowed, dc_capability = None, dc_normalized = None\<rparr>,
                cr_grant = Some g, cr_rules = rules\<rparr>))))"

definition compile_body :: "pylib \<Rightarrow> facts_arg \<Rightarrow> string \<Rightarrow> int option \<Rightarrow> py_time option \<Rightarrow> string list option \<Rightarrow>
    cap_error + compile_result" where
  "compile_body L facts task_id expected now requested =
     bindE (normalize_facts L facts) (\<lambda>f.
     if task_id = [] \<or> any_of control_breaks task_id then Inl (PolicyInputError InvalidInput)
     else bindE (freshness f expected now) (\<lambda>stale.
       case stale of Some reason \<Rightarrow> Inr (failure reason) | None \<Rightarrow> compile_rules L f task_id requested))"

definition compile_grant :: "pylib \<Rightarrow> facts_arg \<Rightarrow> string \<Rightarrow> int option \<Rightarrow> py_time option \<Rightarrow> string list option \<Rightarrow>
    cap_error + compile_result" where
  "compile_grant L facts task_id expected now requested =
     (case compile_body L facts task_id expected now requested of
        Inr r \<Rightarrow> Inr r
      | Inl (PolicyInputError reason) \<Rightarrow> Inr (failure reason)
      | Inl PyOverflowError \<Rightarrow> Inl PyOverflowError
      | Inl PyAssertionError \<Rightarrow> Inl PyAssertionError
      | Inl _ \<Rightarrow> Inr (failure InvalidInput))"

section \<open>Deciding\<close>

definition reason_for_capability :: "capability \<Rightarrow> reason_code" where
  "reason_for_capability c = (case c of
     PathRead \<Rightarrow> PathOutsideRoot | PathWrite \<Rightarrow> PathOutsideRoot | CommandExecute \<Rightarrow> CommandNotAuthorized
   | NetworkConnect \<Rightarrow> NetworkNotAuthorized | SkillUse \<Rightarrow> SkillNotAuthorized | _ \<Rightarrow> UnknownCapability)"

fun first_allow :: "pylib \<Rightarrow> capability \<Rightarrow> compiled list \<Rightarrow> cap_request \<Rightarrow> decision option \<Rightarrow> cap_error + decision" where
  "first_allow L c [] q failed = Inr (case failed of Some d \<Rightarrow> d | None \<Rightarrow> deny (Some (cap_value c)) (reason_for_capability c))"
| "first_allow L c (i # rs) q failed =
     (if cc_effect i \<noteq> ''allow'' then first_allow L c rs q failed
      else bindE (evaluate_rule L c (cc_scope i) q) (\<lambda>d.
        if dc_status d = StAllow \<or> dc_status d = StHostVerification then Inr d else first_allow L c rs q (Some d)))"

definition decide_normalized :: "pylib \<Rightarrow> compiled list \<Rightarrow> capability \<Rightarrow> cap_request \<Rightarrow> cap_error + decision" where
  "decide_normalized L rules c q =
     (let matching = filter (\<lambda>i. cc_capability i = c) rules in
      if matching = [] then Inr (deny (Some (cap_value c)) (reason_for_capability c))
      else bindE (anyE (\<lambda>i. if cc_effect i = ''deny'' then scope_matches L c (cc_scope i) q else Inr False) matching)
        (\<lambda>denied. if denied then Inr (deny (Some (cap_value c)) (reason_for_capability c))
                  else first_allow L c matching q None))"

definition decide_with_rules :: "pylib \<Rightarrow> compiled list \<Rightarrow> capability \<Rightarrow> cap_arg \<Rightarrow> cap_error + decision" where
  "decide_with_rules L rules c request =
     (case normalize_request L c request of
        Inl (PolicyInputError reason) \<Rightarrow> Inr (deny (Some (cap_value c)) reason)
      | Inl e \<Rightarrow> Inl e
      | Inr q \<Rightarrow> decide_normalized L rules c q)"

definition check_grant_freshness :: "grant \<Rightarrow> int option \<Rightarrow> py_time option \<Rightarrow> cap_error + decision option" where
  "check_grant_freshness g expected now =
     (if expected \<noteq> None \<and> expected \<noteq> Some (gr_revision g) then Inr (Some (deny None StaleRevision))
      else case now of
          None \<Rightarrow> Inr (Some (deny None FreshnessUnverified))
        | Some t \<Rightarrow> bindE (normalize_now t) (\<lambda>n. Inr (if gr_expires g \<le> n then Some (deny None ExpiredRevision) else None)))"

datatype decide_source = FromResult compile_result | FromGrant grant | FromFacts facts_arg

definition decide :: "pylib \<Rightarrow> decide_source \<Rightarrow> string \<Rightarrow> cap_arg \<Rightarrow> int option \<Rightarrow> py_time option \<Rightarrow> string \<Rightarrow>
    cap_error + decision" where
  "decide L source capability_name request expected now task_id =
     (case canonical_capability L capability_name of
        Inl (PolicyInputError reason) \<Rightarrow> Inr (deny None reason)
      | Inl e \<Rightarrow> Inl e
      | Inr c \<Rightarrow>
        (case source of
           FromResult r \<Rightarrow>
             (case cr_grant r of
                None \<Rightarrow> Inr (cr_decision r)
              | Some g \<Rightarrow>
                  if dc_status (cr_decision r) \<noteq> StAllow then Inr (cr_decision r)
                  else bindE (check_grant_freshness g expected now) (\<lambda>stale.
                    case stale of Some d \<Rightarrow> Inr d | None \<Rightarrow> decide_with_rules L (cr_rules r) c request))
         | FromGrant g \<Rightarrow> bindE (check_grant_freshness g expected now) (\<lambda>stale.
             case stale of Some d \<Rightarrow> Inr d | None \<Rightarrow> Inr (deny None InvalidInput))
         | FromFacts a \<Rightarrow> bindE (compile_grant L a task_id expected now None) (\<lambda>r.
             if \<not> result_allowed r then Inr (cr_decision r)
             else decide_with_rules L (cr_rules r) c request)))"

end
