(* ===== verification/CapPaths.thy ===== *)
theory CapPaths
  imports CapCompiler
begin

text \<open>
  Normalised paths.  A POSIX root or request is its list of names, and containment is a prefix of that list
  (C12); normalising a normal form changes nothing on either platform; two roots that both contain a request
  contain one another, which makes the search for conflicts among path scopes complete.
\<close>

section \<open>Normal forms\<close>

definition normal_root :: "path_root \<Rightarrow> bool" where
  "normal_root r = (\<exists>s p. normalize_path_root s p = Inr r)"

lemma check_platform_JStr [simp]:
  "check_platform (JStr s) = (if s = ''posix'' \<or> s = ''windows'' then Inr s else Inl (PolicyInputError AmbiguousInput))"
  by (simp add: check_platform_def)

lemma check_platform_Inr_iff: "check_platform v = Inr p \<longleftrightarrow> v = JStr p \<and> (p = ''posix'' \<or> p = ''windows'')"
  by (auto simp: check_platform_def split: json.splits if_splits)

lemma validate_path_text_Inr_iff:
  "validate_path_text v = Inr r \<longleftrightarrow> v = JStr r \<and> r \<noteq> [] \<and> \<not> any_of control_breaks r"
  by (auto simp: validate_path_text_def split: json.splits if_splits)

lemma normalize_path_root_Inr_iff:
  "normalize_path_root v w = Inr rt \<longleftrightarrow>
     (\<exists>r p. v = JStr r \<and> w = JStr p \<and> (p = ''posix'' \<or> p = ''windows'') \<and> r \<noteq> [] \<and> \<not> any_of control_breaks r \<and>
        \<not> any_of ''~$%*?[]'' r \<and> (if p = ''posix'' then posix_root r else windows_root r) = Inr rt)"
  by (auto simp: normalize_path_root_def bindE_Inr_iff check_platform_Inr_iff validate_path_text_Inr_iff split: if_splits)

lemma posix_root_Inr_iff:
  "posix_root r = Inr rt \<longleftrightarrow> prefix [slash] r \<and> \<not> prefix [slash, slash] r \<and> bslash \<notin> set r \<and>
     rt = \<lparr>pr_platform = ''posix'', pr_root = slash # join slash (posix_names r), pr_case = True\<rparr>"
  by (auto simp: posix_root_def Let_def posix_normpath_abs)

lemma windows_rootD:
  assumes "windows_root r = Inr rt"
  obtains d t where "nt_splitdrive r = (d, t)" "d \<noteq> []" "prefix [bslash] (win_seps t)"
    "rt = \<lparr>pr_platform = ''windows'', pr_root = nt_normpath r, pr_case = False\<rparr>"
proof -
  obtain d t where dt: "nt_splitdrive r = (d, t)" by (cases "nt_splitdrive r")
  have "prefix [bslash] t \<or> prefix [slash] t \<Longrightarrow> prefix [bslash] (win_seps t)"
    by (cases t) (auto simp: win_seps_def replace_char_def)
  with assms dt that show ?thesis
    by (auto simp: windows_root_def Let_def win_seps_id nt_normpath_slash_free split: if_splits)
qed

lemma normalize_path_root_platform:
  "normalize_path_root v (JStr p) = Inr rt \<Longrightarrow> pr_platform rt = p \<and> pr_case rt = (p = ''posix'')"
  by (auto simp: normalize_path_root_Inr_iff posix_root_Inr_iff split: if_splits elim!: windows_rootD)

lemma normal_root_case:
  assumes "normal_root r"
  shows "pr_case r = (pr_platform r = ''posix'')"
proof -
  obtain v w where n: "normalize_path_root v w = Inr r" using assms by (auto simp: normal_root_def)
  then obtain p where "w = JStr p" by (auto simp: normalize_path_root_Inr_iff)
  with n show ?thesis using normalize_path_root_platform by blast
qed

text \<open>Normalising a normal form of the same platform gives it back, if it is accepted at all.\<close>

lemma normal_root_idem:
  assumes "normal_root a" "normalize_path_root (JStr (pr_root a)) (JStr (pr_platform a)) = Inr b"
  shows "b = a"
proof -
  obtain r p where r: "(p = ''posix'' \<or> p = ''windows'')" "\<not> any_of ''~$%*?[]'' r"
      "(if p = ''posix'' then posix_root r else windows_root r) = Inr a"
    using assms(1) by (auto simp: normal_root_def normalize_path_root_Inr_iff)
  show ?thesis
  proof (cases "p = ''posix''")
    case True
    with r have a: "a = \<lparr>pr_platform = ''posix'', pr_root = slash # join slash (posix_names r), pr_case = True\<rparr>"
        and abs: "prefix [slash] r" "\<not> prefix [slash, slash] r"
      by (auto simp: posix_root_Inr_iff)
    have "posix_names (slash # join slash (posix_names r)) = posix_names r"
      using posix_normpath_idem(3)[OF abs] abs by (simp add: posix_normpath_abs)
    then show ?thesis using assms(2) by (simp add: a normalize_path_root_Inr_iff posix_root_Inr_iff)
  next
    case False
    then have w: "windows_root r = Inr a" using r by simp
    obtain d t where dt: "nt_splitdrive r = (d, t)" "d \<noteq> []" "prefix [bslash] (win_seps t)"
        and a: "a = \<lparr>pr_platform = ''windows'', pr_root = nt_normpath r, pr_case = False\<rparr>"
      using w by (rule windows_rootD)
    have "CHR ''?'' \<notin> set r" using r(2) by (auto simp: any_of_iff)
    then have "nt_normpath (nt_normpath r) = nt_normpath r" using nt_normpath_idem(2)[OF dt] by simp
    moreover have "windows_root (nt_normpath r) = Inr b" using assms(2) by (simp add: a normalize_path_root_Inr_iff)
    ultimately show ?thesis using a by (metis windows_rootD)
  qed
qed

lemma root_as_request:
  assumes "normal_root a" "normalize_path_request (JStr (pr_root a)) (JStr (pr_platform a)) = Inr q"
  shows "q = \<lparr>pq_platform = pr_platform a, pq_path = pr_root a\<rparr>"
  using assms normal_root_idem by (auto simp: normalize_path_request_def bindE_Inr_iff)

section \<open>Containment\<close>

text \<open>The comparison of the code, on two strings.\<close>

definition string_below :: "char \<Rightarrow> string \<Rightarrow> string \<Rightarrow> bool" where
  "string_below c a s = (s = a \<or> prefix (if suffix [slash] a \<or> suffix [bslash] a then a else a @ [c]) s)"

lemma path_is_within_root_iff:
  "path_is_within_root L rt q \<longleftrightarrow> pq_platform q = pr_platform rt \<and>
     (let f = (if pr_case rt then id else pl_casefold L) in
      string_below (if pr_platform rt = ''windows'' then bslash else slash) (f (pr_root rt)) (f (pq_path q)))"
  by (auto simp: path_is_within_root_def string_below_def Let_def)

lemma suffix_single: "suffix [c] a \<longleftrightarrow> a \<noteq> [] \<and> last a = c"
  by (metis append_butlast_last_id last_snoc snoc_eq_iff_butlast suffix_def)

lemma string_below_comparable:
  assumes "string_below c a s" "string_below c b s" "c = slash \<or> c = bslash"
  shows "string_below c a b \<or> string_below c b a"
proof -
  define e where "e x = (if suffix [slash] x \<or> suffix [bslash] x then x else x @ [c])" for x
  have below: "string_below c x y \<longleftrightarrow> y = x \<or> prefix (e x) y" for x y by (simp add: string_below_def e_def)
  have last_e: "last (e x) = slash \<or> last (e x) = bslash" "e x \<noteq> []" for x
    using assms(3) by (auto simp: e_def suffix_single)
  have step: "string_below c x y \<or> string_below c y x" if "prefix (e x) (e y)" for x y
  proof (cases "e x = e y")
    case True
    then show ?thesis unfolding below e_def by (auto split: if_splits)
  next
    case False
    with that have "prefix (e x) y" by (auto simp: e_def prefix_snoc split: if_splits)
    then show ?thesis by (simp add: below)
  qed
  from assms(1,2) show ?thesis
  proof (unfold below, elim disjE)
    assume "prefix (e a) s" "prefix (e b) s"
    then have "prefix (e a) (e b) \<or> prefix (e b) (e a)" by (rule prefix_same_cases)
    then show "(b = a \<or> prefix (e a) b) \<or> (a = b \<or> prefix (e b) a)" using step unfolding below by blast
  qed auto
qed

lemma within_comparable:
  assumes "path_is_within_root L a q" "path_is_within_root L b q" "pr_case a = (pr_platform a = ''posix'')"
    "pr_case b = (pr_platform b = ''posix'')"
  shows "path_is_within_root L a \<lparr>pq_platform = pr_platform b, pq_path = pr_root b\<rparr> \<or>
         path_is_within_root L b \<lparr>pq_platform = pr_platform a, pq_path = pr_root a\<rparr>"
  using assms string_below_comparable by (auto simp: path_is_within_root_iff Let_def split: if_splits)

text \<open>Path scopes that both cover a request overlap: the code's search finds it, or raises.\<close>

lemma paths_overlap_complete:
  assumes "normal_root a" "normal_root b" "path_is_within_root L a q" "path_is_within_root L b q"
  shows "paths_overlap L a b \<noteq> Inr False"
proof
  assume f: "paths_overlap L a b = Inr False"
  have p: "pr_platform a = pr_platform b" using assms(3,4) by (simp add: path_is_within_root_iff)
  obtain qa qb where q: "normalize_path_request (JStr (pr_root b)) (JStr (pr_platform a)) = Inr qb"
      "\<not> path_is_within_root L a qb" "normalize_path_request (JStr (pr_root a)) (JStr (pr_platform b)) = Inr qa"
      "\<not> path_is_within_root L b qa"
    using f by (auto simp: paths_overlap_def path_text_is_within_root_def bindE_Inr_iff split: if_splits)
  have "qb = \<lparr>pq_platform = pr_platform b, pq_path = pr_root b\<rparr>" "qa = \<lparr>pq_platform = pr_platform a, pq_path = pr_root a\<rparr>"
    using q(1,3) p root_as_request[OF assms(2)] root_as_request[OF assms(1)] by auto
  then show False using within_comparable[OF assms(3,4)] q(2,4) normal_root_case assms(1,2) by blast
qed


section \<open>The POSIX names\<close>

lemma set_join_subset: "set (join c xs) \<subseteq> insert c (\<Union> (set ` set xs))"
  by (induction c xs rule: join.induct) auto

lemma posix_root_chars:
  assumes "prefix [slash] r"
  shows "set (slash # join slash (posix_names r)) \<subseteq> set r"
proof -
  have "set x \<subseteq> set r" if "x \<in> set (posix_names r)" for x
  proof -
    have "x \<in> set (split_on slash r)" using that walk_from_set[of "[]" "split_on slash r"] by (auto simp: posix_names_def)
    then have "set x \<subseteq> set (join slash (split_on slash r))" by (rule set_join)
    then show ?thesis by simp
  qed
  moreover have "slash \<in> set r" using assms by (auto elim: prefixE)
  ultimately show ?thesis using set_join_subset[of slash "posix_names r"] by auto
qed

lemma posix_root_normal:
  assumes "normalize_path_root v (JStr ''posix'') = Inr rt"
  shows "normalize_path_root (JStr (pr_root rt)) (JStr ''posix'') = Inr rt"
proof -
  obtain r where r: "v = JStr r" "r \<noteq> []" "\<not> any_of control_breaks r" "\<not> any_of ''~$%*?[]'' r" "posix_root r = Inr rt"
    using assms by (auto simp: normalize_path_root_Inr_iff)
  from r(5) have abs: "prefix [slash] r" "\<not> prefix [slash, slash] r" "bslash \<notin> set r"
    and rt: "rt = \<lparr>pr_platform = ''posix'', pr_root = slash # join slash (posix_names r), pr_case = True\<rparr>"
    by (auto simp: posix_root_Inr_iff)
  note sub = posix_root_chars[OF abs(1)]
  have "posix_normpath r = pr_root rt" by (simp add: rt posix_normpath_abs abs)
  note idem = posix_normpath_idem(1,2,3)[OF abs(1,2), unfolded this]
  have "\<not> any_of control_breaks (pr_root rt)" "\<not> any_of ''~$%*?[]'' (pr_root rt)" "bslash \<notin> set (pr_root rt)"
    using r(3,4) abs(3) sub unfolding any_of_iff rt path_root.simps by blast+
  then show ?thesis
    unfolding normalize_path_root_Inr_iff posix_root_Inr_iff using idem by (auto simp: rt posix_root_Inr_iff)
qed

lemma posix_containment:
  assumes "normalize_path_root v (JStr ''posix'') = Inr rt" "normalize_path_request w (JStr ''posix'') = Inr q"
  obtains r p where "v = JStr r" "w = JStr p" "pr_root rt = slash # join slash (posix_names r)"
    "path_is_within_root L rt q \<longleftrightarrow> prefix (posix_names r) (posix_names p)"
proof -
  obtain r where r: "v = JStr r" "posix_root r = Inr rt" using assms(1) by (auto simp: normalize_path_root_Inr_iff)
  obtain p where p: "w = JStr p" "prefix [slash] p" "\<not> prefix [slash, slash] p"
      "q = \<lparr>pq_platform = ''posix'', pq_path = slash # join slash (posix_names p)\<rparr>"
    using assms(2) by (auto simp: normalize_path_request_def bindE_Inr_iff normalize_path_root_Inr_iff posix_root_Inr_iff)
  have rt: "rt = \<lparr>pr_platform = ''posix'', pr_root = slash # join slash (posix_names r), pr_case = True\<rparr>"
    and nb: "bslash \<notin> set r" using r(2) by (auto simp: posix_root_Inr_iff)
  have "prefix [slash] r" using r(2) by (simp add: posix_root_Inr_iff)
  then have "bslash \<notin> set (pr_root rt)" using posix_root_chars nb by (auto simp: rt)
  then have "\<not> suffix [bslash] (pr_root rt)" by (auto simp: suffix_def)
  then have "path_is_within_root L rt q \<longleftrightarrow> (let a = pr_root rt; s = pq_path q in
      s = a \<or> prefix (if suffix [slash] a then a else a @ [slash]) s)"
    by (simp add: path_is_within_root_iff string_below_def rt p(4) Let_def)
  also have "\<dots> \<longleftrightarrow> prefix (posix_names r) (posix_names p)"
    unfolding Let_def rt p(4) path_root.simps path_request.simps
    by (rule posix_below_iff) (use posix_names_plain posix_names_free in auto)
  finally show ?thesis using that r(1) p(1) rt by simp
qed

text \<open>
  C12. For a root and a request that the normaliser accepts on POSIX, \<open>path_is_within_root\<close> answers yes exactly
  when the walk of the request through the directories, with \<open>..\<close> going to the parent, leads through the
  directory of the root; and the normal form of a path is normalised to itself.
\<close>

theorem posix_containment_exact:
  assumes "normalize_path_root (JStr r) (JStr ''posix'') = Inr rt" "normalize_path_request (JStr p) (JStr ''posix'') = Inr q"
  shows "(path_is_within_root L rt q \<longleftrightarrow> (\<exists>below. posix_names p = posix_names r @ below)) \<and>
    normalize_path_root (JStr (pr_root rt)) (JStr ''posix'') = Inr rt"
proof
  show "path_is_within_root L rt q \<longleftrightarrow> (\<exists>below. posix_names p = posix_names r @ below)"
    by (rule posix_containment[OF assms, of L]) (auto simp: prefix_def)
  show "normalize_path_root (JStr (pr_root rt)) (JStr ''posix'') = Inr rt"
    using assms(1) by (rule posix_root_normal)
qed

lemma posix_containment_exact_witness:
  "(path_is_within_root ascii_lib \<lparr>pr_platform = ''posix'', pr_root = ''/ws'', pr_case = True\<rparr>
      \<lparr>pq_platform = ''posix'', pq_path = ''/ws/c''\<rparr> \<longleftrightarrow>
      (\<exists>below. posix_names ''/ws/a/../c'' = posix_names ''/x/../ws/.'' @ below)) \<and>
    normalize_path_root (JStr ''/ws'') (JStr ''posix'') = Inr \<lparr>pr_platform = ''posix'', pr_root = ''/ws'', pr_case = True\<rparr>"
  using posix_containment_exact[of "''/x/../ws/.''" "\<lparr>pr_platform = ''posix'', pr_root = ''/ws'', pr_case = True\<rparr>"
      "''/ws/a/../c''" "\<lparr>pq_platform = ''posix'', pq_path = ''/ws/c''\<rparr>" ascii_lib]
  by (simp add: normalize_path_request_def normalize_path_root_def validate_path_text_def posix_root_def posix_normpath_def
      any_of_def control_breaks_def Let_def)

end
