(* ===== verification/CapRules.thy ===== *)
theory CapRules
  imports CapPaths
begin

text \<open>
  The rules of a compiled grant.  \<open>covers\<close> says when a scope contains a request; the locale
  \<open>conflict_search\<close> is the contract between coverage and the overlap test of \<open>_find_conflict\<close>: where the test is
  complete, no request is covered by an allow and by a deny rule.  Paths, networks and skills meet it,
  commands only where every scope names an environment variable.
\<close>

section \<open>What a scope covers\<close>

fun covers :: "pylib \<Rightarrow> cap_scope \<Rightarrow> cap_request \<Rightarrow> bool" where
  "covers L (ScPath s) (RqPath q) = (\<exists>r \<in> set (ps_roots s). path_is_within_root L r q)"
| "covers L (ScCommand s) (RqCommand q) = command_is_authorized s q"
| "covers L (ScNetwork s) (RqNetwork q) =
     (\<not> tg_verify (nq_target q) \<and> ns_target s = nq_target q \<and> set (nq_redirects q) \<subseteq> set (ns_redirects s))"
| "covers L (ScSkill s) (RqSkill q) = (s = q)"
| "covers L _ _ = False"

text \<open>The kind of scope and of request that belongs to a capability.\<close>

fun scope_kind :: "capability \<Rightarrow> cap_scope \<Rightarrow> bool" where
  "scope_kind PathRead (ScPath s) = (\<forall>r \<in> set (ps_roots s). normal_root r)"
| "scope_kind PathWrite (ScPath s) = (\<forall>r \<in> set (ps_roots s). normal_root r)"
| "scope_kind CommandExecute (ScCommand _) = True"
| "scope_kind NetworkConnect (ScNetwork _) = True"
| "scope_kind SkillUse (ScSkill _) = True"
| "scope_kind _ _ = False"

fun request_kind :: "capability \<Rightarrow> cap_request \<Rightarrow> bool" where
  "request_kind PathRead (RqPath _) = True"
| "request_kind PathWrite (RqPath _) = True"
| "request_kind CommandExecute (RqCommand _) = True"
| "request_kind NetworkConnect (RqNetwork _) = True"
| "request_kind SkillUse (RqSkill _) = True"
| "request_kind _ _ = False"

lemma normalize_path_scope_normal:
  assumes "normalize_path_scope L a = Inr s" "r \<in> set (ps_roots s)"
  shows "normal_root r"
proof -
  obtain vs rs where rs: "mapE (normalize_root_value L) vs = Inr rs" "r \<in> set rs"
    using assms by (auto simp: normalize_path_scope_def bindE_Inr_iff split: if_splits)
  then obtain v where "normalize_root_value L v = Inr r" by (blast dest: mapE_mem)
  then show ?thesis
    by (auto simp: normalize_root_value_def normal_root_def split: sum.splits json.splits option.splits)
qed

lemma normalize_scope_kind: "normalize_scope L c a = Inr sc \<Longrightarrow> scope_kind c sc"
  by (cases c) (auto simp: normalize_scope_def bindE_Inr_iff dest: normalize_path_scope_normal)

lemma normalize_request_kind: "normalize_request L c a = Inr q \<Longrightarrow> request_kind c q"
  by (cases c) (auto simp: normalize_request_def bindE_Inr_iff Let_def split: cap_arg.splits json.splits)

lemma network_allow_iff: "dc_status (network_is_authorized s q) = StAllow \<longleftrightarrow> covers L (ScNetwork s) (RqNetwork q)"
  by (cases "nq_redirects q") (auto simp: network_is_authorized_def Let_def list_ex_iff)

lemma evaluate_rule_kind:
  assumes "scope_kind c sc" "request_kind c q"
  shows "\<exists>d. evaluate_rule L c sc q = Inr d \<and> (dc_status d = StAllow \<longleftrightarrow> covers L sc q) \<and>
    (dc_status d = StAllow \<longrightarrow> dc_normalized d = Some q) \<and>
    (dc_status d = StHostVerification \<longrightarrow> (\<exists>n. q = RqNetwork n \<and> tg_verify (nq_target n)))"
proof (cases c)
  case NetworkConnect
  with assms obtain s n where sn: "sc = ScNetwork s" "q = RqNetwork n" by (cases sc; cases q) auto
  have "dc_status (network_is_authorized s n) = StHostVerification \<Longrightarrow> tg_verify (nq_target n)"
    by (auto simp: network_is_authorized_def Let_def split: if_splits)
  then show ?thesis
    using network_allow_iff[of s n L] by (auto simp: NetworkConnect sn evaluate_rule_def network_is_authorized_def Let_def)
qed (use assms in \<open>cases sc; cases q; auto simp: evaluate_rule_def evaluate_path_rule_def allow_def deny_def
  list_ex_iff skill_is_authorized_def\<close>)+

section \<open>Conflicts between allow and deny scopes\<close>

locale conflict_search =
  fixes covered :: "'s \<Rightarrow> 'q \<Rightarrow> bool"
    and overlap :: "'s \<Rightarrow> 's \<Rightarrow> cap_error + bool"
    and proper :: "'s \<Rightarrow> bool"
  assumes complete: "proper a \<Longrightarrow> proper b \<Longrightarrow> covered a q \<Longrightarrow> covered b q \<Longrightarrow> overlap a b \<noteq> Inr False"
begin

lemma separated:
  "overlap a b = Inr False \<Longrightarrow> proper a \<Longrightarrow> proper b \<Longrightarrow> covered a q \<Longrightarrow> \<not> covered b q"
  using complete by blast

end

interpretation path_conflicts: conflict_search "\<lambda>sc q. covers L sc q" "path_scopes_overlap L" "\<lambda>sc. scope_kind PathRead sc"
  for L
proof
  fix a b q
  assume k: "scope_kind PathRead a" "scope_kind PathRead b" and c: "covers L a q" "covers L b q"
  obtain s t p where st: "a = ScPath s" "b = ScPath t" "q = RqPath p"
    using k c by (cases a; cases b; cases q) auto
  obtain r u where ru: "r \<in> set (ps_roots s)" "u \<in> set (ps_roots t)" "path_is_within_root L r p" "path_is_within_root L u p"
    using c st by auto
  then have "paths_overlap L r u \<noteq> Inr False" using k st by (intro paths_overlap_complete) auto
  then show "path_scopes_overlap L a b \<noteq> Inr False"
    using ru(1,2) by (auto simp: st path_scopes_overlap_def anyE_False)
qed

interpretation network_conflicts: conflict_search "\<lambda>s q. covers L (ScNetwork s) (RqNetwork q)"
    "\<lambda>a b. Inr (ns_target a = ns_target b)" "\<lambda>_. True" for L
  by unfold_locales auto

interpretation skill_conflicts: conflict_search "\<lambda>s q. covers L (ScSkill s) (RqSkill q)"
    "\<lambda>a b. Inr (sk_identity a = sk_identity b \<and> sk_version a = sk_version b)" "\<lambda>_. True" for L
  by unfold_locales auto

text \<open>Two command scopes that name variables but none in common both cover the call without any.\<close>

interpretation command_conflicts: conflict_search "\<lambda>s q. command_is_authorized s q \<and> co_env q \<noteq> []"
    "\<lambda>a b. Inr (commands_overlap a b)" "\<lambda>_. True"
proof
  fix a b q
  assume "command_is_authorized a q \<and> co_env q \<noteq> []" "command_is_authorized b q \<and> co_env q \<noteq> []"
  then obtain x where "x \<in> set (co_env a)" "x \<in> set (co_env b)" "co_platform a = co_platform b" "co_argv a = co_argv b"
      "co_cwd a = co_cwd b"
    by (cases "co_env q") (auto simp: command_is_authorized_def)
  then show "Inr (commands_overlap a b) \<noteq> Inr False" by (auto simp: commands_overlap_def)
qed

definition plain_command :: "cap_request \<Rightarrow> bool" where
  "plain_command q = (case q of RqCommand s \<Rightarrow> co_env s = [] | _ \<Rightarrow> False)"

lemma scopes_separated:
  assumes "scopes_overlap L c a b = Inr False" "scope_kind c a" "scope_kind c b" "covers L a q" "\<not> plain_command q"
  shows "\<not> covers L b q"
proof (cases c)
  case PathRead
  then show ?thesis using assms path_conflicts.separated by (simp add: scopes_overlap_def)
next
  case PathWrite
  have "scope_kind PathRead x" if "scope_kind PathWrite x" for x using that by (cases x) auto
  then show ?thesis using assms PathWrite path_conflicts.separated by (simp add: scopes_overlap_def)
next
  case CommandExecute
  then show ?thesis using assms command_conflicts.separated
    by (cases a; cases b; cases q) (auto simp: scopes_overlap_def plain_command_def)
next
  case NetworkConnect
  then show ?thesis using assms by (cases a; cases b; cases q) (auto simp: scopes_overlap_def)
next
  case SkillUse
  then show ?thesis using assms by (cases a; cases b; cases q) (auto simp: scopes_overlap_def)
qed (use assms in \<open>cases a; auto simp: scopes_overlap_def\<close>)+


lemma find_conflict_False:
  assumes "find_conflict L rules = Inr False" "i \<in> set rules" "j \<in> set rules"
    "cc_capability i = cc_capability j" "cc_effect i \<noteq> cc_effect j"
  shows "scopes_overlap L (cc_capability i) (cc_scope i) (cc_scope j) = Inr False \<or>
    scopes_overlap L (cc_capability i) (cc_scope j) (cc_scope i) = Inr False"
  using assms
proof (induction rules)
  case (Cons x ys)
  let ?f = "\<lambda>y. if cc_capability x \<noteq> cc_capability y \<or> cc_effect x = cc_effect y then Inr False
    else scopes_overlap L (cc_capability x) (cc_scope x) (cc_scope y)"
  have r: "find_conflict L ys = Inr False" and any: "anyE ?f ys = Inr False"
    using Cons.prems(1) by (auto simp: bindE_Inr_iff split: if_splits)
  have x: "scopes_overlap L (cc_capability x) (cc_scope x) (cc_scope y) = Inr False"
    if "y \<in> set ys" "cc_capability x = cc_capability y" "cc_effect x \<noteq> cc_effect y" for y
  proof -
    have "?f y = Inr False" using any that(1) unfolding anyE_False by blast
    with that(2,3) show ?thesis by simp
  qed
  have "i \<noteq> j" using Cons.prems(5) by auto
  then consider "i = x" "j \<in> set ys" | "j = x" "i \<in> set ys" | "i \<in> set ys" "j \<in> set ys"
    using Cons.prems by auto
  then show ?case
  proof cases
    case 1
    with x Cons.prems show ?thesis by auto
  next
    case 2
    with x[of i] Cons.prems show ?thesis by auto
  next
    case 3
    with Cons.IH r Cons.prems show ?thesis by blast
  qed
qed simp

section \<open>From facts to rules\<close>

text \<open>A fact becomes a rule.\<close>

definition fact_rule :: "pylib \<Rightarrow> cap_fact \<Rightarrow> compiled \<Rightarrow> bool" where
  "fact_rule L f i = (canonical_capability L (fa_capability f) = Inr (cc_capability i) \<and>
     normalize_scope L (cc_capability i) (fa_scope f) = Inr (cc_scope i) \<and> normalize_effect (fa_effect f) = Inr (cc_effect i))"

lemma fact_rule_kind: "fact_rule L f i \<Longrightarrow> scope_kind (cc_capability i) (cc_scope i)"
  by (auto simp: fact_rule_def dest: normalize_scope_kind)

definition wanted :: "capability list option \<Rightarrow> capability \<Rightarrow> bool" where
  "wanted required c = (case required of None \<Rightarrow> True | Some cs \<Rightarrow> c \<in> set cs)"

lemma compile_facts_rules:
  "compile_facts L required fs = Inr (Some rules) \<Longrightarrow>
     i \<in> set rules \<longleftrightarrow> (\<exists>f \<in> set fs. fact_rule L f i \<and> wanted required (cc_capability i))"
proof (induction fs arbitrary: rules)
  case (Cons f fs)
  obtain c where c: "canonical_capability L (fa_capability f) = Inr c"
    using Cons.prems by (auto simp: bindE_Inr_iff)
  show ?case
  proof (cases "wanted required c")
    case False
    then have "compile_facts L required fs = Inr (Some rules)"
      using Cons.prems c by (auto simp: wanted_def split: option.splits)
    moreover have "\<not> (fact_rule L f i \<and> wanted required (cc_capability i))" using False c by (auto simp: fact_rule_def)
    ultimately show ?thesis using Cons.IH by auto
  next
    case True
    then obtain sc e rest where r: "normalize_scope L c (fa_scope f) = Inr sc" "normalize_effect (fa_effect f) = Inr e"
        "compile_facts L required fs = Inr (Some rest)" "rules = \<lparr>cc_capability = c, cc_effect = e, cc_scope = sc\<rparr> # rest"
      using Cons.prems c by (auto simp: wanted_def bindE_Inr_iff split: option.splits if_splits)
    have "fact_rule L f i \<longleftrightarrow> i = \<lparr>cc_capability = c, cc_effect = e, cc_scope = sc\<rparr>"
      using c r(1,2) by (cases i) (auto simp: fact_rule_def)
    with True Cons.IH[OF r(3)] r(4) show ?thesis by auto
  qed
qed simp

lemma compile_grantD:
  assumes "compile_grant L facts task_id expected now requested = Inr r" "cr_grant r = Some g"
  obtains f required compiled where "normalize_facts L facts = Inr f" "freshness f expected now = Inr None"
    "normalize_requested L requested = Inr required" "compile_facts L required (pf_capabilities f) = Inr (Some compiled)"
    "find_conflict L compiled = Inr False" "cr_rules r = sort_key (rule_key L) compiled"
    "public_grant L f task_id (cr_rules r) = Inr g" "dc_status (cr_decision r) = StAllow"
proof -
  have "compile_body L facts task_id expected now requested = Inr r"
    using assms by (auto simp: compile_grant_def failure_def split: sum.splits cap_error.splits)
  with assms(2) that show ?thesis
    by (auto simp: compile_body_def compile_rules_def bindE_Inr_iff failure_def Let_def split: if_splits option.splits)
qed

section \<open>The decision of a request\<close>

lemma covers_verified: "covers L sc (RqNetwork n) \<Longrightarrow> \<not> tg_verify (nq_target n)"
  by (cases sc) auto

lemma first_allow_iff:
  assumes "\<And>i. i \<in> set rules \<Longrightarrow> scope_kind c (cc_scope i)" "request_kind c q"
    "\<And>d. failed = Some d \<Longrightarrow> dc_status d \<noteq> StAllow"
  shows "\<exists>d. first_allow L c rules q failed = Inr d \<and>
    (dc_status d = StAllow \<longleftrightarrow> (\<exists>i \<in> set rules. cc_effect i = ''allow'' \<and> covers L (cc_scope i) q)) \<and>
    (dc_status d = StAllow \<longrightarrow> dc_normalized d = Some q)"
  using assms
proof (induction rules arbitrary: failed)
  case Nil
  then show ?case by (cases failed) (auto simp: deny_def)
next
  case (Cons i rs)
  show ?case
  proof (cases "cc_effect i = ''allow''")
    case False
    with Cons show ?thesis by auto
  next
    case True
    obtain d where d: "evaluate_rule L c (cc_scope i) q = Inr d" "dc_status d = StAllow \<longleftrightarrow> covers L (cc_scope i) q"
        "dc_status d = StAllow \<Longrightarrow> dc_normalized d = Some q"
        "dc_status d = StHostVerification \<Longrightarrow> \<exists>n. q = RqNetwork n \<and> tg_verify (nq_target n)"
      using evaluate_rule_kind[of c "cc_scope i" q L] Cons.prems(1,2) by auto
    show ?thesis
    proof (cases "dc_status d = StAllow \<or> dc_status d = StHostVerification")
      case False
      then have "\<not> covers L (cc_scope i) q" using d(2) by simp
      with False True d(1) Cons.IH[of "Some d"] Cons.prems show ?thesis by auto
    next
      case stop: True
      show ?thesis
      proof (cases "dc_status d = StAllow")
        case True
        with d(2,3) \<open>cc_effect i = ''allow''\<close> show ?thesis by (auto simp: d(1))
      next
        case False
        then obtain n where "q = RqNetwork n" "tg_verify (nq_target n)" using d(4) stop by blast
        then have "\<not> covers L sc q" for sc using covers_verified by blast
        with stop False True show ?thesis by (auto simp: d(1))
      qed
    qed
  qed
qed

lemma denied_iff:
  assumes "\<And>i. i \<in> set rules \<Longrightarrow> scope_kind c (cc_scope i)" "request_kind c q"
  shows "anyE (\<lambda>i. if cc_effect i = ''deny'' then scope_matches L c (cc_scope i) q else Inr False) rules =
    Inr (\<exists>i \<in> set rules. cc_effect i = ''deny'' \<and> covers L (cc_scope i) q)"
  using assms
proof (induction rules)
  case (Cons i rs)
  have "scope_matches L c (cc_scope i) q = Inr (covers L (cc_scope i) q)"
    using evaluate_rule_kind[of c "cc_scope i" q L] Cons.prems by (auto simp: scope_matches_def)
  with Cons show ?case by auto
qed simp

lemma decide_normalized_iff:
  assumes "\<And>i. i \<in> set rules \<Longrightarrow> cc_capability i = c \<Longrightarrow> scope_kind c (cc_scope i)" "request_kind c q"
  shows "\<exists>d. decide_normalized L rules c q = Inr d \<and>
    (dc_status d = StAllow \<longleftrightarrow>
      (\<exists>i \<in> set rules. cc_capability i = c \<and> cc_effect i = ''allow'' \<and> covers L (cc_scope i) q) \<and>
      \<not> (\<exists>i \<in> set rules. cc_capability i = c \<and> cc_effect i = ''deny'' \<and> covers L (cc_scope i) q)) \<and>
    (dc_status d = StAllow \<longrightarrow> dc_normalized d = Some q)"
proof -
  let ?m = "filter (\<lambda>i. cc_capability i = c) rules"
  have k: "\<And>i. i \<in> set ?m \<Longrightarrow> scope_kind c (cc_scope i)" using assms(1) by auto
  let ?b = "\<exists>i \<in> set ?m. cc_effect i = ''deny'' \<and> covers L (cc_scope i) q"
  have den: "anyE (\<lambda>i. if cc_effect i = ''deny'' then scope_matches L c (cc_scope i) q else Inr False) ?m = Inr ?b"
    by (rule denied_iff) (use k assms(2) in auto)
  have dn: "decide_normalized L rules c q = (if ?m = [] \<or> ?b then Inr (deny (Some (cap_value c)) (reason_for_capability c))
      else first_allow L c ?m q None)"
    unfolding decide_normalized_def Let_def den bindE_simps
    by (cases "?m = []"; cases ?b) (simp_all only: if_True if_False simp_thms)
  obtain d where d: "first_allow L c ?m q None = Inr d"
      "dc_status d = StAllow \<longleftrightarrow> (\<exists>i \<in> set ?m. cc_effect i = ''allow'' \<and> covers L (cc_scope i) q)"
      "dc_status d = StAllow \<longrightarrow> dc_normalized d = Some q"
    using first_allow_iff[where failed = None and L = L and rules = ?m, OF k assms(2)] by auto
  show ?thesis
  proof (cases "?m = [] \<or> ?b")
    case True
    have "\<not> (\<exists>i \<in> set rules. cc_capability i = c \<and> cc_effect i = ''allow'' \<and> covers L (cc_scope i) q) \<or>
        (\<exists>i \<in> set rules. cc_capability i = c \<and> cc_effect i = ''deny'' \<and> covers L (cc_scope i) q)"
      using True by (auto simp: filter_empty_conv)
    moreover have "decide_normalized L rules c q = Inr (deny (Some (cap_value c)) (reason_for_capability c))"
      using True unfolding dn by (rule if_P)
    ultimately show ?thesis by (auto simp: deny_def)
  next
    case False
    then have "decide_normalized L rules c q = Inr d" unfolding dn using d(1) by (simp only: if_False)
    with False d(2,3) show ?thesis by auto
  qed
qed

end
