(* ===== verification/CapProps.thy ===== *)
theory CapProps
  imports CapRules
begin

text \<open>
  The properties of the agent capabilities: which requests a compiled grant allows, that its facts do not
  contradict each other, what the public grant made from them allows, and which exceptions escape.
\<close>

section \<open>Facts that speak about a request\<close>

definition speaks :: "pylib \<Rightarrow> capability \<Rightarrow> string \<Rightarrow> cap_request \<Rightarrow> cap_fact \<Rightarrow> bool" where
  "speaks L c e q f = (canonical_capability L (fa_capability f) = Inr c \<and> fa_effect f = e \<and>
     (case normalize_scope L c (fa_scope f) of Inl _ \<Rightarrow> False | Inr sc \<Rightarrow> covers L sc q))"

definition expiry :: "perm_facts \<Rightarrow> int" where
  "expiry f = (case pf_expires_at f of None \<Rightarrow> time_limit - 1 | Some t \<Rightarrow> t)"

lemma speaks_rule:
  assumes "compile_facts L required fs = Inr (Some rules)" "wanted required c" "e = ''allow'' \<or> e = ''deny''"
  shows "(\<exists>f \<in> set fs. speaks L c e q f) \<longleftrightarrow>
    (\<exists>i \<in> set rules. cc_capability i = c \<and> cc_effect i = e \<and> covers L (cc_scope i) q)"
proof
  assume "\<exists>f \<in> set fs. speaks L c e q f"
  then obtain f where s: "f \<in> set fs" "speaks L c e q f" by blast
  then obtain sc where f: "f \<in> set fs" "canonical_capability L (fa_capability f) = Inr c" "fa_effect f = e"
      "normalize_scope L c (fa_scope f) = Inr sc" "covers L sc q"
    by (cases "normalize_scope L c (fa_scope f)") (auto simp: speaks_def)
  let ?i = "\<lparr>cc_capability = c, cc_effect = e, cc_scope = sc\<rparr>"
  have "fact_rule L f ?i" using f assms(3) by (auto simp: fact_rule_def normalize_effect_def)
  then have "?i \<in> set rules" using f(1) assms(2) by (simp add: compile_facts_rules[OF assms(1)]) blast
  with f(5) show "\<exists>i \<in> set rules. cc_capability i = c \<and> cc_effect i = e \<and> covers L (cc_scope i) q" by force
next
  assume "\<exists>i \<in> set rules. cc_capability i = c \<and> cc_effect i = e \<and> covers L (cc_scope i) q"
  then obtain i where i: "i \<in> set rules" "cc_capability i = c" "cc_effect i = e" "covers L (cc_scope i) q" by blast
  then obtain f where "f \<in> set fs" "fact_rule L f i" by (auto simp: compile_facts_rules[OF assms(1)])
  with i show "\<exists>f \<in> set fs. speaks L c e q f"
    by (auto simp: speaks_def fact_rule_def normalize_effect_def split: if_splits intro!: bexI[of _ f])
qed

lemma unwanted_silent:
  assumes "compile_facts L required fs = Inr (Some rules)" "\<not> wanted required c"
  shows "\<not> (\<exists>i \<in> set rules. cc_capability i = c)"
  using assms(2) by (auto simp: compile_facts_rules[OF assms(1)])

lemma compiled_kind:
  "compile_facts L required fs = Inr (Some rules) \<Longrightarrow> i \<in> set rules \<Longrightarrow> cc_capability i = c \<Longrightarrow> scope_kind c (cc_scope i)"
  using fact_rule_kind by (auto simp: compile_facts_rules)

lemma freshness_answer:
  assumes "to_utc t offset = Inr n"
  shows "check_grant_freshness g e (Some (Aware t offset)) = Inr
    (if e \<noteq> None \<and> e \<noteq> Some (gr_revision g) then Some (deny None StaleRevision)
     else if gr_expires g \<le> n then Some (deny None ExpiredRevision) else None)"
  using assms by (simp add: check_grant_freshness_def normalize_now_def)

lemma freeze_grant_fields:
  assumes "freeze_grant L g = Inr h"
  shows "gr_revision h = gr_revision g" "gr_policy_revision h = gr_policy_revision g" "gr_expires h = gr_expires g"
    "gr_issued h = gr_issued g" "mapE (make_root L) (gr_roots g) = Inr (gr_roots h)"
    "make_command L (gr_command g) = Inr (gr_command h)" "make_network L (gr_network g) = Inr (gr_network h)"
    "make_skills L (gr_skills g) = Inr (gr_skills h)" "gr_task h = pl_trim L (gr_task g)"
    "gr_operation h = pl_trim L (gr_operation g)"
    "gr_workspace h = \<lparr>wi_workspace = pl_trim L (wi_workspace (gr_workspace g)), wi_identity = pl_trim L (wi_identity (gr_workspace g))\<rparr>"
  using assms by (auto simp: freeze_grant_def bindE_Inr_iff Let_def split: if_splits)

lemma public_grant_fresh:
  assumes "public_grant L f task_id rules = Inr g"
  shows "gr_revision g = pf_revision f" "gr_expires g = expiry f"
  using freeze_grant_fields(1,3)[OF assms[unfolded public_grant_def Let_def]] by (simp_all add: expiry_def)

section \<open>What a compiled grant allows\<close>

text \<open>
  C19. Once facts have compiled, \<open>decide\<close> returns a decision for every request that can be normalised, and it
  allows the request exactly when the revision is the expected one, the facts have not expired, the
  capability was asked for, some allow fact of the capability covers the request, and no deny fact does.
\<close>

theorem decision_is_exact:
  assumes "compile_grant L facts task_id expected now requested = Inr r" "cr_grant r = Some g"
    "normalize_facts L facts = Inr f" "normalize_requested L requested = Inr required"
    "canonical_capability L name = Inr c" "normalize_request L c a = Inr q" "to_utc t offset = Inr n"
  shows "\<exists>d. decide L (FromResult r) name a expected' (Some (Aware t offset)) task' = Inr d \<and>
    (dc_status d = StAllow \<longleftrightarrow>
       (expected' = None \<or> expected' = Some (pf_revision f)) \<and> n < expiry f \<and> wanted required c \<and>
       (\<exists>x \<in> set (pf_capabilities f). speaks L c ''allow'' q x) \<and>
       \<not> (\<exists>x \<in> set (pf_capabilities f). speaks L c ''deny'' q x)) \<and>
    (dc_status d = StAllow \<longrightarrow> dc_normalized d = Some q)"
proof -
  obtain compiled where comp: "compile_facts L required (pf_capabilities f) = Inr (Some compiled)"
      "cr_rules r = sort_key (rule_key L) compiled" "public_grant L f task_id (cr_rules r) = Inr g"
      "dc_status (cr_decision r) = StAllow"
    using compile_grantD[OF assms(1,2)] assms(3,4) by (metis Inr_inject)
  have same: "set (cr_rules r) = set compiled" by (simp add: comp(2))
  note g = public_grant_fresh[OF comp(3)]
  have k: "scope_kind c (cc_scope i)" if "i \<in> set (cr_rules r)" "cc_capability i = c" for i
    using compiled_kind[OF comp(1)] that by (auto simp: same)
  obtain d where d: "decide_normalized L (cr_rules r) c q = Inr d"
      "dc_status d = StAllow \<longleftrightarrow>
        (\<exists>i \<in> set compiled. cc_capability i = c \<and> cc_effect i = ''allow'' \<and> covers L (cc_scope i) q) \<and>
        \<not> (\<exists>i \<in> set compiled. cc_capability i = c \<and> cc_effect i = ''deny'' \<and> covers L (cc_scope i) q)"
      "dc_status d = StAllow \<longrightarrow> dc_normalized d = Some q"
    using decide_normalized_iff[of "cr_rules r" c q L] k normalize_request_kind[OF assms(6)] unfolding same by blast
  have exact: "dc_status d = StAllow \<longleftrightarrow> wanted required c \<and>
      (\<exists>x \<in> set (pf_capabilities f). speaks L c ''allow'' q x) \<and> \<not> (\<exists>x \<in> set (pf_capabilities f). speaks L c ''deny'' q x)"
  proof (cases "wanted required c")
    case True
    then show ?thesis using d(2) by (simp add: speaks_rule[OF comp(1)])
  next
    case False
    then show ?thesis using d(2) unwanted_silent[OF comp(1)] by auto
  qed
  show ?thesis
  proof (cases "(expected' = None \<or> expected' = Some (pf_revision f)) \<and> n < expiry f")
    case True
    then have "check_grant_freshness g expected' (Some (Aware t offset)) = Inr None"
      using freshness_answer[OF assms(7), of g expected'] by (auto simp: g)
    then have "decide L (FromResult r) name a expected' (Some (Aware t offset)) task' = Inr d"
      using assms(2,5,6) comp(4) d(1) by (simp add: decide_def decide_with_rules_def)
    with exact True d(3) show ?thesis by auto
  next
    case False
    then obtain s where s: "check_grant_freshness g expected' (Some (Aware t offset)) = Inr (Some s)" "dc_status s = StDeny"
      using freshness_answer[OF assms(7), of g expected'] by (auto simp: g deny_def split: if_splits)
    then have "decide L (FromResult r) name a expected' (Some (Aware t offset)) task' = Inr s"
      using assms(2,5) comp(4) by (simp add: decide_def)
    with False s(2) show ?thesis by auto
  qed
qed

text \<open>
  C23. Facts that compile do not contradict each other: no request is covered by an allow fact and by a deny
  fact of one capability, except a command that passes no environment variable.
\<close>

theorem compiled_facts_never_conflict:
  assumes "compile_grant L facts task_id expected now requested = Inr r" "cr_grant r = Some g"
    "normalize_facts L facts = Inr f" "normalize_requested L requested = Inr required" "wanted required c"
    "normalize_request L c a = Inr q" "\<not> plain_command q"
    "x \<in> set (pf_capabilities f)" "speaks L c ''allow'' q x"
    "y \<in> set (pf_capabilities f)"
  shows "\<not> speaks L c ''deny'' q y"
proof
  assume y: "speaks L c ''deny'' q y"
  obtain compiled where comp: "compile_facts L required (pf_capabilities f) = Inr (Some compiled)"
      "find_conflict L compiled = Inr False"
    using compile_grantD[OF assms(1,2)] assms(3,4) by (metis Inr_inject)
  obtain i where i: "i \<in> set compiled" "cc_capability i = c" "cc_effect i = ''allow''" "covers L (cc_scope i) q"
    using speaks_rule[OF comp(1) assms(5), of "''allow''" q] assms(8,9) by auto
  obtain j where j: "j \<in> set compiled" "cc_capability j = c" "cc_effect j = ''deny''" "covers L (cc_scope j) q"
    using speaks_rule[OF comp(1) assms(5), of "''deny''" q] assms(10) y by auto
  have k: "scope_kind c (cc_scope i)" "scope_kind c (cc_scope j)"
    using compiled_kind[OF comp(1)] i(1,2) j(1,2) by blast+
  from find_conflict_False[OF comp(2) i(1) j(1)] i j
  have "scopes_overlap L c (cc_scope i) (cc_scope j) = Inr False \<or> scopes_overlap L c (cc_scope j) (cc_scope i) = Inr False"
    by auto
  then show False using scopes_separated[OF _ _ _ _ assms(7)] k i(4) j(4) by blast
qed


section \<open>Runs\<close>

definition path_fact :: "string \<Rightarrow> string \<Rightarrow> string \<Rightarrow> cap_fact" where
  "path_fact effect platform rt = \<lparr>fa_capability = ''path.read'',
     fa_scope = AJson (JObj [(''platform'', JStr platform), (''root'', JStr rt)]), fa_effect = effect\<rparr>"

definition command_scope_json :: "string list \<Rightarrow> string list \<Rightarrow> cap_arg" where
  "command_scope_json argv env = AJson (JObj [(''platform'', JStr ''posix''), (''argv'', JArr (map JStr argv)),
     (''cwd'', JStr ''/ws''), (''env_names'', JArr (map JStr env))])"

definition command_fact :: "string \<Rightarrow> string list \<Rightarrow> string list \<Rightarrow> cap_fact" where
  "command_fact effect argv env = \<lparr>fa_capability = ''command.execute'', fa_scope = command_scope_json argv env,
     fa_effect = effect\<rparr>"

definition facts_of :: "cap_fact list \<Rightarrow> perm_facts" where
  "facts_of fs = \<lparr>pf_revision = 7, pf_capabilities = fs, pf_issued_at = None, pf_expires_at = None, pf_stale = False\<rparr>"

definition compiled_of :: "cap_fact list \<Rightarrow> compile_result" where
  "compiled_of fs = projr (compile_grant ascii_lib (FactsObject (facts_of fs)) ''t'' None None None)"

definition read_request :: "string \<Rightarrow> cap_arg" where
  "read_request p = AJson (JObj [(''platform'', JStr ''posix''), (''path'', JStr p)])"

definition demo_paths :: "cap_fact list" where
  "demo_paths = [path_fact ''allow'' ''posix'' ''/ws'', path_fact ''deny'' ''posix'' ''/etc'']"

lemma demo_compiles: "compile_grant ascii_lib (FactsObject (facts_of demo_paths)) ''t'' None None None = Inr (compiled_of demo_paths)"
  by code_simp

lemma demo_grant: "cr_grant (compiled_of demo_paths) = Some (the (cr_grant (compiled_of demo_paths)))"
  by code_simp


lemma demo_request: "normalize_request ascii_lib PathRead (read_request ''/ws/a/../b'') =
    Inr (RqPath \<lparr>pq_platform = ''posix'', pq_path = ''/ws/b''\<rparr>)"
  by code_simp

lemma demo_speaks:
  "\<exists>x \<in> set (pf_capabilities (facts_of demo_paths)).
     speaks ascii_lib PathRead ''allow'' (RqPath \<lparr>pq_platform = ''posix'', pq_path = ''/ws/b''\<rparr>) x"
  "\<not> (\<exists>x \<in> set (pf_capabilities (facts_of demo_paths)).
     speaks ascii_lib PathRead ''deny'' (RqPath \<lparr>pq_platform = ''posix'', pq_path = ''/ws/b''\<rparr>) x)"
  by code_simp+

lemma demo_capability: "canonical_capability ascii_lib ''path.read'' = Inr PathRead"
  by code_simp

lemma decision_is_exact_witness:
  "\<exists>d. decide ascii_lib (FromResult (compiled_of demo_paths)) ''path.read'' (read_request ''/ws/a/../b'') (Some 7)
     (Some (Aware 5 0)) ''t'' = Inr d \<and> dc_status d = StAllow"
proof -
  have "normalize_facts ascii_lib (FactsObject (facts_of demo_paths)) = Inr (facts_of demo_paths)"
    by (simp add: normalize_facts_def)
  moreover have "normalize_requested ascii_lib None = Inr None" by (simp add: normalize_requested_def)
  moreover have "to_utc 5 0 = Inr 5" by (simp add: to_utc_def time_limit_def)
  moreover have "(5::int) < expiry (facts_of demo_paths)" by code_simp
  moreover have "pf_revision (facts_of demo_paths) = 7" by (simp add: facts_of_def)
  ultimately show ?thesis
    using decision_is_exact[OF demo_compiles demo_grant _ _ demo_capability demo_request, of "facts_of demo_paths" None 5 0 5
        "Some 7" "''t''"] demo_speaks
    by (auto simp: wanted_def)
qed

lemma compiled_facts_never_conflict_witness:
  "\<not> speaks ascii_lib PathRead ''deny'' (RqPath \<lparr>pq_platform = ''posix'', pq_path = ''/ws/b''\<rparr>)
     (path_fact ''deny'' ''posix'' ''/etc'')"
proof (rule compiled_facts_never_conflict[OF demo_compiles demo_grant _ _ _ demo_request])
  show "normalize_facts ascii_lib (FactsObject (facts_of demo_paths)) = Inr (facts_of demo_paths)"
    by (simp add: normalize_facts_def)
  show "normalize_requested ascii_lib None = Inr None" by (simp add: normalize_requested_def)
  show "wanted None PathRead" by (simp add: wanted_def)
  show "\<not> plain_command (RqPath \<lparr>pq_platform = ''posix'', pq_path = ''/ws/b''\<rparr>)" by (simp add: plain_command_def)
  show "path_fact ''allow'' ''posix'' ''/ws'' \<in> set (pf_capabilities (facts_of demo_paths))"
    "path_fact ''deny'' ''posix'' ''/etc'' \<in> set (pf_capabilities (facts_of demo_paths))"
    by (simp_all add: facts_of_def demo_paths_def)
  show "speaks ascii_lib PathRead ''allow'' (RqPath \<lparr>pq_platform = ''posix'', pq_path = ''/ws/b''\<rparr>)
      (path_fact ''allow'' ''posix'' ''/ws'')" by code_simp
qed

text \<open>
  Two command facts that allow and deny the same call with different variables are not found to conflict; the
  call that passes no variable is covered by both.
\<close>

lemma command_conflict_missed:
  "let fs = [command_fact ''allow'' [''git'', ''push''] [''A''], command_fact ''deny'' [''git'', ''push''] [''B'']];
       q = RqCommand \<lparr>co_platform = ''posix'', co_argv = [''git'', ''push''], co_cwd = ''/ws'', co_env = []\<rparr>
   in cr_grant (compiled_of fs) \<noteq> None \<and> list_all (\<lambda>(e, f). speaks ascii_lib CommandExecute e q f)
        (zip [''allow'', ''deny''] fs)"
  by code_simp

text \<open>An allow root of one platform and a deny root of the other never compile together.\<close>

lemma mixed_platforms_fail:
  "compiled_of [path_fact ''allow'' ''posix'' ''/ws'', path_fact ''deny'' ''windows'' ''C:/x''] = failure AmbiguousInput"
  by code_simp

text \<open>A device path written with slashes passes the check that refuses device paths.\<close>

lemma device_path_accepted:
  "normalize_path_root (JStr ''//./C:/x'') (JStr ''windows'') =
     Inr \<lparr>pr_platform = ''windows'', pr_root = [bslash, bslash] @ ''.'' @ [bslash] @ ''C:'' @ [bslash] @ ''x'', pr_case = False\<rparr>"
  "normalize_path_root (JStr ([bslash, bslash] @ ''.'' @ [bslash] @ ''C:'' @ [bslash] @ ''x'')) (JStr ''windows'') =
     Inl (PolicyInputError AmbiguousInput)"
  by code_simp+

text \<open>\<open>decide\<close> raises instead of denying, on a naive clock and on arguments of the wrong type.\<close>

lemma decide_raises:
  "decide ascii_lib (FromResult (compiled_of demo_paths)) ''path.read'' (read_request ''/ws'') None (Some (Naive 5)) ''t'' =
     Inl (PolicyInputError AmbiguousInput)"
  "decide ascii_lib (FromResult (compiled_of demo_paths)) ''command.execute''
     (AJson (JObj [(''platform'', JStr ''posix''), (''argv'', JNum 5), (''cwd'', JStr ''/ws'')])) None (Some (Aware 5 0)) ''t'' =
     Inl PyTypeError"
  by code_simp+

end
