(* ===== verification/CapPublic.thy ===== *)
theory CapPublic
  imports CapProps
begin

text \<open>
  The public grant against the rules it is made from.  On POSIX roots the lexical test of the catalog agrees
  with the walk through the directories, so a path that the public grant allows is covered by an allow fact
  (C24); for commands, networks and skills the public grant keeps the parts of the scopes apart and
  allows combinations that no fact allows.
\<close>

section \<open>The lexical test on POSIX paths\<close>

lemma walk_no_parent:
  "''..'' \<notin> set ns \<Longrightarrow> walk_from here ns = here @ filter (\<lambda>p. p \<noteq> '''' \<and> p \<noteq> ''.'') ns"
  by (induction ns arbitrary: here) auto

lemma split_abs: "prefix [slash] p \<Longrightarrow> split_on slash p = [] # split_on slash (drop 1 p)"
  by (cases p) auto

lemma posix_names_no_parent:
  assumes "prefix [slash] p" "''..'' \<notin> set (split_on slash p)"
  shows "posix_names p = filter (\<lambda>n. n \<noteq> '''' \<and> n \<noteq> ''.'') (split_on slash (drop 1 p))"
  using assms by (simp add: posix_names_def walk_no_parent split_abs)

lemma path_anchor_abs:
  assumes "prefix [slash] p" "\<not> prefix [slash, slash] p"
  shows "path_anchor p = ([slash], drop 1 p)"
proof -
  obtain cs where p: "p = slash # cs" using assms(1) by (auto elim: prefixE)
  have "\<not> drive_prefix p" by (auto simp: p drive_prefix_def alpha_char_def split: list.splits)
  with assms show ?thesis by (simp add: path_anchor_def)
qed

lemma normalise_path_abs:
  assumes "prefix [slash] p" "\<not> prefix [slash, slash] p" "bslash \<notin> set p" "''..'' \<notin> set (split_on slash p)"
  shows "normalise_path p = slash # join slash (posix_names p)"
  using assms by (simp add: normalise_path_def replace_char_id path_anchor_abs posix_names_no_parent)

lemma rstrip_abs:
  assumes "list_all plain_name ns" "\<And>x. x \<in> set ns \<Longrightarrow> slash \<notin> set x"
  shows "or_slash (rstrip_char slash (slash # join slash ns)) = slash # join slash ns"
proof (cases "ns = []")
  case True
  then show ?thesis by (simp add: or_slash_def rstrip_char_def)
next
  case False
  let ?l = "last ns"
  have l: "?l \<noteq> []" "slash \<notin> set ?l" using False assms by (auto simp: list_all_iff plain_name_iff)
  have j: "\<exists>xs. join slash ns = xs @ ?l"
  proof (cases "butlast ns = []")
    case True
    then have "ns = [?l]" using False by (metis append_butlast_last_id append_Nil)
    then have "join slash ns = [] @ ?l" by (metis append_Nil join.simps(2))
    then show ?thesis by blast
  next
    case nb: False
    have "join slash (butlast ns @ [?l]) = join slash (butlast ns) @ slash # ?l"
      using join_append[of "butlast ns" "[?l]" slash] nb by simp
    then have "join slash ns = (join slash (butlast ns) @ [slash]) @ ?l" using False by simp
    then show ?thesis by blast
  qed
  then obtain xs where xs: "join slash ns = xs @ ?l" by blast
  obtain c cs where "rev ?l = c # cs" "c \<noteq> slash" using l by (cases "rev ?l") auto
  then have "rstrip_char slash (slash # join slash ns) = slash # join slash ns"
    by (simp add: rstrip_char_def xs)
  then show ?thesis by (simp add: or_slash_def)
qed

lemma not_windows_path:
  assumes "list_all plain_name ns" "\<And>x. x \<in> set ns \<Longrightarrow> slash \<notin> set x"
  shows "\<not> windows_path (slash # join slash ns)"
proof -
  have "\<not> prefix [slash] (join slash ns)" using assms by (rule join_not_slash)
  then show ?thesis by (auto simp: windows_path_def drive_prefix_def alpha_char_def split: list.splits)
qed

lemma lexically_within_posix:
  assumes "list_all plain_name rs" "\<And>x. x \<in> set rs \<Longrightarrow> slash \<notin> set x" "bslash \<notin> set (slash # join slash rs)"
    "prefix [slash] p" "\<not> prefix [slash, slash] p" "bslash \<notin> set p" "\<not> has_parent_segment p"
    "is_lexically_within L (slash # join slash rs) p"
  shows "prefix rs (posix_names p)"
proof -
  let ?r = "slash # join slash rs" and ?t = "slash # join slash (posix_names p)"
  have names: "posix_names ?r = rs" using assms(1,2) by (rule posix_names_join)
  have nosl: "\<not> prefix [slash] (join slash rs)" using assms(1,2) by (rule join_not_slash)
  have "''..'' \<notin> set (split_on slash ?r)"
  proof (cases "rs = []")
    case False
    then show ?thesis using assms(1,2) by (auto simp: split_join list_all_iff plain_name_iff)
  qed simp
  then have nr: "normalise_path ?r = ?r" using normalise_path_abs[of ?r] nosl assms(3) names by simp
  have "''..'' \<notin> set (split_on slash p)" using assms(6,7) by (simp add: has_parent_segment_def replace_char_id)
  then have nt: "normalise_path p = ?t" by (rule normalise_path_abs[OF assms(4-6)])
  have r: "or_slash (rstrip_char slash ?r) = ?r" using assms(1,2) by (rule rstrip_abs)
  have t: "or_slash (rstrip_char slash ?t) = ?t" by (rule rstrip_abs[OF posix_names_plain posix_names_free])
  have w: "\<not> windows_path ?r" "\<not> windows_path ?t"
    using not_windows_path[OF assms(1,2)] not_windows_path[OF posix_names_plain posix_names_free] by auto
  have "?t = ?r \<or> prefix (?r @ [slash]) ?t"
    using assms(8) w unfolding is_lexically_within_def Let_def nr nt r t by simp
  then have "?t = ?r \<or> prefix (if suffix [slash] ?r then ?r else ?r @ [slash]) ?t"
    by (auto dest: append_prefixD)
  moreover have "(?t = ?r \<or> prefix (if suffix [slash] ?r then ?r else ?r @ [slash]) ?t) \<longleftrightarrow> prefix rs (posix_names p)"
    by (rule posix_below_iff) (use assms(1,2) posix_names_plain posix_names_free in auto)
  ultimately show ?thesis by blast
qed


section \<open>Roots of the public grant\<close>

text \<open>Every allowed root is a POSIX path without white space at its ends.\<close>

definition posix_roots :: "pylib \<Rightarrow> compiled list \<Rightarrow> bool" where
  "posix_roots L rules = list_all (\<lambda>(k, _). fst k = ''posix'' \<and> pl_trim L (snd k) = snd k) (root_rights rules)"

lemma make_roots_mem:
  assumes "mapE (make_root L) rs = Inr rs'" "r' \<in> set rs'"
  obtains r where "r \<in> set rs" "wc_path r' = pl_trim L (wc_path r)" "wc_rights r' = wc_rights r"
proof -
  obtain r where "r \<in> set rs" "make_root L r = Inr r'" using mapE_mem[OF assms] by blast
  with that show ?thesis by (auto simp: make_root_def Let_def split: if_splits)
qed

lemma dict_by_mem: "kv \<in> set (dict_by key xs) \<Longrightarrow> snd kv \<in> set xs"
proof -
  have "\<And>acc. kv \<in> set (fold (\<lambda>x. AList.update (key x) x) xs acc) \<Longrightarrow> snd kv \<in> set xs \<union> snd ` set acc"
  proof (induction xs)
    case (Cons x xs)
    have sub: "snd ` set (AList.update (key x) x acc) \<subseteq> insert x (snd ` set acc)"
      by (induction acc) auto
    have "snd kv \<in> set xs \<union> snd ` set (AList.update (key x) x acc)" by (rule Cons.IH) (use Cons.prems in simp)
    with sub show ?case by auto
  qed auto
  from this[of "[]"] show "kv \<in> set (dict_by key xs) \<Longrightarrow> snd kv \<in> set xs" by (simp add: dict_by_def)
qed

lemma public_root:
  assumes "public_grant L f task_id rules = Inr g" "posix_roots L rules" "r \<in> set (gr_roots g)" "need \<in> set (wc_rights r)"
  shows "pl_trim L (wc_path r) = wc_path r \<and> ((''posix'', wc_path r), need) \<in> set (root_rights rules)"
proof -
  have "mapE (make_root L) (workspace_roots L rules) = Inr (gr_roots g)"
    using freeze_grant_fields(5)[OF assms(1)[unfolded public_grant_def Let_def]] by simp
  then obtain r0 where r0: "r0 \<in> set (workspace_roots L rules)" "wc_path r = pl_trim L (wc_path r0)" "wc_rights r = wc_rights r0"
    using assms(3) by (rule make_roots_mem)
  then obtain k where k0: "k \<in> set (sorted_set (map fst (root_rights rules)))"
      "r0 = \<lparr>wc_root_id = ''root_'' @ take 16 (pl_sha256 L (fst k @ '':'' @ snd k)), wc_path = snd k,
        wc_identity = ''host-verification-required'',
        wc_rights = filter (\<lambda>r. (k, r) \<in> set (root_rights rules)) [RightRead, RightWrite]\<rparr>"
    unfolding workspace_roots_def by (metis (no_types, lifting) imageE set_map)
  have k: "k \<in> fst ` set (root_rights rules)" "wc_path r0 = snd k"
      "\<And>x. x \<in> set (wc_rights r0) \<Longrightarrow> (k, x) \<in> set (root_rights rules)"
    using k0(1) by (auto simp: k0(2) split: if_splits)
  then have "fst k = ''posix'' \<and> pl_trim L (snd k) = snd k" using assms(2) by (auto simp: posix_roots_def list_all_iff)
  with k r0 assms(4) show ?thesis by (metis prod.collapse)
qed

lemma bound_root:
  assumes "bind_verified_workspace L g e = Inr h" "r \<in> set (gr_roots h)"
  obtains r0 where "r0 \<in> set (gr_roots g)" "wc_path r = pl_trim L (pl_trim L (wc_path r0))" "wc_rights r = wc_rights r0"
proof -
  obtain roots where roots: "mapE (bind_root L (dict_by observed_key (vb_roots e))) (dict_by root_key (gr_roots g)) = Inr roots"
      "mapE (make_root L) roots = Inr (gr_roots h)"
  proof -
    let ?sfx = "'':verified:'' @ pl_sha256 L (evidence_text L g e)"
    obtain roots where r: "mapE (bind_root L (dict_by observed_key (vb_roots e))) (dict_by root_key (gr_roots g)) = Inr roots"
        "freeze_grant L (g\<lparr>gr_id := utf8_take (256 - utf8_length ?sfx) (gr_id g) @ ?sfx,
           gr_workspace := \<lparr>wi_workspace = vb_workspace e, wi_identity = vb_identity e\<rparr>, gr_roots := roots\<rparr>) = Inr h"
      using assms(1) unfolding bind_verified_workspace_def Let_def bindE_Inr_iff if_distrib[of "\<lambda>x. x = Inr h"]
      by (metis (no_types, lifting) bindE_Inr_iff old.sum.distinct(1))
    then show ?thesis using that freeze_grant_fields(5)[OF r(2)] by simp
  qed
  obtain r1 where r1: "r1 \<in> set roots" "wc_path r = pl_trim L (wc_path r1)" "wc_rights r = wc_rights r1"
    using roots(2) assms(2) by (rule make_roots_mem)
  obtain kr where kr: "kr \<in> set (dict_by root_key (gr_roots g))" "bind_root L (dict_by observed_key (vb_roots e)) kr = Inr r1"
    using mapE_mem[OF roots(1) r1(1)] by blast
  then have "wc_path r1 = pl_trim L (wc_path (snd kr))" "wc_rights r1 = wc_rights (snd kr)"
    by (auto simp: bind_root_def make_root_def Let_def split: if_splits option.splits)
  with that r1 dict_by_mem[OF kr(1)] show ?thesis by simp
qed

lemma evaluate_path_allowed:
  assumes "evaluate_path L g (Some t) need = CodeAllowed"
  obtains r where "r \<in> set (gr_roots g)" "wc_root_id r = pt_root_id t" "need \<in> set (wc_rights r)"
    "\<not> has_parent_segment (pt_path t)" "is_lexically_within L (wc_path r) (pt_path t)"
    "pt_verified t" "pt_observed t = Some (wc_identity r)"
proof -
  obtain r where r: "List.find (\<lambda>r. wc_root_id r = pt_root_id t) (gr_roots g) = Some r"
    using assms by (auto simp: evaluate_path_def split: option.splits)
  then have "r \<in> set (gr_roots g)" "wc_root_id r = pt_root_id t" using find_SomeD by fastforce+
  with r assms that show ?thesis by (auto simp: evaluate_path_def split: if_splits)
qed

lemma root_right_rule:
  assumes "(k, x) \<in> set (root_rights rules)" "\<And>i. i \<in> set rules \<Longrightarrow> scope_kind (cc_capability i) (cc_scope i)"
  obtains i s rt where "i \<in> set rules" "cc_effect i = ''allow''" "cc_scope i = ScPath s" "rt \<in> set (ps_roots s)"
    "k = (pr_platform rt, pr_root rt)" "normal_root rt"
    "(x = RightRead \<and> cc_capability i = PathRead) \<or> (x = RightWrite \<and> cc_capability i = PathWrite)"
proof -
  obtain i s rt where i: "i \<in> set rules" "cc_effect i = ''allow''" "cc_scope i = ScPath s" "rt \<in> set (ps_roots s)"
      "k = (pr_platform rt, pr_root rt)" "x = (if cc_capability i = PathRead then RightRead else RightWrite)"
    using assms(1) unfolding root_rights_def allow_scopes_def
    by (simp add: case_prod_unfold split: cap_scope.splits) (elim exE conjE imageE, rule that, auto)
  have kind: "scope_kind (cc_capability i) (ScPath s)" using assms(2)[OF i(1)] i(3) by simp
  then have "normal_root rt" using i(4) by (cases "cc_capability i") auto
  with that i kind show ?thesis by (cases "cc_capability i") auto
qed


lemma posix_requestD:
  assumes "normalize_path_request (JStr p) (JStr ''posix'') = Inr q"
  shows "prefix [slash] p" "\<not> prefix [slash, slash] p" "bslash \<notin> set p"
    "q = \<lparr>pq_platform = ''posix'', pq_path = slash # join slash (posix_names p)\<rparr>"
  using assms by (auto simp: normalize_path_request_def bindE_Inr_iff normalize_path_root_Inr_iff posix_root_Inr_iff)

text \<open>A normal POSIX root that is lexically above a path contains it for the policy.\<close>

lemma lexical_root_contains:
  assumes "normal_root rt" "pr_platform rt = ''posix''" "normalize_path_request (JStr p) (JStr ''posix'') = Inr q"
    "\<not> has_parent_segment p" "is_lexically_within L (pr_root rt) p"
  shows "path_is_within_root L rt q"
proof -
  obtain v w where n: "normalize_path_root v w = Inr rt" using assms(1) by (auto simp: normal_root_def)
  obtain p0 where "w = JStr p0" using n by (auto simp: normalize_path_root_Inr_iff)
  with n assms(2) normalize_path_root_platform have n': "normalize_path_root v (JStr ''posix'') = Inr rt" by metis
  obtain r p' where r: "v = JStr r" "JStr p = JStr p'" "pr_root rt = slash # join slash (posix_names r)"
      "path_is_within_root L rt q \<longleftrightarrow> prefix (posix_names r) (posix_names p')"
    using n' assms(3) by (rule posix_containment)
  obtain r' where r': "v = JStr r'" "posix_root r' = Inr rt" using n' by (auto simp: normalize_path_root_Inr_iff)
  then have "prefix [slash] r'" "bslash \<notin> set r'" by (auto simp: posix_root_Inr_iff)
  then have nb: "bslash \<notin> set (slash # join slash (posix_names r))" using posix_root_chars[of r'] r(1) r'(1) by auto
  note p = posix_requestD[OF assms(3)]
  have "prefix (posix_names r) (posix_names p)"
    by (rule lexically_within_posix[OF posix_names_plain posix_names_free nb p(1-3) assms(4)])
      (use assms(5) r(3) in auto)
  with r(2,4) show ?thesis by simp
qed

lemma allowed_answer: "cd_allowed (cap_answer q code g host) \<longleftrightarrow> code = CodeAllowed"
  by (simp add: cap_answer_def)

lemma evaluate_capability_path:
  assumes "cd_allowed (evaluate_capability L clock (Some g) rq now active)" "rq_capability rq = cap_value c"
    "c = PathRead \<or> c = PathWrite \<or> c = PathDelete"
  shows "evaluate_path L g (rq_path rq)
    (if c = PathRead then RightRead else if c = PathWrite then RightWrite else RightDelete) = CodeAllowed"
proof -
  have n: "cap_of_name (rq_capability rq) = Some c"
    using assms(3) unfolding assms(2) by (elim disjE) (simp_all, code_simp+)
  have "(case c of
      PathRead \<Rightarrow> evaluate_path L g (rq_path rq) RightRead
    | PathWrite \<Rightarrow> evaluate_path L g (rq_path rq) RightWrite
    | PathDelete \<Rightarrow> evaluate_path L g (rq_path rq) RightDelete
    | CommandExecute \<Rightarrow> evaluate_command L g (rq_command rq)
    | NetworkConnect \<Rightarrow> evaluate_network L g (rq_network rq)
    | SkillUse \<Rightarrow> evaluate_skill g (rq_skill rq)
    | _ \<Rightarrow> CapabilityDenied) = CodeAllowed"
    using assms(1) unfolding evaluate_capability_def n option.case Let_def
    by (simp only: if_distrib[of cd_allowed] allowed_answer) (simp split: if_splits del: not_None_eq)
  with assms(3) show ?thesis by auto
qed



definition demo_evidence :: workspace_evidence where
  "demo_evidence = \<lparr>vb_workspace = ''t'', vb_identity = ''w1'', vb_roots = [\<lparr>vr_root_id = ''root_posix:/ws'', vr_path = ''/ws'',
     vr_observed = ''i1'', vr_reparse = ''i1'', vr_safe = True\<rparr>]\<rparr>"

definition demo_public :: grant where
  "demo_public = the (cr_grant (compiled_of demo_paths))"

definition demo_bound :: grant where
  "demo_bound = projr (bind_verified_workspace ascii_lib demo_public demo_evidence)"

definition invocation :: "grant \<Rightarrow> string \<Rightarrow> path_target option \<Rightarrow> command_target option \<Rightarrow> cap_invocation_request" where
  "invocation g name p c = \<lparr>rq_capability = name, rq_binding = \<lparr>ib_task = gr_task g, ib_operation = gr_operation g,
     ib_workspace = gr_workspace g, ib_policy_revision = gr_policy_revision g\<rparr>, rq_path = p, rq_command = c,
     rq_network = None, rq_skill = None\<rparr>"

definition observed_path :: "string \<Rightarrow> path_target" where
  "observed_path p = \<lparr>pt_path = p, pt_root_id = ''root_posix:/ws'', pt_verified = True, pt_observed = Some ''i1''\<rparr>"

lemma demo_allowed:
  "cd_allowed (evaluate_capability ascii_lib 0 (Some demo_bound) (invocation demo_bound ''path.read''
     (Some (observed_path ''/ws/./a'')) None) (Some 5) None)"
  by code_simp


section \<open>What the public grant allows beyond the facts\<close>

text \<open>
  The rules deny \<open>git push\<close>, explicitly; the public grant made from the same facts allows it, because it keeps of
  every allowed command only the name of its program.
\<close>

definition git_facts :: "cap_fact list" where
  "git_facts = [command_fact ''allow'' [''git'', ''status''] [], command_fact ''deny'' [''git'', ''push''] []]"

lemma public_grant_widens_commands:
  "let r = compiled_of git_facts; g = the (cr_grant r);
       d = decide ascii_lib (FromResult r) ''command.execute'' (command_scope_json [''git'', ''push''] []) None
             (Some (Aware 5 0)) ''t''
   in map_sum id dc_status d = Inr StDeny \<and>
      cd_allowed (evaluate_capability ascii_lib 0 (Some g) (invocation g ''command.execute'' None
        (Some \<lparr>ct_argv = [''git'', ''push''], ct_cwd = ''/'', ct_env = [], ct_shell = False, ct_verified = True\<rparr>)) (Some 5) None)"
  by code_simp

text \<open>
  A granted directory whose name is a space becomes its parent directory, because the fields of the public grant
  are stripped.
\<close>

lemma stripped_root_widens:
  "let r = compiled_of [path_fact ''allow'' ''posix'' ''/ws/ ''] in
     map wc_path (gr_roots (the (cr_grant r))) = [''/ws/''] \<and>
     is_lexically_within ascii_lib ''/ws/'' ''/ws/secret'' \<and>
     map_sum id dc_status (decide ascii_lib (FromResult r) ''path.read'' (read_request ''/ws/secret'') None (Some (Aware 5 0)) ''t'') =
       Inr StDeny"
  by code_simp

text \<open>On POSIX a backslash is part of a name, but the catalog takes it for a separator.\<close>

lemma backslash_sibling_within:
  "is_lexically_within ascii_lib ''/ws'' (''/ws'' @ [bslash] @ ''x'')"
  "posix_names (''/ws'' @ [bslash] @ ''x'') = [''ws'' @ [bslash] @ ''x'']"
  by code_simp+

text \<open>The root directory contains nothing but itself for the catalog, and everything for the policy.\<close>

lemma root_directory_contains_nothing:
  "\<not> is_lexically_within ascii_lib ''/'' ''/etc''"
  "path_is_within_root ascii_lib \<lparr>pr_platform = ''posix'', pr_root = ''/'', pr_case = True\<rparr>
     \<lparr>pq_platform = ''posix'', pq_path = ''/etc''\<rparr>"
  by code_simp+

end
