(* ===== verification/CapErrors.thy ===== *)
theory CapErrors
  imports CapPublic
begin

text \<open>
  Which exceptions leave the compiler and the decision (C30).  \<open>raises x E\<close> bounds the exceptions of a result;
  the collection \<open>raises\<close> carries it through the normalisers.
\<close>

named_theorems raises_intros "bounds on the exceptions of a normaliser"

definition raises :: "cap_error + 'a \<Rightarrow> cap_error set \<Rightarrow> bool" where
  "raises x E = (\<forall>e. x = Inl e \<longrightarrow> e \<in> E)"

definition request_errors :: "cap_error set" where
  "request_errors = insert PyTypeError (range PolicyInputError)"

definition fact_errors :: "cap_error set" where
  "fact_errors = - {PyAssertionError}"

lemma raises_simps [simp]: "raises (Inr a) E" "raises (Inl e) E \<longleftrightarrow> e \<in> E"
  by (simp_all add: raises_def)

lemma raises_bindE: "raises x E \<Longrightarrow> (\<And>a. x = Inr a \<Longrightarrow> raises (f a) E) \<Longrightarrow> raises (bindE x f) E"
  by (cases x) auto

lemma raises_mapE: "(\<And>x. x \<in> set xs \<Longrightarrow> raises (f x) E) \<Longrightarrow> raises (mapE f xs) E"
  by (induction xs) (auto intro!: raises_bindE)

lemma request_errors_mem [simp]: "PyTypeError \<in> request_errors" "PolicyInputError r \<in> request_errors"
  by (simp_all add: request_errors_def)

lemma fact_errors_mem [simp]: "e \<in> fact_errors \<longleftrightarrow> e \<noteq> PyAssertionError"
  by (simp add: fact_errors_def)

lemma raises_mono: "raises x E \<Longrightarrow> E \<subseteq> F \<Longrightarrow> raises x F"
  by (auto simp: raises_def)

lemma request_fact_errors: "raises x request_errors \<Longrightarrow> raises x fact_errors"
  by (erule raises_mono) (auto simp: request_errors_def)

lemma raises_platform [raises_intros]: "raises (check_platform v) request_errors"
  by (simp add: check_platform_def split: json.splits)

lemma raises_iter [raises_intros]: "raises (py_iter v) request_errors"
  by (simp add: py_iter_def split: json.splits)

lemma raises_root [raises_intros]: "raises (normalize_path_root v w) request_errors"
proof -
  have "raises (validate_path_text v) request_errors" by (simp add: validate_path_text_def split: json.splits)
  moreover have "raises (posix_root r) request_errors" "raises (windows_root r) request_errors" for r
    by (simp_all add: posix_root_def windows_root_def Let_def split: prod.splits)
  ultimately show ?thesis unfolding normalize_path_root_def by (auto intro!: raises_bindE raises_intros)
qed

lemma raises_path_request [raises_intros]: "raises (normalize_path_request v w) request_errors"
  unfolding normalize_path_request_def by (intro raises_bindE raises_intros) simp

lemma raises_command [raises_intros]: "raises (normalize_command_scope argv cwd env p) request_errors"
proof -
  have "raises (sorted_env_names es) request_errors" for es by (simp add: sorted_env_names_def Let_def)
  then show ?thesis unfolding normalize_command_scope_def by (auto intro!: raises_bindE raises_intros)
qed

lemma raises_command_object [raises_intros]: "raises (normalize_command_object c) request_errors"
  unfolding normalize_command_object_def by (rule raises_intros)

lemma raises_target [raises_intros]: "raises (normalize_network_target L s h p ips) request_errors"
proof -
  have "raises (normalize_host L h) request_errors" by (simp add: normalize_host_def Let_def split: option.splits)
  moreover have "raises (normalize_verified_ips L ips) request_errors"
    unfolding normalize_verified_ips_def by (auto intro!: raises_bindE raises_mapE raises_intros split: option.splits)
  moreover have "raises (normalize_port s' p) request_errors" for s' by (simp add: normalize_port_def split: json.splits)
  ultimately show ?thesis
    unfolding normalize_network_target_def Let_def by (auto intro!: raises_bindE split: option.splits)
qed

lemma raises_network_parts [raises_intros]:
  "raises (network_parts L d k) request_errors" "raises (network_object_parts L u us) request_errors"
proof -
  have v: "raises (normalize_network_value L v) request_errors" for v
    by (auto simp: normalize_network_value_def intro: raises_intros split: json.splits)
  then show "raises (network_parts L d k) request_errors"
    unfolding network_parts_def by (intro raises_bindE raises_mapE raises_intros v) simp
  have o: "raises (normalize_target_object L v) request_errors" for v
    unfolding normalize_target_object_def by (rule raises_intros)
  show "raises (network_object_parts L u us) request_errors"
    unfolding network_object_parts_def by (intro raises_bindE raises_mapE o) simp
qed

lemma raises_network_request [raises_intros]:
  "raises (normalize_network_scope L a) request_errors" "raises (normalize_network_request L a) request_errors"
  unfolding normalize_network_scope_def normalize_network_request_def
  by (auto intro!: raises_bindE raises_intros split: cap_arg.splits json.splits)

lemma raises_skill [raises_intros]: "raises (normalize_skill_scope a) request_errors"
  unfolding normalize_skill_scope_def by (auto intro!: raises_bindE split: cap_arg.splits json.splits)

lemma raises_request: "raises (normalize_request L c a) request_errors"
  by (cases c)
    (auto simp: normalize_request_def Let_def intro!: raises_bindE raises_intros split: cap_arg.splits json.splits)

lemma raises_path_scope: "raises (normalize_path_scope L a) fact_errors"
proof -
  have "raises (root_values a) fact_errors"
    unfolding root_values_def
    by (auto simp: Let_def intro!: raises_bindE request_fact_errors raises_intros split: cap_arg.splits json.splits option.splits)
  moreover have "raises (normalize_root_value L v) fact_errors" for v
    unfolding normalize_root_value_def
    by (auto intro!: request_fact_errors raises_intros split: sum.splits json.splits option.splits)
  ultimately show ?thesis unfolding normalize_path_scope_def by (auto intro!: raises_bindE raises_mapE)
qed

lemma raises_scope: "raises (normalize_scope L c a) fact_errors"
  by (cases c)
    (auto simp: normalize_scope_def intro!: raises_bindE raises_path_scope request_fact_errors[OF raises_command]
      request_fact_errors[OF raises_command_object] request_fact_errors[OF raises_network_request(1)]
      request_fact_errors[OF raises_skill] split: cap_arg.splits json.splits)


lemma raises_capability: "raises (canonical_capability L s) request_errors"
  by (simp add: canonical_capability_def split: option.splits)

lemma raises_utc: "raises (to_utc t offset) {PyOverflowError}"
  by (simp add: to_utc_def Let_def)

lemma raises_now: "raises (normalize_now k) fact_errors"
  by (auto simp: normalize_now_def intro: raises_mono[OF raises_utc] split: py_time.splits)

lemma raises_facts: "raises (normalize_facts L a) fact_errors"
proof -
  have "raises (parse_aware L v) fact_errors" for v
    by (auto simp: parse_aware_def intro: raises_mono[OF raises_utc] split: json.splits option.splits py_time.splits)
  then have t: "raises (optional_time L v) fact_errors" for v
    by (auto simp: optional_time_def intro!: raises_bindE)
  have f: "raises (fact_of_json L v) fact_errors" for v by (simp add: fact_of_json_def split: json.splits)
  have i: "raises (json_int v) fact_errors" for v by (simp add: json_int_def split: json.splits option.splits)
  show ?thesis
    unfolding normalize_facts_def
    by (auto intro!: raises_bindE raises_mapE t f i request_fact_errors[OF raises_iter] split: facts_arg.splits json.splits)
qed

lemma raises_anyE: "(\<And>x. x \<in> set xs \<Longrightarrow> raises (f x) E) \<Longrightarrow> raises (anyE f xs) E"
  by (induction xs) (auto intro!: raises_bindE)

lemma raises_paths_overlap: "raises (paths_overlap L r s) fact_errors"
  unfolding paths_overlap_def path_text_is_within_root_def
  by (auto intro!: raises_bindE request_fact_errors raises_intros)

lemma raises_overlap: "scope_kind c x \<Longrightarrow> scope_kind c y \<Longrightarrow> raises (scopes_overlap L c x y) fact_errors"
  by (cases c; cases x; cases y)
    (auto simp: scopes_overlap_def path_scopes_overlap_def intro!: raises_anyE raises_paths_overlap)

lemma raises_conflict:
  "(\<And>i. i \<in> set rules \<Longrightarrow> scope_kind (cc_capability i) (cc_scope i)) \<Longrightarrow> raises (find_conflict L rules) fact_errors"
proof (induction rules)
  case (Cons x ys)
  have "raises (anyE (\<lambda>y. if cc_capability x \<noteq> cc_capability y \<or> cc_effect x = cc_effect y then Inr False
      else scopes_overlap L (cc_capability x) (cc_scope x) (cc_scope y)) ys) fact_errors"
  proof (rule raises_anyE)
    fix y assume "y \<in> set ys"
    then show "raises (if cc_capability x \<noteq> cc_capability y \<or> cc_effect x = cc_effect y then Inr False
        else scopes_overlap L (cc_capability x) (cc_scope x) (cc_scope y)) fact_errors"
      using Cons.prems[of x] Cons.prems[of y] raises_overlap by auto
  qed
  with Cons show ?case by (auto intro!: raises_bindE)
qed simp

lemma raises_compile_facts: "raises (compile_facts L required fs) fact_errors"
proof (induction fs)
  case (Cons f fs)
  have "raises (normalize_effect e) fact_errors" for e by (simp add: normalize_effect_def)
  with Cons show ?case
    by (auto intro!: raises_bindE request_fact_errors[OF raises_capability] raises_scope)
qed simp

lemma raises_freeze: "raises (freeze_grant L g) fact_errors"
proof -
  have "raises (make_root L r) fact_errors" for r by (simp add: make_root_def Let_def)
  then show ?thesis
    unfolding freeze_grant_def
    by (auto simp: make_command_def make_network_def make_skills_def Let_def intro!: raises_bindE raises_mapE)
qed

lemma raises_compile_body: "raises (compile_body L facts task_id expected now requested) fact_errors"
proof -
  have rules: "raises (compile_rules L f task_id requested) fact_errors" for f
    unfolding compile_rules_def
  proof (intro raises_bindE)
    show "raises (normalize_requested L requested) fact_errors"
      by (auto simp: normalize_requested_def intro!: raises_bindE raises_mapE request_fact_errors[OF raises_capability]
          split: option.splits)
    show "raises (compile_facts L required (pf_capabilities f)) fact_errors" for required by (rule raises_compile_facts)
    fix required found assume f: "compile_facts L required (pf_capabilities f) = Inr found"
    show "raises (case found of
        None \<Rightarrow> Inr \<lparr>cr_decision = \<lparr>dc_status = StHostVerification, dc_reason = AmbiguousInput,
                    dc_capability = Some ''network.connect'', dc_normalized = None\<rparr>, cr_grant = None, cr_rules = []\<rparr>
      | Some compiled \<Rightarrow> bindE (find_conflict L compiled) (\<lambda>conflict.
          if conflict then Inr (failure ConflictingScope)
          else let rules = sort_key (rule_key L) compiled in
            bindE (public_grant L f task_id rules) (\<lambda>g.
            Inr \<lparr>cr_decision = \<lparr>dc_status = StAllow, dc_reason = ReasonAllowed, dc_capability = None, dc_normalized = None\<rparr>,
                 cr_grant = Some g, cr_rules = rules\<rparr>))) fact_errors"
    proof (cases found)
      case (Some compiled)
      have "raises (find_conflict L compiled) fact_errors"
        by (rule raises_conflict) (use compiled_kind f Some in blast)
      then show ?thesis by (auto simp: Some Let_def public_grant_def intro!: raises_bindE raises_freeze)
    qed simp
  qed
  have "raises (freshness f expected now) fact_errors" for f
    by (auto simp: freshness_def intro!: raises_bindE raises_now split: option.splits)
  with rules show ?thesis
    unfolding compile_body_def by (auto intro!: raises_bindE raises_facts split: option.splits)
qed

section \<open>The exceptions that escape\<close>

lemma compile_grant_raises: "raises (compile_grant L facts task_id expected now requested) {PyOverflowError}"
  using raises_compile_body[of L facts task_id expected now requested]
  by (auto simp: compile_grant_def split: sum.splits cap_error.splits)

lemma compile_grant_failed:
  assumes "compile_grant L facts task_id expected now requested = Inr r" "cr_grant r = None"
  shows "dc_status (cr_decision r) \<noteq> StAllow"
  using assms
  by (auto simp: compile_grant_def compile_body_def compile_rules_def bindE_Inr_iff failure_def deny_def Let_def
      split: sum.splits cap_error.splits if_splits option.splits)

lemma decide_with_rules_raises:
  assumes "compile_facts L required fs = Inr (Some compiled)"
  shows "raises (decide_with_rules L (sort_key (rule_key L) compiled) c a) {PyTypeError}"
proof (cases "normalize_request L c a")
  case (Inl e)
  then show ?thesis using raises_request[of L c a] by (auto simp: decide_with_rules_def request_errors_def)
next
  case (Inr q)
  have "\<exists>d. decide_normalized L (sort_key (rule_key L) compiled) c q = Inr d"
    using decide_normalized_iff[of "sort_key (rule_key L) compiled" c q L] compiled_kind[OF assms] normalize_request_kind[OF Inr]
    by auto
  then show ?thesis by (auto simp: decide_with_rules_def Inr)
qed

lemma freshness_raises:
  "check_grant_freshness g expected now = Inl x \<Longrightarrow>
    x = PyOverflowError \<or> (\<exists>k. now = Some (Naive k) \<and> x = PolicyInputError AmbiguousInput)"
  using raises_utc
  by (auto simp: check_grant_freshness_def bindE_Inl_iff normalize_now_def raises_def split: if_splits option.splits py_time.splits)

lemma decide_compiled_raises:
  assumes comp: "compile_facts L required fs = Inr (Some compiled)" "cr_rules r = sort_key (rule_key L) compiled"
      "dc_status (cr_decision r) = StAllow"
    and x: "decide L (FromResult r) name a expected now task_id = Inl x" and g: "cr_grant r = Some g"
  shows "x \<in> {PyTypeError, PyOverflowError} \<or> (\<exists>k. now = Some (Naive k) \<and> x = PolicyInputError AmbiguousInput)"
proof (cases "canonical_capability L name")
  case (Inl e)
  then show ?thesis using x raises_capability[of L name] by (auto simp: decide_def request_errors_def)
next
  case (Inr c)
  with x g comp(3) consider "check_grant_freshness g expected now = Inl x" | "decide_with_rules L (cr_rules r) c a = Inl x"
    by (auto simp: decide_def bindE_Inl_iff split: option.splits)
  then show ?thesis
  proof cases
    case 1
    then show ?thesis using freshness_raises by blast
  next
    case 2
    then show ?thesis using decide_with_rules_raises[OF comp(1), of c a] by (auto simp: comp(2) raises_def)
  qed
qed

text \<open>
  C30. Whatever the facts, \<open>compile_grant\<close> raises nothing but \<open>OverflowError\<close>, and a result without a grant does
  not allow anything.  On a compiled result \<open>decide\<close> raises only \<open>TypeError\<close> (arguments of the wrong type),
  \<open>OverflowError\<close>, or the module's own error for a clock without time zone.
\<close>

theorem escaping_exceptions:
  assumes "compile_grant L facts task_id expected now requested = z"
  shows "case z of
      Inl x \<Rightarrow> x = PyOverflowError
    | Inr r \<Rightarrow> (case cr_grant r of
        None \<Rightarrow> dc_status (cr_decision r) \<noteq> StAllow
      | Some g \<Rightarrow> (case decide L (FromResult r) name a expected' now' task' of
          Inr d \<Rightarrow> True
        | Inl x \<Rightarrow> x \<in> {PyTypeError, PyOverflowError} \<or>
            (\<exists>k. now' = Some (Naive k) \<and> x = PolicyInputError AmbiguousInput)))"
proof (cases z)
  case (Inl x)
  then show ?thesis using compile_grant_raises[of L facts task_id expected now requested] assms by simp
next
  case (Inr r)
  show ?thesis
  proof (cases "cr_grant r")
    case None
    then show ?thesis using compile_grant_failed assms Inr by simp
  next
    case (Some g)
    obtain f :: perm_facts and required compiled
      where comp: "compile_facts L required (pf_capabilities f) = Inr (Some compiled)"
        "cr_rules r = sort_key (rule_key L) compiled" "dc_status (cr_decision r) = StAllow"
      using compile_grantD[OF assms[unfolded Inr] Some] by metis
    have "x \<in> {PyTypeError, PyOverflowError} \<or> (\<exists>k. now' = Some (Naive k) \<and> x = PolicyInputError AmbiguousInput)"
      if "decide L (FromResult r) name a expected' now' task' = Inl x" for x
      by (rule decide_compiled_raises[OF comp that Some])
    then show ?thesis using Some Inr by (auto split: sum.split)
  qed
qed

lemma escaping_exceptions_witness:
  "case decide ascii_lib (FromResult (compiled_of demo_paths)) ''command.execute''
      (AJson (JObj [(''platform'', JStr ''posix''), (''argv'', JNum 5), (''cwd'', JStr ''/ws'')])) None (Some (Aware 5 0)) ''t'' of
     Inr d \<Rightarrow> True
   | Inl x \<Rightarrow> x \<in> {PyTypeError, PyOverflowError} \<or>
       (\<exists>k. Some (Aware 5 0) = Some (Naive k) \<and> x = PolicyInputError AmbiguousInput)"
  using escaping_exceptions[OF demo_compiles, where name = "''command.execute''"
      and a = "AJson (JObj [(''platform'', JStr ''posix''), (''argv'', JNum 5), (''cwd'', JStr ''/ws'')])" and expected' = None
      and now' = "Some (Aware 5 0)" and task' = "''t''"]
  unfolding sum.case demo_grant[folded demo_public_def] option.case .

end
