(* ===== verification/CapHosts.thy ===== *)
theory CapHosts
  imports CapPublic Systems
begin

text \<open>
  \<open>agent_capabilities/host_runtime.py\<close>: the registry of capability hosts with the cancellation tokens of the
  calls in flight.  A body under the registry's lock or a token's lock is one step; the handler runs outside
  both.  The identifier, the time and the redacted metadata of a receipt are left out.
\<close>

section \<open>Tokens and receipts\<close>

datatype cancel_reason = ReasonCancelled | ReasonTimeout | ReasonRevoked | ReasonClosed

record cancel_token =
  tk_set :: bool
  tk_reason :: "cancel_reason option"

definition unset_token :: cancel_token where
  "unset_token = \<lparr>tk_set = False, tk_reason = None\<rparr>"

text \<open>\<open>CancellationToken.cancel\<close>: the first reason stays.\<close>

definition token_cancel :: "cancel_reason \<Rightarrow> cancel_token \<Rightarrow> bool \<times> cancel_token" where
  "token_cancel why t = (if tk_set t then (False, t) else (True, \<lparr>tk_set = True, tk_reason = Some why\<rparr>))"

definition check_identifier :: "string \<Rightarrow> cap_error + string" where
  "check_identifier s = (if s = [] \<or> any_of control_breaks s then Inl PyValueError else Inr s)"

record cap_call =
  ca_grant :: grant
  ca_request :: cap_invocation_request
  ca_tool_use_id :: string
  ca_grant_revision :: int

record receipt =
  re_operation :: string
  re_allowed :: bool
  re_result :: string
  re_code :: deny_code
  re_capability :: string
  re_task :: string
  re_operation_key :: string
  re_tool_use_id :: string
  re_grant_id :: "string option"
  re_grant_revision :: "int option"
  re_policy_revision :: int
  re_workspace :: string

record 'v host_outcome =
  ho_value :: "'v option"
  ho_decision :: cap_decision
  ho_receipt :: receipt

definition outcome_ok :: "'v host_outcome \<Rightarrow> bool" where
  "outcome_ok h = (re_result (ho_receipt h) = ''succeeded'' \<and> cd_allowed (ho_decision h))"

definition make_receipt :: "cap_call \<Rightarrow> string \<Rightarrow> cap_decision \<Rightarrow> string \<Rightarrow> deny_code option \<Rightarrow> receipt" where
  "make_receipt call operation d result code =
     \<lparr>re_operation = operation, re_allowed = (cd_allowed d \<and> result = ''succeeded''), re_result = result,
      re_code = (case code of None \<Rightarrow> cd_code d | Some c \<Rightarrow> c), re_capability = cd_capability d, re_task = cd_task d,
      re_operation_key = cd_operation d, re_tool_use_id = ca_tool_use_id call, re_grant_id = cd_grant_id d,
      re_grant_revision = cd_grant_revision d, re_policy_revision = cd_policy_revision d,
      re_workspace = wi_workspace (cd_workspace d)\<rparr>"

definition registry_decision :: "cap_call \<Rightarrow> deny_code \<Rightarrow> cap_decision" where
  "registry_decision call code = cap_answer (ca_request call) code (Some (ca_grant call)) False"

definition refused :: "cap_call \<Rightarrow> string \<Rightarrow> deny_code \<Rightarrow> 'v host_outcome" where
  "refused call name code = (let d = registry_decision call code in
     \<lparr>ho_value = None, ho_decision = d, ho_receipt = make_receipt call name d ''denied'' None\<rparr>)"

section \<open>The registry\<close>

text \<open>Tokens are numbered in the order of their creation; a handler is anything (\<open>'h\<close>).\<close>

record 'h hosts =
  hs_handlers :: "(string \<times> 'h) list"
  hs_active :: "(string \<times> nat) list"
  hs_tokens :: "cancel_token list"

definition register_host :: "string \<Rightarrow> 'h \<Rightarrow> 'h hosts \<Rightarrow> cap_error + 'h hosts" where
  "register_host name handler s =
     bindE (check_identifier name) (\<lambda>n.
     if map_of (hs_handlers s) n \<noteq> None then Inl PyValueError
     else Inr (s\<lparr>hs_handlers := hs_handlers s @ [(n, handler)]\<rparr>))"

definition unregister :: "string \<Rightarrow> 'h hosts \<Rightarrow> bool \<times> 'h hosts" where
  "unregister name s = (map_of (hs_handlers s) name \<noteq> None, s\<lparr>hs_handlers := AList.delete name (hs_handlers s)\<rparr>)"

text \<open>The locked part of \<open>invoke\<close>: the checks, or a new token in the table of calls in flight.\<close>

definition begin_invoke :: "string \<Rightarrow> cap_call \<Rightarrow> 'h hosts \<Rightarrow> ('v host_outcome + 'h \<times> nat) \<times> 'h hosts" where
  "begin_invoke name call s =
     (let g = ca_grant call; b = rq_binding (ca_request call) in
      case map_of (hs_handlers s) name of
        None \<Rightarrow> (Inl (refused call name ToolNotRegistered), s)
      | Some handler \<Rightarrow>
          if ca_grant_revision call \<noteq> gr_revision g then (Inl (refused call name RevisionMismatch), s)
          else if ib_task b \<noteq> gr_task g \<or> ib_operation b \<noteq> gr_operation g \<or> ib_workspace b \<noteq> gr_workspace g
          then (Inl (refused call name BindingMismatch), s)
          else if ib_policy_revision b \<noteq> gr_policy_revision g then (Inl (refused call name RevisionMismatch), s)
          else (Inr (handler, length (hs_tokens s)),
            s\<lparr>hs_tokens := hs_tokens s @ [unset_token],
              hs_active := AList.update (ca_tool_use_id call) (length (hs_tokens s)) (hs_active s)\<rparr>))"

text \<open>The check of the token before the handler runs.\<close>

definition enter_handler :: "string \<Rightarrow> cap_call \<Rightarrow> nat \<Rightarrow> 'h hosts \<Rightarrow> 'v host_outcome option" where
  "enter_handler name call k s = (if tk_set (hs_tokens s ! k) then Some (refused call name GrantRevoked) else None)"

definition finish_invoke :: "cap_call \<Rightarrow> 'h hosts \<Rightarrow> 'h hosts" where
  "finish_invoke call s = s\<lparr>hs_active := AList.delete (ca_tool_use_id call) (hs_active s)\<rparr>"

definition find_token :: "string \<Rightarrow> 'h hosts \<Rightarrow> nat option" where
  "find_token tool s = map_of (hs_active s) tool"

definition active_tokens :: "'h hosts \<Rightarrow> nat list" where
  "active_tokens s = map snd (hs_active s)"

definition cancel_at :: "cancel_reason \<Rightarrow> nat \<Rightarrow> 'h hosts \<Rightarrow> bool \<times> 'h hosts" where
  "cancel_at why k s = (let (b, t) = token_cancel why (hs_tokens s ! k) in (b, s\<lparr>hs_tokens := (hs_tokens s)[k := t]\<rparr>))"

definition cancelled :: "'h hosts \<Rightarrow> nat \<Rightarrow> bool" where
  "cancelled s k = (k < length (hs_tokens s) \<and> tk_set (hs_tokens s ! k))"

text \<open>\<open>cancel\<close> and \<open>revoke_all\<close> without another thread in between.\<close>

definition cancel :: "string \<Rightarrow> cancel_reason \<Rightarrow> 'h hosts \<Rightarrow> bool \<times> 'h hosts" where
  "cancel tool why s = (case find_token tool s of None \<Rightarrow> (False, s) | Some k \<Rightarrow> cancel_at why k s)"

definition revoke_all :: "'h hosts \<Rightarrow> nat \<times> 'h hosts" where
  "revoke_all s = fold (\<lambda>k (n, u). let (b, v) = cancel_at ReasonRevoked k u in (if b then n + 1 else n, v)) (active_tokens s) (0, s)"

section \<open>Threads\<close>

text \<open>
  \<open>cy_calls\<close> are the calls between the two locked parts of \<open>invoke\<close>, \<open>cy_cancels\<close> the cancellations whose
  token was looked up and not yet cancelled.  A call begins only under a tool-use identifier that no call in
  flight has (\<open>fresh\<close>).
\<close>

record 'h call_system =
  cy_hosts :: "'h hosts"
  cy_calls :: "(cap_call \<times> nat) list"
  cy_cancels :: "(cancel_reason \<times> nat) list"

definition call_init :: "'h call_system \<Rightarrow> bool" where
  "call_init y = (hs_handlers (cy_hosts y) = [] \<and> hs_active (cy_hosts y) = [] \<and> hs_tokens (cy_hosts y) = [] \<and>
     cy_calls y = [] \<and> cy_cancels y = [])"

definition fresh :: "cap_call \<Rightarrow> 'h call_system \<Rightarrow> bool" where
  "fresh call y = (ca_tool_use_id call \<notin> (\<lambda>c. ca_tool_use_id (fst c)) ` set (cy_calls y))"

inductive call_step :: "'h call_system \<Rightarrow> 'h call_system \<Rightarrow> bool" where
  Register: "register_host name handler (cy_hosts y) = Inr s \<Longrightarrow> call_step y (y\<lparr>cy_hosts := s\<rparr>)"
| Unregister: "unregister name (cy_hosts y) = (b, s) \<Longrightarrow> call_step y (y\<lparr>cy_hosts := s\<rparr>)"
| Begin: "fresh call y \<Longrightarrow> (begin_invoke name call (cy_hosts y) :: (unit host_outcome + 'h \<times> nat) \<times> 'h hosts) = (Inr (handler, k), s) \<Longrightarrow>
    call_step y (y\<lparr>cy_hosts := s, cy_calls := (call, k) # cy_calls y\<rparr>)"
| Finish: "cy_calls y = xs @ (call, k) # ys \<Longrightarrow>
    call_step y (y\<lparr>cy_hosts := finish_invoke call (cy_hosts y), cy_calls := xs @ ys\<rparr>)"
| LookUp: "find_token tool (cy_hosts y) = Some k \<Longrightarrow> call_step y (y\<lparr>cy_cancels := cy_cancels y @ [(why, k)]\<rparr>)"
| Collect: "call_step y (y\<lparr>cy_cancels := cy_cancels y @ map (Pair ReasonRevoked) (active_tokens (cy_hosts y))\<rparr>)"
| Cancel: "cy_cancels y = xs @ (why, k) # ys \<Longrightarrow> cancel_at why k (cy_hosts y) = (b, s) \<Longrightarrow>
    call_step y (y\<lparr>cy_hosts := s, cy_cancels := xs @ ys\<rparr>)"


section \<open>Every call in flight holds its entry\<close>

abbreviation call_tool :: "cap_call \<times> nat \<Rightarrow> string" where
  "call_tool c \<equiv> ca_tool_use_id (fst c)"

definition calls_ok :: "'h call_system \<Rightarrow> bool" where
  "calls_ok y = (distinct (map fst (hs_active (cy_hosts y))) \<and> distinct (map call_tool (cy_calls y)) \<and>
     (\<forall>c \<in> set (cy_calls y). map_of (hs_active (cy_hosts y)) (call_tool c) = Some (snd c) \<and>
        snd c < length (hs_tokens (cy_hosts y))) \<and>
     (\<forall>e \<in> set (hs_active (cy_hosts y)). snd e < length (hs_tokens (cy_hosts y))) \<and>
     (\<forall>e \<in> set (cy_cancels y). snd e < length (hs_tokens (cy_hosts y))))"

lemma calls_okI:
  assumes "distinct (map fst (hs_active (cy_hosts y)))" "distinct (map call_tool (cy_calls y))"
    "\<And>c. c \<in> set (cy_calls y) \<Longrightarrow> map_of (hs_active (cy_hosts y)) (call_tool c) = Some (snd c) \<and>
        snd c < length (hs_tokens (cy_hosts y))"
    "\<And>e. e \<in> set (hs_active (cy_hosts y)) \<Longrightarrow> snd e < length (hs_tokens (cy_hosts y))"
    "\<And>x. x \<in> set (cy_cancels y) \<Longrightarrow> snd x < length (hs_tokens (cy_hosts y))"
  shows "calls_ok y"
  using assms unfolding calls_ok_def by blast

lemma calls_okD:
  assumes "calls_ok y"
  shows "distinct (map fst (hs_active (cy_hosts y)))" "distinct (map call_tool (cy_calls y))"
    "c \<in> set (cy_calls y) \<Longrightarrow> map_of (hs_active (cy_hosts y)) (call_tool c) = Some (snd c)"
    "c \<in> set (cy_calls y) \<Longrightarrow> snd c < length (hs_tokens (cy_hosts y))"
    "e \<in> set (hs_active (cy_hosts y)) \<Longrightarrow> snd e < length (hs_tokens (cy_hosts y))"
    "x \<in> set (cy_cancels y) \<Longrightarrow> snd x < length (hs_tokens (cy_hosts y))"
  using assms unfolding calls_ok_def by blast+

lemma register_host_keeps:
  "register_host name handler s = Inr t \<Longrightarrow> hs_active t = hs_active s \<and> hs_tokens t = hs_tokens s"
  by (auto simp: register_host_def bindE_Inr_iff split: if_splits)

lemma unregister_keeps:
  "unregister name s = (b, t) \<Longrightarrow> hs_active t = hs_active s \<and> hs_tokens t = hs_tokens s"
  by (auto simp: unregister_def)

lemma begin_invoke_Inr:
  "begin_invoke name call s = (Inr (handler, k), t) \<Longrightarrow> k = length (hs_tokens s) \<and> hs_tokens t = hs_tokens s @ [unset_token] \<and>
     hs_active t = AList.update (ca_tool_use_id call) k (hs_active s) \<and> hs_handlers t = hs_handlers s"
  by (auto simp: begin_invoke_def Let_def split: option.splits if_splits)

lemma cancel_at_keeps:
  "cancel_at why k s = (b, t) \<Longrightarrow> hs_active t = hs_active s \<and> hs_tokens t = (hs_tokens s)[k := snd (token_cancel why (hs_tokens s ! k))]"
  by (auto simp: cancel_at_def split: prod.splits)

lemma snd_update: "e \<in> set (AList.update k v d) \<Longrightarrow> e = (k, v) \<or> e \<in> set d"
  by (induction d) (auto split: if_splits)

lemma snd_delete: "e \<in> set (AList.delete k d) \<Longrightarrow> e \<in> set d"
  by (auto simp: AList.delete_eq)

lemma call_step_ok:
  assumes "calls_ok y" "call_step y z"
  shows "calls_ok z"
  using assms(2)
proof cases
  case (Register name handler s)
  then show ?thesis using assms(1) register_host_keeps by (fastforce simp: calls_ok_def)
next
  case (Unregister name b s)
  then show ?thesis using assms(1) unregister_keeps by (fastforce simp: calls_ok_def)
next
  case (Begin call name handler k s)
  note b = begin_invoke_Inr[OF Begin(3)]
  note ok = calls_okD[OF assms(1)]
  have other: "call_tool c \<noteq> ca_tool_use_id call" if "c \<in> set (cy_calls y)" for c
    using Begin(2) that unfolding fresh_def by (metis (no_types, lifting) image_eqI)
  have notin: "ca_tool_use_id call \<notin> call_tool ` set (cy_calls y)" using Begin(2) by (simp add: fresh_def)
  show ?thesis unfolding Begin(1)
  proof (rule calls_okI)
    fix c assume "c \<in> set (cy_calls (y\<lparr>cy_hosts := s, cy_calls := (call, k) # cy_calls y\<rparr>))"
    then consider "c = (call, k)" | "c \<in> set (cy_calls y)" by auto
    then show "map_of (hs_active (cy_hosts (y\<lparr>cy_hosts := s, cy_calls := (call, k) # cy_calls y\<rparr>))) (call_tool c) = Some (snd c) \<and>
        snd c < length (hs_tokens (cy_hosts (y\<lparr>cy_hosts := s, cy_calls := (call, k) # cy_calls y\<rparr>)))"
      by cases (use b ok(3,4) other in \<open>auto simp: map_of_update less_Suc_eq\<close>)
  next
    fix e assume "e \<in> set (hs_active (cy_hosts (y\<lparr>cy_hosts := s, cy_calls := (call, k) # cy_calls y\<rparr>)))"
    then show "snd e < length (hs_tokens (cy_hosts (y\<lparr>cy_hosts := s, cy_calls := (call, k) # cy_calls y\<rparr>)))"
      using b ok(5)[of e] by (auto dest!: snd_update)
  next
    fix e assume "e \<in> set (cy_cancels (y\<lparr>cy_hosts := s, cy_calls := (call, k) # cy_calls y\<rparr>))"
    then show "snd e < length (hs_tokens (cy_hosts (y\<lparr>cy_hosts := s, cy_calls := (call, k) # cy_calls y\<rparr>)))"
      using b ok(6)[of e] by auto
  qed (use b ok(1,2) notin in \<open>simp_all add: distinct_update\<close>)
next
  case (Finish xs call k ys)
  note ok = calls_okD[OF assms(1)]
  have other: "call_tool c \<noteq> ca_tool_use_id call" if "c \<in> set (xs @ ys)" for c
  proof
    assume "call_tool c = ca_tool_use_id call"
    then have "ca_tool_use_id call \<in> call_tool ` set (xs @ ys)" using that by (metis image_eqI)
    with ok(2) show False unfolding Finish(2) by auto
  qed
  show ?thesis unfolding Finish(1)
  proof (rule calls_okI)
    fix c assume "c \<in> set (cy_calls (y\<lparr>cy_hosts := finish_invoke call (cy_hosts y), cy_calls := xs @ ys\<rparr>))"
    then have c: "c \<in> set (xs @ ys)" "c \<in> set (cy_calls y)" using Finish(2) by auto
    show "map_of (hs_active (cy_hosts (y\<lparr>cy_hosts := finish_invoke call (cy_hosts y), cy_calls := xs @ ys\<rparr>))) (call_tool c) = Some (snd c) \<and>
        snd c < length (hs_tokens (cy_hosts (y\<lparr>cy_hosts := finish_invoke call (cy_hosts y), cy_calls := xs @ ys\<rparr>)))"
      using ok(3)[OF c(2)] ok(4)[OF c(2)] other[OF c(1)] by (simp add: finish_invoke_def map_of_delete)
  next
    fix e assume "e \<in> set (hs_active (cy_hosts (y\<lparr>cy_hosts := finish_invoke call (cy_hosts y), cy_calls := xs @ ys\<rparr>)))"
    then show "snd e < length (hs_tokens (cy_hosts (y\<lparr>cy_hosts := finish_invoke call (cy_hosts y), cy_calls := xs @ ys\<rparr>)))"
      using ok(5)[of e] by (auto simp: finish_invoke_def dest!: snd_delete)
  qed (use ok(1,2,6) in \<open>auto simp: finish_invoke_def distinct_delete Finish(2)\<close>)
next
  case (LookUp tool k why)
  have "(tool, k) \<in> set (hs_active (cy_hosts y))" using LookUp(2) by (auto simp: find_token_def dest: map_of_SomeD)
  then show ?thesis using assms(1) by (auto simp: LookUp(1) calls_ok_def)
next
  case Collect
  then show ?thesis using assms(1) by (auto simp: calls_ok_def active_tokens_def)
next
  case (Cancel xs why k ys b s)
  then show ?thesis using assms(1) cancel_at_keeps[OF Cancel(3)] by (auto simp: calls_ok_def)
qed

interpretation host_calls: invariant_system call_init call_step calls_ok
proof
  show "call_init s \<Longrightarrow> calls_ok s" for s :: "'h call_system" by (simp add: call_init_def calls_ok_def)
  show "calls_ok s \<Longrightarrow> call_step s t \<Longrightarrow> calls_ok t" for s t :: "'h call_system" by (rule call_step_ok)
qed


section \<open>Cancellations reach every call\<close>

lemma cancel_at_cancels:
  "cancel_at why k s = (b, t) \<Longrightarrow> k < length (hs_tokens s) \<Longrightarrow> cancelled t k"
  by (auto simp: cancel_at_def token_cancel_def cancelled_def split: if_splits prod.splits)

text \<open>A token keeps its first reason.\<close>

definition token_kept :: "'h call_system \<Rightarrow> 'h call_system \<Rightarrow> bool" where
  "token_kept y z = (\<forall>k. cancelled (cy_hosts y) k \<longrightarrow> cancelled (cy_hosts z) k \<and>
     hs_tokens (cy_hosts z) ! k = hs_tokens (cy_hosts y) ! k)"

lemma cancelled_tokens:
  assumes "cancelled s k" "hs_tokens t = hs_tokens s @ xs \<or> (\<exists>why j. hs_tokens t = (hs_tokens s)[j := snd (token_cancel why (hs_tokens s ! j))])"
  shows "cancelled t k \<and> hs_tokens t ! k = hs_tokens s ! k"
  using assms(2)
proof
  assume "hs_tokens t = hs_tokens s @ xs"
  with assms(1) show ?thesis by (auto simp: cancelled_def nth_append)
next
  assume "\<exists>why j. hs_tokens t = (hs_tokens s)[j := snd (token_cancel why (hs_tokens s ! j))]"
  then obtain why j where j: "hs_tokens t = (hs_tokens s)[j := snd (token_cancel why (hs_tokens s ! j))]" by blast
  show ?thesis
  proof (cases "j = k")
    case True
    then have "hs_tokens t = hs_tokens s" using j assms(1) by (simp add: cancelled_def token_cancel_def)
    with assms(1) show ?thesis by (simp add: cancelled_def)
  next
    case False
    with j assms(1) show ?thesis by (simp add: cancelled_def)
  qed
qed

lemma call_step_tokens:
  assumes "call_step y z"
  shows "(\<exists>xs. hs_tokens (cy_hosts z) = hs_tokens (cy_hosts y) @ xs) \<or>
    (\<exists>why j. hs_tokens (cy_hosts z) = (hs_tokens (cy_hosts y))[j := snd (token_cancel why (hs_tokens (cy_hosts y) ! j))])"
  using assms
proof cases
  case (Register name handler s)
  then show ?thesis using register_host_keeps by fastforce
next
  case (Unregister name b s)
  then show ?thesis using unregister_keeps by fastforce
next
  case (Begin call name handler k s)
  then show ?thesis using begin_invoke_Inr[OF Begin(3)] by auto
next
  case (Cancel xs why k ys b s)
  then show ?thesis using cancel_at_keeps[OF Cancel(3)] by auto
qed (auto simp: finish_invoke_def)

lemma call_step_kept: "call_step y z \<Longrightarrow> token_kept y z"
  unfolding token_kept_def using call_step_tokens cancelled_tokens by blast

text \<open>A token waiting to be cancelled waits or is cancelled.\<close>

definition owed_cancel :: "nat \<Rightarrow> 'h call_system \<Rightarrow> bool" where
  "owed_cancel k y = (cancelled (cy_hosts y) k \<or> k \<in> snd ` set (cy_cancels y))"

lemma call_step_owed:
  assumes "calls_ok y" "call_step y z" "owed_cancel k y"
  shows "owed_cancel k z"
proof (cases "cancelled (cy_hosts y) k")
  case True
  then show ?thesis using call_step_kept[OF assms(2)] by (simp add: owed_cancel_def token_kept_def)
next
  case False
  then have k: "k \<in> snd ` set (cy_cancels y)" using assms(3) by (simp add: owed_cancel_def)
  from assms(2) show ?thesis
  proof cases
    case (Cancel xs why j ys b s)
    show ?thesis
    proof (cases "j = k")
      case True
      have "k < length (hs_tokens (cy_hosts y))" using k calls_okD(6)[OF assms(1)] by auto
      then show ?thesis using cancel_at_cancels[OF Cancel(3)] True by (simp add: owed_cancel_def Cancel(1))
    next
      case False
      with k Cancel(1,2) show ?thesis by (auto simp: owed_cancel_def)
    qed
  qed (use k in \<open>auto simp: owed_cancel_def\<close>)
qed

text \<open>
  C10. Suppose calls in flight at the same time have different tool-use identifiers.  Once the cancellations that
  \<open>revoke_all\<close> collected have been carried out, every call that was in flight at the collection is cancelled,
  whatever begins, ends or is cancelled in between, and its token keeps its first reason.
\<close>

theorem revocation_reaches_every_call:
  assumes "call_init y0" "call_step\<^sup>*\<^sup>* y0 y" "(call, k) \<in> set (cy_calls y)"
    "z = y\<lparr>cy_cancels := cy_cancels y @ map (Pair ReasonRevoked) (active_tokens (cy_hosts y))\<rparr>"
    "call_step\<^sup>*\<^sup>* z w" "k \<notin> snd ` set (cy_cancels w)" "call_step\<^sup>*\<^sup>* w v"
  shows "cancelled (cy_hosts w) k \<and> cancelled (cy_hosts v) k \<and>
    hs_tokens (cy_hosts v) ! k = hs_tokens (cy_hosts w) ! k"
proof -
  have ok: "calls_ok y" using assms(1,2) by (rule host_calls.reachable_inv)
  have step: "call_step y z" unfolding assms(4) by (rule call_step.Collect)
  have okz: "calls_ok z" using ok step by (rule call_step_ok)
  have "map_of (hs_active (cy_hosts y)) (ca_tool_use_id call) = Some k" using calls_okD(3)[OF ok assms(3)] by simp
  then have "k \<in> set (active_tokens (cy_hosts y))" by (force simp: active_tokens_def dest!: map_of_SomeD)
  then have "(ReasonRevoked, k) \<in> set (cy_cancels z)" by (simp add: assms(4))
  then have "owed_cancel k z" unfolding owed_cancel_def by force
  moreover have "owed_cancel k z \<longrightarrow> owed_cancel k w"
    by (rule host_calls.star_relation[OF assms(5) okz, where R = "\<lambda>a b. owed_cancel k a \<longrightarrow> owed_cancel k b"])
      (auto intro: call_step_owed)
  ultimately have c: "cancelled (cy_hosts w) k" using assms(6) by (simp add: owed_cancel_def)
  have okw: "calls_ok w" using assms(5) okz by (rule host_calls.inv_star)
  have "token_kept w v"
    by (rule host_calls.star_relation[OF assms(7) okw, where R = token_kept])
      (auto simp: token_kept_def dest: call_step_kept[unfolded token_kept_def])
  with c show ?thesis by (simp add: token_kept_def)
qed


section \<open>Runs\<close>

definition demo_call :: "string \<Rightarrow> cap_call" where
  "demo_call tool = \<lparr>ca_grant = demo_public, ca_request = invocation demo_public ''path.read'' None None,
     ca_tool_use_id = tool, ca_grant_revision = 7\<rparr>"

definition no_hosts :: "unit hosts" where
  "no_hosts = \<lparr>hs_handlers = [], hs_active = [], hs_tokens = []\<rparr>"

definition one_host :: "unit hosts" where
  "one_host = \<lparr>hs_handlers = [(''files'', ())], hs_active = [], hs_tokens = []\<rparr>"

definition begun :: "string \<Rightarrow> unit hosts \<Rightarrow> unit hosts" where
  "begun tool s = snd (begin_invoke ''files'' (demo_call tool) s :: (unit host_outcome + unit \<times> nat) \<times> unit hosts)"

lemma demo_register: "register_host ''files'' () no_hosts = Inr one_host"
  by code_simp

lemma demo_begin: "(begin_invoke ''files'' (demo_call ''u'') one_host :: (unit host_outcome + unit \<times> nat) \<times> unit hosts) =
    (Inr ((), 0), begun ''u'' one_host)"
proof -
  have "fst (begin_invoke ''files'' (demo_call ''u'') one_host :: (unit host_outcome + unit \<times> nat) \<times> unit hosts) = Inr ((), 0)"
    by code_simp
  then show ?thesis by (simp add: begun_def prod_eq_iff)
qed

lemma revocation_reaches_every_call_witness:
  "cancelled (snd (cancel_at ReasonRevoked 0 (begun ''u'' one_host))) 0"
proof -
  let ?first = "\<lparr>cy_hosts = no_hosts, cy_calls = [], cy_cancels = []\<rparr>"
  let ?ready = "\<lparr>cy_hosts = one_host, cy_calls = [], cy_cancels = []\<rparr>"
  let ?busy = "\<lparr>cy_hosts = begun ''u'' one_host, cy_calls = [(demo_call ''u'', 0)], cy_cancels = []\<rparr>"
  let ?owing = "?busy\<lparr>cy_cancels := cy_cancels ?busy @ map (Pair ReasonRevoked) (active_tokens (cy_hosts ?busy))\<rparr>"
  let ?done = "\<lparr>cy_hosts = snd (cancel_at ReasonRevoked 0 (begun ''u'' one_host)), cy_calls = [(demo_call ''u'', 0)], cy_cancels = []\<rparr>"
  have "call_step ?first ?ready" using call_step.Register[of "''files''" "()" ?first one_host] demo_register by simp
  moreover have "call_step ?ready ?busy"
    using call_step.Begin[of "demo_call ''u''" ?ready "''files''" "()" 0 "begun ''u'' one_host"] demo_begin by (simp add: fresh_def)
  ultimately have run: "call_step\<^sup>*\<^sup>* ?first ?busy" by (meson converse_rtranclp_into_rtranclp r_into_rtranclp)
  have act: "active_tokens (begun ''u'' one_host) = [0]" by code_simp
  have "call_step ?owing ?done"
    using call_step.Cancel[of ?owing "[]" ReasonRevoked 0 "[]" "fst (cancel_at ReasonRevoked 0 (begun ''u'' one_host))"
        "snd (cancel_at ReasonRevoked 0 (begun ''u'' one_host))"] by (simp add: act)
  then have step: "call_step\<^sup>*\<^sup>* ?owing ?done" by (rule r_into_rtranclp)
  have "call_init ?first" by (simp add: call_init_def no_hosts_def)
  from revocation_reaches_every_call[OF this run _ refl step, of "demo_call ''u''" 0 ?done] show ?thesis by simp
qed

text \<open>
  Two calls in flight with one identifier: the second takes the entry of the first, and the end of the first
  removes it.  The second call runs on, and neither \<open>revoke_all\<close> nor \<open>cancel\<close> finds it.
\<close>

lemma shared_identifier_escapes:
  "let s = begun ''u'' (begun ''u'' one_host); t = finish_invoke (demo_call ''u'') s in
     fst (revoke_all t) = 0 \<and> \<not> fst (cancel ''u'' ReasonCancelled t) \<and> \<not> cancelled (snd (revoke_all t)) 1 \<and>
     (enter_handler ''files'' (demo_call ''u'') 1 (snd (revoke_all t)) :: unit host_outcome option) = None"
  by code_simp

lemma revoke_all_of_distinct:
  "let s = begun ''v'' (begun ''u'' one_host); t = snd (revoke_all s) in
     fst (revoke_all s) = 2 \<and> cancelled t 0 \<and> cancelled t 1 \<and>
     (case enter_handler ''files'' (demo_call ''v'') 1 t :: unit host_outcome option of None \<Rightarrow> False | Some h \<Rightarrow> \<not> outcome_ok h)"
  by code_simp

end
