(* ===== verification/PreAuth.thy ===== *)
theory PreAuth
  imports Systems PyText
begin

text \<open>
  Admission before a credential is looked at, in \<open>backend/app/security/access.py\<close>: \<open>PreAuthAdmission\<close>, which
  bounds the requests under way and their rate, in all and for each peer, and \<open>SessionIssueLimiter\<close>.  Times are
  readings of the monotonic clock.  The tables are ordered dictionaries: association lists whose end is the
  entry used last.  Its \<open>asyncio.Lock\<close> makes the body of \<open>acquire\<close> one step and that of \<open>_release\<close> another.
\<close>

section \<open>The gate\<close>

record gate_cfg =
  gt_channel :: string
  gt_global :: int
  gt_peer :: int
  gt_global_rate :: int
  gt_peer_rate :: int
  gt_window :: rat
  gt_peers :: int

definition gate_cfg_ok :: "gate_cfg \<Rightarrow> bool" where
  "gate_cfg_ok c = (py_strip (gt_channel c) \<noteq> [] \<and> 1 \<le> gt_global c \<and> 1 \<le> gt_peer c \<and> 1 \<le> gt_global_rate c \<and>
     1 \<le> gt_peer_rate c \<and> 0 < gt_window c \<and> 1 \<le> gt_peers c)"

record gate_peer =
  pe_attempts :: "rat list"
  pe_active :: nat
  pe_seen :: rat

record gate =
  ga_window :: "rat list"
  ga_active :: nat
  ga_peers :: "(string \<times> gate_peer) list"

datatype gate_refusal = CapacityReached | RateLimited int

definition trim_window :: "rat \<Rightarrow> rat list \<Rightarrow> rat list" where
  "trim_window cutoff w = dropWhile (\<lambda>t. t \<le> cutoff) w"

definition retry_after_s :: "rat \<Rightarrow> rat list \<Rightarrow> rat \<Rightarrow> int" where
  "retry_after_s width w now = (case w of [] \<Rightarrow> 1 | t # _ \<Rightarrow> floor (max 1 (t + width - now)))"

definition client_key :: "string \<Rightarrow> string" where
  "client_key client = (if py_strip client = [] then ''unknown'' else py_strip client)"

definition put_peer :: "string \<Rightarrow> gate_peer \<Rightarrow> gate \<Rightarrow> gate" where
  "put_peer k p g = g\<lparr>ga_peers := AList.delete k (ga_peers g) @ [(k, p)]\<rparr>"

text \<open>\<open>_peer_locked\<close>: the peer becomes the last entry; a new one may displace the first that is idle.\<close>

definition peer_locked :: "gate_cfg \<Rightarrow> string \<Rightarrow> rat \<Rightarrow> gate \<Rightarrow> (gate_refusal + gate_peer) \<times> gate" where
  "peer_locked c k now g =
     (case map_of (ga_peers g) k of
        Some p \<Rightarrow> (Inr p, put_peer k p g)
      | None \<Rightarrow>
          (let new = \<lparr>pe_attempts = [], pe_active = 0, pe_seen = now\<rparr> in
           if gt_peers c \<le> int (length (ga_peers g))
           then (case List.find (\<lambda>(q, p). pe_active p = 0) (ga_peers g) of
                   None \<Rightarrow> (Inl CapacityReached, g)
                 | Some (q, _) \<Rightarrow> (Inr new, put_peer k new (g\<lparr>ga_peers := AList.delete q (ga_peers g)\<rparr>)))
           else (Inr new, put_peer k new g)))"

text \<open>\<open>acquire\<close>: the key of the lease, or the refusal.  What was changed before a refusal stays.\<close>

definition gate_acquire :: "gate_cfg \<Rightarrow> string \<Rightarrow> rat \<Rightarrow> gate \<Rightarrow> (gate_refusal + string) \<times> gate" where
  "gate_acquire c client now g =
     (let k = client_key client; cutoff = now - gt_window c in
      case peer_locked c k now (g\<lparr>ga_window := trim_window cutoff (ga_window g)\<rparr>) of
        (Inl e, g2) \<Rightarrow> (Inl e, g2)
      | (Inr p0, g2) \<Rightarrow>
          (let p = p0\<lparr>pe_attempts := trim_window cutoff (pe_attempts p0), pe_seen := now\<rparr>; g3 = put_peer k p g2 in
           if gt_global_rate c \<le> int (length (ga_window g3))
           then (Inl (RateLimited (retry_after_s (gt_window c) (ga_window g3) now)), g3)
           else if gt_peer_rate c \<le> int (length (pe_attempts p))
           then (Inl (RateLimited (retry_after_s (gt_window c) (pe_attempts p) now)), g3)
           else
             let q = p\<lparr>pe_attempts := pe_attempts p @ [now]\<rparr>; g4 = put_peer k q (g3\<lparr>ga_window := ga_window g3 @ [now]\<rparr>) in
             if gt_global c \<le> int (ga_active g4) \<or> gt_peer c \<le> int (pe_active q) then (Inl CapacityReached, g4)
             else (Inr k, put_peer k (q\<lparr>pe_active := pe_active q + 1\<rparr>) (g4\<lparr>ga_active := ga_active g4 + 1\<rparr>))))"

definition gate_release :: "string \<Rightarrow> rat \<Rightarrow> gate \<Rightarrow> gate" where
  "gate_release k now g =
     (case map_of (ga_peers g) k of
        None \<Rightarrow> g
      | Some p \<Rightarrow>
          if pe_active p < 1 then g
          else g\<lparr>ga_peers := AList.update k (p\<lparr>pe_active := pe_active p - 1, pe_seen := now\<rparr>) (ga_peers g),
                 ga_active := ga_active g - 1\<rparr>)"

section \<open>The limiter\<close>

text \<open>\<open>check\<close>; the time of the last call, which nothing reads, is left out.\<close>

record limiter_cfg =
  lm_requests :: int
  lm_window :: rat
  lm_clients :: int

definition limiter_cfg_ok :: "limiter_cfg \<Rightarrow> bool" where
  "limiter_cfg_ok c = (1 \<le> lm_requests c \<and> 0 < lm_window c \<and> 1 \<le> lm_clients c)"

type_synonym limiter = "(string \<times> rat list) list"

definition limiter_check :: "limiter_cfg \<Rightarrow> string \<Rightarrow> rat \<Rightarrow> limiter \<Rightarrow> (int + unit) \<times> limiter" where
  "limiter_check c client now ws =
     (let k = client_key client;
          others = AList.delete k ws;
          rest = (case map_of ws k of Some _ \<Rightarrow> others | None \<Rightarrow> drop (nat (int (length ws) - (lm_clients c - 1))) others);
          old = (case map_of ws k of Some w \<Rightarrow> w | None \<Rightarrow> []);
          w = trim_window (now - lm_window c) old
      in if lm_requests c \<le> int (length w) then (Inl (retry_after_s (lm_window c) w now), rest @ [(k, w)])
         else (Inr (), rest @ [(k, w @ [now])]))"

end
