(* ===== verification/ClientVersion.thy ===== *)
theory ClientVersion
  imports PathLex PyText "HOL-Library.Product_Lexorder"
begin

text \<open>
  The version gate of public clients, \<open>backend/app/security/client_version.py\<close>.  A version comes from a header,
  which is Latin-1 text: the pattern's digits and letters are then the ASCII ones.
\<close>

section \<open>Order of the labels\<close>

text \<open>The pairs \<open>(0, int)\<close> and \<open>(1, str)\<close> that stand for a label of the prerelease.\<close>

datatype version_label = LabelNumber nat | LabelText string

fun label_key :: "version_label \<Rightarrow> nat \<times> nat \<times> string" where
  "label_key (LabelNumber n) = (0, n, [])"
| "label_key (LabelText s) = (1, 0, s)"

lemma label_key_inj: "label_key a = label_key b \<Longrightarrow> a = b"
  by (cases a; cases b) auto

instantiation version_label :: linorder
begin

definition less_eq_version_label :: "version_label \<Rightarrow> version_label \<Rightarrow> bool" where
  "a \<le> b = (label_key a \<le> label_key b)"

definition less_version_label :: "version_label \<Rightarrow> version_label \<Rightarrow> bool" where
  "a < b = (label_key a < label_key b)"

instance
  by standard (auto simp: less_eq_version_label_def less_version_label_def dest: label_key_inj)

end

section \<open>Parsing\<close>

definition version_label_of :: "string \<Rightarrow> version_label" where
  "version_label_of s = (if isdigit s then LabelNumber (digits_value s) else LabelText (map lower_char s))"

definition version_char :: "char \<Rightarrow> bool" where
  "version_char c = (alpha_char c \<or> digit_char c \<or> c = CHR ''.'' \<or> c = CHR ''-'')"

definition skip_word :: "string \<Rightarrow> string \<Rightarrow> string" where
  "skip_word w s = (if map lower_char (take (length w) s) = w then drop (length w) s else s)"

definition read_number :: "string \<Rightarrow> (nat \<times> string) option" where
  "read_number s = (case takeWhile digit_char s of [] \<Rightarrow> None | d # ds \<Rightarrow> Some (digits_value (d # ds), dropWhile digit_char s))"

definition read_dot :: "string \<Rightarrow> string option" where
  "read_dot s = (case s of [] \<Rightarrow> None | c # t \<Rightarrow> if c = CHR ''.'' then Some t else None)"

definition build_ok :: "string \<Rightarrow> bool" where
  "build_ok s = (case s of [] \<Rightarrow> True | c # t \<Rightarrow> c = CHR ''+'' \<and> t \<noteq> [] \<and> list_all version_char t)"

text \<open>The prerelease with its leading hyphen removed, and then the build.\<close>

definition read_prerelease :: "string \<Rightarrow> string option option" where
  "read_prerelease s =
     (case s of
        [] \<Rightarrow> Some None
      | c # t \<Rightarrow>
          if c = CHR ''-'' then
            (if takeWhile version_char t \<noteq> [] \<and> build_ok (dropWhile version_char t) then Some (Some (takeWhile version_char t)) else None)
          else if build_ok s then Some None else None)"

definition read_component :: "string \<Rightarrow> (nat \<times> string) option" where
  "read_component s = (case read_dot s of None \<Rightarrow> None | Some t \<Rightarrow> read_number t)"

definition version_parts :: "string option \<Rightarrow> ((nat \<times> nat \<times> nat) \<times> version_label list option) option" where
  "version_parts raw =
     (let v = py_strip (or_str raw []) in
      if v = [] \<or> 64 < utf8_length v then None
      else case read_number (skip_word ''v'' (skip_word ''echodesk-'' v)) of
        None \<Rightarrow> None
      | Some (major, s1) \<Rightarrow> (case read_component s1 of
          None \<Rightarrow> None
        | Some (minor, s2) \<Rightarrow> (case read_component s2 of
            None \<Rightarrow> None
          | Some (patch, s3) \<Rightarrow> (case read_prerelease s3 of
              None \<Rightarrow> None
            | Some pre \<Rightarrow> Some ((major, minor, patch), map_option (\<lambda>t. map version_label_of (split_on CHR ''.'' t)) pre)))))"

definition minimum_version :: string where
  "minimum_version = ''0.3.3-preview.2''"

definition is_supported_public_client :: "string option \<Rightarrow> bool" where
  "is_supported_public_client raw =
     (case (version_parts raw, version_parts (Some minimum_version)) of
        (Some (core, pre), Some (least, least_pre)) \<Rightarrow>
          if core \<noteq> least then least < core
          else (case least_pre of
                  None \<Rightarrow> pre = None
                | Some l \<Rightarrow> (case pre of None \<Rightarrow> True | Some p \<Rightarrow> l \<le> p))
      | _ \<Rightarrow> False)"

section \<open>Precedence\<close>

text \<open>
  The precedence of semantic versions: the numbers decide, then a release is later than its prereleases, which are
  compared label by label.  The gate lets in exactly the versions from the minimum on.
\<close>

definition version_precedence :: "(nat \<times> nat \<times> nat) \<times> version_label list option \<Rightarrow> (nat \<times> nat \<times> nat) \<times> nat \<times> version_label list" where
  "version_precedence v = (fst v, case snd v of None \<Rightarrow> (1, []) | Some ls \<Rightarrow> (0, ls))"

lemma minimum_parts: "version_parts (Some minimum_version) = Some ((0, 3, 3), Some [LabelText ''preview'', LabelNumber 2])"
  unfolding minimum_version_def by code_simp

lemma precedence_le:
  "version_precedence (least, Some l) \<le> version_precedence (core, pre) \<longleftrightarrow>
     (if core \<noteq> least then least < core else (case pre of None \<Rightarrow> True | Some p \<Rightarrow> l \<le> p))"
  by (cases "core = least"; cases pre) (auto simp: version_precedence_def less_le)

lemma supported_iff:
  "is_supported_public_client raw \<longleftrightarrow>
     (\<exists>v. version_parts raw = Some v \<and>
        version_precedence ((0, 3, 3), Some [LabelText ''preview'', LabelNumber 2]) \<le> version_precedence v)"
proof (cases "version_parts raw")
  case None
  then show ?thesis by (simp add: is_supported_public_client_def)
next
  case (Some v)
  obtain core pre where v: "v = (core, pre)" by (cases v)
  show ?thesis
    unfolding is_supported_public_client_def minimum_parts Some v option.case prod.case
    by (simp only: precedence_le option.inject ex_simps simp_thms)
qed

lemma version_examples:
  "is_supported_public_client (Some ''0.3.3'')" "is_supported_public_client (Some '' EchoDesk-v0.3.3-Preview.10 '')"
  "is_supported_public_client (Some ''0.3.3-rc+build.5'')" "\<not> is_supported_public_client (Some ''0.3.3-preview.1'')"
  "\<not> is_supported_public_client (Some ''0.3.3-preview'')" "\<not> is_supported_public_client (Some ''0.3'')"
  "\<not> is_supported_public_client (Some ''0.3.3+'')" "\<not> is_supported_public_client None"
  unfolding is_supported_public_client_def minimum_parts by code_simp+

end
