(* ===== verification/Access.thy ===== *)
theory Access
  imports Sessions Governor PreAuth ClientVersion
begin

text \<open>
  \<open>AccessPolicy\<close> of \<open>backend/app/security/access.py\<close>: who a request is, and whether it may reach the runtime of
  the host.  The principal comes from the session store; the gates and limiters of theory \<open>PreAuth\<close> are part of
  the policy's state.  Header values are Latin-1 text, so lower and upper case concern the ASCII letters.
\<close>

section \<open>Configuration, requests and errors\<close>

record access_cfg =
  ax_public :: bool
  ax_lan_full :: bool
  ax_file_origin :: bool
  ax_debug_token :: string
  ax_allowed_origins :: string
  ax_http_global :: int
  ax_http_peer :: int
  ax_http_global_rate :: int
  ax_http_peer_rate :: int
  ax_ws_global :: int
  ax_ws_peer :: int
  ax_ws_global_rate :: int
  ax_ws_peer_rate :: int
  ax_window :: rat
  ax_max_peers :: int
  ax_upload_slots :: int
  ax_enrollment :: admission_policy
  ax_cleanup_interval :: rat

record http_request =
  hq_verb :: string
  hq_path :: string
  hq_host :: string
  hq_authorization :: string
  hq_admin :: string
  hq_share :: string
  hq_version :: string
  hq_sync :: string

datatype access_error = OriginNotAllowed | AdminRequired | CapabilityNotGranted | CapabilityRefused | UpgradeRequired
  | SessionRequired | LanSocketDisabled | GateRefused gate_refusal | IssueLimited int | SessionRefused session_error

text \<open>The status of the answer; \<open>main.py\<close> turns every \<open>SessionError\<close> into 401.\<close>

fun access_status :: "access_error \<Rightarrow> nat" where
  "access_status OriginNotAllowed = 403"
| "access_status AdminRequired = 403"
| "access_status CapabilityNotGranted = 403"
| "access_status CapabilityRefused = 403"
| "access_status UpgradeRequired = 426"
| "access_status SessionRequired = 401"
| "access_status LanSocketDisabled = 403"
| "access_status (GateRefused e) = 429"
| "access_status (IssueLimited n) = 429"
| "access_status (SessionRefused e) = 401"

definition by_store :: "session_error + 'a \<Rightarrow> access_error + 'a" where
  "by_store r = (case r of Inl e \<Rightarrow> Inl (SessionRefused e) | Inr x \<Rightarrow> Inr x)"

section \<open>Routes\<close>

definition loopback_hosts :: "string list" where
  "loopback_hosts = [''127.0.0.1'', ''::1'', ''localhost'', ''testclient'']"

definition metadata_paths :: "string list" where
  "metadata_paths = [''/healthz'', ''/readyz'', ''/bootstrap'']"

definition anonymous_paths :: "string list" where
  "anonymous_paths = [''/session'', ''/session/enroll'', ''/session/renew'', ''/hub/v1/pairings/claim'']"

definition session_body_paths :: "string list" where
  "session_body_paths = [''/session'', ''/session/enroll'', ''/session/renew'', ''/session/credential/rotate'',
     ''/hub/v1/pairings/claim'']"

text \<open>The segment between a prefix and one of the suffixes: \<open>^pre([^/]+)(?:suf|...)$\<close> against the whole path.\<close>

definition segment_between :: "string \<Rightarrow> string list \<Rightarrow> string \<Rightarrow> string option" where
  "segment_between pre sufs path =
     (let rest = drop (length pre) path; mid = takeWhile (\<lambda>c. c \<noteq> CHR ''/'') rest
      in if take (length pre) path = pre \<and> mid \<noteq> [] \<and> drop (length mid) rest \<in> set sufs then Some mid else None)"

definition share_target :: "string \<Rightarrow> (string \<times> string) option" where
  "share_target path =
     (case segment_between ''/meetings/'' [''/share'', ''/minutes.md''] path of
        Some m \<Rightarrow> Some (''meeting'', m)
      | None \<Rightarrow> (case segment_between ''/artifacts/'' [''/download''] path of
          Some a \<Rightarrow> Some (''artifact'', a)
        | None \<Rightarrow> None))"

definition lan_safe_path :: "string \<Rightarrow> bool" where
  "lan_safe_path path = (path = ''/healthz'' \<or> path = ''/readyz'' \<or> share_target path \<noteq> None)"

definition host_capability_route :: "string \<Rightarrow> string \<Rightarrow> bool" where
  "host_capability_route verb path =
     (let v = map upper_char verb in
      below ''/admin'' path \<or> path = ''/healthz/full'' \<or> below ''/workspace'' path \<or>
      v = ''POST'' \<and> path = ''/agents/tasks'' \<or>
      v = ''POST'' \<and> segment_between ''/agents/tasks/'' [''/cancel'', ''/retry''] path \<noteq> None \<or>
      v = ''POST'' \<and> path = ''/agents/grants/claude_code'' \<or>
      v = ''DELETE'' \<and> segment_between ''/agents/grants/'' [[]] path \<noteq> None)"

definition owner_capability_for_route :: "string \<Rightarrow> string \<Rightarrow> string option" where
  "owner_capability_for_route verb path =
     (if map upper_char verb = ''POST'' \<and> path = ''/artifacts/generate'' then Some ''artifact:generate'' else None)"

definition session_body_route :: "string \<Rightarrow> string \<Rightarrow> bool" where
  "session_body_route verb path = (map upper_char verb = ''POST'' \<and> path \<in> set session_body_paths)"

definition lan_request_allowed :: "access_cfg \<Rightarrow> string \<Rightarrow> string \<Rightarrow> string \<Rightarrow> bool" where
  "lan_request_allowed x verb path host =
     (ax_public x \<or> ax_lan_full x \<or> host \<in> set loopback_hosts \<or> map upper_char verb = ''OPTIONS'' \<or>
      map upper_char verb = ''GET'' \<and> lan_safe_path path)"

section \<open>Origins\<close>

definition official_origin :: string where
  "official_origin = ''echodesk://app''"

definition allowed_origins_list :: "access_cfg \<Rightarrow> string list" where
  "allowed_origins_list x =
     rev (remdups (official_origin # rev (filter (\<lambda>o'. o' \<noteq> []) (map py_strip (split_on CHR '','' (ax_allowed_origins x))))))"

definition require_allowed_origin :: "access_cfg \<Rightarrow> string list \<Rightarrow> string \<Rightarrow> access_error + unit" where
  "require_allowed_origin x origins host =
     (case origins of
        [] \<Rightarrow> Inr ()
      | [raw] \<Rightarrow>
          (let origin = py_strip raw; low = map lower_char origin in
           if origin = [] \<or> low = ''null'' \<or> CHR '','' \<in> set origin then Inl OriginNotAllowed
           else if take 9 low = ''echodesk:'' then (if origin = official_origin then Inr () else Inl OriginNotAllowed)
           else if origin = ''file://'' then
             (if ax_file_origin x \<and> \<not> ax_public x \<and> map lower_char host \<in> set loopback_hosts then Inr () else Inl OriginNotAllowed)
           else if ''*'' \<notin> set (allowed_origins_list x) \<and> origin \<notin> set (allowed_origins_list x) then Inl OriginNotAllowed
           else Inr ())
      | _ \<Rightarrow> Inl OriginNotAllowed)"

section \<open>Authorization\<close>

text \<open>\<open>authorization.partition(" ")\<close>: the scheme, and what follows the first space.\<close>

definition auth_scheme :: "string \<Rightarrow> string" where
  "auth_scheme a = takeWhile (\<lambda>c. c \<noteq> CHR '' '') a"

definition auth_token :: "string \<Rightarrow> string" where
  "auth_token a = drop 1 (dropWhile (\<lambda>c. c \<noteq> CHR '' '') a)"

definition is_bearer :: "string \<Rightarrow> bool" where
  "is_bearer a = (map lower_char (auth_scheme a) = ''bearer'')"

definition has_admin_token :: "access_cfg \<Rightarrow> string \<Rightarrow> string \<Rightarrow> bool" where
  "has_admin_token x authorization admin =
     (let expected = py_strip (ax_debug_token x) in
      expected \<noteq> [] \<and> (admin = expected \<or> is_bearer authorization \<and> auth_token authorization = expected))"

definition require_host_admin :: "access_cfg \<Rightarrow> string \<Rightarrow> string \<Rightarrow> string \<Rightarrow> access_error + unit" where
  "require_host_admin x host authorization admin =
     (if \<not> ax_public x \<and> host \<in> set loopback_hosts then Inr ()
      else if has_admin_token x authorization admin then Inr ()
      else Inl AdminRequired)"

definition require_owner_capability ::
    "access_cfg \<Rightarrow> principal \<Rightarrow> string \<Rightarrow> string \<Rightarrow> string \<Rightarrow> string \<Rightarrow> access_error + unit" where
  "require_owner_capability x p capability host authorization admin =
     (if capability \<noteq> ''artifact:generate'' then Inl CapabilityNotGranted
      else if has_family p then Inr ()
      else if \<not> ax_public x \<and> host \<in> set loopback_hosts then Inr ()
      else if has_admin_token x authorization admin then Inr ()
      else Inl CapabilityRefused)"

text \<open>The session that a request of a public client names in its \<open>Authorization\<close> header.\<close>

definition bearer_principal :: "session_cfg \<Rightarrow> rat \<Rightarrow> string \<Rightarrow> idb \<Rightarrow> access_error + principal" where
  "bearer_principal c now authorization db =
     (if \<not> is_bearer authorization \<or> auth_token authorization = [] then Inl SessionRequired
      else by_store (validate_public_token c now (auth_token authorization) db))"

definition supported_client :: "http_request \<Rightarrow> bool" where
  "supported_client q = is_supported_public_client (Some (hq_version q))"

definition admin_call :: "access_cfg \<Rightarrow> http_request \<Rightarrow> bool" where
  "admin_call x q = has_admin_token x (hq_authorization q) (hq_admin q)"

definition resolve_owner_principal ::
    "access_cfg \<Rightarrow> session_cfg \<Rightarrow> rat \<Rightarrow> http_request \<Rightarrow> string \<Rightarrow> idb \<Rightarrow> access_error + principal" where
  "resolve_owner_principal x c now q capability db =
     bindE (if \<not> ax_public x \<or> admin_call x q then Inr local_principal
            else if \<not> supported_client q then Inl UpgradeRequired
            else bearer_principal c now (hq_authorization q) db)
       (\<lambda>p. bindE (require_owner_capability x p capability (hq_host q) (hq_authorization q) (hq_admin q)) (\<lambda>_. Inr p))"

text \<open>\<open>resolve_http_principal\<close>; a sync token marks its device as seen.\<close>

definition resolve_http_principal ::
    "access_cfg \<Rightarrow> session_cfg \<Rightarrow> rat \<Rightarrow> http_request \<Rightarrow> idb \<Rightarrow> access_error + principal \<times> idb" where
  "resolve_http_principal x c now q db =
     (let verb = map upper_char (hq_verb q); same = (\<lambda>r. bindE r (\<lambda>p. Inr (p, db))) in
      case owner_capability_for_route (hq_verb q) (hq_path q) of
        Some capability \<Rightarrow> same (resolve_owner_principal x c now q capability db)
      | None \<Rightarrow>
          if host_capability_route (hq_verb q) (hq_path q)
          then bindE (require_host_admin x (hq_host q) (hq_authorization q) (hq_admin q)) (\<lambda>_. Inr (local_principal, db))
          else if take 8 (hq_path q) = ''/hub/v1/'' \<and> py_strip (hq_sync q) \<noteq> [] then by_store (validate_sync_token c now (hq_sync q) db)
          else if \<not> ax_public x then Inr (local_principal, db)
          else if verb = ''OPTIONS'' \<or> hq_path q \<in> set metadata_paths then Inr (local_principal, db)
          else if admin_call x q then Inr (local_principal, db)
          else if verb = ''GET'' \<and> share_target (hq_path q) \<noteq> None \<and> hq_share q \<noteq> []
          then same (by_store (validate_resource_ticket c now (hq_share q) (fst (the (share_target (hq_path q))))
                 (snd (the (share_target (hq_path q)))) db))
          else if \<not> supported_client q then Inl UpgradeRequired
          else if hq_path q \<in> set anonymous_paths then Inr (local_principal, db)
          else same (bearer_principal c now (hq_authorization q) db))"

definition resolve_websocket_principal ::
    "access_cfg \<Rightarrow> session_cfg \<Rightarrow> rat \<Rightarrow> string \<Rightarrow> string \<Rightarrow> string \<Rightarrow> string \<Rightarrow> idb \<Rightarrow> access_error + principal" where
  "resolve_websocket_principal x c now host path authorization query_token db =
     (if \<not> ax_public x then
        (if \<not> lan_request_allowed x ''GET'' path host then Inl LanSocketDisabled else Inr local_principal)
      else by_store (validate_public_token c now (if is_bearer authorization then auth_token authorization else query_token) db))"

section \<open>Gates, limiters and issued sessions\<close>

definition http_gate :: "access_cfg \<Rightarrow> gate_cfg" where
  "http_gate x = \<lparr>gt_channel = ''http'', gt_global = ax_http_global x, gt_peer = ax_http_peer x,
     gt_global_rate = ax_http_global_rate x, gt_peer_rate = ax_http_peer_rate x, gt_window = ax_window x, gt_peers = ax_max_peers x\<rparr>"

text \<open>One peer may hold all slots but one for the bodies of session requests.\<close>

definition body_gate :: "access_cfg \<Rightarrow> gate_cfg" where
  "body_gate x = (let slots = min (ax_http_global x) (ax_upload_slots x) in
     (http_gate x)\<lparr>gt_channel := ''session body'', gt_global := slots, gt_peer := min (ax_http_peer x) (max 1 (slots - 1))\<rparr>)"

definition websocket_gate :: "access_cfg \<Rightarrow> gate_cfg" where
  "websocket_gate x = \<lparr>gt_channel = ''websocket'', gt_global = ax_ws_global x, gt_peer = ax_ws_peer x,
     gt_global_rate = ax_ws_global_rate x, gt_peer_rate = ax_ws_peer_rate x, gt_window = ax_window x, gt_peers = ax_max_peers x\<rparr>"

definition issue_limits :: limiter_cfg where
  "issue_limits = \<lparr>lm_requests = 12, lm_window = 60, lm_clients = 2048\<rparr>"

definition sensitive_limits :: limiter_cfg where
  "sensitive_limits = issue_limits\<lparr>lm_requests := 6\<rparr>"

record access_state =
  as_http :: gate
  as_body :: gate
  as_websocket :: gate
  as_issue :: limiter
  as_sensitive :: limiter
  as_cleaned :: "rat option"
  as_db :: idb

definition by_gate :: "(gate_refusal + string) \<Rightarrow> access_error + string option" where
  "by_gate r = (case r of Inl e \<Rightarrow> Inl (GateRefused e) | Inr k \<Rightarrow> Inr (Some k))"

definition admit_http :: "access_cfg \<Rightarrow> string \<Rightarrow> rat \<Rightarrow> access_state \<Rightarrow> (access_error + string option) \<times> access_state" where
  "admit_http x client tick s =
     (if \<not> ax_public x then (Inr None, s)
      else let (r, g) = gate_acquire (http_gate x) client tick (as_http s) in (by_gate r, s\<lparr>as_http := g\<rparr>))"

definition admit_session_body ::
    "access_cfg \<Rightarrow> string \<Rightarrow> string \<Rightarrow> string \<Rightarrow> rat \<Rightarrow> access_state \<Rightarrow> (access_error + string option) \<times> access_state" where
  "admit_session_body x verb path client tick s =
     (if \<not> ax_public x \<or> \<not> session_body_route verb path then (Inr None, s)
      else let (r, g) = gate_acquire (body_gate x) client tick (as_body s) in (by_gate r, s\<lparr>as_body := g\<rparr>))"

definition admit_websocket :: "access_cfg \<Rightarrow> string \<Rightarrow> rat \<Rightarrow> access_state \<Rightarrow> (access_error + string option) \<times> access_state" where
  "admit_websocket x client tick s =
     (if \<not> ax_public x then (Inr None, s)
      else let (r, g) = gate_acquire (websocket_gate x) client tick (as_websocket s) in (by_gate r, s\<lparr>as_websocket := g\<rparr>))"

text \<open>
  \<open>enroll_public_device\<close> and \<open>renew_public_session\<close> under the issue lock.  \<open>tick\<close> and \<open>tick'\<close> are the readings of
  the monotonic clock, \<open>wall\<close> the time of the clean-up.  What the limiter and the clean-up did stays when the
  store refuses.
\<close>

definition cleanup_due :: "access_cfg \<Rightarrow> rat \<Rightarrow> access_state \<Rightarrow> bool" where
  "cleanup_due x tick s = (case as_cleaned s of None \<Rightarrow> True | Some t \<Rightarrow> max 0 (ax_cleanup_interval x) \<le> tick - t)"

definition policy_enroll ::
    "access_cfg \<Rightarrow> session_cfg \<Rightarrow> session_env \<Rightarrow> rat \<Rightarrow> rat \<Rightarrow> rat \<Rightarrow> string \<Rightarrow> string \<Rightarrow> string \<Rightarrow> string option \<Rightarrow> access_state \<Rightarrow>
       (access_error + issued_identity) \<times> access_state" where
  "policy_enroll x c e tick tick' wall client enrollment secret name s =
     (let (r, ws) = limiter_check issue_limits client tick (as_issue s); s1 = s\<lparr>as_issue := ws\<rparr> in
      case r of
        Inl n \<Rightarrow> (Inl (IssueLimited (max 1 n)), s1)
      | Inr _ \<Rightarrow>
          (let s2 = (if cleanup_due x tick' s1
                     then s1\<lparr>as_db := snd (cleanup_expired_sessions wall (as_db s1)), as_cleaned := Some tick'\<rparr> else s1) in
           case enroll_public_device c e \<lparr>erq_enrollment = Some enrollment, erq_secret = Some secret, erq_peer = client, erq_name = name,
                  erq_tenant = None, erq_device = None, erq_user = None, erq_ttl = None, erq_policy = Some (ax_enrollment x)\<rparr> (as_db s2) of
             Inl er \<Rightarrow> (Inl (SessionRefused er), s2)
           | Inr (i, db) \<Rightarrow> (Inr i, s2\<lparr>as_db := db\<rparr>)))"

definition policy_issue ::
    "access_cfg \<Rightarrow> session_cfg \<Rightarrow> session_env \<Rightarrow> rat \<Rightarrow> rat \<Rightarrow> rat \<Rightarrow> string \<Rightarrow> string \<Rightarrow> string \<Rightarrow> access_state \<Rightarrow>
       (access_error + issued_session) \<times> access_state" where
  "policy_issue x c e tick tick' wall client enrollment secret s =
     (let (r, t) = policy_enroll x c e tick tick' wall client enrollment secret None s in
      (case r of Inl er \<Rightarrow> Inl er | Inr i \<Rightarrow> Inr (ide_session i), t))"

definition policy_renew ::
    "session_cfg \<Rightarrow> session_env \<Rightarrow> rat \<Rightarrow> string \<Rightarrow> string \<Rightarrow> access_state \<Rightarrow> (access_error + issued_session) \<times> access_state" where
  "policy_renew c e tick client cred s =
     (let (r, ws) = limiter_check issue_limits client tick (as_issue s); s1 = s\<lparr>as_issue := ws\<rparr> in
      case r of
        Inl n \<Rightarrow> (Inl (IssueLimited (max 1 n)), s1)
      | Inr _ \<Rightarrow>
          (case renew_public_session c e cred None (as_db s1) of
             Inl er \<Rightarrow> (Inl (SessionRefused er), s1)
           | Inr (i, db) \<Rightarrow> (Inr i, s1\<lparr>as_db := db\<rparr>)))"

definition check_sensitive_action ::
    "string \<Rightarrow> principal \<Rightarrow> string \<Rightarrow> rat \<Rightarrow> access_state \<Rightarrow> (access_error + unit) \<times> access_state" where
  "check_sensitive_action client p action tick s =
     (let key = action @ '':'' @ client @ '':'' @ or_str (pri_family p) (pri_session p);
          (r, ws) = limiter_check sensitive_limits key tick (as_sensitive s)
      in (case r of Inl n \<Rightarrow> Inl (IssueLimited (max 1 n)) | Inr _ \<Rightarrow> Inr (), s\<lparr>as_sensitive := ws\<rparr>))"

end
