(* ===== verification/PreAuthProps.thy ===== *)
theory PreAuthProps
  imports PreAuth
begin

text \<open>
  What the admission gate guarantees in every run: its counters are exactly the leases in use, they stay within
  the bounds, and no interval of the length of the window admits more than the configured number.
\<close>

section \<open>One call\<close>

definition active_of :: "string \<Rightarrow> gate \<Rightarrow> nat" where
  "active_of k g = (case map_of (ga_peers g) k of None \<Rightarrow> 0 | Some p \<Rightarrow> pe_active p)"

definition attempts_of :: "string \<Rightarrow> gate \<Rightarrow> rat list" where
  "attempts_of k g = (case map_of (ga_peers g) k of None \<Rightarrow> [] | Some p \<Rightarrow> pe_attempts p)"

definition peers_ok :: "gate_cfg \<Rightarrow> gate \<Rightarrow> bool" where
  "peers_ok c g = (distinct (map fst (ga_peers g)) \<and> int (length (ga_peers g)) \<le> gt_peers c)"

text \<open>The other peers stay, or an idle one was displaced; none was if there was room.\<close>

definition others_kept :: "gate_cfg \<Rightarrow> string \<Rightarrow> gate \<Rightarrow> gate \<Rightarrow> bool" where
  "others_kept c k g h =
     ((\<forall>q. q \<noteq> k \<longrightarrow> map_of (ga_peers h) q = map_of (ga_peers g) q \<or> map_of (ga_peers h) q = None \<and> active_of q g = 0) \<and>
      (map_of (ga_peers g) k \<noteq> None \<or> int (length (ga_peers g)) < gt_peers c \<longrightarrow>
         (\<forall>q. q \<noteq> k \<longrightarrow> map_of (ga_peers h) q = map_of (ga_peers g) q)) \<and>
      fst ` set (ga_peers h) \<subseteq> insert k (fst ` set (ga_peers g)))"

lemma put_peer_sel [simp]:
  "ga_window (put_peer k p g) = ga_window g" "ga_active (put_peer k p g) = ga_active g"
  "map_of (ga_peers (put_peer k p g)) q = (if q = k then Some p else map_of (ga_peers g) q)"
  by (auto simp: put_peer_def map_add_def map_of_delete split: option.splits)

lemma put_peer_at [simp]: "active_of k (put_peer k p g) = pe_active p" "attempts_of k (put_peer k p g) = pe_attempts p"
  by (simp_all add: active_of_def attempts_of_def)

lemma put_peer_keys:
  "distinct (map fst (ga_peers g)) \<Longrightarrow> distinct (map fst (ga_peers (put_peer k p g)))"
  "fst ` set (ga_peers (put_peer k p g)) \<subseteq> insert k (fst ` set (ga_peers g))"
proof -
  show "distinct (map fst (ga_peers (put_peer k p g)))" if "distinct (map fst (ga_peers g))"
    using distinct_delete[OF that] delete_notin_dom[of k "ga_peers g"] by (simp add: put_peer_def)
  show "fst ` set (ga_peers (put_peer k p g)) \<subseteq> insert k (fst ` set (ga_peers g))"
    using dom_delete_subset[of k "ga_peers g"] by (auto simp: put_peer_def)
qed

lemma length_delete: "distinct (map fst xs) \<Longrightarrow> map_of xs k \<noteq> None \<Longrightarrow> length (AList.delete k xs) = length xs - 1"
  by (metis delete_keys length_map length_remove1 map_of_eq_None_iff distinct_remove1_removeAll list.set_map)

lemma delete_unknown: "map_of xs k = None \<Longrightarrow> AList.delete k xs = xs"
  by (simp add: map_of_eq_None_iff)

lemma length_put_peer:
  assumes "distinct (map fst (ga_peers g))"
  shows "length (ga_peers (put_peer k p g)) = (if map_of (ga_peers g) k = None then length (ga_peers g) + 1 else length (ga_peers g))"
proof (cases "map_of (ga_peers g) k")
  case None
  then show ?thesis by (simp add: put_peer_def delete_unknown)
next
  case (Some x)
  then have "ga_peers g \<noteq> []" by auto
  with Some length_delete[OF assms, of k] show ?thesis by (simp add: put_peer_def)
qed

lemma peer_locked_Inr:
  assumes "peer_locked c k now g = (Inr p, h)" "peers_ok c g" "1 \<le> gt_peers c"
  shows "peers_ok c h \<and> others_kept c k g h \<and> map_of (ga_peers h) k = Some p \<and> pe_active p = active_of k g \<and>
    pe_attempts p = attempts_of k g \<and> ga_window h = ga_window g \<and> ga_active h = ga_active g"
proof (cases "map_of (ga_peers g) k")
  case (Some x)
  with assms(1) have "p = x" "h = put_peer k x g" by (auto simp: peer_locked_def)
  with Some assms(2) show ?thesis
    using put_peer_keys length_put_peer
    by (auto simp: peers_ok_def others_kept_def active_of_def attempts_of_def)
next
  case None
  let ?new = "\<lparr>pe_attempts = [], pe_active = 0, pe_seen = now\<rparr>"
  have d: "distinct (map fst (ga_peers g))" using assms(2) by (simp add: peers_ok_def)
  show ?thesis
  proof (cases "gt_peers c \<le> int (length (ga_peers g))")
    case False
    with None assms(1) have "p = ?new" "h = put_peer k ?new g" by (auto simp: peer_locked_def Let_def)
    with None False d show ?thesis
      using put_peer_keys length_put_peer[OF d]
      by (auto simp: peers_ok_def others_kept_def active_of_def attempts_of_def)
  next
    case True
    with None assms(1) obtain q x where f: "List.find (\<lambda>(q, p). pe_active p = 0) (ga_peers g) = Some (q, x)"
      and h: "p = ?new" "h = put_peer k ?new (g\<lparr>ga_peers := AList.delete q (ga_peers g)\<rparr>)"
      by (auto simp: peer_locked_def Let_def split: option.splits)
    from f have x: "(q, x) \<in> set (ga_peers g)" "pe_active x = 0" by (auto dest: find_SomeD)
    then have mq: "map_of (ga_peers g) q = Some x" using d by simp
    let ?g = "g\<lparr>ga_peers := AList.delete q (ga_peers g)\<rparr>"
    have dg: "distinct (map fst (ga_peers ?g))" using d by (simp add: distinct_delete)
    have "length (ga_peers ?g) = length (ga_peers g) - 1" using length_delete[OF d] mq by simp
    moreover have "ga_peers g \<noteq> []" using x by auto
    ultimately have len: "length (ga_peers h) = length (ga_peers g)"
      using None by (simp add: h length_put_peer[OF dg] map_of_delete)
    have "fst ` set (ga_peers h) \<subseteq> insert k (fst ` set (ga_peers g))"
      using put_peer_keys(2)[of k ?new ?g] dom_delete_subset[of q "ga_peers g"] unfolding h by auto
    then show ?thesis
      using len None mq x(2) True assms(2) put_peer_keys(1)[OF dg]
      by (auto simp: h peers_ok_def others_kept_def active_of_def attempts_of_def map_of_delete)
  qed
qed

lemma peer_locked_Inl: "peer_locked c k now g = (Inl e, h) \<Longrightarrow> e = CapacityReached \<and> h = g"
  by (auto simp: peer_locked_def Let_def split: option.splits if_splits)

lemma others_keptD:
  assumes "others_kept c k g h" "q \<noteq> k"
  shows "active_of q h = active_of q g"
  using assms by (auto simp: others_kept_def active_of_def)

lemma filter_trim: "cutoff \<le> since \<Longrightarrow> filter (\<lambda>t. since < t) (trim_window cutoff w) = filter (\<lambda>t. since < t) w"
  by (induction w) (auto simp: trim_window_def)

lemma trim_length: "length (trim_window cutoff w) \<le> length w"
  unfolding trim_window_def by (rule length_dropWhile_le)

text \<open>
  What \<open>acquire\<close> does with the peer and the windows: nothing but the trimming, or (\<open>counted\<close>) the attempt is
  recorded, and then it is refused for want of a slot or admitted.
\<close>

definition acquire_effect :: "gate_cfg \<Rightarrow> string \<Rightarrow> rat \<Rightarrow> gate \<Rightarrow> (gate_refusal + string) \<Rightarrow> gate \<Rightarrow> bool" where
  "acquire_effect c k now g r h =
     (let cutoff = now - gt_window c; w = trim_window cutoff (ga_window g); a = trim_window cutoff (attempts_of k g);
          same = (ga_active h = ga_active g \<and> active_of k h = active_of k g) in
      peers_ok c h \<and> others_kept c k g h \<and>
      (isl r \<and> same \<and> ga_window h = w \<and> attempts_of k h \<in> {a, attempts_of k g} \<or>
       int (length w) < gt_global_rate c \<and> int (length a) < gt_peer_rate c \<and> ga_window h = w @ [now] \<and> attempts_of k h = a @ [now] \<and>
         (isl r \<and> same \<or>
          r = Inr k \<and> int (ga_active g) < gt_global c \<and> int (active_of k g) < gt_peer c \<and>
            ga_active h = ga_active g + 1 \<and> active_of k h = active_of k g + 1)))"

lemma put_peer_effect:
  assumes "peers_ok c g" "others_kept c k f g" "map_of (ga_peers g) k \<noteq> None"
  shows "peers_ok c (put_peer k p g) \<and> others_kept c k f (put_peer k p g)"
  using assms put_peer_keys[where g = g and k = k and p = p] length_put_peer[where g = g and k = k and p = p] by (auto simp: peers_ok_def others_kept_def)

lemma peers_ok_cong: "ga_peers g = ga_peers h \<Longrightarrow> peers_ok c g = peers_ok c h"
  by (simp add: peers_ok_def)

lemma others_kept_cong: "ga_peers g = ga_peers g' \<Longrightarrow> ga_peers h = ga_peers h' \<Longrightarrow> others_kept c k g h = others_kept c k g' h'"
  by (simp add: others_kept_def active_of_def)

lemma gate_acquire_effect:
  assumes a: "gate_acquire c client now g = (r, h)" and ok: "peers_ok c g" "1 \<le> gt_peers c"
  shows "acquire_effect c (client_key client) now g r h"
proof -
  let ?k = "client_key client" and ?since = "now - gt_window c"
  let ?w = "trim_window ?since (ga_window g)"
  let ?g1 = "g\<lparr>ga_window := ?w\<rparr>"
  obtain l g2 where l: "peer_locked c ?k now ?g1 = (l, g2)" by (cases "peer_locked c ?k now ?g1")
  show ?thesis
  proof (cases l)
    case (Inl e)
    with l peer_locked_Inl have "e = CapacityReached" "g2 = ?g1" by blast+
    with a l Inl have "r = Inl CapacityReached" "h = ?g1" by (auto simp: gate_acquire_def Let_def)
    then show ?thesis using ok
      by (auto simp: acquire_effect_def peers_ok_def others_kept_def active_of_def attempts_of_def Let_def)
  next
    case (Inr p0)
    have "peers_ok c ?g1" using ok(1) by (simp add: peers_ok_def)
    from peer_locked_Inr[OF l[unfolded Inr] this ok(2)]
    have g2: "peers_ok c g2" "others_kept c ?k g g2" "map_of (ga_peers g2) ?k \<noteq> None" "pe_active p0 = active_of ?k g"
        "pe_attempts p0 = attempts_of ?k g" "ga_window g2 = ?w" "ga_active g2 = ga_active g"
      by (simp_all add: others_kept_def active_of_def attempts_of_def)
    note put = put_peer_effect[OF g2(1-3)]
    have twice: "peers_ok c (put_peer ?k q ((put_peer ?k p g2)\<lparr>ga_window := w\<rparr>)) \<and> others_kept c ?k g (put_peer ?k q ((put_peer ?k p g2)\<lparr>ga_window := w\<rparr>))"
      for p q w
      by (rule put_peer_effect) (use put[of p] in \<open>auto simp: peers_ok_def others_kept_def active_of_def\<close>)
    have thrice: "peers_ok c (put_peer ?k q' ((put_peer ?k q ((put_peer ?k p g2)\<lparr>ga_window := w\<rparr>))\<lparr>ga_active := n\<rparr>)) \<and>
        others_kept c ?k g (put_peer ?k q' ((put_peer ?k q ((put_peer ?k p g2)\<lparr>ga_window := w\<rparr>))\<lparr>ga_active := n\<rparr>))"
      for p q q' w n
      by (rule put_peer_effect) (use twice[where q = q and p = p and w = w] in \<open>auto simp: peers_ok_def others_kept_def active_of_def\<close>)
    let ?a = "trim_window ?since (attempts_of ?k g)"
    note eff = acquire_effect_def Let_def
    note a = a[unfolded gate_acquire_def Let_def l Inr prod.case sum.case]
    show ?thesis
    proof (cases "gt_global_rate c \<le> int (length ?w) \<or> gt_peer_rate c \<le> int (length ?a)")
      case True
      with a have "isl r" "h = put_peer ?k (p0\<lparr>pe_attempts := ?a, pe_seen := now\<rparr>) g2"
        by (auto simp: g2 split: if_splits)
      with put show ?thesis by (simp add: eff g2)
    next
      case rate: False
      let ?p = "p0\<lparr>pe_attempts := ?a, pe_seen := now\<rparr>" and ?q = "p0\<lparr>pe_seen := now, pe_attempts := ?a @ [now]\<rparr>"
      let ?g4 = "put_peer ?k ?q ((put_peer ?k ?p g2)\<lparr>ga_window := ?w @ [now]\<rparr>)"
      show ?thesis
      proof (cases "gt_global c \<le> int (ga_active g) \<or> gt_peer c \<le> int (active_of ?k g)")
        case True
        with a rate have "isl r" "h = ?g4" by (auto simp: g2 split: if_splits)
        with twice rate show ?thesis by (simp add: eff g2)
      next
        case False
        with a rate have "r = Inr ?k" "h = put_peer ?k (?q\<lparr>pe_active := active_of ?k g + 1\<rparr>) (?g4\<lparr>ga_active := ga_active g + 1\<rparr>)"
          by (auto simp: g2 split: if_splits)
        with thrice rate False show ?thesis by (simp add: eff g2)
      qed
    qed
  qed
qed

lemma gate_release_sel:
  assumes "distinct (map fst (ga_peers g))"
  shows "ga_window (gate_release k now g) = ga_window g" "map fst (ga_peers (gate_release k now g)) = map fst (ga_peers g)"
    "attempts_of q (gate_release k now g) = attempts_of q g"
    "active_of q (gate_release k now g) = (if q = k then active_of q g - 1 else active_of q g)"
    "ga_active (gate_release k now g) = (if active_of k g = 0 then ga_active g else ga_active g - 1)"
proof -
  have keys: "map_of xs k = Some p \<Longrightarrow> map fst (AList.update k v xs) = map fst xs" for xs :: "(string \<times> gate_peer) list" and p v
    by (induction xs) (auto split: if_splits)
  show "map fst (ga_peers (gate_release k now g)) = map fst (ga_peers g)"
    by (auto simp: gate_release_def keys split: option.splits)
qed (auto simp: gate_release_def active_of_def attempts_of_def map_of_update split: option.splits)

section \<open>Requests under way\<close>

text \<open>
  \<open>gs_held\<close> are the leases that were handed out and not released, \<open>gs_pending\<close> the keys of those that were released
  (the flag of the lease is set) but still wait for the lock; a second release of a lease does nothing.
  \<open>gs_log\<close> lists the admissions, newest first.  The clock is read under the lock and does not run backwards.
  \<open>S\<close> is the set of peers that call at all.
\<close>

record gate_system =
  gs_gate :: gate
  gs_held :: "string list"
  gs_pending :: "string list"
  gs_now :: rat
  gs_log :: "(string \<times> rat) list"

definition gate_init :: "gate_system \<Rightarrow> bool" where
  "gate_init s = (ga_window (gs_gate s) = [] \<and> ga_active (gs_gate s) = 0 \<and> ga_peers (gs_gate s) = [] \<and>
     gs_held s = [] \<and> gs_pending s = [] \<and> gs_log s = [])"

inductive gate_step :: "gate_cfg \<Rightarrow> string set \<Rightarrow> gate_system \<Rightarrow> gate_system \<Rightarrow> bool" for c S where
  Admit: "gs_now s \<le> now \<Longrightarrow> client_key client \<in> S \<Longrightarrow> gate_acquire c client now (gs_gate s) = (Inr k, g) \<Longrightarrow>
     gate_step c S s (s\<lparr>gs_gate := g, gs_held := k # gs_held s, gs_now := now, gs_log := (k, now) # gs_log s\<rparr>)"
| Refuse: "gs_now s \<le> now \<Longrightarrow> client_key client \<in> S \<Longrightarrow> gate_acquire c client now (gs_gate s) = (Inl e, g) \<Longrightarrow>
     gate_step c S s (s\<lparr>gs_gate := g, gs_now := now\<rparr>)"
| Release: "gs_held s = xs @ k # ys \<Longrightarrow> gate_step c S s (s\<lparr>gs_held := xs @ ys, gs_pending := gs_pending s @ [k]\<rparr>)"
| Settle: "gs_now s \<le> now \<Longrightarrow> gs_pending s = xs @ k # ys \<Longrightarrow>
     gate_step c S s (s\<lparr>gs_gate := gate_release k now (gs_gate s), gs_pending := xs @ ys, gs_now := now\<rparr>)"

definition in_use :: "gate_system \<Rightarrow> string list" where
  "in_use s = gs_held s @ gs_pending s"

text \<open>How often an event of the log is younger than a time.\<close>

definition logged :: "(string \<Rightarrow> bool) \<Rightarrow> rat \<Rightarrow> gate_system \<Rightarrow> nat" where
  "logged P since s = length (filter (\<lambda>e. P (fst e) \<and> since < snd e) (gs_log s))"

definition gate_counts :: "gate_cfg \<Rightarrow> gate_system \<Rightarrow> bool" where
  "gate_counts c s = (peers_ok c (gs_gate s) \<and>
     ga_active (gs_gate s) = length (in_use s) \<and> (\<forall>k. active_of k (gs_gate s) = count_list (in_use s) k) \<and>
     int (length (in_use s)) \<le> gt_global c \<and> (\<forall>k. int (count_list (in_use s) k) \<le> gt_peer c))"

definition gate_logs :: "gate_cfg \<Rightarrow> string set \<Rightarrow> gate_system \<Rightarrow> bool" where
  "gate_logs c S s = (\<forall>since \<ge> gs_now s - gt_window c.
     logged (\<lambda>_. True) since s \<le> length (filter (\<lambda>t. since < t) (ga_window (gs_gate s))) \<and>
     (finite S \<and> int (card S) \<le> gt_peers c \<longrightarrow> fst ` set (ga_peers (gs_gate s)) \<subseteq> S \<and>
       (\<forall>k. logged (\<lambda>q. q = k) since s \<le> length (filter (\<lambda>t. since < t) (attempts_of k (gs_gate s))))))"

lemma gate_counts_acquire:
  assumes "gate_counts c s" "1 \<le> gt_peers c" "gate_acquire c client now (gs_gate s) = (r, g)"
  shows "gate_counts c (case r of Inl e \<Rightarrow> s\<lparr>gs_gate := g, gs_now := now\<rparr>
    | Inr k \<Rightarrow> s\<lparr>gs_gate := g, gs_held := k # gs_held s, gs_now := now, gs_log := (k, now) # gs_log s\<rparr>)"
proof -
  have ok: "peers_ok c (gs_gate s)" using assms(1) by (simp add: gate_counts_def)
  have "acquire_effect c (client_key client) now (gs_gate s) r g" by (rule gate_acquire_effect[OF assms(3) ok assms(2)])
  then have eff: "peers_ok c g" "\<And>q. q \<noteq> client_key client \<Longrightarrow> active_of q g = active_of q (gs_gate s)"
      "isl r \<and> ga_active g = ga_active (gs_gate s) \<and> active_of (client_key client) g = active_of (client_key client) (gs_gate s) \<or>
       r = Inr (client_key client) \<and> int (ga_active (gs_gate s)) < gt_global c \<and> int (active_of (client_key client) (gs_gate s)) < gt_peer c \<and>
         ga_active g = ga_active (gs_gate s) + 1 \<and> active_of (client_key client) g = active_of (client_key client) (gs_gate s) + 1"
    unfolding acquire_effect_def Let_def by (auto dest: others_keptD)
  from eff(3) show ?thesis
  proof (elim disjE conjE)
    assume "isl r" and act: "ga_active g = ga_active (gs_gate s)" "active_of (client_key client) g = active_of (client_key client) (gs_gate s)"
    then obtain e where r: "r = Inl e" by (auto simp: isl_def)
    have "active_of q g = active_of q (gs_gate s)" for q using act(2) eff(2) by (cases "q = client_key client") auto
    with r act(1) eff(1) assms(1) show ?thesis by (simp add: gate_counts_def in_use_def)
  next
    assume r: "r = Inr (client_key client)" and act: "int (ga_active (gs_gate s)) < gt_global c"
        "int (active_of (client_key client) (gs_gate s)) < gt_peer c" "ga_active g = ga_active (gs_gate s) + 1"
        "active_of (client_key client) g = active_of (client_key client) (gs_gate s) + 1"
    have "active_of q g = count_list (client_key client # in_use s) q" for q
      using act(4) eff(2)[of q] assms(1) by (cases "q = client_key client") (auto simp: gate_counts_def)
    with r act(1-3) eff(1) assms(1) show ?thesis by (auto simp: gate_counts_def in_use_def)
  qed
qed

lemma gate_counts_step:
  assumes "gate_counts c s" "gate_step c S s t" "1 \<le> gt_peers c"
  shows "gate_counts c t"
  using assms(2)
proof cases
  case (Admit now client k g)
  then show ?thesis using gate_counts_acquire[OF assms(1,3) Admit(4)] by simp
next
  case (Refuse now client e g)
  then show ?thesis using gate_counts_acquire[OF assms(1,3) Refuse(4)] by simp
next
  case (Release xs k ys)
  have "count_list (in_use t) q = count_list (in_use s) q" for q using Release by (simp add: in_use_def)
  moreover have "length (in_use t) = length (in_use s)" using Release by (simp add: in_use_def)
  ultimately show ?thesis using assms(1) Release(1) by (simp add: gate_counts_def)
next
  case (Settle now xs k ys)
  have ok: "distinct (map fst (ga_peers (gs_gate s)))" using assms(1) by (simp add: gate_counts_def peers_ok_def)
  have len: "length (ga_peers (gate_release k now (gs_gate s))) = length (ga_peers (gs_gate s))"
    using gate_release_sel(2)[OF ok] by (metis length_map)
  have gt: "gs_gate t = gate_release k now (gs_gate s)" using Settle(1) by simp
  have cnt: "count_list (in_use s) q = (if q = k then count_list (in_use t) q + 1 else count_list (in_use t) q)" for q
    using Settle by (simp add: in_use_def)
  have "active_of k (gs_gate s) \<noteq> 0" using assms(1) cnt[of k] by (simp add: gate_counts_def)
  moreover have "length (in_use s) = length (in_use t) + 1" using Settle by (simp add: in_use_def)
  moreover have "int (count_list (in_use t) q) \<le> gt_peer c" for q
  proof -
    have "int (count_list (in_use t) q) \<le> int (count_list (in_use s) q)" using cnt[of q] by auto
    also have "\<dots> \<le> gt_peer c" using assms(1) by (simp add: gate_counts_def)
    finally show ?thesis .
  qed
  moreover have "active_of q (gs_gate t) = count_list (in_use t) q" for q
    using assms(1) gate_release_sel(4)[OF ok, of q k now] cnt[of q] unfolding gt gate_counts_def by (cases "q = k") auto
  ultimately show ?thesis
    using assms(1) gate_release_sel[OF ok] len unfolding gt gate_counts_def peers_ok_def by simp
qed

text \<open>The windows hold every admission that is still young; those of a peer only while no peer is displaced.\<close>

lemma room_for_all:
  assumes "peers_ok c g" "finite S" "int (card S) \<le> gt_peers c" "fst ` set (ga_peers g) \<subseteq> S" "k \<in> S"
  shows "map_of (ga_peers g) k \<noteq> None \<or> int (length (ga_peers g)) < gt_peers c"
proof (cases "map_of (ga_peers g) k")
  case None
  then have "fst ` set (ga_peers g) \<subseteq> S - {k}" using assms(4) by (auto simp: map_of_eq_None_iff)
  then have "card (fst ` set (ga_peers g)) \<le> card (S - {k})" by (rule card_mono[OF finite_Diff[OF assms(2)]])
  also have "\<dots> < card S" using assms(2,5) by (rule card_Diff1_less)
  finally have "card (fst ` set (ga_peers g)) < card S" .
  moreover have "card (fst ` set (ga_peers g)) = length (ga_peers g)"
    using assms(1) distinct_card[of "map fst (ga_peers g)"] by (simp add: peers_ok_def)
  ultimately show ?thesis using assms(3) by linarith
qed simp

lemma logs_trimmed:
  assumes "gate_logs c S s" "gs_now s \<le> now" "now - gt_window c \<le> since"
  shows "logged (\<lambda>_. True) since s \<le> length (filter (\<lambda>t. since < t) (trim_window (now - gt_window c) (ga_window (gs_gate s))))"
    "finite S \<Longrightarrow> int (card S) \<le> gt_peers c \<Longrightarrow> fst ` set (ga_peers (gs_gate s)) \<subseteq> S"
    "finite S \<Longrightarrow> int (card S) \<le> gt_peers c \<Longrightarrow>
       logged (\<lambda>q. q = k) since s \<le> length (filter (\<lambda>t. since < t) (trim_window (now - gt_window c) (attempts_of k (gs_gate s))))"
    "finite S \<Longrightarrow> int (card S) \<le> gt_peers c \<Longrightarrow>
       logged (\<lambda>q. q = k) since s \<le> length (filter (\<lambda>t. since < t) (attempts_of k (gs_gate s)))"
proof -
  have "gs_now s - gt_window c \<le> since" using assms(2,3) by linarith
  with assms(1,3) show "logged (\<lambda>_. True) since s \<le> length (filter (\<lambda>t. since < t) (trim_window (now - gt_window c) (ga_window (gs_gate s))))"
    "finite S \<Longrightarrow> int (card S) \<le> gt_peers c \<Longrightarrow> fst ` set (ga_peers (gs_gate s)) \<subseteq> S"
    "finite S \<Longrightarrow> int (card S) \<le> gt_peers c \<Longrightarrow>
       logged (\<lambda>q. q = k) since s \<le> length (filter (\<lambda>t. since < t) (trim_window (now - gt_window c) (attempts_of k (gs_gate s))))"
    "finite S \<Longrightarrow> int (card S) \<le> gt_peers c \<Longrightarrow>
       logged (\<lambda>q. q = k) since s \<le> length (filter (\<lambda>t. since < t) (attempts_of k (gs_gate s)))"
    by (simp_all add: gate_logs_def filter_trim)
qed

text \<open>The state after an attempt, with the log the caller keeps.\<close>

definition after_attempt :: "gate_system \<Rightarrow> rat \<Rightarrow> (gate_refusal + string) \<Rightarrow> gate \<Rightarrow> gate_system" where
  "after_attempt s now r g = (case r of Inl e \<Rightarrow> s\<lparr>gs_gate := g, gs_now := now\<rparr>
     | Inr k \<Rightarrow> s\<lparr>gs_gate := g, gs_held := k # gs_held s, gs_now := now, gs_log := (k, now) # gs_log s\<rparr>)"

lemma logged_attempt:
  "logged P since (after_attempt s now r g) =
     logged P since s + (case r of Inl e \<Rightarrow> 0 | Inr k \<Rightarrow> if P k \<and> since < now then 1 else 0)"
  by (auto simp: logged_def after_attempt_def split: sum.split)

lemma after_attempt_sel [simp]: "gs_gate (after_attempt s now r g) = g" "gs_now (after_attempt s now r g) = now"
  by (auto simp: after_attempt_def split: sum.split)

lemma gate_logs_attempt:
  assumes "gate_logs c S s" "gs_now s \<le> now" "acquire_effect c k now (gs_gate s) r g" "k \<in> S" "peers_ok c (gs_gate s)"
  shows "gate_logs c S (after_attempt s now r g)"
proof -
  let ?e = "now - gt_window c"
  have w: "ga_window g = trim_window ?e (ga_window (gs_gate s)) \<and> isl r \<or>
      ga_window g = trim_window ?e (ga_window (gs_gate s)) @ [now] \<and> (isl r \<or> r = Inr k)"
    and a: "attempts_of k g \<in> {trim_window ?e (attempts_of k (gs_gate s)), attempts_of k (gs_gate s)} \<and> isl r \<or>
      attempts_of k g = trim_window ?e (attempts_of k (gs_gate s)) @ [now] \<and> (isl r \<or> r = Inr k)"
    and o: "others_kept c k (gs_gate s) g"
    using assms(3) unfolding acquire_effect_def Let_def by blast+
  show ?thesis
    unfolding gate_logs_def after_attempt_sel
  proof (intro allI impI conjI)
    fix since assume since: "?e \<le> since"
    show "logged (\<lambda>_. True) since (after_attempt s now r g) \<le> length (filter ((<) since) (ga_window g))"
      using w logs_trimmed(1)[OF assms(1,2) since] by (auto simp: logged_attempt isl_def)
    assume "finite S \<and> int (card S) \<le> gt_peers c"
    then have S: "finite S" "int (card S) \<le> gt_peers c" by auto
    note old = logs_trimmed(2)[OF assms(1,2) since S]
    show "fst ` set (ga_peers g) \<subseteq> S" using old o assms(4) unfolding others_kept_def by blast
    fix q
    have keep: "map_of (ga_peers g) q = map_of (ga_peers (gs_gate s)) q" if "q \<noteq> k"
      using that o room_for_all[OF assms(5) S old assms(4)] unfolding others_kept_def by blast
    show "logged (\<lambda>x. x = q) since (after_attempt s now r g) \<le> length (filter ((<) since) (attempts_of q g))"
    proof (cases "q = k")
      case True
      with a show ?thesis
        using logs_trimmed(3,4)[OF assms(1,2) since S, of k] by (auto simp: logged_attempt isl_def)
    next
      case False
      with keep a w have "attempts_of q g = attempts_of q (gs_gate s)" "isl r \<or> r = Inr k" by (auto simp: attempts_of_def)
      with False show ?thesis
        using logs_trimmed(4)[OF assms(1,2) since S, of q] by (auto simp: logged_attempt isl_def)
    qed
  qed
qed

lemma gate_logs_step:
  assumes "gate_logs c S s" "gate_counts c s" "gate_step c S s t" "1 \<le> gt_peers c"
  shows "gate_logs c S t"
proof -
  have ok: "peers_ok c (gs_gate s)" using assms(2) by (simp add: gate_counts_def)
  from assms(3) show ?thesis
  proof cases
    case (Admit now client k g)
    have "t = after_attempt s now (Inr k) g" using Admit(1) by (simp add: after_attempt_def)
    then show ?thesis using gate_logs_attempt[OF assms(1) Admit(2) gate_acquire_effect[OF Admit(4) ok assms(4)] Admit(3) ok] by simp
  next
    case (Refuse now client e g)
    have "t = after_attempt s now (Inl e) g" using Refuse(1) by (simp add: after_attempt_def)
    then show ?thesis using gate_logs_attempt[OF assms(1) Refuse(2) gate_acquire_effect[OF Refuse(4) ok assms(4)] Refuse(3) ok] by simp
  next
    case (Release xs k ys)
    then show ?thesis using assms(1) by (simp add: gate_logs_def logged_def)
  next
    case (Settle now xs k ys)
    have d: "distinct (map fst (ga_peers (gs_gate s)))" using ok by (simp add: peers_ok_def)
    have "fst ` set (ga_peers (gate_release k now (gs_gate s))) = fst ` set (ga_peers (gs_gate s))"
      using gate_release_sel(2)[OF d] by (metis list.set_map)
    then have keep: "ga_window (gs_gate t) = ga_window (gs_gate s)" "attempts_of q (gs_gate t) = attempts_of q (gs_gate s)"
        "fst ` set (ga_peers (gs_gate t)) = fst ` set (ga_peers (gs_gate s))" "logged P since t = logged P since s" for q P since
      using Settle(1) gate_release_sel(1,3)[OF d] by (simp_all add: logged_def)
    have "gs_now s - gt_window c \<le> since" if "gs_now t - gt_window c \<le> since" for since using that Settle(1,2) by simp
    then show ?thesis using assms(1) unfolding gate_logs_def keep by blast
  qed
qed

section \<open>Every run\<close>

text \<open>A start is an empty gate with valid bounds.\<close>

definition gate_start :: "gate_cfg \<Rightarrow> gate_system \<Rightarrow> bool" where
  "gate_start c s = (gate_cfg_ok c \<and> gate_init s)"

definition gate_inv :: "gate_cfg \<Rightarrow> string set \<Rightarrow> gate_system \<Rightarrow> bool" where
  "gate_inv c S s = (gate_cfg_ok c \<and> gate_counts c s \<and> gate_logs c S s)"

interpretation gate_runs: invariant_system "gate_start c" "gate_step c S" "gate_inv c S" for c S
proof
  show "gate_inv c S s" if "gate_start c s" for s
    using that by (auto simp: gate_start_def gate_init_def gate_cfg_ok_def gate_inv_def gate_counts_def gate_logs_def peers_ok_def
        in_use_def active_of_def logged_def)
  show "gate_inv c S t" if "gate_inv c S s" "gate_step c S s t" for s t
    using that gate_counts_step gate_logs_step unfolding gate_inv_def gate_cfg_ok_def by blast
qed

text \<open>An admission finds room in the windows.\<close>

lemma filter_young: "length (filter P w) \<le> length w"
  by (rule length_filter_le)

lemma admission_finds_room:
  assumes "gate_inv c S s" "gate_step c S s t"
  shows "gs_log t = gs_log s \<or> (\<exists>e. gs_log t = e # gs_log s \<and>
    logged (\<lambda>_. True) (snd e - gt_window c) s < nat (gt_global_rate c) \<and>
    (finite S \<and> int (card S) \<le> gt_peers c \<longrightarrow> logged (\<lambda>q. q = fst e) (snd e - gt_window c) s < nat (gt_peer_rate c)))"
  using assms(2)
proof cases
  case (Admit now client k g)
  let ?e = "now - gt_window c"
  have inv: "gate_logs c S s" "peers_ok c (gs_gate s)" "1 \<le> gt_peers c"
    using assms(1) by (auto simp: gate_inv_def gate_counts_def gate_cfg_ok_def)
  from gate_acquire_effect[OF Admit(4) inv(2,3)]
  have k: "k = client_key client" and room: "int (length (trim_window ?e (ga_window (gs_gate s)))) < gt_global_rate c"
      "int (length (trim_window ?e (attempts_of k (gs_gate s)))) < gt_peer_rate c"
    unfolding acquire_effect_def Let_def by auto
  have "logged (\<lambda>_. True) ?e s \<le> length (trim_window ?e (ga_window (gs_gate s)))"
    using logs_trimmed(1)[OF inv(1) Admit(2) order_refl] filter_young order_trans by blast
  moreover have "logged (\<lambda>q. q = k) ?e s \<le> length (trim_window ?e (attempts_of k (gs_gate s)))"
    if "finite S" "int (card S) \<le> gt_peers c"
    using logs_trimmed(3)[OF inv(1) Admit(2) order_refl that] filter_young order_trans by blast
  ultimately show ?thesis using room Admit(1) by fastforce
qed simp_all

definition few_peers :: "gate_cfg \<Rightarrow> string set \<Rightarrow> gate_system \<Rightarrow> bool" where
  "few_peers c S s = (gate_start c s \<and> finite S \<and> int (card S) \<le> gt_peers c)"

interpretation gate_rate: rate_limited "gate_start c" "gate_step c S" gs_log snd "\<lambda>_. True" "gt_window c" "nat (gt_global_rate c)" for c S
proof
  show "gs_log s = []" if "gate_start c s" for s using that by (simp add: gate_start_def gate_init_def)
  show "gs_log t = gs_log s \<or> (\<exists>e. gs_log t = e # gs_log s \<and>
      (True \<longrightarrow> length (filter (\<lambda>x. True \<and> snd e - gt_window c < snd x) (gs_log s)) < nat (gt_global_rate c)))"
    if "gate_start c s0" "(gate_step c S)\<^sup>*\<^sup>* s0 s" "gate_step c S s t" for s0 s t
    using admission_finds_room[OF gate_runs.reachable_inv[OF that(1,2)] that(3)] by (auto simp: logged_def)
qed

interpretation peer_rate: rate_limited "few_peers c S" "gate_step c S" gs_log snd "\<lambda>e. fst e = k" "gt_window c" "nat (gt_peer_rate c)" for c S k
proof
  show "gs_log s = []" if "few_peers c S s" for s using that by (simp add: few_peers_def gate_start_def gate_init_def)
  show "gs_log t = gs_log s \<or> (\<exists>e. gs_log t = e # gs_log s \<and>
      (fst e = k \<longrightarrow> length (filter (\<lambda>x. fst x = k \<and> snd e - gt_window c < snd x) (gs_log s)) < nat (gt_peer_rate c)))"
    if "few_peers c S s0" "(gate_step c S)\<^sup>*\<^sup>* s0 s" "gate_step c S s t" for s0 s t
    using admission_finds_room[OF gate_runs.reachable_inv[OF _ that(2)] that(3)] that(1) by (auto simp: few_peers_def logged_def)
qed

text \<open>
  C15.  In every run of admissions, refusals and releases the counters of the gate are exactly the leases in
  use, in all and of each peer, and within their bounds; no more peers are remembered than allowed; and no
  interval of the length of the window admits more than the global rate, nor, while no more peers call than the
  gate remembers, more of one peer than its rate.
\<close>

theorem gate_is_bounded:
  assumes "gate_cfg_ok c" "gate_init s0" "(gate_step c S)\<^sup>*\<^sup>* s0 s"
  shows "ga_active (gs_gate s) = length (in_use s) \<and> int (length (in_use s)) \<le> gt_global c \<and>
    active_of k (gs_gate s) = count_list (in_use s) k \<and> int (count_list (in_use s) k) \<le> gt_peer c \<and>
    int (length (ga_peers (gs_gate s))) \<le> gt_peers c \<and>
    int (length (filter (\<lambda>e. a < snd e \<and> snd e \<le> a + gt_window c) (gs_log s))) \<le> gt_global_rate c \<and>
    (finite S \<and> int (card S) \<le> gt_peers c \<longrightarrow>
       int (length (filter (\<lambda>e. fst e = k \<and> a < snd e \<and> snd e \<le> a + gt_window c) (gs_log s))) \<le> gt_peer_rate c)"
proof -
  have st: "gate_start c s0" using assms(1,2) by (simp add: gate_start_def)
  have "gate_counts c s" using gate_runs.reachable_inv[OF st assms(3)] by (simp add: gate_inv_def)
  moreover have "length (filter (\<lambda>e. True \<and> a < snd e \<and> snd e \<le> a + gt_window c) (gs_log s)) \<le> nat (gt_global_rate c)"
    by (rule gate_rate.window_bound[OF st assms(3)])
  moreover have "length (filter (\<lambda>e. fst e = k \<and> a < snd e \<and> snd e \<le> a + gt_window c) (gs_log s)) \<le> nat (gt_peer_rate c)"
    if "finite S \<and> int (card S) \<le> gt_peers c"
    by (rule peer_rate.window_bound[OF _ assms(3)]) (use st that in \<open>simp add: few_peers_def\<close>)
  ultimately show ?thesis using assms(1) by (auto simp: gate_counts_def peers_ok_def gate_cfg_ok_def nat_le_iff le_nat_iff)
qed

section \<open>The limiter\<close>

text \<open>The table stays within its bound, and no window holds more than the number of requests allowed.\<close>

definition limiter_ok :: "limiter_cfg \<Rightarrow> limiter \<Rightarrow> bool" where
  "limiter_ok c ws = (distinct (map fst ws) \<and> int (length ws) \<le> lm_clients c \<and> (\<forall>w \<in> snd ` set ws. int (length w) \<le> lm_requests c))"

lemma limiter_ok_check:
  assumes "limiter_ok c ws" "limiter_cfg_ok c" "limiter_check c client now ws = (r, us)"
  shows "limiter_ok c us \<and> (r = Inr () \<longrightarrow> (\<exists>w. map_of us (client_key client) = Some (w @ [now]) \<and> int (length w) < lm_requests c))"
proof -
  let ?k = "client_key client" and ?n = "nat (int (length ws) - (lm_clients c - 1))"
  define others where "others = AList.delete ?k ws"
  define rest where "rest = (case map_of ws ?k of Some _ \<Rightarrow> others | None \<Rightarrow> drop ?n others)"
  define old where "old = (case map_of ws ?k of Some w \<Rightarrow> w | None \<Rightarrow> [])"
  define w where "w = trim_window (now - lm_window c) old"
  have d: "distinct (map fst ws)" using assms(1) by (simp add: limiter_ok_def)
  have sub: "set rest \<subseteq> set ws"
    using set_drop_subset[of ?n others] by (auto simp: rest_def others_def AList.delete_eq split: option.splits)
  have "set rest \<subseteq> set others" using set_drop_subset[of ?n others] by (auto simp: rest_def split: option.splits)
  then have k: "?k \<notin> fst ` set rest" using delete_notin_dom[of ?k ws] unfolding others_def by blast
  have dr: "distinct (map fst rest)"
    using distinct_delete[OF d, of ?k] distinct_drop[of "map fst others" ?n]
    by (auto simp: rest_def others_def drop_map split: option.splits)
  have len: "int (length rest) + 1 \<le> lm_clients c"
  proof (cases "map_of ws ?k")
    case None
    then have "others = ws" by (simp add: others_def map_of_eq_None_iff)
    then have "rest = drop ?n ws" by (simp add: rest_def None)
    moreover have "1 \<le> lm_clients c" using assms(2) by (simp add: limiter_cfg_ok_def)
    ultimately show ?thesis by (simp add: of_nat_diff_if nat_le_iff)
  next
    case (Some x)
    then have "ws \<noteq> []" by auto
    moreover have "length others = length ws - 1" using length_delete[OF d, of ?k] Some by (simp add: others_def)
    moreover have "rest = others" by (simp add: rest_def Some)
    ultimately show ?thesis using assms(1) by (cases ws) (simp_all add: limiter_ok_def)
  qed
  have "int (length old) \<le> lm_requests c"
    using assms(1,2) by (auto simp: old_def limiter_ok_def limiter_cfg_ok_def dest!: map_of_SomeD split: option.splits)
  then have w: "int (length w) \<le> lm_requests c" using trim_length[of "now - lm_window c" old] by (simp add: w_def)
  have step: "(r, us) = (if lm_requests c \<le> int (length w) then (Inl (retry_after_s (lm_window c) w now), rest @ [(?k, w)])
      else (Inr (), rest @ [(?k, w @ [now])]))"
    using assms(3) unfolding limiter_check_def Let_def w_def old_def rest_def others_def by (rule sym)
  have ok: "limiter_ok c (rest @ [(?k, v)])" if "int (length v) \<le> lm_requests c" for v
    using dr k len sub assms(1) that by (auto simp: limiter_ok_def)
  have "map_of rest ?k = None" using k by (simp add: map_of_eq_None_iff)
  then have "map_of (rest @ [(?k, v)]) ?k = Some v" for v by (simp add: map_add_def)
  then show ?thesis using step w ok by (auto split: if_splits)
qed

section \<open>Runs\<close>

definition small_gate :: gate_cfg where
  "small_gate = \<lparr>gt_channel = ''http'', gt_global = 2, gt_peer = 1, gt_global_rate = 3, gt_peer_rate = 1, gt_window = 10, gt_peers = 1\<rparr>"

definition no_gate :: gate where
  "no_gate = \<lparr>ga_window = [], ga_active = 0, ga_peers = []\<rparr>"

definition gate_after :: "string \<Rightarrow> rat \<Rightarrow> gate \<Rightarrow> gate" where
  "gate_after client now g = snd (gate_acquire small_gate client now g)"

definition start_system :: gate_system where
  "start_system = \<lparr>gs_gate = no_gate, gs_held = [], gs_pending = [], gs_now = 0, gs_log = []\<rparr>"

lemma first_admitted: "gate_acquire small_gate ''a'' 1 no_gate = (Inr ''a'', gate_after ''a'' 1 no_gate)"
proof -
  have "fst (gate_acquire small_gate ''a'' 1 no_gate) = Inr ''a''" by code_simp
  then show ?thesis by (simp add: gate_after_def prod_eq_iff)
qed

lemma gate_is_bounded_witness:
  "ga_active (gate_after ''a'' 1 no_gate) = 1 \<and> active_of ''a'' (gate_after ''a'' 1 no_gate) = 1 \<and>
    int (length (ga_peers (gate_after ''a'' 1 no_gate))) \<le> 1"
proof -
  have key: "client_key ''a'' = ''a''" by code_simp
  let ?t = "\<lparr>gs_gate = gate_after ''a'' 1 no_gate, gs_held = [''a''], gs_pending = [], gs_now = 1, gs_log = [(''a'', 1)]\<rparr>"
  have "gate_step small_gate {''a''} start_system ?t"
    using gate_step.Admit[of start_system 1 "''a''" "{''a''}" small_gate "''a''" "gate_after ''a'' 1 no_gate"] first_admitted
    by (simp add: start_system_def key)
  then have run: "(gate_step small_gate {''a''})\<^sup>*\<^sup>* start_system ?t" by (rule r_into_rtranclp)
  have "gate_cfg_ok small_gate" by code_simp
  moreover have "gate_init start_system" by (simp add: gate_init_def start_system_def no_gate_def)
  ultimately show ?thesis
    using gate_is_bounded[OF _ _ run, of "''a''" 0] by (simp add: in_use_def small_gate_def)
qed

text \<open>
  A peer that was displaced starts a new window: with one place, \<open>a\<close> is admitted twice within the window although
  its rate is one.  The displacing call need not be admitted itself: it is refused for the global rate only after
  it has taken the place.
\<close>

lemma displaced_peer_starts_anew:
  "let g1 = gate_release ''a'' 2 (gate_after ''a'' 1 no_gate); g2 = gate_release ''b'' 4 (gate_after ''b'' 3 g1)
   in fst (gate_acquire small_gate ''a'' 5 g1) = Inl (RateLimited 6) \<and> fst (gate_acquire small_gate ''a'' 5 g2) = Inr ''a''"
  by code_simp

lemma refused_call_displaces:
  "let g = \<lparr>ga_window = [1, 2, 3], ga_active = 0, ga_peers = [(''a'', \<lparr>pe_attempts = [3], pe_active = 0, pe_seen = 3\<rparr>)]\<rparr>;
       (r, h) = gate_acquire small_gate ''b'' 4 g
   in r = Inl (RateLimited 7) \<and> map fst (ga_peers h) = [''b'']"
  by code_simp

end
