(* ===== verification/AccessProps.thy ===== *)
theory AccessProps
  imports Access SessionsProps PreAuthProps
begin

text \<open>
  What the access policy promises: on a public deployment every caller is somebody the session store vouches for,
  with the exceptions listed, and the runtime of the host is reached with the admin token only.
\<close>

section \<open>Kinds of calls\<close>

definition owner_call :: "http_request \<Rightarrow> bool" where
  "owner_call q = (owner_capability_for_route (hq_verb q) (hq_path q) \<noteq> None)"

definition host_call :: "http_request \<Rightarrow> bool" where
  "host_call q = host_capability_route (hq_verb q) (hq_path q)"

definition sync_call :: "http_request \<Rightarrow> bool" where
  "sync_call q = (take 8 (hq_path q) = ''/hub/v1/'' \<and> py_strip (hq_sync q) \<noteq> [])"

definition open_call :: "http_request \<Rightarrow> bool" where
  "open_call q = (map upper_char (hq_verb q) = ''OPTIONS'' \<or> hq_path q \<in> set metadata_paths)"

definition ticket_call :: "http_request \<Rightarrow> bool" where
  "ticket_call q = (map upper_char (hq_verb q) = ''GET'' \<and> share_target (hq_path q) \<noteq> None \<and> hq_share q \<noteq> [])"

definition ticket_answer :: "session_cfg \<Rightarrow> rat \<Rightarrow> http_request \<Rightarrow> idb \<Rightarrow> session_error + principal" where
  "ticket_answer c now q db =
     validate_resource_ticket c now (hq_share q) (fst (the (share_target (hq_path q)))) (snd (the (share_target (hq_path q)))) db"

lemma by_store_Inr: "by_store r = Inr y \<longleftrightarrow> r = Inr y"
  by (cases r) (auto simp: by_store_def)

lemma local_not_principal_of: "principal_of r \<noteq> local_principal"
  by (simp add: principal_of_def local_principal_def)

lemma bearer_principal_Inr:
  "bearer_principal c now a db = Inr p \<longleftrightarrow> is_bearer a \<and> auth_token a \<noteq> [] \<and> validate_public_token c now (auth_token a) db = Inr p"
  by (simp add: bearer_principal_def by_store_Inr)

lemma host_not_owner: "host_call q \<Longrightarrow> \<not> owner_call q"
proof
  assume h: "host_call q" and "owner_call q"
  then have "hq_path q = ''/artifacts/generate''" by (auto simp: owner_call_def owner_capability_for_route_def split: if_splits)
  with h show False
    by (simp add: host_call_def host_capability_route_def below_def segment_between_def Let_def)
qed

lemma no_admin_unless_configured: "admin_call x q \<Longrightarrow> py_strip (ax_debug_token x) \<noteq> []"
  by (simp add: admin_call_def has_admin_token_def Let_def)

text \<open>The order of the checks, one equation per kind of call.\<close>

lemma resolve_owner:
  assumes "owner_call q"
  shows "resolve_http_principal x c now q db = bindE (resolve_owner_principal x c now q ''artifact:generate'' db) (\<lambda>p. Inr (p, db))"
  using assms unfolding resolve_http_principal_def owner_call_def owner_capability_for_route_def Let_def by (simp split: if_splits)

lemma resolve_host:
  assumes "host_call q"
  shows "resolve_http_principal x c now q db =
    (if \<not> ax_public x \<and> hq_host q \<in> set loopback_hosts \<or> admin_call x q then Inr (local_principal, db) else Inl AdminRequired)"
  using assms host_not_owner[OF assms]
  unfolding resolve_http_principal_def owner_call_def host_call_def Let_def require_host_admin_def admin_call_def by simp

lemma resolve_other:
  assumes "\<not> owner_call q" "\<not> host_call q" "ax_public x"
  shows "resolve_http_principal x c now q db =
    (if sync_call q then by_store (validate_sync_token c now (hq_sync q) db)
     else if open_call q \<or> admin_call x q then Inr (local_principal, db)
     else if ticket_call q then bindE (by_store (ticket_answer c now q db)) (\<lambda>p. Inr (p, db))
     else if \<not> supported_client q then Inl UpgradeRequired
     else if hq_path q \<in> set anonymous_paths then Inr (local_principal, db)
     else bindE (bearer_principal c now (hq_authorization q) db) (\<lambda>p. Inr (p, db)))"
  using assms
  unfolding resolve_http_principal_def owner_call_def host_call_def sync_call_def open_call_def ticket_call_def ticket_answer_def Let_def
  by simp

lemma resolve_owner_public:
  assumes "ax_public x"
  shows "resolve_owner_principal x c now q ''artifact:generate'' db = Inr p \<longleftrightarrow>
    (if admin_call x q then p = local_principal
     else supported_client q \<and> bearer_principal c now (hq_authorization q) db = Inr p \<and> has_family p)"
proof (cases "admin_call x q")
  case True
  then show ?thesis using assms
    by (auto simp: resolve_owner_principal_def bindE_Inr_iff require_owner_capability_def admin_call_def)
next
  case False
  then show ?thesis using assms
    by (auto simp: resolve_owner_principal_def bindE_Inr_iff require_owner_capability_def admin_call_def split: if_splits)
qed

lemma bearer_never_local: "bearer_principal c now a db \<noteq> Inr local_principal"
  using bearer_session local_not_principal_of by (metis bearer_principal_Inr)

lemma sync_token_principal:
  assumes "validate_sync_token c now token db = Inr (p, db')"
  shows "pri_public p \<and> pri_family p = None"
  using assms by (auto simp: validate_sync_token_def split: option.splits if_splits)

lemma public_not_local: "pri_public p \<Longrightarrow> p \<noteq> local_principal"
  by (auto simp: local_principal_def)

section \<open>Who gets in\<close>

lemma local_answer_iff:
  assumes "ax_public x" "idb_ok db"
  shows "resolve_http_principal x c now q db = Inr (local_principal, db) \<longleftrightarrow>
    (if owner_call q \<or> host_call q then admin_call x q
     else \<not> sync_call q \<and> (open_call q \<or> admin_call x q \<or>
       \<not> ticket_call q \<and> supported_client q \<and> hq_path q \<in> set anonymous_paths))"
proof (cases "owner_call q \<or> host_call q")
  case True
  then show ?thesis
  proof
    assume "owner_call q"
    then show ?thesis
      using bearer_never_local[of c now "hq_authorization q" db]
      by (auto simp: resolve_owner bindE_Inr_iff resolve_owner_public[OF assms(1)])
  next
    assume "host_call q"
    then show ?thesis using assms(1) by (simp add: resolve_host)
  qed
next
  case False
  have "validate_sync_token c now (hq_sync q) db \<noteq> Inr (local_principal, db)"
    using sync_token_principal public_not_local by blast
  moreover have "ticket_answer c now q db \<noteq> Inr local_principal"
    unfolding ticket_answer_def using ticket_session[OF assms(2)] local_not_principal_of by metis
  ultimately show ?thesis
    using False bearer_never_local[of c now "hq_authorization q" db]
    by (simp add: resolve_other[OF _ _ assms(1)] by_store_Inr bindE_Inr_iff)
qed

text \<open>The principals that the store vouches for.\<close>

definition vouched :: "session_cfg \<Rightarrow> rat \<Rightarrow> http_request \<Rightarrow> idb \<Rightarrow> principal \<Rightarrow> bool" where
  "vouched c now q db p =
     (\<exists>r. p = principal_of r \<and> live_session now db r \<and>
        (supported_client q \<and> is_bearer (hq_authorization q) \<and> ses_hash r = cfg_hash c (auth_token (hq_authorization q)) \<or>
         ticket_call q \<and> ticket_answer c now q db = Inr p))"

lemma other_answer:
  assumes "ax_public x" "idb_ok db" "resolve_http_principal x c now q db = Inr (p, db')" "p \<noteq> local_principal"
  shows "\<not> host_call q \<and> (sync_call q \<and> validate_sync_token c now (hq_sync q) db = Inr (p, db') \<or> db' = db \<and> vouched c now q db p)"
proof -
  have bearer: "vouched c now q db p" if "bearer_principal c now (hq_authorization q) db = Inr p" "supported_client q"
    using that bearer_session unfolding bearer_principal_Inr vouched_def by blast
  have ticket: "vouched c now q db p" if "ticket_answer c now q db = Inr p" "ticket_call q"
    using that ticket_session[OF assms(2)] unfolding ticket_answer_def vouched_def by blast
  show ?thesis
  proof (cases "owner_call q")
    case True
    then have "resolve_owner_principal x c now q ''artifact:generate'' db = Inr p" "db' = db"
      using assms(3) by (auto simp: resolve_owner bindE_Inr_iff)
    then show ?thesis using True host_not_owner assms(4) bearer resolve_owner_public[OF assms(1)] by (auto split: if_splits)
  next
    case False
    have h: "\<not> host_call q" using assms(3,4) by (auto simp: resolve_host split: if_splits)
    show ?thesis
      using assms(3,4) h bearer ticket unfolding resolve_other[OF False h assms(1)]
      by (auto simp: by_store_Inr bindE_Inr_iff split: if_splits)
  qed
qed


section \<open>Runs\<close>

definition public_cfg :: access_cfg where
  "public_cfg = \<lparr>ax_public = True, ax_lan_full = False, ax_file_origin = False, ax_debug_token = ''root'',
     ax_allowed_origins = [], ax_http_global = 8, ax_http_peer = 4, ax_http_global_rate = 100, ax_http_peer_rate = 20,
     ax_ws_global = 8, ax_ws_peer = 4, ax_ws_global_rate = 100, ax_ws_peer_rate = 20, ax_window = 10, ax_max_peers = 64,
     ax_upload_slots = 4, ax_enrollment = cfg_policy visit_cfg, ax_cleanup_interval = 60\<rparr>"

definition visit_call :: "string \<Rightarrow> string \<Rightarrow> http_request" where
  "visit_call path authorization = \<lparr>hq_verb = ''get'', hq_path = path, hq_host = ''10.0.0.7'', hq_authorization = authorization,
     hq_admin = [], hq_share = [], hq_version = ''echodesk-0.4.0'', hq_sync = []\<rparr>"

text \<open>The renewed bearer of the visitor opens its meetings; the same bearer does not open the administration.\<close>

lemma visit_supported: "supported_client (visit_call path authorization)"
proof -
  have "is_supported_public_client (Some ''echodesk-0.4.0'')"
    unfolding is_supported_public_client_def minimum_parts by code_simp
  then show ?thesis by (simp add: supported_client_def visit_call_def)
qed

lemma visit_bearer:
  "bearer_principal visit_cfg 20 ''Bearer k2'' (sys_db visit2) = Inr (principal_of (last (idb_sessions (sys_db visit2))))"
  by code_simp

lemma visit_kind:
  "\<not> owner_call (visit_call ''/meetings'' ''Bearer k2'')" "\<not> host_call (visit_call ''/meetings'' ''Bearer k2'')"
  "\<not> sync_call (visit_call ''/meetings'' ''Bearer k2'')" "\<not> open_call (visit_call ''/meetings'' ''Bearer k2'')"
  "\<not> admin_call public_cfg (visit_call ''/meetings'' ''Bearer k2'')" "\<not> ticket_call (visit_call ''/meetings'' ''Bearer k2'')"
  "hq_path (visit_call ''/meetings'' ''Bearer k2'') \<notin> set anonymous_paths" "ax_public public_cfg"
  "hq_authorization (visit_call ''/meetings'' ''Bearer k2'') = ''Bearer k2''"
  by code_simp+


text \<open>
  A dot of a pattern does not match a newline: a path below \<open>/admin\<close> that holds one is no path of the host's
  runtime, so on a local deployment a caller from another machine needs no admin token to be resolved.
\<close>

definition broken_path :: string where
  "broken_path = ''/admin/meetings/a'' @ [CHR 0x0A] @ ''/export''"

definition stranger_call :: "string \<Rightarrow> http_request" where
  "stranger_call path = (visit_call path [])\<lparr>hq_version := []\<rparr>"

lemma newline_path_not_host:
  "\<not> host_call (stranger_call broken_path)" "host_call (stranger_call ''/admin/meetings/a/export'')"
  "resolve_http_principal (public_cfg\<lparr>ax_public := False\<rparr>) visit_cfg 20 (stranger_call ''/admin/meetings/a/export'') db = Inl AdminRequired"
  "resolve_http_principal (public_cfg\<lparr>ax_public := False\<rparr>) visit_cfg 20 (stranger_call broken_path) db = Inr (local_principal, db)"
proof -
  show n: "\<not> host_call (stranger_call broken_path)" and h: "host_call (stranger_call ''/admin/meetings/a/export'')"
    by code_simp+
  have "owner_capability_for_route ''get'' broken_path = None" "hq_sync (stranger_call broken_path) = []"
      "hq_verb (stranger_call broken_path) = ''get''" "hq_path (stranger_call broken_path) = broken_path" "take 8 broken_path \<noteq> ''/hub/v1/''"
    by code_simp+
  with n show "resolve_http_principal (public_cfg\<lparr>ax_public := False\<rparr>) visit_cfg 20 (stranger_call broken_path) db = Inr (local_principal, db)"
    by (simp add: resolve_http_principal_def host_call_def)
  have "hq_host (stranger_call ''/admin/meetings/a/export'') \<notin> set loopback_hosts"
      "\<not> admin_call (public_cfg\<lparr>ax_public := False\<rparr>) (stranger_call ''/admin/meetings/a/export'')"
    by code_simp+
  then show "resolve_http_principal (public_cfg\<lparr>ax_public := False\<rparr>) visit_cfg 20 (stranger_call ''/admin/meetings/a/export'') db = Inl AdminRequired"
    by (simp add: resolve_host[OF h])
qed

end
