(* ===== verification/Spec2Isabelle.thy ===== *)
theory Spec2Isabelle
  imports WorkflowProps CommandOutbox AutoMeeting AsrAdmission EventBusProps OutboxDrain HubState SyncHubProps
    SyncNotify GovernorProps Registry SessionsProps CapErrors CapHosts AccessProps
begin

text \<open>
  EchoDesk backend: the concurrency and persistence core of \<open>src/backend/app\<close>.

  \<^bold>\<open>The program.\<close>  A FastAPI process records meetings, transcribes them, runs agents and
  retrieval, and tells browser sessions what happened.  Several processes may share one SQLite
  database.  What they do is recorded as workflow runs (\<open>workflows/service.py\<close>); a run is executed
  by the process that holds its lease (\<open>runtime/execution_lease.py\<close>); every change of a run appends
  an event and, in the same transaction, a row of the outbox; each process delivers the outbox to its
  own event bus (\<open>adapters/event_bus/inmemory.py\<close>), from which the WebSocket sessions read.
  Cancellations of agent tasks go through a second outbox (\<open>agents/command_outbox.py\<close>).  Audio
  is admitted to the transcription scheduler (\<open>adapters/stt/scheduler.py\<close>), which queues jobs per
  scope and fails over between providers; the transcript drives the automatic start and end of
  meetings (\<open>use_cases/auto_meeting_detector.py\<close>).  A process can serve as the sync hub of a user's
  devices (\<open>sync_hub/store.py\<close>).  A public deployment enrolls devices and issues their sessions
  (\<open>security/sessions.py\<close>), rations each principal (\<open>security/governor.py\<close>) and keeps one bounded
  runtime per principal (\<open>runtime/scoped_registry.py\<close>).  The access policy (\<open>security/access.py\<close> with
  \<open>security/client_version.py\<close>) decides who a request is before anything else looks at it: it bounds the requests
  under way and their rate per peer, classifies the route, and takes the principal from an admin token, a device's
  sync token, a resource ticket or a session.  What the tools of an agent may touch (paths,
  commands, hosts, skills) is decided from permission facts by \<open>agent_capabilities\<close>: \<open>compiler.py\<close> checks
  the facts and compiles them to rules and to a grant snapshot, \<open>catalog.py\<close> binds the snapshot to the
  observed workspace and decides an invocation against it, and \<open>host_runtime.py\<close> keeps the calls in flight
  and cancels them when a grant is revoked.

  \<^bold>\<open>The theories.\<close>
  \<^item> \<open>Prelude\<close>: Python values (floats, JSON, UTF-8 strings), exceptions as values (\<open>bindE\<close>,
    \<open>transact\<close>), the SQL idioms and list lemmas all components share.  \<open>Systems\<close>: the locales
    for state machines (initial states, steps, invariants) that the components interpret.
  \<^item> \<open>ExecLease\<close>: \<open>ExecutionLeaseStore\<close>; acquire, renew, release and check of fenced leases; C1, C2.
  \<^item> \<open>WorkflowDb\<close>: runs, events, the outbox rows and the guarded state update of
    \<open>WorkflowService\<close>; \<open>WorkflowService\<close>: its operations, one definition per method;
    \<open>WorkflowCorrect\<close>, \<open>WorkflowArbitration\<close>: every operation preserves the database invariant
    and only moves runs along legal transitions; \<open>WorkflowProps\<close>: C3, C4, C6, C7.
  \<^item> \<open>Outbox\<close>, \<open>OutboxGlobal\<close>, \<open>OutboxFlush\<close>: the delivery half of \<open>WorkflowService\<close>: consumers and
    their cursors, recovery lanes, the global scanner with its fenced lease, a flush, pruning, the
    drain loop, shutdown; \<open>OutboxCorrect\<close>: the position of a consumer and which operations leave it
    alone; \<open>OutboxRefine\<close>: the specification, one queue per scope, and the simulation;
    \<open>OutboxProps\<close>, \<open>OutboxDrain\<close>: C32, C33, C35 to C38, and that a drain loses nothing.
  \<^item> \<open>CommandOutbox\<close>: \<open>AgentCommandOutbox\<close>; C17.
  \<^item> \<open>AutoMeeting\<close>: \<open>AutoMeetingDetector\<close>; C20.
  \<^item> \<open>AsrCircuit\<close>: provider selection, circuit breaker and the failover loop of \<open>ASRScheduler\<close>, with
    the errors of \<open>adapters/stt/errors.py\<close>; C22.  \<open>AsrAdmission\<close>: admission, the fair queues,
    completion and the idempotency records; C25.
  \<^item> \<open>EventBus\<close>: \<open>InMemoryEventBus\<close> with its subscriptions; \<open>EventBusCorrect\<close>: its invariant;
    \<open>EventBusProps\<close>: C28, C29.
  \<^item> \<open>PyText\<close>: Python's text operations and JSON values as objects.  \<open>HubState\<close>: the local state of the
    hub client (\<open>hub/state.py\<close>), its tolerant parser and its writer; C39, C40.
  \<^item> \<open>SyncHub\<close>: \<open>SyncHubStore\<close>: pairing, push with its revision check, the change feed, the snapshot, the
    devices; \<open>SyncHubCorrect\<close>: the invariant over histories of the database; \<open>SyncHubProps\<close>: C11, C13,
    C16, C18, and runs that show what the code does not guarantee; \<open>SyncNotify\<close>: the waiters of the
    WebSocket feed.
  \<^item> \<open>Sessions\<close>: \<open>SessionStore\<close>: enrollment with its admission windows, renewal, rotation, the claim of a
    legacy identity, validation, revocation, clean-ups, resource tickets; \<open>SessionsCorrect\<close>: every call keeps
    the keys, references and generations, and revives no bearer; \<open>SessionsSystem\<close>: all calls in any order, as
    a fenced store and as a log with sliding windows; \<open>SessionsProps\<close>: C8, C14, C26, C31, and the run in
    which one device blocks every enrollment.
  \<^item> \<open>Governor\<close>: \<open>PrincipalGovernor\<close>: concurrency slots, the budget ledger with its reservations, the
    rate of websocket frames; \<open>GovernorProps\<close>: C5, C9, and the frame rate per scope.
  \<^item> \<open>PreAuth\<close>: \<open>PreAuthAdmission\<close> and \<open>SessionIssueLimiter\<close>; \<open>PreAuthProps\<close>: the gate with its callers as a
    state machine; C15, and what a displaced peer may do.  \<open>ClientVersion\<close>: the version gate of public clients is
    the precedence of semantic versions.  \<open>Access\<close>: \<open>AccessPolicy\<close>, routes, origins, the resolution of principals
    and the issuing of sessions; \<open>AccessProps\<close>: which calls get which principal; C34.
  \<^item> \<open>Registry\<close>: \<open>ScopedRuntimeRegistry\<close>: eviction, leases and closing of runtimes; C21, C27.
  \<^item> \<open>PathLex\<close>: \<open>posixpath.normpath\<close>, \<open>ntpath.splitdrive\<close> and \<open>ntpath.normpath\<close> with what the proofs need
    of them (a normal path has plain names, normalising is idempotent, it never climbs above its root).
    \<open>CapPolicy\<close>: \<open>policy.py\<close>, the parsing of scopes and requests and the authorization of one request by one
    scope.  \<open>CapCatalog\<close>: \<open>types.py\<close> and \<open>catalog.py\<close>, grant snapshots, the binding of a verified workspace
    and \<open>evaluate_capability\<close>.  \<open>CapCompiler\<close>: \<open>compiler.py\<close>, \<open>compile_grant\<close> and \<open>decide\<close>.
  \<^item> \<open>CapPaths\<close>: containment of normal POSIX paths is the prefix order of their names; C12.  \<open>CapRules\<close>: what
    a compiled rule covers, and the search for conflicts as a locale with one instance per kind of scope.
    \<open>CapProps\<close>: deny before allow, no conflicting rules; C19, C23.  \<open>CapPublic\<close>: what the snapshot grants to
    paths was granted by a rule; C24, and runs where the snapshot grants more.  \<open>CapErrors\<close>: which exceptions
    leave the decision functions; C30.  \<open>CapHosts\<close>: \<open>CapabilityHostRegistry\<close> with its cancellation tokens,
    calls and revocations in any order; C10.

  \<^bold>\<open>How the parts meet.\<close>  The workflow operations take the execution leases of \<open>ExecLease\<close> as part
  of their database and refuse to write under a lost one.  The delivery theories run the bus of
  \<open>EventBus\<close> inside the state of a process: a publication that the bus refuses is the failure that
  opens a recovery lane.  The rows they deliver have the shape of the rows that the workflow
  operations append (C6 says which those are).  Sessions, governor and hub write the same identity tables:
  the session store removes the rows of the governor's ledger with an orphan, and the hub refers to its devices.

  \<^bold>\<open>Conventions.\<close>  A method is one function on an explicit state and returns its value or an
  exception; a body under \<open>BEGIN IMMEDIATE\<close> or an asyncio lock is one atomic step, and where a
  method gives the lock up in between it is several.  Concurrency is the interleaving of such
  steps in an inductive step relation; invariants are proved by rule induction over it.  Clocks,
  random identifiers and digests are parameters, as are, in the record \<open>pylib\<close>, the tables and packages
  the capability code calls: Unicode case folding and whitespace, IDNA, \<open>ipaddress\<close>, ISO dates, JSON printing,
  \<open>fnmatch\<close> and the trimming that pydantic does.  Times are exact rationals; \<open>Prelude\<close> says what
  this leaves out of Python's floats.

  \<^bold>\<open>Bounds and termination.\<close>  No definition uses fuel; the failover loop recurses on the
  attempts the code allows it.  The lane loops of a flush terminate because they process at least one
  row per turn and stop at their limit.  \<open>drain_outbox\<close> may run forever in the code (a bus that
  always refuses while the clock advances), so it is a partial function; C38 states when it returns.

  \<^bold>\<open>Not modelled.\<close>  HTTP and WebSocket endpoints, repositories of other tables, prompts and calls
  of external services, the file system of artifacts, and settings; the list of components in the
  manifest names each.  Within the modelled files: the poller task and the listing of principals
  with unfinished runs in \<open>workflows/service.py\<close>; telemetry and the provider call itself in
  \<open>adapters/stt/scheduler.py\<close>; the container of components in \<open>runtime/scoped_registry.py\<close>.  SHA-256 is a
  parameter.  In \<open>agent_capabilities\<close>: the hosts that run a command, a request or a skill
  (\<open>command_network_hosts.py\<close>, \<open>skill_host.py\<close>, \<open>hosts\<close>), which are effects of the operating system, the
  audit and redaction text, and the identifiers, times and metadata of receipts.  The agent task service
  (\<open>agents/service.py\<close>), the middlewares of \<open>main.py\<close> that call the access policy, the upload ownership (\<open>upload/ownership.py\<close>) and the capture pipelines are not
  modelled: their decisions are interleaved with subprocesses, files and external models, and what
  of them changes the shared tables goes through the operations modelled here.
\<close>

end
